(* ===== verification/Prelude.thy ===== *)
theory Prelude
  imports Main "HOL-Library.Word" "HOL-Library.Char_ord" "HOL-Library.List_Lexorder"
begin

text \<open>
  What every component of the development shares: the ways a dcmpi call can fail, the
  results that carry them, loops with an early exit, the ranges of the machine integers,
  and blocks of memory that are read and written at an offset.
\<close>

section \<open>Results\<close>

text \<open>
  \<open>Exit_failure\<close> is \<open>exit(1)\<close> after an error message, \<open>Assert_failure\<close> a failed
  \<open>assert\<close>, \<open>Undefined_behaviour\<close> whatever the C++ standard leaves undefined (an access
  outside a block, a read of an uninitialised variable, an overflow of a signed integer), and
  \<open>Uncaught_exception\<close> an exception of the standard library that nothing catches.
\<close>

datatype failure = Exit_failure | Assert_failure | Undefined_behaviour | Uncaught_exception

type_synonym 'a result = "failure + 'a"

primrec bind_result :: "'a result \<Rightarrow> ('a \<Rightarrow> 'b result) \<Rightarrow> 'b result" where
  "bind_result (Inl e) f = Inl e"
| "bind_result (Inr x) f = f x"

named_theorems result_simps

lemma bind_result_Inr_iff [result_simps]:
  "bind_result r f = Inr y \<longleftrightarrow> (\<exists>x. r = Inr x \<and> f x = Inr y)"
  by (cases r) auto

lemma bind_result_Inl_iff:
  "bind_result r f = Inl e \<longleftrightarrow> r = Inl e \<or> (\<exists>x. r = Inr x \<and> f x = Inl e)"
  by (cases r) auto

lemma bind_result_assoc:
  "bind_result (bind_result r f) g = bind_result r (\<lambda>x. bind_result (f x) g)"
  by (cases r) auto

lemma bind_result_return [simp]: "bind_result r Inr = r"
  by (cases r) auto

text \<open>Runs a step for each element of a list until one step fails, as a loop that exits does.\<close>

fun fold_result :: "('a \<Rightarrow> 's \<Rightarrow> 's result) \<Rightarrow> 'a list \<Rightarrow> 's \<Rightarrow> 's result" where
  "fold_result f [] s = Inr s"
| "fold_result f (x # xs) s = bind_result (f x s) (fold_result f xs)"

lemma fold_result_append:
  "fold_result f (xs @ ys) s = bind_result (fold_result f xs s) (fold_result f ys)"
proof (induction xs arbitrary: s)
  case Nil
  then show ?case by simp
next
  case (Cons x xs)
  then show ?case by (cases "f x s") auto
qed

lemma fold_result_inv:
  assumes "fold_result f xs s = Inr t" and "P s"
    and "\<And>x s t. x \<in> set xs \<Longrightarrow> P s \<Longrightarrow> f x s = Inr t \<Longrightarrow> P t"
  shows "P t"
  using assms
proof (induction xs arbitrary: s)
  case Nil
  then show ?case by simp
next
  case (Cons x xs)
  from Cons.prems(1) obtain u where u: "f x s = Inr u" "fold_result f xs u = Inr t"
    by (auto simp: result_simps)
  have "P u" using Cons.prems(2) u(1) Cons.prems(3) by (meson list.set_intros(1))
  with u(2) show ?case
    by (rule Cons.IH) (meson Cons.prems(3) list.set_intros(2))
qed

section \<open>Machine integers\<close>

text \<open>
  The widths of \<open>dcmpi_typedefs.h\<close>. Sizes and counters that the code keeps in an \<open>int\<close> are
  mathematical integers guarded by \<open>int4_ok\<close>: leaving the range is a signed overflow.
\<close>

type_synonym uint1 = "8 word"
type_synonym int2 = "16 word"
type_synonym int4 = "32 word"
type_synonym int8 = "64 word"

definition int4_ok :: "int \<Rightarrow> bool" where
  "int4_ok i \<longleftrightarrow> - (2 ^ 31) \<le> i \<and> i < 2 ^ 31"

section \<open>Blocks of memory\<close>

text \<open>
  \<open>block_write blk off bs\<close> is \<open>memcpy(blk + off, bs, n)\<close>, \<open>block_read blk off n\<close> reads \<open>n\<close>
  bytes at \<open>blk + off\<close>. An access that leaves the block is undefined.
\<close>

definition block_write :: "char list \<Rightarrow> nat \<Rightarrow> char list \<Rightarrow> char list result" where
  "block_write blk off bs =
     (if off + length bs \<le> length blk
      then Inr (take off blk @ bs @ drop (off + length bs) blk)
      else Inl Undefined_behaviour)"

definition block_read :: "char list \<Rightarrow> nat \<Rightarrow> nat \<Rightarrow> char list result" where
  "block_read blk off n =
     (if off + n \<le> length blk then Inr (take n (drop off blk)) else Inl Undefined_behaviour)"

lemma block_write_length:
  "block_write blk off bs = Inr blk' \<Longrightarrow> length blk' = length blk"
  by (auto simp: block_write_def split: if_splits)

lemma block_write_fits:
  "off + length bs \<le> length blk \<Longrightarrow>
     block_write blk off bs = Inr (take off blk @ bs @ drop (off + length bs) blk)"
  by (simp add: block_write_def)

lemma block_read_fits:
  "off + n \<le> length blk \<Longrightarrow> block_read blk off n = Inr (take n (drop off blk))"
  by (simp add: block_read_def)

lemma block_read_length: "block_read blk off n = Inr bs \<Longrightarrow> length bs = n"
  by (auto simp: block_read_def split: if_splits)

section \<open>Lists\<close>

lemma drop_take_prefix:
  assumes "take n xs = p @ q"
  shows "take (length q) (drop (length p) xs) = q" and "length p + length q \<le> length xs"
proof -
  have len: "length p + length q = min n (length xs)"
    using assms by (metis length_append length_take min.commute)
  then show "length p + length q \<le> length xs" by simp
  have "take (length q) (drop (length p) xs) = drop (length p) (take (length p + length q) xs)"
    by (simp add: drop_take)
  also have "take (length p + length q) xs = take n xs"
    by (metis len append_take_drop_id length_take take_all_iff take_take min.cobounded2 nle_le
        min.absorb_iff2 min.commute)
  finally show "take (length q) (drop (length p) xs) = q"
    using assms by simp
qed

end
