(* ===== verification/StdContainers.thy ===== *)
theory StdContainers
  imports Prelude
begin

text \<open>
  \<open>std::map\<close> and \<open>std::set\<close> as the code uses them: iteration is in increasing key order, so a
  map is the list of its entries in that order and a set the list of its elements. The
  interface that the serialisers and the port tables rely on is the locale
  \<open>ordered_map\<close>; it is interpreted on \<open>map_put\<close> and \<open>map_of\<close>.
\<close>

section \<open>Maps\<close>

type_synonym ('k, 'v) std_map = "('k \<times> 'v) list"

text \<open>\<open>m[k] = v\<close>.\<close>

fun map_put :: "'k::linorder \<Rightarrow> 'v \<Rightarrow> ('k, 'v) std_map \<Rightarrow> ('k, 'v) std_map" where
  "map_put k v [] = [(k, v)]"
| "map_put k v ((k', v') # m) =
     (if k < k' then (k, v) # (k', v') # m
      else if k = k' then (k, v) # m
      else (k', v') # map_put k v m)"

text \<open>\<open>m.count(k)\<close> as a test.\<close>

definition map_has :: "'k \<Rightarrow> ('k, 'v) std_map \<Rightarrow> bool" where
  "map_has k m \<longleftrightarrow> map_of m k \<noteq> None"

definition map_wf :: "('k::linorder, 'v) std_map \<Rightarrow> bool" where
  "map_wf m \<longleftrightarrow> sorted_wrt (<) (map fst m)"

definition map_get_def :: "'k \<Rightarrow> 'v \<Rightarrow> ('k, 'v) std_map \<Rightarrow> 'v" where
  "map_get_def k d m = (case map_of m k of None \<Rightarrow> d | Some v \<Rightarrow> v)"

lemma map_wf_Nil [simp, intro]: "map_wf []"
  by (simp add: map_wf_def)

lemma map_wf_Cons: "map_wf ((k, v) # m) \<longleftrightarrow> (\<forall>k'\<in>fst ` set m. k < k') \<and> map_wf m"
  by (auto simp: map_wf_def)

lemma keys_map_put: "fst ` set (map_put k v m) = insert k (fst ` set m)"
  by (induction k v m rule: map_put.induct) auto

lemma map_wf_put [intro]: "map_wf m \<Longrightarrow> map_wf (map_put k v m)"
proof (induction k v m rule: map_put.induct)
  case (1 k v)
  then show ?case by (simp add: map_wf_Cons)
next
  case (2 k v k' v' m)
  then show ?case by (auto simp: map_wf_Cons keys_map_put)
qed

lemma map_of_put: "map_wf m \<Longrightarrow> map_of (map_put k v m) = (map_of m)(k \<mapsto> v)"
proof (induction k v m rule: map_put.induct)
  case (1 k v)
  then show ?case by simp
next
  case (2 k v k' v' m)
  show ?case
  proof (cases "k < k' \<or> k = k'")
    case True
    then show ?thesis by auto
  next
    case False
    with 2 have "map_of (map_put k v m) = (map_of m)(k \<mapsto> v)"
      by (auto simp: map_wf_Cons)
    with False show ?thesis by (auto simp: fun_upd_twist)
  qed
qed

lemma map_wf_distinct: "map_wf m \<Longrightarrow> distinct (map fst m)"
  by (auto simp: map_wf_def strict_sorted_iff)

lemma map_wf_ext:
  assumes "map_wf m" and "map_wf m'" and "\<And>k. map_of m k = map_of m' k"
  shows "m = m'"
proof (rule map_sorted_distinct_set_unique)
  have "map_of m = map_of m'" using assms(3) by auto
  then show eq: "set m = set m'"
    using assms(1,2) by (metis map_wf_distinct map_of_inject_set)
  show "inj_on fst (set m \<union> set m')"
    using eq map_wf_distinct [OF assms(1)] by (simp add: distinct_map)
qed (use assms(1,2) in \<open>auto simp: map_wf_def strict_sorted_iff\<close>)

subsection \<open>The interface\<close>

locale ordered_map =
  fixes empty :: 'm
    and put :: "'k \<Rightarrow> 'v \<Rightarrow> 'm \<Rightarrow> 'm"
    and get :: "'m \<Rightarrow> 'k \<Rightarrow> 'v option"
    and entries :: "'m \<Rightarrow> ('k \<times> 'v) list"
    and wf :: "'m \<Rightarrow> bool"
  assumes wf_empty: "wf empty"
    and wf_put: "wf m \<Longrightarrow> wf (put k v m)"
    and get_empty: "get empty k = None"
    and get_put: "wf m \<Longrightarrow> get (put k v m) = (get m)(k \<mapsto> v)"
    and map_of_entries: "wf m \<Longrightarrow> map_of (entries m) = get m"
    and distinct_entries: "wf m \<Longrightarrow> distinct (map fst (entries m))"
    and ext: "wf m \<Longrightarrow> wf m' \<Longrightarrow> get m = get m' \<Longrightarrow> m = m'"
begin

lemma wf_fold: "wf m \<Longrightarrow> wf (fold (\<lambda>(k, v). put k v) kvs m)"
  by (induction kvs arbitrary: m) (auto intro: wf_put)

lemma get_fold:
  "wf m \<Longrightarrow> get (fold (\<lambda>(k, v). put k v) kvs m) = get m ++ map_of (rev kvs)"
proof (induction kvs arbitrary: m)
  case Nil
  then show ?case by simp
next
  case (Cons kv kvs)
  obtain k v where kv: "kv = (k, v)" by (cases kv)
  from Cons have "get (fold (\<lambda>(k, v). put k v) kvs (put k v m)) =
      get (put k v m) ++ map_of (rev kvs)"
    by (simp add: wf_put)
  with Cons.prems kv show ?case by (simp add: get_put)
qed

text \<open>A receiver that inserts the entries it reads, in order, rebuilds the sender's map.\<close>

lemma rebuild: "wf m \<Longrightarrow> fold (\<lambda>(k, v). put k v) (entries m) empty = m"
proof (rule ext)
  assume wf: "wf m"
  show "wf (fold (\<lambda>(k, v). put k v) (entries m) empty)"
    by (rule wf_fold [OF wf_empty])
  show "get (fold (\<lambda>(k, v). put k v) (entries m) empty) = get m"
  proof
    fix k
    have "map_of (rev (entries m)) = map_of (entries m)"
      using distinct_entries [OF wf] by (metis distinct_rev map_of_inject_set rev_map set_rev)
    then show "get (fold (\<lambda>(k, v). put k v) (entries m) empty) k = get m k"
      by (simp add: get_fold [OF wf_empty] get_empty map_of_entries [OF wf] map_add_def
          split: option.split)
  qed
qed auto

end

interpretation smap: ordered_map "[]" map_put map_of "\<lambda>m. m" map_wf
  by unfold_locales (auto simp: map_of_put map_wf_distinct intro: map_wf_ext)

section \<open>Sets\<close>

type_synonym 'a std_set = "'a list"

fun set_put :: "'a::linorder \<Rightarrow> 'a std_set \<Rightarrow> 'a std_set" where
  "set_put x [] = [x]"
| "set_put x (y # ys) = (if x < y then x # y # ys else if x = y then y # ys else y # set_put x ys)"

definition set_erase :: "'a \<Rightarrow> 'a std_set \<Rightarrow> 'a std_set" where
  "set_erase x xs = filter (\<lambda>y. y \<noteq> x) xs"

definition set_wf :: "'a::linorder std_set \<Rightarrow> bool" where
  "set_wf xs \<longleftrightarrow> sorted_wrt (<) xs"

lemma set_set_put [simp]: "set (set_put x xs) = insert x (set xs)"
  by (induction x xs rule: set_put.induct) auto

lemma set_set_erase [simp]: "set (set_erase x xs) = set xs - {x}"
  by (auto simp: set_erase_def)

lemma set_wf_Nil [simp, intro]: "set_wf []"
  by (simp add: set_wf_def)

lemma set_wf_put [intro]: "set_wf xs \<Longrightarrow> set_wf (set_put x xs)"
  unfolding set_wf_def by (induction x xs rule: set_put.induct) auto

lemma set_wf_erase [intro]: "set_wf xs \<Longrightarrow> set_wf (set_erase x xs)"
  unfolding set_wf_def set_erase_def by (rule sorted_wrt_filter)

lemma set_wf_ext: "set_wf xs \<Longrightarrow> set_wf ys \<Longrightarrow> set xs = set ys \<Longrightarrow> xs = ys"
  by (simp add: set_wf_def strict_sorted_equal)

lemma set_wf_distinct: "set_wf xs \<Longrightarrow> distinct xs"
  by (simp add: set_wf_def strict_sorted_iff)

text \<open>The interface of a set with its elements in a fixed order.\<close>

locale ordered_set =
  fixes empty :: 's
    and put :: "'a \<Rightarrow> 's \<Rightarrow> 's"
    and elems :: "'s \<Rightarrow> 'a list"
    and wf :: "'s \<Rightarrow> bool"
  assumes wf_empty: "wf empty"
    and wf_put: "wf s \<Longrightarrow> wf (put x s)"
    and elems_empty: "elems empty = []"
    and elems_put: "wf s \<Longrightarrow> set (elems (put x s)) = insert x (set (elems s))"
    and ext: "wf s \<Longrightarrow> wf t \<Longrightarrow> set (elems s) = set (elems t) \<Longrightarrow> s = t"
begin

lemma wf_fold: "wf s \<Longrightarrow> wf (fold put xs s)"
  by (induction xs arbitrary: s) (auto intro: wf_put)

lemma elems_fold: "wf s \<Longrightarrow> set (elems (fold put xs s)) = set xs \<union> set (elems s)"
  by (induction xs arbitrary: s) (auto simp: elems_put wf_put)

lemma rebuild: "wf s \<Longrightarrow> fold put (elems s) empty = s"
  by (rule ext) (simp_all add: wf_fold wf_empty elems_fold elems_empty)

end

interpretation sset: ordered_set "[]" set_put "\<lambda>s. s" set_wf
  by unfold_locales (auto intro: set_wf_ext)

end
