(* ===== verification/Endian.thy ===== *)
theory Endian
  imports Prelude
begin

text \<open>
  Byte order: \<open>dcmpi_endian_swap\<close> of \<open>src/src/dcmpi.h\<close>, \<open>SwapByteArray\<close> and
  \<open>SwapByteArray_NC\<close> of \<open>src/src/dcmpi_util.h\<close>, and the bytes a machine integer occupies in
  memory. The build generates \<open>dcmpi_is_big_endian()\<close> for the host; it is the argument \<open>big\<close>
  of every definition that depends on it.
\<close>

section \<open>Swapping in place\<close>

text \<open>
  The loop of \<open>dcmpi_endian_swap\<close>: \<open>i\<close> and \<open>j\<close> are the offsets of \<open>_bs\<close> and \<open>_be\<close>. For
  \<open>len = 0\<close> the code has \<open>_be\<close> one before the block and leaves at once, as \<open>0 < 0\<close> does.
\<close>

function endian_swap_loop :: "nat \<Rightarrow> nat \<Rightarrow> char list \<Rightarrow> char list" where
  "endian_swap_loop i j xs =
     (if i < j then endian_swap_loop (i + 1) (j - 1) (xs[i := xs ! j, j := xs ! i]) else xs)"
  by pat_completeness auto
termination
  by (relation "measure (\<lambda>(i, j, xs). j - i)") auto

declare endian_swap_loop.simps [simp del]

definition dcmpi_endian_swap :: "char list \<Rightarrow> char list" where
  "dcmpi_endian_swap xs = endian_swap_loop 0 (length xs - 1) xs"

lemma endian_swap_loop_length: "length (endian_swap_loop i j xs) = length xs"
  by (induction i j xs rule: endian_swap_loop.induct)
    (subst endian_swap_loop.simps, simp)

text \<open>The loop invariant: outside \<open>[i, j]\<close> nothing changes any more, inside it is mirrored.\<close>

lemma endian_swap_loop_nth:
  "j < length xs \<Longrightarrow> k < length xs \<Longrightarrow>
   endian_swap_loop i j xs ! k = (if i \<le> k \<and> k \<le> j then xs ! (i + j - k) else xs ! k)"
proof (induction i j xs rule: endian_swap_loop.induct)
  case (1 i j xs)
  show ?case
  proof (cases "i < j")
    case True
    let ?ys = "xs[i := xs ! j, j := xs ! i]"
    have "endian_swap_loop (i + 1) (j - 1) ?ys ! k =
        (if i + 1 \<le> k \<and> k \<le> j - 1 then ?ys ! (i + 1 + (j - 1) - k) else ?ys ! k)"
      using "1.IH" [OF True] "1.prems" by simp
    then show ?thesis
      using True "1.prems" by (subst endian_swap_loop.simps) (auto simp: nth_list_update)
  next
    case False
    then show ?thesis by (subst endian_swap_loop.simps) (auto intro: arg_cong [of _ _ "nth xs"])
  qed
qed

lemma endian_swap_is_rev: "dcmpi_endian_swap xs = rev xs"
proof (cases "xs = []")
  case True
  then show ?thesis by (simp add: dcmpi_endian_swap_def endian_swap_loop.simps)
next
  case False
  then show ?thesis
    by (intro nth_equalityI)
      (auto simp: dcmpi_endian_swap_def endian_swap_loop_length endian_swap_loop_nth rev_nth
        intro!: arg_cong [of _ _ "nth xs"])
qed

section \<open>Swapping arrays\<close>

text \<open>
  \<open>SwapByteArray(nElem, sElem, pSrc, pDst)\<close> copies \<open>nElem\<close> elements, each with its bytes in
  the opposite order, to \<open>pDst\<close>. Its default \<open>pDst = NULL\<close> is written through as well, so a
  missing destination is undefined unless there is nothing to copy. \<open>src\<close> is what \<open>pSrc\<close>
  points at.
\<close>

definition swap_elem :: "nat \<Rightarrow> char list \<Rightarrow> char list" where
  "swap_elem s src = map (\<lambda>j. src ! (s - j - 1)) [0..<s]"

fun swap_elems :: "nat \<Rightarrow> nat \<Rightarrow> char list \<Rightarrow> char list" where
  "swap_elems 0 s src = []"
| "swap_elems (Suc n) s src = swap_elem s src @ swap_elems n s (drop s src)"

definition SwapByteArray :: "nat \<Rightarrow> nat \<Rightarrow> char list \<Rightarrow> bool \<Rightarrow> char list result" where
  "SwapByteArray nElem sElem src dst_given =
     (if nElem * sElem = 0 then Inr []
      else if dst_given \<and> nElem * sElem \<le> length src then Inr (swap_elems nElem sElem src)
      else Inl Undefined_behaviour)"

text \<open>\<open>SwapByteArray_NC(p, elemsz, numelem)\<close> swaps each element where it stands.\<close>

fun SwapByteArray_NC :: "char list \<Rightarrow> nat \<Rightarrow> nat \<Rightarrow> char list" where
  "SwapByteArray_NC p elemsz 0 = p"
| "SwapByteArray_NC p elemsz (Suc numelem) =
     dcmpi_endian_swap (take elemsz p) @ SwapByteArray_NC (drop elemsz p) elemsz numelem"

lemma swap_elem_rev: "s \<le> length src \<Longrightarrow> swap_elem s src = rev (take s src)"
  by (rule nth_equalityI) (auto simp: swap_elem_def rev_nth)

lemma swap_elems_NC:
  "n * s \<le> length src \<Longrightarrow> swap_elems n s src @ drop (n * s) src = SwapByteArray_NC src s n"
proof (induction n arbitrary: src)
  case 0
  then show ?case by simp
next
  case (Suc n)
  then show ?case
    by (simp add: swap_elem_rev endian_swap_is_rev Suc.IH [of "drop s src", symmetric] add.commute)
qed

lemma length_NC: "length (SwapByteArray_NC p s n) = length p"
  by (induction n arbitrary: p) (auto simp: endian_swap_is_rev)

lemma NC_involution: "n * s \<le> length p \<Longrightarrow> SwapByteArray_NC (SwapByteArray_NC p s n) s n = p"
proof (induction n arbitrary: p)
  case 0
  then show ?case by simp
next
  case (Suc n)
  then have "min s (length p) = s" by simp
  with Suc show ?case by (simp add: endian_swap_is_rev)
qed

section \<open>Integers in memory\<close>

text \<open>The \<open>k\<close> low-order bytes of a number, least significant first, and back.\<close>

fun bytes_of_nat :: "nat \<Rightarrow> nat \<Rightarrow> char list" where
  "bytes_of_nat 0 v = []"
| "bytes_of_nat (Suc k) v = char_of (v mod 256) # bytes_of_nat k (v div 256)"

fun nat_of_bytes :: "char list \<Rightarrow> nat" where
  "nat_of_bytes [] = 0"
| "nat_of_bytes (c # cs) = of_char c + 256 * nat_of_bytes cs"

definition native_bytes :: "bool \<Rightarrow> 'a::len word \<Rightarrow> char list" where
  "native_bytes big w =
     (let le = bytes_of_nat (LENGTH('a) div 8) (unat w) in if big then rev le else le)"

definition word_of_native :: "bool \<Rightarrow> char list \<Rightarrow> 'a::len word" where
  "word_of_native big bs = of_nat (nat_of_bytes (if big then rev bs else bs))"

lemma of_char_less: "of_char c < (256::nat)"
  by (metis of_char_mod_256 mod_less_divisor zero_less_numeral)

lemma length_bytes_of_nat [simp]: "length (bytes_of_nat k v) = k"
  by (induction k arbitrary: v) auto

lemma nat_of_bytes_of_nat: "nat_of_bytes (bytes_of_nat k v) = v mod 256 ^ k"
proof (induction k arbitrary: v)
  case 0
  then show ?case by simp
next
  case (Suc k)
  have "v mod 256 + 256 * (v div 256 mod 256 ^ k) = v mod 256 ^ Suc k"
    by (simp add: mod_mult2_eq)
  with Suc show ?case by simp
qed

lemma nat_of_bytes_less: "nat_of_bytes bs < 256 ^ length bs"
proof (induction bs)
  case Nil
  then show ?case by simp
next
  case (Cons c cs)
  have carry: "a + 256 * v < 256 * w" if "a < 256" and "v < w" for a v w :: nat
    using that by arith
  from Cons show ?case by (simp add: carry [OF of_char_less])
qed

lemma bytes_of_nat_of_bytes: "bytes_of_nat (length bs) (nat_of_bytes bs) = bs"
proof (induction bs)
  case Nil
  then show ?case by simp
next
  case (Cons c cs)
  have "of_char c < (256::nat)" by (rule of_char_less)
  with Cons show ?case by simp
qed

lemma length_native_bytes [simp]: "length (native_bytes big (w :: 'a::len word)) = LENGTH('a) div 8"
  by (simp add: native_bytes_def Let_def)

lemma native_bytes_swap: "rev (native_bytes big w) = native_bytes (\<not> big) w"
  by (simp add: native_bytes_def Let_def)

lemma word_of_native_bytes:
  fixes w :: "'a::len word"
  assumes "8 dvd LENGTH('a)"
  shows "word_of_native big (native_bytes big w) = w"
proof -
  have "(256::nat) ^ (LENGTH('a) div 8) = (2 ^ 8) ^ (LENGTH('a) div 8)" by simp
  also have "\<dots> = 2 ^ LENGTH('a)" using assms by (simp only: power_mult [symmetric] dvd_mult_div_cancel)
  finally show ?thesis
    by (auto simp: word_of_native_def native_bytes_def Let_def nat_of_bytes_of_nat)
qed

lemma native_bytes_of_word:
  assumes "length bs = LENGTH('a) div 8" and "8 dvd LENGTH('a)"
  shows "native_bytes big (word_of_native big bs :: 'a::len word) = bs"
proof -
  have "(256::nat) ^ length bs = (2 ^ 8) ^ (LENGTH('a) div 8)" using assms(1) by simp
  also have "\<dots> = 2 ^ LENGTH('a)"
    using assms(2) by (simp only: power_mult [symmetric] dvd_mult_div_cancel)
  finally have small: "nat_of_bytes cs mod 2 ^ LENGTH('a) = nat_of_bytes cs"
    if "length cs = length bs" for cs
    using nat_of_bytes_less [of cs] that by simp
  show ?thesis
    using bytes_of_nat_of_bytes [of bs] bytes_of_nat_of_bytes [of "rev bs"]
    by (simp add: native_bytes_def word_of_native_def Let_def unat_of_nat small
        assms(1) [symmetric] rev_swap)
qed

lemmas word_codec = word_of_native_bytes [where 'a = 8] word_of_native_bytes [where 'a = 16]
  word_of_native_bytes [where 'a = 32] word_of_native_bytes [where 'a = 64]

section \<open>Properties\<close>

text \<open>
  Both swapping routines reverse the bytes of every element: \<open>SwapByteArray\<close> into a given
  destination writes exactly what \<open>SwapByteArray_NC\<close>, which runs the two-pointer loop of
  \<open>dcmpi_endian_swap\<close> in place, leaves in the first \<open>nElem * sElem\<close> bytes, and swapping twice
  gives the block back.
\<close>

theorem swap_routines_agree:
  assumes "nElem * sElem \<le> length src"
  shows "SwapByteArray nElem sElem src True =
      Inr (take (nElem * sElem) (SwapByteArray_NC src sElem nElem))
    \<and> SwapByteArray_NC (SwapByteArray_NC src sElem nElem) sElem nElem = src
    \<and> dcmpi_endian_swap src = rev src"
proof (intro conjI)
  have "length (swap_elems nElem sElem src) + (length src - nElem * sElem) = length src"
    using arg_cong [OF swap_elems_NC [OF assms], of length] by (simp add: length_NC)
  then have len: "length (swap_elems nElem sElem src) = nElem * sElem"
    using assms by simp
  show "SwapByteArray nElem sElem src True =
      Inr (take (nElem * sElem) (SwapByteArray_NC src sElem nElem))"
    using assms len swap_elems_NC [OF assms, symmetric] by (auto simp: SwapByteArray_def)
qed (simp_all add: assms NC_involution endian_swap_is_rev)

theorem swap_routines_agree_witness:
  "SwapByteArray 2 2 ''abcdef'' True = Inr ''badc''
   \<and> SwapByteArray_NC ''abcdef'' 2 2 = ''badcef''"
  using swap_routines_agree [of 2 2 "''abcdef''"]
  by (simp add: eval_nat_numeral endian_swap_is_rev)

end
