(* ===== verification/Buffer.thy ===== *)
theory Buffer
  imports Endian
begin

text \<open>
  \<open>DCBuffer\<close> (\<open>src/src/dcmpi.h\<close>, \<open>src/src/DCBuffer.cpp\<close>): a block of memory with a used prefix
  that grows by appending and an extraction position that moves through it. The argument
  \<open>host\<close> is \<open>dcmpi_is_big_endian()\<close> of the machine that runs the operation.

  The block is \<open>None\<close> for the NULL pointer and otherwise the bytes of the allocation. What
  \<open>new char[n]\<close> holds before it is written is not specified by C++; the model fills it with
  NUL bytes, and the theorems speak of the used prefix only.
\<close>

section \<open>State\<close>

record DCBuffer =
  pBuf :: "char list option"
  owns_pBuf :: bool
  wMax :: int
  wSize :: int
  wSizeExtracted :: int
  isbigendian :: bool
  appendReallocs :: int

definition new_char :: "int \<Rightarrow> char list" where
  "new_char n = replicate (nat n) (CHR 0x00)"

definition mem :: "DCBuffer \<Rightarrow> char list" where
  "mem b = (case pBuf b of None \<Rightarrow> [] | Some blk \<Rightarrow> blk)"

definition used :: "DCBuffer \<Rightarrow> char list" where
  "used b = take (nat (wSize b)) (mem b)"

definition unread :: "DCBuffer \<Rightarrow> char list" where
  "unread b = drop (nat (wSizeExtracted b)) (used b)"

text \<open>What every operation below keeps, as long as the caller respects its contract.\<close>

definition buf_wf :: "DCBuffer \<Rightarrow> bool" where
  "buf_wf b \<longleftrightarrow> 0 \<le> wSizeExtracted b \<and> wSizeExtracted b \<le> wSize b \<and> wSize b \<le> wMax b
     \<and> wMax b < 2 ^ 31 \<and> wMax b \<le> int (length (mem b)) \<and> (pBuf b = None \<longrightarrow> wMax b = 0)"

text \<open>The buffers that \<open>Append\<close> may enlarge: no block yet, or one that the buffer owns.\<close>

definition growable :: "DCBuffer \<Rightarrow> bool" where
  "growable b \<longleftrightarrow> pBuf b = None \<or> (owns_pBuf b \<and> 0 < wMax b)"

section \<open>Construction and sizes\<close>

definition commonInit :: "bool \<Rightarrow> DCBuffer \<Rightarrow> DCBuffer" where
  "commonInit host b = b\<lparr>isbigendian := host, appendReallocs := 0, owns_pBuf := True\<rparr>"

definition Delete :: "DCBuffer \<Rightarrow> DCBuffer" where
  "Delete b =
     (if pBuf b \<noteq> None \<and> 0 < wMax b \<and> owns_pBuf b then b\<lparr>pBuf := None\<rparr> else b)
       \<lparr>wMax := 0, wSize := 0, wSizeExtracted := 0\<rparr>"

text \<open>
  \<open>New\<close> frees an owned block without clearing \<open>pBuf\<close>; for a size that is not positive it then
  calls \<open>Delete\<close>, which frees the same block again.
\<close>

definition New :: "bool \<Rightarrow> int \<Rightarrow> DCBuffer \<Rightarrow> DCBuffer result" where
  "New host n b =
     (let freed = (pBuf b \<noteq> None \<and> 0 < wMax b \<and> owns_pBuf b)
      in if 0 < n
         then Inr (commonInit host
           (b\<lparr>pBuf := Some (new_char n), wMax := n, wSize := 0, wSizeExtracted := 0,
              owns_pBuf := True\<rparr>))
         else if freed then Inl Undefined_behaviour
         else Inr (commonInit host (Delete b)))"

definition DCBuffer_empty :: "bool \<Rightarrow> DCBuffer" where
  "DCBuffer_empty host = commonInit host
     \<lparr>pBuf = None, owns_pBuf = True, wMax = 0, wSize = 0, wSizeExtracted = 0,
      isbigendian = host, appendReallocs = 0\<rparr>"

definition DCBuffer_sized :: "bool \<Rightarrow> int \<Rightarrow> DCBuffer result" where
  "DCBuffer_sized host n = New host n (DCBuffer_empty host)"

text \<open>\<open>Set\<close> takes over or borrows a block that the caller supplies.\<close>

definition Set_buf :: "bool \<Rightarrow> char list option \<Rightarrow> int \<Rightarrow> int \<Rightarrow> bool \<Rightarrow> DCBuffer \<Rightarrow> DCBuffer" where
  "Set_buf host p wMax_in wSize_in handoff b =
     (commonInit host
       (if 0 < wMax_in then (Delete b)\<lparr>pBuf := p, wMax := wMax_in, wSize := wSize_in\<rparr>
        else (Delete b)\<lparr>pBuf := None, wMax := 0, wSize := 0, wSizeExtracted := 0\<rparr>))
     \<lparr>owns_pBuf := handoff, wSizeExtracted := 0\<rparr>"

definition forceEndian :: "bool \<Rightarrow> DCBuffer \<Rightarrow> DCBuffer" where
  "forceEndian is_big b = b\<lparr>isbigendian := is_big\<rparr>"

text \<open>The copy constructor and the assignment: the used prefix in a block of its own.\<close>

definition DCBuffer_copy :: "bool \<Rightarrow> DCBuffer \<Rightarrow> DCBuffer result" where
  "DCBuffer_copy host t =
     (if wSize t < 0 then Inl Uncaught_exception
      else bind_result (block_read (mem t) 0 (nat (wSize t))) (\<lambda>p.
        Inr (forceEndian (isbigendian t)
          (Set_buf host (Some p) (wSize t) (wSize t) True (DCBuffer_empty host)))))"

definition Empty :: "DCBuffer \<Rightarrow> DCBuffer" where
  "Empty b = b\<lparr>wSize := 0, wSizeExtracted := 0\<rparr>"

definition setUsedSize :: "int \<Rightarrow> DCBuffer \<Rightarrow> DCBuffer result" where
  "setUsedSize n b = (if n \<le> wMax b then Inr (b\<lparr>wSize := n\<rparr>) else Inl Assert_failure)"

definition incrementUsedSize :: "int \<Rightarrow> DCBuffer \<Rightarrow> DCBuffer result" where
  "incrementUsedSize n b =
     (if int4_ok (wSize b + n) then setUsedSize (wSize b + n) b else Inl Undefined_behaviour)"

definition getFree :: "DCBuffer \<Rightarrow> int" where
  "getFree b = wMax b - wSize b"

definition getExtractAvailSize :: "DCBuffer \<Rightarrow> int" where
  "getExtractAvailSize b = wSize b - wSizeExtracted b"

definition resetExtract :: "int \<Rightarrow> DCBuffer \<Rightarrow> DCBuffer result" where
  "resetExtract w b = (if 0 \<le> w then Inr (b\<lparr>wSizeExtracted := w\<rparr>) else Inl Assert_failure)"

definition incrementExtractPointer :: "int \<Rightarrow> DCBuffer \<Rightarrow> DCBuffer result" where
  "incrementExtractPointer n b =
     (if n < 0 then Inl Assert_failure
      else if \<not> int4_ok (wSizeExtracted b + n) then Inl Undefined_behaviour
      else if wSizeExtracted b + n \<le> wSize b
      then Inr (b\<lparr>wSizeExtracted := wSizeExtracted b + n\<rparr>)
      else Inl Assert_failure)"

definition doConv :: "bool \<Rightarrow> DCBuffer \<Rightarrow> bool" where
  "doConv host b \<longleftrightarrow> isbigendian b \<noteq> host"

section \<open>Appending\<close>

text \<open>
  The room that \<open>Append\<close> makes when the used prefix and the new bytes exceed \<open>wMax\<close>: a first
  block of at least 8192 bytes, a larger block with the used prefix copied over, or, for a block
  that the buffer does not own, the error exit. The size of the larger block is computed in
  an \<open>int\<close>.
\<close>

definition grown_max :: "int \<Rightarrow> DCBuffer \<Rightarrow> int" where
  "grown_max n b =
     (if 4 \<le> appendReallocs b then (wSize b + n) * 2
      else wSize b + (if 1024 < n then n else 1024))"

definition append_room :: "bool \<Rightarrow> int \<Rightarrow> DCBuffer \<Rightarrow> DCBuffer result" where
  "append_room host n b =
     (if pBuf b = None then New host (if n < 8192 then 8192 else n) b
      else if 0 < wMax b \<and> owns_pBuf b then
        (let b1 = b\<lparr>appendReallocs := appendReallocs b + 1\<rparr>; newMax = grown_max n b1
         in if \<not> int4_ok newMax then Inl Undefined_behaviour
            else bind_result (block_read (mem b) 0 (nat (wSize b))) (\<lambda>old.
              bind_result (block_write (new_char newMax) 0 old) (\<lambda>blk.
                Inr (b1\<lparr>pBuf := Some blk, wMax := newMax\<rparr>))))
      else Inl Exit_failure)"

text \<open>\<open>Append(pAdd, wSizeAdd, doConversion)\<close>; \<open>add\<close> is the \<open>wSizeAdd\<close> bytes at \<open>pAdd\<close>.\<close>

definition Append :: "bool \<Rightarrow> char list \<Rightarrow> bool \<Rightarrow> DCBuffer \<Rightarrow> DCBuffer result" where
  "Append host add doConversion b =
     (let n = int (length add)
      in if \<not> int4_ok (wSize b + n) then Inl Undefined_behaviour
         else bind_result (if wMax b < wSize b + n then append_room host n b else Inr b) (\<lambda>b1.
           if n = 0 then Inr b1
           else bind_result (if doConversion then SwapByteArray 1 (length add) add True else Inr add)
             (\<lambda>bytes. bind_result (block_write (mem b1) (nat (wSize b1)) bytes) (\<lambda>blk.
               Inr (b1\<lparr>pBuf := Some blk, wSize := wSize b1 + n\<rparr>)))))"

text \<open>The overloads for integers and for \<open>std::string\<close>.\<close>

definition Append_word :: "bool \<Rightarrow> 'a::len word \<Rightarrow> DCBuffer \<Rightarrow> DCBuffer result" where
  "Append_word host w b = Append host (native_bytes host w) (LENGTH('a) \<noteq> 8 \<and> doConv host b) b"

definition Append_string :: "bool \<Rightarrow> string \<Rightarrow> DCBuffer \<Rightarrow> DCBuffer result" where
  "Append_string host s b =
     bind_result (Append_word host (of_nat (length s) :: int8) b) (Append host s False)"

text \<open>\<open>_AppendArray\<close>: one element after the other, given up when \<open>Append\<close> returns NULL.\<close>

fun AppendArray :: "bool \<Rightarrow> char list list \<Rightarrow> bool \<Rightarrow> DCBuffer \<Rightarrow> DCBuffer result" where
  "AppendArray host [] doConversion b = Inr b"
| "AppendArray host (e # es) doConversion b =
     bind_result (Append host e doConversion b) (\<lambda>b1.
       if pBuf b1 = None then Inr b1 else AppendArray host es doConversion b1)"

section \<open>Extracting\<close>

text \<open>
  \<open>Extract(pBuf_in, wSize_in, doConversion)\<close>: \<open>None\<close> is the return value 0 that leaves the
  destination as it was.
\<close>

definition Extract :: "int \<Rightarrow> bool \<Rightarrow> DCBuffer \<Rightarrow> (char list option \<times> DCBuffer) result" where
  "Extract n doConversion b =
     (if \<not> int4_ok (wSizeExtracted b + n) then Inl Undefined_behaviour
      else if wSize b < wSizeExtracted b + n then Inr (None, b)
      else if n < 0 then Inl Undefined_behaviour
      else bind_result (block_read (mem b) (nat (wSizeExtracted b)) (nat n)) (\<lambda>bs.
        bind_result (if doConversion then SwapByteArray 1 (nat n) bs True else Inr bs) (\<lambda>out.
          Inr (Some out, b\<lparr>wSizeExtracted := wSizeExtracted b + n\<rparr>))))"

definition Extract_word :: "bool \<Rightarrow> DCBuffer \<Rightarrow> ('a::len word option \<times> DCBuffer) result" where
  "Extract_word host b =
     bind_result (Extract (int (LENGTH('a) div 8)) (LENGTH('a) \<noteq> 8 \<and> doConv host b) b)
       (\<lambda>(bs, b'). Inr (map_option (word_of_native host) bs, b'))"

text \<open>
  Reading a variable that a failed \<open>Extract\<close> left uninitialised is undefined, so the callers
  that use the value at once need it to be there.
\<close>

definition Extract_word_init :: "bool \<Rightarrow> DCBuffer \<Rightarrow> ('a::len word \<times> DCBuffer) result" where
  "Extract_word_init host b =
     bind_result (Extract_word host b) (\<lambda>(w, b').
       case w of None \<Rightarrow> Inl Undefined_behaviour | Some v \<Rightarrow> Inr (v, b'))"

text \<open>
  \<open>Extract(std::string *)\<close> reads a length and assigns that many bytes; it compares the length
  with nothing, so only the end of the block bounds the read. A negative length is a
  \<open>size_t\<close> that \<open>std::string\<close> refuses with \<open>std::length_error\<close>.
\<close>

definition Extract_string :: "bool \<Rightarrow> DCBuffer \<Rightarrow> (string \<times> DCBuffer) result" where
  "Extract_string host b =
     bind_result (Extract_word_init host b) (\<lambda>(sz :: int8, b1).
       if sint sz < 0 then Inl Uncaught_exception
       else bind_result (block_read (mem b1) (nat (wSizeExtracted b1)) (nat (sint sz))) (\<lambda>s.
         if int4_ok (wSizeExtracted b1 + sint sz)
         then Inr (s, b1\<lparr>wSizeExtracted := wSizeExtracted b1 + sint sz\<rparr>)
         else Inl Undefined_behaviour))"

text \<open>
  \<open>_ExtractArray\<close>: every element is tried, the destinations of the failed ones keep their
  contents; the result lists what each destination received.
\<close>

fun ExtractArray :: "nat \<Rightarrow> int \<Rightarrow> bool \<Rightarrow> DCBuffer \<Rightarrow> (char list option list \<times> DCBuffer) result" where
  "ExtractArray 0 n doConversion b = Inr ([], b)"
| "ExtractArray (Suc k) n doConversion b =
     bind_result (Extract n doConversion b) (\<lambda>(e, b1).
       bind_result (ExtractArray k n doConversion b1) (\<lambda>(es, b2). Inr (e # es, b2)))"

section \<open>Lemmas\<close>

named_theorems buf_defs

lemmas [buf_defs] = buf_wf_def growable_def used_def unread_def mem_def

lemma new_char_length [simp]: "length (new_char n) = nat n"
  by (simp add: new_char_def)

lemma used_length: "buf_wf b \<Longrightarrow> length (used b) = nat (wSize b)"
  by (auto simp: buf_wf_def used_def min_def)

lemma unread_length: "buf_wf b \<Longrightarrow> length (unread b) = nat (wSize b) - nat (wSizeExtracted b)"
  by (simp add: unread_def used_length)

lemma block_read_used: "buf_wf b \<Longrightarrow> block_read (mem b) 0 (nat (wSize b)) = Inr (used b)"
  by (auto simp: buf_wf_def block_read_fits used_def)

lemma wSize_used: "buf_wf b \<Longrightarrow> wSize b = int (length (used b))"
  using used_length [of b] by (auto simp: buf_wf_def)

lemma empty_wf [simp]:
  "buf_wf (DCBuffer_empty host)" "growable (DCBuffer_empty host)"
  "used (DCBuffer_empty host) = []" "unread (DCBuffer_empty host) = []"
  "isbigendian (DCBuffer_empty host) = host" "wSizeExtracted (DCBuffer_empty host) = 0"
  "wSize (DCBuffer_empty host) = 0" "pBuf (DCBuffer_empty host) = None"
  by (simp_all add: DCBuffer_empty_def commonInit_def buf_defs)

lemma append_room_ok:
  assumes wf: "buf_wf b" and grow: "growable b" and need: "wMax b < wSize b + n"
    and size: "2 * (wSize b + n) < 2 ^ 31"
  shows "\<exists>b1. append_room host n b = Inr b1 \<and> buf_wf b1 \<and> growable b1 \<and> used b1 = used b
    \<and> wSize b1 = wSize b \<and> wSizeExtracted b1 = wSizeExtracted b \<and> wSize b + n \<le> wMax b1
    \<and> pBuf b1 \<noteq> None \<and> isbigendian b1 = (if pBuf b = None then host else isbigendian b)"
proof (cases "pBuf b")
  case None
  then show ?thesis
    using assms by (auto simp: append_room_def New_def Let_def commonInit_def buf_defs)
next
  case (Some blk)
  define b1 where "b1 = b\<lparr>appendReallocs := appendReallocs b + 1\<rparr>"
  define m where "m = grown_max n b1"
  have len: "nat (wSize b) \<le> length blk" and own: "0 < wMax b" "owns_pBuf b"
    using wf grow Some by (auto simp: buf_defs)
  have m: "wSize b + n \<le> m" "m < 2 ^ 31" "0 \<le> wSize b"
    using wf need size by (auto simp: m_def b1_def grown_max_def buf_wf_def)
  then have "int4_ok m" using wf need by (auto simp: int4_ok_def buf_wf_def)
  have "nat (wSize b) \<le> nat m" using wf need m by (auto simp: buf_wf_def)
  with len own Some \<open>int4_ok m\<close> have "append_room host n b = Inr (b1\<lparr>
      pBuf := Some (take (nat (wSize b)) blk @ drop (nat (wSize b)) (new_char m)), wMax := m\<rparr>)"
    by (simp add: append_room_def b1_def [symmetric] m_def [symmetric] Let_def block_read_fits
        block_write_fits mem_def)
  with m wf need own len Some show ?thesis
    by (auto simp: buf_defs b1_def)
qed

text \<open>What \<open>Append\<close> does on a buffer that has room or can get it.\<close>

lemma Append_ok:
  assumes wf: "buf_wf b"
    and room: "growable b \<or> wSize b + int (length add) \<le> wMax b"
    and size: "2 * (wSize b + int (length add)) < 2 ^ 31"
  shows "\<exists>b'. Append host add conv b = Inr b' \<and> buf_wf b'
    \<and> used b' = used b @ (if conv then rev add else add)
    \<and> wSize b' = wSize b + int (length add) \<and> wSizeExtracted b' = wSizeExtracted b
    \<and> (growable b \<longrightarrow> growable b')
    \<and> isbigendian b' = (if pBuf b = None \<and> add \<noteq> [] then host else isbigendian b)"
proof -
  let ?n = "int (length add)"
  have ok: "int4_ok (wSize b + ?n)"
    using wf size by (auto simp: int4_ok_def buf_wf_def)
  have "\<exists>b1. (if wMax b < wSize b + ?n then append_room host ?n b else Inr b) = Inr b1
      \<and> buf_wf b1 \<and> (growable b \<longrightarrow> growable b1) \<and> used b1 = used b \<and> wSize b1 = wSize b
      \<and> wSizeExtracted b1 = wSizeExtracted b \<and> wSize b + ?n \<le> wMax b1
      \<and> isbigendian b1 = (if pBuf b = None \<and> add \<noteq> [] then host else isbigendian b)
      \<and> (add \<noteq> [] \<longrightarrow> pBuf b1 \<noteq> None)"
  proof (cases "wMax b < wSize b + ?n")
    case True
    then have "growable b" "add \<noteq> []" using room wf by (auto simp: buf_wf_def)
    with append_room_ok [OF wf _ True size, of host] True show ?thesis by auto
  next
    case False
    moreover have "pBuf b \<noteq> None" if "add \<noteq> []"
    proof
      assume "pBuf b = None"
      then have "wMax b = 0" "0 \<le> wSize b" using wf by (auto simp: buf_wf_def)
      moreover have "0 < ?n" using that by simp
      ultimately show False using False by linarith
    qed
    ultimately show ?thesis using wf by (intro exI [of _ b]) auto
  qed
  then obtain b1 where room1: "(if wMax b < wSize b + ?n then append_room host ?n b else Inr b) = Inr b1"
    and b1: "buf_wf b1" "growable b \<longrightarrow> growable b1" "used b1 = used b" "wSize b1 = wSize b"
      "wSizeExtracted b1 = wSizeExtracted b" "wSize b + ?n \<le> wMax b1" "add \<noteq> [] \<longrightarrow> pBuf b1 \<noteq> None"
      "isbigendian b1 = (if pBuf b = None \<and> add \<noteq> [] then host else isbigendian b)"
    by blast
  show ?thesis
  proof (cases "add = []")
    case True
    with ok room1 b1 show ?thesis by (auto simp: Append_def Let_def)
  next
    case False
    define bytes where "bytes = (if conv then rev add else add)"
    have swap: "(if conv then SwapByteArray 1 (length add) add True else Inr add) = Inr bytes"
      using False by (simp add: SwapByteArray_def swap_elem_rev bytes_def)
    from False b1 obtain blk where blk: "pBuf b1 = Some blk" by auto
    have fits: "nat (wSize b) + length bytes \<le> length blk"
      using b1(1,4,6) blk by (auto simp: buf_defs bytes_def)
    have "Append host add conv b = Inr (b1\<lparr>pBuf := Some (take (nat (wSize b)) blk @ bytes
        @ drop (nat (wSize b) + length bytes) blk), wSize := wSize b1 + ?n\<rparr>)"
      using ok room1 False swap fits b1(4) blk
      by (simp add: Append_def Let_def block_write_fits mem_def)
    moreover have "length bytes = length add" by (simp add: bytes_def)
    moreover have "0 \<le> wSize b" using wf by (simp add: buf_wf_def)
    ultimately show ?thesis
      using b1 blk fits wf unfolding bytes_def [symmetric]
      by (auto simp: buf_defs nat_add_distrib)
  qed
qed

lemma Extract_ok:
  assumes wf: "buf_wf b" and more: "unread b = bs @ rest"
  shows "\<exists>b'. Extract (int (length bs)) conv b = Inr (Some (if conv then rev bs else bs), b')
    \<and> buf_wf b' \<and> unread b' = rest \<and> used b' = used b
    \<and> b' = b\<lparr>wSizeExtracted := wSizeExtracted b + int (length bs)\<rparr>"
proof -
  let ?e = "nat (wSizeExtracted b)" and ?n = "length bs"
  have le0: "?e + ?n \<le> nat (wSize b)"
    using arg_cong [OF more, of length] wf unread_length [OF wf] by (auto simp: buf_wf_def)
  then have le: "wSizeExtracted b + int ?n \<le> wSize b" "nat (wSize b) \<le> length (mem b)"
    "0 \<le> wSizeExtracted b" "wSize b < 2 ^ 31"
    using wf by (auto simp: buf_wf_def)
  then have fits: "?e + ?n \<le> length (mem b)" by auto
  have bs: "take ?n (drop ?e (mem b)) = bs"
  proof -
    have "take ?n (drop ?e (mem b)) = take ?n (drop ?e (take (nat (wSize b)) (mem b)))"
      using le0 by (simp add: take_drop min_def add.commute)
    also have "\<dots> = bs" using more by (simp add: unread_def used_def)
    finally show ?thesis .
  qed
  have swap: "(if conv then SwapByteArray 1 ?n bs True else Inr bs) = Inr (if conv then rev bs else bs)"
    by (simp add: SwapByteArray_def swap_elem_rev)
  have "unread (b\<lparr>wSizeExtracted := wSizeExtracted b + int ?n\<rparr>) = drop ?n (unread b)"
    using le by (simp add: buf_defs nat_add_distrib add.commute)
  with more le fits bs swap wf show ?thesis
    by (auto simp: Extract_def int4_ok_def block_read_fits buf_wf_def mem_def used_def)
qed

lemma Extract_short:
  assumes "buf_wf b" and "int (length (unread b)) < n" and "wSizeExtracted b + n < 2 ^ 31"
  shows "Extract n conv b = Inr (None, b)"
proof -
  have "wSize b < wSizeExtracted b + n"
    using assms(1,2) unread_length [OF assms(1)] by (auto simp: buf_wf_def)
  with assms(1,3) show ?thesis by (auto simp: Extract_def int4_ok_def buf_wf_def)
qed

end
