(* ===== verification/BufferCodec.thy ===== *)
theory BufferCodec
  imports Buffer
begin

text \<open>
  What the serialisers rely on. \<open>writes\<close> and \<open>reads\<close> say which bytes an operation appends to a
  buffer and which it consumes; the locale \<open>codec\<close> is the contract between an \<open>Append\<close>-like
  and an \<open>Extract\<close>-like operation, on hosts of possibly different byte order. It is
  interpreted on the integer and string overloads and on \<open>saveToDCBuffer\<close> here, and on
  the \<open>serialize\<close> methods in the theories of their classes.
\<close>

section \<open>Bytes written and bytes read\<close>

definition writes :: "bool \<Rightarrow> (DCBuffer \<Rightarrow> DCBuffer result) \<Rightarrow> char list \<Rightarrow> bool" where
  "writes host w bs \<longleftrightarrow> (\<forall>b. buf_wf b \<and> growable b \<and> isbigendian b = host
       \<and> 2 * (wSize b + int (length bs)) < 2 ^ 31 \<longrightarrow>
     (\<exists>b'. w b = Inr b' \<and> buf_wf b' \<and> growable b' \<and> isbigendian b' = host
        \<and> used b' = used b @ bs \<and> wSizeExtracted b' = wSizeExtracted b))"

definition reads :: "bool \<Rightarrow> (DCBuffer \<Rightarrow> ('a \<times> DCBuffer) result) \<Rightarrow> char list \<Rightarrow> 'a \<Rightarrow> bool" where
  "reads e r bs x \<longleftrightarrow> (\<forall>b rest. buf_wf b \<and> isbigendian b = e \<and> unread b = bs @ rest \<longrightarrow>
     (\<exists>b'. r b = Inr (x, b') \<and> buf_wf b' \<and> isbigendian b' = e \<and> unread b' = rest
        \<and> used b' = used b))"

lemma writesD:
  assumes "writes h w bs" and "buf_wf b" and "growable b" and "isbigendian b = h"
    and "2 * (wSize b + int (length bs)) < 2 ^ 31"
  obtains b' where "w b = Inr b'" "buf_wf b'" "growable b'" "isbigendian b' = h"
    "used b' = used b @ bs" "wSizeExtracted b' = wSizeExtracted b"
    "wSize b' = wSize b + int (length bs)"
proof -
  from assms obtain b' where b': "w b = Inr b'" "buf_wf b'" "growable b'" "isbigendian b' = h"
    "used b' = used b @ bs" "wSizeExtracted b' = wSizeExtracted b"
    unfolding writes_def by blast
  moreover have "wSize b' = wSize b + int (length bs)"
    using arg_cong [OF b'(5), of length] used_length [OF assms(2)] used_length [OF b'(2)]
      assms(2) b'(2) by (auto simp: buf_wf_def)
  ultimately show ?thesis using that by blast
qed

lemma readsD:
  assumes "reads e r bs x" and "buf_wf b" and "isbigendian b = e" and "unread b = bs @ rest"
  obtains b' where "r b = Inr (x, b')" "buf_wf b'" "isbigendian b' = e" "unread b' = rest"
    "used b' = used b"
  using assms unfolding reads_def by blast

lemma writes_Append: "writes h (Append h bs False) bs"
  unfolding writes_def
proof (intro allI impI, elim conjE)
  fix b
  assume b: "buf_wf b" "growable b" "isbigendian b = h" "2 * (wSize b + int (length bs)) < 2 ^ 31"
  from Append_ok [OF b(1) disjI1 [OF b(2)] b(4), of h False] b(2,3)
  show "\<exists>b'. Append h bs False b = Inr b' \<and> buf_wf b' \<and> growable b' \<and> isbigendian b' = h
      \<and> used b' = used b @ bs \<and> wSizeExtracted b' = wSizeExtracted b"
    by auto
qed

lemma writes_return: "writes h Inr []"
  by (simp add: writes_def)

lemma writes_bind:
  assumes "writes h w1 bs1" and "writes h w2 bs2"
  shows "writes h (\<lambda>b. bind_result (w1 b) w2) (bs1 @ bs2)"
  unfolding writes_def
proof (intro allI impI, elim conjE)
  fix b
  assume b: "buf_wf b" "growable b" "isbigendian b = h"
    "2 * (wSize b + int (length (bs1 @ bs2))) < 2 ^ 31"
  then have "2 * (wSize b + int (length bs1)) < 2 ^ 31" by simp
  from writesD [OF assms(1) b(1-3) this] obtain b1 where b1: "w1 b = Inr b1" "buf_wf b1"
    "growable b1" "isbigendian b1 = h" "used b1 = used b @ bs1"
    "wSizeExtracted b1 = wSizeExtracted b" "wSize b1 = wSize b + int (length bs1)"
    by blast
  with b(4) have "2 * (wSize b1 + int (length bs2)) < 2 ^ 31" by simp
  from writesD [OF assms(2) b1(2-4) this] b1
  show "\<exists>b'. bind_result (w1 b) w2 = Inr b' \<and> buf_wf b' \<and> growable b' \<and> isbigendian b' = h
      \<and> used b' = used b @ bs1 @ bs2 \<and> wSizeExtracted b' = wSizeExtracted b"
    by (metis append_assoc bind_result.simps(2))
qed

lemma reads_return: "reads e (\<lambda>b. Inr (x, b)) [] x"
  by (simp add: reads_def)

lemma reads_bind:
  assumes "reads e r1 bs1 x" and "reads e (r2 x) bs2 y"
  shows "reads e (\<lambda>b. bind_result (r1 b) (\<lambda>(x, b). r2 x b)) (bs1 @ bs2) y"
  unfolding reads_def
proof (intro allI impI, elim conjE)
  fix b rest
  assume b: "buf_wf b" "isbigendian b = e" "unread b = (bs1 @ bs2) @ rest"
  then have "unread b = bs1 @ (bs2 @ rest)" by simp
  from readsD [OF assms(1) b(1,2) this] obtain b1 where b1: "r1 b = Inr (x, b1)" "buf_wf b1"
    "isbigendian b1 = e" "unread b1 = bs2 @ rest" "used b1 = used b"
    by blast
  from readsD [OF assms(2) b1(2-4)] b1
  show "\<exists>b'. bind_result (r1 b) (\<lambda>(x, b). r2 x b) = Inr (y, b') \<and> buf_wf b'
      \<and> isbigendian b' = e \<and> unread b' = rest \<and> used b' = used b"
    by (metis bind_result.simps(2) case_prod_conv)
qed

lemma reads_map:
  assumes "reads e r bs x"
  shows "reads e (\<lambda>b. bind_result (r b) (\<lambda>(x, b). Inr (f x, b))) bs (f x)"
  using reads_bind [where ?r2.0 = "\<lambda>x b. Inr (f x, b)", OF assms reads_return] by simp

lemma reads_two:
  assumes "reads e r1 bs1 x" and "reads e r2 bs2 y"
  shows "reads e (\<lambda>b. bind_result (r1 b) (\<lambda>(x, b1). bind_result (r2 b1) (\<lambda>(y, b2). Inr (f x y, b2))))
    (bs1 @ bs2) (f x y)"
  using reads_bind [where ?r2.0 = "\<lambda>x b1. bind_result (r2 b1) (\<lambda>(y, b2). Inr (f x y, b2))",
      OF assms(1) reads_map [OF assms(2), of "f x"]] .

section \<open>The contract\<close>

text \<open>Repeating an operation, as the serialisers' loops do.\<close>

fun get_seq :: "(DCBuffer \<Rightarrow> ('a \<times> DCBuffer) result) \<Rightarrow> nat \<Rightarrow> DCBuffer \<Rightarrow>
    ('a list \<times> DCBuffer) result" where
  "get_seq get 0 b = Inr ([], b)"
| "get_seq get (Suc n) b =
     bind_result (get b) (\<lambda>(x, b1).
       bind_result (get_seq get n b1) (\<lambda>(xs, b2). Inr (x # xs, b2)))"

lemma writes_seq:
  assumes "\<And>x. x \<in> set xs \<Longrightarrow> writes h (put x) (enc x)"
  shows "writes h (fold_result put xs) (concat (map enc xs))"
  using assms
proof (induction xs)
  case Nil
  show ?case using writes_return by (simp add: writes_def)
next
  case (Cons x xs)
  have "writes h (\<lambda>b. bind_result (put x b) (fold_result put xs)) (enc x @ concat (map enc xs))"
    using Cons by (intro writes_bind) auto
  then show ?case by (simp add: writes_def)
qed

lemma reads_seq:
  assumes "\<And>x. x \<in> set xs \<Longrightarrow> reads e get (enc x) (f x)"
  shows "reads e (get_seq get (length xs)) (concat (map enc xs)) (map f xs)"
  using assms
proof (induction xs)
  case Nil
  show ?case by (simp add: reads_def)
next
  case (Cons x xs)
  have "reads e (\<lambda>b. bind_result (get_seq get (length xs) b) (\<lambda>(ys, b). Inr (f x # ys, b)))
      (concat (map enc xs)) (f x # map f xs)"
    using Cons by (intro reads_map [where f = "Cons (f x)"]) auto
  then have "reads e (\<lambda>b. bind_result (get b) (\<lambda>(y, b1). bind_result (get_seq get (length xs) b1)
      (\<lambda>(ys, b2). Inr (y # ys, b2)))) (enc x @ concat (map enc xs)) (f x # map f xs)"
    using Cons.prems by (intro reads_bind) auto
  then show ?case by (simp add: reads_def)
qed

text \<open>What one host writes into an empty buffer, another reads from it.\<close>

lemma written_then_read:
  assumes "writes h w bs" and "reads h r bs x" and "2 * length bs < 2 ^ 31"
  shows "\<exists>b b'. w (DCBuffer_empty h) = Inr b \<and> r b = Inr (x, b') \<and> unread b' = [] \<and> used b = bs"
proof -
  have "2 * (wSize (DCBuffer_empty h) + int (length bs)) < 2 ^ 31" using assms(3) by simp
  from writesD [OF assms(1) empty_wf(1,2,5) this]
  obtain b where b: "w (DCBuffer_empty h) = Inr b"
    "buf_wf b" "isbigendian b = h" "used b = bs" "wSizeExtracted b = 0"
    by (metis append_Nil empty_wf(3,6))
  then have "unread b = bs @ []" by (simp add: unread_def)
  from readsD [OF assms(2) b(2,3) this] b show ?thesis by blast
qed

locale codec =
  fixes put :: "bool \<Rightarrow> 'a \<Rightarrow> DCBuffer \<Rightarrow> DCBuffer result"
    and get :: "bool \<Rightarrow> DCBuffer \<Rightarrow> ('a \<times> DCBuffer) result"
    and enc :: "bool \<Rightarrow> 'a \<Rightarrow> char list"
    and ok :: "'a \<Rightarrow> bool"
  assumes put_writes: "ok x \<Longrightarrow> writes host (put host x) (enc host x)"
    and get_reads: "ok x \<Longrightarrow> reads e (get host) (enc e x) x"
begin

text \<open>What one host puts into an empty buffer, any host gets back.\<close>

lemma roundtrip:
  assumes "ok x" and "2 * length (enc h x) < 2 ^ 31"
  shows "\<exists>b b'. put h x (DCBuffer_empty h) = Inr b \<and> get h' b = Inr (x, b') \<and> unread b' = []
    \<and> used b = enc h x"
  using written_then_read [OF put_writes [OF assms(1)] get_reads [OF assms(1)] assms(2)] .

lemma put_seq_writes:
  "(\<And>x. x \<in> set xs \<Longrightarrow> ok x) \<Longrightarrow>
     writes h (fold_result (put h) xs) (concat (map (enc h) xs))"
  by (rule writes_seq) (rule put_writes)

lemma get_seq_reads:
  "(\<And>x. x \<in> set xs \<Longrightarrow> ok x) \<Longrightarrow>
     reads e (get_seq (get h) (length xs)) (concat (map (enc e) xs)) xs"
  using reads_seq [where f = "\<lambda>x. x"] get_reads by (metis map_idI)

end

section \<open>Integers\<close>

lemma writes_word: "writes h (Append_word h w) (native_bytes h (w :: 'a::len word))"
  unfolding writes_def
proof (intro allI impI, elim conjE)
  fix b
  assume b: "buf_wf b" "growable b" "isbigendian b = h"
    "2 * (wSize b + int (length (native_bytes h w))) < 2 ^ 31"
  with Append_ok [OF b(1) disjI1 [OF b(2)] b(4), of h False]
  show "\<exists>b'. Append_word h w b = Inr b' \<and> buf_wf b' \<and> growable b' \<and> isbigendian b' = h
      \<and> used b' = used b @ native_bytes h w \<and> wSizeExtracted b' = wSizeExtracted b"
    by (auto simp: Append_word_def doConv_def)
qed

lemma reads_word:
  assumes "8 dvd LENGTH('a)"
  shows "reads e (Extract_word_init h) (native_bytes e w) (w :: 'a::len word)"
  unfolding reads_def
proof (intro allI impI, elim conjE)
  fix b rest
  assume b: "buf_wf b" "isbigendian b = e" "unread b = native_bytes e w @ rest"
  let ?c = "LENGTH('a) \<noteq> 8 \<and> doConv h b"
  have "(if ?c then rev (native_bytes e w) else native_bytes e w) = native_bytes h w"
  proof (cases "e = h")
    case False
    then have "h = (\<not> e)" by auto
    then show ?thesis
      using b(2) by (auto simp: doConv_def native_bytes_swap [symmetric] native_bytes_def Let_def)
  qed (use b(2) in \<open>auto simp: doConv_def\<close>)
  with Extract_ok [OF b(1,3), of ?c] assms b(2)
  show "\<exists>b'. Extract_word_init h b = Inr (w, b') \<and> buf_wf b' \<and> isbigendian b' = e
      \<and> unread b' = rest \<and> used b' = used b"
    by (auto simp: Extract_word_init_def Extract_word_def word_of_native_bytes)
qed

interpretation uint1: codec Append_word Extract_word_init native_bytes "\<lambda>_ :: uint1. True"
  by unfold_locales (simp_all add: writes_word reads_word)

interpretation int2: codec Append_word Extract_word_init native_bytes "\<lambda>_ :: int2. True"
  by unfold_locales (simp_all add: writes_word reads_word)

interpretation int4: codec Append_word Extract_word_init native_bytes "\<lambda>_ :: int4. True"
  by unfold_locales (simp_all add: writes_word reads_word)

interpretation int8: codec Append_word Extract_word_init native_bytes "\<lambda>_ :: int8. True"
  by unfold_locales (simp_all add: writes_word reads_word)

section \<open>Strings\<close>

definition enc_string :: "bool \<Rightarrow> string \<Rightarrow> char list" where
  "enc_string h s = native_bytes h (of_nat (length s) :: int8) @ s"

definition short :: "'a list \<Rightarrow> bool" where
  "short xs \<longleftrightarrow> length xs < 2 ^ 31"

lemma writes_string: "writes h (Append_string h s) (enc_string h s)"
  unfolding enc_string_def
  using writes_bind [OF writes_word [of h "of_nat (length s) :: int8"] writes_Append [of h s]]
  by (simp add: writes_def Append_string_def)

lemma reads_string:
  assumes "short s"
  shows "reads e (Extract_string h) (enc_string e s) s"
  unfolding reads_def
proof (intro allI impI, elim conjE)
  fix b rest
  assume b: "buf_wf b" "isbigendian b = e" "unread b = enc_string e s @ rest"
  then have "unread b = native_bytes e (of_nat (length s) :: int8) @ (s @ rest)"
    by (simp add: enc_string_def)
  from readsD [OF int8.get_reads b(1,2) this] obtain b1 where b1:
    "Extract_word_init h b = Inr (of_nat (length s) :: int8, b1)" "buf_wf b1"
    "isbigendian b1 = e" "unread b1 = s @ rest" "used b1 = used b"
    by blast
  have sz: "sint (of_nat (length s) :: int8) = int (length s)"
    using assms by (simp add: short_def signed_of_nat signed_take_bit_int_eq_self)
  from Extract_ok [OF b1(2,4), of False] obtain b2 where b2: "buf_wf b2" "unread b2 = rest"
    "used b2 = used b1" "b2 = b1\<lparr>wSizeExtracted := wSizeExtracted b1 + int (length s)\<rparr>"
    "Extract (int (length s)) False b1 = Inr (Some s, b2)"
    by auto
  then have "block_read (mem b1) (nat (wSizeExtracted b1)) (length s) = Inr s"
    "int4_ok (wSizeExtracted b1 + int (length s))"
    by (auto simp: Extract_def result_simps split: if_splits)
  with b1 b2 sz show "\<exists>b'. Extract_string h b = Inr (s, b') \<and> buf_wf b' \<and> isbigendian b' = e
      \<and> unread b' = rest \<and> used b' = used b"
    by (auto simp: Extract_string_def)
qed

interpretation str: codec Append_string Extract_string enc_string short
  by unfold_locales (simp_all add: writes_string reads_string)

end
