(* ===== verification/BufferFormats.thy ===== *)
theory BufferFormats
  imports BufferCodec
begin

text \<open>
  The operations of \<open>DCBuffer\<close> that are built from \<open>Append\<close> and \<open>Extract\<close>: \<open>pack\<close> and \<open>unpack\<close>,
  and \<open>saveToDCBuffer\<close> with \<open>restoreFromDCBuffer\<close> (\<open>src/src/DCBuffer.cpp\<close>), followed by the
  properties of the buffer.
\<close>

section \<open>Formats\<close>

text \<open>
  The variable arguments after the default promotions. \<open>Va_double\<close> holds the bits of the
  \<open>double\<close>; \<open>narrow\<close>, an argument of the definitions below, is the host's conversion of these
  bits to those of a \<open>float\<close>. An argument that is missing or not of the type that the format
  asks for is undefined, a format character that the switch does not know fails its \<open>assert\<close>.
\<close>

datatype vararg = Va_int int4 | Va_long int8 | Va_double int8 | Va_cstr string | Va_ptr int8

definition pack_item :: "bool \<Rightarrow> (int8 \<Rightarrow> int4) \<Rightarrow> char \<Rightarrow> vararg \<Rightarrow> DCBuffer \<Rightarrow> DCBuffer result" where
  "pack_item host narrow c a b =
     (case a of
        Va_int v \<Rightarrow>
          if c = CHR ''i'' \<or> c = CHR ''I'' then Append_word host v b
          else if c = CHR ''b'' \<or> c = CHR ''B'' then Append_word host (ucast v :: uint1) b
          else if c = CHR ''h'' \<or> c = CHR ''H'' then Append_word host (ucast v :: int2) b
          else Inl Undefined_behaviour
      | Va_long v \<Rightarrow>
          if c = CHR ''l'' \<or> c = CHR ''L'' then Append_word host v b else Inl Undefined_behaviour
      | Va_double v \<Rightarrow>
          if c = CHR ''d'' then Append_word host v b
          else if c = CHR ''f'' then Append_word host (narrow v) b
          else Inl Undefined_behaviour
      | Va_cstr s \<Rightarrow>
          if c = CHR ''s'' then Append_string host s b else Inl Undefined_behaviour
      | Va_ptr p \<Rightarrow>
          if c = CHR ''p'' then Append host (native_bytes host p) False b
          else Inl Undefined_behaviour)"

fun pack :: "bool \<Rightarrow> (int8 \<Rightarrow> int4) \<Rightarrow> string \<Rightarrow> vararg list \<Rightarrow> DCBuffer \<Rightarrow> DCBuffer result" where
  "pack host narrow [] args b = Inr b"
| "pack host narrow (c # format) args b =
     (if c \<notin> set ''isdbBhHfIlLp'' then Inl Assert_failure
      else case args of [] \<Rightarrow> Inl Undefined_behaviour
        | a # args' \<Rightarrow> bind_result (pack_item host narrow c a b) (pack host narrow format args'))"

text \<open>What the destinations of \<open>unpack\<close> receive; \<open>None\<close> is a destination left as it was.\<close>

datatype unpacked = Got1 "uint1 option" | Got2 "int2 option" | Got4 "int4 option"
  | Got8 "int8 option" | Got_string string | Got_ptr int8

text \<open>The case \<open>p\<close> copies from the start of the block and moves the extraction position.\<close>

definition unpack_item :: "bool \<Rightarrow> char \<Rightarrow> DCBuffer \<Rightarrow> (unpacked \<times> DCBuffer) result" where
  "unpack_item host c b =
     (if c \<in> set ''bB'' then bind_result (Extract_word host b) (\<lambda>(v, b'). Inr (Got1 v, b'))
      else if c \<in> set ''hH'' then bind_result (Extract_word host b) (\<lambda>(v, b'). Inr (Got2 v, b'))
      else if c \<in> set ''iIf'' then bind_result (Extract_word host b) (\<lambda>(v, b'). Inr (Got4 v, b'))
      else if c \<in> set ''lLd'' then bind_result (Extract_word host b) (\<lambda>(v, b'). Inr (Got8 v, b'))
      else if c = CHR ''s'' then
        bind_result (Extract_string host b) (\<lambda>(s, b'). Inr (Got_string s, b'))
      else if c = CHR ''p'' then
        bind_result (block_read (mem b) 0 8) (\<lambda>bs.
          bind_result (incrementExtractPointer 8 b) (\<lambda>b'.
            Inr (Got_ptr (word_of_native host bs), b')))
      else Inl Assert_failure)"

fun unpack :: "bool \<Rightarrow> string \<Rightarrow> DCBuffer \<Rightarrow> (unpacked list \<times> DCBuffer) result" where
  "unpack host [] b = Inr ([], b)"
| "unpack host (c # format) b =
     bind_result (unpack_item host c b) (\<lambda>(x, b1).
       bind_result (unpack host format b1) (\<lambda>(xs, b2). Inr (x # xs, b2)))"

section \<open>Buffers inside buffers\<close>

definition saveToDCBuffer :: "bool \<Rightarrow> DCBuffer \<Rightarrow> DCBuffer \<Rightarrow> DCBuffer result" where
  "saveToDCBuffer host self buf =
     bind_result (Append_word host (if isbigendian self then 1 else 0 :: uint1) buf) (\<lambda>b1.
       bind_result (Append_word host (word_of_int (wSize self) :: int4) b1) (\<lambda>b2.
         if wSize self < 0 then Inl Undefined_behaviour
         else bind_result (block_read (mem self) 0 (nat (wSize self))) (\<lambda>bytes.
           Append host bytes False b2)))"

text \<open>
  The values of the first two \<open>Extract\<close>s are used whatever they return; that of the third is
  ignored, so the block keeps what \<open>new\<close> gave it.
\<close>

definition restoreFromDCBuffer :: "bool \<Rightarrow> DCBuffer \<Rightarrow> DCBuffer \<Rightarrow> (DCBuffer \<times> DCBuffer) result" where
  "restoreFromDCBuffer host self buf =
     bind_result (Extract_word_init host buf) (\<lambda>(isBigEndian :: uint1, b1).
       bind_result (Extract_word_init host b1) (\<lambda>(count :: int4, b2).
         bind_result (Extract (sint count) False b2) (\<lambda>(raw, b3).
           Inr (forceEndian (isBigEndian = 1)
             (Set_buf host (Some (case raw of Some bs \<Rightarrow> bs | None \<Rightarrow> new_char (uint count)))
               (sint count) (sint count) True self), b3))))"

section \<open>Lemmas\<close>

text \<open>What packing an argument and unpacking it again leaves in the destination.\<close>

definition packed_value :: "(int8 \<Rightarrow> int4) \<Rightarrow> char \<Rightarrow> vararg \<Rightarrow> unpacked option" where
  "packed_value narrow c a =
     (case a of
        Va_int v \<Rightarrow>
          if c \<in> set ''iI'' then Some (Got4 (Some v))
          else if c \<in> set ''bB'' then Some (Got1 (Some (ucast v)))
          else if c \<in> set ''hH'' then Some (Got2 (Some (ucast v))) else None
      | Va_long v \<Rightarrow> if c \<in> set ''lL'' then Some (Got8 (Some v)) else None
      | Va_double v \<Rightarrow>
          if c = CHR ''d'' then Some (Got8 (Some v))
          else if c = CHR ''f'' then Some (Got4 (Some (narrow v))) else None
      | Va_cstr s \<Rightarrow> if c = CHR ''s'' \<and> short s then Some (Got_string s) else None
      | Va_ptr p \<Rightarrow> None)"

primrec enc_unpacked :: "bool \<Rightarrow> unpacked \<Rightarrow> char list" where
  "enc_unpacked h (Got1 v) = native_bytes h (the v)"
| "enc_unpacked h (Got2 v) = native_bytes h (the v)"
| "enc_unpacked h (Got4 v) = native_bytes h (the v)"
| "enc_unpacked h (Got8 v) = native_bytes h (the v)"
| "enc_unpacked h (Got_string s) = enc_string h s"
| "enc_unpacked h (Got_ptr p) = native_bytes h p"

lemma reads_word_opt:
  assumes "8 dvd LENGTH('a)"
  shows "reads e (Extract_word h) (native_bytes e w) (Some (w :: 'a::len word))"
  using reads_word [OF assms, of e h w]
  unfolding reads_def Extract_word_init_def
  by (fastforce simp: result_simps split: option.splits)

lemma writes_pack_item:
  "packed_value narrow c a = Some x \<Longrightarrow> writes h (pack_item h narrow c a) (enc_unpacked h x)"
  by (auto simp: packed_value_def pack_item_def [abs_def] writes_word writes_string
      split: vararg.splits if_splits)

lemma reads_unpack_item:
  "packed_value narrow c a = Some x \<Longrightarrow> reads e (unpack_item h c) (enc_unpacked e x) x"
  unfolding packed_value_def unpack_item_def
  by (auto simp: reads_word_opt reads_map [where f = Got1] reads_map [where f = Got2]
      reads_map [where f = Got4] reads_map [where f = Got8]
      reads_map [where f = Got_string] reads_string split: vararg.splits if_splits)

lemma packed_value_known: "packed_value narrow c a = Some x \<Longrightarrow> c \<in> set ''isdbBhHfIlLp''"
  by (auto simp: packed_value_def split: vararg.splits if_splits)

lemma writes_pack:
  assumes "list_all2 (\<lambda>(c, a) x. packed_value narrow c a = Some x) (zip format args) xs"
    and "length args = length format"
  shows "writes h (pack h narrow format args) (concat (map (enc_unpacked h) xs))"
  using assms
proof (induction format arbitrary: args xs)
  case Nil
  then show ?case by (simp add: writes_def)
next
  case (Cons c format)
  then obtain a args' where args: "args = a # args'" by (cases args) auto
  with Cons.prems obtain x xs' where x: "xs = x # xs'" "packed_value narrow c a = Some x"
    "list_all2 (\<lambda>(c, a) x. packed_value narrow c a = Some x) (zip format args') xs'"
    by (auto simp: list_all2_Cons1)
  have "writes h (\<lambda>b. bind_result (pack_item h narrow c a b) (pack h narrow format args'))
      (enc_unpacked h x @ concat (map (enc_unpacked h) xs'))"
    using Cons.prems(2) args x
    by (intro writes_bind writes_pack_item Cons.IH) auto
  moreover note packed_value_known [OF x(2)]
  ultimately show ?case using args x(1) by (simp add: writes_def)
qed

lemma reads_unpack:
  assumes "list_all2 (\<lambda>(c, a) x. packed_value narrow c a = Some x) (zip format args) xs"
    and "length args = length format"
  shows "reads e (unpack h format) (concat (map (enc_unpacked e) xs)) xs"
  using assms
proof (induction format arbitrary: args xs)
  case Nil
  then show ?case by (simp add: reads_def)
next
  case (Cons c format)
  then obtain a args' where args: "args = a # args'" by (cases args) auto
  with Cons.prems obtain x xs' where x: "xs = x # xs'" "packed_value narrow c a = Some x"
    "list_all2 (\<lambda>(c, a) x. packed_value narrow c a = Some x) (zip format args') xs'"
    by (auto simp: list_all2_Cons1)
  have "reads e (\<lambda>b. bind_result (unpack h format b) (\<lambda>(xs, b). Inr (x # xs, b)))
      (concat (map (enc_unpacked e) xs')) (x # xs')"
    using Cons.prems(2) args x by (intro reads_map [where f = "Cons x"] Cons.IH) auto
  with reads_unpack_item [OF x(2)] have "reads e (\<lambda>b. bind_result (unpack_item h c b) (\<lambda>(x, b1).
      bind_result (unpack h format b1) (\<lambda>(xs, b2). Inr (x # xs, b2))))
      (enc_unpacked e x @ concat (map (enc_unpacked e) xs')) (x # xs')"
    by (rule reads_bind)
  then show ?case using x(1) by (simp add: reads_def)
qed

text \<open>The buffers that \<open>restoreFromDCBuffer\<close> and \<open>restoreFromFd\<close> build.\<close>

definition restored :: "bool \<Rightarrow> char list \<Rightarrow> DCBuffer" where
  "restored big bytes = \<lparr>pBuf = (if bytes = [] then None else Some bytes), owns_pBuf = True,
     wMax = int (length bytes), wSize = int (length bytes), wSizeExtracted = 0,
     isbigendian = big, appendReallocs = 0\<rparr>"

definition enc_DCBuffer :: "bool \<Rightarrow> DCBuffer \<Rightarrow> char list" where
  "enc_DCBuffer h b = native_bytes h (if isbigendian b then 1 else 0 :: uint1)
     @ native_bytes h (word_of_int (wSize b) :: int4) @ used b"

definition canonical :: "DCBuffer \<Rightarrow> bool" where
  "canonical b \<longleftrightarrow> b = restored (isbigendian b) (used b) \<and> short (used b)"

lemma restored_wf [simp]:
  "short bytes \<Longrightarrow> buf_wf (restored big bytes)" "used (restored big bytes) = bytes"
  "unread (restored big bytes) = bytes"
  "isbigendian (restored big bytes) = big" "wSize (restored big bytes) = int (length bytes)"
  "short bytes \<Longrightarrow> canonical (restored big bytes)"
  by (auto simp: restored_def buf_defs short_def canonical_def)

lemma canonical_wf: "canonical b \<Longrightarrow> buf_wf b"
  by (metis canonical_def restored_wf(1))

lemma Set_restored:
  "short bytes \<Longrightarrow> forceEndian big (Set_buf h (Some bytes) (int (length bytes))
     (int (length bytes)) True self) = restored big bytes"
  by (auto simp: forceEndian_def Set_buf_def restored_def commonInit_def Delete_def)

lemma writes_saveToDCBuffer:
  assumes "buf_wf b"
  shows "writes h (saveToDCBuffer h b) (enc_DCBuffer h b)"
proof -
  note block_read_used [OF assms]
  moreover have "\<not> wSize b < 0" using assms by (auto simp: buf_wf_def)
  moreover have "writes h (\<lambda>buf. bind_result (Append_word h (if isbigendian b then 1 else 0 :: uint1) buf)
      (\<lambda>b1. bind_result (Append_word h (word_of_int (wSize b) :: int4) b1) (Append h (used b) False)))
      (enc_DCBuffer h b)"
    unfolding enc_DCBuffer_def by (intro writes_bind writes_word writes_Append)
  ultimately show ?thesis by (simp add: writes_def saveToDCBuffer_def)
qed

lemma reads_Extract: "reads e (Extract (int (length bs)) False) bs (Some bs)"
  unfolding reads_def
proof (intro allI impI, elim conjE)
  fix b rest
  assume b: "buf_wf b" "isbigendian b = e" "unread b = bs @ rest"
  from Extract_ok [OF b(1,3), of False] b(2)
  show "\<exists>b'. Extract (int (length bs)) False b = Inr (Some bs, b') \<and> buf_wf b'
      \<and> isbigendian b' = e \<and> unread b' = rest \<and> used b' = used b"
    by auto
qed

lemma sint_of_short:
  "short xs \<Longrightarrow> sint (of_nat (length xs) :: int4) = int (length xs)"
  by (simp add: short_def signed_of_nat signed_take_bit_int_eq_self)

lemma reads_restoreFromDCBuffer:
  assumes "buf_wf b"
  shows "reads e (restoreFromDCBuffer h self) (enc_DCBuffer e b) (restored (isbigendian b) (used b))"
proof -
  have len: "wSize b = int (length (used b))" and short: "short (used b)"
    using assms used_length [OF assms] by (auto simp: buf_wf_def short_def)
  have set: "reads e (\<lambda>b3. bind_result (Extract (sint (word_of_int (wSize b) :: int4)) False b3)
      (\<lambda>(raw, b4). Inr (forceEndian ((if isbigendian b then 1 else 0 :: uint1) = 1)
        (Set_buf h (Some (case raw of Some bs \<Rightarrow> bs | None \<Rightarrow> new_char (uint (word_of_int (wSize b) :: int4))))
          (sint (word_of_int (wSize b) :: int4)) (sint (word_of_int (wSize b) :: int4)) True self), b4)))
      (used b) (restored (isbigendian b) (used b))"
    using reads_map [OF reads_Extract [of e "used b"], of "\<lambda>raw. forceEndian (isbigendian b)
        (Set_buf h (Some (case raw of Some bs \<Rightarrow> bs
           | None \<Rightarrow> new_char (uint (word_of_int (wSize b) :: int4))))
          (int (length (used b))) (int (length (used b))) True self)"]
    by (cases "isbigendian b") (simp_all add: len sint_of_short [OF short] Set_restored [OF short])
  show ?thesis
    unfolding restoreFromDCBuffer_def enc_DCBuffer_def
    by (rule reads_bind [OF uint1.get_reads [OF TrueI]], rule reads_bind [OF int4.get_reads [OF TrueI]])
      (rule set)
qed

interpretation dcbuffer: codec saveToDCBuffer "\<lambda>h. restoreFromDCBuffer h (DCBuffer_empty h)"
  enc_DCBuffer canonical
proof unfold_locales
  fix b :: DCBuffer and host e
  assume "canonical b"
  then show "writes host (saveToDCBuffer host b) (enc_DCBuffer host b)"
    and "reads e (restoreFromDCBuffer host (DCBuffer_empty host)) (enc_DCBuffer e b) b"
    using writes_saveToDCBuffer reads_restoreFromDCBuffer [of b e host] canonical_wf
    by (auto simp: canonical_def)
qed

section \<open>Properties\<close>

text \<open>
  C34. \<open>Append\<close> adds exactly the given bytes (in the opposite order when a conversion is asked
  for) behind the used prefix, keeps the extraction position and the well-formedness of the
  buffer, and makes room first if there is none; the only buffer it refuses, with the error exit,
  is one over a block of the caller's that the bytes do not fit in.
\<close>

theorem Append_adds:
  assumes "buf_wf b" and "2 * (wSize b + int (length add)) < 2 ^ 31"
  shows "if growable b \<or> wSize b + int (length add) \<le> wMax b
    then \<exists>b'. Append host add conv b = Inr b' \<and> buf_wf b' \<and> wSizeExtracted b' = wSizeExtracted b
      \<and> used b' = used b @ (if conv then rev add else add)
    else Append host add conv b = Inl Exit_failure"
proof (cases "growable b \<or> wSize b + int (length add) \<le> wMax b")
  case True
  with Append_ok [OF assms(1) True assms(2), of host conv] show ?thesis by auto
next
  case False
  moreover have "int4_ok (wSize b + int (length add))"
    using assms by (auto simp: int4_ok_def buf_wf_def)
  ultimately show ?thesis
    using assms by (auto simp: Append_def append_room_def growable_def)
qed

theorem Append_adds_witness:
  "(\<exists>b'. Append True ''abc'' True (DCBuffer_empty False) = Inr b' \<and> used b' = ''cba'')
   \<and> Append True ''abc'' False (Set_buf True (Some ''xy'') 2 1 False (DCBuffer_empty True))
       = Inl Exit_failure"
proof -
  let ?u = "Set_buf True (Some ''xy'') 2 1 False (DCBuffer_empty True)"
  have u: "buf_wf ?u" "\<not> growable ?u" "wSize ?u = 1" "wMax ?u = 2"
    by (simp_all add: Set_buf_def Delete_def commonInit_def DCBuffer_empty_def buf_defs)
  then show ?thesis
    using Append_adds [of "DCBuffer_empty False" "''abc''" True True] Append_adds [of ?u "''abc''" True False]
    by auto
qed

text \<open>
  \<open>Extract\<close> hands out the next \<open>n\<close> unread bytes and moves the extraction position behind
  them without touching the contents; if fewer are left it returns nothing and changes nothing.
\<close>

theorem Extract_takes:
  assumes "buf_wf b" and "wSizeExtracted b + int n < 2 ^ 31"
  shows "if n \<le> length (unread b)
    then \<exists>b'. Extract (int n) conv b =
        Inr (Some (if conv then rev (take n (unread b)) else take n (unread b)), b')
      \<and> buf_wf b' \<and> used b' = used b \<and> unread b' = drop n (unread b)
    else Extract (int n) conv b = Inr (None, b)"
proof (cases "n \<le> length (unread b)")
  case True
  then have "unread b = take n (unread b) @ drop n (unread b)" "length (take n (unread b)) = n" by auto
  with Extract_ok [OF assms(1), of "take n (unread b)" "drop n (unread b)" conv] True show ?thesis
    by fastforce
next
  case False
  with Extract_short [OF assms(1), of "int n" conv] assms(2) show ?thesis by simp
qed

theorem Extract_takes_witness:
  "(\<exists>b'. Extract 2 False (restored False ''abc'') = Inr (Some ''ab'', b') \<and> unread b' = ''c'')
   \<and> Extract 4 False (restored False ''abc'') = Inr (None, restored False ''abc'')"
  using Extract_takes [of "restored False ''abc''" 2 False] Extract_takes [of "restored False ''abc''" 4 False]
  by (simp add: short_def) (auto simp: restored_def short_def eval_nat_numeral)

text \<open>
  C37. What \<open>pack\<close> puts into an empty buffer on one host, \<open>unpack\<close> with the same format gets
  back on any host, whatever the byte orders of the two: every integer narrowed to the width of
  its format character, every floating point value bit for bit, every string in full, and
  nothing is left over. The format \<open>p\<close> is excluded (\<open>packed_value\<close>).
\<close>

theorem pack_unpack:
  assumes "length args = length format"
    and "list_all2 (\<lambda>(c, a) x. packed_value narrow c a = Some x) (zip format args) xs"
    and "2 * length (concat (map (enc_unpacked h) xs)) < 2 ^ 31"
  shows "\<exists>b b'. pack h narrow format args (DCBuffer_empty h) = Inr b
    \<and> unpack h' format b = Inr (xs, b') \<and> unread b' = []"
  using written_then_read [OF writes_pack [OF assms(2,1)] reads_unpack [OF assms(2,1)] assms(3)]
  by blast

theorem pack_unpack_witness:
  "\<exists>b b'. pack False ucast ''ibs'' [Va_int 258, Va_int 511, Va_cstr ''hi''] (DCBuffer_empty False) = Inr b
    \<and> unpack True ''ibs'' b = Inr ([Got4 (Some 258), Got1 (Some 255), Got_string ''hi''], b')
    \<and> unread b' = []"
proof -
  let ?xs = "[Got4 (Some 258), Got1 (Some 255), Got_string ''hi'']"
  have "list_all2 (\<lambda>(c, a) x. packed_value ucast c a = Some x)
      (zip ''ibs'' [Va_int 258, Va_int 511, Va_cstr ''hi'']) ?xs"
    by (simp add: packed_value_def short_def)
  from pack_unpack [OF _ this, of False True] show ?thesis
    by (simp add: enc_string_def)
qed

text \<open>
  \<open>unpack\<close> of a pointer does not invert \<open>pack\<close>: it copies from the start of the buffer and
  not from the extraction position, so after an \<open>int\<close> it delivers the bytes of that \<open>int\<close>.
\<close>

theorem unpack_pointer_ignores_position:
  "\<exists>b b'. pack h narrow ''ip'' [Va_int v, Va_ptr p] (DCBuffer_empty h) = Inr b
    \<and> unpack h ''ip'' b = Inr ([Got4 (Some v),
          Got_ptr (word_of_native h (native_bytes h v @ take 4 (native_bytes h p)))], b')
    \<and> unread b' = []"
proof -
  have "2 * (wSize (DCBuffer_empty h) + int (length (native_bytes h v))) < 2 ^ 31" by simp
  from writesD [OF writes_word [of h v] empty_wf(1,2,5) this]
  obtain b1 where b1: "Append_word h v (DCBuffer_empty h) = Inr b1" "buf_wf b1" "growable b1"
    "isbigendian b1 = h" "used b1 = native_bytes h v" "wSizeExtracted b1 = 0" "wSize b1 = 4"
    by auto
  then have "2 * (wSize b1 + int (length (native_bytes h p))) < 2 ^ 31" by simp
  from writesD [OF writes_Append b1(2-4) this]
  obtain b2 where b2: "Append h (native_bytes h p) False b1 = Inr b2" "buf_wf b2" "isbigendian b2 = h"
    "used b2 = native_bytes h v @ native_bytes h p" "wSizeExtracted b2 = 0" "wSize b2 = 12"
    using b1 by auto
  then have "unread b2 = native_bytes h v @ native_bytes h p" by (simp add: unread_def)
  from readsD [OF reads_word_opt [where h = h] b2(2,3) this]
  obtain b3 where b3: "Extract_word h b2 = Inr (Some v, b3)" "buf_wf b3"
    "unread b3 = native_bytes h p" "used b3 = used b2" by auto
  have len: "length (used b3) = 12" "length (unread b3) = 8" using b3 b2(4) by simp_all
  then have sz: "wSize b3 = 12" "wSizeExtracted b3 = 4"
    using used_length [OF b3(2)] unread_length [OF b3(2)] b3(2) by (auto simp: buf_wf_def)
  have "take 8 (mem b3) = take 8 (used b3)" "8 \<le> length (mem b3)"
    using b3(2) sz by (auto simp: used_def buf_wf_def)
  then have ptr: "block_read (mem b3) 0 8 = Inr (native_bytes h v @ take 4 (native_bytes h p))"
    using b3(4) b2(4) by (simp add: block_read_fits)
  have "unread (b3\<lparr>wSizeExtracted := 12\<rparr>) = []"
    using len sz by (simp add: unread_def used_def)
  then show ?thesis
    using b1(1) b2(1) b3(1) ptr sz
    by (simp add: pack_item_def unpack_item_def incrementExtractPointer_def int4_ok_def)
qed

text \<open>
  Buffers saved one after the other into a buffer come back from it on any host, in the same
  order, with the bytes and the byte order flag they had; each of the restored buffers is fresh
  (nothing extracted, no spare room) and no byte is left over.
\<close>

theorem save_restore_buffers:
  assumes "\<And>b. b \<in> set bufs \<Longrightarrow> buf_wf b"
    and "2 * length (concat (map (enc_DCBuffer h) bufs)) < 2 ^ 31"
  shows "\<exists>b b'. fold_result (saveToDCBuffer h) bufs (DCBuffer_empty h) = Inr b
    \<and> get_seq (restoreFromDCBuffer h' self) (length bufs) b
        = Inr (map (\<lambda>b. restored (isbigendian b) (used b)) bufs, b')
    \<and> unread b' = []"
proof -
  have w: "writes h (fold_result (saveToDCBuffer h) bufs) (concat (map (enc_DCBuffer h) bufs))"
    using assms(1) by (intro writes_seq writes_saveToDCBuffer)
  have r: "reads h (get_seq (restoreFromDCBuffer h' self) (length bufs))
      (concat (map (enc_DCBuffer h) bufs)) (map (\<lambda>b. restored (isbigendian b) (used b)) bufs)"
    using assms(1) by (intro reads_seq reads_restoreFromDCBuffer)
  show ?thesis
    using written_then_read [OF w r assms(2)] by blast
qed

theorem save_restore_buffers_witness:
  "\<exists>b b'. fold_result (saveToDCBuffer False) [restored True ''ab'', restored False []]
      (DCBuffer_empty False) = Inr b
    \<and> get_seq (restoreFromDCBuffer True (DCBuffer_empty True)) 2 b
        = Inr ([restored True ''ab'', restored False []], b') \<and> unread b' = []"
proof -
  let ?bs = "[restored True ''ab'', restored False []]"
  have wf: "\<And>b. b \<in> set ?bs \<Longrightarrow> buf_wf b" by (auto simp: short_def)
  have "2 * length (concat (map (enc_DCBuffer False) ?bs)) < 2 ^ 31"
    by (simp add: enc_DCBuffer_def short_def)
  from save_restore_buffers [OF wf this, of True "DCBuffer_empty True"]
  show ?thesis by (simp add: numeral_2_eq_2)
qed

end
