(* ===== verification/StrUtil.thy ===== *)
theory StrUtil
  imports Prelude
begin

text \<open>
  The string helpers of \<open>src/src/dcmpi.h\<close> and \<open>src/src/dcmpi.cpp\<close>: prefix and suffix tests,
  \<open>dcmpi_string_tokenize\<close>, \<open>dcmpi_string_replace\<close>, trimming, numbers with a magnitude suffix,
  and the argument vector helpers. \<open>std::string\<close> positions are \<open>nat option\<close>, \<open>None\<close> for \<open>npos\<close>;
  where the code computes with a position that may be \<open>npos\<close> they are 64-bit words.
\<close>

section \<open>Searching\<close>

definition occurs_at :: "string \<Rightarrow> string \<Rightarrow> nat \<Rightarrow> bool" where
  "occurs_at s pat i \<longleftrightarrow> i + length pat \<le> length s \<and> take (length pat) (drop i s) = pat"

text \<open>\<open>s.find(pat)\<close> and \<open>s.rfind(pat)\<close>.\<close>

definition str_find :: "string \<Rightarrow> string \<Rightarrow> nat option" where
  "str_find s pat = find (occurs_at s pat) [0..<Suc (length s)]"

definition str_rfind :: "string \<Rightarrow> string \<Rightarrow> nat option" where
  "str_rfind s pat = find (occurs_at s pat) (rev [0..<Suc (length s)])"

text \<open>
  \<open>s.find_first_of\<close> and \<open>s.find_first_not_of\<close> from a position: the first character at or behind
  it that satisfies \<open>P\<close>.
\<close>

definition find_from :: "(char \<Rightarrow> bool) \<Rightarrow> string \<Rightarrow> nat option \<Rightarrow> nat option" where
  "find_from P s p = (case p of None \<Rightarrow> None | Some i \<Rightarrow>
     (let k = length (takeWhile (\<lambda>c. \<not> P c) (drop i s))
      in if i + k < length s then Some (i + k) else None))"

definition npos_word :: "nat option \<Rightarrow> int8" where
  "npos_word p = (case p of None \<Rightarrow> - 1 | Some i \<Rightarrow> of_nat i)"

definition dcmpi_string_starts_with :: "string \<Rightarrow> string \<Rightarrow> bool" where
  "dcmpi_string_starts_with subject arg \<longleftrightarrow> str_find subject arg = Some 0"

text \<open>The difference of the sizes is unsigned; \<open>npos\<close> is its value for an argument longer by one.\<close>

definition dcmpi_string_ends_with :: "string \<Rightarrow> string \<Rightarrow> bool" where
  "dcmpi_string_ends_with subject arg \<longleftrightarrow>
     npos_word (str_rfind subject arg) = of_nat (length subject) - of_nat (length arg)"

section \<open>Tokens\<close>

function tokenize_loop :: "string \<Rightarrow> string \<Rightarrow> nat option \<Rightarrow> nat option \<Rightarrow> string list \<Rightarrow>
    string list result" where
  "tokenize_loop s delimiters lastPos pos tokens =
     (if pos = None \<and> lastPos = None then Inr tokens
      else case lastPos of None \<Rightarrow> Inl Uncaught_exception
        | Some l \<Rightarrow>
            (let tok = (case pos of None \<Rightarrow> drop l s | Some p \<Rightarrow> take (p - l) (drop l s));
                 lastPos' = find_from (\<lambda>c. c \<notin> set delimiters) s pos;
                 pos' = find_from (\<lambda>c. c \<in> set delimiters) s lastPos'
             in tokenize_loop s delimiters lastPos' pos' (tokens @ [tok])))"
  by pat_completeness auto

definition tokenize_measure :: "string \<Rightarrow> nat option \<Rightarrow> nat option \<Rightarrow> nat" where
  "tokenize_measure s lastPos pos = (case pos of Some p \<Rightarrow> 2 + (length s - p)
     | None \<Rightarrow> if lastPos = None then 0 else 1)"

lemma find_from_Some:
  assumes "find_from P s (Some i) = Some j"
  shows "i \<le> j" and "j < length s" and "P (s ! j)" and "\<And>k. i \<le> k \<Longrightarrow> k < j \<Longrightarrow> \<not> P (s ! k)"
proof -
  let ?k = "length (takeWhile (\<lambda>c. \<not> P c) (drop i s))"
  have j: "j = i + ?k" "i + ?k < length s"
    using assms by (auto simp: find_from_def Let_def split: if_splits)
  then show "i \<le> j" "j < length s" by auto
  have "?k < length (drop i s)" using j by simp
  from nth_length_takeWhile [OF this] show "P (s ! j)" using j by simp
  show "\<not> P (s ! k)" if "i \<le> k" "k < j" for k
  proof -
    have "k - i < ?k" using that j by auto
    from set_takeWhileD [OF nth_mem [OF this]] takeWhile_nth [OF this]
    show ?thesis using that j by simp
  qed
qed

lemma find_from_None [simp]: "find_from P s None = None"
  by (simp add: find_from_def)

termination tokenize_loop
proof (relation "measure (\<lambda>(s, d, lastPos, pos, _). tokenize_measure s lastPos pos)")
  fix s d :: string and lastPos pos :: "nat option" and toks :: "string list" and l tok lp p'
  assume not_done: "\<not> (pos = None \<and> lastPos = None)" and "lastPos = Some l"
    and lp: "lp = find_from (\<lambda>c. c \<notin> set d) s pos" and p': "p' = find_from (\<lambda>c. c \<in> set d) s lp"
  show "((s, d, lp, p', toks @ [tok]), (s, d, lastPos, pos, toks))
      \<in> measure (\<lambda>(s, d, lastPos, pos, _). tokenize_measure s lastPos pos)"
  proof (cases pos)
    case None
    with lp p' \<open>lastPos = Some l\<close> show ?thesis by (simp add: tokenize_measure_def)
  next
    case (Some p)
    show ?thesis
    proof (cases p')
      case None
      with Some show ?thesis by (auto simp: tokenize_measure_def)
    next
      case (Some q)
      with p' obtain m where m: "lp = Some m" by (cases lp) auto
      have q: "find_from (\<lambda>c. c \<in> set d) s (Some m) = Some q" using p' Some m by simp
      have "find_from (\<lambda>c. c \<notin> set d) s (Some p) = Some m" using lp m \<open>pos = Some p\<close> by simp
      note m' = find_from_Some(1,3) [OF this] and q' = find_from_Some(1,2,3) [OF q]
      then have "m \<noteq> q" by auto
      with m' q' have "p < q" by simp
      with Some q'(2) \<open>pos = Some p\<close> show ?thesis by (simp add: tokenize_measure_def)
    qed
  qed
qed simp

declare tokenize_loop.simps [simp del]

definition dcmpi_string_tokenize :: "string \<Rightarrow> string \<Rightarrow> string list result" where
  "dcmpi_string_tokenize s delimiters =
     (let lastPos = find_from (\<lambda>c. c \<notin> set delimiters) s (Some 0);
          pos = find_from (\<lambda>c. c \<in> set delimiters) s lastPos
      in tokenize_loop s delimiters lastPos pos [])"

text \<open>The default delimiters.\<close>

abbreviation blanks :: string where
  "blanks \<equiv> [CHR '' '', CHR 0x09, CHR 0x0A]"

section \<open>Replacing\<close>

text \<open>
  \<open>dcmpi_string_replace\<close> searches from the start after every replacement, so it may not end:
  \<open>None\<close> is that outcome. The flag tells whether anything was replaced.
\<close>

partial_function (option) replace_loop ::
    "string \<Rightarrow> string \<Rightarrow> bool \<Rightarrow> string \<Rightarrow> bool \<Rightarrow> (string \<times> bool) option" where
  "replace_loop before after replace_all s out =
     (case str_find s before of
        None \<Rightarrow> Some (s, out)
      | Some pos \<Rightarrow>
          (let s' = take pos s @ after @ drop (pos + length before) s
           in if \<not> replace_all then Some (s', True) else replace_loop before after replace_all s' True))"

definition dcmpi_string_replace :: "string \<Rightarrow> string \<Rightarrow> string \<Rightarrow> bool \<Rightarrow> (string \<times> bool) option" where
  "dcmpi_string_replace s before after replace_all = replace_loop before after replace_all s False"

definition sql_escape :: "string \<Rightarrow> string option" where
  "sql_escape s = map_option fst (dcmpi_string_replace s [CHR 0x27] [CHR 0x27, CHR 0x27] True)"

section \<open>Trimming and numbers\<close>

definition is_blank :: "char \<Rightarrow> bool" where
  "is_blank c \<longleftrightarrow> c \<in> set blanks"

text \<open>\<open>s.find_first_not_of\<close> and \<open>s.find_last_not_of\<close> with the blanks, and the two erasures.\<close>

definition dcmpi_string_trim_front :: "string \<Rightarrow> string" where
  "dcmpi_string_trim_front s =
     (case find_from (\<lambda>c. \<not> is_blank c) s (Some 0) of None \<Rightarrow> [] | Some i \<Rightarrow> drop i s)"

definition find_last_not_blank :: "string \<Rightarrow> nat option" where
  "find_last_not_blank s = find (\<lambda>i. \<not> is_blank (s ! i)) (rev [0..<length s])"

definition dcmpi_string_trim_rear :: "string \<Rightarrow> string" where
  "dcmpi_string_trim_rear s = take (unat (npos_word (find_last_not_blank s) + 1)) s"

definition dcmpi_string_trim :: "string \<Rightarrow> string" where
  "dcmpi_string_trim s = dcmpi_string_trim_rear (dcmpi_string_trim_front s)"

definition isdigit :: "char \<Rightarrow> bool" where
  "isdigit c \<longleftrightarrow> CHR ''0'' \<le> c \<and> c \<le> CHR ''9''"

text \<open>The loop of \<open>dcmpi_string_isnum\<close> from index \<open>i\<close> on.\<close>

fun isnum_loop :: "string \<Rightarrow> bool" where
  "isnum_loop [] = True"
| "isnum_loop (c # cs) = (if \<not> isdigit c then False else isnum_loop cs)"

definition dcmpi_string_isnum :: "string \<Rightarrow> bool" where
  "dcmpi_string_isnum s = isnum_loop s"

definition dcmpi_hostname_to_shortname :: "string \<Rightarrow> string" where
  "dcmpi_hostname_to_shortname hostname =
     (case str_find hostname ''.'' of None \<Rightarrow> hostname | Some dotpos \<Rightarrow> take dotpos hostname)"

text \<open>
  \<open>strtoull(s, NULL, 10)\<close>: leading white space, a sign, digits. The value saturates at the
  largest \<open>unsigned long long\<close>, and a minus sign negates it modulo \<open>2 ^ 64\<close>.
\<close>

definition digit_value :: "char \<Rightarrow> nat" where
  "digit_value c = of_char c - of_char (CHR ''0'')"

definition decimal :: "string \<Rightarrow> nat" where
  "decimal ds = foldl (\<lambda>n c. 10 * n + digit_value c) 0 ds"

definition isspace :: "char \<Rightarrow> bool" where
  "isspace c \<longleftrightarrow> c = CHR '' '' \<or> CHR 0x09 \<le> c \<and> c \<le> CHR 0x0D"

definition strtoull :: "string \<Rightarrow> int8" where
  "strtoull s =
     (let t = dropWhile isspace s;
          neg = (t \<noteq> [] \<and> hd t = CHR ''-'');
          u = (if t \<noteq> [] \<and> (hd t = CHR ''-'' \<or> hd t = CHR ''+'') then tl t else t);
          n = decimal (takeWhile isdigit u)
      in if 2 ^ 64 \<le> n then - 1 else if neg then - of_nat n else of_nat n)"

definition csnum_multiplier :: "char \<Rightarrow> int8" where
  "csnum_multiplier c =
     (let kb_1 = 1024
      in if c = CHR ''k'' \<or> c = CHR ''K'' then kb_1
         else if c = CHR ''m'' \<or> c = CHR ''M'' then kb_1 * kb_1
         else if c = CHR ''g'' \<or> c = CHR ''G'' then kb_1 * kb_1 * kb_1
         else if c = CHR ''t'' \<or> c = CHR ''T'' then kb_1 * kb_1 * kb_1 * kb_1
         else if c = CHR ''p'' \<or> c = CHR ''P'' then kb_1 * kb_1 * kb_1 * kb_1 * kb_1
         else 1)"

text \<open>\<open>num[num.size() - 1]\<close> of an empty string lies outside it.\<close>

definition dcmpi_csnum :: "string \<Rightarrow> int8 result" where
  "dcmpi_csnum num =
     (if num = [] then Inl Undefined_behaviour
      else let multiplier = csnum_multiplier (last num);
               num_part = (if multiplier \<noteq> 1 then butlast num else num)
           in Inr (strtoull num_part * multiplier))"

section \<open>Argument vectors\<close>

text \<open>
  \<open>dcmpi_args_shift(argc, argv, frompos)\<close>: \<open>argv\<close> holds \<open>argc\<close> strings. The last slot becomes
  NULL, which is no longer among the \<open>argc\<close> arguments.
\<close>

fun shift_loop :: "nat \<Rightarrow> nat \<Rightarrow> 'a list \<Rightarrow> 'a list" where
  "shift_loop 0 i argv = argv"
| "shift_loop (Suc k) i argv = shift_loop k (i + 1) (argv[i := argv ! (i + 1)])"

definition dcmpi_args_shift :: "string list \<Rightarrow> nat \<Rightarrow> string list result" where
  "dcmpi_args_shift argv frompos =
     (if argv = [] then Inl Undefined_behaviour
      else Inr (butlast (shift_loop (length argv - 1 - frompos) frompos argv)))"

definition dcmpi_args_pushback :: "string list \<Rightarrow> string \<Rightarrow> string list" where
  "dcmpi_args_pushback argv addme = argv @ [addme]"

section \<open>Lemmas\<close>

lemma occurs_at_iff: "occurs_at s pat i \<longleftrightarrow> (\<exists>xs ys. s = xs @ pat @ ys \<and> length xs = i)"
proof
  assume "occurs_at s pat i"
  then have "s = take i s @ pat @ drop (i + length pat) s" "length (take i s) = i"
    unfolding occurs_at_def by (metis add.commute append_take_drop_id drop_drop, auto)
  then show "\<exists>xs ys. s = xs @ pat @ ys \<and> length xs = i" by blast
qed (auto simp: occurs_at_def)

lemma find_upt_Some:
  "find P [0..<n] = Some i \<longleftrightarrow> i < n \<and> P i \<and> (\<forall>j<i. \<not> P j)"
  by (auto simp: find_Some_iff)

lemma str_find_None: "str_find s pat = None \<longleftrightarrow> (\<forall>i. \<not> occurs_at s pat i)"
  by (auto simp: str_find_def find_None_iff occurs_at_def)

lemma str_find_SomeD:
  assumes "str_find s pat = Some i"
  shows "s = take i s @ pat @ drop (i + length pat) s" and "i + length pat \<le> length s"
proof -
  have "occurs_at s pat i" using assms by (auto simp: str_find_def find_Some_iff)
  then show "s = take i s @ pat @ drop (i + length pat) s" "i + length pat \<le> length s"
    unfolding occurs_at_def by (metis add.commute append_take_drop_id drop_drop, auto)
qed

lemma str_find_char:
  "str_find s [c] = (if c \<in> set s then Some (length (takeWhile (\<lambda>x. x \<noteq> c) s)) else None)"
proof (cases "c \<in> set s")
  case False
  then show ?thesis by (auto simp: str_find_None occurs_at_iff)
next
  case True
  let ?k = "length (takeWhile (\<lambda>x. x \<noteq> c) s)"
  have "dropWhile (\<lambda>x. x \<noteq> c) s \<noteq> []" using True by (simp add: dropWhile_eq_Nil_conv)
  then have k: "?k < length s" by (simp add: dropWhile_eq_drop)
  with nth_length_takeWhile [OF k] have k: "?k < length s" "s ! ?k = c" by auto
  have at: "occurs_at s [c] i \<longleftrightarrow> i < length s \<and> s ! i = c" for i
    by (auto simp: occurs_at_def take_Suc_conv_app_nth hd_drop_conv_nth take_Suc)
  have "\<not> occurs_at s [c] j" if "j < ?k" for j
    using that nth_mem [OF that] set_takeWhileD [of "takeWhile (\<lambda>x. x \<noteq> c) s ! j" "\<lambda>x. x \<noteq> c" s]
    by (auto simp: at takeWhile_nth)
  with k show ?thesis
    using True unfolding str_find_def by (auto simp: find_upt_Some at simp del: upt_Suc)
qed

lemma find_from_drop:
  "find_from P s (Some i) = (if dropWhile (\<lambda>c. \<not> P c) (drop i s) = [] then None
     else Some (i + length (takeWhile (\<lambda>c. \<not> P c) (drop i s))))"
  by (auto simp: find_from_def Let_def dropWhile_eq_drop)

lemma find_from_NoneD: "find_from P s (Some i) = None \<Longrightarrow> dropWhile (\<lambda>c. \<not> P c) (drop i s) = []"
  unfolding find_from_drop by (metis option.distinct(1))

lemma find_from_SomeD:
  "find_from P s (Some i) = Some j \<Longrightarrow> drop j s = dropWhile (\<lambda>c. \<not> P c) (drop i s)"
  unfolding find_from_drop dropWhile_eq_drop drop_drop
  by (metis add.commute option.distinct(1) option.inject)

subsection \<open>Tokens\<close>

text \<open>The specification of \<open>dcmpi_string_tokenize\<close>: the maximal runs without a delimiter.\<close>

function words :: "string \<Rightarrow> string \<Rightarrow> string list" where
  "words d s = (case dropWhile (\<lambda>c. c \<in> set d) s of [] \<Rightarrow> []
     | c # cs \<Rightarrow> takeWhile (\<lambda>c. c \<notin> set d) (c # cs) # words d (dropWhile (\<lambda>c. c \<notin> set d) (c # cs)))"
  by pat_completeness auto
termination
proof (relation "measure (\<lambda>(d, s). length s)")
  fix d s :: string and c cs
  assume eq: "dropWhile (\<lambda>c. c \<in> set d) s = c # cs"
  then have "c \<notin> set d" by (metis dropWhile_eq_Cons_conv)
  then have "length (dropWhile (\<lambda>c. c \<notin> set d) (c # cs)) \<le> length cs"
    by (simp add: length_dropWhile_le)
  also have "\<dots> < length s" using arg_cong [OF eq, of length] length_dropWhile_le [of "\<lambda>c. c \<in> set d" s] by simp
  finally show "((d, dropWhile (\<lambda>c. c \<notin> set d) (c # cs)), d, s) \<in> measure (\<lambda>(d, s). length s)" by simp
qed simp

declare words.simps [simp del]

lemma words_skip: "words d (dropWhile (\<lambda>c. c \<in> set d) s) = words d s"
  by (subst (1 2) words.simps) (simp add: dropWhile_idem)

lemma words_Cons:
  "c \<notin> set d \<Longrightarrow> words d (c # cs) =
     (c # takeWhile (\<lambda>c. c \<notin> set d) cs) # words d (dropWhile (\<lambda>c. c \<notin> set d) cs)"
  by (subst words.simps) simp

lemma words_Nil [simp]: "words d [] = []"
  by (subst words.simps) simp

lemma words_none: "dropWhile (\<lambda>c. c \<in> set d) s = [] \<Longrightarrow> words d s = []"
  by (metis words_skip words_Nil)

lemma tokenize_loop_words:
  "l < length s \<Longrightarrow> s ! l \<notin> set d \<Longrightarrow>
   tokenize_loop s d (Some l) (find_from (\<lambda>c. c \<in> set d) s (Some l)) toks = Inr (toks @ words d (drop l s))"
proof (induction "length s - l" arbitrary: l toks rule: less_induct)
  case less
  let ?in = "\<lambda>c. c \<in> set d" and ?rest = "dropWhile (\<lambda>c. c \<notin> set d) (drop l s)"
  have hd: "drop l s = s ! l # drop (Suc l) s" using less.prems(1) by (simp add: Cons_nth_drop_Suc)
  then have w: "words d (drop l s) = takeWhile (\<lambda>c. c \<notin> set d) (drop l s) # words d ?rest"
    using less.prems(2) by (simp add: words_Cons)
  show ?case
  proof (cases "?rest = []")
    case True
    then have "takeWhile (\<lambda>c. c \<notin> set d) (drop l s) = drop l s"
      by (metis append_Nil2 takeWhile_dropWhile_id)
    moreover have "words d ?rest = []" by (simp only: True words_Nil)
    moreover have "takeWhile (\<lambda>c. c \<notin> set d) (drop l s) = drop l s"
      using True by (metis append_Nil2 takeWhile_dropWhile_id)
    ultimately have "words d (drop l s) = [drop l s]" using w by (simp only:)
    with True show ?thesis
      unfolding find_from_drop
      by (simp add: tokenize_loop.simps [of s d "Some l"] tokenize_loop.simps [of s d None]
          del: dropWhile_eq_Nil_conv)
  next
    case False
    define p where "p = l + length (takeWhile (\<lambda>c. c \<notin> set d) (drop l s))"
    have p: "find_from ?in s (Some l) = Some p" using False by (simp add: find_from_drop p_def)
    have drop_p: "drop p s = ?rest" by (simp add: p_def dropWhile_eq_drop add.commute)
    have tok: "take (p - l) (drop l s) = takeWhile (\<lambda>c. c \<notin> set d) (drop l s)"
      by (simp add: p_def takeWhile_eq_take [symmetric])
    let ?next = "find_from (\<lambda>c. c \<notin> set d) s (Some p)"
    have step: "tokenize_loop s d (Some l) (Some p) toks =
        tokenize_loop s d ?next (find_from ?in s ?next) (toks @ [takeWhile (\<lambda>c. c \<notin> set d) (drop l s)])"
      by (subst tokenize_loop.simps) (simp add: tok Let_def)
    show ?thesis
    proof (cases ?next)
      case None
      from find_from_NoneD [OF this] have "dropWhile ?in ?rest = []" by (simp only: drop_p not_not)
      then have "words d ?rest = []" by (rule words_none)
      with None step p w show ?thesis by (simp add: tokenize_loop.simps [of s d None])
    next
      case (Some m)
      note m = find_from_Some(1-3) [OF Some]
      have "drop m s = dropWhile ?in ?rest" using find_from_SomeD [OF Some] by (simp only: drop_p not_not)
      then have "words d (drop m s) = words d ?rest" by (simp add: words_skip)
      moreover have "l < m"
        using m(1) find_from_Some(1,3) [OF p] less.prems(2)
        by (cases "l = p") auto
      then have "length s - m < length s - l" using m(2) by simp
      ultimately show ?thesis
        using less.hyps [of m] m step p w Some by simp
    qed
  qed
qed

lemma tokenize_words: "dcmpi_string_tokenize s d = Inr (words d s)"
proof (cases "find_from (\<lambda>c. c \<notin> set d) s (Some 0)")
  case None
  then have "dropWhile (\<lambda>c. c \<in> set d) s = []" by (simp add: find_from_drop split: if_splits)
  then have "words d s = []" by (rule words_none)
  with None show ?thesis by (simp add: dcmpi_string_tokenize_def tokenize_loop.simps)
next
  case (Some l)
  then have "drop l s = dropWhile (\<lambda>c. c \<in> set d) s"
    by (auto simp: find_from_drop dropWhile_eq_drop split: if_splits)
  with Some find_from_Some(2,3) [OF Some] show ?thesis
    by (simp add: dcmpi_string_tokenize_def tokenize_loop_words words_skip)
qed

lemma words_tokens: "t \<in> set (words d s) \<Longrightarrow> t \<noteq> [] \<and> set t \<inter> set d = {}"
proof (induction d s rule: words.induct)
  case (1 d s)
  show ?case
  proof (cases "dropWhile (\<lambda>c. c \<in> set d) s")
    case Nil
    with 1 show ?thesis by (simp add: words.simps [of d s])
  next
    case (Cons c cs)
    then have "c \<notin> set d" by (metis dropWhile_eq_Cons_conv)
    with 1 Cons show ?thesis
      by (auto simp: words.simps [of d s] dest: set_takeWhileD)
  qed
qed

lemma filter_dropWhile: "filter (\<lambda>c. \<not> P c) (dropWhile P s) = filter (\<lambda>c. \<not> P c) s"
  by (induction s) auto

lemma filter_takeWhile_dropWhile: "takeWhile P s @ filter P (dropWhile P s) = filter P s"
  by (induction s) auto

lemma concat_words: "concat (words d s) = filter (\<lambda>c. c \<notin> set d) s"
proof (induction d s rule: words.induct)
  case (1 d s)
  show ?case
  proof (cases "dropWhile (\<lambda>c. c \<in> set d) s")
    case Nil
    then show ?thesis by (auto simp: words_none dropWhile_eq_Nil_conv filter_empty_conv)
  next
    case (Cons c cs)
    have "concat (words d s) = takeWhile (\<lambda>c. c \<notin> set d) (c # cs)
        @ filter (\<lambda>c. c \<notin> set d) (dropWhile (\<lambda>c. c \<notin> set d) (c # cs))"
      using Cons 1 by (simp add: words.simps [of d s])
    also have "\<dots> = filter (\<lambda>c. c \<notin> set d) (dropWhile (\<lambda>c. c \<in> set d) s)"
      unfolding Cons by (rule filter_takeWhile_dropWhile)
    finally show ?thesis by (simp add: filter_dropWhile)
  qed
qed

text \<open>Joining with single delimiters; the tokens of a joined list are its elements.\<close>

fun join :: "string \<Rightarrow> string list \<Rightarrow> string" where
  "join sep [] = []"
| "join sep [t] = t"
| "join sep (t # ts) = t @ sep @ join sep ts"

lemma words_append_delim:
  assumes "t \<noteq> []" and "set t \<inter> set d = {}" and "c \<in> set d"
  shows "words d (t @ c # s) = t # words d s"
proof -
  have "dropWhile (\<lambda>c. c \<in> set d) (t @ c # s) = t @ c # s"
    using assms(1,2) by (cases t) auto
  moreover have "takeWhile (\<lambda>c. c \<notin> set d) (t @ c # s) = t"
    and "dropWhile (\<lambda>c. c \<notin> set d) (t @ c # s) = c # s"
    using assms(2,3) by (auto simp: takeWhile_append2 dropWhile_append2 disjoint_iff)
  moreover have "words d (c # s) = words d s"
    using words_skip [of d "c # s"] words_skip [of d s] assms(3) by (simp del: dropWhile_eq_Nil_conv)
  ultimately show ?thesis using assms(1) by (subst words.simps) (cases t, auto)
qed

lemma words_token: "t \<noteq> [] \<Longrightarrow> set t \<inter> set d = {} \<Longrightarrow> words d t = [t]"
  by (cases t) (auto simp: words_Cons takeWhile_eq_all_conv [THEN iffD2] dropWhile_eq_Nil_conv [THEN iffD2]
      disjoint_iff)

lemma words_join:
  "(\<And>t. t \<in> set ts \<Longrightarrow> t \<noteq> [] \<and> set t \<inter> set d = {}) \<Longrightarrow> c \<in> set d \<Longrightarrow> words d (join [c] ts) = ts"
proof (induction "[c]" ts rule: join.induct)
  case (3 t u ts)
  then show ?case by (simp add: words_append_delim)
qed (simp_all add: words_token)

subsection \<open>Searching and replacing\<close>

lemma starts_with_prefix: "dcmpi_string_starts_with s a \<longleftrightarrow> take (length a) s = a"
proof -
  have "str_find s a = Some 0 \<longleftrightarrow> occurs_at s a 0"
    by (simp add: str_find_def find_upt_Some del: upt_Suc)
  also have "\<dots> \<longleftrightarrow> take (length a) s = a"
    by (auto simp: occurs_at_def) (metis length_take min.cobounded1 min_def)
  finally show ?thesis by (simp add: dcmpi_string_starts_with_def)
qed

lemma str_rfind_None: "str_rfind s a = None \<longleftrightarrow> (\<forall>i. \<not> occurs_at s a i)"
  by (auto simp: str_rfind_def find_None_iff occurs_at_def)

lemma find_rev_Some:
  "find P (rev [0..<n]) = Some i \<longleftrightarrow> i < n \<and> P i \<and> (\<forall>j. i < j \<and> j < n \<longrightarrow> \<not> P j)"
  by (induction n) (auto simp: less_Suc_eq)

lemma str_rfind_Some:
  "str_rfind s a = Some i \<longleftrightarrow> occurs_at s a i \<and> (\<forall>j>i. \<not> occurs_at s a j)"
proof -
  have *: "occurs_at s a j \<Longrightarrow> j < Suc (length s)" for j by (simp add: occurs_at_def)
  show ?thesis unfolding str_rfind_def find_rev_Some using * by blast
qed

lemma ends_with_suffix:
  assumes "length s < 2 ^ 63" and "length a < 2 ^ 63"
  shows "dcmpi_string_ends_with s a \<longleftrightarrow>
    (\<exists>p. s = p @ a) \<or> (length a = length s + 1 \<and> (\<forall>i. \<not> occurs_at s a i))"
proof (cases "str_rfind s a")
  case None
  then have none: "\<forall>i. \<not> occurs_at s a i" by (simp add: str_rfind_None)
  then have "\<not> (\<exists>p. s = p @ a)" by (fastforce simp: occurs_at_def)
  moreover have "(- 1 :: int8) = of_nat (length s) - of_nat (length a) \<longleftrightarrow> length a = length s + 1"
  proof
    assume "(- 1 :: int8) = of_nat (length s) - of_nat (length a)"
    then have "(of_nat (length a) :: int8) = of_nat (length s + 1)" by (simp add: algebra_simps)
    then have "unat (of_nat (length a) :: int8) = unat (of_nat (length s + 1) :: int8)" by simp
    then show "length a = length s + 1"
      using assms by (simp only: unat_of_nat) (simp add: take_bit_nat_eq_self_iff)
  qed simp
  ultimately show ?thesis using None none by (simp add: dcmpi_string_ends_with_def npos_word_def)
next
  case (Some i)
  then have i: "occurs_at s a i" "\<And>j. i < j \<Longrightarrow> \<not> occurs_at s a j" by (auto simp: str_rfind_Some)
  then have le: "i + length a \<le> length s" by (simp add: occurs_at_def)
  have "(of_nat i :: int8) = of_nat (length s) - of_nat (length a) \<longleftrightarrow> i = length s - length a"
  proof
    assume "(of_nat i :: int8) = of_nat (length s) - of_nat (length a)"
    then have "(of_nat i :: int8) = of_nat (length s - length a)" using le by simp
    then have "unat (of_nat i :: int8) = unat (of_nat (length s - length a) :: int8)" by simp
    then show "i = length s - length a"
      using assms le by (simp only: unat_of_nat) (simp add: take_bit_nat_eq_self_iff)
  qed (use le in simp)
  moreover have "(\<exists>p. s = p @ a) \<longleftrightarrow> i = length s - length a"
  proof
    assume "\<exists>p. s = p @ a"
    then have "occurs_at s a (length s - length a)" by (auto simp: occurs_at_def)
    then have "\<not> i < length s - length a" using i(2) by blast
    with le show "i = length s - length a" by linarith
  next
    assume "i = length s - length a"
    then have "s = take i s @ a" using i(1) le unfolding occurs_at_def
      by (metis append_take_drop_id le_add_diff_inverse2 length_drop add_leD2 diff_diff_cancel take_all_iff order_refl)
    then show "\<exists>p. s = p @ a" by blast
  qed
  ultimately show ?thesis
    using Some i(1) by (auto simp: dcmpi_string_ends_with_def npos_word_def)
qed

lemma replace_loop_None: "str_find s before = None \<Longrightarrow> replace_loop before after all s out = Some (s, out)"
  by (subst replace_loop.simps) simp

lemma replace_loop_Some:
  "str_find s before = Some pos \<Longrightarrow> replace_loop before after True s out =
     replace_loop before after True (take pos s @ after @ drop (pos + length before) s) True"
  by (subst replace_loop.simps) simp

text \<open>Every round brings a string back in which the search succeeds again.\<close>

lemma replace_loop_no_occurrence:
  assumes "replace_loop before after all s out = Some r" and "all" and "occurs_at after before k"
  shows "\<not> occurs_at s before i"
proof -
  have "all \<longrightarrow> occurs_at after before k \<longrightarrow> (\<forall>i. \<not> occurs_at s before i)"
  proof (rule replace_loop.raw_induct [OF _ assms(1),
        where P = "\<lambda>before after all s out r. all \<longrightarrow> occurs_at after before k \<longrightarrow> (\<forall>i. \<not> occurs_at s before i)"])
    fix rec before after all s out r
    assume IH: "\<And>before after all s out r. rec before after all s out = Some r \<Longrightarrow>
        all \<longrightarrow> occurs_at after before k \<longrightarrow> (\<forall>i. \<not> occurs_at s before i)"
      and body: "(case str_find s before of None \<Rightarrow> Some (s, out)
        | Some pos \<Rightarrow> let s' = take pos s @ after @ drop (pos + length before) s
            in if \<not> all then Some (s', True) else rec before after all s' True) = Some r"
    show "all \<longrightarrow> occurs_at after before k \<longrightarrow> (\<forall>i. \<not> occurs_at s before i)"
    proof (cases "str_find s before")
      case None
      then show ?thesis by (simp add: str_find_None)
    next
      case (Some pos)
      let ?s = "take pos s @ after @ drop (pos + length before) s"
      show ?thesis
      proof (intro impI)
        assume all "occurs_at after before k"
        with IH body Some have none: "\<not> occurs_at ?s before i" for i by (auto simp: Let_def)
        from \<open>occurs_at after before k\<close> obtain xs ys where "after = xs @ before @ ys"
          by (auto simp: occurs_at_iff)
        then have "occurs_at ?s before (length (take pos s @ xs))" unfolding occurs_at_iff
          by (intro exI [of _ "take pos s @ xs"] exI [of _ "ys @ drop (pos + length before) s"]) simp
        with none show "\<forall>i. \<not> occurs_at s before i" by blast
      qed
    qed
  qed
  with assms show ?thesis by blast
qed

lemma replace_loop_diverges:
  assumes "occurs_at after before k" and "occurs_at s before i"
  shows "replace_loop before after True s out = None"
  using replace_loop_no_occurrence [of before after True s out _ k i] assms
  by (cases "replace_loop before after True s out") auto

lemma replace_loop_char:
  assumes "c \<notin> set after"
  shows "replace_loop [c] after True s out =
    Some (concat (map (\<lambda>x. if x = c then after else [x]) s), out \<or> c \<in> set s)"
proof (induction "count_list s c" arbitrary: s out)
  case 0
  then have "c \<notin> set s" by (simp add: count_list_0_iff)
  moreover from this have "concat (map (\<lambda>x. if x = c then after else [x]) s) = s"
    by (induction s) auto
  ultimately show ?case by (simp add: replace_loop_None str_find_char)
next
  case (Suc n)
  then have c: "c \<in> set s" by (metis count_notin nat.simps(3))
  then obtain xs ys where s: "s = xs @ c # ys" "c \<notin> set xs" by (meson split_list_first)
  then have "takeWhile (\<lambda>x. x \<noteq> c) s = xs"
    unfolding s(1) using s(2) by (subst takeWhile_append2) auto
  with c have "str_find s [c] = Some (length xs)" by (simp add: str_find_char)
  then have step: "replace_loop [c] after True s out = replace_loop [c] after True (xs @ after @ ys) True"
    using s(1) by (simp add: replace_loop_Some)
  have map_id: "concat (map (\<lambda>x. if x = c then after else [x]) zs) = zs" if "c \<notin> set zs" for zs
    using that by (induction zs) auto
  have "n = count_list (xs @ after @ ys) c"
    using Suc.hyps(2) s assms by (simp add: count_list_0_iff [THEN iffD2])
  from Suc.hyps(1) [OF this, of True] step s assms c show ?case
    by (simp add: map_id)
qed

subsection \<open>Numbers and argument vectors\<close>

lemma digit_not_space: "isdigit c \<Longrightarrow> \<not> isspace c \<and> c \<noteq> CHR ''-'' \<and> c \<noteq> CHR ''+''"
  by (auto simp: isdigit_def isspace_def less_eq_char_def)

lemma strtoull_digits:
  assumes "ds \<noteq> []" and "list_all isdigit ds" and "decimal ds < 2 ^ 64"
  shows "strtoull ds = of_nat (decimal ds)"
proof -
  obtain d ds' where ds: "ds = d # ds'" using assms(1) by (cases ds) auto
  with assms(2) have d: "\<not> isspace d" "d \<noteq> CHR ''-''" "d \<noteq> CHR ''+''" using digit_not_space by auto
  have "takeWhile isdigit ds = ds" using assms(2) by (simp add: list_all_iff)
  with ds d assms(3) show ?thesis by (simp add: strtoull_def Let_def)
qed

lemma shift_loop_nth:
  "i + k < length argv \<Longrightarrow> shift_loop k i argv =
     take i argv @ take k (drop (i + 1) argv) @ drop (i + k) argv"
proof (induction k arbitrary: i argv)
  case 0
  then show ?case by simp
next
  case (Suc k)
  let ?a = "argv[i := argv ! (i + 1)]"
  have "take (i + 1) ?a = take i argv @ [argv ! (i + 1)]"
    using Suc.prems by (simp add: take_Suc_conv_app_nth)
  moreover have "drop (i + 1 + 1) ?a = drop (i + 2) argv" "drop (i + 1 + k) ?a = drop (i + Suc k) argv"
    using Suc.prems by simp_all
  moreover have "take (Suc k) (drop (i + 1) argv) = argv ! (i + 1) # take k (drop (i + 2) argv)"
    using Suc.prems by (simp add: Cons_nth_drop_Suc [symmetric])
  ultimately show ?case using Suc.IH [of "i + 1" ?a] Suc.prems by simp
qed

lemma args_shift_removes:
  assumes "frompos < length argv"
  shows "dcmpi_args_shift argv frompos = Inr (take frompos argv @ drop (frompos + 1) argv)"
proof -
  let ?k = "length argv - 1 - frompos"
  have "shift_loop ?k frompos argv =
      take frompos argv @ take ?k (drop (frompos + 1) argv) @ drop (frompos + ?k) argv"
    using assms by (intro shift_loop_nth) simp
  moreover have "frompos + ?k = length argv - 1" using assms by simp
  moreover have "take ?k (drop (frompos + 1) argv) = drop (frompos + 1) argv" by simp
  moreover have "drop (length argv - 1) argv = [last argv]"
    using assms by (metis append_butlast_last_id append_eq_conv_conj length_butlast list.size(3) not_less_zero)
  ultimately show ?thesis using assms by (auto simp: dcmpi_args_shift_def butlast_append)
qed

section \<open>Properties\<close>

text \<open>
  \<open>dcmpi_string_tokenize\<close> always returns, never leaves the string, and returns the maximal
  runs of characters that are not delimiters: no token is empty or contains a delimiter, and
  together the tokens are the string without its delimiters, in order.
\<close>

theorem tokenize_tokens:
  "\<exists>ts. dcmpi_string_tokenize s d = Inr ts \<and> [] \<notin> set ts \<and> \<Union> (set ` set ts) \<inter> set d = {}
    \<and> concat ts = filter (\<lambda>c. c \<notin> set d) s"
  using words_tokens [of _ d s] by (auto simp: tokenize_words concat_words)

text \<open>
  Tokenizing inverts joining: non-empty tokens without delimiters, joined by single copies of
  any of the delimiters, come back unchanged.
\<close>

theorem tokenize_join:
  assumes "\<And>t. t \<in> set ts \<Longrightarrow> t \<noteq> [] \<and> set t \<inter> set d = {}" and "c \<in> set d"
  shows "dcmpi_string_tokenize (join [c] ts) d = Inr ts"
  using words_join [of ts d c] assms by (simp add: tokenize_words)

theorem tokenize_join_witness: "dcmpi_string_tokenize ''/usr:/bin'' '':'' = Inr [''/usr'', ''/bin'']"
proof -
  have "t \<in> set [''/usr'', ''/bin''] \<Longrightarrow> t \<noteq> [] \<and> set t \<inter> set '':'' = {}" for t by auto
  with tokenize_join [of "[''/usr'', ''/bin'']" "'':''" "CHR '':''"] show ?thesis by simp
qed

text \<open>
  \<open>dcmpi_string_ends_with\<close> is the suffix test, except that it also accepts every argument
  that is one character longer than the subject: there \<open>rfind\<close> returns \<open>npos\<close>, which is what
  the unsigned difference of the two sizes wraps around to.
\<close>

theorem ends_with_wraps:
  assumes "length s < 2 ^ 63" and "length a < 2 ^ 63"
  shows "dcmpi_string_ends_with s a \<longleftrightarrow> drop (length s - length a) s = a \<or> length a = length s + 1"
proof -
  have "(\<exists>p. s = p @ a) \<longleftrightarrow> drop (length s - length a) s = a \<and> length a \<le> length s"
    by (auto intro: exI [of _ "take (length s - length a) s"]) (metis append_take_drop_id)
  moreover have "\<not> occurs_at s a i" if "length a = length s + 1" for i
    using that by (simp add: occurs_at_def)
  moreover have "length a \<le> length s" if "drop (length s - length a) s = a"
    using arg_cong [OF that, of length] by simp
  ultimately show ?thesis using ends_with_suffix [OF assms] by auto
qed

theorem ends_with_wraps_witness:
  "dcmpi_string_ends_with [] [CHR 0x0A] \<and> \<not> dcmpi_string_ends_with ''a'' [CHR 0x0A]"
  using ends_with_wraps [of "[]" "[CHR 0x0A]"] ends_with_wraps [of "''a''" "[CHR 0x0A]"] by simp

text \<open>
  Replacing every occurrence of a character by a string without that character ends and
  yields the character-wise substitution; the result tells whether there was an occurrence.
\<close>

theorem replace_character:
  assumes "c \<notin> set after"
  shows "dcmpi_string_replace s [c] after True =
    Some (concat (map (\<lambda>x. if x = c then after else [x]) s), c \<in> set s)"
  using replace_loop_char [OF assms, of s False] by (simp add: dcmpi_string_replace_def)

theorem replace_character_witness:
  "dcmpi_string_replace ''a-b-'' ''-'' ''=='' True = Some (''a==b=='', True)"
  using replace_character [of "CHR ''-''" "''==''" "''a-b-''"] by simp

text \<open>
  \<open>dcmpi_string_replace\<close> searches the replaced string from its start again, so when the
  replacement contains what it replaces it does not return on any string with an occurrence. For
  \<open>sql_escape\<close>, which doubles quotes this way, that is every string that has a quote to escape.
\<close>

theorem sql_escape_diverges: "sql_escape s = (if CHR 0x27 \<in> set s then None else Some s)"
proof (cases "CHR 0x27 \<in> set s")
  case True
  then obtain xs ys where "s = xs @ [CHR 0x27] @ ys" by (auto dest: split_list)
  then have "occurs_at s [CHR 0x27] (length xs)" by (auto simp: occurs_at_iff)
  moreover have "occurs_at [CHR 0x27, CHR 0x27] [CHR 0x27] 0" by (simp add: occurs_at_def)
  ultimately show ?thesis
    using True by (simp add: sql_escape_def dcmpi_string_replace_def replace_loop_diverges)
next
  case False
  then show ?thesis
    by (simp add: sql_escape_def dcmpi_string_replace_def replace_loop_None str_find_char)
qed

text \<open>
  \<open>dcmpi_csnum\<close> reads a decimal number with a magnitude letter, in either case, as the number
  times the power of 1024 the letter stands for, in 64-bit arithmetic; as long as the product
  is below \<open>2 ^ 64\<close> the value is exact.
\<close>

theorem csnum_value:
  assumes "ds \<noteq> []" and "list_all isdigit ds" and "decimal ds * 1024 ^ (k + 1) < 2 ^ 64"
    and "k < 5" and "c = ''kmgtp'' ! k \<or> c = ''KMGTP'' ! k"
  shows "map_sum id unat (dcmpi_csnum (ds @ [c])) = Inr (decimal ds * 1024 ^ (k + 1))"
proof -
  have "k \<in> {0, 1, 2, 3, 4}" using assms(4) by auto
  then have m: "csnum_multiplier c = of_nat (1024 ^ (k + 1))" "csnum_multiplier c \<noteq> 1"
    using assms(5) by (auto simp: csnum_multiplier_def)
  have "decimal ds * 1 \<le> decimal ds * 1024 ^ (k + 1)" by (intro mult_le_mono2) simp
  then have "decimal ds < 2 ^ 64" using assms(3) by linarith
  then have "dcmpi_csnum (ds @ [c]) = Inr (of_nat (decimal ds) * of_nat (1024 ^ (k + 1)))"
    using m strtoull_digits [OF assms(1,2)] by (simp add: dcmpi_csnum_def Let_def)
  moreover have "unat (of_nat (decimal ds) * of_nat (1024 ^ (k + 1)) :: int8) = decimal ds * 1024 ^ (k + 1)"
    using assms(3) by (simp only: of_nat_mult [symmetric] unat_of_nat) (simp add: take_bit_nat_eq_self_iff)
  ultimately show ?thesis by simp
qed

theorem csnum_value_witness: "map_sum id unat (dcmpi_csnum ''64M'') = Inr 67108864"
  using csnum_value [of "''64''" 1 "CHR ''M''"]
  by (simp add: decimal_def digit_value_def isdigit_def less_eq_char_def)

end
