(* ===== verification/FdIO.thy ===== *)
theory FdIO
  imports BufferFormats StrUtil
begin

text \<open>
  Descriptors: \<open>DC_read_all\<close>, \<open>DC_write_all\<close> and the line protocol of the control sockets
  (\<open>src/src/dcmpi_util.cpp\<close>), and \<open>DCBuffer::saveToFd\<close> with \<open>restoreFromFd\<close>.

  What the kernel does is data of the model. A descriptor that is read has the bytes that will
  still arrive before the end of file and one event for each coming call of \<open>read\<close>: an error
  with its \<open>errno\<close>, or the delivery of at most so many bytes more than one. A descriptor that is
  written has one event for each call of \<open>write\<close> and the bytes written so far. When the events
  are used up the next call does not return: the operation is \<open>None\<close>.
\<close>

section \<open>State\<close>

datatype read_event = Read_error int | Read_upto nat

record in_fd =
  in_events :: "read_event list"
  incoming :: "char list"

datatype write_event = Write_error int | Write_upto nat

record out_fd =
  out_events :: "write_event list"
  outgoing :: "char list"

type_synonym ('a, 's) io = "('a \<times> 's) result option"

primrec bind_io :: "('a, 's) io \<Rightarrow> ('a \<Rightarrow> 's \<Rightarrow> ('b, 's) io) \<Rightarrow> ('b, 's) io" where
  "bind_io None f = None"
| "bind_io (Some r) f = (case r of Inl e \<Rightarrow> Some (Inl e) | Inr (x, s) \<Rightarrow> f x s)"

lemma bind_io_Inr_iff:
  "bind_io m f = Some (Inr r) \<longleftrightarrow> (\<exists>x s. m = Some (Inr (x, s)) \<and> f x s = Some (Inr r))"
  by (cases m) (auto split: sum.splits)

section \<open>Reading and writing everything\<close>

text \<open>
  The loop of \<open>DC_read_all\<close>: the return code, \<open>*hitEOF\<close>, and the bytes that were stored. At the
  end of file the code returns whatever \<open>errno\<close> was left at, or -1 if that is 0.
\<close>

fun read_loop :: "int \<Rightarrow> nat \<Rightarrow> char list \<Rightarrow> read_event list \<Rightarrow> char list \<Rightarrow>
    (int \<times> bool option \<times> char list, in_fd) io" where
  "read_loop errno count got [] inc = None"
| "read_loop errno count got (Read_error e # evs) inc =
     Some (Inr ((e, Some False, got), \<lparr>in_events = evs, incoming = inc\<rparr>))"
| "read_loop errno count got (Read_upto k # evs) inc =
     (let bs = take (min (Suc k) count) inc
      in if bs = [] then
           Some (Inr ((if errno \<noteq> 0 then errno else - 1, Some True, got),
             \<lparr>in_events = evs, incoming = inc\<rparr>))
         else if length bs = count then
           Some (Inr ((0, Some False, got @ bs),
             \<lparr>in_events = evs, incoming = drop (length bs) inc\<rparr>))
         else read_loop errno (count - length bs) (got @ bs) evs (drop (length bs) inc))"

definition DC_read_all :: "int \<Rightarrow> nat \<Rightarrow> in_fd \<Rightarrow> (int \<times> bool option \<times> char list, in_fd) io" where
  "DC_read_all errno count fd =
     (if count = 0 then Some (Inr ((0, None, []), fd))
      else read_loop errno count [] (in_events fd) (incoming fd))"

fun write_loop :: "char list \<Rightarrow> write_event list \<Rightarrow> char list \<Rightarrow> (int, out_fd) io" where
  "write_loop bs [] out = None"
| "write_loop bs (Write_error e # evs) out =
     (if e = 0 then Some (Inl Assert_failure)
      else Some (Inr (e, \<lparr>out_events = evs, outgoing = out\<rparr>)))"
| "write_loop bs (Write_upto k # evs) out =
     (let n = min k (length bs)
      in if n = length bs then Some (Inr (0, \<lparr>out_events = evs, outgoing = out @ bs\<rparr>))
         else write_loop (drop n bs) evs (out @ take n bs))"

definition DC_write_all :: "char list \<Rightarrow> out_fd \<Rightarrow> (int, out_fd) io" where
  "DC_write_all bs fd =
     (if bs = [] then Some (Inr (0, fd)) else write_loop bs (out_events fd) (outgoing fd))"

definition DC_write_all_string :: "string \<Rightarrow> out_fd \<Rightarrow> (int, out_fd) io" where
  "DC_write_all_string s fd = DC_write_all s fd"

subsection \<open>Lemmas\<close>

definition no_errors :: "read_event list \<Rightarrow> bool" where
  "no_errors evs \<longleftrightarrow> (\<forall>e. Read_error e \<notin> set evs)"

lemma no_errors_simps [simp]:
  "no_errors []" "\<not> no_errors (Read_error e # evs)"
  "no_errors (Read_upto k # evs) \<longleftrightarrow> no_errors evs"
  by (auto simp: no_errors_def)

text \<open>The bytes that one successful \<open>read\<close> delivers, and the three ways to go on.\<close>

lemma read_loop_upto:
  obtains bs where "bs = take (min (Suc k) count) inc" "length bs \<le> count" "inc = bs @ drop (length bs) inc"
    "bs = [] \<longleftrightarrow> count = 0 \<or> inc = []"
    "read_loop errno count got (Read_upto k # evs) inc =
      (if bs = [] then Some (Inr ((if errno \<noteq> 0 then errno else - 1, Some True, got),
          \<lparr>in_events = evs, incoming = inc\<rparr>))
       else if length bs = count then
         Some (Inr ((0, Some False, got @ bs), \<lparr>in_events = evs, incoming = drop (length bs) inc\<rparr>))
       else read_loop errno (count - length bs) (got @ bs) evs (drop (length bs) inc))"
proof (rule that [of "take (min (Suc k) count) inc"])
  show "inc = take (min (Suc k) count) inc @ drop (length (take (min (Suc k) count) inc)) inc"
    by (metis append_take_drop_id length_take min_def drop_all nle_le take_all)
qed (auto simp: Let_def min_def split: if_splits)

lemma read_loop_returns:
  "0 < count \<Longrightarrow> count \<le> length evs \<Longrightarrow> read_loop errno count got evs inc \<noteq> None"
proof (induction evs arbitrary: count got inc)
  case (Cons ev evs)
  show ?case
  proof (cases ev)
    case (Read_upto k)
    from read_loop_upto [of k count inc errno got evs] obtain bs where bs: "length bs \<le> count"
      "read_loop errno count got (Read_upto k # evs) inc =
        (if bs = [] then Some (Inr ((if errno \<noteq> 0 then errno else - 1, Some True, got),
            \<lparr>in_events = evs, incoming = inc\<rparr>))
         else if length bs = count then
           Some (Inr ((0, Some False, got @ bs), \<lparr>in_events = evs, incoming = drop (length bs) inc\<rparr>))
         else read_loop errno (count - length bs) (got @ bs) evs (drop (length bs) inc))"
      by metis
    show ?thesis
    proof (cases "bs = [] \<or> length bs = count")
      case True
      with Read_upto bs(2) show ?thesis by auto
    next
      case False
      then have "1 \<le> length bs" "length bs < count" using bs(1) by (auto simp: Suc_le_eq)
      then have "0 < count - length bs" "count - length bs \<le> length evs"
        using Cons.prems(2) unfolding list.size by linarith+
      from Cons.IH [OF this] False bs(2) Read_upto show ?thesis by simp
    qed
  qed simp
qed simp

lemma read_loop_result:
  "read_loop errno count got evs inc = Some (Inr ((rc, eof, got'), fd')) \<Longrightarrow> 0 < count \<Longrightarrow>
   0 \<notin> {e. Read_error e \<in> set evs} \<Longrightarrow>
   got' @ incoming fd' = got @ inc \<and> (rc = 0 \<longleftrightarrow> length got' = length got + count)
   \<and> length got' \<le> length got + count \<and> length (in_events fd') < length evs
   \<and> (eof = Some True \<longrightarrow> incoming fd' = [])"
proof (induction evs arbitrary: count got inc)
  case (Cons ev evs)
  show ?case
  proof (cases ev)
    case (Read_error e)
    with Cons.prems show ?thesis by auto
  next
    case (Read_upto k)
    from read_loop_upto [of k count inc errno got evs] obtain bs where bs: "length bs \<le> count"
      "inc = bs @ drop (length bs) inc" "bs = [] \<longleftrightarrow> count = 0 \<or> inc = []"
      "read_loop errno count got (Read_upto k # evs) inc =
        (if bs = [] then Some (Inr ((if errno \<noteq> 0 then errno else - 1, Some True, got),
            \<lparr>in_events = evs, incoming = inc\<rparr>))
         else if length bs = count then
           Some (Inr ((0, Some False, got @ bs), \<lparr>in_events = evs, incoming = drop (length bs) inc\<rparr>))
         else read_loop errno (count - length bs) (got @ bs) evs (drop (length bs) inc))"
      by metis
    have r: "read_loop errno count got (Read_upto k # evs) inc = Some (Inr ((rc, eof, got'), fd'))"
      using Cons.prems(1) Read_upto by simp
    consider "bs = []" | "bs \<noteq> []" "length bs = count" | "bs \<noteq> []" "length bs < count"
      using bs(1) by linarith
    then show ?thesis
    proof cases
      case 1
      with bs(3,4) r Cons.prems(2) show ?thesis by (auto split: if_splits)
    next
      case 2
      with bs(2,4) r show ?thesis by auto
    next
      case 3
      with bs(4) r have "read_loop errno (count - length bs) (got @ bs) evs (drop (length bs) inc)
          = Some (Inr ((rc, eof, got'), fd'))" by simp
      from Cons.IH [OF this] 3 Cons.prems(3) bs(2) show ?thesis by auto
    qed
  qed
qed simp

lemma read_loop_all:
  assumes "0 < count" and "count \<le> length evs" and "count \<le> length inc" and "no_errors evs"
  shows "\<exists>fd'. read_loop errno count got evs inc = Some (Inr ((0, Some False, got @ take count inc), fd'))
     \<and> incoming fd' = drop count inc \<and> no_errors (in_events fd')
     \<and> length evs \<le> length (in_events fd') + count"
  using assms
proof (induction evs arbitrary: count got inc)
  case (Cons ev evs)
  then obtain k where ev: "ev = Read_upto k" by (cases ev) auto
  from read_loop_upto [of k count inc errno got evs] obtain bs where bs: "length bs \<le> count"
    "inc = bs @ drop (length bs) inc" "bs = [] \<longleftrightarrow> count = 0 \<or> inc = []"
    "read_loop errno count got (Read_upto k # evs) inc =
      (if bs = [] then Some (Inr ((if errno \<noteq> 0 then errno else - 1, Some True, got),
          \<lparr>in_events = evs, incoming = inc\<rparr>))
       else if length bs = count then
         Some (Inr ((0, Some False, got @ bs), \<lparr>in_events = evs, incoming = drop (length bs) inc\<rparr>))
       else read_loop errno (count - length bs) (got @ bs) evs (drop (length bs) inc))"
    by metis
  have ne: "bs \<noteq> []" using bs(3) Cons.prems(1,3) by auto
  obtain inc' where inc: "inc = bs @ inc'" using bs(2) by blast
  show ?case
  proof (cases "length bs = count")
    case True
    with bs(4) ne ev Cons.prems inc show ?thesis by auto
  next
    case False
    moreover have pos: "1 \<le> length bs" using ne by (simp add: Suc_le_eq)
    moreover have "count \<le> Suc (length evs)" "count \<le> length bs + length inc'"
      using Cons.prems(2,3) inc by simp_all
    ultimately have n: "0 < count - length bs" "count - length bs \<le> length evs" "count - length bs \<le> length inc'"
      using bs(1) by linarith+
    from Cons.IH [OF n, of "got @ bs"] Cons.prems(4) ev obtain fd' where
      "read_loop errno (count - length bs) (got @ bs) evs inc'
        = Some (Inr ((0, Some False, (got @ bs) @ take (count - length bs) inc'), fd'))"
      "incoming fd' = drop (count - length bs) inc'" "no_errors (in_events fd')"
      "length evs \<le> length (in_events fd') + (count - length bs)"
      by auto
    moreover have "read_loop errno count got (ev # evs) inc =
        read_loop errno (count - length bs) (got @ bs) evs inc'"
      using bs(4) ne False unfolding ev inc by (simp del: read_loop.simps)
    moreover have "take count inc = bs @ take (count - length bs) inc'"
      "drop count inc = drop (count - length bs) inc'"
      using bs(1) inc by simp_all
    moreover have "length (ev # evs) \<le> l + count" if "length evs \<le> l + (count - length bs)" for l
      using that pos n(1) unfolding list.size by linarith
    ultimately show ?thesis by (auto simp del: read_loop.simps)
  qed
qed simp

lemma DC_read_all_all:
  assumes "count \<le> length (in_events fd)" and "count \<le> length (incoming fd)" and "no_errors (in_events fd)"
  obtains fd' eof where "DC_read_all errno count fd = Some (Inr ((0, eof, take count (incoming fd)), fd'))"
    "incoming fd' = drop count (incoming fd)" "no_errors (in_events fd')"
    "length (in_events fd) \<le> length (in_events fd') + count"
proof (cases "count = 0")
  case True
  with that [of None fd] assms show ?thesis by (simp add: DC_read_all_def)
next
  case False
  with read_loop_all [of count "in_events fd" "incoming fd" errno "[]"] assms that
  show ?thesis by (auto simp: DC_read_all_def)
qed

lemma write_loop_done:
  "write_loop bs evs out = Some (Inr (rc, fd')) \<Longrightarrow> bs \<noteq> [] \<Longrightarrow>
   \<exists>n\<le>length bs. outgoing fd' = out @ take n bs \<and> (rc = 0 \<longleftrightarrow> n = length bs)"
proof (induction evs arbitrary: bs out)
  case (Cons ev evs)
  show ?case
  proof (cases ev)
    case (Write_error e)
    with Cons.prems show ?thesis by (intro exI [of _ 0]) (auto split: if_splits)
  next
    case (Write_upto k)
    define n where "n = min k (length bs)"
    have step: "write_loop bs (ev # evs) out = (if n = length bs
        then Some (Inr (0, \<lparr>out_events = evs, outgoing = out @ bs\<rparr>))
        else write_loop (drop n bs) evs (out @ take n bs))"
      by (simp add: Write_upto n_def Let_def)
    show ?thesis
    proof (cases "n = length bs")
      case True
      with Cons.prems(1) step show ?thesis by (intro exI [of _ n]) auto
    next
      case False
      then have "n < length bs" by (simp add: n_def)
      with Cons.IH [of "drop n bs" "out @ take n bs"] Cons.prems(1) step obtain m where
        "m \<le> length bs - n" "outgoing fd' = out @ take n bs @ take m (drop n bs)"
        "rc = 0 \<longleftrightarrow> m = length bs - n"
        by auto
      with \<open>n < length bs\<close> show ?thesis
        by (intro exI [of _ "n + m"]) (auto simp: take_add)
    qed
  qed
qed simp

lemma DC_write_all_done:
  "DC_write_all bs fd = Some (Inr (0, fd')) \<Longrightarrow> outgoing fd' = outgoing fd @ bs"
  using write_loop_done [of bs "out_events fd" "outgoing fd" 0 fd']
  by (auto simp: DC_write_all_def split: if_splits)

section \<open>Lines\<close>

text \<open>
  \<open>dcmpi_socket_read_line\<close> reads a byte at a time up to the newline and aborts on any error;
  \<open>dcmpi_socket_write_line\<close> adds the newline unless \<open>dcmpi_string_ends_with\<close> finds one.
\<close>

abbreviation newline :: char where
  "newline \<equiv> CHR 0x0A"

function read_line_loop :: "int \<Rightarrow> string \<Rightarrow> in_fd \<Rightarrow> (string, in_fd) io" where
  "read_line_loop errno str fd =
     (case DC_read_all errno 1 fd of
        None \<Rightarrow> None
      | Some (Inl e) \<Rightarrow> Some (Inl e)
      | Some (Inr ((rc, _, got), fd')) \<Rightarrow>
          if rc \<noteq> 0 then Some (Inl Assert_failure)
          else if hd got = newline then Some (Inr (str, fd'))
          else read_line_loop errno (str @ [hd got]) fd')"
  by pat_completeness auto

lemma read_1_events:
  "DC_read_all errno (Suc 0) fd = Some (Inr (r, fd')) \<Longrightarrow> length (in_events fd') < length (in_events fd)"
  unfolding DC_read_all_def
proof (induction "in_events fd")
  case Nil
  then show ?case by simp
next
  case (Cons ev evs)
  then show ?case
    by (cases ev; cases "incoming fd") (auto simp: Cons.hyps(2) [symmetric] Let_def split: if_splits)
qed

termination read_line_loop
  by (relation "measure (\<lambda>(_, _, fd). length (in_events fd))") (auto dest: read_1_events)

declare read_line_loop.simps [simp del]

definition dcmpi_socket_read_line :: "int \<Rightarrow> in_fd \<Rightarrow> (string, in_fd) io" where
  "dcmpi_socket_read_line errno fd = read_line_loop errno [] fd"

definition dcmpi_socket_write_line :: "string \<Rightarrow> out_fd \<Rightarrow> (unit, out_fd) io" where
  "dcmpi_socket_write_line message fd =
     (let message' = (if \<not> dcmpi_string_ends_with message [newline] then message @ [newline] else message)
      in bind_io (DC_write_all message' fd) (\<lambda>rc fd'.
           if rc \<noteq> 0 then Some (Inl Exit_failure) else Some (Inr ((), fd'))))"

lemma read_line_loop_reads:
  "newline \<notin> set m \<Longrightarrow> length m + 1 \<le> length (in_events fd) \<Longrightarrow> no_errors (in_events fd) \<Longrightarrow>
   incoming fd = m @ newline # rest \<Longrightarrow>
   \<exists>fd'. read_line_loop errno str fd = Some (Inr (str @ m, fd')) \<and> incoming fd' = rest"
proof (induction m arbitrary: str fd)
  case Nil
  then have "1 \<le> length (in_events fd)" "1 \<le> length (incoming fd)" by simp_all
  from DC_read_all_all [OF this Nil(3), of errno] obtain fd' eof where
    "DC_read_all errno 1 fd = Some (Inr ((0, eof, take 1 (incoming fd)), fd'))"
    "incoming fd' = drop 1 (incoming fd)" by blast
  with Nil(4) show ?case by (subst read_line_loop.simps) simp
next
  case (Cons c m)
  then have "1 \<le> length (in_events fd)" "1 \<le> length (incoming fd)" by simp_all
  from DC_read_all_all [OF this Cons.prems(3), of errno] obtain fd1 eof where fd1:
    "DC_read_all errno 1 fd = Some (Inr ((0, eof, take 1 (incoming fd)), fd1))"
    "incoming fd1 = drop 1 (incoming fd)" "no_errors (in_events fd1)"
    "length (in_events fd) \<le> length (in_events fd1) + 1" by blast
  with Cons.prems obtain fd' where
    "read_line_loop errno (str @ [c]) fd1 = Some (Inr ((str @ [c]) @ m, fd'))" "incoming fd' = rest"
    using Cons.IH [of fd1 "str @ [c]"] by auto
  with fd1 Cons.prems show ?case by (subst read_line_loop.simps) auto
qed

section \<open>Buffers on descriptors\<close>

text \<open>
  The first write that fails ends \<open>saveToFd\<close> with its return code. The length goes out in
  little-endian order; \<open>SwapByteArray_NC\<close> brings it there on a big-endian host.
\<close>

definition saveToFd :: "bool \<Rightarrow> DCBuffer \<Rightarrow> out_fd \<Rightarrow> (int, out_fd) io" where
  "saveToFd host self fd =
     (let big = (if isbigendian self then 1 else 0 :: uint1);
          count = native_bytes host (word_of_int (wSize self) :: int4);
          count' = (if host then SwapByteArray_NC count 4 1 else count)
      in bind_io (DC_write_all (native_bytes host big) fd) (\<lambda>rc fd1.
           if rc \<noteq> 0 then Some (Inr (rc, fd1))
           else bind_io (DC_write_all count' fd1) (\<lambda>rc fd2.
             if rc \<noteq> 0 then Some (Inr (rc, fd2))
             else if wSize self < 0 then Some (Inl Undefined_behaviour)
             else case block_read (mem self) 0 (nat (wSize self)) of
                 Inl e \<Rightarrow> Some (Inl e)
               | Inr bytes \<Rightarrow> DC_write_all bytes fd2)))"

text \<open>
  \<open>restoreFromFd\<close> returns the code and the buffer. On a big-endian host it calls
  \<open>SwapByteArray(1, sizeof(count), &count)\<close>, which leaves the destination NULL.
\<close>

definition restoreFromFd :: "bool \<Rightarrow> int \<Rightarrow> DCBuffer \<Rightarrow> in_fd \<Rightarrow> (int \<times> DCBuffer, in_fd) io" where
  "restoreFromFd host errno self fd =
     bind_io (DC_read_all errno 1 fd) (\<lambda>(rc, _, big) fd1.
       if rc \<noteq> 0 then Some (Inr ((rc, self), fd1))
       else bind_io (DC_read_all errno 4 fd1) (\<lambda>(rc, _, c) fd2.
         if rc \<noteq> 0 then Some (Inr ((rc, self), fd2))
         else case (if host then SwapByteArray 1 4 c False else Inr c) of
             Inl e \<Rightarrow> Some (Inl e)
           | Inr c' \<Rightarrow>
               (let count = (word_of_native host c' :: int4)
                in bind_io (DC_read_all errno (unat count) fd2) (\<lambda>(rc, _, buf) fd3.
                     if rc \<noteq> 0 then Some (Inr ((rc, self), fd3))
                     else Some (Inr ((0, forceEndian ((word_of_native host big :: uint1) = 1)
                       (Set_buf host (Some buf) (sint count) (sint count) True self)), fd3))))))"

definition fd_bytes :: "DCBuffer \<Rightarrow> char list \<times> char list" where
  "fd_bytes b = (native_bytes False (if isbigendian b then 1 else 0 :: uint1),
     native_bytes False (word_of_int (wSize b) :: int4))"

lemma NC_one: "SwapByteArray_NC (native_bytes h (w :: int4)) 4 1 = rev (native_bytes h w)"
proof -
  have "SwapByteArray_NC xs s (Suc 0) = rev (take s xs) @ drop s xs" for xs s
    by (simp add: endian_swap_is_rev)
  from this [of "native_bytes h w" 4] show ?thesis by (simp del: SwapByteArray_NC.simps)
qed

lemma saveToFd_wf:
  assumes "buf_wf b"
  shows "saveToFd host b fd = bind_io (DC_write_all (fst (fd_bytes b)) fd) (\<lambda>rc fd1.
    if rc \<noteq> 0 then Some (Inr (rc, fd1))
    else bind_io (DC_write_all (snd (fd_bytes b)) fd1) (\<lambda>rc fd2.
      if rc \<noteq> 0 then Some (Inr (rc, fd2)) else DC_write_all (used b) fd2))"
proof -
  let ?count = "native_bytes host (word_of_int (wSize b) :: int4)"
  have swap: "(if host then SwapByteArray_NC ?count 4 1 else ?count) = snd (fd_bytes b)"
    using NC_one [of True "word_of_int (wSize b) :: int4"]
    by (cases host) (simp_all add: fd_bytes_def native_bytes_swap del: SwapByteArray_NC.simps)
  have one: "native_bytes host (if isbigendian b then 1 else 0 :: uint1) = fst (fd_bytes b)"
    by (simp add: native_bytes_def Let_def fd_bytes_def)
  have "(wSize b < 0) = False" using assms(1) by (auto simp: buf_wf_def)
  with block_read_used [OF assms] show ?thesis unfolding saveToFd_def Let_def swap one by (simp only: if_False sum.case)
qed

lemma saveToFd_sends:
  assumes "buf_wf b" and "saveToFd host b fd = Some (Inr (0, fd'))"
  shows "outgoing fd' = outgoing fd @ fst (fd_bytes b) @ snd (fd_bytes b) @ used b"
proof -
  from assms(2) obtain rc1 fd1 where 1: "DC_write_all (fst (fd_bytes b)) fd = Some (Inr (rc1, fd1))"
    "(if rc1 \<noteq> 0 then Some (Inr (rc1, fd1))
      else bind_io (DC_write_all (snd (fd_bytes b)) fd1) (\<lambda>rc fd2.
        if rc \<noteq> 0 then Some (Inr (rc, fd2)) else DC_write_all (used b) fd2)) = Some (Inr (0, fd'))"
    unfolding saveToFd_wf [OF assms(1)] bind_io_Inr_iff by blast
  then have rc1: "rc1 = 0" by (auto split: if_splits)
  with 1(2) obtain rc2 fd2 where 2: "DC_write_all (snd (fd_bytes b)) fd1 = Some (Inr (rc2, fd2))"
    "(if rc2 \<noteq> 0 then Some (Inr (rc2, fd2)) else DC_write_all (used b) fd2) = Some (Inr (0, fd'))"
    by (auto simp: bind_io_Inr_iff)
  then have "rc2 = 0" by (auto split: if_splits)
  with 1 2 rc1 show ?thesis using DC_write_all_done by simp
qed

text \<open>A little-endian host that receives such bytes in full rebuilds the buffer.\<close>

lemma restoreFromFd_rebuilds:
  assumes "buf_wf b" and "incoming fd = fst (fd_bytes b) @ snd (fd_bytes b) @ used b @ rest"
    and "no_errors (in_events fd)" and "5 + length (used b) \<le> length (in_events fd)"
  shows "\<exists>fd'. restoreFromFd False errno self fd
      = Some (Inr ((0, restored (isbigendian b) (used b)), fd')) \<and> incoming fd' = rest"
proof -
  have len: "length (fst (fd_bytes b)) = 1" "length (snd (fd_bytes b)) = 4" by (simp_all add: fd_bytes_def)
  have "1 \<le> length (in_events fd)" "1 \<le> length (incoming fd)" using assms(2,4) len by simp_all
  from DC_read_all_all [OF this assms(3), of errno] obtain fd1 eof1 where
    "DC_read_all errno 1 fd = Some (Inr ((0, eof1, take 1 (incoming fd)), fd1))" and
    1: "incoming fd1 = drop 1 (incoming fd)" "no_errors (in_events fd1)"
    "length (in_events fd) \<le> length (in_events fd1) + 1" by blast
  then have r1: "DC_read_all errno 1 fd = Some (Inr ((0, eof1, fst (fd_bytes b)), fd1))"
    and i1: "incoming fd1 = snd (fd_bytes b) @ used b @ rest"
    using assms(2) len by simp_all
  have "4 \<le> length (in_events fd1)" "4 \<le> length (incoming fd1)" using assms(4) 1(3) i1 len by simp_all
  from DC_read_all_all [OF this 1(2), of errno] obtain fd2 eof2 where
    "DC_read_all errno 4 fd1 = Some (Inr ((0, eof2, take 4 (incoming fd1)), fd2))" and
    2: "incoming fd2 = drop 4 (incoming fd1)" "no_errors (in_events fd2)"
    "length (in_events fd1) \<le> length (in_events fd2) + 4" by blast
  then have r2: "DC_read_all errno 4 fd1 = Some (Inr ((0, eof2, snd (fd_bytes b)), fd2))"
    and i2: "incoming fd2 = used b @ rest"
    using i1 len by simp_all
  have wsz: "wSize b = int (length (used b))" and short: "short (used b)"
    using assms(1) used_length [OF assms(1)] by (auto simp: buf_wf_def short_def)
  then have n: "unat (word_of_int (wSize b) :: int4) = length (used b)"
    by (simp add: short_def unat_of_nat take_bit_nat_eq_self_iff)
  have "length (used b) \<le> length (in_events fd2)" "length (used b) \<le> length (incoming fd2)"
    using assms(4) 1(3) 2(3) i2 by simp_all
  from DC_read_all_all [OF this 2(2), of errno] obtain fd3 eof3 where
    "DC_read_all errno (length (used b)) fd2
      = Some (Inr ((0, eof3, take (length (used b)) (incoming fd2)), fd3))"
    "incoming fd3 = drop (length (used b)) (incoming fd2)" by blast
  then have r3: "DC_read_all errno (length (used b)) fd2 = Some (Inr ((0, eof3, used b), fd3))"
    and i3: "incoming fd3 = rest"
    using i2 by simp_all
  have count: "word_of_native False (snd (fd_bytes b)) = (word_of_int (wSize b) :: int4)"
    by (simp add: fd_bytes_def word_of_native_bytes)
  have big: "(word_of_native False (fst (fd_bytes b)) :: uint1) = 1 \<longleftrightarrow> isbigendian b"
    unfolding fd_bytes_def fst_conv by (subst word_of_native_bytes) simp_all
  have sint: "sint (word_of_int (wSize b) :: int4) = int (length (used b))"
    using wsz sint_of_short [OF short] by simp
  have "restoreFromFd False errno self fd = Some (Inr ((0, forceEndian (isbigendian b)
      (Set_buf False (Some (used b)) (int (length (used b))) (int (length (used b))) True self)), fd3))"
    unfolding restoreFromFd_def r1 by (simp add: r2 r3 count n big sint)
  then show ?thesis using i3 by (simp add: Set_restored [OF short])
qed

section \<open>Properties\<close>

text \<open>
  \<open>DC_read_all\<close> never loses or invents a byte and never returns success for a partial read:
  as long as the kernel answers it returns (one event for each requested byte is always
  enough), what it stored together with what is still to come is what was to come before,
  and its return code is 0 exactly when it stored all the bytes asked for. When no call of
  \<open>read\<close> fails and the peer has sent enough, it does store them.
\<close>

theorem DC_read_all_exact:
  assumes "count \<le> length (in_events fd)" and "0 \<notin> {e. Read_error e \<in> set (in_events fd)}"
  shows "\<exists>rc eof got fd'. DC_read_all errno count fd = Some (Inr ((rc, eof, got), fd'))
    \<and> got @ incoming fd' = incoming fd \<and> length got \<le> count \<and> (rc = 0 \<longleftrightarrow> length got = count)
    \<and> (no_errors (in_events fd) \<and> count \<le> length (incoming fd) \<longrightarrow> rc = 0)"
proof (cases "count = 0")
  case True
  then show ?thesis by (simp add: DC_read_all_def)
next
  case False
  then have "DC_read_all errno count fd \<noteq> None"
    using read_loop_returns assms(1) by (simp add: DC_read_all_def)
  moreover have "read_loop errno count got evs inc \<noteq> Some (Inl e)" for got evs inc e
    by (induction errno count got evs inc rule: read_loop.induct) (auto simp: Let_def)
  ultimately obtain rc eof got fd' where r: "DC_read_all errno count fd = Some (Inr ((rc, eof, got), fd'))"
    using False by (cases "DC_read_all errno count fd") (auto simp: DC_read_all_def,
        metis old.sum.exhaust surj_pair)
  then have "got @ incoming fd' = incoming fd \<and> (rc = 0 \<longleftrightarrow> length got = count) \<and> length got \<le> count"
    using read_loop_result [of errno count "[]"] False assms(2) by (auto simp: DC_read_all_def)
  moreover have "rc = 0" if "no_errors (in_events fd)" "count \<le> length (incoming fd)"
    using DC_read_all_all [OF assms(1) that(2,1), of errno] r by auto
  ultimately show ?thesis using r by blast
qed

theorem DC_read_all_exact_witness:
  "\<exists>rc eof got fd'. DC_read_all 0 3 \<lparr>in_events = [Read_upto 0, Read_upto 7, Read_upto 9], incoming = ''abcd''\<rparr>
      = Some (Inr ((rc, eof, got), fd')) \<and> rc = 0 \<and> got @ incoming fd' = ''abcd'' \<and> length got = 3"
  using DC_read_all_exact [of 3 "\<lparr>in_events = [Read_upto 0, Read_upto 7, Read_upto 9], incoming = ''abcd''\<rparr>" 0]
  by fastforce

text \<open>
  A message without a newline that one side of a control socket writes as a line is the next
  line the other side reads, and nothing behind it is consumed, however the kernel splits the
  transfer. The message must not be empty: see the next property.
\<close>

theorem socket_line:
  assumes "newline \<notin> set m" and "m \<noteq> []" and "length m < 2 ^ 63"
    and "dcmpi_socket_write_line m ofd = Some (Inr ((), ofd'))"
    and "outgoing ofd' = outgoing ofd @ sent" and "incoming ifd = sent @ rest"
    and "no_errors (in_events ifd)" and "length m + 1 \<le> length (in_events ifd)"
  shows "\<exists>ifd'. dcmpi_socket_read_line errno ifd = Some (Inr (m, ifd')) \<and> incoming ifd' = rest"
proof -
  have "\<not> dcmpi_string_ends_with m [newline]"
  proof -
    have "drop (length m - 1) m = [last m]"
      using assms(2) by (metis append_butlast_last_id append_eq_conv_conj length_butlast)
    moreover have "last m \<noteq> newline" using assms(1,2) by (metis last_in_set)
    ultimately show ?thesis using ends_with_wraps [of m "[newline]"] assms(2,3) by simp
  qed
  then obtain rc where "DC_write_all (m @ [newline]) ofd = Some (Inr (rc, ofd'))" "rc = 0"
    using assms(4) by (auto simp: dcmpi_socket_write_line_def bind_io_Inr_iff split: if_splits)
  then have "sent = m @ [newline]" using DC_write_all_done assms(5) by simp
  then have "incoming ifd = m @ newline # rest" using assms(6) by simp
  from read_line_loop_reads [OF assms(1,8,7) this, of errno "[]"] show ?thesis
    by (simp add: dcmpi_socket_read_line_def)
qed

theorem socket_line_witness:
  "\<exists>ifd'. dcmpi_socket_read_line 0 \<lparr>in_events = [Read_upto 5, Read_upto 5, Read_upto 5], incoming = ''ok'' @ newline # ''more''\<rparr>
      = Some (Inr (''ok'', ifd')) \<and> incoming ifd' = ''more''"
proof -
  let ?o = "\<lparr>out_events = [Write_upto 1, Write_upto 9], outgoing = []\<rparr>"
  have "\<not> dcmpi_string_ends_with ''ok'' [newline]"
    by (simp add: dcmpi_string_ends_with_def str_rfind_def occurs_at_def npos_word_def)
  then have w: "dcmpi_socket_write_line ''ok'' ?o
      = Some (Inr ((), \<lparr>out_events = [], outgoing = ''ok'' @ [newline]\<rparr>))"
    by (simp add: dcmpi_socket_write_line_def DC_write_all_def)
  show ?thesis
    by (rule socket_line [OF _ _ _ w]) simp_all
qed

text \<open>
  The line protocol cannot send an empty line: \<open>dcmpi_string_ends_with\<close> takes the empty
  message to end with a newline, so nothing is written and the peer keeps waiting.
\<close>

theorem empty_line_not_sent: "dcmpi_socket_write_line [] ofd = Some (Inr ((), ofd))"
proof -
  have "dcmpi_string_ends_with [] [newline]"
    by (simp add: dcmpi_string_ends_with_def str_rfind_def occurs_at_def npos_word_def)
  then show ?thesis by (simp add: dcmpi_socket_write_line_def DC_write_all_def)
qed

text \<open>
  C39. A buffer that any host saves to a descriptor without an error is restored from it on a
  little-endian host, with its bytes and its byte order flag, for every way in which the kernel
  splits the transfer; on a big-endian host restoring never succeeds, because the
  length is swapped into a NULL destination.
\<close>

theorem fd_roundtrip:
  assumes "buf_wf b" and "saveToFd h b ofd = Some (Inr (0, ofd'))"
    and "outgoing ofd' = outgoing ofd @ sent" and "incoming ifd = sent @ rest"
    and "no_errors (in_events ifd)" and "5 + length (used b) \<le> length (in_events ifd)"
  shows "(\<exists>ifd'. restoreFromFd False errno self ifd = Some (Inr ((0, restored (isbigendian b) (used b)), ifd'))
      \<and> incoming ifd' = rest)
    \<and> restoreFromFd True errno self ifd = Some (Inl Undefined_behaviour)"
proof -
  have len: "length (fst (fd_bytes b)) = 1" "length (snd (fd_bytes b)) = 4" by (simp_all add: fd_bytes_def)
  have inc: "incoming ifd = fst (fd_bytes b) @ snd (fd_bytes b) @ used b @ rest"
    using saveToFd_sends [OF assms(1,2)] assms(3,4) by simp
  have "1 \<le> length (in_events ifd)" "1 \<le> length (incoming ifd)" using assms(6) inc len by simp_all
  from DC_read_all_all [OF this assms(5), of errno] obtain fd1 eof1 x1 where
    r1: "DC_read_all errno 1 ifd = Some (Inr ((0, eof1, x1), fd1))" and
    1: "incoming fd1 = drop 1 (incoming ifd)" "no_errors (in_events fd1)"
    "length (in_events ifd) \<le> length (in_events fd1) + 1" by blast
  have "4 \<le> length (in_events fd1)" "4 \<le> length (incoming fd1)" using assms(6) 1 inc len by simp_all
  from DC_read_all_all [OF this 1(2), of errno] obtain fd2 eof2 x2 where
    r2: "DC_read_all errno 4 fd1 = Some (Inr ((0, eof2, x2), fd2))" by blast
  have "restoreFromFd True errno self ifd = Some (Inl Undefined_behaviour)"
    unfolding restoreFromFd_def r1 by (simp add: r2 SwapByteArray_def)
  with restoreFromFd_rebuilds [OF assms(1) inc assms(5,6)] show ?thesis by blast
qed

theorem fd_roundtrip_witness:
  "\<exists>ofd' ifd'. saveToFd True (restored True ''xy'') \<lparr>out_events = [Write_upto 9, Write_upto 9, Write_upto 9], outgoing = []\<rparr>
      = Some (Inr (0, ofd'))
    \<and> restoreFromFd False 0 (DCBuffer_empty False)
        \<lparr>in_events = replicate 7 (Read_upto 9), incoming = outgoing ofd'\<rparr>
      = Some (Inr ((0, restored True ''xy''), ifd'))"
proof -
  let ?b = "restored True ''xy''"
  have b: "buf_wf ?b" by (simp add: short_def)
  have len: "length (fst (fd_bytes ?b)) = 1" "length (snd (fd_bytes ?b)) = 4" by (simp_all add: fd_bytes_def)
  have w: "DC_write_all bs \<lparr>out_events = Write_upto 9 # evs, outgoing = out\<rparr>
      = Some (Inr (0, \<lparr>out_events = evs, outgoing = out @ bs\<rparr>))" if "bs \<noteq> []" "length bs \<le> 9" for bs evs out
    using that by (simp add: DC_write_all_def)
  have ne: "fst (fd_bytes ?b) \<noteq> []" "snd (fd_bytes ?b) \<noteq> []" using len by (auto simp del: length_0_conv)
  then have s: "saveToFd True ?b \<lparr>out_events = [Write_upto 9, Write_upto 9, Write_upto 9], outgoing = []\<rparr>
      = Some (Inr (0, \<lparr>out_events = [], outgoing = (fst (fd_bytes ?b) @ snd (fd_bytes ?b)) @ ''xy''\<rparr>))"
    unfolding saveToFd_wf [OF b] by (simp add: w len ne)
  from fd_roundtrip [OF b s, of _ "\<lparr>in_events = replicate 7 (Read_upto 9),
      incoming = (fst (fd_bytes ?b) @ snd (fd_bytes ?b)) @ ''xy''\<rparr>" "[]" 0 "DCBuffer_empty False"]
  show ?thesis unfolding s by (simp add: no_errors_def) blast
qed

end
