(* ===== verification/Queues.thy ===== *)
theory Queues
  imports StdContainers
begin

text \<open>
  The shared containers of the runtime: the thread-safe \<open>Queue\<close> (\<open>src/src/Queue.h\<close>), the \<open>Ring\<close>
  (\<open>src/src/Ring.h\<close>), reference counts (\<open>src/src/RefCounted.h\<close>). Every method of a queue runs
  under its mutex, so it is one step; \<open>has_more_putters\<close> takes no lock but only reads. The methods
  are functions on the queue first, then the blocking \<open>get\<close> is a step relation in which threads
  sleep on the condition variable.
\<close>

section \<open>Queue\<close>

record 'a Queue =
  q :: "'a list"
  putters :: "int std_set"

definition Queue_new :: "'a Queue" where
  "Queue_new = \<lparr>q = [], putters = []\<rparr>"

definition Queue_put :: "'a \<Rightarrow> 'a Queue \<Rightarrow> 'a Queue" where
  "Queue_put obj w = w\<lparr>q := q w @ [obj]\<rparr>"

text \<open>\<open>None\<close>: the caller waits.\<close>

definition Queue_get :: "'a Queue \<Rightarrow> ('a \<times> 'a Queue) option" where
  "Queue_get w = (case q w of [] \<Rightarrow> None | x # xs \<Rightarrow> Some (x, w\<lparr>q := xs\<rparr>))"

definition Queue_empty :: "'a Queue \<Rightarrow> bool" where
  "Queue_empty w \<longleftrightarrow> q w = []"

definition Queue_size :: "'a Queue \<Rightarrow> nat" where
  "Queue_size w = length (q w)"

text \<open>\<open>None\<close> is the result \<open>false\<close>, which leaves the output argument alone.\<close>

definition get_if_item_present :: "'a Queue \<Rightarrow> 'a option \<times> 'a Queue" where
  "get_if_item_present w = (case q w of [] \<Rightarrow> (None, w) | x # xs \<Rightarrow> (Some x, w\<lparr>q := xs\<rparr>))"

definition getall_if_item_present :: "'a Queue \<Rightarrow> 'a list option \<times> 'a Queue" where
  "getall_if_item_present w = (if q w = [] then (None, w) else (Some (q w), w\<lparr>q := []\<rparr>))"

definition has_more_putters :: "'a Queue \<Rightarrow> bool" where
  "has_more_putters w \<longleftrightarrow> putters w \<noteq> []"

definition set_putters :: "int std_set \<Rightarrow> 'a Queue \<Rightarrow> 'a Queue" where
  "set_putters ps w = w\<lparr>putters := ps\<rparr>"

definition remove_putter :: "int \<Rightarrow> 'a Queue \<Rightarrow> 'a Queue" where
  "remove_putter p w = w\<lparr>putters := set_erase p (putters w)\<rparr>"

lemmas queue_defs = Queue_new_def Queue_put_def Queue_get_def Queue_empty_def Queue_size_def
  get_if_item_present_def getall_if_item_present_def has_more_putters_def set_putters_def
  remove_putter_def

subsection \<open>The contract\<close>

text \<open>A first-in first-out container, by the list of its contents.\<close>

locale fifo =
  fixes new :: 'w
    and put :: "'a \<Rightarrow> 'w \<Rightarrow> 'w"
    and take_first :: "'w \<Rightarrow> ('a \<times> 'w) option"
    and contents :: "'w \<Rightarrow> 'a list"
  assumes contents_new: "contents new = []"
    and contents_put: "contents (put x w) = contents w @ [x]"
    and take_first_None: "take_first w = None \<longleftrightarrow> contents w = []"
    and take_first_Some: "take_first w = Some (x, w') \<Longrightarrow> contents w = x # contents w'"
begin

fun take_n :: "nat \<Rightarrow> 'w \<Rightarrow> ('a list \<times> 'w) option" where
  "take_n 0 w = Some ([], w)"
| "take_n (Suc n) w = (case take_first w of None \<Rightarrow> None
     | Some (x, w') \<Rightarrow> map_option (\<lambda>(xs, w''). (x # xs, w'')) (take_n n w'))"

lemma contents_puts: "contents (fold put xs w) = contents w @ xs"
  by (induction xs arbitrary: w) (simp_all add: contents_put)

lemma take_n_prefix:
  "n \<le> length (contents w) \<Longrightarrow>
   \<exists>w'. take_n n w = Some (take n (contents w), w') \<and> contents w' = drop n (contents w)"
proof (induction n arbitrary: w)
  case 0
  then show ?case by simp
next
  case (Suc n)
  then obtain x w1 where w1: "take_first w = Some (x, w1)"
    using take_first_None by (cases "take_first w") auto
  with take_first_Some have "contents w = x # contents w1" by blast
  with Suc w1 show ?case by (auto dest!: Suc.IH [of w1])
qed

lemma first_in_first_out:
  "\<exists>w'. take_n (length xs) (fold put xs new) = Some (xs, w') \<and> contents w' = []"
  using take_n_prefix [of "length xs" "fold put xs new"] by (simp add: contents_puts contents_new)

end

interpretation queue: fifo Queue_new Queue_put Queue_get q
  by unfold_locales (auto simp: queue_defs split: list.splits)

subsection \<open>Waiting\<close>

text \<open>
  The monitor: besides the contents, how many threads sleep in \<open>cv.wait()\<close> and how many have been
  woken and will contend for the mutex. \<open>notify\<close> wakes one sleeper, a sleeper may also wake up
  without a reason. A woken thread runs the test of the loop again. \<open>Try_get\<close> is
  \<open>get_if_item_present\<close>, \<open>Get_all\<close> is \<open>getall_if_item_present\<close>.
\<close>

record 'a monitor =
  items :: "'a list"
  sleeping :: nat
  woken :: nat

datatype 'a event = Put 'a | Got 'a | Got_all "'a list" | Internal

inductive mon_step :: "'a monitor \<Rightarrow> 'a event \<Rightarrow> 'a monitor \<Rightarrow> bool" where
  put_notify: "0 < sleeping m \<Longrightarrow>
    mon_step m (Put x) (m\<lparr>items := items m @ [x], sleeping := sleeping m - 1, woken := woken m + 1\<rparr>)"
| put_quiet: "sleeping m = 0 \<Longrightarrow> mon_step m (Put x) (m\<lparr>items := items m @ [x]\<rparr>)"
| get_now: "items m = x # xs \<Longrightarrow> mon_step m (Got x) (m\<lparr>items := xs\<rparr>)"
| get_wait: "items m = [] \<Longrightarrow> mon_step m Internal (m\<lparr>sleeping := sleeping m + 1\<rparr>)"
| resume_get: "0 < woken m \<Longrightarrow> items m = x # xs \<Longrightarrow>
    mon_step m (Got x) (m\<lparr>items := xs, woken := woken m - 1\<rparr>)"
| resume_wait: "0 < woken m \<Longrightarrow> items m = [] \<Longrightarrow>
    mon_step m Internal (m\<lparr>sleeping := sleeping m + 1, woken := woken m - 1\<rparr>)"
| spurious: "0 < sleeping m \<Longrightarrow>
    mon_step m Internal (m\<lparr>sleeping := sleeping m - 1, woken := woken m + 1\<rparr>)"
| get_all: "items m \<noteq> [] \<Longrightarrow> mon_step m (Got_all (items m)) (m\<lparr>items := []\<rparr>)"

inductive mon_run :: "'a monitor \<Rightarrow> 'a event list \<Rightarrow> 'a monitor \<Rightarrow> bool" where
  start: "mon_run m [] m"
| step: "mon_run m es m1 \<Longrightarrow> mon_step m1 e m2 \<Longrightarrow> mon_run m (es @ [e]) m2"

definition mon_new :: "'a monitor" where
  "mon_new = \<lparr>items = [], sleeping = 0, woken = 0\<rparr>"

inductive_cases mon_stepE: "mon_step m e m'"

definition put_items :: "'a event list \<Rightarrow> 'a list" where
  "put_items es = concat (map (\<lambda>e. case e of Put x \<Rightarrow> [x] | _ \<Rightarrow> []) es)"

definition got_items :: "'a event list \<Rightarrow> 'a list" where
  "got_items es = concat (map (\<lambda>e. case e of Got x \<Rightarrow> [x] | Got_all xs \<Rightarrow> xs | _ \<Rightarrow> []) es)"

lemma items_snoc [simp]:
  "put_items (es @ [e]) = put_items es @ (case e of Put x \<Rightarrow> [x] | _ \<Rightarrow> [])"
  "got_items (es @ [e]) = got_items es @ (case e of Got x \<Rightarrow> [x] | Got_all xs \<Rightarrow> xs | _ \<Rightarrow> [])"
  "put_items [] = []" "got_items [] = []"
  by (simp_all add: put_items_def got_items_def)

definition no_lost_wakeup :: "'a monitor \<Rightarrow> bool" where
  "no_lost_wakeup m \<longleftrightarrow> sleeping m = 0 \<or> length (items m) \<le> woken m"

lemma mon_step_wakeup: "mon_step m e m' \<Longrightarrow> no_lost_wakeup m \<Longrightarrow> no_lost_wakeup m'"
  by (induction rule: mon_step.induct) (auto simp: no_lost_wakeup_def)

lemma mon_step_order:
  "mon_step m e m' \<Longrightarrow> items m @ (case e of Put x \<Rightarrow> [x] | _ \<Rightarrow> [])
     = (case e of Got x \<Rightarrow> [x] | Got_all xs \<Rightarrow> xs | _ \<Rightarrow> []) @ items m'"
  by (induction rule: mon_step.induct) auto

section \<open>The end of a stream\<close>

text \<open>
  The loop of \<open>DCFilterExecutor::read_until_upstream_exit\<close> on one port: \<open>get_if_item_present\<close>
  and \<open>has_more_putters\<close> are separate steps, between which the upstream filters may run. A
  putter puts items while it is among the putters and removes itself when its filter ends.
\<close>

datatype 'a reader_pc = Trying | Checking | Returned "'a option"

inductive reader_step :: "'a Queue \<times> 'a reader_pc \<Rightarrow> 'a Queue \<times> 'a reader_pc \<Rightarrow> bool" where
  upstream_put: "p \<in> set (putters w) \<Longrightarrow> reader_step (w, pc) (Queue_put x w, pc)"
| upstream_exit: "p \<in> set (putters w) \<Longrightarrow> reader_step (w, pc) (remove_putter p w, pc)"
| try_some: "get_if_item_present w = (Some x, w') \<Longrightarrow>
    reader_step (w, Trying) (w', Returned (Some x))"
| try_none: "get_if_item_present w = (None, w') \<Longrightarrow> reader_step (w, Trying) (w', Checking)"
| check_more: "has_more_putters w \<Longrightarrow> reader_step (w, Checking) (w, Trying)"
| check_done: "\<not> has_more_putters w \<Longrightarrow> reader_step (w, Checking) (w, Returned None)"

text \<open>The loop without interference: \<open>None\<close> when it goes on sleeping.\<close>

definition read_pass :: "'a Queue \<Rightarrow> ('a option \<times> 'a Queue) option" where
  "read_pass w = (case get_if_item_present w of
      (Some x, w') \<Rightarrow> Some (Some x, w')
    | (None, w') \<Rightarrow> if has_more_putters w' then None else Some (None, w'))"

section \<open>Ring\<close>

type_synonym 'a Ring = "'a list"

definition Ring_new :: "'a list \<Rightarrow> 'a Ring" where
  "Ring_new xs = xs"

definition Ring_next :: "'a Ring \<Rightarrow> ('a \<times> 'a Ring) result" where
  "Ring_next r = (case r of [] \<Rightarrow> Inl Exit_failure | x # xs \<Rightarrow> Inr (x, xs @ [x]))"

definition Ring_size :: "'a Ring \<Rightarrow> nat" where
  "Ring_size r = length r"

fun Ring_run :: "nat \<Rightarrow> 'a Ring \<Rightarrow> ('a list \<times> 'a Ring) result" where
  "Ring_run 0 r = Inr ([], r)"
| "Ring_run (Suc n) r = bind_result (Ring_next r) (\<lambda>(x, r1).
     bind_result (Ring_run n r1) (\<lambda>(xs, r2). Inr (x # xs, r2)))"

lemma Ring_run_rotates:
  "r \<noteq> [] \<Longrightarrow> Ring_run n r = Inr (map (\<lambda>i. r ! (i mod length r)) [0..<n], rotate n r)"
proof (induction n arbitrary: r)
  case 0
  then show ?case by simp
next
  case (Suc n)
  then obtain x xs where r: "r = x # xs" by (cases r) auto
  have nth: "(xs @ [x]) ! (i mod Suc (length xs)) = r ! (Suc i mod length r)" for i
  proof -
    have "(rotate 1 r) ! (i mod length r) = r ! ((1 + i mod length r) mod length r)"
      using r by (intro nth_rotate) simp
    then show ?thesis by (simp add: r mod_Suc_eq)
  qed
  have "Ring_run (Suc n) r = Inr (x # map (\<lambda>i. (xs @ [x]) ! (i mod Suc (length xs))) [0..<n],
      rotate n (xs @ [x]))"
    using Suc.IH [of "xs @ [x]"] by (simp add: r Ring_next_def)
  moreover have "rotate n (xs @ [x]) = rotate (Suc n) r"
    using r by (simp add: rotate1_rotate_swap del: rotate_Suc) (simp add: rotate_def funpow_swap1)
  moreover have "map (\<lambda>i. r ! (i mod length r)) [0..<Suc n] =
      r ! (0 mod length r) # map (\<lambda>i. r ! (Suc i mod length r)) [0..<n]"
    by (simp only: upt_conv_Cons zero_less_Suc list.map map_Suc_upt [symmetric] map_map comp_def)
  ultimately show ?case by (simp only: nth) (simp add: r)
qed

section \<open>Reference counts\<close>

text \<open>\<open>None\<close> is an object that has been deleted.\<close>

definition RefCounted_new :: "int option" where
  "RefCounted_new = Some 0"

definition addref :: "int option \<Rightarrow> int option result" where
  "addref r = (case r of None \<Rightarrow> Inl Undefined_behaviour
     | Some count \<Rightarrow> if int4_ok (count + 1) then Inr (Some (count + 1)) else Inl Undefined_behaviour)"

definition delref :: "int option \<Rightarrow> int option result" where
  "delref r = (case r of None \<Rightarrow> Inl Undefined_behaviour
     | Some count \<Rightarrow>
         if \<not> int4_ok (count - 1) then Inl Undefined_behaviour
         else if count - 1 = 0 then Inr None else Inr (Some (count - 1)))"

lemma addrefs:
  "0 \<le> c \<Longrightarrow> c + int n < 2 ^ 31 \<Longrightarrow> fold_result (\<lambda>_. addref) (replicate n ()) (Some c) = Inr (Some (c + int n))"
  by (induction n arbitrary: c) (auto simp: addref_def int4_ok_def)

lemma delrefs:
  "k \<le> n \<Longrightarrow> 0 < n \<Longrightarrow> n < 2 ^ 31 \<Longrightarrow> fold_result (\<lambda>_. delref) (replicate k ()) (Some (int n))
     = Inr (if k = n then None else Some (int (n - k)))"
proof (induction k arbitrary: n)
  case 0
  then show ?case by simp
next
  case (Suc k)
  have d: "delref (Some (int n)) = Inr (if n = 1 then None else Some (int (n - 1)))"
    using Suc.prems by (auto simp: delref_def int4_ok_def of_nat_diff)
  show ?case
  proof (cases "n = 1")
    case True
    with Suc.prems d show ?thesis by simp
  next
    case False
    with Suc.prems Suc.IH [of "n - 1"] d show ?thesis by auto
  qed
qed

section \<open>Properties\<close>

text \<open>
  C33. However the threads of a queue interleave, items come out in the order they went in, none
  twice and none left out; and no wake-up is lost: whenever a thread sleeps in \<open>get\<close>, every item in
  the queue has a woken thread on its way to take it.
\<close>

theorem queue_monitor:
  assumes "mon_run mon_new es m"
  shows "put_items es = got_items es @ items m \<and> (0 < sleeping m \<longrightarrow> length (items m) \<le> woken m)"
proof -
  have "put_items es = got_items es @ items m \<and> no_lost_wakeup m"
    if "mon_run m0 es m" and "m0 = mon_new" for m0
    using that
  proof (induction rule: mon_run.induct)
    case (start m)
    then show ?case by (simp add: mon_new_def no_lost_wakeup_def)
  next
    case (step m es m1 e m2)
    then show ?case using mon_step_wakeup [of m1 e m2] mon_step_order [of m1 e m2] by simp
  qed
  with assms show ?thesis by (auto simp: no_lost_wakeup_def)
qed

theorem queue_monitor_witness:
  "\<exists>m. mon_run mon_new [Internal, Put (7::nat), Got 7] m \<and> put_items [Internal, Put (7::nat), Got 7] = [7] @ items m"
proof -
  let ?m1 = "\<lparr>items = [], sleeping = 1, woken = 0\<rparr> :: nat monitor"
  let ?m2 = "\<lparr>items = [7], sleeping = 0, woken = 1\<rparr> :: nat monitor"
  let ?m3 = "\<lparr>items = [], sleeping = 0, woken = 0\<rparr> :: nat monitor"
  have "mon_step mon_new Internal ?m1" "mon_step ?m1 (Put 7) ?m2" "mon_step ?m2 (Got 7) ?m3"
    using get_wait [of mon_new] put_notify [of ?m1 7] resume_get [of ?m2 7 "[]"]
    by (simp_all add: mon_new_def)
  then have "mon_run mon_new ((([] @ [Internal]) @ [Put 7]) @ [Got 7]) ?m3"
    by (blast intro: mon_run.intros)
  then have run: "mon_run mon_new [Internal, Put (7::nat), Got 7] ?m3" by simp
  from queue_monitor [OF run] show ?thesis
    using run by (intro exI [of _ ?m3]) (simp add: got_items_def)
qed

text \<open>
  A reader that waits for the end of the stream can miss its last buffer:
  \<open>read_until_upstream_exit\<close> (and \<open>readany\<close>, which has the same loop) looks at the queue and
  then at the putters without holding the mutex in between. When the last upstream filter puts a
  buffer and exits between the two looks, the reader returns NULL with that buffer unread.
\<close>

theorem read_until_exit_loses_buffer:
  "\<exists>w. reader_step\<^sup>*\<^sup>* (set_putters [p] Queue_new, Trying) (w, Returned None) \<and> q w = [x]"
proof -
  let ?w0 = "set_putters [p] Queue_new" and ?w1 = "Queue_put x (set_putters [p] Queue_new)"
  let ?w2 = "remove_putter p ?w1"
  have "reader_step (?w0, Trying) (?w0, Checking)"
    by (rule try_none) (simp add: queue_defs)
  moreover have "reader_step (?w0, Checking) (?w1, Checking)"
    by (rule upstream_put [of p]) (simp add: queue_defs)
  moreover have "reader_step (?w1, Checking) (?w2, Checking)"
    by (rule upstream_exit) (simp add: queue_defs)
  moreover have "reader_step (?w2, Checking) (?w2, Returned None)"
    by (rule check_done) (simp add: queue_defs set_erase_def)
  ultimately have "reader_step\<^sup>*\<^sup>* (?w0, Trying) (?w2, Returned None)"
    by (meson converse_rtranclp_into_rtranclp rtranclp.rtrancl_refl)
  moreover have "q ?w2 = [x]" by (simp add: queue_defs)
  ultimately show ?thesis by blast
qed

text \<open>
  A ring deals its items round robin: \<open>k\<close> rounds of \<open>next\<close> hand out the items in
  order \<open>k\<close> times and leave the ring as it was; an empty ring takes the error exit.
\<close>

theorem ring_round_robin:
  "Ring_run (k * length xs) (Ring_new xs) = Inr (concat (replicate k xs), xs)
   \<and> Ring_next (Ring_new ([] :: 'a list)) = Inl Exit_failure"
proof (cases "xs = []")
  case True
  then show ?thesis by (simp add: Ring_new_def Ring_next_def)
next
  case False
  have "map (\<lambda>i. xs ! (i mod length xs)) [0..<k * length xs] = concat (replicate k xs)"
  proof (induction k)
    case (Suc k)
    have "[0..<Suc k * length xs] = [0..<k * length xs] @ map (\<lambda>i. i + k * length xs) [0..<length xs]"
      using upt_add_eq_append [of 0 "k * length xs" "length xs"] by (simp add: map_add_upt add.commute)
    moreover have "map (\<lambda>i. xs ! (i mod length xs)) [0..<length xs] = xs"
      by (rule nth_equalityI) auto
    ultimately have "map (\<lambda>i. xs ! (i mod length xs)) [0..<Suc k * length xs] = concat (replicate k xs) @ xs"
      using Suc.IH by (simp add: comp_def del: mult_Suc)
    then show ?case by (simp add: replicate_append_same [symmetric])
  qed simp
  moreover have "rotate (k * length xs) xs = xs" by (simp add: rotate_conv_mod)
  ultimately show ?thesis
    using Ring_run_rotates [OF False, of "k * length xs"] by (simp add: Ring_new_def Ring_next_def)
qed

text \<open>
  An object that has been referenced \<open>n\<close> times survives until exactly the last of the \<open>n\<close>
  references is dropped, which deletes it.
\<close>

theorem deleted_by_last_reference:
  assumes "0 < n" and "n < 2 ^ 31" and "k \<le> n"
  shows "bind_result (fold_result (\<lambda>_. addref) (replicate n ()) RefCounted_new)
      (fold_result (\<lambda>_. delref) (replicate k ())) = Inr (if k = n then None else Some (int (n - k)))"
  using addrefs [of 0 n] delrefs [of k n] assms by (simp add: RefCounted_new_def)

theorem deleted_by_last_reference_witness:
  "bind_result (fold_result (\<lambda>_. addref) [(), ()] RefCounted_new)
     (fold_result (\<lambda>_. delref) [(), ()]) = Inr None"
  using deleted_by_last_reference [of "length [(), ()]" "length [(), ()]"] by simp

end
