(* ===== verification/Packet.thy ===== *)
theory Packet
  imports FdIO
begin

text \<open>
  The packets of the runtime (\<open>src/src/DCMPIPacket.h\<close>, \<open>src/src/DCMPIPacket.cpp\<close>): the 161 byte
  header and the bodies that follow it on a socket (\<open>src/src/dcmpi_util.h\<close>).
\<close>

section \<open>State\<close>

record DCMPIPacketAddress =
  to_rank :: int4
  to_cluster_rank :: int4
  to_gftid :: int4
  to_port :: string
  from_rank :: int4
  from_cluster_rank :: int4
  from_gftid :: int4
  from_port :: string

record DCMPIPacket =
  address :: DCMPIPacketAddress
  packet_type :: int4
  body_len :: int4
  body :: "DCBuffer option"

definition DCMPI_PORT_MAXLEN_SIZE :: nat where
  "DCMPI_PORT_MAXLEN_SIZE = 64"

definition DCMPI_PACKET_HEADER_SIZE :: nat where
  "DCMPI_PACKET_HEADER_SIZE = 1 + 4 * 8 + DCMPI_PORT_MAXLEN_SIZE * 2"

definition DCMPI_PACKET_TYPE_DCBUF :: int4 where "DCMPI_PACKET_TYPE_DCBUF = 1"
definition DCMPI_PACKET_TYPE_REMOVE_PUTTER :: int4 where "DCMPI_PACKET_TYPE_REMOVE_PUTTER = 2"
definition DCMPI_PACKET_TYPE_LAYOUT :: int4 where "DCMPI_PACKET_TYPE_LAYOUT = 3"
definition DCMPI_PACKET_TYPE_ALL_MY_FILTERS_DONE :: int4 where "DCMPI_PACKET_TYPE_ALL_MY_FILTERS_DONE = 4"
definition DCMPI_PACKET_TYPE_CLOSE :: int4 where "DCMPI_PACKET_TYPE_CLOSE = 5"

lemmas packet_types = DCMPI_PACKET_TYPE_DCBUF_def DCMPI_PACKET_TYPE_REMOVE_PUTTER_def
  DCMPI_PACKET_TYPE_LAYOUT_def DCMPI_PACKET_TYPE_ALL_MY_FILTERS_DONE_def DCMPI_PACKET_TYPE_CLOSE_def

definition DCMPIPacket_new :: "DCMPIPacketAddress \<Rightarrow> int4 \<Rightarrow> int4 \<Rightarrow> DCBuffer option \<Rightarrow> DCMPIPacket" where
  "DCMPIPacket_new addr ptype blen b =
     \<lparr>address = addr, packet_type = ptype, body_len = blen, body = b\<rparr>"

section \<open>The header\<close>

text \<open>
  A port name is copied and filled up to 64 bytes with zeros; the length of the filling is
  unsigned, so a longer name makes \<open>memset\<close> run off the header.
\<close>

definition port_field :: "string \<Rightarrow> char list result" where
  "port_field port =
     (if length port \<le> DCMPI_PORT_MAXLEN_SIZE
      then Inr (port @ replicate (DCMPI_PORT_MAXLEN_SIZE - length port) (CHR 0x00))
      else Inl Undefined_behaviour)"

definition to_bytearray :: "bool \<Rightarrow> DCMPIPacket \<Rightarrow> char list result" where
  "to_bytearray host p =
     (let a = address p
      in bind_result (port_field (to_port a)) (\<lambda>tport.
         bind_result (port_field (from_port a)) (\<lambda>fport.
           Inr (native_bytes host (if host then 1 else 0 :: uint1)
             @ native_bytes host (packet_type p)
             @ native_bytes host (to_rank a)
             @ native_bytes host (to_cluster_rank a)
             @ native_bytes host (to_gftid a)
             @ tport
             @ native_bytes host (from_rank a)
             @ native_bytes host (from_cluster_rank a)
             @ native_bytes host (from_gftid a)
             @ fport
             @ native_bytes host (body_len p)))))"

text \<open>
  \<open>init_from_bytearray\<close> walks through the header; \<open>field\<close> is one \<open>DCMPI_SWP(); memcpy(.., hdr, 4);
  hdr += 4\<close>, \<open>port_name\<close> the C string of the next 64 bytes. It leaves the body of the packet as it
  is. (The swaps are done in the header of the caller, of which nobody reads more than the first byte again.)
\<close>

definition field :: "bool \<Rightarrow> bool \<Rightarrow> char list \<Rightarrow> int4 \<times> char list" where
  "field host swap_endian hdr =
     (word_of_native host (if swap_endian then dcmpi_endian_swap (take 4 hdr) else take 4 hdr), drop 4 hdr)"

definition port_name :: "char list \<Rightarrow> string \<times> char list" where
  "port_name hdr =
     (takeWhile (\<lambda>c. c \<noteq> CHR 0x00) (take DCMPI_PORT_MAXLEN_SIZE hdr), drop DCMPI_PORT_MAXLEN_SIZE hdr)"

definition init_from_bytearray :: "bool \<Rightarrow> char list \<Rightarrow> DCMPIPacket \<Rightarrow> DCMPIPacket result" where
  "init_from_bytearray host hdr p =
     (if length hdr < DCMPI_PACKET_HEADER_SIZE then Inl Undefined_behaviour
      else let swap_endian = (hd hdr \<noteq> (if host then CHR 0x01 else CHR 0x00));
               (ptype, h1) = field host swap_endian (drop 1 hdr);
               (trank, h2) = field host swap_endian h1;
               (tcluster, h3) = field host swap_endian h2;
               (tgftid, h4) = field host swap_endian h3;
               (tport, h5) = port_name h4;
               (frank, h6) = field host swap_endian h5;
               (fcluster, h7) = field host swap_endian h6;
               (fgftid, h8) = field host swap_endian h7;
               (fport, h9) = port_name h8;
               (blen, h10) = field host swap_endian h9
           in Inr (p\<lparr>packet_type := ptype, body_len := blen,
                address := \<lparr>to_rank = trank, to_cluster_rank = tcluster, to_gftid = tgftid,
                  to_port = tport, from_rank = frank, from_cluster_rank = fcluster,
                  from_gftid = fgftid, from_port = fport\<rparr>\<rparr>))"

section \<open>Bodies on sockets\<close>

definition dcmpi_socket_read_dcbuffer ::
    "bool \<Rightarrow> int \<Rightarrow> DCMPIPacket \<Rightarrow> in_fd \<Rightarrow> (DCMPIPacket, in_fd) io" where
  "dcmpi_socket_read_dcbuffer host errno p fd =
     (let sz = sint (body_len p)
      in case DCBuffer_sized host sz of
           Inl e \<Rightarrow> Some (Inl e)
         | Inr buf \<Rightarrow>
             if sz < 0 then Some (Inl Exit_failure)
             else bind_io (DC_read_all errno (nat sz) fd) (\<lambda>(rc, _, bytes) fd'.
               if rc \<noteq> 0 then Some (Inl Exit_failure)
               else case bind_result (block_write (mem buf) 0 bytes) (\<lambda>blk.
                   setUsedSize sz (if pBuf buf = None then buf else buf\<lparr>pBuf := Some blk\<rparr>)) of
                   Inl e \<Rightarrow> Some (Inl e)
                 | Inr buf' \<Rightarrow> Some (Inr (p\<lparr>body := Some buf'\<rparr>, fd'))))"

definition dcmpi_socket_write_dcbuffer :: "DCMPIPacket \<Rightarrow> out_fd \<Rightarrow> (unit, out_fd) io" where
  "dcmpi_socket_write_dcbuffer p fd =
     (case body p of
        None \<Rightarrow> Some (Inl Undefined_behaviour)
      | Some b \<Rightarrow>
          if sint (body_len p) < 0 then Some (Inl Undefined_behaviour)
          else case block_read (mem b) 0 (nat (sint (body_len p))) of
              Inl e \<Rightarrow> Some (Inl e)
            | Inr bytes \<Rightarrow> bind_io (DC_write_all bytes fd) (\<lambda>rc fd'.
                if rc \<noteq> 0 then Some (Inl Exit_failure) else Some (Inr ((), fd'))))"

section \<open>Lemmas\<close>

definition port_ok :: "string \<Rightarrow> bool" where
  "port_ok port \<longleftrightarrow> length port \<le> DCMPI_PORT_MAXLEN_SIZE \<and> CHR 0x00 \<notin> set port"

lemma port_name_field:
  assumes "port_ok port" and "port_field port = Inr bs"
  shows "port_name (bs @ rest) = (port, rest)" and "length bs = DCMPI_PORT_MAXLEN_SIZE"
proof -
  have bs: "bs = port @ replicate (DCMPI_PORT_MAXLEN_SIZE - length port) (CHR 0x00)"
    using assms by (auto simp: port_ok_def port_field_def)
  then show len: "length bs = DCMPI_PORT_MAXLEN_SIZE" using assms(1) by (simp add: port_ok_def)
  have "takeWhile (\<lambda>c. c \<noteq> CHR 0x00) bs = port"
    using assms(1) unfolding bs port_ok_def
    by (subst takeWhile_append2) (auto simp: takeWhile_replicate)
  with len show "port_name (bs @ rest) = (port, rest)" by (simp add: port_name_def)
qed

lemma field_native:
  "field h' (h \<noteq> h') (native_bytes h w @ rest) = (w, rest)"
proof (cases "h = h'")
  case True
  then show ?thesis by (simp add: field_def word_of_native_bytes)
next
  case False
  then have "h = (\<not> h')" by auto
  then have "rev (native_bytes h w) = native_bytes h' w"
    by (simp add: native_bytes_swap)
  with False show ?thesis by (simp add: field_def endian_swap_is_rev word_of_native_bytes)
qed

lemma first_byte: "native_bytes h (if h then 1 else 0 :: uint1) = [if h then CHR 0x01 else CHR 0x00]"
  by (auto simp: native_bytes_def Let_def char_of_def bit_0)

lemma to_bytearray_length:
  "to_bytearray h p = Inr hdr \<Longrightarrow> length hdr = DCMPI_PACKET_HEADER_SIZE"
  unfolding to_bytearray_def Let_def
  by (auto simp: result_simps DCMPI_PACKET_HEADER_SIZE_def port_field_def DCMPI_PORT_MAXLEN_SIZE_def
      split: if_splits)

lemma header_roundtrip:
  assumes "port_ok (to_port (address p))" and "port_ok (from_port (address p))"
    and "to_bytearray h p = Inr hdr"
  shows "init_from_bytearray h' hdr p' = Inr (p'\<lparr>packet_type := packet_type p,
    body_len := body_len p, address := address p\<rparr>)"
proof -
  from assms(3) obtain tport fport where ports: "port_field (to_port (address p)) = Inr tport"
    "port_field (from_port (address p)) = Inr fport" and
    hdr: "hdr = (if h then CHR 0x01 else CHR 0x00) # native_bytes h (packet_type p)
       @ native_bytes h (to_rank (address p)) @ native_bytes h (to_cluster_rank (address p))
       @ native_bytes h (to_gftid (address p)) @ tport @ native_bytes h (from_rank (address p))
       @ native_bytes h (from_cluster_rank (address p)) @ native_bytes h (from_gftid (address p))
       @ fport @ native_bytes h (body_len p) @ []"
    unfolding to_bytearray_def Let_def first_byte by (auto simp: result_simps)
  have swap: "(hd hdr \<noteq> (if h' then CHR 0x01 else CHR 0x00)) = (h \<noteq> h')"
    unfolding hdr by auto
  note pn = port_name_field(1) [OF assms(1) ports(1)] port_name_field(1) [OF assms(2) ports(2)]
  have len: "\<not> length hdr < DCMPI_PACKET_HEADER_SIZE"
    using to_bytearray_length [OF assms(3)] by simp
  have tail: "drop 1 hdr = native_bytes h (packet_type p)
       @ native_bytes h (to_rank (address p)) @ native_bytes h (to_cluster_rank (address p))
       @ native_bytes h (to_gftid (address p)) @ tport @ native_bytes h (from_rank (address p))
       @ native_bytes h (from_cluster_rank (address p)) @ native_bytes h (from_gftid (address p))
       @ fport @ native_bytes h (body_len p) @ []"
    unfolding hdr by simp
  show ?thesis
    unfolding init_from_bytearray_def Let_def swap tail field_native pn prod.case
    using len by simp
qed

section \<open>Properties\<close>

text \<open>
  C31. The header of a packet whose port names fit (at most 64 bytes, no NUL) is 161 bytes long,
  and any host, whatever its byte order, reads the packet's type, address and body length back
  from it; a packet with a longer port name cannot be sent at all.
\<close>

theorem packet_header_roundtrip:
  assumes "CHR 0x00 \<notin> set (to_port (address p)) \<union> set (from_port (address p))"
  shows "if length (to_port (address p)) \<le> 64 \<and> length (from_port (address p)) \<le> 64
    then \<exists>hdr. to_bytearray h p = Inr hdr \<and> length hdr = 161
      \<and> init_from_bytearray h' hdr p' = Inr (p'\<lparr>packet_type := packet_type p, body_len := body_len p,
            address := address p\<rparr>)
    else to_bytearray h p = Inl Undefined_behaviour"
proof (cases "length (to_port (address p)) \<le> 64 \<and> length (from_port (address p)) \<le> 64")
  case True
  with assms have ok: "port_ok (to_port (address p))" "port_ok (from_port (address p))"
    by (auto simp: port_ok_def DCMPI_PORT_MAXLEN_SIZE_def)
  then obtain hdr where hdr: "to_bytearray h p = Inr hdr"
    unfolding to_bytearray_def Let_def by (auto simp: port_ok_def port_field_def)
  from header_roundtrip [OF ok hdr] to_bytearray_length [OF hdr] hdr True show ?thesis
    by (simp add: DCMPI_PACKET_HEADER_SIZE_def DCMPI_PORT_MAXLEN_SIZE_def)
next
  case False
  then show ?thesis
    by (auto simp: to_bytearray_def Let_def port_field_def DCMPI_PORT_MAXLEN_SIZE_def)
qed

theorem packet_header_roundtrip_witness:
  "\<exists>hdr p1. to_bytearray True (DCMPIPacket_new \<lparr>to_rank = 3, to_cluster_rank = 0, to_gftid = 9,
      to_port = ''in'', from_rank = - 1, from_cluster_rank = 0, from_gftid = 2, from_port = ''out''\<rparr> 1 77 None)
      = Inr hdr
    \<and> init_from_bytearray False hdr (DCMPIPacket_new undefined 0 0 None) = Inr p1
    \<and> to_rank (address p1) = 3 \<and> from_rank (address p1) = - 1 \<and> body_len p1 = 77"
  using packet_header_roundtrip [of "DCMPIPacket_new \<lparr>to_rank = 3, to_cluster_rank = 0, to_gftid = 9,
      to_port = ''in'', from_rank = - 1, from_cluster_rank = 0, from_gftid = 2, from_port = ''out''\<rparr> 1 77 None"
      True False "DCMPIPacket_new undefined 0 0 None"]
  by (auto simp: DCMPIPacket_new_def)

lemma new_body:
  assumes "n = int (length u)"
  shows "\<exists>buf b'. DCBuffer_sized host n = Inr buf \<and> bind_result (block_write (mem buf) 0 u) (\<lambda>blk.
      setUsedSize n (if pBuf buf = None then buf else buf\<lparr>pBuf := Some blk\<rparr>)) = Inr b'
    \<and> used b' = u \<and> isbigendian b' = host"
proof (cases "u = []")
  case True
  have "DCBuffer_sized host 0 = Inr (DCBuffer_empty host)"
    by (simp add: DCBuffer_sized_def New_def DCBuffer_empty_def commonInit_def Delete_def)
  with True assms show ?thesis
    by (auto simp: block_write_def setUsedSize_def)
      (auto simp: DCBuffer_empty_def commonInit_def used_def mem_def)
next
  case False
  define buf where "buf = commonInit host ((DCBuffer_empty host)\<lparr>pBuf := Some (new_char n),
      wMax := n, wSize := 0, wSizeExtracted := 0, owns_pBuf := True\<rparr>)"
  have sized: "DCBuffer_sized host n = Inr buf"
    using False assms by (simp add: DCBuffer_sized_def New_def buf_def)
  have buf: "mem buf = new_char n" "pBuf buf \<noteq> None" "wMax buf = n" "isbigendian buf = host"
    by (simp_all add: buf_def commonInit_def mem_def)
  have "bind_result (block_write (mem buf) 0 u) (\<lambda>blk.
      setUsedSize n (if pBuf buf = None then buf else buf\<lparr>pBuf := Some blk\<rparr>))
    = Inr (buf\<lparr>pBuf := Some u, wSize := n\<rparr>)"
    using buf assms by (simp add: block_write_def setUsedSize_def)
  moreover have "used (buf\<lparr>pBuf := Some u, wSize := n\<rparr>) = u" using assms by (simp add: used_def mem_def)
  ultimately show ?thesis using sized buf(4) by auto
qed

lemma socket_read_body:
  assumes "sint (body_len p) = int (length u)" and "DC_read_all errno (length u) ifd = Some (Inr ((0, eof, u), ifd'))"
  shows "\<exists>b'. dcmpi_socket_read_dcbuffer host errno p ifd = Some (Inr (p\<lparr>body := Some b'\<rparr>, ifd'))
    \<and> used b' = u \<and> isbigendian b' = host"
proof -
  obtain buf b' where b: "DCBuffer_sized host (int (length u)) = Inr buf"
    "bind_result (block_write (mem buf) 0 u) (\<lambda>blk.
      setUsedSize (int (length u)) (if pBuf buf = None then buf else buf\<lparr>pBuf := Some blk\<rparr>)) = Inr b'"
    "used b' = u" "isbigendian b' = host" using new_body by blast
  have "dcmpi_socket_read_dcbuffer host errno p ifd = Some (Inr (p\<lparr>body := Some b'\<rparr>, ifd'))"
    unfolding dcmpi_socket_read_dcbuffer_def assms(1) Let_def b(1) sum.case nat_int assms(2)
    by (simp add: b(2))
  with b(3,4) show ?thesis by blast
qed

text \<open>
  A body written to a socket arrives complete, but not its byte order: the reader builds a
  buffer with the flag of its own host. (The socket mainloop sets the flag from the header
  afterwards, the console and MPI paths do not, so there the words of a buffer from a host of the other
  byte order are extracted with their bytes reversed.)
\<close>

theorem socket_body_keeps_bytes_not_order:
  assumes "body p = Some b" and "buf_wf b" and "body_len p = word_of_int (wSize b)"
    and "dcmpi_socket_write_dcbuffer p ofd = Some (Inr ((), ofd'))"
    and "outgoing ofd' = outgoing ofd @ sent" and "incoming ifd = sent @ rest"
    and "no_errors (in_events ifd)" and "length (used b) \<le> length (in_events ifd)"
    and "body_len p' = body_len p"
  shows "\<exists>ifd' b'. dcmpi_socket_read_dcbuffer host errno p' ifd = Some (Inr (p'\<lparr>body := Some b'\<rparr>, ifd'))
    \<and> incoming ifd' = rest \<and> used b' = used b \<and> isbigendian b' = host"
proof -
  have wsz: "wSize b = int (length (used b))" and short: "short (used b)"
    using assms(2) used_length [OF assms(2)] by (auto simp: buf_wf_def short_def)
  have sz: "sint (body_len p) = int (length (used b))"
    using assms(3) wsz sint_of_short [OF short] by simp
  have "block_read (mem b) 0 (length (used b)) = Inr (used b)"
    using block_read_used [OF assms(2)] unfolding wsz nat_int .
  then obtain rc where "DC_write_all (used b) ofd = Some (Inr (rc, ofd'))" "rc = 0"
    using assms(1,4) sz
    by (auto simp: dcmpi_socket_write_dcbuffer_def bind_io_Inr_iff split: if_splits)
  then have inc: "incoming ifd = used b @ rest" using DC_write_all_done assms(5,6) by simp
  then have "length (used b) \<le> length (incoming ifd)" by simp
  from DC_read_all_all [OF assms(8) this assms(7), of errno] obtain ifd' eof where
    "DC_read_all errno (length (used b)) ifd
      = Some (Inr ((0, eof, take (length (used b)) (incoming ifd)), ifd'))"
    "incoming ifd' = drop (length (used b)) (incoming ifd)" by blast
  then have r: "DC_read_all errno (length (used b)) ifd = Some (Inr ((0, eof, used b), ifd'))"
      "incoming ifd' = rest" using inc by simp_all
  from socket_read_body [OF sz [folded assms(9)] r(1), of host] r(2) show ?thesis by blast
qed

theorem socket_body_keeps_bytes_not_order_witness:
  "\<exists>ifd' b'. dcmpi_socket_read_dcbuffer False 0 (DCMPIPacket_new undefined 1 2 None)
      \<lparr>in_events = [Read_upto 0, Read_upto 0], incoming = ''hi''\<rparr>
      = Some (Inr (DCMPIPacket_new undefined 1 2 (Some b'), ifd')) \<and> used b' = ''hi'' \<and> \<not> isbigendian b'"
proof -
  let ?b = "restored True ''hi''"
  have b: "buf_wf ?b" "wSize ?b = 2" "mem ?b = ''hi''" by (simp_all add: short_def) (simp add: restored_def mem_def)
  have w: "dcmpi_socket_write_dcbuffer (DCMPIPacket_new undefined 1 2 (Some ?b))
      \<lparr>out_events = [Write_upto 9], outgoing = []\<rparr> = Some (Inr ((), \<lparr>out_events = [], outgoing = ''hi''\<rparr>))"
    using b by (simp add: dcmpi_socket_write_dcbuffer_def DCMPIPacket_new_def block_read_def DC_write_all_def)
  have "\<exists>ifd' b'. dcmpi_socket_read_dcbuffer False 0 (DCMPIPacket_new undefined 1 2 None)
      \<lparr>in_events = [Read_upto 0, Read_upto 0], incoming = ''hi''\<rparr>
      = Some (Inr ((DCMPIPacket_new undefined 1 2 None)\<lparr>body := Some b'\<rparr>, ifd'))
      \<and> incoming ifd' = [] \<and> used b' = used ?b \<and> isbigendian b' = False"
    by (rule socket_body_keeps_bytes_not_order [OF _ b(1) _ w]) (simp_all add: DCMPIPacket_new_def b(2) short_def)
  then show ?thesis by (auto simp: DCMPIPacket_new_def short_def)
qed

end
