(* ===== verification/Ports.thy ===== *)
theory Ports
  imports BufferFormats StdContainers
begin

text \<open>
  Ports and their serialised form: \<open>Gftid_Port\<close>, \<open>ResolvedMultiPort\<close>, \<open>Instance_Port\<close> and
  \<open>MultiPort\<close> of \<open>src/src\<close>, and the combinators that the \<open>serialize\<close> methods are instances of: an
  \<open>int\<close>, a counted sequence, a map and a set in their iteration order. A C++ \<open>int\<close> that is not a
  wire format is a mathematical integer in the range \<open>int4_ok\<close>.
\<close>

section \<open>Serialisers of the containers\<close>

definition put_int :: "bool \<Rightarrow> int \<Rightarrow> DCBuffer \<Rightarrow> DCBuffer result" where
  "put_int host i = Append_word host (word_of_int i :: int4)"

definition get_int :: "bool \<Rightarrow> DCBuffer \<Rightarrow> (int \<times> DCBuffer) result" where
  "get_int host b = bind_result (Extract_word_init host b) (\<lambda>(w :: int4, b'). Inr (sint w, b'))"

definition enc_int :: "bool \<Rightarrow> int \<Rightarrow> char list" where
  "enc_int h i = native_bytes h (word_of_int i :: int4)"

text \<open>The size as an \<open>int4\<close>, then the elements; reading back, a loop up to the size read.\<close>

definition put_list :: "(bool \<Rightarrow> 'a \<Rightarrow> DCBuffer \<Rightarrow> DCBuffer result) \<Rightarrow> bool \<Rightarrow> 'a list \<Rightarrow>
    DCBuffer \<Rightarrow> DCBuffer result" where
  "put_list put host xs b = bind_result (put_int host (int (length xs)) b) (fold_result (put host) xs)"

definition get_list :: "(bool \<Rightarrow> DCBuffer \<Rightarrow> ('a \<times> DCBuffer) result) \<Rightarrow> bool \<Rightarrow> DCBuffer \<Rightarrow>
    ('a list \<times> DCBuffer) result" where
  "get_list get host b = bind_result (get_int host b) (\<lambda>(sz, b'). get_seq (get host) (nat sz) b')"

definition enc_list :: "(bool \<Rightarrow> 'a \<Rightarrow> char list) \<Rightarrow> bool \<Rightarrow> 'a list \<Rightarrow> char list" where
  "enc_list enc h xs = enc_int h (int (length xs)) @ concat (map (enc h) xs)"

definition put_pair :: "(bool \<Rightarrow> 'a \<Rightarrow> DCBuffer \<Rightarrow> DCBuffer result) \<Rightarrow>
    (bool \<Rightarrow> 'b \<Rightarrow> DCBuffer \<Rightarrow> DCBuffer result) \<Rightarrow> bool \<Rightarrow> 'a \<times> 'b \<Rightarrow> DCBuffer \<Rightarrow> DCBuffer result" where
  "put_pair putk putv host kv b = bind_result (putk host (fst kv) b) (putv host (snd kv))"

definition get_pair :: "(bool \<Rightarrow> DCBuffer \<Rightarrow> ('a \<times> DCBuffer) result) \<Rightarrow>
    (bool \<Rightarrow> DCBuffer \<Rightarrow> ('b \<times> DCBuffer) result) \<Rightarrow> bool \<Rightarrow> DCBuffer \<Rightarrow> (('a \<times> 'b) \<times> DCBuffer) result" where
  "get_pair getk getv host b = bind_result (getk host b) (\<lambda>(k, b1).
     bind_result (getv host b1) (\<lambda>(v, b2). Inr ((k, v), b2)))"

definition enc_pair :: "(bool \<Rightarrow> 'a \<Rightarrow> char list) \<Rightarrow> (bool \<Rightarrow> 'b \<Rightarrow> char list) \<Rightarrow> bool \<Rightarrow> 'a \<times> 'b \<Rightarrow> char list" where
  "enc_pair enck encv h kv = enck h (fst kv) @ encv h (snd kv)"

text \<open>The loop that inserts what it reads.\<close>

fun insert_loop :: "('a \<Rightarrow> 'm \<Rightarrow> 'm) \<Rightarrow> (DCBuffer \<Rightarrow> ('a \<times> DCBuffer) result) \<Rightarrow> nat \<Rightarrow> 'm \<Rightarrow> DCBuffer \<Rightarrow>
    ('m \<times> DCBuffer) result" where
  "insert_loop ins get 0 m b = Inr (m, b)"
| "insert_loop ins get (Suc n) m b = bind_result (get b) (\<lambda>(x, b'). insert_loop ins get n (ins x m) b')"

definition get_into :: "('a \<Rightarrow> 'm \<Rightarrow> 'm) \<Rightarrow> (bool \<Rightarrow> DCBuffer \<Rightarrow> ('a \<times> DCBuffer) result) \<Rightarrow> 'm \<Rightarrow> bool \<Rightarrow>
    DCBuffer \<Rightarrow> ('m \<times> DCBuffer) result" where
  "get_into ins get m host b =
     bind_result (get_int host b) (\<lambda>(sz, b'). insert_loop ins (get host) (nat sz) m b')"

subsection \<open>Lemmas\<close>

lemma sint_int4: "int4_ok i \<Longrightarrow> sint (word_of_int i :: int4) = i"
  by (simp add: int4_ok_def sint_sbintrunc' signed_take_bit_int_eq_self)

lemma int_codec: "int4_ok i \<Longrightarrow> reads e (get_int host) (enc_int e i) i"
  using reads_map [OF reads_word [of e host "word_of_int i :: int4"], of sint]
  by (simp add: get_int_def [abs_def] enc_int_def sint_int4)

interpretation cint: codec put_int get_int enc_int int4_ok
  by unfold_locales (simp_all add: int_codec, simp add: put_int_def enc_int_def writes_word)

lemma short_int4: "short xs \<Longrightarrow> int4_ok (int (length xs))"
  by (simp add: short_def int4_ok_def)

lemma reads_insert_loop:
  assumes "\<And>x. x \<in> set xs \<Longrightarrow> reads e get (enc x) x"
  shows "reads e (insert_loop ins get (length xs) m) (concat (map enc xs)) (fold ins xs m)"
  using assms
proof (induction xs arbitrary: m)
  case Nil
  show ?case by (simp add: reads_def)
next
  case (Cons x xs)
  have "reads e (\<lambda>b. bind_result (get b) (\<lambda>(y, b'). insert_loop ins get (length xs) (ins y m) b'))
      (enc x @ concat (map enc xs)) (fold ins xs (ins x m))"
    using Cons by (intro reads_bind) auto
  then show ?case by (simp add: reads_def)
qed

definition all_ok :: "('a \<Rightarrow> bool) \<Rightarrow> 'a list \<Rightarrow> bool" where
  "all_ok ok xs \<longleftrightarrow> short xs \<and> (\<forall>x\<in>set xs. ok x)"

context codec begin

lemma put_list_writes: "all_ok ok xs \<Longrightarrow> writes h (put_list put h xs) (enc_list enc h xs)"
  unfolding put_list_def [abs_def] enc_list_def all_ok_def
  by (intro writes_bind cint.put_writes short_int4 put_seq_writes) auto

lemma get_list_reads: "all_ok ok xs \<Longrightarrow> reads e (get_list get h) (enc_list enc e xs) xs"
  unfolding get_list_def [abs_def] enc_list_def all_ok_def
  by (intro reads_bind [OF cint.get_reads] short_int4) (auto intro!: get_seq_reads)

lemma get_into_reads:
  "all_ok ok xs \<Longrightarrow> reads e (get_into ins get m h) (enc_list enc e xs) (fold ins xs m)"
  unfolding get_into_def [abs_def] enc_list_def all_ok_def
  by (intro reads_bind [OF cint.get_reads] short_int4) (auto intro!: reads_insert_loop get_reads)

end

text \<open>Two codecs in a row.\<close>

locale codec_pair = k: codec putk getk enck okk + v: codec putv getv encv okv
  for putk :: "bool \<Rightarrow> 'a \<Rightarrow> DCBuffer \<Rightarrow> DCBuffer result" and getk enck okk
    and putv :: "bool \<Rightarrow> 'b \<Rightarrow> DCBuffer \<Rightarrow> DCBuffer result" and getv encv okv
begin

lemma pair_writes:
  "okk (fst kv) \<Longrightarrow> okv (snd kv) \<Longrightarrow> writes h (put_pair putk putv h kv) (enc_pair enck encv h kv)"
  unfolding put_pair_def [abs_def] enc_pair_def by (intro writes_bind k.put_writes v.put_writes)

lemma pair_reads:
  "okk (fst kv) \<Longrightarrow> okv (snd kv) \<Longrightarrow> reads e (get_pair getk getv h) (enc_pair enck encv e kv) kv"
  unfolding get_pair_def [abs_def] enc_pair_def
  using reads_two [OF k.get_reads v.get_reads, of "fst kv" "snd kv" e h h Pair] by simp

end

definition pair_ok :: "('a \<Rightarrow> bool) \<Rightarrow> ('b \<Rightarrow> bool) \<Rightarrow> 'a \<times> 'b \<Rightarrow> bool" where
  "pair_ok okk okv kv \<longleftrightarrow> okk (fst kv) \<and> okv (snd kv)"

sublocale codec_pair \<subseteq> pair: codec "put_pair putk putv" "get_pair getk getv" "enc_pair enck encv" "pair_ok okk okv"
  by unfold_locales (simp_all add: pair_ok_def pair_writes pair_reads)

interpretation str_str: codec_pair Append_string Extract_string enc_string short
    Append_string Extract_string enc_string short
  by unfold_locales

interpretation str_buf: codec_pair Append_string Extract_string enc_string short
    saveToDCBuffer "\<lambda>h. restoreFromDCBuffer h (DCBuffer_empty h)" enc_DCBuffer canonical
  by unfold_locales

section \<open>Resolved ports\<close>

datatype Gftid_Port = Gftid_Port (gp_gftid: int) (gp_port: string)

text \<open>\<open>operator<\<close>, the order of \<open>std::set<Gftid_Port>\<close>.\<close>

definition Gftid_Port_less :: "Gftid_Port \<Rightarrow> Gftid_Port \<Rightarrow> bool" where
  "Gftid_Port_less x y \<longleftrightarrow>
     gp_gftid x < gp_gftid y \<or> gp_gftid x = gp_gftid y \<and> gp_port x < gp_port y"

instantiation Gftid_Port :: linorder
begin

definition less_Gftid_Port :: "Gftid_Port \<Rightarrow> Gftid_Port \<Rightarrow> bool" where
  "less_Gftid_Port = Gftid_Port_less"

definition less_eq_Gftid_Port :: "Gftid_Port \<Rightarrow> Gftid_Port \<Rightarrow> bool" where
  "less_eq_Gftid_Port x y \<longleftrightarrow> x = y \<or> Gftid_Port_less x y"

instance
proof
  fix x y :: Gftid_Port
  show "x \<le> y \<or> y \<le> x"
    by (cases x; cases y) (auto simp: less_eq_Gftid_Port_def Gftid_Port_less_def)
qed (auto simp: less_Gftid_Port_def less_eq_Gftid_Port_def Gftid_Port_less_def)

end

definition Gftid_Port_serialize :: "bool \<Rightarrow> Gftid_Port \<Rightarrow> DCBuffer \<Rightarrow> DCBuffer result" where
  "Gftid_Port_serialize host gp b =
     bind_result (put_int host (gp_gftid gp) b) (Append_string host (gp_port gp))"

definition Gftid_Port_deSerialize :: "bool \<Rightarrow> DCBuffer \<Rightarrow> (Gftid_Port \<times> DCBuffer) result" where
  "Gftid_Port_deSerialize host b =
     bind_result (get_int host b) (\<lambda>(i, b1).
       bind_result (Extract_string host b1) (\<lambda>(p, b2). Inr (Gftid_Port i p, b2)))"

definition enc_Gftid_Port :: "bool \<Rightarrow> Gftid_Port \<Rightarrow> char list" where
  "enc_Gftid_Port h gp = enc_int h (gp_gftid gp) @ enc_string h (gp_port gp)"

definition Gftid_Port_ok :: "Gftid_Port \<Rightarrow> bool" where
  "Gftid_Port_ok gp \<longleftrightarrow> int4_ok (gp_gftid gp) \<and> short (gp_port gp)"

interpretation gp: codec Gftid_Port_serialize Gftid_Port_deSerialize enc_Gftid_Port Gftid_Port_ok
proof unfold_locales
  fix x :: Gftid_Port and host e
  assume ok: "Gftid_Port_ok x"
  then show "writes host (Gftid_Port_serialize host x) (enc_Gftid_Port host x)"
    unfolding Gftid_Port_serialize_def [abs_def] enc_Gftid_Port_def Gftid_Port_ok_def
    by (intro writes_bind cint.put_writes str.put_writes) auto
  show "reads e (Gftid_Port_deSerialize host) (enc_Gftid_Port e x) x"
    using ok reads_two [OF cint.get_reads str.get_reads, of "gp_gftid x" "gp_port x" e host host Gftid_Port]
    unfolding Gftid_Port_deSerialize_def [abs_def] enc_Gftid_Port_def Gftid_Port_ok_def by simp
qed

text \<open>A \<open>ResolvedMultiPort\<close> is its vector of remotes.\<close>

type_synonym ResolvedMultiPort = "Gftid_Port list"

definition RMP_add_remote :: "int \<Rightarrow> string \<Rightarrow> ResolvedMultiPort \<Rightarrow> ResolvedMultiPort" where
  "RMP_add_remote remote_gftid remote_port_name remotes = remotes @ [Gftid_Port remote_gftid remote_port_name]"

definition RMP_serialize :: "bool \<Rightarrow> ResolvedMultiPort \<Rightarrow> DCBuffer \<Rightarrow> DCBuffer result" where
  "RMP_serialize host remotes b =
     bind_result (put_int host (int (length remotes)) b) (fold_result (Gftid_Port_serialize host) remotes)"

definition RMP_deSerialize :: "bool \<Rightarrow> DCBuffer \<Rightarrow> (ResolvedMultiPort \<times> DCBuffer) result" where
  "RMP_deSerialize host b =
     bind_result (get_int host b) (\<lambda>(sz, b'). get_seq (Gftid_Port_deSerialize host) (nat sz) b')"

interpretation rmp: codec RMP_serialize RMP_deSerialize "enc_list enc_Gftid_Port" "all_ok Gftid_Port_ok"
proof unfold_locales
  fix x :: ResolvedMultiPort and host e
  assume ok: "all_ok Gftid_Port_ok x"
  show "writes host (RMP_serialize host x) (enc_list enc_Gftid_Port host x)"
    using gp.put_list_writes [OF ok, of host]
    by (simp add: RMP_serialize_def [abs_def] put_list_def [abs_def])
  show "reads e (RMP_deSerialize host) (enc_list enc_Gftid_Port e x) x"
    using gp.get_list_reads [OF ok, of e host]
    by (simp add: RMP_deSerialize_def [abs_def] get_list_def [abs_def])
qed

interpretation str_rmp: codec_pair Append_string Extract_string enc_string short
    RMP_serialize RMP_deSerialize "enc_list enc_Gftid_Port" "all_ok Gftid_Port_ok"
  by unfold_locales

section \<open>Unresolved ports\<close>

text \<open>
  Before gftids are assigned a remote is a pointer to its instance, here the index of the instance
  in the store of the layout, and a port name.
\<close>

type_synonym inst_ref = nat

datatype Instance_Port = Instance_Port (ip_instance: inst_ref) (ip_port: string)

type_synonym MultiPort = "Instance_Port list"

text \<open>The comparisons look at the names of the instances, \<open>name\<close> of a pointer.\<close>

definition Instance_Port_less :: "(inst_ref \<Rightarrow> string) \<Rightarrow> Instance_Port \<Rightarrow> Instance_Port \<Rightarrow> bool" where
  "Instance_Port_less name x y \<longleftrightarrow>
     name (ip_instance x) < name (ip_instance y)
     \<or> (name (ip_instance x) < name (ip_instance y) \<and> ip_port x < ip_port y)"

definition Instance_Port_eq :: "(inst_ref \<Rightarrow> string) \<Rightarrow> Instance_Port \<Rightarrow> Instance_Port \<Rightarrow> bool" where
  "Instance_Port_eq name x y \<longleftrightarrow>
     name (ip_instance x) = name (ip_instance y) \<and> ip_port x = ip_port y"

definition MultiPort_add_remote :: "inst_ref \<Rightarrow> string \<Rightarrow> MultiPort \<Rightarrow> MultiPort" where
  "MultiPort_add_remote remote_filter_instance remote_port_name remotes =
     remotes @ [Instance_Port remote_filter_instance remote_port_name]"

text \<open>The constructor adds its remote only under a port name that is not empty.\<close>

definition MultiPort_new :: "inst_ref option \<Rightarrow> string \<Rightarrow> MultiPort" where
  "MultiPort_new remote_filter_instance remote_port_name =
     (case remote_filter_instance of
        None \<Rightarrow> []
      | Some i \<Rightarrow> if remote_port_name \<noteq> [] then MultiPort_add_remote i remote_port_name [] else [])"

end
