(* ===== verification/FilterInstance.thy ===== *)
theory FilterInstance
  imports Ports StrUtil
begin

text \<open>
  \<open>DCFilterInstance\<close> (\<open>src/src/dcmpi.h\<close>, \<open>src/src/DCFilterInstance.cpp\<close>): a vertex of the filter
  graph with its ports, copies, labels, parameters and placement, the directives of the user's
  program, and the form in which it travels to the hosts that run it.
\<close>

section \<open>State\<close>

record DCFilterInstance =
  heritage :: string
  filtername :: string
  instancename :: string
  outports :: "(string, MultiPort) std_map"
  copy_rank :: int
  num_copies :: int
  local_copy_rank :: int
  local_num_copies :: int
  transparent_copies_expanded :: bool
  bind_hosts :: "string list"
  layout_labels :: "string list list"
  is_inbound_composite_designate :: bool
  is_outbound_composite_designate :: bool
  composite_cluster_binding :: "string list"
  gftid :: int
  resolved_outports :: "(string, ResolvedMultiPort) std_map"
  resolved_inports :: "(string, Gftid_Port std_set) std_map"
  user_params :: "(string, string) std_map"
  user_buffer_params :: "(string, DCBuffer) std_map"
  dcmpi_rank :: int
  given_bind_host :: string
  dcmpi_host :: string
  dcmpi_cluster_rank :: int
  runtime_labels :: "string list"

definition DCFilterInstance_new :: "string \<Rightarrow> string \<Rightarrow> DCFilterInstance" where
  "DCFilterInstance_new fname iname =
     \<lparr>heritage = [], filtername = fname, instancename = iname, outports = [],
      copy_rank = 0, num_copies = 1, local_copy_rank = 0, local_num_copies = 1,
      transparent_copies_expanded = False, bind_hosts = [], layout_labels = [],
      is_inbound_composite_designate = False, is_outbound_composite_designate = False,
      composite_cluster_binding = [], gftid = - 1, resolved_outports = [], resolved_inports = [],
      user_params = [], user_buffer_params = [], dcmpi_rank = - 1, given_bind_host = [],
      dcmpi_host = [], dcmpi_cluster_rank = 0, runtime_labels = []\<rparr>"

text \<open>
  The default constructor, for deserialising, leaves \<open>dcmpi_cluster_rank\<close> uninitialised: its value
  is the argument \<open>junk\<close>.
\<close>

definition DCFilterInstance_default :: "int \<Rightarrow> DCFilterInstance" where
  "DCFilterInstance_default junk = (DCFilterInstance_new [] [])\<lparr>dcmpi_cluster_rank := junk\<rparr>"

section \<open>Directives\<close>

definition get_distinguished_name :: "DCFilterInstance \<Rightarrow> string" where
  "get_distinguished_name fi =
     (let s = heritage fi; s1 = (if s \<noteq> [] then s @ ''___'' else s)
      in s1 @ ''F'' @ filtername fi @ ''_I'' @ instancename fi)"

definition add_label :: "string \<Rightarrow> DCFilterInstance \<Rightarrow> DCFilterInstance result" where
  "add_label label fi =
     (if 2 < num_copies fi then Inl Exit_failure
      else let ll = (if layout_labels fi = [] then [[]] else layout_labels fi)
           in Inr (fi\<lparr>layout_labels := ll[0 := ll ! 0 @ [label]]\<rparr>))"

definition add_labels_to_transparents :: "string list \<Rightarrow> DCFilterInstance \<Rightarrow> DCFilterInstance result" where
  "add_labels_to_transparents labels fi =
     (if num_copies fi < 2 then Inl Exit_failure
      else if int (length labels) \<noteq> num_copies fi then Inl Exit_failure
      else let ll = (if layout_labels fi = [] then replicate (length labels) [] else layout_labels fi)
           in if length ll < length labels then Inl Undefined_behaviour
              else Inr (fi\<lparr>layout_labels :=
                map (\<lambda>u. if u < length labels then ll ! u @ [labels ! u] else ll ! u) [0..<length ll]\<rparr>))"

definition bind_to_host :: "string \<Rightarrow> DCFilterInstance \<Rightarrow> DCFilterInstance result" where
  "bind_to_host host fi = add_label host (fi\<lparr>bind_hosts := [host], num_copies := 1\<rparr>)"

definition bind_to_hosts :: "string list \<Rightarrow> DCFilterInstance \<Rightarrow> DCFilterInstance result" where
  "bind_to_hosts hostnames fi =
     add_labels_to_transparents hostnames
       (fi\<lparr>bind_hosts := hostnames, num_copies := int (length hostnames)\<rparr>)"

definition make_transparent :: "int \<Rightarrow> DCFilterInstance \<Rightarrow> DCFilterInstance result" where
  "make_transparent n fi =
     (if filtername fi = ''<console>'' then Inl Exit_failure
      else if n \<le> 0 then Inl Exit_failure
      else let hosts = bind_hosts fi @ replicate (nat n) []
           in Inr (fi\<lparr>bind_hosts := hosts, num_copies := int (length hosts)\<rparr>))"

definition bind_to_cluster :: "string list \<Rightarrow> DCFilterInstance \<Rightarrow> DCFilterInstance" where
  "bind_to_cluster hosts fi = fi\<lparr>composite_cluster_binding := hosts\<rparr>"

definition designate_as_inbound_for_composite :: "DCFilterInstance \<Rightarrow> DCFilterInstance" where
  "designate_as_inbound_for_composite fi = fi\<lparr>is_inbound_composite_designate := True\<rparr>"

definition designate_as_outbound_for_composite :: "DCFilterInstance \<Rightarrow> DCFilterInstance" where
  "designate_as_outbound_for_composite fi = fi\<lparr>is_outbound_composite_designate := True\<rparr>"

definition fi_add_port :: "string \<Rightarrow> inst_ref \<Rightarrow> string \<Rightarrow> DCFilterInstance \<Rightarrow> DCFilterInstance" where
  "fi_add_port local_port remote remote_port fi =
     (case map_of (outports fi) local_port of
        Some mp \<Rightarrow> fi\<lparr>outports := map_put local_port (MultiPort_add_remote remote remote_port mp) (outports fi)\<rparr>
      | None \<Rightarrow> fi\<lparr>outports := map_put local_port (MultiPort_new (Some remote) remote_port) (outports fi)\<rparr>)"

definition set_param :: "string \<Rightarrow> string \<Rightarrow> DCFilterInstance \<Rightarrow> DCFilterInstance" where
  "set_param key val fi = fi\<lparr>user_params := map_put key val (user_params fi)\<rparr>"

definition has_param :: "string \<Rightarrow> DCFilterInstance \<Rightarrow> bool" where
  "has_param key fi \<longleftrightarrow> map_has key (user_params fi)"

definition get_param :: "string \<Rightarrow> DCFilterInstance \<Rightarrow> string result" where
  "get_param key fi = (case map_of (user_params fi) key of None \<Rightarrow> Inl Exit_failure | Some v \<Rightarrow> Inr v)"

definition set_param_buffer :: "bool \<Rightarrow> string \<Rightarrow> DCBuffer \<Rightarrow> DCFilterInstance \<Rightarrow> DCFilterInstance result" where
  "set_param_buffer host key val fi =
     bind_result (DCBuffer_copy host val) (\<lambda>b.
       Inr (fi\<lparr>user_buffer_params := map_put key b (user_buffer_params fi)\<rparr>))"

section \<open>Serialisation\<close>

definition put_port_set :: "bool \<Rightarrow> Gftid_Port std_set \<Rightarrow> DCBuffer \<Rightarrow> DCBuffer result" where
  "put_port_set = put_list Gftid_Port_serialize"

definition get_port_set :: "bool \<Rightarrow> DCBuffer \<Rightarrow> (Gftid_Port std_set \<times> DCBuffer) result" where
  "get_port_set = get_into set_put Gftid_Port_deSerialize []"

definition run_all :: "(DCBuffer \<Rightarrow> DCBuffer result) list \<Rightarrow> DCBuffer \<Rightarrow> DCBuffer result" where
  "run_all = fold_result (\<lambda>w. w)"

definition serialize :: "bool \<Rightarrow> DCFilterInstance \<Rightarrow> DCBuffer \<Rightarrow> DCBuffer result" where
  "serialize host fi = run_all
     [Append_string host (heritage fi), Append_string host (filtername fi),
      Append_string host (instancename fi),
      put_int host (copy_rank fi), put_int host (num_copies fi),
      put_int host (local_copy_rank fi), put_int host (local_num_copies fi), put_int host (gftid fi),
      put_list (put_pair Append_string RMP_serialize) host (resolved_outports fi),
      put_list (put_pair Append_string put_port_set) host (resolved_inports fi),
      put_list (put_pair Append_string Append_string) host (user_params fi),
      put_list (put_pair Append_string (\<lambda>h b buf.
        bind_result (DCBuffer_copy h b) (\<lambda>c. saveToDCBuffer h c buf))) host (user_buffer_params fi),
      put_int host (dcmpi_rank fi), put_int host (dcmpi_cluster_rank fi),
      Append_string host (dcmpi_host fi), Append_string host (given_bind_host fi),
      put_list Append_string host (runtime_labels fi)]"

text \<open>
  The maps of the instance are not cleared first: the entries read are inserted into them, and the
  labels are appended. \<open>user_buffer_params[s] = b\<close> copies the restored buffer.
\<close>

definition get_buffer_param :: "bool \<Rightarrow> DCBuffer \<Rightarrow> (DCBuffer \<times> DCBuffer) result" where
  "get_buffer_param host b =
     bind_result (restoreFromDCBuffer host (DCBuffer_empty host) b) (\<lambda>(r, b').
       bind_result (DCBuffer_copy host r) (\<lambda>c. Inr (c, b')))"

definition put_entry :: "'k::linorder \<times> 'v \<Rightarrow> ('k, 'v) std_map \<Rightarrow> ('k, 'v) std_map" where
  "put_entry kv = map_put (fst kv) (snd kv)"

definition deSerialize :: "bool \<Rightarrow> DCFilterInstance \<Rightarrow> DCBuffer \<Rightarrow> (DCFilterInstance \<times> DCBuffer) result" where
  "deSerialize host fi b =
     bind_result (Extract_string host b) (\<lambda>(s_heritage, b).
     bind_result (Extract_string host b) (\<lambda>(s_filter, b).
     bind_result (Extract_string host b) (\<lambda>(s_inst, b).
     bind_result (get_int host b) (\<lambda>(i_copy, b).
     bind_result (get_int host b) (\<lambda>(i_num, b).
     bind_result (get_int host b) (\<lambda>(i_lcopy, b).
     bind_result (get_int host b) (\<lambda>(i_lnum, b).
     bind_result (get_int host b) (\<lambda>(i_gftid, b).
     bind_result (get_into put_entry (get_pair Extract_string RMP_deSerialize) (resolved_outports fi) host b) (\<lambda>(outs, b).
     bind_result (get_into put_entry (get_pair Extract_string get_port_set) (resolved_inports fi) host b) (\<lambda>(ins, b).
     bind_result (get_into put_entry (get_pair Extract_string Extract_string) (user_params fi) host b) (\<lambda>(params, b).
     bind_result (get_into put_entry (get_pair Extract_string get_buffer_param) (user_buffer_params fi) host b) (\<lambda>(bparams, b).
     bind_result (get_int host b) (\<lambda>(i_rank, b).
     bind_result (get_int host b) (\<lambda>(i_crank, b).
     bind_result (Extract_string host b) (\<lambda>(s_host, b).
     bind_result (Extract_string host b) (\<lambda>(s_bind, b).
     bind_result (get_list Extract_string host b) (\<lambda>(labels, b).
       Inr (fi\<lparr>heritage := s_heritage, filtername := s_filter, instancename := s_inst,
         copy_rank := i_copy, num_copies := i_num, local_copy_rank := i_lcopy,
         local_num_copies := i_lnum, gftid := i_gftid, resolved_outports := outs,
         resolved_inports := ins, user_params := params, user_buffer_params := bparams,
         dcmpi_rank := i_rank, dcmpi_cluster_rank := i_crank, dcmpi_host := s_host,
         given_bind_host := s_bind, runtime_labels := runtime_labels fi @ labels\<rparr>, b))))))))))))))))))"

section \<open>Lemmas\<close>

lemma writes_all: "list_all2 (writes h) ws bss \<Longrightarrow> writes h (run_all ws) (concat bss)"
proof (induction rule: list_all2_induct)
  case Nil
  then show ?case by (simp add: run_all_def writes_def)
next
  case (Cons w ws bs bss)
  then have "writes h (\<lambda>b. bind_result (w b) (run_all ws)) (bs @ concat bss)"
    by (intro writes_bind)
  then show ?case by (simp add: run_all_def writes_def)
qed

lemma reads_return_eq: "x = y \<Longrightarrow> reads e (\<lambda>b. Inr (x, b)) [] y"
  by (simp add: reads_return)

lemma DCBuffer_copy_restored:
  assumes "buf_wf b"
  shows "DCBuffer_copy h b = Inr (restored (isbigendian b) (used b))"
proof -
  have "short (used b)" using assms used_length [OF assms] by (auto simp: buf_wf_def short_def)
  moreover have "\<not> wSize b < 0" using assms by (auto simp: buf_wf_def)
  ultimately show ?thesis
    using block_read_used [OF assms] wSize_used [OF assms] Set_restored [of "used b"]
    by (simp add: DCBuffer_copy_def)
qed

lemma copy_canonical: "canonical b \<Longrightarrow> DCBuffer_copy h b = Inr b"
  using DCBuffer_copy_restored [OF canonical_wf] by (metis canonical_def)

definition port_set_ok :: "Gftid_Port std_set \<Rightarrow> bool" where
  "port_set_ok s \<longleftrightarrow> all_ok Gftid_Port_ok s \<and> set_wf s"

interpretation portset: codec put_port_set get_port_set "enc_list enc_Gftid_Port" port_set_ok
proof unfold_locales
  fix s :: "Gftid_Port std_set" and host e
  assume s: "port_set_ok s"
  then show "writes host (put_port_set host s) (enc_list enc_Gftid_Port host s)"
    by (simp add: put_port_set_def port_set_ok_def gp.put_list_writes)
  have "fold set_put s [] = s" using s by (intro sset.rebuild) (simp add: port_set_ok_def)
  then show "reads e (get_port_set host) (enc_list enc_Gftid_Port e s) s"
    using gp.get_into_reads [of s e set_put "[]" host] s by (simp add: get_port_set_def port_set_ok_def)
qed

interpretation bufparam: codec "\<lambda>h b buf. bind_result (DCBuffer_copy h b) (\<lambda>c. saveToDCBuffer h c buf)"
    get_buffer_param enc_DCBuffer canonical
proof unfold_locales
  fix x :: DCBuffer and host e
  assume x: "canonical x"
  then show "writes host (\<lambda>buf. bind_result (DCBuffer_copy host x) (\<lambda>c. saveToDCBuffer host c buf))
      (enc_DCBuffer host x)"
    using dcbuffer.put_writes [OF x, of host] by (simp add: copy_canonical)
  show "reads e (get_buffer_param host) (enc_DCBuffer e x) x"
    unfolding reads_def get_buffer_param_def
  proof (intro allI impI, elim conjE)
    fix b rest
    assume "buf_wf b" "isbigendian b = e" "unread b = enc_DCBuffer e x @ rest"
    from readsD [OF dcbuffer.get_reads [OF x] this] obtain b' where
      "restoreFromDCBuffer host (DCBuffer_empty host) b = Inr (x, b')" "buf_wf b'"
      "isbigendian b' = e" "unread b' = rest" "used b' = used b" by blast
    then show "\<exists>b'. bind_result (restoreFromDCBuffer host (DCBuffer_empty host) b)
        (\<lambda>(r, b'). bind_result (DCBuffer_copy host r) (\<lambda>c. Inr (c, b'))) = Inr (x, b')
        \<and> buf_wf b' \<and> isbigendian b' = e \<and> unread b' = rest \<and> used b' = used b"
      using copy_canonical [OF x] by simp
  qed
qed

interpretation str_portset: codec_pair Append_string Extract_string enc_string short
    put_port_set get_port_set "enc_list enc_Gftid_Port" port_set_ok
  by unfold_locales

interpretation str_bufparam: codec_pair Append_string Extract_string enc_string short
    "\<lambda>h b buf. bind_result (DCBuffer_copy h b) (\<lambda>c. saveToDCBuffer h c buf)"
    get_buffer_param enc_DCBuffer canonical
  by unfold_locales

definition map_ok :: "('k::linorder \<Rightarrow> bool) \<Rightarrow> ('v \<Rightarrow> bool) \<Rightarrow> ('k, 'v) std_map \<Rightarrow> bool" where
  "map_ok okk okv m \<longleftrightarrow> all_ok (pair_ok okk okv) m \<and> map_wf m"

lemma rebuild_map: "map_wf m \<Longrightarrow> fold put_entry m [] = m"
  using smap.rebuild [of m] by (simp add: put_entry_def [abs_def] case_prod_unfold)

context codec_pair begin

lemma map_reads:
  fixes m :: "('a \<times> 'b) list"
  assumes "all_ok (pair_ok okk okv) m" and "fold ins m n = m"
  shows "reads e (get_into ins (get_pair getk getv) n h) (enc_list (enc_pair enck encv) e m) m"
  using pair.get_into_reads [OF assms(1), of e ins n h] assms(2) by simp

end

text \<open>What of an instance fits the wire format, and what of it travels.\<close>

definition sendable :: "DCFilterInstance \<Rightarrow> bool" where
  "sendable fi \<longleftrightarrow> list_all short [heritage fi, filtername fi, instancename fi, dcmpi_host fi, given_bind_host fi]
     \<and> list_all int4_ok [copy_rank fi, num_copies fi, local_copy_rank fi, local_num_copies fi, gftid fi,
         dcmpi_rank fi, dcmpi_cluster_rank fi]
     \<and> map_ok short (all_ok Gftid_Port_ok) (resolved_outports fi)
     \<and> map_ok short port_set_ok (resolved_inports fi)
     \<and> map_ok short short (user_params fi) \<and> map_ok short canonical (user_buffer_params fi)
     \<and> all_ok short (runtime_labels fi)"

definition travelled :: "DCFilterInstance \<Rightarrow> DCFilterInstance" where
  "travelled fi = fi\<lparr>outports := [], transparent_copies_expanded := False, bind_hosts := [],
     layout_labels := [], is_inbound_composite_designate := False,
     is_outbound_composite_designate := False, composite_cluster_binding := []\<rparr>"

definition enc_instance :: "bool \<Rightarrow> DCFilterInstance \<Rightarrow> char list" where
  "enc_instance h fi = concat
     [enc_string h (heritage fi), enc_string h (filtername fi), enc_string h (instancename fi),
      enc_int h (copy_rank fi), enc_int h (num_copies fi), enc_int h (local_copy_rank fi),
      enc_int h (local_num_copies fi), enc_int h (gftid fi),
      enc_list (enc_pair enc_string (enc_list enc_Gftid_Port)) h (resolved_outports fi),
      enc_list (enc_pair enc_string (enc_list enc_Gftid_Port)) h (resolved_inports fi),
      enc_list (enc_pair enc_string enc_string) h (user_params fi),
      enc_list (enc_pair enc_string enc_DCBuffer) h (user_buffer_params fi),
      enc_int h (dcmpi_rank fi), enc_int h (dcmpi_cluster_rank fi),
      enc_string h (dcmpi_host fi), enc_string h (given_bind_host fi),
      enc_list enc_string h (runtime_labels fi)]"

lemma writes_serialize:
  assumes "sendable fi"
  shows "writes h (serialize h fi) (enc_instance h fi)"
  unfolding serialize_def enc_instance_def
  by (intro writes_all list_all2_Nil [THEN iffD2, OF refl] list_all2_Cons [THEN iffD2] conjI
      str.put_writes cint.put_writes str.put_list_writes str_rmp.pair.put_list_writes
      str_portset.pair.put_list_writes str_str.pair.put_list_writes str_bufparam.pair.put_list_writes)
    (use assms in \<open>auto simp: sendable_def map_ok_def\<close>)

lemma reads_deSerialize:
  assumes "sendable fi"
  shows "reads e (deSerialize h (DCFilterInstance_default junk)) (enc_instance e fi) (travelled fi)"
proof -
  from assms have m: "fold put_entry (resolved_outports fi) [] = resolved_outports fi"
    "fold put_entry (resolved_inports fi) [] = resolved_inports fi"
    "fold put_entry (user_params fi) [] = user_params fi"
    "fold put_entry (user_buffer_params fi) [] = user_buffer_params fi"
    by (auto simp: sendable_def map_ok_def intro: rebuild_map)
  have empty: "resolved_outports (DCFilterInstance_default junk) = []"
    "resolved_inports (DCFilterInstance_default junk) = []" "user_params (DCFilterInstance_default junk) = []"
    "user_buffer_params (DCFilterInstance_default junk) = []"
    by (simp_all add: DCFilterInstance_default_def DCFilterInstance_new_def)
  show ?thesis
    unfolding deSerialize_def [abs_def] enc_instance_def concat.simps empty
    apply (rule reads_bind, rule str.get_reads, use assms in \<open>simp add: sendable_def\<close>)+
    apply (rule reads_bind, rule cint.get_reads, use assms in \<open>simp add: sendable_def\<close>)+
    apply (rule reads_bind, rule str_rmp.map_reads [OF _ m(1)], use assms in \<open>simp add: sendable_def map_ok_def\<close>)
    apply (rule reads_bind, rule str_portset.map_reads [OF _ m(2)], use assms in \<open>simp add: sendable_def map_ok_def\<close>)
    apply (rule reads_bind, rule str_str.map_reads [OF _ m(3)], use assms in \<open>simp add: sendable_def map_ok_def\<close>)
    apply (rule reads_bind, rule str_bufparam.map_reads [OF _ m(4)], use assms in \<open>simp add: sendable_def map_ok_def\<close>)
    apply (rule reads_bind, rule cint.get_reads, use assms in \<open>simp add: sendable_def\<close>)+
    apply (rule reads_bind, rule str.get_reads, use assms in \<open>simp add: sendable_def\<close>)+
    apply (rule reads_bind, rule str.get_list_reads, use assms in \<open>simp add: sendable_def\<close>)
    apply (rule reads_return_eq)
    apply (simp add: travelled_def DCFilterInstance_default_def DCFilterInstance_new_def)
    done
qed

section \<open>Properties\<close>

text \<open>
  C30. Filter instances serialised one after the other into a buffer on one host come back on any
  other, whatever the byte orders: names, copy numbers, resolved ports, parameters, parameter
  buffers, placement and labels of each instance are what they were, the fields that
  are local to the console process are those of a fresh instance, and nothing is left over.
\<close>

theorem instances_roundtrip:
  assumes "list_all sendable fis"
    and "2 * length (concat (map (enc_instance h) fis)) < 2 ^ 31"
  shows "\<exists>b b'. fold_result (serialize h) fis (DCBuffer_empty h) = Inr b
    \<and> get_seq (deSerialize h' (DCFilterInstance_default junk)) (length fis) b = Inr (map travelled fis, b')
    \<and> unread b' = []"
proof -
  have w: "writes h (fold_result (serialize h) fis) (concat (map (enc_instance h) fis))"
    using assms(1) by (intro writes_seq writes_serialize) (auto simp: list_all_iff)
  have r: "reads h (get_seq (deSerialize h' (DCFilterInstance_default junk)) (length fis))
      (concat (map (enc_instance h) fis)) (map travelled fis)"
    using assms(1) by (intro reads_seq reads_deSerialize) (auto simp: list_all_iff)
  from written_then_read [OF w r assms(2)] show ?thesis by blast
qed

theorem instances_roundtrip_witness:
  "\<exists>b b'. fold_result (serialize True) [set_param ''k'' ''v'' (DCFilterInstance_new ''F'' ''i'')]
      (DCBuffer_empty True) = Inr b
    \<and> get_seq (deSerialize False (DCFilterInstance_default 5)) 1 b
        = Inr ([set_param ''k'' ''v'' (DCFilterInstance_new ''F'' ''i'')], b')"
proof -
  let ?fi = "set_param ''k'' ''v'' (DCFilterInstance_new ''F'' ''i'')"
  have ok: "list_all sendable [?fi]"
    by (simp add: sendable_def set_param_def DCFilterInstance_new_def short_def int4_ok_def map_ok_def
        all_ok_def pair_ok_def map_wf_Cons)
  have "2 * length (concat (map (enc_instance True) [?fi])) < 2 ^ 31"
    by (simp add: enc_instance_def enc_string_def enc_int_def enc_list_def enc_pair_def set_param_def
        DCFilterInstance_new_def)
  from instances_roundtrip [OF ok this, of False 5]
  have "\<exists>b b'. fold_result (serialize True) [?fi] (DCBuffer_empty True) = Inr b
    \<and> get_seq (deSerialize False (DCFilterInstance_default 5)) 1 b = Inr ([travelled ?fi], b')"
    by (auto simp del: fold_result.simps get_seq.simps)
  moreover have "travelled ?fi = ?fi"
    by (simp add: travelled_def set_param_def DCFilterInstance_new_def)
  ultimately show ?thesis by (simp only:)
qed

text \<open>
  Binding an unlabelled instance to a list of hosts makes one copy per host, each labelled with its
  host; a list of fewer than two hosts is refused with the error exit.
\<close>

theorem bind_to_hosts_labels:
  assumes "layout_labels fi = []"
  shows "bind_to_hosts hosts fi =
    (if length hosts < 2 then Inl Exit_failure
     else Inr (fi\<lparr>bind_hosts := hosts, num_copies := int (length hosts),
       layout_labels := map (\<lambda>h. [h]) hosts\<rparr>))"
proof (cases "length hosts < 2")
  case True
  then show ?thesis by (simp add: bind_to_hosts_def add_labels_to_transparents_def)
next
  case False
  have "map (\<lambda>u. if u < length hosts then replicate (length hosts) [] ! u @ [hosts ! u]
      else replicate (length hosts) [] ! u) [0..<length (replicate (length hosts) [])] = map (\<lambda>h. [h]) hosts"
    by (rule nth_equalityI) auto
  with False assms show ?thesis
    by (simp add: bind_to_hosts_def add_labels_to_transparents_def Let_def)
qed

theorem bind_to_hosts_labels_witness:
  "map_sum id layout_labels (bind_to_hosts [''a'', ''b''] (DCFilterInstance_new ''F'' ''i''))
     = Inr [[''a''], [''b'']]"
  using bind_to_hosts_labels [of "DCFilterInstance_new ''F'' ''i''" "[''a'', ''b'']"]
  by (simp add: DCFilterInstance_new_def)

end
