(* ===== verification/MemUsage.thy ===== *)
theory MemUsage
  imports Prelude "HOL-Library.Multiset"
begin

text \<open>
  \<open>MemUsage\<close> (\<open>src/src/MemUsage.h\<close>, \<open>src/src/MemUsage.cpp\<close>): the budget of bytes that a filter, or
  the runtime, may hold in buffers on their way. The methods are functions on the counter; how
  blocked writers sleep on the condition variable and are woken is a step relation.
\<close>

section \<open>State and methods\<close>

record MemUsage =
  memory_threshold :: int
  current_usage :: int

definition int8_ok :: "int \<Rightarrow> bool" where
  "int8_ok i \<longleftrightarrow> - (2 ^ 63) \<le> i \<and> i < 2 ^ 63"

definition MemUsage_new :: "int \<Rightarrow> MemUsage" where
  "MemUsage_new max_bytes = \<lparr>memory_threshold = max_bytes, current_usage = 0\<rparr>"

text \<open>\<open>None\<close>: the caller waits. A request above the threshold could never be met and exits.\<close>

definition accumulate :: "int \<Rightarrow> MemUsage \<Rightarrow> MemUsage result option" where
  "accumulate bytes m =
     (if memory_threshold m < bytes then Some (Inl Exit_failure)
      else if \<not> int8_ok (current_usage m + bytes) then Some (Inl Undefined_behaviour)
      else if memory_threshold m < current_usage m + bytes then None
      else Some (Inr (m\<lparr>current_usage := current_usage m + bytes\<rparr>)))"

definition reduce :: "int \<Rightarrow> MemUsage \<Rightarrow> MemUsage result" where
  "reduce bytes m =
     (let usage = current_usage m - bytes
      in if \<not> int8_ok usage then Inl Undefined_behaviour
         else if 0 \<le> usage then Inr (m\<lparr>current_usage := usage\<rparr>) else Inl Assert_failure)"

definition accumulate_if_not_exceeding_limit :: "int \<Rightarrow> MemUsage \<Rightarrow> (bool \<times> MemUsage) result" where
  "accumulate_if_not_exceeding_limit bytes m =
     (if \<not> int8_ok (current_usage m + bytes) then Inl Undefined_behaviour
      else if memory_threshold m < current_usage m + bytes then Inr (False, m)
      else Inr (True, m\<lparr>current_usage := current_usage m + bytes\<rparr>))"

text \<open>
  How the memory for write buffers is divided among the local filters, the runtime and, on the
  host of the console, the two console areas; no share is below 32 MB.
\<close>

definition amount_per_memusage :: "int \<Rightarrow> nat \<Rightarrow> bool \<Rightarrow> int \<Rightarrow> int" where
  "amount_per_memusage user_specified_memory executors handles_console local_consoles =
     (let entities = int executors + 1 + (if handles_console \<and> local_consoles \<noteq> 0 then 2 else 0)
      in max (user_specified_memory div entities) (32 * 1024 * 1024))"

section \<open>Waiting\<close>

text \<open>
  The requests of the threads that sleep in \<open>cond.wait()\<close> and of those that have been woken and
  will test the loop condition again. \<open>reduce\<close> wakes all sleepers.
\<close>

record mem_monitor =
  budget :: MemUsage
  asleep :: "int multiset"
  awake :: "int multiset"

datatype mem_event = Acquired int | Released int | Quiet

inductive mem_step :: "mem_monitor \<Rightarrow> mem_event \<Rightarrow> mem_monitor \<Rightarrow> bool" where
  accumulate_now: "0 \<le> b \<Longrightarrow> accumulate b (budget s) = Some (Inr m) \<Longrightarrow> mem_step s (Acquired b) (s\<lparr>budget := m\<rparr>)"
| accumulate_wait: "0 \<le> b \<Longrightarrow> accumulate b (budget s) = None \<Longrightarrow>
    mem_step s Quiet (s\<lparr>asleep := add_mset b (asleep s)\<rparr>)"
| retry_now: "b \<in># awake s \<Longrightarrow> accumulate b (budget s) = Some (Inr m) \<Longrightarrow>
    mem_step s (Acquired b) (s\<lparr>budget := m, awake := awake s - {#b#}\<rparr>)"
| retry_wait: "b \<in># awake s \<Longrightarrow> accumulate b (budget s) = None \<Longrightarrow>
    mem_step s Quiet (s\<lparr>asleep := add_mset b (asleep s), awake := awake s - {#b#}\<rparr>)"
| try_now: "0 \<le> b \<Longrightarrow> accumulate_if_not_exceeding_limit b (budget s) = Inr (True, m) \<Longrightarrow>
    mem_step s (Acquired b) (s\<lparr>budget := m\<rparr>)"
| try_fails: "accumulate_if_not_exceeding_limit b (budget s) = Inr (False, m) \<Longrightarrow> mem_step s Quiet s"
| release: "0 \<le> b \<Longrightarrow> reduce b (budget s) = Inr m \<Longrightarrow>
    mem_step s (Released b) (s\<lparr>budget := m, asleep := {#}, awake := awake s + asleep s\<rparr>)"
| spurious: "b \<in># asleep s \<Longrightarrow>
    mem_step s Quiet (s\<lparr>asleep := asleep s - {#b#}, awake := add_mset b (awake s)\<rparr>)"

inductive mem_run :: "mem_monitor \<Rightarrow> mem_event list \<Rightarrow> mem_monitor \<Rightarrow> bool" where
  start: "mem_run s [] s"
| step: "mem_run s es s1 \<Longrightarrow> mem_step s1 e s2 \<Longrightarrow> mem_run s (es @ [e]) s2"

definition mem_start :: "int \<Rightarrow> mem_monitor" where
  "mem_start limit = \<lparr>budget = MemUsage_new limit, asleep = {#}, awake = {#}\<rparr>"

definition balance :: "mem_event list \<Rightarrow> int" where
  "balance es = (\<Sum>e\<leftarrow>es. case e of Acquired b \<Rightarrow> b | Released b \<Rightarrow> - b | Quiet \<Rightarrow> 0)"

definition mem_inv :: "int \<Rightarrow> mem_monitor \<Rightarrow> bool" where
  "mem_inv limit s \<longleftrightarrow> memory_threshold (budget s) = limit
     \<and> 0 \<le> current_usage (budget s) \<and> current_usage (budget s) \<le> limit
     \<and> (\<forall>b. b \<in># asleep s \<longrightarrow> 0 \<le> b \<and> b \<le> limit \<and> limit < current_usage (budget s) + b)
     \<and> (\<forall>b. b \<in># awake s \<longrightarrow> 0 \<le> b \<and> b \<le> limit)"

lemmas mem_defs = accumulate_def reduce_def accumulate_if_not_exceeding_limit_def Let_def

lemma mem_step_inv: "mem_step s e s' \<Longrightarrow> mem_inv limit s \<Longrightarrow> mem_inv limit s'"
proof (induction rule: mem_step.induct)
  case (accumulate_now b s m)
  then show ?case by (fastforce simp: mem_inv_def mem_defs split: if_splits)
next
  case (retry_now b s m)
  then show ?case by (fastforce simp: mem_inv_def mem_defs dest: in_diffD split: if_splits)
next
  case (release b s m)
  then show ?case by (fastforce simp: mem_inv_def mem_defs split: if_splits)
next
  case (try_now b s m)
  then show ?case by (fastforce simp: mem_inv_def mem_defs split: if_splits)
qed (auto simp: mem_inv_def mem_defs dest: in_diffD split: if_splits)

lemma mem_step_balance:
  "mem_step s e s' \<Longrightarrow> current_usage (budget s') = current_usage (budget s) + balance [e]"
  by (induction rule: mem_step.induct) (auto simp: mem_defs balance_def split: if_splits)

section \<open>Properties\<close>

text \<open>
  C32. However writers and readers interleave, the usage of a budget is exactly what was acquired
  and not yet released, it stays between zero and the threshold, and no thread
  sleeps on a request that would fit; in particular nobody sleeps once everything has been
  released, and a request that may sleep at all is one that fits an idle budget.
\<close>

theorem memory_budget:
  assumes "mem_run (mem_start limit) es s" and "0 \<le> limit"
  shows "current_usage (budget s) = balance es \<and> 0 \<le> balance es \<and> balance es \<le> limit
    \<and> (\<forall>b. b \<in># asleep s \<longrightarrow> b \<le> limit \<and> limit < balance es + b)
    \<and> (balance es = 0 \<longrightarrow> asleep s = {#})"
proof -
  have "current_usage (budget s) = balance es \<and> mem_inv limit s" if "mem_run s0 es s" "s0 = mem_start limit" for s0
    using that
  proof (induction rule: mem_run.induct)
    case (start s)
    then show ?case using assms(2) by (simp add: mem_start_def MemUsage_new_def mem_inv_def balance_def)
  next
    case (step s es s1 e s2)
    then show ?case
      using mem_step_inv [of s1 e s2 limit] mem_step_balance [of s1 e s2] by (simp add: balance_def)
  qed
  with assms(1) have inv: "current_usage (budget s) = balance es" "mem_inv limit s" by auto
  have "asleep s = {#}" if "balance es = 0"
  proof (rule ccontr)
    assume "asleep s \<noteq> {#}"
    then obtain b where "b \<in># asleep s" by (rule multiset_nonemptyE)
    with inv that show False by (auto simp: mem_inv_def)
  qed
  with inv show ?thesis by (auto simp: mem_inv_def)
qed

theorem memory_budget_witness:
  "\<exists>s. mem_run (mem_start 10) [Acquired 6, Quiet, Released 6, Acquired 7] s \<and> current_usage (budget s) = 7"
proof -
  let ?s1 = "\<lparr>budget = \<lparr>memory_threshold = 10, current_usage = 6\<rparr>, asleep = {#}, awake = {#}\<rparr>"
  let ?s2 = "?s1\<lparr>asleep := {#7#}\<rparr>"
  let ?s3 = "\<lparr>budget = \<lparr>memory_threshold = 10, current_usage = 0\<rparr>, asleep = {#}, awake = {#7#}\<rparr>"
  let ?s4 = "\<lparr>budget = \<lparr>memory_threshold = 10, current_usage = 7\<rparr>, asleep = {#}, awake = {#}\<rparr>"
  have "mem_step (mem_start 10) (Acquired 6) ?s1" "mem_step ?s1 Quiet ?s2"
    "mem_step ?s2 (Released 6) ?s3" "mem_step ?s3 (Acquired 7) ?s4"
    using accumulate_now [of 6 "mem_start 10"] accumulate_wait [of 7 ?s1] release [of 6 ?s2] retry_now [of 7 ?s3]
    by (simp_all add: mem_start_def MemUsage_new_def mem_defs int8_ok_def)
  then have "mem_run (mem_start 10) (((([] @ [Acquired 6]) @ [Quiet]) @ [Released 6]) @ [Acquired 7]) ?s4"
    by (blast intro: mem_run.intros)
  then have run: "mem_run (mem_start 10) [Acquired 6, Quiet, Released 6, Acquired 7] ?s4" by simp
  from memory_budget [OF run] run show ?thesis by (intro exI [of _ ?s4]) (simp add: balance_def)
qed

end
