(* ===== verification/Outport.thy ===== *)
theory Outport
  imports FilterInstance Packet Queues
begin

text \<open>
  Out-ports: the queue writers (\<open>src/src/QueueWriter.h\<close>, \<open>src/src/QueueWriter.cpp\<close>,
  \<open>src/src/Buffer_MUID.h\<close>) and the choice of the target of a write by label, by ticket or by
  policy (\<open>src/src/MultiOutportManager.h\<close>, \<open>src/src/MultiOutportManager.cpp\<close>).
\<close>

section \<open>Queue writers\<close>

text \<open>
  A buffer with the id of the memory budget it was charged to. NULL with id -1 is what the
  non-blocking reads return for nothing.
\<close>

record Buffer_MUID =
  buffer :: "DCBuffer option"
  muid :: int

definition Buffer_MUID_none :: Buffer_MUID where
  "Buffer_MUID_none = \<lparr>buffer = None, muid = - 1\<rparr>"

text \<open>
  The queues that writers point to: the in-port of a local filter, and the three outgoing queues
  of packets of the process.
\<close>

datatype out_queue = Single_mpi_outqueue | Mpi_to_console_queue | Mpi_to_proxy_queue | Console_to_mpi_queue

datatype QueueWriter =
    LocalQueueWriter (lq_gftid: int) (lq_port: string) (local_MUID: int) (remote_instance: DCFilterInstance)
  | RemoteQueueWriter (rq_addr: DCMPIPacketAddress) (rq_queue: out_queue) (remote_instance: DCFilterInstance)

record queues =
  in_queues :: "int \<times> string \<rightharpoonup> Buffer_MUID Queue"
  out_queues :: "out_queue \<Rightarrow> DCMPIPacket Queue"

text \<open>\<open>feed\<close> and \<open>remove_putter\<close>; a local writer's queue pointer dangles if the port is unknown.\<close>

definition feed :: "QueueWriter \<Rightarrow> DCBuffer \<Rightarrow> queues \<Rightarrow> queues result" where
  "feed w buf qs =
     (case w of
        LocalQueueWriter g port m _ \<Rightarrow>
          (case in_queues qs (g, port) of
             None \<Rightarrow> Inl Undefined_behaviour
           | Some iq \<Rightarrow> Inr (qs\<lparr>in_queues := (in_queues qs)((g, port) \<mapsto>
               Queue_put \<lparr>buffer = Some buf, muid = m\<rparr> iq)\<rparr>))
      | RemoteQueueWriter addr oq _ \<Rightarrow>
          Inr (qs\<lparr>out_queues := (out_queues qs)(oq := Queue_put
            (DCMPIPacket_new addr DCMPI_PACKET_TYPE_DCBUF (word_of_int (wSize buf)) (Some buf))
            (out_queues qs oq))\<rparr>))"

definition writer_remove_putter :: "QueueWriter \<Rightarrow> int \<Rightarrow> queues \<Rightarrow> queues result" where
  "writer_remove_putter w g qs =
     (case w of
        LocalQueueWriter lg port _ _ \<Rightarrow>
          (case in_queues qs (lg, port) of
             None \<Rightarrow> Inl Undefined_behaviour
           | Some iq \<Rightarrow> Inr (qs\<lparr>in_queues := (in_queues qs)((lg, port) \<mapsto> remove_putter g iq)\<rparr>))
      | RemoteQueueWriter addr oq _ \<Rightarrow>
          if g \<noteq> sint (from_gftid addr) then Inl Assert_failure
          else Inr (qs\<lparr>out_queues := (out_queues qs)(oq := Queue_put
            (DCMPIPacket_new addr DCMPI_PACKET_TYPE_REMOVE_PUTTER 0 None) (out_queues qs oq))\<rparr>))"

section \<open>Choosing the target\<close>

definition ROUND_ROBIN :: int where "ROUND_ROBIN = 0"
definition RANDOM :: int where "RANDOM = 1"

text \<open>
  An iterator into the set of a label is its index in the set, so \<open>end()\<close> is the size of the
  set.
\<close>

record MultiOutportManager =
  policy :: int
  rr_nextvictim :: nat
  last_chosen_target :: int
  targets :: "QueueWriter list"
  num_targets :: nat
  label_to_targets :: "(string, nat std_set) std_map"
  label_to_targets_pos :: "(string, nat) std_map"

definition MultiOutportManager_new :: "int \<Rightarrow> MultiOutportManager" where
  "MultiOutportManager_new pol = \<lparr>policy = pol, rr_nextvictim = 0, last_chosen_target = - 1,
     targets = [], num_targets = 0, label_to_targets = [], label_to_targets_pos = []\<rparr>"

definition add_target :: "QueueWriter \<Rightarrow> MultiOutportManager \<Rightarrow> MultiOutportManager" where
  "add_target t m = m\<lparr>targets := targets m @ [t], num_targets := num_targets m + 1\<rparr>"

text \<open>
  \<open>note_final_target\<close>: \<open>std::random_shuffle\<close> arranges the targets in an order of the standard
  library's choosing, the permutation \<open>shuffle\<close> of the model; then every label of a target is
  mapped to the set of the targets that carry it.
\<close>

definition note_label :: "nat \<Rightarrow> string \<Rightarrow> (string, nat std_set) std_map \<Rightarrow> (string, nat std_set) std_map" where
  "note_label i l ltt =
     (let ltt' = (if map_has l ltt then ltt else map_put l [] ltt)
      in map_put l (set_put i (map_get_def l [] ltt')) ltt')"

definition note_target :: "QueueWriter list \<Rightarrow> nat \<Rightarrow> (string, nat std_set) std_map \<Rightarrow> (string, nat std_set) std_map" where
  "note_target ts i ltt = fold (note_label i) (runtime_labels (remote_instance (ts ! i))) ltt"

definition note_final_target :: "(QueueWriter list \<Rightarrow> QueueWriter list) \<Rightarrow> MultiOutportManager \<Rightarrow> MultiOutportManager" where
  "note_final_target shuffle m =
     (let ts = shuffle (targets m);
          ltt = fold (note_target ts) [0..<num_targets m] (label_to_targets m)
      in m\<lparr>targets := ts, label_to_targets := ltt,
           label_to_targets_pos := fold (\<lambda>(l, _). map_put l 0) ltt (label_to_targets_pos m)\<rparr>)"

text \<open>
  \<open>select_target(label, port_ticket)\<close>: the chosen target and the updated manager. \<open>rand\<close> is what
  \<open>dcmpi_rand()\<close> returns. An unknown policy or label fails its \<open>assert\<close>, an invalid ticket exits.
\<close>

definition choose_by_policy :: "nat \<Rightarrow> MultiOutportManager \<Rightarrow> MultiOutportManager result" where
  "choose_by_policy rand m =
     (if num_targets m = 1 then Inr (m\<lparr>last_chosen_target := 0\<rparr>)
      else if policy m = ROUND_ROBIN then
        (let next' = rr_nextvictim m + 1
         in Inr (m\<lparr>last_chosen_target := int (rr_nextvictim m),
                   rr_nextvictim := (if next' = num_targets m then 0 else next')\<rparr>))
      else if policy m = RANDOM then
        (if num_targets m = 0 then Inl Undefined_behaviour
         else Inr (m\<lparr>last_chosen_target := int (rand mod num_targets m)\<rparr>))
      else Inl Assert_failure)"

definition choose_by_label :: "string \<Rightarrow> MultiOutportManager \<Rightarrow> MultiOutportManager result" where
  "choose_by_label label m =
     (case map_of (label_to_targets m) label of
        None \<Rightarrow> Inl Assert_failure
      | Some is \<Rightarrow>
          let pos = map_get_def label 0 (label_to_targets_pos m)
          in if pos < length is
             then Inr (m\<lparr>last_chosen_target := int (is ! pos),
               label_to_targets_pos := map_put label
                 (if pos + 1 = length is then 0 else pos + 1) (label_to_targets_pos m)\<rparr>)
             else Inl Undefined_behaviour)"

definition select_target :: "string \<Rightarrow> int \<Rightarrow> nat \<Rightarrow> MultiOutportManager \<Rightarrow> (QueueWriter \<times> MultiOutportManager) result" where
  "select_target label port_ticket rand m =
     bind_result
       (if label \<noteq> [] then choose_by_label label m
        else if port_ticket \<noteq> - 1 then
          (if port_ticket < 0 \<or> int (length (targets m)) \<le> port_ticket then Inl Exit_failure
           else Inr (m\<lparr>last_chosen_target := port_ticket\<rparr>))
        else choose_by_policy rand m)
       (\<lambda>m'. let i = last_chosen_target m'
             in if 0 \<le> i \<and> i < int (length (targets m')) then Inr (targets m' ! nat i, m')
                else Inl Undefined_behaviour)"

definition get_labels :: "MultiOutportManager \<Rightarrow> (string, DCFilterInstance list) std_map result" where
  "get_labels m =
     (if list_all (\<lambda>(l, is). list_all (\<lambda>i. i < length (targets m)) is) (label_to_targets m)
      then Inr (map (\<lambda>(l, is). (l, map (\<lambda>i. remote_instance (targets m ! i)) is))
        (filter (\<lambda>(l, is). is \<noteq> []) (label_to_targets m)))
      else Inl Undefined_behaviour)"

text \<open>A run of writes with the same arguments.\<close>

fun select_run :: "nat \<Rightarrow> string \<Rightarrow> int \<Rightarrow> (nat \<Rightarrow> nat) \<Rightarrow> MultiOutportManager \<Rightarrow>
    (int list \<times> MultiOutportManager) result" where
  "select_run 0 label ticket rand m = Inr ([], m)"
| "select_run (Suc n) label ticket rand m =
     bind_result (select_target label ticket (rand n) m) (\<lambda>(_, m1).
       bind_result (select_run n label ticket rand m1) (\<lambda>(is, m2).
         Inr (last_chosen_target m1 # is, m2)))"

section \<open>Lemmas\<close>

subsection \<open>Round robin\<close>

definition outport_wf :: "MultiOutportManager \<Rightarrow> bool" where
  "outport_wf m \<longleftrightarrow> num_targets m = length (targets m) \<and> (0 < num_targets m \<longrightarrow> rr_nextvictim m < num_targets m)"

lemma select_round_robin:
  assumes "outport_wf m" and "0 < num_targets m" and "policy m = ROUND_ROBIN"
    and "num_targets m = 1 \<longrightarrow> rr_nextvictim m = 0"
  shows "select_target [] (- 1) rand m = Inr (targets m ! rr_nextvictim m,
    m\<lparr>last_chosen_target := int (rr_nextvictim m),
      rr_nextvictim := (rr_nextvictim m + 1) mod num_targets m\<rparr>)"
proof -
  have "(rr_nextvictim m + 1) mod num_targets m
      = (if rr_nextvictim m + 1 = num_targets m then 0 else rr_nextvictim m + 1)"
    using assms(1,2) by (auto simp: outport_wf_def)
  with assms show ?thesis
    by (auto simp: select_target_def choose_by_policy_def outport_wf_def Let_def)
qed

lemma run_round_robin:
  "outport_wf m \<Longrightarrow> 0 < num_targets m \<Longrightarrow> policy m = ROUND_ROBIN \<Longrightarrow>
   \<exists>m'. select_run n [] (- 1) rand m
     = Inr (map (\<lambda>i. int ((rr_nextvictim m + i) mod num_targets m)) [0..<n], m')"
proof (induction n arbitrary: m)
  case 0
  then show ?case by simp
next
  case (Suc n)
  let ?m = "m\<lparr>last_chosen_target := int (rr_nextvictim m),
      rr_nextvictim := (rr_nextvictim m + 1) mod num_targets m\<rparr>"
  have "select_target [] (- 1) (rand n) m = Inr (targets m ! rr_nextvictim m, ?m)"
    using Suc.prems by (intro select_round_robin) (auto simp: outport_wf_def)
  moreover obtain m' where "select_run n [] (- 1) rand ?m
      = Inr (map (\<lambda>i. int ((rr_nextvictim ?m + i) mod num_targets ?m)) [0..<n], m')"
    using Suc.IH [of ?m] Suc.prems by (auto simp: outport_wf_def)
  moreover have "map (\<lambda>i. int ((rr_nextvictim m + i) mod num_targets m)) [0..<Suc n]
      = int (rr_nextvictim m mod num_targets m)
        # map (\<lambda>i. int ((rr_nextvictim m + Suc i) mod num_targets m)) [0..<n]"
    by (simp only: upt_conv_Cons zero_less_Suc list.map map_Suc_upt [symmetric] map_map comp_def add_0_right)
  moreover have "rr_nextvictim m mod num_targets m = rr_nextvictim m"
    using Suc.prems by (simp add: outport_wf_def)
  moreover have "((rr_nextvictim m + 1) mod num_targets m + i) mod num_targets m
      = (rr_nextvictim m + Suc i) mod num_targets m" for i
    by (simp add: mod_add_left_eq)
  ultimately show ?case by simp
qed

subsection \<open>Labels\<close>

definition carries :: "QueueWriter list \<Rightarrow> string \<Rightarrow> nat \<Rightarrow> bool" where
  "carries ts l i \<longleftrightarrow> i < length ts \<and> l \<in> set (runtime_labels (remote_instance (ts ! i)))"

definition label_set :: "(string, nat std_set) std_map \<Rightarrow> string \<Rightarrow> nat set" where
  "label_set ltt l = set (map_get_def l [] ltt)"

definition ltt_wf :: "(string, nat std_set) std_map \<Rightarrow> bool" where
  "ltt_wf ltt \<longleftrightarrow> map_wf ltt \<and> (\<forall>l is. map_of ltt l = Some is \<longrightarrow> is \<noteq> [] \<and> set_wf is)"

lemma note_label_wf:
  assumes "ltt_wf ltt"
  shows "ltt_wf (note_label i l ltt)"
    and "label_set (note_label i l ltt) k = (if k = l then insert i (label_set ltt k) else label_set ltt k)"
proof -
  have wf: "map_wf ltt" using assms by (simp add: ltt_wf_def)
  have one: "set_wf [i]" by (simp add: set_wf_def)
  have ne: "set_put i xs \<noteq> []" for xs :: "nat list" by (metis empty_iff insertI1 list.set(1) set_set_put)
  show "ltt_wf (note_label i l ltt)"
    using assms ne one by (auto simp: ltt_wf_def note_label_def Let_def map_of_put map_wf_put map_get_def_def
        map_has_def split: option.splits)
  show "label_set (note_label i l ltt) k = (if k = l then insert i (label_set ltt k) else label_set ltt k)"
    using wf by (auto simp: label_set_def note_label_def Let_def map_of_put map_wf_put map_get_def_def
        map_has_def split: option.splits)
qed

lemma note_target_wf:
  assumes "ltt_wf ltt"
  shows "ltt_wf (fold (note_label i) ls ltt)"
    and "label_set (fold (note_label i) ls ltt) k = (if k \<in> set ls then insert i (label_set ltt k) else label_set ltt k)"
proof -
  have "ltt_wf (fold (note_label i) ls ltt) \<and> label_set (fold (note_label i) ls ltt) k
      = (if k \<in> set ls then insert i (label_set ltt k) else label_set ltt k)"
    using assms
  proof (induction ls arbitrary: ltt)
    case (Cons l ls)
    from Cons.IH [OF note_label_wf(1) [OF Cons.prems, of i l]] note_label_wf(2) [OF Cons.prems, of i l k]
    show ?case by auto
  qed simp
  then show "ltt_wf (fold (note_label i) ls ltt)"
    "label_set (fold (note_label i) ls ltt) k = (if k \<in> set ls then insert i (label_set ltt k) else label_set ltt k)"
    by blast+
qed

lemma note_targets_wf:
  assumes "ltt_wf ltt" and "n \<le> length ts"
  shows "ltt_wf (fold (note_target ts) [0..<n] ltt)
    \<and> label_set (fold (note_target ts) [0..<n] ltt) k = label_set ltt k \<union> {i. i < n \<and> carries ts k i}"
  using assms(2)
proof (induction n)
  case 0
  then show ?case using assms(1) by simp
next
  case (Suc n)
  let ?L = "fold (note_target ts) [0..<n] ltt" and ?ls = "runtime_labels (remote_instance (ts ! n))"
  have wf: "ltt_wf ?L" and old: "label_set ?L k = label_set ltt k \<union> {i. i < n \<and> carries ts k i}"
    using Suc by simp_all
  have "{i. i < Suc n \<and> carries ts k i} = {i. i < n \<and> carries ts k i} \<union> (if k \<in> set ?ls then {n} else {})"
    using Suc.prems by (auto simp: carries_def less_Suc_eq)
  moreover have "fold (note_target ts) [0..<Suc n] ltt = fold (note_label n) ?ls ?L"
    by (simp add: note_target_def)
  ultimately show ?case
    using note_target_wf(1) [OF wf, of n ?ls] note_target_wf(2) [OF wf, of n ?ls k] old
    by (simp only: Un_insert_right split: if_splits) auto
qed

lemma pos_zero:
  "map_wf p \<Longrightarrow> map_wf (fold (\<lambda>(l, _). map_put l 0) ltt p)
     \<and> (k \<in> fst ` set ltt \<longrightarrow> map_of (fold (\<lambda>(l, _). map_put l (0::nat)) ltt p) k = Some 0)"
proof (induction ltt arbitrary: p)
  case Nil
  then show ?case by simp
next
  case (Cons e ltt)
  obtain l v where e: "e = (l, v)" by (cases e)
  have keep: "map_wf p \<Longrightarrow> k \<notin> fst ` set ltt \<Longrightarrow>
      map_of (fold (\<lambda>(l, _). map_put l (0::nat)) ltt p) k = map_of p k" for p
    by (induction ltt arbitrary: p) (auto simp: map_of_put map_wf_put)
  show ?case
  proof (cases "k \<in> fst ` set ltt")
    case True
    then show ?thesis using Cons.IH [of "map_put l 0 p"] Cons.prems e by (auto simp: map_wf_put)
  next
    case False
    then show ?thesis
      using Cons.IH [of "map_put l 0 p"] Cons.prems keep [of "map_put l 0 p"] e
      by (auto simp: map_wf_put map_of_put)
  qed
qed

lemma select_label:
  assumes "label \<noteq> []" and "map_of (label_to_targets m) label = Some is" and "pos < length is"
    and "map_of (label_to_targets_pos m) label = Some pos" and "\<forall>i\<in>set is. i < length (targets m)"
  shows "select_target label ticket rand m = Inr (targets m ! (is ! pos),
    m\<lparr>last_chosen_target := int (is ! pos),
      label_to_targets_pos := map_put label ((pos + 1) mod length is) (label_to_targets_pos m)\<rparr>)"
proof -
  have "(pos + 1) mod length is = (if pos + 1 = length is then 0 else pos + 1)"
    using assms(3) by auto
  with assms show ?thesis
    by (auto simp: select_target_def choose_by_label_def map_get_def_def Let_def)
qed

lemma run_label:
  "label \<noteq> [] \<Longrightarrow> map_of (label_to_targets m) label = Some is \<Longrightarrow> pos < length is \<Longrightarrow>
   map_wf (label_to_targets_pos m) \<Longrightarrow> map_of (label_to_targets_pos m) label = Some pos \<Longrightarrow>
   \<forall>i\<in>set is. i < length (targets m) \<Longrightarrow>
   \<exists>m'. select_run n label ticket rand m
     = Inr (map (\<lambda>k. int (is ! ((pos + k) mod length is))) [0..<n], m')"
proof (induction n arbitrary: m pos)
  case 0
  then show ?case by simp
next
  case (Suc n)
  let ?m = "m\<lparr>last_chosen_target := int (is ! pos),
      label_to_targets_pos := map_put label ((pos + 1) mod length is) (label_to_targets_pos m)\<rparr>"
  have "select_target label ticket (rand n) m = Inr (targets m ! (is ! pos), ?m)"
    using Suc.prems by (intro select_label) auto
  moreover have "(pos + 1) mod length is < length is" using Suc.prems(3) by (intro mod_less_divisor) linarith
  then obtain m' where "select_run n label ticket rand ?m
      = Inr (map (\<lambda>k. int (is ! (((pos + 1) mod length is + k) mod length is))) [0..<n], m')"
    using Suc.IH [of ?m "(pos + 1) mod length is"] Suc.prems by (auto simp: map_of_put map_wf_put)
  moreover have "map (\<lambda>k. int (is ! ((pos + k) mod length is))) [0..<Suc n]
      = int (is ! (pos mod length is)) # map (\<lambda>k. int (is ! ((pos + Suc k) mod length is))) [0..<n]"
    by (simp only: upt_conv_Cons zero_less_Suc list.map map_Suc_upt [symmetric] map_map comp_def add_0_right)
  moreover have "((pos + 1) mod length is + k) mod length is = (pos + Suc k) mod length is" for k
    by (simp add: mod_add_left_eq)
  ultimately show ?case using Suc.prems(3) by simp
qed

section \<open>Properties\<close>

text \<open>A manager as the runtime sets it up: targets added, then \<open>note_final_target\<close>.\<close>

definition outport_setup :: "int \<Rightarrow> (QueueWriter list \<Rightarrow> QueueWriter list) \<Rightarrow> QueueWriter list \<Rightarrow> MultiOutportManager" where
  "outport_setup pol shuffle ts = note_final_target shuffle (fold add_target ts (MultiOutportManager_new pol))"

lemma fold_add_target:
  "fold add_target ts m = m\<lparr>targets := targets m @ ts, num_targets := num_targets m + length ts\<rparr>"
  by (induction ts arbitrary: m) (simp_all add: add_target_def)

lemma setup_fields:
  assumes "length (shuffle ts) = length ts"
  shows "targets (outport_setup pol shuffle ts) = shuffle ts"
    and "num_targets (outport_setup pol shuffle ts) = length ts"
    and "policy (outport_setup pol shuffle ts) = pol" "rr_nextvictim (outport_setup pol shuffle ts) = 0"
    and "ltt_wf (label_to_targets (outport_setup pol shuffle ts))"
    and "label_set (label_to_targets (outport_setup pol shuffle ts)) l = {i. carries (shuffle ts) l i}"
    and "map_wf (label_to_targets_pos (outport_setup pol shuffle ts))"
    and "l \<in> fst ` set (label_to_targets (outport_setup pol shuffle ts)) \<Longrightarrow>
      map_of (label_to_targets_pos (outport_setup pol shuffle ts)) l = Some 0"
proof -
  have empty: "ltt_wf []" by (simp add: ltt_wf_def)
  note w = note_targets_wf [OF empty, of "length ts" "shuffle ts" l]
  have c: "{i. i < length ts \<and> carries (shuffle ts) l i} = {i. carries (shuffle ts) l i}"
    using assms by (auto simp: carries_def)
  show "targets (outport_setup pol shuffle ts) = shuffle ts"
    "num_targets (outport_setup pol shuffle ts) = length ts"
    "policy (outport_setup pol shuffle ts) = pol" "rr_nextvictim (outport_setup pol shuffle ts) = 0"
    "ltt_wf (label_to_targets (outport_setup pol shuffle ts))"
    "label_set (label_to_targets (outport_setup pol shuffle ts)) l = {i. carries (shuffle ts) l i}"
    "map_wf (label_to_targets_pos (outport_setup pol shuffle ts))"
    "l \<in> fst ` set (label_to_targets (outport_setup pol shuffle ts)) \<Longrightarrow>
      map_of (label_to_targets_pos (outport_setup pol shuffle ts)) l = Some 0"
    using w c assms pos_zero [OF map_wf_Nil]
    by (auto simp: outport_setup_def fold_add_target note_final_target_def MultiOutportManager_new_def Let_def
        label_set_def map_get_def_def)
qed

text \<open>
  Under the round-robin policy the \<open>n\<close>-th plain write of an out-port goes to target
  \<open>n mod k\<close> of its \<open>k\<close> targets, in the order the shuffle left them in, so that any \<open>k\<close>
  consecutive writes reach every target once.
\<close>

theorem round_robin_writes:
  assumes "ts \<noteq> []" and "length (shuffle ts) = length ts"
  shows "\<exists>m'. select_run n [] (- 1) rand (outport_setup ROUND_ROBIN shuffle ts)
    = Inr (map (\<lambda>i. int (i mod length ts)) [0..<n], m')"
  using run_round_robin [of "outport_setup ROUND_ROBIN shuffle ts" n rand] assms
    setup_fields(1-4) [where shuffle = shuffle and ts = ts, OF assms(2), of ROUND_ROBIN]
  by (simp add: outport_wf_def)

theorem round_robin_writes_witness:
  "\<exists>m'. select_run 3 [] (- 1) (\<lambda>_. 0) (outport_setup ROUND_ROBIN rev
      [LocalQueueWriter 1 ''in'' 0 (DCFilterInstance_new ''F'' ''a''),
       LocalQueueWriter 2 ''in'' 0 (DCFilterInstance_new ''F'' ''b'')]) = Inr ([0, 1, 0], m')"
  using round_robin_writes [of "[LocalQueueWriter 1 ''in'' 0 (DCFilterInstance_new ''F'' ''a''),
      LocalQueueWriter 2 ''in'' 0 (DCFilterInstance_new ''F'' ''b'')]" rev 3 "\<lambda>_. 0"]
  by (simp add: upt_rec)

text \<open>
  C11. Writes under a label go, in turn, to exactly the targets whose instance answers to the label,
  whatever the policy and the shuffle; a label that no target carries fails the assertion.
\<close>

theorem labelled_writes:
  assumes "label \<noteq> []" and "length (shuffle ts) = length ts"
  shows "if {i. carries (shuffle ts) label i} = {}
    then select_target label ticket r (outport_setup pol shuffle ts) = Inl Assert_failure
    else \<exists>is m'. set is = {i. carries (shuffle ts) label i} \<and> distinct is
      \<and> select_run n label ticket rand (outport_setup pol shuffle ts)
        = Inr (map (\<lambda>k. int (is ! (k mod length is))) [0..<n], m')"
proof -
  let ?m = "outport_setup pol shuffle ts"
  note s = setup_fields [where shuffle = shuffle and ts = ts and pol = pol, OF assms(2)]
  show ?thesis
  proof (cases "map_of (label_to_targets ?m) label")
    case None
    with s(6) [of label] have "{i. carries (shuffle ts) label i} = {}"
      by (simp add: label_set_def map_get_def_def)
    with None assms(1) show ?thesis by (simp add: select_target_def choose_by_label_def)
  next
    case (Some tg)
    with s(5) have "tg \<noteq> []" "distinct tg" by (auto simp: ltt_wf_def dest: set_wf_distinct)
    moreover have set: "set tg = {i. carries (shuffle ts) label i}"
      using s(6) [of label] Some by (simp add: label_set_def map_get_def_def)
    moreover have "\<forall>i\<in>set tg. i < length (targets ?m)"
      unfolding set using s(1) by (auto simp: carries_def)
    moreover have "label \<in> fst ` set (label_to_targets ?m)"
      using Some by (metis map_of_eq_None_iff option.distinct(1))
    then have "map_of (label_to_targets_pos ?m) label = Some 0" by (rule s(8))
    ultimately show ?thesis
      using run_label [OF assms(1) Some, of 0 n ticket rand] s(7) by auto
  qed
qed

theorem labelled_writes_witness:
  "select_target ''x'' 0 0 (outport_setup ROUND_ROBIN id
      [LocalQueueWriter 1 ''in'' 0 (DCFilterInstance_new ''F'' ''a'')]) = Inl Assert_failure"
proof -
  have "{i. carries (id [LocalQueueWriter 1 ''in'' 0 (DCFilterInstance_new ''F'' ''a'')]) ''x'' i} = {}"
    by (auto simp: carries_def DCFilterInstance_new_def)
  with labelled_writes [of "''x''" id "[LocalQueueWriter 1 ''in'' 0 (DCFilterInstance_new ''F'' ''a'')]"]
  show ?thesis by simp
qed

text \<open>
  The ticket of a write is good for writing to the same target again: presenting the number of
  the last chosen target selects that target and changes nothing else.
\<close>

theorem ticket_repeats_target:
  assumes "select_target label ticket r m = Inr (w, m')"
  shows "select_target [] (last_chosen_target m') r' m' = Inr (w, m')"
  using assms
  by (auto simp: select_target_def result_simps Let_def split: if_splits)

theorem ticket_repeats_target_witness:
  "\<exists>m. select_target [] 1 0 m = Inr (LocalQueueWriter 2 ''in'' 0 (DCFilterInstance_new ''F'' ''b''), m)"
proof -
  let ?ts = "[LocalQueueWriter 1 ''in'' 0 (DCFilterInstance_new ''F'' ''a''),
     LocalQueueWriter 2 ''in'' 0 (DCFilterInstance_new ''F'' ''b'')]"
  let ?m = "(MultiOutportManager_new ROUND_ROBIN)\<lparr>targets := ?ts, num_targets := 2, rr_nextvictim := 1\<rparr>"
  have "select_target [] (- 1) 0 ?m = Inr (?ts ! 1, ?m\<lparr>last_chosen_target := 1, rr_nextvictim := 0\<rparr>)"
    by (simp add: select_target_def choose_by_policy_def MultiOutportManager_new_def Let_def)
  from ticket_repeats_target [OF this, of 0] show ?thesis by auto
qed

end
