(* ===== verification/Executor.thy ===== *)
theory Executor
  imports Outport MemUsage
begin

text \<open>
  Running filters: \<open>DCFilterExecutor\<close> (\<open>src/src/DCFilterExecutor.h\<close>, \<open>src/src/DCFilterExecutor.cpp\<close>)
  and the reads and writes of \<open>DCFilter\<close> (\<open>src/src/DCFilter.cpp\<close>) with their memory accounting,
  over the state of one process. \<open>host\<close> is the byte order of the host and \<open>rand\<close> what
  \<open>dcmpi_rand()\<close> returns. An operation that waits is \<open>None\<close>; the block-time statistics are not
  modelled.
\<close>

section \<open>State\<close>

record DCFilterExecutor =
  filter_instance :: DCFilterInstance
  in_ports :: "string std_set"
  out_ports :: "(string, MultiOutportManager) std_map"

text \<open>
  The executors by gftid, their queues, the budgets by MUID, and what the console process has
  instead of budgets.
\<close>

record process =
  executors :: "int \<rightharpoonup> DCFilterExecutor"
  queues :: queues
  MUID_MemUsage :: "int \<rightharpoonup> MemUsage"
  is_local_console :: bool
  local_console_outgoing_memusage :: MemUsage

definition ret :: "'a \<Rightarrow> 's \<Rightarrow> ('a, 's) io" where
  "ret x s = Some (Inr (x, s))"

definition fail :: "failure \<Rightarrow> ('a, 's) io" where
  "fail e = Some (Inl e)"

definition with_executor :: "int \<Rightarrow> (DCFilterExecutor \<Rightarrow> process \<Rightarrow> ('a, process) io) \<Rightarrow> process \<Rightarrow> ('a, process) io" where
  "with_executor g f pr = (case executors pr g of None \<Rightarrow> fail Undefined_behaviour | Some ex \<Rightarrow> f ex pr)"

text \<open>\<open>setup\<close>: one queue per resolved in-port, whose putters are the upstream gftids.\<close>

definition setup_queue :: "Gftid_Port std_set \<Rightarrow> Buffer_MUID Queue" where
  "setup_queue ups = set_putters (fold (\<lambda>gp. set_put (gp_gftid gp)) ups []) Queue_new"

definition executor_setup :: "DCFilterInstance \<Rightarrow> process \<Rightarrow> process" where
  "executor_setup fi pr =
     pr\<lparr>executors := (executors pr)(gftid fi \<mapsto> \<lparr>filter_instance = fi,
          in_ports = map fst (resolved_inports fi), out_ports = []\<rparr>),
        queues := (queues pr)\<lparr>in_queues := fold
          (\<lambda>(port, ups) iq. iq((gftid fi, port) \<mapsto> setup_queue ups)) (resolved_inports fi)
          (in_queues (queues pr))\<rparr>\<rparr>"

section \<open>The executor\<close>

definition set_queue :: "int \<Rightarrow> string \<Rightarrow> Buffer_MUID Queue \<Rightarrow> process \<Rightarrow> process" where
  "set_queue g port w pr =
     pr\<lparr>queues := (queues pr)\<lparr>in_queues := (in_queues (queues pr))((g, port) \<mapsto> w)\<rparr>\<rparr>"

text \<open>The in-port of a running filter; an unknown one is the error exit of all reads.\<close>

definition in_queue :: "int \<Rightarrow> string \<Rightarrow> process \<Rightarrow> Buffer_MUID Queue result" where
  "in_queue g port pr =
     (case executors pr g of
        None \<Rightarrow> Inl Undefined_behaviour
      | Some ex \<Rightarrow> if port \<notin> set (in_ports ex) then Inl Exit_failure
          else case in_queues (queues pr) (g, port) of
              None \<Rightarrow> Inl Undefined_behaviour
            | Some w \<Rightarrow> Inr w)"

definition exec_read :: "int \<Rightarrow> string \<Rightarrow> process \<Rightarrow> (Buffer_MUID, process) io" where
  "exec_read g port pr =
     (case in_queue g port pr of
        Inl e \<Rightarrow> fail e
      | Inr w \<Rightarrow> (case Queue_get w of
            None \<Rightarrow> None
          | Some (bm, w') \<Rightarrow> ret bm (set_queue g port w' pr)))"

definition exec_read_nonblocking :: "int \<Rightarrow> string \<Rightarrow> process \<Rightarrow> (Buffer_MUID, process) io" where
  "exec_read_nonblocking g port pr =
     (case in_queue g port pr of
        Inl e \<Rightarrow> fail e
      | Inr w \<Rightarrow> (case get_if_item_present w of
            (None, _) \<Rightarrow> ret Buffer_MUID_none pr
          | (Some bm, w') \<Rightarrow> ret bm (set_queue g port w' pr)))"

text \<open>The two loops below sleep and look again while there are putters: \<open>None\<close>.\<close>

definition exec_read_until_upstream_exit :: "int \<Rightarrow> string \<Rightarrow> process \<Rightarrow> (Buffer_MUID, process) io" where
  "exec_read_until_upstream_exit g port pr =
     (case in_queue g port pr of
        Inl e \<Rightarrow> fail e
      | Inr w \<Rightarrow> (case read_pass w of
            None \<Rightarrow> None
          | Some (None, _) \<Rightarrow> ret Buffer_MUID_none pr
          | Some (Some bm, w') \<Rightarrow> ret bm (set_queue g port w' pr)))"

text \<open>
  One pass of \<open>readany\<close> over the in-ports, in cyclic order from a random one. The flag is
  \<open>has_more_putters\<close>.
\<close>

fun readany_pass :: "int \<Rightarrow> string list \<Rightarrow> bool \<Rightarrow> process \<Rightarrow> (string option \<times> Buffer_MUID, process) io" where
  "readany_pass g [] pending pr = (if pending then None else ret (None, Buffer_MUID_none) pr)"
| "readany_pass g (port # ports) pending pr =
     (case in_queues (queues pr) (g, port) of
        None \<Rightarrow> fail Undefined_behaviour
      | Some w \<Rightarrow> (case get_if_item_present w of
            (Some bm, w') \<Rightarrow> ret (Some port, bm) (set_queue g port w' pr)
          | (None, _) \<Rightarrow> readany_pass g ports (pending \<or> has_more_putters w) pr))"

definition exec_readany :: "int \<Rightarrow> nat \<Rightarrow> process \<Rightarrow> (string option \<times> Buffer_MUID, process) io" where
  "exec_readany g randomlocation = with_executor g (\<lambda>ex.
     readany_pass g (drop randomlocation (in_ports ex) @ take randomlocation (in_ports ex)) False)"

definition any_upstream_running :: "int \<Rightarrow> process \<Rightarrow> bool result" where
  "any_upstream_running g pr =
     (case executors pr g of
        None \<Rightarrow> Inl Undefined_behaviour
      | Some ex \<Rightarrow> Inr (list_ex (\<lambda>port. case in_queues (queues pr) (g, port) of
            None \<Rightarrow> False | Some w \<Rightarrow> has_more_putters w) (in_ports ex)))"

definition exec_write :: "int \<Rightarrow> DCBuffer \<Rightarrow> string \<Rightarrow> string \<Rightarrow> int \<Rightarrow> nat \<Rightarrow> process \<Rightarrow> (unit, process) io" where
  "exec_write g buf port label port_ticket rand = with_executor g (\<lambda>ex pr.
     case map_of (out_ports ex) port of
       None \<Rightarrow> fail Exit_failure
     | Some m \<Rightarrow>
         (case bind_result (select_target label port_ticket rand m) (\<lambda>(w, m').
             bind_result (feed w buf (queues pr)) (\<lambda>qs. Inr (m', qs))) of
            Inl e \<Rightarrow> fail e
          | Inr (m', qs) \<Rightarrow> ret () (pr\<lparr>queues := qs, executors := (executors pr)(g \<mapsto>
              ex\<lparr>out_ports := map_put port m' (out_ports ex)\<rparr>)\<rparr>)))"

definition exec_writeany :: "int \<Rightarrow> DCBuffer \<Rightarrow> nat \<Rightarrow> nat \<Rightarrow> process \<Rightarrow> (unit, process) io" where
  "exec_writeany g buf rand rand' = with_executor g (\<lambda>ex pr.
     let ports = map fst (out_ports ex)
     in if ports = [] then fail Exit_failure
        else if length ports = 1 then exec_write g buf (hd ports) [] (- 1) rand' pr
        else exec_write g buf (ports ! (rand mod length ports)) [] (- 1) rand' pr)"

definition get_last_write_ticket :: "int \<Rightarrow> string \<Rightarrow> process \<Rightarrow> (int, process) io" where
  "get_last_write_ticket g port = with_executor g (\<lambda>ex pr.
     case map_of (out_ports ex) port of
       None \<Rightarrow> fail Exit_failure
     | Some m \<Rightarrow> if last_chosen_target m = - 1 then fail Exit_failure else ret (last_chosen_target m) pr)"

section \<open>The filter\<close>

text \<open>Charging a write to the budget of the filter, or of the console, and releasing a read.\<close>

definition charge :: "int \<Rightarrow> int \<Rightarrow> process \<Rightarrow> (unit, process) io" where
  "charge g bytes pr =
     (if \<not> is_local_console pr then
        (case MUID_MemUsage pr g of
           None \<Rightarrow> fail Undefined_behaviour
         | Some m \<Rightarrow> (case accumulate bytes m of
               None \<Rightarrow> None
             | Some (Inl e) \<Rightarrow> fail e
             | Some (Inr m') \<Rightarrow> ret () (pr\<lparr>MUID_MemUsage := (MUID_MemUsage pr)(g \<mapsto> m')\<rparr>)))
      else (case accumulate bytes (local_console_outgoing_memusage pr) of
               None \<Rightarrow> None
             | Some (Inl e) \<Rightarrow> fail e
             | Some (Inr m') \<Rightarrow> ret () (pr\<lparr>local_console_outgoing_memusage := m'\<rparr>)))"

definition release :: "int \<Rightarrow> DCBuffer \<Rightarrow> process \<Rightarrow> (unit, process) io" where
  "release m buf pr =
     (if is_local_console pr then ret () pr
      else case MUID_MemUsage pr m of
          None \<Rightarrow> fail Undefined_behaviour
        | Some mu \<Rightarrow> (case reduce (wSize buf) mu of
              Inl e \<Rightarrow> fail e
            | Inr mu' \<Rightarrow> ret () (pr\<lparr>MUID_MemUsage := (MUID_MemUsage pr)(m \<mapsto> mu')\<rparr>)))"

text \<open>\<open>read\<close> dereferences the buffer it got; the other reads pass NULL on.\<close>

definition DCFilter_read :: "int \<Rightarrow> string \<Rightarrow> process \<Rightarrow> (DCBuffer, process) io" where
  "DCFilter_read g port pr =
     bind_io (exec_read g port pr) (\<lambda>bm pr1.
       case buffer bm of
         None \<Rightarrow> fail Undefined_behaviour
       | Some out \<Rightarrow> bind_io (release (muid bm) out pr1) (\<lambda>_ pr2. ret out pr2))"

definition release_if :: "Buffer_MUID \<Rightarrow> process \<Rightarrow> (DCBuffer option, process) io" where
  "release_if bm pr =
     (case buffer bm of
        None \<Rightarrow> ret None pr
      | Some out \<Rightarrow> bind_io (release (muid bm) out pr) (\<lambda>_ pr2. ret (Some out) pr2))"

definition DCFilter_read_nonblocking :: "int \<Rightarrow> string \<Rightarrow> process \<Rightarrow> (DCBuffer option, process) io" where
  "DCFilter_read_nonblocking g port pr = bind_io (exec_read_nonblocking g port pr) release_if"

definition DCFilter_read_until_upstream_exit :: "int \<Rightarrow> string \<Rightarrow> process \<Rightarrow> (DCBuffer option, process) io" where
  "DCFilter_read_until_upstream_exit g port pr =
     bind_io (exec_read_until_upstream_exit g port pr) release_if"

definition DCFilter_readany :: "int \<Rightarrow> nat \<Rightarrow> process \<Rightarrow> (string option \<times> DCBuffer option, process) io" where
  "DCFilter_readany g randomlocation pr =
     bind_io (exec_readany g randomlocation pr) (\<lambda>(port, bm) pr1.
       bind_io (release_if bm pr1) (\<lambda>out pr2. ret (port, out) pr2))"

text \<open>
  The three \<open>write\<close>s (\<open>label\<close> and \<open>port_ticket\<close> have the defaults "" and -1) copy the buffer, the three
  \<open>write_nocopy\<close>s hand it over.
\<close>

definition DCFilter_write :: "bool \<Rightarrow> int \<Rightarrow> DCBuffer \<Rightarrow> string \<Rightarrow> string \<Rightarrow> int \<Rightarrow> nat \<Rightarrow> process \<Rightarrow> (unit, process) io" where
  "DCFilter_write host g buf port label port_ticket rand pr =
     bind_io (charge g (wSize buf) pr) (\<lambda>_ pr1.
       case DCBuffer_copy host buf of
         Inl e \<Rightarrow> fail e
       | Inr b2 \<Rightarrow> exec_write g b2 port label port_ticket rand pr1)"

definition DCFilter_write_nocopy :: "int \<Rightarrow> DCBuffer \<Rightarrow> string \<Rightarrow> string \<Rightarrow> int \<Rightarrow> nat \<Rightarrow> process \<Rightarrow> (unit, process) io" where
  "DCFilter_write_nocopy g buf port label port_ticket rand pr =
     bind_io (charge g (wSize buf) pr) (\<lambda>_ pr1. exec_write g buf port label port_ticket rand pr1)"

definition DCFilter_writeany :: "bool \<Rightarrow> int \<Rightarrow> DCBuffer \<Rightarrow> nat \<Rightarrow> nat \<Rightarrow> process \<Rightarrow> (unit, process) io" where
  "DCFilter_writeany host g buf rand rand' pr =
     bind_io (charge g (wSize buf) pr) (\<lambda>_ pr1.
       case DCBuffer_copy host buf of
         Inl e \<Rightarrow> fail e
       | Inr b2 \<Rightarrow> exec_writeany g b2 rand rand' pr1)"

text \<open>
  \<open>write_broadcast\<close>: a copy, charged separately, for each target in turn. (The number of targets is
  read anew in every round, and no round changes it.)
\<close>

fun broadcast_loop :: "bool \<Rightarrow> int \<Rightarrow> DCBuffer \<Rightarrow> string \<Rightarrow> nat \<Rightarrow> nat \<Rightarrow> process \<Rightarrow> (unit, process) io" where
  "broadcast_loop host g buf port i 0 pr = ret () pr"
| "broadcast_loop host g buf port i (Suc k) pr =
     bind_io (charge g (wSize buf) pr) (\<lambda>_ pr1.
       case DCBuffer_copy host buf of
         Inl e \<Rightarrow> fail e
       | Inr b2 \<Rightarrow> bind_io (exec_write g b2 port [] (int i) 0 pr1) (\<lambda>_ pr2.
           broadcast_loop host g buf port (i + 1) k pr2))"

definition write_broadcast :: "bool \<Rightarrow> int \<Rightarrow> DCBuffer \<Rightarrow> string \<Rightarrow> process \<Rightarrow> (unit, process) io" where
  "write_broadcast host g buf port = with_executor g (\<lambda>ex pr.
     case map_of (out_ports ex) port of
       None \<Rightarrow> fail Exit_failure
     | Some m \<Rightarrow> broadcast_loop host g buf port 0 (num_targets m) pr)"

text \<open>Parameters.\<close>

definition DCFilter_get_param :: "int \<Rightarrow> string \<Rightarrow> process \<Rightarrow> string result" where
  "DCFilter_get_param g key pr =
     (case executors pr g of None \<Rightarrow> Inl Undefined_behaviour
      | Some ex \<Rightarrow> (case map_of (user_params (filter_instance ex)) key of
            None \<Rightarrow> Inl Exit_failure | Some v \<Rightarrow> Inr v))"

definition DCFilter_get_param_buffer :: "bool \<Rightarrow> int \<Rightarrow> string \<Rightarrow> process \<Rightarrow> DCBuffer result" where
  "DCFilter_get_param_buffer host g key pr =
     (case executors pr g of None \<Rightarrow> Inl Undefined_behaviour
      | Some ex \<Rightarrow> (case map_of (user_buffer_params (filter_instance ex)) key of
            None \<Rightarrow> Inl Exit_failure | Some b \<Rightarrow> DCBuffer_copy host b))"

text \<open>A sequence of plain writes to a port, and of reads from one.\<close>

fun write_run :: "bool \<Rightarrow> int \<Rightarrow> DCBuffer list \<Rightarrow> string \<Rightarrow> process \<Rightarrow> (unit, process) io" where
  "write_run host g [] port pr = ret () pr"
| "write_run host g (b # bs) port pr =
     bind_io (DCFilter_write host g b port [] (- 1) 0 pr) (\<lambda>_ pr1. write_run host g bs port pr1)"

fun read_run :: "nat \<Rightarrow> int \<Rightarrow> string \<Rightarrow> process \<Rightarrow> (DCBuffer list, process) io" where
  "read_run 0 g port pr = ret [] pr"
| "read_run (Suc n) g port pr =
     bind_io (DCFilter_read g port pr) (\<lambda>b pr1.
       bind_io (read_run n g port pr1) (\<lambda>bs pr2. ret (b # bs) pr2))"

section \<open>Lemmas\<close>

lemmas io_simps = ret_def fail_def with_executor_def

lemma Set_buf_block:
  assumes "int (length u) < 2 ^ 31"
  shows "buf_wf (forceEndian big (Set_buf host (Some u) (int (length u)) (int (length u)) True (DCBuffer_empty host)))"
    and "used (forceEndian big (Set_buf host (Some u) (int (length u)) (int (length u)) True (DCBuffer_empty host))) = u"
    and "wSizeExtracted (forceEndian big (Set_buf host (Some u) (int (length u)) (int (length u)) True (DCBuffer_empty host))) = 0"
    and "isbigendian (forceEndian big (Set_buf host (Some u) (int (length u)) (int (length u)) True (DCBuffer_empty host))) = big"
  using assms
  by (auto simp: forceEndian_def Set_buf_def commonInit_def Delete_def DCBuffer_empty_def buf_wf_def used_def mem_def)

lemma DCBuffer_copy_ok:
  assumes "buf_wf b"
  shows "\<exists>c. DCBuffer_copy host b = Inr c \<and> buf_wf c \<and> used c = used b \<and> unread c = used b
    \<and> wSize c = wSize b \<and> isbigendian c = isbigendian b"
proof -
  let ?c = "forceEndian (isbigendian b)
    (Set_buf host (Some (used b)) (int (length (used b))) (int (length (used b))) True (DCBuffer_empty host))"
  have nn: "0 \<le> wSize b" "wSize b < 2 ^ 31" using assms by (auto simp: buf_wf_def)
  have w: "wSize b = int (length (used b))" by (rule wSize_used [OF assms])
  have "int (length (used b)) < 2 ^ 31" using nn(2) unfolding w .
  note c = Set_buf_block [OF this, of "isbigendian b" host]
  have "DCBuffer_copy host b = Inr (forceEndian (isbigendian b)
      (Set_buf host (Some (used b)) (wSize b) (wSize b) True (DCBuffer_empty host)))"
    using nn(1) block_read_used [OF assms] by (simp add: DCBuffer_copy_def)
  then have "DCBuffer_copy host b = Inr ?c" by (simp only: w [symmetric])
  moreover have "wSize ?c = wSize b" using wSize_used [OF c(1)] c(2) w by simp
  moreover have "unread ?c = used b" unfolding unread_def using c(2,3) by simp
  ultimately show ?thesis using c(1,2,4) by (intro exI [of _ ?c]) blast
qed

text \<open>The state after a charge and after a release, when they do not wait.\<close>

definition budget_add :: "int \<Rightarrow> int \<Rightarrow> process \<Rightarrow> process" where
  "budget_add g n pr = pr\<lparr>MUID_MemUsage := (MUID_MemUsage pr)(g := map_option
     (\<lambda>mu. mu\<lparr>current_usage := current_usage mu + n\<rparr>) (MUID_MemUsage pr g))\<rparr>"

text \<open>There is room for \<open>n\<close> more bytes in the budget of \<open>g\<close>.\<close>

definition budget_room :: "int \<Rightarrow> int \<Rightarrow> process \<Rightarrow> bool" where
  "budget_room g n pr \<longleftrightarrow> \<not> is_local_console pr \<and> (case MUID_MemUsage pr g of None \<Rightarrow> False
     | Some mu \<Rightarrow> 0 \<le> current_usage mu \<and> current_usage mu + n \<le> memory_threshold mu
         \<and> int8_ok (memory_threshold mu))"

lemma budget_room_mono: "budget_room g n pr \<Longrightarrow> k \<le> n \<Longrightarrow> budget_room g k pr"
  by (auto simp: budget_room_def split: option.splits)

lemma budget_room_add: "budget_room g (k + n) pr \<Longrightarrow> 0 \<le> k \<Longrightarrow> budget_room g n (budget_add g k pr)"
  by (auto simp: budget_room_def budget_add_def split: option.splits)

lemma budget_add_add: "budget_add g n (budget_add g k pr) = budget_add g (k + n) pr"
  by (cases "MUID_MemUsage pr g") (simp_all add: budget_add_def add.assoc)

lemma budget_add_zero: "budget_add g 0 pr = pr"
  by (cases "MUID_MemUsage pr g") (simp_all add: budget_add_def fun_upd_idem)

lemma charge_ok:
  assumes "budget_room g n pr" and "0 \<le> n"
  shows "charge g n pr = ret () (budget_add g n pr)"
  using assms by (auto simp: charge_def budget_room_def budget_add_def accumulate_def int8_ok_def io_simps
      split: option.splits)

lemma release_ok:
  assumes "budget_room g 0 pr" and "wSize b = n" and "0 \<le> n" and "\<And>mu. MUID_MemUsage pr g = Some mu \<Longrightarrow> n \<le> current_usage mu"
  shows "release g b pr = ret () (budget_add g (- n) pr)"
  using assms by (auto simp: release_def budget_room_def budget_add_def reduce_def int8_ok_def io_simps
      split: option.splits)

text \<open>
  A channel: the only target of the out-port \<open>port\<close> of the filter \<open>g\<close> is the in-port \<open>port'\<close> of
  \<open>g'\<close> in the same process, whose queue holds \<open>xs\<close>.
\<close>

definition channel :: "int \<Rightarrow> string \<Rightarrow> int \<Rightarrow> string \<Rightarrow> Buffer_MUID list \<Rightarrow> process \<Rightarrow> bool" where
  "channel g port g' port' xs pr \<longleftrightarrow>
     (\<exists>ex m. executors pr g = Some ex \<and> map_wf (out_ports ex) \<and> map_of (out_ports ex) port = Some m
        \<and> num_targets m = 1 \<and> (\<exists>ri. targets m = [LocalQueueWriter g' port' g ri]))
     \<and> (\<exists>ex'. executors pr g' = Some ex' \<and> port' \<in> set (in_ports ex'))
     \<and> (\<exists>w. in_queues (queues pr) (g', port') = Some w \<and> q w = xs)"

lemma channel_budget: "channel g port g' port' xs (budget_add k n pr) = channel g port g' port' xs pr"
  by (simp add: channel_def budget_add_def)

lemma budget_room_cong:
  "MUID_MemUsage pr' = MUID_MemUsage pr \<Longrightarrow> is_local_console pr' = is_local_console pr \<Longrightarrow>
   budget_room g n pr' = budget_room g n pr"
  by (simp add: budget_room_def)

lemma exec_write_channel:
  assumes "channel g port g' port' xs pr"
  shows "\<exists>pr'. exec_write g c port [] (- 1) r pr = ret () pr'
    \<and> channel g port g' port' (xs @ [\<lparr>buffer = Some c, muid = g\<rparr>]) pr'
    \<and> MUID_MemUsage pr' = MUID_MemUsage pr \<and> is_local_console pr' = is_local_console pr"
proof -
  obtain ex m ri where ex: "executors pr g = Some ex" "map_wf (out_ports ex)" "map_of (out_ports ex) port = Some m"
    and m: "num_targets m = 1" "targets m = [LocalQueueWriter g' port' g ri]"
    using assms unfolding channel_def by blast
  obtain ex' where ex': "executors pr g' = Some ex'" "port' \<in> set (in_ports ex')"
    using assms unfolding channel_def by blast
  obtain w where w: "in_queues (queues pr) (g', port') = Some w" "q w = xs"
    using assms unfolding channel_def by blast
  let ?m = "m\<lparr>last_chosen_target := 0\<rparr>"
  let ?qs = "(queues pr)\<lparr>in_queues := (in_queues (queues pr))((g', port') \<mapsto>
    Queue_put \<lparr>buffer = Some c, muid = g\<rparr> w)\<rparr>"
  let ?ex = "ex\<lparr>out_ports := map_put port ?m (out_ports ex)\<rparr>"
  let ?pr = "pr\<lparr>queues := ?qs, executors := (executors pr)(g \<mapsto> ?ex)\<rparr>"
  have "select_target [] (- 1) r m = Inr (LocalQueueWriter g' port' g ri, ?m)"
    using m by (simp add: select_target_def choose_by_policy_def Let_def)
  then have "exec_write g c port [] (- 1) r pr = ret () ?pr"
    using ex w by (simp add: exec_write_def io_simps feed_def)
  moreover have "channel g port g' port' (xs @ [\<lparr>buffer = Some c, muid = g\<rparr>]) ?pr"
    using ex ex' w m by (auto simp: channel_def map_of_put map_wf_put Queue_put_def)
  ultimately show ?thesis by force
qed

lemma write_channel:
  assumes "channel g port g' port' xs pr" and "buf_wf b" and "budget_room g (wSize b) pr"
  shows "\<exists>c pr'. DCFilter_write host g b port [] (- 1) 0 pr = ret () pr'
    \<and> buf_wf c \<and> used c = used b \<and> unread c = used b \<and> isbigendian c = isbigendian b
    \<and> channel g port g' port' (xs @ [\<lparr>buffer = Some c, muid = g\<rparr>]) pr'
    \<and> MUID_MemUsage pr' = MUID_MemUsage (budget_add g (wSize b) pr) \<and> is_local_console pr' = is_local_console pr"
proof -
  have nn: "0 \<le> wSize b" using assms(2) by (simp add: buf_wf_def)
  obtain c where c: "DCBuffer_copy host b = Inr c" "buf_wf c" "used c = used b" "unread c = used b"
    "isbigendian c = isbigendian b"
    using DCBuffer_copy_ok [OF assms(2)] by blast
  let ?pr = "budget_add g (wSize b) pr"
  have chan: "channel g port g' port' xs ?pr" using assms(1) by (simp add: channel_budget)
  obtain pr' where pr': "exec_write g c port [] (- 1) 0 ?pr = ret () pr'"
    "channel g port g' port' (xs @ [\<lparr>buffer = Some c, muid = g\<rparr>]) pr'"
    "MUID_MemUsage pr' = MUID_MemUsage ?pr" "is_local_console pr' = is_local_console ?pr"
    using exec_write_channel [OF chan] by blast
  have "DCFilter_write host g b port [] (- 1) 0 pr = ret () pr'"
    using charge_ok [OF assms(3) nn] c(1) pr'(1) by (simp add: DCFilter_write_def ret_def)
  moreover have "is_local_console ?pr = is_local_console pr" by (simp add: budget_add_def)
  ultimately show ?thesis using c(2-5) pr'(2-4) by metis
qed

text \<open>What the reader of a channel finds: a copy of each buffer, charged to the writer.\<close>

definition copies :: "int \<Rightarrow> DCBuffer list \<Rightarrow> Buffer_MUID list \<Rightarrow> bool" where
  "copies g bs xs \<longleftrightarrow> list_all2 (\<lambda>b x. \<exists>c. x = \<lparr>buffer = Some c, muid = g\<rparr> \<and> buf_wf c \<and> used c = used b
     \<and> unread c = used b \<and> isbigendian c = isbigendian b) bs xs"

definition total :: "DCBuffer list \<Rightarrow> int" where
  "total bs = (\<Sum>b\<leftarrow>bs. int (length (used b)))"

lemma total_simps [simp]:
  "total [] = 0" "total (b # bs) = int (length (used b)) + total bs" "0 \<le> total bs"
  by (simp_all add: total_def) (induction bs; simp)

lemma write_run_channel:
  "channel g port g' port' xs pr \<Longrightarrow> \<forall>b\<in>set bs. buf_wf b \<Longrightarrow> budget_room g (total bs) pr \<Longrightarrow>
   \<exists>ys pr'. write_run host g bs port pr = ret () pr' \<and> copies g bs ys \<and> channel g port g' port' (xs @ ys) pr'
     \<and> MUID_MemUsage pr' = MUID_MemUsage (budget_add g (total bs) pr) \<and> is_local_console pr' = is_local_console pr"
proof (induction bs arbitrary: xs pr)
  case Nil
  then show ?case by (auto simp: copies_def budget_add_zero)
next
  case (Cons b bs)
  have b: "buf_wf b" using Cons.prems(2) by simp
  have w: "wSize b = int (length (used b))" by (rule wSize_used [OF b])
  have "wSize b \<le> total (b # bs)" unfolding w by simp
  with Cons.prems(3) have "budget_room g (wSize b) pr" by (rule budget_room_mono)
  from write_channel [OF Cons.prems(1) b this, of host] obtain c pr1
    where c: "DCFilter_write host g b port [] (- 1) 0 pr = ret () pr1" "buf_wf c" "used c = used b"
        "unread c = used b" "isbigendian c = isbigendian b"
      and chan: "channel g port g' port' (xs @ [\<lparr>buffer = Some c, muid = g\<rparr>]) pr1"
      and bud: "MUID_MemUsage pr1 = MUID_MemUsage (budget_add g (wSize b) pr)" "is_local_console pr1 = is_local_console pr"
    by blast
  have lc: "is_local_console pr1 = is_local_console (budget_add g (wSize b) pr)"
    using bud(2) by (simp add: budget_add_def)
  have nn: "0 \<le> wSize b" unfolding w by simp
  have "budget_room g (wSize b + total bs) pr" using Cons.prems(3) unfolding w by simp
  then have room: "budget_room g (total bs) pr1"
    unfolding budget_room_cong [OF bud(1) lc] by (rule budget_room_add) (rule nn)
  obtain ys pr2 where ys: "write_run host g bs port pr1 = ret () pr2" "copies g bs ys"
      "channel g port g' port' ((xs @ [\<lparr>buffer = Some c, muid = g\<rparr>]) @ ys) pr2"
      "MUID_MemUsage pr2 = MUID_MemUsage (budget_add g (total bs) pr1)" "is_local_console pr2 = is_local_console pr1"
    using Cons.IH [OF chan _ room] Cons.prems(2) by auto
  have "MUID_MemUsage (budget_add g (total bs) pr1) = MUID_MemUsage (budget_add g (total (b # bs)) pr)"
    unfolding total_simps(2) w [symmetric] budget_add_add [symmetric]
    using bud(1) by (simp add: budget_add_def)
  with ys c bud chan show ?case
    by (intro exI [of _ "\<lparr>buffer = Some c, muid = g\<rparr> # ys"] exI [of _ pr2]) (simp add: ret_def copies_def)
qed

lemma read_channel:
  assumes "channel g port g' port' (\<lparr>buffer = Some c, muid = g\<rparr> # xs) pr" and "buf_wf c" and "budget_room g 0 pr"
    and "\<And>mu. MUID_MemUsage pr g = Some mu \<Longrightarrow> int (length (used c)) \<le> current_usage mu"
  shows "\<exists>pr'. DCFilter_read g' port' pr = ret c pr' \<and> channel g port g' port' xs pr'
    \<and> MUID_MemUsage pr' = MUID_MemUsage (budget_add g (- int (length (used c))) pr)
    \<and> is_local_console pr' = is_local_console pr"
proof -
  let ?n = "int (length (used c))"
  obtain ex' where ex': "executors pr g' = Some ex'" "port' \<in> set (in_ports ex')"
    using assms(1) unfolding channel_def by blast
  obtain w where w: "in_queues (queues pr) (g', port') = Some w" "q w = \<lparr>buffer = Some c, muid = g\<rparr> # xs"
    using assms(1) unfolding channel_def by blast
  let ?pr = "set_queue g' port' (w\<lparr>q := xs\<rparr>) pr"
  have "exec_read g' port' pr = ret \<lparr>buffer = Some c, muid = g\<rparr> ?pr"
    using ex' w by (simp add: exec_read_def in_queue_def Queue_get_def)
  moreover have "release g c ?pr = ret () (budget_add g (- ?n) ?pr)"
    using assms(3,4) by (intro release_ok wSize_used [OF assms(2)]) (simp_all add: set_queue_def budget_room_def)
  ultimately have "DCFilter_read g' port' pr = ret c (budget_add g (- ?n) ?pr)"
    by (simp add: DCFilter_read_def ret_def)
  moreover have "channel g port g' port' xs ?pr"
    using assms(1) by (auto simp: channel_def set_queue_def)
  ultimately show ?thesis
    by (intro exI [of _ "budget_add g (- ?n) ?pr"]) (simp add: channel_budget, simp add: budget_add_def set_queue_def)
qed

lemma read_run_channel:
  "channel g port g' port' xs pr \<Longrightarrow> copies g bs xs \<Longrightarrow> budget_room g 0 pr \<Longrightarrow>
   (\<And>mu. MUID_MemUsage pr g = Some mu \<Longrightarrow> total bs \<le> current_usage mu) \<Longrightarrow>
   \<exists>cs pr'. read_run (length bs) g' port' pr = ret cs pr' \<and> map used cs = map used bs
     \<and> map unread cs = map used bs \<and> map isbigendian cs = map isbigendian bs \<and> channel g port g' port' [] pr'
     \<and> MUID_MemUsage pr' = MUID_MemUsage (budget_add g (- total bs) pr)"
proof (induction bs arbitrary: xs pr)
  case Nil
  then show ?case by (auto simp: copies_def budget_add_zero)
next
  case (Cons b bs)
  obtain c ys where xs: "xs = \<lparr>buffer = Some c, muid = g\<rparr> # ys" and ys: "copies g bs ys"
    and c: "buf_wf c" "used c = used b" "unread c = used b" "isbigendian c = isbigendian b"
    using Cons.prems(2) unfolding copies_def list_all2_Cons1 by blast
  let ?n = "int (length (used c))"
  have "?n \<le> total (b # bs)" using c(2) by simp
  then have "\<And>mu. MUID_MemUsage pr g = Some mu \<Longrightarrow> ?n \<le> current_usage mu"
    using Cons.prems(4) by (meson order_trans)
  from read_channel [OF Cons.prems(1) [unfolded xs] c(1) Cons.prems(3) this] obtain pr1
    where r: "DCFilter_read g' port' pr = ret c pr1" "channel g port g' port' ys pr1"
      "MUID_MemUsage pr1 = MUID_MemUsage (budget_add g (- ?n) pr)" "is_local_console pr1 = is_local_console pr"
    by blast
  have left: "total bs \<le> current_usage mu \<and> 0 \<le> current_usage mu
      \<and> current_usage mu \<le> memory_threshold mu \<and> int8_ok (memory_threshold mu)"
    if some: "MUID_MemUsage pr1 g = Some mu" for mu
  proof -
    obtain mu0 where mu0: "MUID_MemUsage pr g = Some mu0" "mu = mu0\<lparr>current_usage := current_usage mu0 - ?n\<rparr>"
      using some unfolding r(3) budget_add_def by (cases "MUID_MemUsage pr g") simp_all
    have "total (b # bs) \<le> current_usage mu0" by (rule Cons.prems(4) [OF mu0(1)])
    moreover have "total (b # bs) = ?n + total bs" using c(2) by simp
    moreover have "0 \<le> total bs" by simp
    ultimately have "?n \<le> current_usage mu0" "total bs \<le> current_usage mu0 - ?n" by linarith+
    then show ?thesis
      using Cons.prems(3) mu0 by (auto simp: budget_room_def)
  qed
  have "MUID_MemUsage pr1 g \<noteq> None"
    using Cons.prems(3) unfolding r(3) by (auto simp: budget_room_def budget_add_def split: option.splits)
  then have room: "budget_room g 0 pr1"
    using left r(4) Cons.prems(3) by (auto simp: budget_room_def)
  obtain cs pr2 where cs: "read_run (length bs) g' port' pr1 = ret cs pr2" "map used cs = map used bs"
      "map unread cs = map used bs" "map isbigendian cs = map isbigendian bs" "channel g port g' port' [] pr2"
      "MUID_MemUsage pr2 = MUID_MemUsage (budget_add g (- total bs) pr1)"
    using Cons.IH [OF r(2) ys room] left by blast
  have "MUID_MemUsage (budget_add g (- total bs) pr1)
      = MUID_MemUsage (budget_add g (- total bs) (budget_add g (- ?n) pr))"
    using r(3) by (simp add: budget_add_def)
  also have "\<dots> = MUID_MemUsage (budget_add g (- total (b # bs)) pr)"
    unfolding budget_add_add using c(2) by simp
  finally show ?case
    using r(1) cs c by (intro exI [of _ "c # cs"] exI [of _ pr2]) (simp add: ret_def)
qed

lemma exec_write_ticket:
  assumes "executors pr g = Some ex" and "map_of (out_ports ex) port = Some m"
    and "i < length (targets m)" and "feed (targets m ! i) c (queues pr) = Inr qs"
  shows "exec_write g c port [] (int i) r pr = ret () (pr\<lparr>queues := qs, executors := (executors pr)(g \<mapsto>
    ex\<lparr>out_ports := map_put port (m\<lparr>last_chosen_target := int i\<rparr>) (out_ports ex)\<rparr>)\<rparr>)"
  using assms by (simp add: exec_write_def select_target_def io_simps Let_def)

lemma broadcast_loop_ok:
  "executors pr g = Some ex \<Longrightarrow> map_wf (out_ports ex) \<Longrightarrow> map_of (out_ports ex) port = Some m \<Longrightarrow>
   targets m = ts \<Longrightarrow> i + k = length ts \<Longrightarrow> DCBuffer_copy host b = Inr c \<Longrightarrow> 0 \<le> wSize b \<Longrightarrow>
   budget_room g (int k * wSize b) pr \<Longrightarrow> fold_result (\<lambda>t. feed t c) (drop i ts) (queues pr) = Inr qs \<Longrightarrow>
   \<exists>pr'. broadcast_loop host g b port i k pr = ret () pr' \<and> queues pr' = qs
     \<and> MUID_MemUsage pr' = MUID_MemUsage (budget_add g (int k * wSize b) pr)"
proof (induction k arbitrary: i pr ex m)
  case 0
  then show ?case by (simp add: ret_def budget_add_zero)
next
  case (Suc k)
  let ?n = "wSize b" and ?m = "m\<lparr>last_chosen_target := int i\<rparr>"
  let ?ex = "ex\<lparr>out_ports := map_put port ?m (out_ports ex)\<rparr>" and ?pr = "budget_add g (wSize b) pr"
  have i: "i < length ts" "i + 1 + k = length ts" using Suc.prems(5) by auto
  have part: "int (Suc k) * ?n = ?n + int k * ?n" by (simp add: algebra_simps)
  have nn: "0 \<le> int k * ?n" using Suc.prems(7) by simp
  have fit: "budget_room g ?n pr" "budget_room g (int k * ?n) ?pr"
    using Suc.prems(7,8) nn unfolding part by (auto intro: budget_room_mono budget_room_add)
  from Suc.prems(9) i(1) obtain qs1 where qs1: "feed (ts ! i) c (queues pr) = Inr qs1"
      "fold_result (\<lambda>t. feed t c) (drop (i + 1) ts) qs1 = Inr qs"
    by (auto simp: Cons_nth_drop_Suc [OF i(1), symmetric] result_simps)
  let ?pr1 = "?pr\<lparr>queues := qs1, executors := (executors ?pr)(g \<mapsto> ?ex)\<rparr>"
  have "exec_write g c port [] (int i) 0 ?pr = ret () ?pr1"
    using Suc.prems(1,3,4) i(1) qs1(1) by (intro exec_write_ticket) (simp_all add: budget_add_def)
  then have step: "broadcast_loop host g b port i (Suc k) pr = broadcast_loop host g b port (i + 1) k ?pr1"
    using charge_ok [OF fit(1) Suc.prems(7)] Suc.prems(6) by (simp add: ret_def)
  have "\<exists>pr'. broadcast_loop host g b port (i + 1) k ?pr1 = ret () pr' \<and> queues pr' = qs
     \<and> MUID_MemUsage pr' = MUID_MemUsage (budget_add g (int k * ?n) ?pr1)"
    using Suc.prems(2,3,4,6,7) i(2) fit(2) qs1(2)
    by (intro Suc.IH [of ?pr1 ?ex ?m]) (auto simp: map_of_put map_wf_put budget_room_def)
  moreover have "MUID_MemUsage (budget_add g (int k * ?n) ?pr1) = MUID_MemUsage (budget_add g (int (Suc k) * ?n) pr)"
    unfolding part budget_add_add [symmetric] by (simp add: budget_add_def)
  ultimately show ?case unfolding step by simp
qed

section \<open>Properties\<close>

text \<open>A process with two filters, of which the first writes to the second.\<close>

definition two_filters :: process where
  "two_filters = \<lparr>
     executors = [1 \<mapsto> \<lparr>filter_instance = DCFilterInstance_new ''F'' ''a'', in_ports = [],
        out_ports = [(''o'', (MultiOutportManager_new ROUND_ROBIN)
          \<lparr>targets := [LocalQueueWriter 2 ''i'' 1 (DCFilterInstance_new ''F'' ''b'')], num_targets := 1\<rparr>)]\<rparr>,
       2 \<mapsto> \<lparr>filter_instance = DCFilterInstance_new ''F'' ''b'', in_ports = [''i''], out_ports = []\<rparr>],
     queues = \<lparr>in_queues = [(2, ''i'') \<mapsto> set_putters [1] Queue_new], out_queues = \<lambda>_. Queue_new\<rparr>,
     MUID_MemUsage = [1 \<mapsto> MemUsage_new 100], is_local_console = False,
     local_console_outgoing_memusage = MemUsage_new 0\<rparr>"

text \<open>
  C12. What a filter writes to a port whose only target is a filter of the same process is what that
  filter reads, buffer by buffer and in order: every read returns a buffer with the used bytes and
  the byte order of the one written, with the extraction at its beginning, and once all have been
  read, the queue is empty and the budget of the writer is what it was before.
\<close>

theorem local_stream:
  assumes "channel g port g' port' [] pr" and "\<forall>b\<in>set bs. buf_wf b" and "budget_room g (total bs) pr"
  shows "\<exists>pr1 cs pr2. write_run host g bs port pr = ret () pr1 \<and> read_run (length bs) g' port' pr1 = ret cs pr2
    \<and> map used cs = map used bs \<and> map unread cs = map used bs \<and> map isbigendian cs = map isbigendian bs
    \<and> channel g port g' port' [] pr2 \<and> MUID_MemUsage pr2 = MUID_MemUsage pr"
proof -
  obtain ys pr1 where w: "write_run host g bs port pr = ret () pr1" "copies g bs ys" "channel g port g' port' ys pr1"
      "MUID_MemUsage pr1 = MUID_MemUsage (budget_add g (total bs) pr)" "is_local_console pr1 = is_local_console pr"
    using write_run_channel [OF assms, of host] by auto
  have room: "budget_room g 0 pr1" "\<And>mu. MUID_MemUsage pr1 g = Some mu \<Longrightarrow> total bs \<le> current_usage mu"
    using assms(3) w(4,5) total_simps(3) [of bs]
    by (auto simp: budget_room_def budget_add_def split: option.splits)
  obtain cs pr2 where r: "read_run (length bs) g' port' pr1 = ret cs pr2" "map used cs = map used bs"
      "map unread cs = map used bs" "map isbigendian cs = map isbigendian bs" "channel g port g' port' [] pr2"
      "MUID_MemUsage pr2 = MUID_MemUsage (budget_add g (- total bs) pr1)"
    using read_run_channel [OF w(3,2) room] by blast
  have "MUID_MemUsage (budget_add g (- total bs) pr1) = MUID_MemUsage (budget_add g (- total bs) (budget_add g (total bs) pr))"
    using w(4) by (simp add: budget_add_def)
  then have "MUID_MemUsage pr2 = MUID_MemUsage pr"
    unfolding r(6) budget_add_add by (simp add: budget_add_zero)
  with w(1) r show ?thesis by blast
qed

theorem local_stream_witness:
  "\<exists>pr1 cs pr2. write_run False 1 [\<lparr>pBuf = Some ''abc'', owns_pBuf = True, wMax = 3, wSize = 2, wSizeExtracted = 1,
       isbigendian = True, appendReallocs = 0\<rparr>] ''o'' two_filters = ret () pr1
     \<and> read_run 1 2 ''i'' pr1 = ret cs pr2 \<and> map used cs = [''ab'']"
proof -
  let ?b = "\<lparr>pBuf = Some ''abc'', owns_pBuf = True, wMax = 3, wSize = 2, wSizeExtracted = 1,
       isbigendian = True, appendReallocs = 0\<rparr>"
  have u: "used ?b = ''ab''" by (simp add: used_def mem_def)
  have "channel 1 ''o'' 2 ''i'' [] two_filters"
    by (simp add: channel_def two_filters_def queue_defs map_wf_Cons)
  moreover have "\<forall>b\<in>set [?b]. buf_wf b" by (simp add: buf_wf_def mem_def)
  moreover have "budget_room 1 (total [?b]) two_filters"
    by (simp add: budget_room_def two_filters_def MemUsage_new_def u int8_ok_def)
  ultimately have "\<exists>pr1 cs pr2. write_run False 1 [?b] ''o'' two_filters = ret () pr1
     \<and> read_run (length [?b]) 2 ''i'' pr1 = ret cs pr2 \<and> map used cs = map used [?b]"
    using local_stream [of 1 "''o''" 2 "''i''" two_filters "[?b]" False] by blast
  then show ?thesis by (simp add: u)
qed

text \<open>
  \<open>write_broadcast\<close> hands a copy of the buffer to every target of the port, in the order of the
  targets, and charges the writer's budget for each of them.
\<close>

theorem broadcast_copies:
  assumes "executors pr g = Some ex" and "map_wf (out_ports ex)" and "map_of (out_ports ex) port = Some m"
    and "num_targets m = length (targets m)" and "buf_wf b"
    and "budget_room g (int (num_targets m) * wSize b) pr"
    and "\<And>c. fold_result (\<lambda>t. feed t c) (targets m) (queues pr) = Inr (qs c)"
  shows "\<exists>c pr'. write_broadcast host g b port pr = ret () pr' \<and> used c = used b \<and> isbigendian c = isbigendian b
    \<and> queues pr' = qs c
    \<and> MUID_MemUsage pr' = MUID_MemUsage (budget_add g (int (num_targets m) * int (length (used b))) pr)"
proof -
  obtain c where c: "DCBuffer_copy host b = Inr c" "used c = used b" "isbigendian c = isbigendian b"
    using DCBuffer_copy_ok [OF assms(5), of host] by blast
  have nn: "0 \<le> wSize b" using assms(5) by (simp add: buf_wf_def)
  have "\<exists>pr'. broadcast_loop host g b port 0 (num_targets m) pr = ret () pr' \<and> queues pr' = qs c
     \<and> MUID_MemUsage pr' = MUID_MemUsage (budget_add g (int (num_targets m) * wSize b) pr)"
    using assms(7) [of c] assms(4)
    by (intro broadcast_loop_ok [OF assms(1-3) refl _ c(1) nn assms(6)]) simp_all
  moreover have "write_broadcast host g b port pr = broadcast_loop host g b port 0 (num_targets m) pr"
    using assms(1,3) by (simp add: write_broadcast_def with_executor_def)
  ultimately show ?thesis using c(2,3) unfolding wSize_used [OF assms(5)] by metis
qed

theorem broadcast_copies_witness:
  "\<exists>pr'. write_broadcast False 1 \<lparr>pBuf = Some ''abc'', owns_pBuf = True, wMax = 3, wSize = 2, wSizeExtracted = 1,
       isbigendian = True, appendReallocs = 0\<rparr> ''o'' two_filters = ret () pr'"
proof -
  let ?b = "\<lparr>pBuf = Some ''abc'', owns_pBuf = True, wMax = 3, wSize = 2, wSizeExtracted = 1,
       isbigendian = True, appendReallocs = 0\<rparr>"
  let ?m = "(MultiOutportManager_new ROUND_ROBIN)
    \<lparr>targets := [LocalQueueWriter 2 ''i'' 1 (DCFilterInstance_new ''F'' ''b'')], num_targets := 1\<rparr>"
  let ?ex = "\<lparr>filter_instance = DCFilterInstance_new ''F'' ''a'', in_ports = [], out_ports = [(''o'', ?m)]\<rparr>"
  have "buf_wf ?b" by (simp add: buf_wf_def mem_def)
  moreover have "budget_room 1 (int (num_targets ?m) * wSize ?b) two_filters"
    by (simp add: budget_room_def two_filters_def MemUsage_new_def int8_ok_def)
  ultimately show ?thesis
    using broadcast_copies [of two_filters 1 ?ex "''o''" ?m ?b "\<lambda>c. (queues two_filters)\<lparr>in_queues :=
      (in_queues (queues two_filters))((2, ''i'') \<mapsto> Queue_put \<lparr>buffer = Some c, muid = 1\<rparr> (set_putters [1] Queue_new))\<rparr>" False]
    by (simp add: two_filters_def feed_def map_wf_Cons) blast
qed

end
