(* ===== verification/Layout.thy ===== *)
theory Layout
  imports FilterInstance Queues "HOL-Library.Multiset"
begin

text \<open>
  The layout of a filter graph (\<open>DCLayout\<close> of \<open>src/src/dcmpi.h\<close>, \<open>src/src/DCLayout.cpp\<close>): its
  construction and the expansion of transparent copies. A pointer to a filter instance is an
  address of the store \<open>heap\<close>; \<open>next_inst\<close> is the next free address. That the pointers of a
  layout point to instances is the contract of its user; the theorems assume it (\<open>layout_wf\<close>).
\<close>

section \<open>State\<close>

record DCLayout =
  heap :: "inst_ref \<Rightarrow> DCFilterInstance"
  next_inst :: inst_ref
  filter_instances :: "inst_ref list"
  expansion_filter_instances :: "inst_ref list"
  run_hosts :: "string list"
  run_hosts_no_console :: "string list"
  has_console_filter :: bool
  init_filter_broadcast :: "DCBuffer option"
  gftids_to_instances :: "(int, inst_ref) std_map"
  host_dcmpirank :: "(string, int) std_map"
  exec_host_pool :: "string list"
  set_param_all_params :: "(string, string) std_map"
  propagated_environment_variables :: "(string, bool) std_map"

definition console_name :: string where "console_name = ''<console>''"

definition upd :: "inst_ref \<Rightarrow> (DCFilterInstance \<Rightarrow> DCFilterInstance) \<Rightarrow> DCLayout \<Rightarrow> DCLayout" where
  "upd r f l = l\<lparr>heap := (heap l)(r := f (heap l r))\<rparr>"

definition name_of :: "DCLayout \<Rightarrow> inst_ref \<Rightarrow> string" where
  "name_of l r = get_distinguished_name (heap l r)"

section \<open>Construction\<close>

text \<open>\<open>add\<close> refuses an instance that is there already and a second one of the same name.\<close>

definition layout_add :: "inst_ref \<Rightarrow> DCLayout \<Rightarrow> DCLayout result" where
  "layout_add r l =
     (if list_ex (\<lambda>r'. r' = r \<or> name_of l r' = name_of l r) (filter_instances l) then Inl Exit_failure
      else Inr (l\<lparr>filter_instances := filter_instances l @ [r]\<rparr>))"

text \<open>\<open>None\<close> is the NULL pointer. 64 is \<open>DCMPI_PORT_MAXLEN_SIZE\<close>.\<close>

definition layout_add_port :: "inst_ref option \<Rightarrow> string \<Rightarrow> inst_ref option \<Rightarrow> string \<Rightarrow> DCLayout \<Rightarrow> DCLayout result" where
  "layout_add_port filter1 port1 filter2 port2 l =
     (if 64 < length port1 then Inl Exit_failure
      else if 64 < length port2 then Inl Exit_failure
      else if port1 = [] then Inl Assert_failure
      else if port2 = [] then Inl Assert_failure
      else case filter1 of None \<Rightarrow> Inl Assert_failure
        | Some f1 \<Rightarrow> (case filter2 of None \<Rightarrow> Inl Assert_failure
            | Some f2 \<Rightarrow> Inr (upd f1 (fi_add_port port1 f2 port2) l)))"

definition set_param_all :: "string \<Rightarrow> string \<Rightarrow> DCLayout \<Rightarrow> DCLayout" where
  "set_param_all key value l = l\<lparr>set_param_all_params := map_put key value (set_param_all_params l)\<rparr>"

definition set_init_filter_broadcast :: "bool \<Rightarrow> DCBuffer \<Rightarrow> DCLayout \<Rightarrow> DCLayout result" where
  "set_init_filter_broadcast host buf l =
     bind_result (DCBuffer_copy host buf) (\<lambda>b. Inr (l\<lparr>init_filter_broadcast := Some b\<rparr>))"

definition set_exec_host_pool :: "string \<Rightarrow> DCLayout \<Rightarrow> DCLayout" where
  "set_exec_host_pool h l = l\<lparr>exec_host_pool := [h]\<rparr>"

definition set_exec_host_pools :: "string list \<Rightarrow> DCLayout \<Rightarrow> DCLayout" where
  "set_exec_host_pools hs l = l\<lparr>exec_host_pool := hs\<rparr>"

definition get_filter_count_for_dcmpi_rank :: "int \<Rightarrow> DCLayout \<Rightarrow> nat" where
  "get_filter_count_for_dcmpi_rank rank l =
     length (filter (\<lambda>r. dcmpi_rank (heap l r) = rank) (filter_instances l))"

text \<open>The beginning of \<open>execute1\<close>: all remotes are in the layout, and the parameters for all.\<close>

definition remotes_in_layout :: "DCLayout \<Rightarrow> bool" where
  "remotes_in_layout l \<longleftrightarrow> list_all (\<lambda>r. list_all (\<lambda>(p, mp).
     list_all (\<lambda>ip. ip_instance ip \<in> set (filter_instances l)) mp) (outports (heap l r))) (filter_instances l)"

definition apply_all_params :: "DCLayout \<Rightarrow> DCLayout" where
  "apply_all_params l = fold (\<lambda>(key, value). fold (\<lambda>r. upd r (set_param key value)) (filter_instances l))
     (set_param_all_params l) l"

section \<open>Transparent copies\<close>

text \<open>
  The expansion of one instance: what is left of its own hosts and labels, and the copies, whose
  hosts and labels are handed out in order.
\<close>

definition expandable :: "DCFilterInstance \<Rightarrow> bool" where
  "expandable fi \<longleftrightarrow> 1 < num_copies fi \<and> \<not> transparent_copies_expanded fi"

definition expand_self :: "DCFilterInstance \<Rightarrow> DCFilterInstance" where
  "expand_self fi =
     fi\<lparr>transparent_copies_expanded := True,
        bind_hosts := (if 1 < length (bind_hosts fi) then [hd (bind_hosts fi)] else bind_hosts fi),
        layout_labels := (if layout_labels fi \<noteq> [] then [hd (layout_labels fi)] else [])\<rparr>"

fun make_copies :: "DCFilterInstance \<Rightarrow> nat \<Rightarrow> nat \<Rightarrow> string list \<Rightarrow> string list list \<Rightarrow> DCFilterInstance list" where
  "make_copies fi n 0 hosts labels = []"
| "make_copies fi n (Suc k) hosts labels =
     fi\<lparr>copy_rank := int n,
        bind_hosts := (if hosts \<noteq> [] then [hd hosts] else bind_hosts fi),
        layout_labels := (if labels \<noteq> [] then [hd labels] else layout_labels fi)\<rparr>
     # make_copies fi (n + 1) k (tl hosts) (tl labels)"

definition new_copies :: "DCFilterInstance \<Rightarrow> DCFilterInstance list" where
  "new_copies fi = make_copies (expand_self fi) 1 (nat (num_copies fi) - 1)
     (if 1 < length (bind_hosts fi) then tl (bind_hosts fi) else [])
     (if layout_labels fi \<noteq> [] then tl (layout_labels fi) else [])"

text \<open>Every remote that is the expanded instance is followed, at the end of its port, by the copies.\<close>

definition expand_remotes :: "inst_ref \<Rightarrow> inst_ref list \<Rightarrow> MultiPort \<Rightarrow> MultiPort" where
  "expand_remotes r copies mp =
     mp @ concat (map (\<lambda>rp. if ip_instance rp = r then map (\<lambda>c. Instance_Port c (ip_port rp)) copies else []) mp)"

definition expand_outports :: "inst_ref \<Rightarrow> inst_ref list \<Rightarrow> DCFilterInstance \<Rightarrow> DCFilterInstance" where
  "expand_outports r copies i = i\<lparr>outports := map (\<lambda>(p, mp). (p, expand_remotes r copies mp)) (outports i)\<rparr>"

text \<open>\<open>vector::insert\<close> before a position, and the positions that the loop over the copies computes.\<close>

definition insert_at :: "nat \<Rightarrow> 'a \<Rightarrow> 'a list \<Rightarrow> 'a list" where
  "insert_at k x xs = take k xs @ x # drop k xs"

definition find_pos :: "'a \<Rightarrow> 'a list \<Rightarrow> nat" where
  "find_pos x xs = length (takeWhile (\<lambda>y. y \<noteq> x) xs)"

fun insert_copies :: "nat \<Rightarrow> nat \<Rightarrow> 'a list \<Rightarrow> 'a list \<Rightarrow> 'a list" where
  "insert_copies u nci [] fis = fis"
| "insert_copies u nci (c # cs) fis =
     insert_copies u (nci + 1) cs (insert_at (find_pos (fis ! u) fis + nci) c fis)"

definition expand_at :: "nat \<Rightarrow> DCLayout \<Rightarrow> DCLayout result" where
  "expand_at u l =
     (let r = filter_instances l ! u; fi = heap l r
      in if 1 < length (bind_hosts fi) \<and> int (length (bind_hosts fi)) \<noteq> num_copies fi then Inl Assert_failure
         else let cs = new_copies fi; n = next_inst l; refs = [n..<n + length cs];
                h = (\<lambda>i. if n \<le> i \<and> i < n + length cs then cs ! (i - n)
                         else if i = r then expand_self fi else heap l i);
                h' = (\<lambda>i. if i \<in> set (filter_instances l) then expand_outports r refs (h i) else h i)
              in Inr (l\<lparr>heap := h', next_inst := n + length cs,
                expansion_filter_instances := expansion_filter_instances l @ refs,
                filter_instances := insert_copies u 0 refs (filter_instances l)\<rparr>))"

text \<open>The first instance that is to be expanded.\<close>

definition find_expandable :: "DCLayout \<Rightarrow> nat option" where
  "find_expandable l = find (\<lambda>u. expandable (heap l (filter_instances l ! u))) [0..<length (filter_instances l)]"

definition expandables :: "DCLayout \<Rightarrow> nat" where
  "expandables l = length (filter (\<lambda>r. expandable (heap l r)) (filter_instances l))"

lemma mset_insert_copies: "mset (insert_copies u nci cs fis) = mset cs + mset fis"
proof (induction u nci cs fis rule: insert_copies.induct)
  case (2 u nci c cs fis)
  have "mset (insert_at k c fis) = add_mset c (mset fis)" for k
    by (metis add_mset_add_single append_take_drop_id insert_at_def mset.simps(2) mset_append
        union_mset_add_mset_right)
  with 2 show ?case by simp
qed simp

lemma make_copies_not_expandable:
  "transparent_copies_expanded fi \<Longrightarrow> c \<in> set (make_copies fi n k hs ls) \<Longrightarrow> \<not> expandable c"
  by (induction fi n k hs ls rule: make_copies.induct) (auto simp: expandable_def)

lemma new_copies_not_expandable: "c \<in> set (new_copies fi) \<Longrightarrow> \<not> expandable c"
  unfolding new_copies_def by (rule make_copies_not_expandable) (simp_all add: expand_self_def)

lemma expandable_outports [simp]: "expandable (expand_outports r cs fi) = expandable fi"
  by (simp add: expandable_def expand_outports_def)

lemma expandable_self [simp]: "\<not> expandable (expand_self fi)"
  by (simp add: expandable_def expand_self_def)

lemma find_expandable_Some:
  "find_expandable l = Some u \<Longrightarrow> u < length (filter_instances l) \<and> expandable (heap l (filter_instances l ! u))"
  unfolding find_expandable_def by (metis (no_types, lifting) atLeastLessThan_iff find_Some_iff nth_mem set_upt)

lemma find_expandable_None:
  "find_expandable l = None \<longleftrightarrow> (\<forall>r\<in>set (filter_instances l). \<not> expandable (heap l r))"
  unfolding find_expandable_def find_None_iff by (auto simp: in_set_conv_nth dest: nth_mem)

lemma expand_atD:
  assumes "expand_at u l = Inr l'"
  defines "r \<equiv> filter_instances l ! u"
  defines "cs \<equiv> new_copies (heap l r)"
  defines "refs \<equiv> [next_inst l..<next_inst l + length cs]"
  defines "h \<equiv> (\<lambda>i. if i \<in> set refs then cs ! (i - next_inst l) else if i = r then expand_self (heap l r) else heap l i)"
  shows "heap l' i = (if i \<in> set (filter_instances l) then expand_outports r refs (h i) else h i)"
    and "filter_instances l' = insert_copies u 0 refs (filter_instances l)"
    and "next_inst l' = next_inst l + length cs"
    and "length (bind_hosts (heap l r)) \<le> 1 \<or> int (length (bind_hosts (heap l r))) = num_copies (heap l r)"
  using assms(1) by (auto simp: expand_at_def Let_def r_def cs_def refs_def h_def split: if_splits)

lemma expand_at_decreases:
  assumes "find_expandable l = Some u" and "expand_at u l = Inr l'"
  shows "expandables l' < expandables l"
proof -
  let ?fis = "filter_instances l" and ?r = "filter_instances l ! u"
  let ?cs = "new_copies (heap l ?r)" and ?n = "next_inst l"
  let ?refs = "[?n..<?n + length ?cs]"
  have u: "?r \<in> set ?fis" "expandable (heap l ?r)" using find_expandable_Some [OF assms(1)] by auto
  note e = expand_atD [OF assms(2)]
  have l': "mset (filter_instances l') = mset ?refs + mset ?fis"
    unfolding e(2) by (rule mset_insert_copies)
  have new: "\<not> expandable (heap l' i)" if "i \<in> set ?refs" for i
  proof -
    have "?cs ! (i - ?n) \<in> set ?cs" using that by (intro nth_mem) auto
    then show ?thesis using that new_copies_not_expandable unfolding e(1) by auto
  qed
  have old: "expandable (heap l' i) \<Longrightarrow> expandable (heap l i) \<and> i \<noteq> ?r" for i
    using new [of i] unfolding e(1) by (auto split: if_splits)
  have "filter_mset (\<lambda>r. expandable (heap l' r)) (mset ?refs) = {#}"
    using new by (intro filter_mset_eq_conv [THEN iffD2]) auto
  then have "expandables l' = size (filter_mset (\<lambda>r. expandable (heap l' r)) (mset ?fis))"
    unfolding expandables_def size_mset [symmetric] mset_filter l' filter_union_mset
    by simp
  also have "\<dots> < size (filter_mset (\<lambda>r. expandable (heap l r)) (mset ?fis))"
  proof (rule mset_subset_size, rule subset_mset.le_neq_trans)
    show "filter_mset (\<lambda>r. expandable (heap l' r)) (mset ?fis) \<subseteq># filter_mset (\<lambda>r. expandable (heap l r)) (mset ?fis)"
      using old by (intro filter_mset_mono_strong) auto
    have "?r \<in># filter_mset (\<lambda>r. expandable (heap l r)) (mset ?fis)" using u by simp
    moreover have "?r \<notin># filter_mset (\<lambda>r. expandable (heap l' r)) (mset ?fis)" using old by auto
    ultimately show "filter_mset (\<lambda>r. expandable (heap l' r)) (mset ?fis)
        \<noteq> filter_mset (\<lambda>r. expandable (heap l r)) (mset ?fis)" by metis
  qed
  also have "\<dots> = expandables l"
    unfolding expandables_def size_mset [symmetric] mset_filter ..
  finally show ?thesis .
qed

text \<open>The loop: expand the first instance that needs it and look again, until none does.\<close>

function expand_transparents :: "DCLayout \<Rightarrow> DCLayout result" where
  "expand_transparents l =
     (case find_expandable l of
        None \<Rightarrow> Inr l
      | Some u \<Rightarrow> (case expand_at u l of
            Inl e \<Rightarrow> Inl e
          | Inr l' \<Rightarrow> expand_transparents l'))"
  by pat_completeness auto

termination expand_transparents
  by (relation "measure expandables") (simp_all add: expand_at_decreases)

declare expand_transparents.simps [simp del]

section \<open>What the expansion does\<close>

text \<open>The \<open>i\<close>-th of the copies that an instance asks for; the instance itself becomes the \<open>0\<close>-th.\<close>

definition copy_of :: "DCFilterInstance \<Rightarrow> nat \<Rightarrow> DCFilterInstance" where
  "copy_of fi i = fi\<lparr>transparent_copies_expanded := True, copy_rank := int i,
     bind_hosts := (if 1 < length (bind_hosts fi) then [bind_hosts fi ! i] else bind_hosts fi),
     layout_labels := (if layout_labels fi \<noteq> [] then [layout_labels fi ! i] else [])\<rparr>"

definition ports_of :: "DCFilterInstance \<Rightarrow> string \<Rightarrow> MultiPort" where
  "ports_of fi p = map_get_def p [] (outports fi)"

definition links :: "DCLayout \<Rightarrow> inst_ref \<Rightarrow> string \<Rightarrow> Instance_Port set" where
  "links l r p = set (ports_of (heap l r) p)"

definition noports :: "DCFilterInstance \<Rightarrow> DCFilterInstance" where
  "noports fi = fi\<lparr>outports := []\<rparr>"

text \<open>As the user has built it: nothing is expanded, and hosts and labels fit the number of copies.\<close>

definition unexpanded :: "DCFilterInstance \<Rightarrow> bool" where
  "unexpanded fi \<longleftrightarrow> copy_rank fi = 0 \<and> \<not> transparent_copies_expanded fi
     \<and> (1 < num_copies fi \<longrightarrow> (1 < length (bind_hosts fi) \<longrightarrow> int (length (bind_hosts fi)) = num_copies fi)
        \<and> (layout_labels fi \<noteq> [] \<longrightarrow> int (length (layout_labels fi)) = num_copies fi))"

definition layout_wf :: "DCLayout \<Rightarrow> bool" where
  "layout_wf l \<longleftrightarrow> distinct (filter_instances l) \<and> (\<forall>r\<in>set (filter_instances l). r < next_inst l)
     \<and> (\<forall>r\<in>set (filter_instances l). \<forall>p. \<forall>ip\<in>links l r p. ip_instance ip \<in> set (filter_instances l))"

lemma make_copies_length: "length (make_copies fi n k hs ls) = k"
  by (induction fi n k hs ls rule: make_copies.induct) auto

lemma make_copies_nth:
  "i < k \<Longrightarrow> make_copies fi n k hs ls ! i = fi\<lparr>copy_rank := int (n + i),
     bind_hosts := (if i < length hs then [hs ! i] else bind_hosts fi),
     layout_labels := (if i < length ls then [ls ! i] else layout_labels fi)\<rparr>"
proof (induction fi n k hs ls arbitrary: i rule: make_copies.induct)
  case (1 fi n hs ls)
  then show ?case by simp
next
  case (2 fi n k hs ls)
  show ?case
  proof (cases i)
    case 0
    then show ?thesis by (simp add: hd_conv_nth)
  next
    case (Suc j)
    have hs: "j < length (tl hs) \<longleftrightarrow> i < length hs" "j < length (tl hs) \<Longrightarrow> tl hs ! j = hs ! i"
      using Suc by (auto simp: nth_tl)
    have ls: "j < length (tl ls) \<longleftrightarrow> i < length ls" "j < length (tl ls) \<Longrightarrow> tl ls ! j = ls ! i"
      using Suc by (auto simp: nth_tl)
    have "make_copies fi n (Suc k) hs ls ! i = make_copies fi (n + 1) k (tl hs) (tl ls) ! j"
      using Suc by simp
    also have "\<dots> = fi\<lparr>copy_rank := int (n + 1 + j),
       bind_hosts := (if j < length (tl hs) then [tl hs ! j] else bind_hosts fi),
       layout_labels := (if j < length (tl ls) then [tl ls ! j] else layout_labels fi)\<rparr>"
      using 2 Suc by (intro "2.IH") simp
    finally show ?thesis using hs ls Suc by (simp cong: if_cong)
  qed
qed

lemma new_copies_copy_of:
  assumes "unexpanded fi" and "1 < num_copies fi"
  shows "expand_self fi = copy_of fi 0" and "new_copies fi = map (copy_of fi) [1..<nat (num_copies fi)]"
proof -
  have hosts: "1 < length (bind_hosts fi) \<Longrightarrow> length (bind_hosts fi) = nat (num_copies fi)"
    and labels: "layout_labels fi \<noteq> [] \<Longrightarrow> length (layout_labels fi) = nat (num_copies fi)"
    using assms by (auto simp: unexpanded_def)
  have rank: "fi = fi\<lparr>copy_rank := 0\<rparr>" using assms(1) by (simp add: unexpanded_def)
  show "expand_self fi = copy_of fi 0"
    using hd_conv_nth [of "bind_hosts fi"]
    by (subst rank) (cases "bind_hosts fi = []"; simp add: expand_self_def copy_of_def hd_conv_nth)
  show "new_copies fi = map (copy_of fi) [1..<nat (num_copies fi)]"
  proof (rule nth_equalityI)
    show "length (new_copies fi) = length (map (copy_of fi) [1..<nat (num_copies fi)])"
      by (simp add: new_copies_def make_copies_length)
    fix i assume "i < length (new_copies fi)"
    then have i: "i < nat (num_copies fi) - 1" by (simp add: new_copies_def make_copies_length)
    then show "new_copies fi ! i = map (copy_of fi) [1..<nat (num_copies fi)] ! i"
      using hosts labels unfolding new_copies_def make_copies_nth [OF i]
      by (cases "1 < length (bind_hosts fi)"; cases "layout_labels fi = []")
        (simp_all add: copy_of_def expand_self_def nth_tl)
  qed
qed

lemma ports_of_copy [simp]: "ports_of (copy_of fi i) = ports_of fi"
  by (simp add: ports_of_def [abs_def] copy_of_def)

lemma noports_expand [simp]: "noports (expand_outports r cs fi) = noports fi"
  by (simp add: noports_def expand_outports_def)

lemma noports_sel [simp]:
  "copy_rank (noports fi) = copy_rank fi" "num_copies (noports fi) = num_copies fi"
  "transparent_copies_expanded (noports fi) = transparent_copies_expanded fi"
  "bind_hosts (noports fi) = bind_hosts fi" "layout_labels (noports fi) = layout_labels fi"
  by (simp_all add: noports_def)

lemma set_expand_remotes:
  "set (expand_remotes r cs mp) = set mp \<union> {Instance_Port c q | c q. c \<in> set cs \<and> Instance_Port r q \<in> set mp}"
proof -
  have *: "(\<exists>q. ip = Instance_Port c q \<and> Instance_Port r q \<in> set mp)
      \<longleftrightarrow> (\<exists>rp\<in>set mp. ip_instance rp = r \<and> ip = Instance_Port c (ip_port rp))" for ip c
    by (metis Instance_Port.collapse Instance_Port.sel)
  have "set (expand_remotes r cs mp) = set mp \<union> {ip. \<exists>rp\<in>set mp. ip_instance rp = r
      \<and> ip \<in> (\<lambda>c. Instance_Port c (ip_port rp)) ` set cs}"
    unfolding expand_remotes_def by (auto split: if_splits)
  also have "\<dots> = set mp \<union> {Instance_Port c q | c q. c \<in> set cs \<and> Instance_Port r q \<in> set mp}"
    using * by blast
  finally show ?thesis .
qed

lemma ports_expand:
  "set (ports_of (expand_outports r cs fi) p) = set (ports_of fi p)
     \<union> {Instance_Port c q | c q. c \<in> set cs \<and> Instance_Port r q \<in> set (ports_of fi p)}"
proof -
  have "map_of (map (\<lambda>(p, mp). (p, expand_remotes r cs mp)) xs) p = map_option (expand_remotes r cs) (map_of xs p)" for xs
    by (induction xs) auto
  then have "ports_of (expand_outports r cs fi) p = expand_remotes r cs (ports_of fi p)"
    by (auto simp: ports_of_def map_get_def_def expand_outports_def expand_remotes_def split: option.splits)
  then show ?thesis by (simp add: set_expand_remotes)
qed

lemma find_pos_append:
  assumes "x \<notin> set pre"
  shows "find_pos x (pre @ x # post) = length pre"
proof -
  have "takeWhile (\<lambda>y. y \<noteq> x) (pre @ x # post) = pre" using assms by (induction pre) auto
  then show ?thesis by (simp add: find_pos_def)
qed

lemma insert_copies_before:
  assumes "set (ins @ cs @ [r]) \<inter> set pre = {}"
  shows "insert_copies (length pre) (length ins) cs (pre @ ins @ r # post) = pre @ ins @ cs @ r # post"
  using assms
proof (induction cs arbitrary: ins)
  case Nil
  then show ?case by simp
next
  case (Cons c cs)
  have "find_pos ((pre @ ins @ r # post) ! length pre) (pre @ ins @ r # post) = length pre"
    using Cons.prems by (cases ins) (auto simp: find_pos_append)
  then have "insert_copies (length pre) (length ins) (c # cs) (pre @ ins @ r # post)
      = insert_copies (length pre) (length (ins @ [c])) cs (pre @ (ins @ [c]) @ r # post)"
    by (simp add: insert_at_def)
  also have "\<dots> = pre @ (ins @ [c]) @ cs @ r # post"
    using Cons.prems by (intro Cons.IH) auto
  finally show ?case by simp
qed

lemma noports_copy: "noports (copy_of fi i) = copy_of (noports fi) i"
  by (cases fi) (simp add: noports_def copy_of_def)

lemma noports_unexpanded: "unexpanded (noports fi) = unexpanded fi"
  by (simp add: unexpanded_def)

lemma expandable_noports: "expandable (noports fi) = expandable fi"
  by (simp add: expandable_def)

text \<open>
  How far the expansion of \<open>l0\<close> has come in \<open>l\<close>: \<open>G a\<close> are the addresses of the copies of \<open>a\<close>, its
  own first. In the list of the layout the new ones stand before \<open>a\<close>.
\<close>

definition groups :: "DCLayout \<Rightarrow> (inst_ref \<Rightarrow> inst_ref list) \<Rightarrow> DCLayout \<Rightarrow> bool" where
  "groups l0 G l \<longleftrightarrow>
     filter_instances l = concat (map (\<lambda>a. tl (G a) @ [a]) (filter_instances l0))
     \<and> (\<forall>a\<in>set (filter_instances l0). G a \<noteq> [] \<and> hd (G a) = a)
     \<and> distinct (filter_instances l) \<and> (\<forall>r\<in>set (filter_instances l). r < next_inst l)"

definition grown :: "DCLayout \<Rightarrow> (inst_ref \<Rightarrow> inst_ref list) \<Rightarrow> DCLayout \<Rightarrow> bool" where
  "grown l0 G l \<longleftrightarrow> (\<forall>a\<in>set (filter_instances l0).
     if transparent_copies_expanded (heap l a)
     then 1 < num_copies (heap l0 a) \<and> length (G a) = nat (num_copies (heap l0 a))
       \<and> (\<forall>i<length (G a). noports (heap l (G a ! i)) = noports (copy_of (heap l0 a) i))
     else G a = [a] \<and> noports (heap l a) = noports (heap l0 a))"

definition linked :: "DCLayout \<Rightarrow> (inst_ref \<Rightarrow> inst_ref list) \<Rightarrow> DCLayout \<Rightarrow> bool" where
  "linked l0 G l \<longleftrightarrow>
     (\<forall>r\<in>set (filter_instances l). \<forall>p. \<forall>ip\<in>links l r p. ip_instance ip \<in> set (filter_instances l))
     \<and> (\<forall>a\<in>set (filter_instances l0). \<forall>b\<in>set (filter_instances l0). \<forall>x\<in>set (G a). \<forall>y\<in>set (G b). \<forall>p q.
          Instance_Port y q \<in> links l x p \<longleftrightarrow> Instance_Port b q \<in> links l0 a p)"

lemma grownD:
  assumes "grown l0 G l" and "a \<in> set (filter_instances l0)"
  shows "transparent_copies_expanded (heap l a) \<Longrightarrow> 1 < num_copies (heap l0 a)"
    and "transparent_copies_expanded (heap l a) \<Longrightarrow> length (G a) = nat (num_copies (heap l0 a))"
    and "transparent_copies_expanded (heap l a) \<Longrightarrow> i < length (G a) \<Longrightarrow>
      noports (heap l (G a ! i)) = noports (copy_of (heap l0 a) i)"
    and "\<not> transparent_copies_expanded (heap l a) \<Longrightarrow> G a = [a]"
    and "\<not> transparent_copies_expanded (heap l a) \<Longrightarrow> noports (heap l a) = noports (heap l0 a)"
  using bspec [OF assms(1) [unfolded grown_def] assms(2)] by simp_all

lemma groups_bound: "groups l0 G l \<Longrightarrow> x \<in> set (filter_instances l) \<Longrightarrow> x < next_inst l"
  unfolding groups_def by blast

lemma groups_hd: "groups l0 G l \<Longrightarrow> a \<in> set (filter_instances l0) \<Longrightarrow> a \<in> set (G a)"
  unfolding groups_def by (metis hd_in_set)

lemma group_set:
  assumes "groups l0 G l" and "a \<in> set (filter_instances l0)"
  shows "set (tl (G a) @ [a]) = set (G a)"
proof -
  have "G a \<noteq> []" "hd (G a) = a" using assms unfolding groups_def by blast+
  then show ?thesis by (cases "G a") auto
qed

lemma groups_disjoint:
  assumes "groups l0 G l" and "a \<in> set (filter_instances l0)" and "b \<in> set (filter_instances l0)" and "a \<noteq> b"
  shows "set (G a) \<inter> set (G b) = {}"
proof -
  let ?f = "\<lambda>a. tl (G a) @ [a]"
  have "distinct (concat (map ?f (filter_instances l0)))" using assms(1) unfolding groups_def by metis
  moreover have "?f a \<in> set (map ?f (filter_instances l0))" "?f b \<in> set (map ?f (filter_instances l0))"
    using assms(2,3) by auto
  moreover have "?f a \<noteq> ?f b" using assms(4) by simp
  ultimately have "set (?f a) \<inter> set (?f b) = {}" unfolding distinct_concat_iff by blast
  then show ?thesis unfolding group_set [OF assms(1,2)] group_set [OF assms(1,3)] .
qed

lemma groups_set:
  assumes "groups l0 G l"
  shows "set (filter_instances l) = (\<Union>a\<in>set (filter_instances l0). set (G a))"
proof -
  have "(\<Union>a\<in>set (filter_instances l0). set (tl (G a) @ [a])) = (\<Union>a\<in>set (filter_instances l0). set (G a))"
    using group_set [OF assms] by (intro SUP_cong) simp_all
  moreover have "filter_instances l = concat (map (\<lambda>a. tl (G a) @ [a]) (filter_instances l0))"
    using assms unfolding groups_def by blast
  ultimately show ?thesis by (simp only: set_concat set_map image_image)
qed

text \<open>The state of affairs when the expansion of \<open>a\<close> begins.\<close>

lemma next_group:
  assumes "groups l0 G l" and "grown l0 G l" and "find_expandable l = Some u"
    and "distinct (filter_instances l0)"
  obtains r p0 q0 where "filter_instances l ! u = r" "expandable (heap l r)"
    "filter_instances l0 = p0 @ r # q0" "G r = [r]" "noports (heap l r) = noports (heap l0 r)"
    "u = length (concat (map (\<lambda>a. tl (G a) @ [a]) p0))"
    "filter_instances l = concat (map (\<lambda>a. tl (G a) @ [a]) p0) @ r # concat (map (\<lambda>a. tl (G a) @ [a]) q0)"
proof -
  let ?r = "filter_instances l ! u" and ?f = "\<lambda>a. tl (G a) @ [a]"
  have u: "u < length (filter_instances l)" "expandable (heap l ?r)"
    using find_expandable_Some [OF assms(3)] by auto
  then have "?r \<in> set (filter_instances l)" by simp
  then obtain a where a: "a \<in> set (filter_instances l0)" "?r \<in> set (G a)"
    unfolding groups_set [OF assms(1)] by blast
  have flag: "\<not> transparent_copies_expanded (heap l ?r)" using u(2) by (simp add: expandable_def)
  have "\<not> transparent_copies_expanded (heap l a)"
  proof
    assume "transparent_copies_expanded (heap l a)"
    moreover obtain i where "i < length (G a)" "G a ! i = ?r" using a(2) by (meson in_set_conv_nth)
    ultimately have "noports (heap l ?r) = noports (copy_of (heap l0 a) i)"
      using grownD(3) [OF assms(2) a(1)] by metis
    then have "transparent_copies_expanded (heap l ?r) = transparent_copies_expanded (copy_of (heap l0 a) i)"
      by (metis noports_sel(3))
    with flag show False by (simp add: copy_of_def)
  qed
  then have G: "G a = [a]" "noports (heap l a) = noports (heap l0 a)"
    using grownD(4,5) [OF assms(2) a(1)] by auto
  with a(2) have r: "?r = a" by simp
  obtain p0 q0 where l0: "filter_instances l0 = p0 @ a # q0" using a(1) by (meson split_list)
  have l: "filter_instances l = concat (map ?f p0) @ a # concat (map ?f q0)"
    using assms(1) G(1) by (simp add: groups_def l0)
  have "distinct (filter_instances l)" using assms(1) unfolding groups_def by blast
  moreover have "filter_instances l ! length (concat (map ?f p0)) = a"
    "length (concat (map ?f p0)) < length (filter_instances l)" unfolding l by simp_all
  ultimately have "u = length (concat (map ?f p0))"
    using u(1) r nth_eq_iff_index_eq by metis
  from that [OF r _ l0 G this l] u(2) r show ?thesis by metis
qed

text \<open>One round of the loop: \<open>r\<close> with the copies \<open>refs\<close>.\<close>

lemma expand_at_ok:
  assumes "unexpanded (heap l (filter_instances l ! u))" and "expandable (heap l (filter_instances l ! u))"
  shows "\<exists>l'. expand_at u l = Inr l'"
  using assms by (auto simp: expand_at_def Let_def unexpanded_def expandable_def)

lemma step_groups:
  assumes l: "filter_instances l = concat (map (\<lambda>a. tl (G a) @ [a]) p0) @ r # concat (map (\<lambda>a. tl (G a) @ [a]) q0)"
    and l0: "filter_instances l0 = p0 @ r # q0" and d0: "distinct (filter_instances l0)"
    and u: "u = length (concat (map (\<lambda>a. tl (G a) @ [a]) p0))"
    and g: "groups l0 G l" and e: "expand_at u l = Inr l'"
    and refs: "refs = [next_inst l..<next_inst l + length (new_copies (heap l r))]"
  shows "groups l0 (G(r := r # refs)) l'"
proof -
  let ?pre = "concat (map (\<lambda>a. tl (G a) @ [a]) p0)" and ?post = "concat (map (\<lambda>a. tl (G a) @ [a]) q0)"
  have ur: "filter_instances l ! u = r" unfolding l u by simp
  note e' = expand_atD [OF e, unfolded ur, folded refs]
  have fresh: "set refs \<inter> set (filter_instances l) = {}" using groups_bound [OF g] unfolding refs by fastforce
  have d: "distinct (?pre @ r # ?post)" using g unfolding groups_def l by blast
  then have "set (refs @ [r]) \<inter> set ?pre = {}" using fresh unfolding l by auto
  from insert_copies_before [of "[]" refs r ?pre ?post] this
  have fis: "filter_instances l' = ?pre @ refs @ r # ?post" unfolding e'(2) l u by simp
  have same: "map (\<lambda>a. tl ((G(r := r # refs)) a) @ [a]) p0 = map (\<lambda>a. tl (G a) @ [a]) p0"
    "map (\<lambda>a. tl ((G(r := r # refs)) a) @ [a]) q0 = map (\<lambda>a. tl (G a) @ [a]) q0"
    using d0 unfolding l0 by auto
  have "filter_instances l' = concat (map (\<lambda>a. tl ((G(r := r # refs)) a) @ [a]) (filter_instances l0))"
    unfolding fis l0 map_append list.map concat_append concat.simps same fun_upd_same list.sel by simp
  moreover have "distinct refs" by (simp add: refs)
  then have "distinct (filter_instances l')"
    using d fresh unfolding fis l by auto
  moreover have "\<forall>x\<in>set (filter_instances l'). x < next_inst l'"
  proof
    fix x assume "x \<in> set (filter_instances l')"
    then have "x \<in> set refs \<or> x \<in> set (filter_instances l)" unfolding fis l by auto
    then show "x < next_inst l'" using groups_bound [OF g, of x] unfolding e'(3) refs by auto
  qed
  moreover have "\<forall>a\<in>set (filter_instances l0). (G(r := r # refs)) a \<noteq> [] \<and> hd ((G(r := r # refs)) a) = a"
    using g unfolding groups_def by simp
  ultimately show ?thesis unfolding groups_def by blast
qed

lemma step_grown:
  assumes ur: "filter_instances l ! u = r" and r: "G r = [r]" "noports (heap l r) = noports (heap l0 r)"
    and r0: "unexpanded (heap l0 r)" "expandable (heap l r)" and rin: "r \<in> set (filter_instances l0)"
    and g: "groups l0 G l" "grown l0 G l" and e: "expand_at u l = Inr l'"
    and refs: "refs = [next_inst l..<next_inst l + length (new_copies (heap l r))]"
  shows "grown l0 (G(r := r # refs)) l'"
proof -
  note e' = expand_atD [OF e, unfolded ur, folded refs]
  have f: "unexpanded (heap l r)" "1 < num_copies (heap l r)" "num_copies (heap l r) = num_copies (heap l0 r)"
    using r(2) r0 noports_unexpanded noports_sel(2) unfolding expandable_def by metis+
  note cs = new_copies_copy_of [OF f(1,2)]
  have len: "length refs = nat (num_copies (heap l0 r)) - 1" unfolding refs cs(2) using f(3) by simp
  have fresh: "set refs \<inter> set (filter_instances l) = {}" using groups_bound [OF g(1)] unfolding refs by fastforce
  have r_in: "r \<in> set (filter_instances l)" unfolding groups_set [OF g(1)] using r(1) rin by (metis UN_I list.set_intros(1))
  have nps: "noports (heap l' x) = noports (if x \<in> set refs then new_copies (heap l r) ! (x - next_inst l)
      else if x = r then expand_self (heap l r) else heap l x)" for x
    unfolding e'(1) by simp
  have group: "noports (heap l' ((r # refs) ! i)) = noports (copy_of (heap l0 r) i)" if i: "i < length (r # refs)" for i
  proof (cases i)
    case 0
    have "r \<notin> set refs" using r_in fresh by blast
    with 0 show ?thesis using nps [of r] by (simp add: cs(1) noports_copy r(2))
  next
    case (Suc j)
    then have j: "j < length refs" using i by simp
    then have "refs ! j \<in> set refs" "refs ! j - next_inst l = j" by (simp_all add: refs)
    then have "noports (heap l' (refs ! j)) = noports (new_copies (heap l r) ! j)" using nps [of "refs ! j"] by simp
    also have "new_copies (heap l r) ! j = copy_of (heap l r) (Suc j)"
      using j len f(3) unfolding cs(2) by simp
    finally show ?thesis using Suc by (simp add: noports_copy r(2))
  qed
  show ?thesis unfolding grown_def
  proof
    fix a assume a: "a \<in> set (filter_instances l0)"
    show "if transparent_copies_expanded (heap l' a)
      then 1 < num_copies (heap l0 a) \<and> length ((G(r := r # refs)) a) = nat (num_copies (heap l0 a))
        \<and> (\<forall>i<length ((G(r := r # refs)) a). noports (heap l' ((G(r := r # refs)) a ! i)) = noports (copy_of (heap l0 a) i))
      else (G(r := r # refs)) a = [a] \<and> noports (heap l' a) = noports (heap l0 a)"
    proof (cases "a = r")
      case True
      have "transparent_copies_expanded (heap l' r)"
        using group [of 0] noports_sel(3) [of "heap l' r"] noports_sel(3) [of "copy_of (heap l0 r) 0"]
        by (simp add: copy_of_def)
      with True group len f(2,3) show ?thesis by (auto simp: fun_upd_same)
    next
      case False
      have same: "noports (heap l' x) = noports (heap l x)" if "x \<in> set (G a)" for x
      proof -
        have "x \<in> set (filter_instances l)" unfolding groups_set [OF g(1)] using a that by blast
        moreover have "x \<noteq> r" using groups_disjoint [OF g(1) a rin False] that r(1) by auto
        ultimately show ?thesis using nps [of x] fresh by auto
      qed
      have "a \<in> set (G a)" using g(1) a unfolding groups_def by (metis hd_in_set)
      then have flag: "transparent_copies_expanded (heap l' a) = transparent_copies_expanded (heap l a)"
        using same noports_sel(3) by metis
      show ?thesis
      proof (cases "transparent_copies_expanded (heap l a)")
        case True
        have "noports (heap l' (G a ! i)) = noports (copy_of (heap l0 a) i)" if "i < length (G a)" for i
          using grownD(3) [OF g(2) a True that] same [OF nth_mem [OF that]] by simp
        with True False flag grownD(1,2) [OF g(2) a True] show ?thesis by simp
      next
        case unex: False
        with False flag grownD(4,5) [OF g(2) a unex] same [OF \<open>a \<in> set (G a)\<close>] show ?thesis by simp
      qed
    qed
  qed
qed

lemma ports_of_self [simp]: "ports_of (expand_self fi) = ports_of fi"
  by (simp add: ports_of_def [abs_def] expand_self_def)

lemma ports_of_make_copies: "c \<in> set (make_copies fi n k hs ls) \<Longrightarrow> ports_of c = ports_of fi"
  by (induction fi n k hs ls rule: make_copies.induct) (auto simp: ports_of_def [abs_def])

lemma step_links:
  assumes ur: "filter_instances l ! u = r" and g: "groups l0 G l" and e: "expand_at u l = Inr l'"
    and refs: "refs = [next_inst l..<next_inst l + length (new_copies (heap l r))]"
  shows "x \<in> set (filter_instances l) \<Longrightarrow>
      links l' x p = links l x p \<union> {Instance_Port c q | c q. c \<in> set refs \<and> Instance_Port r q \<in> links l x p}"
    and "x \<in> set refs \<Longrightarrow> links l' x p = links l r p"
    and "set (filter_instances l') = set refs \<union> set (filter_instances l)"
    and "set refs \<inter> set (filter_instances l) = {}"
proof -
  note e' = expand_atD [OF e, unfolded ur, folded refs]
  show fresh: "set refs \<inter> set (filter_instances l) = {}" using groups_bound [OF g] unfolding refs by fastforce
  show "links l' x p = links l x p \<union> {Instance_Port c q | c q. c \<in> set refs \<and> Instance_Port r q \<in> links l x p}"
    if "x \<in> set (filter_instances l)"
  proof -
    have "x \<notin> set refs" using that fresh by blast
    with that show ?thesis unfolding links_def e'(1) by (simp add: ports_expand)
  qed
  show "links l' x p = links l r p" if "x \<in> set refs"
  proof -
    have "new_copies (heap l r) ! (x - next_inst l) \<in> set (new_copies (heap l r))"
      using that by (intro nth_mem) (auto simp: refs)
    then have "ports_of (new_copies (heap l r) ! (x - next_inst l)) = ports_of (heap l r)"
      unfolding new_copies_def by (auto dest!: ports_of_make_copies)
    moreover have "x \<notin> set (filter_instances l)" using that fresh by blast
    ultimately show ?thesis using that unfolding links_def e'(1) by simp
  qed
  show "set (filter_instances l') = set refs \<union> set (filter_instances l)"
    using arg_cong [OF mset_insert_copies [of u 0 refs "filter_instances l"], of set_mset] e'(2) by simp
qed

lemma step_linked:
  assumes ur: "filter_instances l ! u = r" and r: "G r = [r]" and rin: "r \<in> set (filter_instances l0)"
    and g: "groups l0 G l" and k: "linked l0 G l" and e: "expand_at u l = Inr l'"
    and refs: "refs = [next_inst l..<next_inst l + length (new_copies (heap l r))]"
    and self: "\<And>p q. Instance_Port r q \<notin> links l0 r p"
  shows "linked l0 (G(r := r # refs)) l'"
proof -
  let ?G = "G(r := r # refs)"
  note st = step_links [OF ur g e refs]
  have r_in: "r \<in> set (filter_instances l)"
    unfolding groups_set [OF g] using r rin by (metis UN_I list.set_intros(1))
  have into: "ip_instance ip \<in> set (filter_instances l)" if "x \<in> set (filter_instances l)" "ip \<in> links l x p" for x p ip
    using k that unfolding linked_def by blast
  have iff: "Instance_Port y q \<in> links l x p \<longleftrightarrow> Instance_Port b q \<in> links l0 a p"
    if "a \<in> set (filter_instances l0)" "b \<in> set (filter_instances l0)" "x \<in> set (G a)" "y \<in> set (G b)" for a b x y p q
    using k that unfolding linked_def by blast
  have old: "x \<in> set (filter_instances l)" if "a \<in> set (filter_instances l0)" "x \<in> set (G a)" for a x
    unfolding groups_set [OF g] using that by blast
  have G: "x \<in> set (?G a) \<longleftrightarrow> x \<in> set (G a) \<or> a = r \<and> x \<in> set refs" for x a
    using r by auto
  have "ip_instance ip \<in> set (filter_instances l')"
    if x: "x \<in> set (filter_instances l')" and ip: "ip \<in> links l' x p" for x p ip
  proof (cases "x \<in> set refs")
    case True
    with ip into [OF r_in] show ?thesis unfolding st(2) [OF True] st(3) by blast
  next
    case False
    with x have x': "x \<in> set (filter_instances l)" unfolding st(3) by blast
    from ip into [OF x'] show ?thesis unfolding st(1) [OF x'] st(3) by force
  qed
  moreover have "Instance_Port y q \<in> links l' x p \<longleftrightarrow> Instance_Port b q \<in> links l0 a p"
    if a: "a \<in> set (filter_instances l0)" "b \<in> set (filter_instances l0)" and x: "x \<in> set (?G a)" and y: "y \<in> set (?G b)" for a b x y p q
  proof (cases "x \<in> set refs")
    case xr: True
    then have [simp]: "a = r" using x a old st(4) unfolding G by blast
    show ?thesis
    proof (cases "y \<in> set refs")
      case True
      then have "b = r" "y \<notin> set (filter_instances l)" using y a old st(4) unfolding G by blast+
      with self into [OF r_in, of "Instance_Port y q"] show ?thesis unfolding st(2) [OF xr] by auto
    next
      case False
      then have "y \<in> set (G b)" using y unfolding G by blast
      with iff [OF rin a(2), of r y] r show ?thesis unfolding st(2) [OF xr] by simp
    qed
  next
    case False
    then have x': "x \<in> set (G a)" using x unfolding G by blast
    note xin = old [OF a(1) x']
    show ?thesis
    proof (cases "y \<in> set refs")
      case True
      then have [simp]: "b = r" and "y \<notin> set (filter_instances l)" using y a old st(4) unfolding G by blast+
      then have "Instance_Port y q \<notin> links l x p" using into [OF xin, of "Instance_Port y q"] by auto
      with True iff [OF a(1) rin x', of r] r show ?thesis unfolding st(1) [OF xin] by auto
    next
      case False
      then have "y \<in> set (G b)" using y unfolding G by blast
      with iff [OF a x' this] False show ?thesis unfolding st(1) [OF xin] by auto
    qed
  qed
  ultimately show ?thesis unfolding linked_def by blast
qed

lemma expand_loop:
  assumes "distinct (filter_instances l0)" and "\<forall>r\<in>set (filter_instances l0). unexpanded (heap l0 r)"
    and "\<forall>r\<in>set (filter_instances l0). 1 < num_copies (heap l0 r) \<longrightarrow> (\<forall>p q. Instance_Port r q \<notin> links l0 r p)"
    and "groups l0 G l" and "grown l0 G l" and "linked l0 G l"
  shows "\<exists>G' l'. expand_transparents l = Inr l' \<and> groups l0 G' l' \<and> grown l0 G' l' \<and> linked l0 G' l'
    \<and> find_expandable l' = None"
  using assms(4-6)
proof (induction l arbitrary: G rule: expand_transparents.induct)
  case (1 l)
  show ?case
  proof (cases "find_expandable l")
    case None
    with 1 show ?thesis by (auto simp: expand_transparents.simps [of l])
  next
    case (Some u)
    obtain r p0 q0 where r: "filter_instances l ! u = r" "expandable (heap l r)"
      "filter_instances l0 = p0 @ r # q0" "G r = [r]" "noports (heap l r) = noports (heap l0 r)"
      "u = length (concat (map (\<lambda>a. tl (G a) @ [a]) p0))"
      "filter_instances l = concat (map (\<lambda>a. tl (G a) @ [a]) p0) @ r # concat (map (\<lambda>a. tl (G a) @ [a]) q0)"
      using next_group [OF 1(2,3) Some assms(1)] by blast
    have rin: "r \<in> set (filter_instances l0)" unfolding r(3) by simp
    have un: "unexpanded (heap l0 r)" using assms(2) rin by blast
    have "unexpanded (heap l r)" using un r(5) noports_unexpanded by metis
    then obtain l' where l': "expand_at u l = Inr l'" using expand_at_ok r(1,2) by metis
    have "1 < num_copies (heap l r)" "num_copies (heap l r) = num_copies (heap l0 r)"
      using r(2,5) noports_sel(2) unfolding expandable_def by metis+
    then have self: "\<And>p q. Instance_Port r q \<notin> links l0 r p" using assms(3) rin by auto
    let ?G = "G(r := r # [next_inst l..<next_inst l + length (new_copies (heap l r))])"
    have "groups l0 ?G l'" using step_groups [OF r(7) r(3) assms(1) r(6) 1(2) l' refl] .
    moreover have "grown l0 ?G l'" using step_grown [OF r(1,4,5) un r(2) rin 1(2,3) l' refl] .
    moreover have "linked l0 ?G l'" using step_linked [OF r(1,4) rin 1(2,4) l' refl self] .
    ultimately obtain G' l'' where "expand_transparents l' = Inr l''" "groups l0 G' l''" "grown l0 G' l''"
      "linked l0 G' l''" "find_expandable l'' = None"
      using "1.IH" [OF Some l'] by blast
    with Some l' show ?thesis by (auto simp: expand_transparents.simps [of l])
  qed
qed

lemma groups_start: "layout_wf l \<Longrightarrow> groups l (\<lambda>a. [a]) l"
  by (simp add: layout_wf_def groups_def)

lemma grown_start: "\<forall>r\<in>set (filter_instances l). unexpanded (heap l r) \<Longrightarrow> grown l (\<lambda>a. [a]) l"
  by (simp add: grown_def unexpanded_def)

lemma linked_start: "layout_wf l \<Longrightarrow> linked l (\<lambda>a. [a]) l"
  unfolding layout_wf_def linked_def by simp

section \<open>Properties\<close>

text \<open>A source that writes to two transparent copies of a sink, bound to two hosts.\<close>

definition source_and_sinks :: DCLayout where
  "source_and_sinks = \<lparr>
     heap = (\<lambda>r. if r = 0 then (DCFilterInstance_new ''Src'' ''s'')\<lparr>outports := [(''o'', [Instance_Port 1 ''i''])]\<rparr>
       else (DCFilterInstance_new ''Snk'' ''t'')\<lparr>num_copies := 2, bind_hosts := [''h1'', ''h2''],
         layout_labels := [[''h1''], [''h2'']]\<rparr>),
     next_inst = 2, filter_instances = [0, 1], expansion_filter_instances = [], run_hosts = [],
     run_hosts_no_console = [], has_console_filter = False, init_filter_broadcast = None,
     gftids_to_instances = [], host_dcmpirank = [], exec_host_pool = [''h1''], set_param_all_params = [],
     propagated_environment_variables = []\<rparr>"

text \<open>
  C10. Expanding the transparent copies of a layout always ends. Every instance \<open>a\<close> that asks for
  \<open>k\<close> copies is there \<open>k\<close> times afterwards, the \<open>i\<close>-th time with copy rank, host and label \<open>i\<close>,
  its new copies before \<open>a\<close> itself in the list; all other instances are unchanged but for their ports. Any
  copy of \<open>a\<close> is connected to any copy of \<open>b\<close> exactly by the ports that connected \<open>a\<close> to
  \<open>b\<close>. (A transparent instance that is connected to itself is excluded: its
  copies would only be connected to \<open>a\<close>.)
\<close>

theorem expand_transparents_copies:
  assumes "layout_wf l" and "\<forall>r\<in>set (filter_instances l). unexpanded (heap l r)"
    and "\<forall>r\<in>set (filter_instances l). 1 < num_copies (heap l r) \<longrightarrow> (\<forall>p q. Instance_Port r q \<notin> links l r p)"
  shows "\<exists>G l'. expand_transparents l = Inr l'
    \<and> filter_instances l' = concat (map (\<lambda>a. tl (G a) @ [a]) (filter_instances l)) \<and> distinct (filter_instances l')
    \<and> (\<forall>a\<in>set (filter_instances l). hd (G a) = a \<and> length (G a) = max 1 (nat (num_copies (heap l a)))
        \<and> (if 1 < num_copies (heap l a)
           then \<forall>i<length (G a). noports (heap l' (G a ! i)) = noports (copy_of (heap l a) i)
           else noports (heap l' a) = noports (heap l a)))
    \<and> (\<forall>a\<in>set (filter_instances l). \<forall>b\<in>set (filter_instances l). \<forall>x\<in>set (G a). \<forall>y\<in>set (G b). \<forall>p q.
         Instance_Port y q \<in> links l' x p \<longleftrightarrow> Instance_Port b q \<in> links l a p)
    \<and> (\<forall>x\<in>set (filter_instances l'). \<forall>p. \<forall>ip\<in>links l' x p. ip_instance ip \<in> set (filter_instances l'))"
proof -
  have "distinct (filter_instances l)" using assms(1) by (simp add: layout_wf_def)
  from expand_loop [OF this assms(2,3) groups_start [OF assms(1)] grown_start [OF assms(2)] linked_start [OF assms(1)]]
  obtain G l' where e: "expand_transparents l = Inr l'" and g: "groups l G l'" "grown l G l'" "linked l G l'"
    and none: "find_expandable l' = None" by blast
  have "hd (G a) = a \<and> length (G a) = max 1 (nat (num_copies (heap l a)))
      \<and> (if 1 < num_copies (heap l a)
         then \<forall>i<length (G a). noports (heap l' (G a ! i)) = noports (copy_of (heap l a) i)
         else noports (heap l' a) = noports (heap l a))" if a: "a \<in> set (filter_instances l)" for a
  proof (cases "transparent_copies_expanded (heap l' a)")
    case True
    have "hd (G a) = a" using g(1) a unfolding groups_def by blast
    with grownD(1-3) [OF g(2) a True] show ?thesis by auto
  next
    case False
    note G = grownD(4,5) [OF g(2) a False]
    have "a \<in> set (filter_instances l')" unfolding groups_set [OF g(1)] using a groups_hd [OF g(1) a] by blast
    then have "\<not> 1 < num_copies (heap l' a)"
      using none False unfolding find_expandable_None by (auto simp: expandable_def)
    moreover have "num_copies (heap l' a) = num_copies (heap l a)" using G(2) noports_sel(2) by metis
    ultimately show ?thesis using G by simp
  qed
  moreover have "filter_instances l' = concat (map (\<lambda>a. tl (G a) @ [a]) (filter_instances l))" "distinct (filter_instances l')"
    using g(1) unfolding groups_def by blast+
  ultimately show ?thesis using e g(3) unfolding linked_def by blast
qed

theorem expand_transparents_copies_witness:
  "\<exists>l' x y. expand_transparents source_and_sinks = Inr l' \<and> filter_instances l' = [0, x, 1]
     \<and> dcmpi_host (heap l' x) = [] \<and> bind_hosts (heap l' x) = [''h2''] \<and> bind_hosts (heap l' 1) = [''h1'']
     \<and> Instance_Port x ''i'' \<in> links l' 0 ''o''"
proof -
  have p: "links source_and_sinks r p = (if r = 0 \<and> p = ''o'' then {Instance_Port 1 ''i''} else {})" for r p
    by (simp add: links_def ports_of_def map_get_def_def source_and_sinks_def DCFilterInstance_new_def)
  have "layout_wf source_and_sinks" "\<forall>r\<in>set (filter_instances source_and_sinks). unexpanded (heap source_and_sinks r)"
    "\<forall>r\<in>set (filter_instances source_and_sinks). 1 < num_copies (heap source_and_sinks r) \<longrightarrow>
       (\<forall>p q. Instance_Port r q \<notin> links source_and_sinks r p)"
    unfolding layout_wf_def p by (auto simp: source_and_sinks_def unexpanded_def DCFilterInstance_new_def)
  from expand_transparents_copies [OF this] obtain G l' where l': "expand_transparents source_and_sinks = Inr l'"
    "filter_instances l' = concat (map (\<lambda>a. tl (G a) @ [a]) (filter_instances source_and_sinks))"
    and G: "\<forall>a\<in>set (filter_instances source_and_sinks). hd (G a) = a \<and> length (G a) = max 1 (nat (num_copies (heap source_and_sinks a)))
        \<and> (if 1 < num_copies (heap source_and_sinks a)
           then \<forall>i<length (G a). noports (heap l' (G a ! i)) = noports (copy_of (heap source_and_sinks a) i)
           else noports (heap l' a) = noports (heap source_and_sinks a))"
    and k: "\<forall>a\<in>set (filter_instances source_and_sinks). \<forall>b\<in>set (filter_instances source_and_sinks).
        \<forall>x\<in>set (G a). \<forall>y\<in>set (G b). \<forall>p q. Instance_Port y q \<in> links l' x p \<longleftrightarrow> Instance_Port b q \<in> links source_and_sinks a p"
    by blast
  have n: "filter_instances source_and_sinks = [0, 1]" "num_copies (heap source_and_sinks 0) = 1"
    "num_copies (heap source_and_sinks 1) = 2" by (simp_all add: source_and_sinks_def DCFilterInstance_new_def)
  have "length (G 0) = 1" "hd (G 0) = 0" "length (G 1) = 2" "hd (G 1) = 1" using G n by auto
  then obtain x where G01: "G 0 = [0]" "G 1 = [1, x]"
    by (cases "G 0"; cases "G 1") (auto simp: length_Suc_conv numeral_2_eq_2)
  have nth: "noports (heap l' (G 1 ! i)) = noports (copy_of (heap source_and_sinks 1) i)" if "i < 2" for i
    using G n that G01(2) by auto
  have "bind_hosts (heap l' (G 1 ! i)) = [[''h1'', ''h2''] ! i] \<and> dcmpi_host (heap l' (G 1 ! i)) = []" if "i < 2" for i
    using arg_cong [OF nth [OF that], of bind_hosts] arg_cong [OF nth [OF that], of dcmpi_host]
    by (simp add: noports_def copy_of_def source_and_sinks_def DCFilterInstance_new_def)
  from this [of 0] this [of 1] have "bind_hosts (heap l' 1) = [''h1'']" "bind_hosts (heap l' x) = [''h2'']" "dcmpi_host (heap l' x) = []"
    unfolding G01 by simp_all
  moreover have "Instance_Port x ''i'' \<in> links l' 0 ''o''" using k n G01 p by auto
  moreover have "filter_instances l' = [0, x, 1]" using l'(2) n(1) G01 by simp
  ultimately show ?thesis using l'(1) by blast
qed

end
