(* ===== verification/Placement.thy ===== *)
theory Placement
  imports Layout
begin

text \<open>
  Placement (\<open>DCLayout::do_placement\<close> of \<open>src/src/DCLayout.cpp\<close>): every instance gets a host, a
  gftid, runtime labels and its rank among the copies on its host; the hosts of the run get
  their ranks; the ports between instances become ports between gftids. \<open>resembles\<close> is
  \<open>resembles_localhost\<close>, a question to the name service, and \<open>localhost\<close> the name of this host.
\<close>

section \<open>Hosts\<close>

text \<open>The variables of the loop over the instances.\<close>

record placing =
  pl_heap :: "inst_ref \<Rightarrow> DCFilterInstance"
  hosts_ring :: "string Ring"
  placed_hosts_from_pool :: "string std_set"
  placed_hosts_not_in_pool :: "string std_set"
  next_gftid :: int
  host_to_placed_filter_counts :: "(string, (string, int) std_map) std_map"

definition count_of :: "(string, (string, int) std_map) std_map \<Rightarrow> string \<Rightarrow> string \<Rightarrow> int" where
  "count_of m host name = map_get_def name 0 (map_get_def host [] m)"

definition count_up :: "string \<Rightarrow> string \<Rightarrow> (string, (string, int) std_map) std_map \<Rightarrow> (string, (string, int) std_map) std_map" where
  "count_up host name m = map_put host (map_put name (count_of m host name + 1) (map_get_def host [] m)) m"

definition is_bound :: "DCFilterInstance \<Rightarrow> bool" where
  "is_bound fi \<longleftrightarrow> bind_hosts fi \<noteq> [] \<and> hd (bind_hosts fi) \<noteq> []"

text \<open>The host of an instance: its own, none for the console, or the next one of the pool.\<close>

definition pick_host :: "DCFilterInstance \<Rightarrow> placing \<Rightarrow> (string \<times> placing) result" where
  "pick_host fi s =
     (if is_bound fi then
        (if length (bind_hosts fi) = 1
         then Inr (hd (bind_hosts fi), s\<lparr>placed_hosts_not_in_pool :=
           set_put (hd (bind_hosts fi)) (placed_hosts_not_in_pool s)\<rparr>)
         else Inl Assert_failure)
      else if filtername fi = console_name then Inr (console_name, s)
      else if Ring_size (hosts_ring s) = 0 then Inl Exit_failure
      else bind_result (Ring_next (hosts_ring s)) (\<lambda>(bh, ring').
        Inr (bh, s\<lparr>hosts_ring := ring', placed_hosts_from_pool := set_put bh (placed_hosts_from_pool s)\<rparr>)))"

definition place_one :: "(string \<Rightarrow> bool) \<Rightarrow> string \<Rightarrow> inst_ref \<Rightarrow> placing \<Rightarrow> placing result" where
  "place_one resembles localhost r s =
     (let fi = pl_heap s r
      in bind_result (pick_host fi s) (\<lambda>(bh, s1).
        let host = (if bh \<noteq> console_name \<and> resembles bh then localhost else bh);
            name = get_distinguished_name fi
        in if 1 < length (layout_labels fi) then Inl Assert_failure
           else Inr (s1\<lparr>pl_heap := (pl_heap s1)(r := fi\<lparr>given_bind_host := bh, dcmpi_host := host,
               gftid := next_gftid s1,
               runtime_labels := (if layout_labels fi \<noteq> [] then hd (layout_labels fi) else runtime_labels fi),
               local_copy_rank := count_of (host_to_placed_filter_counts s1) host name\<rparr>),
             next_gftid := next_gftid s1 + 1,
             host_to_placed_filter_counts := count_up host name (host_to_placed_filter_counts s1)\<rparr>)))"

section \<open>Ranks of hosts\<close>

text \<open>
  The hosts of the run: this one, those taken from the pool, those that instances were bound to; the
  two sets are in order and the membership test is that of \<open>run_hosts_set\<close>.
\<close>

definition assemble_hosts :: "(string \<Rightarrow> bool) \<Rightarrow> string \<Rightarrow> string std_set \<Rightarrow> string std_set \<Rightarrow> string list" where
  "assemble_hosts resembles localhost pool bound =
     fold (\<lambda>hn hosts. if hn \<notin> set hosts \<and> \<not> resembles hn then hosts @ [hn] else hosts) bound
       (localhost # filter (\<lambda>h. \<not> resembles h) pool)"

definition rank_hosts :: "string list \<Rightarrow> (string, int) std_map \<Rightarrow> (string, int) std_map" where
  "rank_hosts hosts m = fold (\<lambda>u. map_put (hosts ! u) (int u - 1)) [0..<length hosts] m"

section \<open>Ports between gftids\<close>

definition add_inport :: "int \<Rightarrow> string \<Rightarrow> Instance_Port \<Rightarrow> (inst_ref \<Rightarrow> DCFilterInstance) \<Rightarrow> inst_ref \<Rightarrow> DCFilterInstance" where
  "add_inport g pn ip h =
     (let fi = h (ip_instance ip); ins = resolved_inports fi
      in h(ip_instance ip := fi\<lparr>resolved_inports :=
           map_put (ip_port ip) (set_put (Gftid_Port g pn) (map_get_def (ip_port ip) [] ins)) ins\<rparr>))"

definition resolve_port :: "inst_ref \<Rightarrow> string \<times> MultiPort \<Rightarrow> (inst_ref \<Rightarrow> DCFilterInstance) \<Rightarrow> inst_ref \<Rightarrow> DCFilterInstance" where
  "resolve_port r port h =
     (let (pn, mp) = port; h1 = fold (add_inport (gftid (h r)) pn) mp h
      in h1(r := (h1 r)\<lparr>resolved_outports := map_put pn
           (fold (\<lambda>ip. RMP_add_remote (gftid (h (ip_instance ip))) (ip_port ip)) mp [])
           (resolved_outports (h1 r))\<rparr>))"

definition resolve_instance :: "inst_ref \<Rightarrow> (inst_ref \<Rightarrow> DCFilterInstance) \<Rightarrow> inst_ref \<Rightarrow> DCFilterInstance" where
  "resolve_instance r h = fold (resolve_port r) (outports (h r)) h"

section \<open>The whole placement\<close>

definition do_placement :: "(string \<Rightarrow> bool) \<Rightarrow> string \<Rightarrow> DCLayout \<Rightarrow> DCLayout result" where
  "do_placement resembles localhost l =
     (if exec_host_pool l = [] \<and> list_ex (\<lambda>r. bind_hosts (heap l r) = [] \<and> filtername (heap l r) \<noteq> console_name)
           (filter_instances l)
      then Inl Exit_failure
      else bind_result (fold_result (place_one resembles localhost) (filter_instances l)
          \<lparr>pl_heap = heap l, hosts_ring = Ring_new (exec_host_pool l), placed_hosts_from_pool = [],
           placed_hosts_not_in_pool = [], next_gftid = 0, host_to_placed_filter_counts = []\<rparr>) (\<lambda>s.
        let h1 = fold (\<lambda>r h. h(r := (h r)\<lparr>local_num_copies := count_of (host_to_placed_filter_counts s)
                   (dcmpi_host (h r)) (get_distinguished_name (h r))\<rparr>)) (filter_instances l) (pl_heap s)
        in if run_hosts l \<noteq> [] then Inl Assert_failure
           else let hosts = assemble_hosts resembles localhost (placed_hosts_from_pool s) (placed_hosts_not_in_pool s);
                    ranks = rank_hosts (console_name # hosts) (host_dcmpirank l);
                    h2 = fold (\<lambda>r h. h(r := (h r)\<lparr>dcmpi_rank := map_get_def (dcmpi_host (h r)) 0 ranks\<rparr>))
                      (filter_instances l) h1;
                    h3 = fold resolve_instance (filter_instances l) h2
                in Inr (l\<lparr>heap := h3, run_hosts_no_console := hosts, run_hosts := console_name # hosts,
                  host_dcmpirank := ranks\<rparr>)))"

section \<open>The hosts of the instances\<close>

text \<open>The specification of the loop over the instances, on lists.\<close>

definition uses_pool :: "DCFilterInstance \<Rightarrow> bool" where
  "uses_pool fi \<longleftrightarrow> \<not> is_bound fi \<and> filtername fi \<noteq> console_name"

definition placeable :: "string list \<Rightarrow> DCFilterInstance \<Rightarrow> bool" where
  "placeable pool fi \<longleftrightarrow> (is_bound fi \<longrightarrow> length (bind_hosts fi) = 1) \<and> (uses_pool fi \<longrightarrow> pool \<noteq> [])
     \<and> length (layout_labels fi) \<le> 1"

definition chosen :: "string list \<Rightarrow> nat \<Rightarrow> DCFilterInstance \<Rightarrow> string" where
  "chosen pool k fi = (if is_bound fi then hd (bind_hosts fi) else if filtername fi = console_name then console_name
     else pool ! (k mod length pool))"

definition actual :: "(string \<Rightarrow> bool) \<Rightarrow> string \<Rightarrow> string \<Rightarrow> string" where
  "actual resembles localhost h = (if h \<noteq> console_name \<and> resembles h then localhost else h)"

fun placements :: "(string \<Rightarrow> bool) \<Rightarrow> string \<Rightarrow> string list \<Rightarrow> nat \<Rightarrow> int \<Rightarrow> (string \<Rightarrow> string \<Rightarrow> int) \<Rightarrow>
    DCFilterInstance list \<Rightarrow> DCFilterInstance list" where
  "placements res lh pool k g cnt [] = []"
| "placements res lh pool k g cnt (fi # fis) =
     (let h = chosen pool k fi; d = actual res lh h; n = get_distinguished_name fi
      in fi\<lparr>given_bind_host := h, dcmpi_host := d, gftid := g,
            runtime_labels := (if layout_labels fi \<noteq> [] then hd (layout_labels fi) else runtime_labels fi),
            local_copy_rank := cnt d n\<rparr>
         # placements res lh pool (if uses_pool fi then k + 1 else k) (g + 1)
             (\<lambda>d' n'. if d' = d \<and> n' = n then cnt d n + 1 else cnt d' n') fis)"

definition counts_wf :: "(string, (string, int) std_map) std_map \<Rightarrow> bool" where
  "counts_wf m \<longleftrightarrow> map_wf m \<and> (\<forall>h inner. map_of m h = Some inner \<longrightarrow> map_wf inner)"

lemma counts_wf_up: "counts_wf m \<Longrightarrow> counts_wf (count_up h n m)"
  unfolding counts_wf_def count_up_def
  by (auto simp: map_of_put map_get_def_def map_wf_put split: if_splits option.splits)

lemma count_of_up:
  "counts_wf m \<Longrightarrow> count_of (count_up h n m) = (\<lambda>h' n'. if h' = h \<and> n' = n then count_of m h n + 1 else count_of m h' n')"
  unfolding counts_wf_def count_up_def count_of_def
  by (intro ext) (auto simp: map_of_put map_get_def_def split: option.splits)

lemma Ring_next_rotate:
  assumes "pool \<noteq> []"
  shows "Ring_next (rotate k pool) = Inr (pool ! (k mod length pool), rotate (Suc k) pool)"
proof -
  obtain x xs where r: "rotate k pool = x # xs" using assms by (cases "rotate k pool") auto
  have "hd (rotate k pool) = pool ! (k mod length pool)" using assms by (simp add: hd_rotate_conv_nth)
  then show ?thesis by (simp add: Ring_next_def r)
qed

lemma pick_host_ok:
  assumes "placeable pool fi" and "hosts_ring s = rotate k pool"
  shows "pick_host fi s = Inr (chosen pool k fi, s\<lparr>
    hosts_ring := rotate (if uses_pool fi then k + 1 else k) pool,
    placed_hosts_from_pool := (if uses_pool fi then set_put (chosen pool k fi) (placed_hosts_from_pool s) else placed_hosts_from_pool s),
    placed_hosts_not_in_pool := (if is_bound fi then set_put (chosen pool k fi) (placed_hosts_not_in_pool s) else placed_hosts_not_in_pool s)\<rparr>)"
proof (cases "uses_pool fi")
  case True
  then have "pool \<noteq> []" using assms(1) by (simp add: placeable_def)
  then have "Ring_size (hosts_ring s) \<noteq> 0" by (simp add: assms(2) Ring_size_def)
  moreover have "\<not> is_bound fi" "filtername fi \<noteq> console_name" using True by (auto simp: uses_pool_def)
  ultimately show ?thesis
    using True Ring_next_rotate [OF \<open>pool \<noteq> []\<close>, of k] by (simp add: pick_host_def chosen_def assms(2))
next
  case False
  have "s = s\<lparr>hosts_ring := rotate k pool\<rparr>" using assms(2) by simp
  with False assms(1) show ?thesis
    by (cases "is_bound fi") (auto simp: pick_host_def chosen_def uses_pool_def placeable_def)
qed

lemma place_one_ok:
  assumes "placeable pool (pl_heap s r)" and "hosts_ring s = rotate k pool"
    and "fi = pl_heap s r" and "h = chosen pool k fi" and "d = actual res lh h"
  shows "\<exists>s'. place_one res lh r s = Inr s'
    \<and> pl_heap s' = (pl_heap s)(r := fi\<lparr>given_bind_host := h, dcmpi_host := d, gftid := next_gftid s,
         runtime_labels := (if layout_labels fi \<noteq> [] then hd (layout_labels fi) else runtime_labels fi),
         local_copy_rank := count_of (host_to_placed_filter_counts s) d (get_distinguished_name fi)\<rparr>)
    \<and> hosts_ring s' = rotate (if uses_pool fi then k + 1 else k) pool
    \<and> placed_hosts_from_pool s' = (if uses_pool fi then set_put h (placed_hosts_from_pool s) else placed_hosts_from_pool s)
    \<and> placed_hosts_not_in_pool s' = (if is_bound fi then set_put h (placed_hosts_not_in_pool s) else placed_hosts_not_in_pool s)
    \<and> next_gftid s' = next_gftid s + 1
    \<and> host_to_placed_filter_counts s' = count_up d (get_distinguished_name fi) (host_to_placed_filter_counts s)"
proof -
  have "\<not> 1 < length (layout_labels fi)" using assms(1,3) by (simp add: placeable_def)
  with pick_host_ok [OF assms(1,2)] show ?thesis
    unfolding place_one_def assms(3) [symmetric] assms(4) [symmetric] Let_def
    by (simp add: assms(5) actual_def)
qed

lemma place_all_ok:
  "distinct rs \<Longrightarrow> \<forall>r\<in>set rs. placeable pool (pl_heap s r) \<Longrightarrow> hosts_ring s = rotate k pool \<Longrightarrow>
   counts_wf (host_to_placed_filter_counts s) \<Longrightarrow>
   set_wf (placed_hosts_from_pool s) \<Longrightarrow> set_wf (placed_hosts_not_in_pool s) \<Longrightarrow>
   \<exists>s'. fold_result (place_one res lh) rs s = Inr s'
     \<and> map (pl_heap s') rs = placements res lh pool k (next_gftid s) (count_of (host_to_placed_filter_counts s)) (map (pl_heap s) rs)
     \<and> (\<forall>x. x \<notin> set rs \<longrightarrow> pl_heap s' x = pl_heap s x)
     \<and> set (placed_hosts_from_pool s') = set (placed_hosts_from_pool s)
         \<union> {given_bind_host (pl_heap s' r) | r. r \<in> set rs \<and> uses_pool (pl_heap s' r)}
     \<and> set (placed_hosts_not_in_pool s') = set (placed_hosts_not_in_pool s)
         \<union> {given_bind_host (pl_heap s' r) | r. r \<in> set rs \<and> is_bound (pl_heap s' r)}
     \<and> set_wf (placed_hosts_from_pool s') \<and> set_wf (placed_hosts_not_in_pool s')
     \<and> (\<forall>h n. count_of (host_to_placed_filter_counts s') h n = count_of (host_to_placed_filter_counts s) h n
         + int (length (filter (\<lambda>r. dcmpi_host (pl_heap s' r) = h \<and> get_distinguished_name (pl_heap s' r) = n) rs)))"
proof (induction rs arbitrary: s k)
  case Nil
  then show ?case by simp
next
  case (Cons r rs)
  let ?fi = "pl_heap s r" and ?h = "chosen pool k (pl_heap s r)" and ?k = "if uses_pool (pl_heap s r) then k + 1 else k"
  let ?d = "actual res lh ?h" and ?c = "count_of (host_to_placed_filter_counts s)"
  let ?fi' = "?fi\<lparr>given_bind_host := ?h, dcmpi_host := ?d, gftid := next_gftid s,
         runtime_labels := (if layout_labels ?fi \<noteq> [] then hd (layout_labels ?fi) else runtime_labels ?fi),
         local_copy_rank := ?c ?d (get_distinguished_name ?fi)\<rparr>"
  have pr: "placeable pool ?fi" using Cons.prems(2) by simp
  obtain s1 where s1: "place_one res lh r s = Inr s1" "pl_heap s1 = (pl_heap s)(r := ?fi')"
      "hosts_ring s1 = rotate ?k pool"
      "placed_hosts_from_pool s1 = (if uses_pool ?fi then set_put ?h (placed_hosts_from_pool s) else placed_hosts_from_pool s)"
      "placed_hosts_not_in_pool s1 = (if is_bound ?fi then set_put ?h (placed_hosts_not_in_pool s) else placed_hosts_not_in_pool s)"
      "next_gftid s1 = next_gftid s + 1"
      "host_to_placed_filter_counts s1 = count_up ?d (get_distinguished_name ?fi) (host_to_placed_filter_counts s)"
    using place_one_ok [OF pr Cons.prems(3) refl refl refl] by blast
  have r: "r \<notin> set rs" "distinct rs" using Cons.prems(1) by auto
  have same: "map (pl_heap s1) rs = map (pl_heap s) rs" unfolding s1(2) using r by auto
  have p1: "\<forall>x\<in>set rs. placeable pool (pl_heap s1 x)" unfolding s1(2) using Cons.prems(2) r by auto
  have w1: "counts_wf (host_to_placed_filter_counts s1)" unfolding s1(7) by (rule counts_wf_up [OF Cons.prems(4)])
  have w2: "set_wf (placed_hosts_from_pool s1)" "set_wf (placed_hosts_not_in_pool s1)"
    unfolding s1(4,5) using Cons.prems(5,6) by (auto intro: set_wf_put)
  have c1: "count_of (host_to_placed_filter_counts s1) = (\<lambda>d' n'. if d' = ?d \<and> n' = get_distinguished_name ?fi
      then ?c ?d (get_distinguished_name ?fi) + 1 else ?c d' n')"
    unfolding s1(7) by (rule count_of_up [OF Cons.prems(4)])
  note IH = Cons.IH [OF r(2) p1 s1(3) w1 w2]
  obtain s2 where s2: "fold_result (place_one res lh) rs s1 = Inr s2"
     "map (pl_heap s2) rs = placements res lh pool ?k (next_gftid s1) (count_of (host_to_placed_filter_counts s1)) (map (pl_heap s1) rs)"
     "\<forall>x. x \<notin> set rs \<longrightarrow> pl_heap s2 x = pl_heap s1 x"
     "set (placed_hosts_from_pool s2) = set (placed_hosts_from_pool s1)
         \<union> {given_bind_host (pl_heap s2 r) | r. r \<in> set rs \<and> uses_pool (pl_heap s2 r)}"
     "set (placed_hosts_not_in_pool s2) = set (placed_hosts_not_in_pool s1)
         \<union> {given_bind_host (pl_heap s2 r) | r. r \<in> set rs \<and> is_bound (pl_heap s2 r)}"
     "set_wf (placed_hosts_from_pool s2)" "set_wf (placed_hosts_not_in_pool s2)"
     "\<forall>h n. count_of (host_to_placed_filter_counts s2) h n = count_of (host_to_placed_filter_counts s1) h n
         + int (length (filter (\<lambda>r. dcmpi_host (pl_heap s2 r) = h \<and> get_distinguished_name (pl_heap s2 r) = n) rs))"
    using IH by blast
  have hr: "pl_heap s2 r = ?fi'" using s2(3) r(1) unfolding s1(2) by simp
  have attrs: "uses_pool ?fi' = uses_pool ?fi" "is_bound ?fi' = is_bound ?fi" "given_bind_host ?fi' = ?h"
    "dcmpi_host ?fi' = ?d" "get_distinguished_name ?fi' = get_distinguished_name ?fi"
    by (simp_all add: uses_pool_def is_bound_def get_distinguished_name_def)
  have at_r: "uses_pool (pl_heap s2 r) = uses_pool ?fi" "is_bound (pl_heap s2 r) = is_bound ?fi"
    "given_bind_host (pl_heap s2 r) = ?h" unfolding hr by (rule attrs)+
  have ins: "{given_bind_host (pl_heap s2 x) | x. x \<in> set (r # rs) \<and> P (pl_heap s2 x)}
      = (if P (pl_heap s2 r) then {?h} else {}) \<union> {given_bind_host (pl_heap s2 x) | x. x \<in> set rs \<and> P (pl_heap s2 x)}" for P
    using at_r(3) [symmetric] by force
  have "fold_result (place_one res lh) (r # rs) s = Inr s2" using s1(1) s2(1) by simp
  moreover have "map (pl_heap s2) (r # rs) = placements res lh pool k (next_gftid s) ?c (map (pl_heap s) (r # rs))"
    using s2(2) unfolding same s1(6) c1 by (simp add: hr Let_def)
  moreover have "\<forall>x. x \<notin> set (r # rs) \<longrightarrow> pl_heap s2 x = pl_heap s x" using s2(3) unfolding s1(2) by simp
  moreover have "set (placed_hosts_from_pool s2) = set (placed_hosts_from_pool s)
         \<union> {given_bind_host (pl_heap s2 x) | x. x \<in> set (r # rs) \<and> uses_pool (pl_heap s2 x)}"
    unfolding s2(4) s1(4) ins at_r by auto
  moreover have "set (placed_hosts_not_in_pool s2) = set (placed_hosts_not_in_pool s)
         \<union> {given_bind_host (pl_heap s2 x) | x. x \<in> set (r # rs) \<and> is_bound (pl_heap s2 x)}"
    unfolding s2(5) s1(5) ins at_r by auto
  moreover have "\<forall>h n. count_of (host_to_placed_filter_counts s2) h n = ?c h n
         + int (length (filter (\<lambda>r. dcmpi_host (pl_heap s2 r) = h \<and> get_distinguished_name (pl_heap s2 r) = n) (r # rs)))"
    using s2(8) unfolding c1 by (simp add: hr attrs)
  ultimately show ?case using s2(6,7) by blast
qed


section \<open>The instances one by one\<close>

lemma placements_length [simp]: "length (placements res lh pool k g cnt fis) = length fis"
  by (induction fis arbitrary: k g cnt) (simp_all add: Let_def)

lemma placements_nth:
  assumes "i < length fis" and "ps = placements res lh pool k g cnt fis"
    and "h = chosen pool (k + length (filter uses_pool (take i fis))) (fis ! i)" and "d = actual res lh h"
  shows "ps ! i = (fis ! i)\<lparr>given_bind_host := h, dcmpi_host := d, gftid := g + int i,
     runtime_labels := (if layout_labels (fis ! i) \<noteq> [] then hd (layout_labels (fis ! i)) else runtime_labels (fis ! i)),
     local_copy_rank := cnt d (get_distinguished_name (fis ! i))
       + int (length (filter (\<lambda>x. dcmpi_host x = d \<and> get_distinguished_name x = get_distinguished_name (fis ! i)) (take i ps)))\<rparr>"
  using assms
proof (induction fis arbitrary: i k g cnt ps h d)
  case Nil
  then show ?case by simp
next
  case (Cons fi fis)
  show ?case
  proof (cases i)
    case 0
    then show ?thesis using Cons.prems by (simp add: Let_def)
  next
    case (Suc j)
    let ?h = "chosen pool k fi" and ?n = "get_distinguished_name fi"
    let ?d = "actual res lh ?h" and ?k = "if uses_pool fi then k + 1 else k"
    let ?cnt = "\<lambda>d' n'. if d' = ?d \<and> n' = ?n then cnt ?d ?n + 1 else cnt d' n'"
    let ?p = "fi\<lparr>given_bind_host := ?h, dcmpi_host := ?d, gftid := g,
      runtime_labels := (if layout_labels fi \<noteq> [] then hd (layout_labels fi) else runtime_labels fi), local_copy_rank := cnt ?d ?n\<rparr>"
    obtain p qs where ps: "ps = p # qs" "p = ?p" "qs = placements res lh pool ?k (g + 1) ?cnt fis"
      using Cons.prems(2) unfolding placements.simps Let_def by blast
    have p: "dcmpi_host p = ?d" "get_distinguished_name p = ?n" unfolding ps(2) by (simp_all add: get_distinguished_name_def)
    have j: "j < length fis" using Cons.prems(1) Suc by simp
    have h: "h = chosen pool (?k + length (filter uses_pool (take j fis))) (fis ! j)"
      using Cons.prems(3) Suc by simp
    show ?thesis
      using Cons.IH [OF j ps(3) h Cons.prems(4)] p unfolding Suc ps(1) by simp
  qed
qed

text \<open>The loops that set one field of every instance.\<close>

lemma fold_field:
  "distinct rs \<Longrightarrow> fold (\<lambda>r h. h(r := F (h r))) rs h = (\<lambda>x. if x \<in> set rs then F (h x) else h x)"
  by (induction rs arbitrary: h) auto

section \<open>The hosts of the run\<close>

lemma assemble_loop:
  "distinct hs \<Longrightarrow> distinct (fold (\<lambda>hn hosts. if hn \<notin> set hosts \<and> \<not> res hn then hosts @ [hn] else hosts) ns hs)
   \<and> set (fold (\<lambda>hn hosts. if hn \<notin> set hosts \<and> \<not> res hn then hosts @ [hn] else hosts) ns hs) = set hs \<union> {n \<in> set ns. \<not> res n}
   \<and> (\<exists>t. fold (\<lambda>hn hosts. if hn \<notin> set hosts \<and> \<not> res hn then hosts @ [hn] else hosts) ns hs = hs @ t)"
proof (induction ns arbitrary: hs)
  case Nil
  then show ?case by simp
next
  case (Cons n ns)
  show ?case
  proof (cases "n \<notin> set hs \<and> \<not> res n")
    case True
    then have "distinct (hs @ [n])" using Cons.prems by simp
    from Cons.IH [OF this] True show ?thesis by auto
  next
    case False
    with Cons.IH [OF Cons.prems] show ?thesis by auto
  qed
qed

lemma assemble_hosts_ok:
  assumes "set_wf pool" and "res lh"
  shows "distinct (assemble_hosts res lh pool bound)"
    and "set (assemble_hosts res lh pool bound) = insert lh {h \<in> set pool \<union> set bound. \<not> res h}"
    and "\<exists>t. assemble_hosts res lh pool bound = lh # t"
proof -
  have d: "distinct (lh # filter (\<lambda>h. \<not> res h) pool)"
    using assms set_wf_distinct [OF assms(1)] by simp
  note a = assemble_loop [OF d, of res bound]
  show "distinct (assemble_hosts res lh pool bound)" using a unfolding assemble_hosts_def by blast
  show "set (assemble_hosts res lh pool bound) = insert lh {h \<in> set pool \<union> set bound. \<not> res h}"
    using a unfolding assemble_hosts_def by auto
  show "\<exists>t. assemble_hosts res lh pool bound = lh # t" using a unfolding assemble_hosts_def by auto
qed

lemma rank_hosts_map:
  assumes "map_wf m" and "distinct hosts"
  shows "map_wf (rank_hosts hosts m)"
    and "u < length hosts \<Longrightarrow> map_get_def (hosts ! u) 0 (rank_hosts hosts m) = int u - 1"
proof -
  have *: "map_wf (fold (\<lambda>u. map_put (hosts ! u) (int u - 1)) [0..<n] m)
    \<and> (\<forall>u<n. map_of (fold (\<lambda>u. map_put (hosts ! u) (int u - 1)) [0..<n] m) (hosts ! u) = Some (int u - 1))"
    if "n \<le> length hosts" for n
    using that
  proof (induction n)
    case 0
    show ?case using assms(1) by simp
  next
    case (Suc n)
    have ne: "hosts ! u \<noteq> hosts ! n" if "u < n" for u
      using assms(2) Suc.prems that by (simp add: nth_eq_iff_index_eq)
    show ?case using Suc ne by (auto simp: map_of_put less_Suc_eq)
  qed
  show "map_wf (rank_hosts hosts m)" using * [of "length hosts"] unfolding rank_hosts_def by simp
  show "map_get_def (hosts ! u) 0 (rank_hosts hosts m) = int u - 1" if "u < length hosts"
    using * [of "length hosts"] that unfolding rank_hosts_def map_get_def_def by simp
qed

section \<open>The ports between gftids\<close>

text \<open>Resolving touches nothing but the resolved ports.\<close>

definition unresolved :: "DCFilterInstance \<Rightarrow> DCFilterInstance" where
  "unresolved fi = fi\<lparr>resolved_inports := [], resolved_outports := []\<rparr>"

lemma unresolved_add_inport [simp]: "unresolved (add_inport g pn ip h x) = unresolved (h x)"
  by (simp add: add_inport_def unresolved_def Let_def)

lemma unresolved_add_inports [simp]: "unresolved (fold (add_inport g pn) mp h x) = unresolved (h x)"
  by (induction mp arbitrary: h) simp_all

lemma unresolved_outports_upd [simp]: "unresolved (fi\<lparr>resolved_outports := x\<rparr>) = unresolved fi"
  by (simp add: unresolved_def)

lemma unresolved_resolve_port [simp]: "unresolved (resolve_port r port h x) = unresolved (h x)"
  by (cases port) (simp add: resolve_port_def Let_def)

lemma unresolved_resolve_ports [simp]: "unresolved (fold (resolve_port r) ports h x) = unresolved (h x)"
  by (induction ports arbitrary: h) simp_all

lemma unresolved_resolve [simp]: "unresolved (fold resolve_instance rs h x) = unresolved (h x)"
  by (induction rs arbitrary: h) (simp_all add: resolve_instance_def)

lemma unresolved_sel:
  "gftid (unresolved fi) = gftid fi" "outports (unresolved fi) = outports fi"
  "get_distinguished_name (unresolved fi) = get_distinguished_name fi"
  "given_bind_host (unresolved fi) = given_bind_host fi" "dcmpi_host (unresolved fi) = dcmpi_host fi"
  "dcmpi_rank (unresolved fi) = dcmpi_rank fi" "runtime_labels (unresolved fi) = runtime_labels fi"
  "local_copy_rank (unresolved fi) = local_copy_rank fi" "local_num_copies (unresolved fi) = local_num_copies fi"
  by (simp_all add: unresolved_def get_distinguished_name_def)

text \<open>What is resolved: the remotes of a port, in order, and the ports that feed a port.\<close>

definition outs :: "(inst_ref \<Rightarrow> DCFilterInstance) \<Rightarrow> inst_ref \<Rightarrow> string \<Rightarrow> ResolvedMultiPort" where
  "outs h r p = map_get_def p [] (resolved_outports (h r))"

definition ins :: "(inst_ref \<Rightarrow> DCFilterInstance) \<Rightarrow> inst_ref \<Rightarrow> string \<Rightarrow> Gftid_Port set" where
  "ins h r p = set (map_get_def p [] (resolved_inports (h r)))"

definition remote_of :: "(inst_ref \<Rightarrow> int) \<Rightarrow> Instance_Port \<Rightarrow> Gftid_Port" where
  "remote_of g ip = Gftid_Port (g (ip_instance ip)) (ip_port ip)"

lemma add_remotes: "fold (\<lambda>ip. RMP_add_remote (g (ip_instance ip)) (ip_port ip)) mp rs = rs @ map (remote_of g) mp"
  by (induction mp arbitrary: rs) (simp_all add: RMP_add_remote_def remote_of_def)

lemma gftid_same: "unresolved (h' x) = unresolved (h x) \<Longrightarrow> gftid (h' x) = gftid (h x)"
  by (metis unresolved_sel(1))

lemma add_inports:
  assumes "map_wf (resolved_inports (h b))"
  shows "map_wf (resolved_inports (fold (add_inport g pn) mp h b))
     \<and> (\<forall>q. ins (fold (add_inport g pn) mp h) b q = ins h b q \<union> {gp. gp = Gftid_Port g pn \<and> Instance_Port b q \<in> set mp})"
  using assms
proof (induction mp arbitrary: h)
  case Nil
  then show ?case by simp
next
  case (Cons ip mp)
  have wf: "map_wf (resolved_inports (add_inport g pn ip h b))"
    using Cons.prems by (auto simp: add_inport_def Let_def)
  have one: "ins (add_inport g pn ip h) b q = ins h b q \<union> {gp. gp = Gftid_Port g pn \<and> Instance_Port b q = ip}" for q
    using Cons.prems
    by (cases ip; cases "b = ip_instance ip"; cases "q = ip_port ip")
      (auto simp: add_inport_def ins_def Let_def map_get_def_def map_of_put)
  from Cons.IH [where h = "add_inport g pn ip h", OF wf] show ?case unfolding fold.simps comp_apply one by auto
qed

lemma outs_add_inports: "resolved_outports (fold (add_inport g pn) mp h x) = resolved_outports (h x)"
proof (induction mp arbitrary: h)
  case (Cons ip mp)
  have "resolved_outports (add_inport g pn ip h x) = resolved_outports (h x)" by (simp add: add_inport_def Let_def)
  with Cons show ?case by simp
qed simp

lemma resolve_port_ins:
  assumes "map_wf (resolved_inports (h b))"
  shows "map_wf (resolved_inports (resolve_port r (pn, mp) h b))
     \<and> (\<forall>q. ins (resolve_port r (pn, mp) h) b q = ins h b q \<union> {gp. gp = Gftid_Port (gftid (h r)) pn \<and> Instance_Port b q \<in> set mp})"
proof -
  have eq: "resolved_inports (resolve_port r (pn, mp) h b) = resolved_inports (fold (add_inport (gftid (h r)) pn) mp h b)"
    by (simp add: resolve_port_def Let_def)
  show ?thesis
    unfolding ins_def eq by (rule add_inports [where h = h and b = b, OF assms, unfolded ins_def])
qed

lemma resolve_port_outs:
  assumes "map_wf (resolved_outports (h a))"
  shows "map_wf (resolved_outports (resolve_port r (pn, mp) h a))
     \<and> (\<forall>p. outs (resolve_port r (pn, mp) h) a p
          = (if a = r \<and> p = pn then map (remote_of (\<lambda>x. gftid (h x))) mp else outs h a p))"
  using assms add_remotes [of "\<lambda>x. gftid (h x)" mp "[]"]
  by (auto simp: resolve_port_def Let_def outs_def outs_add_inports map_get_def_def map_of_put)

lemma resolve_ports_ins:
  assumes "map_wf (resolved_inports (h b))"
  shows "map_wf (resolved_inports (fold (resolve_port r) ports h b))
     \<and> (\<forall>q. ins (fold (resolve_port r) ports h) b q
          = ins h b q \<union> {Gftid_Port (gftid (h r)) p | p mp. (p, mp) \<in> set ports \<and> Instance_Port b q \<in> set mp})"
  using assms
proof (induction ports arbitrary: h)
  case Nil
  then show ?case by simp
next
  case (Cons port ports)
  obtain pn mp where p: "port = (pn, mp)" by (cases port)
  note s = resolve_port_ins [where h = h and b = b, OF Cons.prems, of r pn mp]
  have g: "gftid (resolve_port r (pn, mp) h r) = gftid (h r)" by (rule gftid_same) simp
  from Cons.IH [where h = "resolve_port r (pn, mp) h", OF conjunct1 [OF s]] s show ?case unfolding p fold.simps comp_apply g by auto
qed

lemma resolve_ports_outs:
  assumes "map_wf (resolved_outports (h a))" and "distinct (map fst ports)"
  shows "map_wf (resolved_outports (fold (resolve_port r) ports h a))
     \<and> (\<forall>p. outs (fold (resolve_port r) ports h) a p
          = (if a = r \<and> map_of ports p \<noteq> None then map (remote_of (\<lambda>x. gftid (h x))) (the (map_of ports p)) else outs h a p))"
  using assms
proof (induction ports arbitrary: h)
  case Nil
  then show ?case by simp
next
  case (Cons port ports)
  obtain pn mp where p: "port = (pn, mp)" by (cases port)
  note s = resolve_port_outs [where h = h and a = a, OF Cons.prems(1), of r pn mp]
  have g: "gftid (resolve_port r (pn, mp) h x) = gftid (h x)" for x by (rule gftid_same) simp
  have none: "map_of ports pn = None" using Cons.prems(2) unfolding p by (simp add: map_of_eq_None_iff)
  have "distinct (map fst ports)" using Cons.prems(2) by simp
  from Cons.IH [where h = "resolve_port r (pn, mp) h", OF conjunct1 [OF s] this] s none show ?case unfolding p fold.simps comp_apply g by auto
qed

lemma resolve_instances:
  assumes "distinct rs"
    and "\<forall>r\<in>set rs. map_wf (outports (h r))"
    and "map_wf (resolved_inports (h b))" and "map_wf (resolved_outports (h a))"
  shows "map_wf (resolved_inports (fold resolve_instance rs h b)) \<and> map_wf (resolved_outports (fold resolve_instance rs h a))
     \<and> (\<forall>q. ins (fold resolve_instance rs h) b q
          = ins h b q \<union> {Gftid_Port (gftid (h r)) p | r p. r \<in> set rs \<and> Instance_Port b q \<in> set (ports_of (h r) p)})
     \<and> (\<forall>p. outs (fold resolve_instance rs h) a p
          = (if a \<in> set rs \<and> map_of (outports (h a)) p \<noteq> None then map (remote_of (\<lambda>x. gftid (h x))) (ports_of (h a) p) else outs h a p))"
  using assms
proof (induction rs arbitrary: h)
  case Nil
  then show ?case by simp
next
  case (Cons r rs)
  let ?h = "resolve_instance r h"
  have un: "unresolved (?h x) = unresolved (h x)" for x by (simp add: resolve_instance_def)
  have o: "outports (?h x) = outports (h x)" and g: "gftid (?h x) = gftid (h x)" for x
    using unresolved_sel(1,2) un by metis+
  have po: "ports_of (?h x) p = ports_of (h x) p" for x p by (simp add: ports_of_def o)
  have wf: "map_wf (outports (h r))" using Cons.prems(2) by simp
  note i = resolve_ports_ins [where h = h and b = b, OF Cons.prems(3), of r "outports (h r)", folded resolve_instance_def]
  note u = resolve_ports_outs [where h = h and a = a, OF Cons.prems(4) map_wf_distinct [OF wf], of r, folded resolve_instance_def]
  have ports: "(\<exists>mp. (p, mp) \<in> set (outports (h r)) \<and> Instance_Port b q \<in> set mp) \<longleftrightarrow> Instance_Port b q \<in> set (ports_of (h r) p)" for p q
    using map_wf_distinct [OF wf] by (auto simp: ports_of_def map_get_def_def split: option.splits dest: map_of_SomeD)
  have i': "ins ?h b q = ins h b q \<union> {Gftid_Port (gftid (h r)) p | p. Instance_Port b q \<in> set (ports_of (h r) p)}" for q
    using i ports by auto
  have u': "outs ?h a p = (if a = r \<and> map_of (outports (h a)) p \<noteq> None
      then map (remote_of (\<lambda>x. gftid (h x))) (ports_of (h a) p) else outs h a p)" for p
    using u by (auto simp: ports_of_def map_get_def_def)
  have d: "distinct rs" "r \<notin> set rs" "\<forall>r\<in>set rs. map_wf (outports (?h r))" using Cons.prems(1,2) unfolding o by auto
  from Cons.IH [where h = ?h, OF d(1,3) conjunct1 [OF i] conjunct1 [OF u]] d(2)
  show ?case unfolding fold.simps comp_apply i' u' o g po by (auto split: if_splits)
qed

section \<open>The placement of a layout\<close>

definition placement_ready :: "(string \<Rightarrow> bool) \<Rightarrow> string \<Rightarrow> DCLayout \<Rightarrow> bool" where
  "placement_ready res lh l \<longleftrightarrow> distinct (filter_instances l) \<and> run_hosts l = [] \<and> map_wf (host_dcmpirank l)
     \<and> res lh \<and> lh \<noteq> console_name \<and> console_name \<notin> set (exec_host_pool l)
     \<and> (\<forall>r\<in>set (filter_instances l). placeable (exec_host_pool l) (heap l r)
          \<and> (is_bound (heap l r) \<longrightarrow> hd (bind_hosts (heap l r)) \<noteq> console_name))"

definition same_place :: "DCFilterInstance \<Rightarrow> DCFilterInstance \<Rightarrow> bool" where
  "same_place x y \<longleftrightarrow> dcmpi_host y = dcmpi_host x \<and> get_distinguished_name y = get_distinguished_name x"

lemma chosen_host:
  assumes "placeable pool fi" and "console_name \<notin> set pool" and "is_bound fi \<longrightarrow> hd (bind_hosts fi) \<noteq> console_name"
  shows "chosen pool k fi = console_name \<longleftrightarrow> \<not> uses_pool fi \<and> \<not> is_bound fi"
proof -
  have "pool \<noteq> [] \<Longrightarrow> pool ! (k mod length pool) \<in> set pool" by simp
  then have "uses_pool fi \<Longrightarrow> pool ! (k mod length pool) \<noteq> console_name"
    using assms unfolding placeable_def by metis
  then show ?thesis using assms(3) by (auto simp: chosen_def uses_pool_def)
qed

lemma placements_hosts:
  assumes "\<forall>fi\<in>set fis. placeable pool fi \<and> (is_bound fi \<longrightarrow> hd (bind_hosts fi) \<noteq> console_name)"
    and "console_name \<notin> set pool" and "x \<in> set (placements res lh pool k g cnt fis)"
  shows "dcmpi_host x = actual res lh (given_bind_host x)
     \<and> (given_bind_host x = console_name \<longleftrightarrow> \<not> uses_pool x \<and> \<not> is_bound x)"
proof -
  let ?ps = "placements res lh pool k g cnt fis"
  obtain i where i: "i < length fis" "x = ?ps ! i" using assms(3) by (metis in_set_conv_nth placements_length)
  let ?h = "chosen pool (k + length (filter uses_pool (take i fis))) (fis ! i)"
  have x: "dcmpi_host x = actual res lh ?h" "given_bind_host x = ?h" "uses_pool x = uses_pool (fis ! i)" "is_bound x = is_bound (fis ! i)"
    unfolding i(2) placements_nth [OF i(1) refl refl refl] by (simp_all add: uses_pool_def is_bound_def)
  have "fis ! i \<in> set fis" using i(1) by simp
  with assms(1) chosen_host [OF _ assms(2)] show ?thesis unfolding x by blast
qed

lemma run_hosts_set:
  assumes "\<forall>x\<in>set ps. dcmpi_host x = actual res lh (given_bind_host x)
     \<and> (given_bind_host x = console_name \<longleftrightarrow> \<not> uses_pool x \<and> \<not> is_bound x)"
    and "lh \<noteq> console_name"
    and "S = insert lh {h \<in> given_bind_host ` {x \<in> set ps. uses_pool x} \<union> given_bind_host ` {x \<in> set ps. is_bound x}. \<not> res h}"
  shows "insert console_name S = {console_name, lh} \<union> dcmpi_host ` set ps" and "console_name \<notin> S"
proof -
  have used: "x \<in> set ps \<Longrightarrow> uses_pool x \<or> is_bound x \<longleftrightarrow> given_bind_host x \<noteq> console_name" for x
    using assms(1) by blast
  have S: "h \<in> S \<longleftrightarrow> h = lh \<or> (\<exists>x\<in>set ps. given_bind_host x = h \<and> h \<noteq> console_name \<and> \<not> res h)" for h
    unfolding assms(3) using used by blast
  show "console_name \<notin> S" unfolding S using assms(2) by blast
  have host: "x \<in> set ps \<Longrightarrow> dcmpi_host x = actual res lh (given_bind_host x)" for x using assms(1) by blast
  have "dcmpi_host x \<in> insert console_name S" if "x \<in> set ps" for x
    unfolding insert_iff S host [OF that] actual_def using that by auto
  moreover have "h \<in> {console_name, lh} \<union> dcmpi_host ` set ps" if "h \<in> S" for h
    using that host unfolding S actual_def by (metis (lifting) UnCI image_eqI insertCI)
  moreover have "lh \<in> insert console_name S" unfolding insert_iff S by blast
  ultimately show "insert console_name S = {console_name, lh} \<union> dcmpi_host ` set ps" by blast
qed

lemma do_placement_ok:
  assumes "placement_ready res lh l"
  defines "fis \<equiv> filter_instances l"
  defines "ps \<equiv> placements res lh (exec_host_pool l) 0 0 (\<lambda>_ _. 0) (map (heap l) fis)"
  obtains l' h2 where "do_placement res lh l = Inr l'" "filter_instances l' = fis"
    "heap l' = fold resolve_instance fis h2"
    "\<forall>i<length fis. h2 (fis ! i) = (ps ! i)\<lparr>local_num_copies := int (length (filter (same_place (ps ! i)) ps)),
        dcmpi_rank := map_get_def (dcmpi_host (ps ! i)) 0 (host_dcmpirank l')\<rparr>"
    "\<exists>hosts. run_hosts l' = console_name # lh # hosts" "distinct (run_hosts l')"
    "set (run_hosts l') = {console_name, lh} \<union> dcmpi_host ` set ps"
    "host_dcmpirank l' = rank_hosts (run_hosts l') (host_dcmpirank l)"
proof -
  note ready = assms(1) [unfolded placement_ready_def, folded fis_def]
  define s0 where "s0 = \<lparr>pl_heap = heap l, hosts_ring = Ring_new (exec_host_pool l), placed_hosts_from_pool = [],
           placed_hosts_not_in_pool = [], next_gftid = 0, host_to_placed_filter_counts = []\<rparr>"
  have s0: "pl_heap s0 = heap l" "placed_hosts_from_pool s0 = []" "placed_hosts_not_in_pool s0 = []"
    "next_gftid s0 = 0" "host_to_placed_filter_counts s0 = []" "hosts_ring s0 = rotate 0 (exec_host_pool l)"
    by (simp_all add: s0_def Ring_new_def)
  have c0: "count_of [] = (\<lambda>_ _. 0)" by (intro ext) (simp add: count_of_def map_get_def_def)
  have d: "distinct fis" using ready by blast
  have "\<forall>r\<in>set fis. placeable (exec_host_pool l) (pl_heap s0 r)" "counts_wf (host_to_placed_filter_counts s0)"
    "set_wf (placed_hosts_from_pool s0)" "set_wf (placed_hosts_not_in_pool s0)"
    using ready by (simp_all add: s0 counts_wf_def)
  note p = place_all_ok [OF d this(1) s0(6) this(2-4), of res lh, unfolded s0 c0 list.set Un_empty_left add_0, folded ps_def]
  obtain s where s: "fold_result (place_one res lh) fis s0 = Inr s" "map (pl_heap s) fis = ps"
      "set (placed_hosts_from_pool s) = {given_bind_host (pl_heap s r) | r. r \<in> set fis \<and> uses_pool (pl_heap s r)}"
      "set (placed_hosts_not_in_pool s) = {given_bind_host (pl_heap s r) | r. r \<in> set fis \<and> is_bound (pl_heap s r)}"
      "set_wf (placed_hosts_from_pool s)"
      "\<forall>h n. count_of (host_to_placed_filter_counts s) h n
          = int (length (filter (\<lambda>r. dcmpi_host (pl_heap s r) = h \<and> get_distinguished_name (pl_heap s r) = n) fis))"
    using p by blast
  have nth: "pl_heap s (fis ! i) = ps ! i" if "i < length fis" for i using that unfolding s(2) [symmetric] by simp
  have img: "set ps = pl_heap s ` set fis" unfolding s(2) [symmetric] by simp
  have cnt: "count_of (host_to_placed_filter_counts s) (dcmpi_host x) (get_distinguished_name x) = int (length (filter (same_place x) ps))" for x
    unfolding s(2) [symmetric] filter_map length_map comp_def same_place_def by (rule s(6) [rule_format])
  define hosts where "hosts = assemble_hosts res lh (placed_hosts_from_pool s) (placed_hosts_not_in_pool s)"
  have "res lh" using ready by blast
  note a = assemble_hosts_ok [where res = res, OF s(5) this, of "placed_hosts_not_in_pool s", folded hosts_def]
  have pool: "set (placed_hosts_from_pool s) = given_bind_host ` {x \<in> set ps. uses_pool x}"
    and bound: "set (placed_hosts_not_in_pool s) = given_bind_host ` {x \<in> set ps. is_bound x}"
    unfolding s(3,4) img by auto
  have hs: "\<forall>x\<in>set ps. dcmpi_host x = actual res lh (given_bind_host x)
     \<and> (given_bind_host x = console_name \<longleftrightarrow> \<not> uses_pool x \<and> \<not> is_bound x)"
    using placements_hosts [of "map (heap l) fis" "exec_host_pool l" _ res lh 0 0 "\<lambda>_ _. 0", folded ps_def] ready by auto
  have S: "set hosts = insert lh {h \<in> given_bind_host ` {x \<in> set ps. uses_pool x} \<union> given_bind_host ` {x \<in> set ps. is_bound x}. \<not> res h}"
    using a(2) ready unfolding pool bound by blast
  note R = run_hosts_set [OF hs _ S]
  have R: "insert console_name (set hosts) = {console_name, lh} \<union> dcmpi_host ` set ps" "console_name \<notin> set hosts"
    using run_hosts_set [OF hs _ S] ready by blast+
  define ranks where "ranks = rank_hosts (console_name # hosts) (host_dcmpirank l)"
  define h2 where "h2 = (\<lambda>x. if x \<in> set fis then (pl_heap s x)\<lparr>
     local_num_copies := count_of (host_to_placed_filter_counts s) (dcmpi_host (pl_heap s x)) (get_distinguished_name (pl_heap s x)),
     dcmpi_rank := map_get_def (dcmpi_host (pl_heap s x)) 0 ranks\<rparr> else pl_heap s x)"
  have f2: "fold (\<lambda>r h. h(r := (h r)\<lparr>dcmpi_rank := map_get_def (dcmpi_host (h r)) 0 ranks\<rparr>)) fis
      (fold (\<lambda>r h. h(r := (h r)\<lparr>local_num_copies := count_of (host_to_placed_filter_counts s)
                   (dcmpi_host (h r)) (get_distinguished_name (h r))\<rparr>)) fis (pl_heap s)) = h2"
    unfolding fold_field [OF d, where F = "\<lambda>fi. fi\<lparr>local_num_copies := count_of (host_to_placed_filter_counts s)
          (dcmpi_host fi) (get_distinguished_name fi)\<rparr>"]
        fold_field [OF d, where F = "\<lambda>fi. fi\<lparr>dcmpi_rank := map_get_def (dcmpi_host fi) 0 ranks\<rparr>"] h2_def
    by (intro ext) simp
  have "\<not> (exec_host_pool l = [] \<and> list_ex (\<lambda>r. bind_hosts (heap l r) = [] \<and> filtername (heap l r) \<noteq> console_name) fis)"
    using ready by (auto simp: list_ex_iff placeable_def uses_pool_def is_bound_def)
  then have run: "do_placement res lh l = Inr (l\<lparr>heap := fold resolve_instance fis h2, run_hosts_no_console := hosts,
      run_hosts := console_name # hosts, host_dcmpirank := ranks\<rparr>)"
    using ready s(1) f2 unfolding do_placement_def s0_def [symmetric] fis_def [symmetric] hosts_def [symmetric]
      ranks_def [symmetric] by (simp add: Let_def hosts_def [symmetric] ranks_def [symmetric])
  have inst: "h2 (fis ! i) = (ps ! i)\<lparr>local_num_copies := int (length (filter (same_place (ps ! i)) ps)),
      dcmpi_rank := map_get_def (dcmpi_host (ps ! i)) 0 ranks\<rparr>" if "i < length fis" for i
    using that unfolding h2_def nth [OF that] cnt by simp
  show thesis
  proof (rule that [OF run])
    show "\<forall>i<length fis. h2 (fis ! i) = (ps ! i)\<lparr>local_num_copies := int (length (filter (same_place (ps ! i)) ps)),
      dcmpi_rank := map_get_def (dcmpi_host (ps ! i)) 0 (host_dcmpirank (l\<lparr>heap := fold resolve_instance fis h2,
        run_hosts_no_console := hosts, run_hosts := console_name # hosts, host_dcmpirank := ranks\<rparr>))\<rparr>"
      using inst by simp
  qed (use a(1,3) R in \<open>simp_all add: ranks_def fis_def\<close>)
qed

section \<open>Properties\<close>

text \<open>
  C9. Placing a layout whose instances all have somewhere to go (\<open>placement_ready\<close>) succeeds. The
  instances are numbered in their order; each goes to the host it is bound to, the console to the
  console, and the others to the hosts of the pool in turn, where a name of this host stands for
  \<open>localhost\<close>. The hosts of the run are the console, this host and whatever else instances were
  placed on, each once, and the rank of an instance is the position of its host, counted from \<open>-1\<close>.
\<close>

theorem placement_hosts:
  assumes "placement_ready res lh l"
  shows "\<exists>l'. do_placement res lh l = Inr l' \<and> filter_instances l' = filter_instances l
    \<and> (\<forall>i<length (filter_instances l). \<forall>x y. x = heap l (filter_instances l ! i) \<longrightarrow> y = heap l' (filter_instances l ! i) \<longrightarrow>
         gftid y = int i
       \<and> given_bind_host y = chosen (exec_host_pool l)
           (length (filter (\<lambda>r. uses_pool (heap l r)) (take i (filter_instances l)))) x
       \<and> dcmpi_host y = actual res lh (given_bind_host y)
       \<and> - 1 \<le> dcmpi_rank y \<and> nat (dcmpi_rank y + 1) < length (run_hosts l')
       \<and> run_hosts l' ! nat (dcmpi_rank y + 1) = dcmpi_host y)
    \<and> distinct (run_hosts l') \<and> (\<exists>others. run_hosts l' = console_name # lh # others)
    \<and> set (run_hosts l') = {console_name, lh} \<union> dcmpi_host ` heap l' ` set (filter_instances l)"
proof -
  let ?fis = "filter_instances l" and ?pool = "exec_host_pool l"
  define ps where "ps = placements res lh ?pool 0 0 (\<lambda>_ _. 0) (map (heap l) ?fis)"
  obtain l' h2 where l': "do_placement res lh l = Inr l'" "filter_instances l' = ?fis"
    "heap l' = fold resolve_instance ?fis h2"
    "\<forall>i<length ?fis. h2 (?fis ! i) = (ps ! i)\<lparr>local_num_copies := int (length (filter (same_place (ps ! i)) ps)),
        dcmpi_rank := map_get_def (dcmpi_host (ps ! i)) 0 (host_dcmpirank l')\<rparr>"
    "\<exists>hosts. run_hosts l' = console_name # lh # hosts" "distinct (run_hosts l')"
    "set (run_hosts l') = {console_name, lh} \<union> dcmpi_host ` set ps"
    "host_dcmpirank l' = rank_hosts (run_hosts l') (host_dcmpirank l)"
    using do_placement_ok [OF assms] unfolding ps_def by blast
  have same: "unresolved (heap l' (?fis ! i)) = unresolved ((ps ! i)\<lparr>local_num_copies := int (length (filter (same_place (ps ! i)) ps)),
        dcmpi_rank := map_get_def (dcmpi_host (ps ! i)) 0 (host_dcmpirank l')\<rparr>)" if "i < length ?fis" for i
    using l'(4) that unfolding l'(3) unresolved_resolve by simp
  have len: "length ps = length ?fis" unfolding ps_def by simp
  have host: "dcmpi_host (heap l' (?fis ! i)) = dcmpi_host (ps ! i)" if "i < length ?fis" for i
    using arg_cong [OF same [OF that], of dcmpi_host] by (simp add: unresolved_sel)
  have inst: "gftid y = int i
       \<and> given_bind_host y = chosen ?pool (length (filter (\<lambda>r. uses_pool (heap l r)) (take i ?fis))) x
       \<and> dcmpi_host y = actual res lh (given_bind_host y)
       \<and> - 1 \<le> dcmpi_rank y \<and> nat (dcmpi_rank y + 1) < length (run_hosts l')
       \<and> run_hosts l' ! nat (dcmpi_rank y + 1) = dcmpi_host y"
    if i: "i < length ?fis" and x: "x = heap l (?fis ! i)" and y: "y = heap l' (?fis ! i)" for i x y
  proof -
    let ?h = "chosen ?pool (length (filter (\<lambda>r. uses_pool (heap l r)) (take i ?fis))) x"
    have p: "gftid (ps ! i) = int i" "given_bind_host (ps ! i) = ?h" "dcmpi_host (ps ! i) = actual res lh ?h"
      using placements_nth [of i "map (heap l) ?fis", OF _ refl refl refl, of res lh ?pool 0 0 "\<lambda>_ _. 0", folded ps_def] i x
      by (simp_all add: take_map filter_map comp_def)
    have "ps ! i \<in> set ps" using i len by simp
    then have "dcmpi_host (ps ! i) \<in> set (run_hosts l')" unfolding l'(7) by blast
    then obtain u where u: "u < length (run_hosts l')" "run_hosts l' ! u = dcmpi_host (ps ! i)" by (metis in_set_conv_nth)
    have "map_wf (host_dcmpirank l)" using assms unfolding placement_ready_def by blast
    from rank_hosts_map(2) [OF this l'(6) u(1)] have "dcmpi_rank y = int u - 1"
      using arg_cong [OF same [OF i], of dcmpi_rank] unfolding y l'(8) u(2) by (simp add: unresolved_sel)
    moreover have "gftid y = int i" "given_bind_host y = ?h" "dcmpi_host y = dcmpi_host (ps ! i)"
      using arg_cong [OF same [OF i], of gftid] arg_cong [OF same [OF i], of given_bind_host] host [OF i] p y
      by (simp_all add: unresolved_sel)
    ultimately show ?thesis using u p by simp
  qed
  have "map dcmpi_host ps = map (\<lambda>r. dcmpi_host (heap l' r)) ?fis"
    using host len by (intro nth_equalityI) auto
  then have hosts: "dcmpi_host ` set ps = dcmpi_host ` heap l' ` set ?fis" unfolding image_image by (metis list.set_map)
  show ?thesis
    by (intro exI [of _ l'] conjI l'(1,2,5,6) l'(7) [unfolded hosts]) (use inst in blast)
qed

lemma name_upd: "get_distinguished_name (fi\<lparr>local_num_copies := n, dcmpi_rank := k\<rparr>) = get_distinguished_name fi"
  by (simp add: get_distinguished_name_def)

lemma placements_fields:
  assumes "i < length fis" and "ps = placements res lh pool k g cnt fis"
  shows "gftid (ps ! i) = g + int i" and "outports (ps ! i) = outports (fis ! i)"
    and "resolved_inports (ps ! i) = resolved_inports (fis ! i)"
    and "resolved_outports (ps ! i) = resolved_outports (fis ! i)"
    and "cnt = (\<lambda>_ _. 0) \<Longrightarrow> local_copy_rank (ps ! i) = int (length (filter (same_place (ps ! i)) (take i ps)))"
proof -
  note eq = placements_nth [OF assms refl refl]
  show "gftid (ps ! i) = g + int i" "outports (ps ! i) = outports (fis ! i)"
    "resolved_inports (ps ! i) = resolved_inports (fis ! i)" "resolved_outports (ps ! i) = resolved_outports (fis ! i)"
    by (subst eq, simp)+
  let ?d = "actual res lh (chosen pool (k + length (filter uses_pool (take i fis))) (fis ! i))"
  have d: "dcmpi_host (ps ! i) = ?d" by (subst eq) simp
  have n: "get_distinguished_name (ps ! i) = get_distinguished_name (fis ! i)"
    by (subst eq) (simp add: get_distinguished_name_def)
  assume "cnt = (\<lambda>_ _. 0)"
  then have "local_copy_rank (ps ! i) = int (length (filter (\<lambda>x. dcmpi_host x = ?d
      \<and> get_distinguished_name x = get_distinguished_name (fis ! i)) (take i ps)))"
    by (subst eq) simp
  then show "local_copy_rank (ps ! i) = int (length (filter (same_place (ps ! i)) (take i ps)))"
    unfolding same_place_def [abs_def] d n .
qed

text \<open>A console, a filter that is bound to a host and one that is not, connected in a row.\<close>

definition console_and_two :: DCLayout where
  "console_and_two = source_and_sinks\<lparr>
     heap := (\<lambda>r. if r = 0 then (DCFilterInstance_new ''A'' ''a'')\<lparr>outports := [(''o'', [Instance_Port 1 ''i''])]\<rparr>
       else if r = 1 then (DCFilterInstance_new ''B'' ''b'')\<lparr>outports := [(''o'', [Instance_Port 2 ''i''])], bind_hosts := [''here'']\<rparr>
       else DCFilterInstance_new console_name ''c''),
     next_inst := 3, filter_instances := [0, 1, 2], exec_host_pool := [''far'']\<rparr>"

lemma console_and_two_sel:
  "filter_instances console_and_two = [0, 1, 2]" "exec_host_pool console_and_two = [''far'']"
  "heap console_and_two 0 = (DCFilterInstance_new ''A'' ''a'')\<lparr>outports := [(''o'', [Instance_Port 1 ''i''])]\<rparr>"
  "heap console_and_two 1 = (DCFilterInstance_new ''B'' ''b'')\<lparr>outports := [(''o'', [Instance_Port 2 ''i''])], bind_hosts := [''here'']\<rparr>"
  "heap console_and_two 2 = DCFilterInstance_new console_name ''c''" "next_inst console_and_two = 3"
  "run_hosts console_and_two = []" "host_dcmpirank console_and_two = []"
  by (simp_all add: console_and_two_def source_and_sinks_def)

lemmas console_and_two_heap = console_and_two_sel console_and_two_sel(4) [unfolded One_nat_def]

lemma console_and_two_ready: "placement_ready (\<lambda>h. h = ''here'' \<or> h = ''me'') ''me'' console_and_two"
  by (simp add: placement_ready_def console_and_two_heap placeable_def uses_pool_def is_bound_def
      DCFilterInstance_new_def console_name_def map_wf_def)

theorem placement_hosts_witness:
  "\<exists>l'. do_placement (\<lambda>h. h = ''here'' \<or> h = ''me'') ''me'' console_and_two = Inr l'
     \<and> dcmpi_host (heap l' 0) = ''far'' \<and> dcmpi_host (heap l' 1) = ''me'' \<and> given_bind_host (heap l' 1) = ''here''
     \<and> dcmpi_host (heap l' 2) = console_name \<and> gftid (heap l' 2) = 2 \<and> set (run_hosts l') = {console_name, ''me'', ''far''}"
proof -
  let ?res = "\<lambda>h. h = ''here'' \<or> h = ''me''" and ?l = console_and_two
  obtain l' where l': "do_placement ?res ''me'' ?l = Inr l'" "filter_instances l' = filter_instances ?l"
    and i: "\<forall>i<length (filter_instances ?l). \<forall>x y. x = heap ?l (filter_instances ?l ! i) \<longrightarrow> y = heap l' (filter_instances ?l ! i) \<longrightarrow>
         gftid y = int i
       \<and> given_bind_host y = chosen (exec_host_pool ?l)
           (length (filter (\<lambda>r. uses_pool (heap ?l r)) (take i (filter_instances ?l)))) x
       \<and> dcmpi_host y = actual ?res ''me'' (given_bind_host y)
       \<and> - 1 \<le> dcmpi_rank y \<and> nat (dcmpi_rank y + 1) < length (run_hosts l')
       \<and> run_hosts l' ! nat (dcmpi_rank y + 1) = dcmpi_host y"
    and d: "distinct (run_hosts l')" "\<exists>others. run_hosts l' = console_name # ''me'' # others"
    and h: "set (run_hosts l') = {console_name, ''me''} \<union> dcmpi_host ` heap l' ` set (filter_instances ?l)"
    using placement_hosts [OF console_and_two_ready] by - (erule exE, elim conjE, rule that, assumption+)
  have "gftid (heap l' 0) = 0 \<and> dcmpi_host (heap l' 0) = ''far''" "dcmpi_host (heap l' 1) = ''me'' \<and> given_bind_host (heap l' 1) = ''here''"
    "gftid (heap l' 2) = 2 \<and> dcmpi_host (heap l' 2) = console_name"
    using spec [OF i, of 0] spec [OF i, of 1] spec [OF i, of 2]
    by (simp_all add: console_and_two_heap chosen_def is_bound_def actual_def DCFilterInstance_new_def console_name_def)
  with l'(1) h show ?thesis by (auto simp: console_and_two_heap)
qed

text \<open>
  Among the instances of one name on one host, each is told how many came before it and how
  many there are.
\<close>

theorem placement_local_copies:
  assumes "placement_ready res lh l" and "i < length (filter_instances l)"
  shows "\<exists>l'. do_placement res lh l = Inr l'
    \<and> (\<forall>y. y = heap l' (filter_instances l ! i) \<longrightarrow>
         local_copy_rank y = int (length (filter (\<lambda>r. same_place y (heap l' r)) (take i (filter_instances l))))
       \<and> local_num_copies y = int (length (filter (\<lambda>r. same_place y (heap l' r)) (filter_instances l))))"
proof -
  let ?fis = "filter_instances l" and ?K = "\<lambda>x. (dcmpi_host x, get_distinguished_name x)"
  define ps where "ps = placements res lh (exec_host_pool l) 0 0 (\<lambda>_ _. 0) (map (heap l) ?fis)"
  have "\<exists>l' h2. do_placement res lh l = Inr l' \<and> heap l' = fold resolve_instance ?fis h2
    \<and> (\<forall>i<length ?fis. h2 (?fis ! i) = (ps ! i)\<lparr>local_num_copies := int (length (filter (same_place (ps ! i)) ps)),
        dcmpi_rank := map_get_def (dcmpi_host (ps ! i)) 0 (host_dcmpirank l')\<rparr>)"
    by (rule do_placement_ok [OF assms(1), folded ps_def]) (intro exI conjI)
  then obtain l' h2 where l': "do_placement res lh l = Inr l'" "heap l' = fold resolve_instance ?fis h2"
    "\<forall>i<length ?fis. h2 (?fis ! i) = (ps ! i)\<lparr>local_num_copies := int (length (filter (same_place (ps ! i)) ps)),
        dcmpi_rank := map_get_def (dcmpi_host (ps ! i)) 0 (host_dcmpirank l')\<rparr>"
    by blast
  have same: "unresolved (heap l' (?fis ! i)) = unresolved ((ps ! i)\<lparr>local_num_copies := int (length (filter (same_place (ps ! i)) ps)),
        dcmpi_rank := map_get_def (dcmpi_host (ps ! i)) 0 (host_dcmpirank l')\<rparr>)" if "i < length ?fis" for i
    using l'(3) that unfolding l'(2) unresolved_resolve by simp
  have len: "length ps = length ?fis" unfolding ps_def by simp
  have K: "?K (heap l' (?fis ! i)) = ?K (ps ! i)" if "i < length ?fis" for i
    using arg_cong [OF same [OF that], of dcmpi_host] arg_cong [OF same [OF that], of get_distinguished_name]
    by (simp add: unresolved_sel name_upd)
  have map_K: "map ?K ps = map (\<lambda>r. ?K (heap l' r)) ?fis" using K len by (intro nth_equalityI) auto
  have sp: "same_place x = (\<lambda>k. k = ?K x) \<circ> ?K" for x by (auto simp: same_place_def)
  have count: "length (filter (same_place x) (take n ps)) = length (filter (\<lambda>r. same_place x (heap l' r)) (take n ?fis))" for x n
  proof -
    have "length (filter (same_place x) (take n ps)) = length (filter (\<lambda>k. k = ?K x) (take n (map ?K ps)))"
      unfolding sp take_map filter_map by simp
    also have "\<dots> = length (filter (\<lambda>r. same_place x (heap l' r)) (take n ?fis))"
      unfolding map_K take_map filter_map sp by (simp add: comp_def)
    finally show ?thesis .
  qed
  have "local_copy_rank (ps ! i) = int (length (filter (same_place (ps ! i)) (take i ps)))"
    using placements_fields(5) [OF _ ps_def] assms(2) by simp
  moreover have "same_place (heap l' (?fis ! i)) = same_place (ps ! i)" unfolding sp K [OF assms(2)] ..
  ultimately have "local_copy_rank (heap l' (?fis ! i)) = int (length (filter (\<lambda>r. same_place (heap l' (?fis ! i)) (heap l' r)) (take i ?fis)))"
    "local_num_copies (heap l' (?fis ! i)) = int (length (filter (\<lambda>r. same_place (heap l' (?fis ! i)) (heap l' r)) ?fis))"
    using arg_cong [OF same [OF assms(2)], of local_copy_rank] arg_cong [OF same [OF assms(2)], of local_num_copies]
      count [of "ps ! i" i] count [of "ps ! i" "length ps"] len by (simp_all add: unresolved_sel)
  then show ?thesis using l'(1) by blast
qed

theorem placement_local_copies_witness:
  "\<exists>l'. do_placement (\<lambda>h. h = ''here'' \<or> h = ''me'') ''me'' console_and_two = Inr l'
     \<and> local_copy_rank (heap l' 0) = 0"
  using placement_local_copies [OF console_and_two_ready, of 0] by (auto simp: console_and_two_heap)

text \<open>
  C36. Once a layout is placed, its ports are connected by gftids exactly as they were by pointers, in the
  same order, and an instance knows by gftid and port who writes to each of its ports.
\<close>

theorem placement_ports:
  assumes "placement_ready res lh l" and "layout_wf l"
    and "\<forall>r\<in>set (filter_instances l). map_wf (outports (heap l r)) \<and> resolved_inports (heap l r) = [] \<and> resolved_outports (heap l r) = []"
  shows "\<exists>l'. do_placement res lh l = Inr l'
    \<and> (\<forall>a\<in>set (filter_instances l). \<forall>p.
         outs (heap l') a p = map (remote_of (\<lambda>r. gftid (heap l' r))) (ports_of (heap l a) p))
    \<and> (\<forall>a\<in>set (filter_instances l). \<forall>b\<in>set (filter_instances l). \<forall>p q.
         (Gftid_Port (gftid (heap l' b)) q \<in> set (outs (heap l') a p) \<longleftrightarrow> Instance_Port b q \<in> links l a p)
       \<and> (Gftid_Port (gftid (heap l' a)) p \<in> ins (heap l') b q \<longleftrightarrow> Instance_Port b q \<in> links l a p))"
proof -
  let ?fis = "filter_instances l"
  define ps where "ps = placements res lh (exec_host_pool l) 0 0 (\<lambda>_ _. 0) (map (heap l) ?fis)"
  have "\<exists>l' h2. do_placement res lh l = Inr l' \<and> heap l' = fold resolve_instance ?fis h2
    \<and> (\<forall>i<length ?fis. h2 (?fis ! i) = (ps ! i)\<lparr>local_num_copies := int (length (filter (same_place (ps ! i)) ps)),
        dcmpi_rank := map_get_def (dcmpi_host (ps ! i)) 0 (host_dcmpirank l')\<rparr>)"
    by (rule do_placement_ok [OF assms(1), folded ps_def]) (intro exI conjI)
  then obtain l' h2 where l': "do_placement res lh l = Inr l'" "heap l' = fold resolve_instance ?fis h2"
    "\<forall>i<length ?fis. h2 (?fis ! i) = (ps ! i)\<lparr>local_num_copies := int (length (filter (same_place (ps ! i)) ps)),
        dcmpi_rank := map_get_def (dcmpi_host (ps ! i)) 0 (host_dcmpirank l')\<rparr>"
    by blast
  have d: "distinct ?fis" using assms(2) by (simp add: layout_wf_def)
  have p: "gftid (h2 (?fis ! i)) = int i \<and> outports (h2 (?fis ! i)) = outports (heap l (?fis ! i))
     \<and> resolved_inports (h2 (?fis ! i)) = [] \<and> resolved_outports (h2 (?fis ! i)) = []" if i: "i < length ?fis" for i
  proof -
    have "?fis ! i \<in> set ?fis" using i by simp
    with assms(3) have "resolved_inports (heap l (?fis ! i)) = []" "resolved_outports (heap l (?fis ! i)) = []" by blast+
    with i show ?thesis
      using l'(3) placements_fields(1-4) [OF _ ps_def, of i] by simp
  qed
  have h2: "outports (h2 r) = outports (heap l r)" "resolved_inports (h2 r) = []" "resolved_outports (h2 r) = []"
      "ports_of (h2 r) = ports_of (heap l r)" if "r \<in> set ?fis" for r
    using that p unfolding in_set_conv_nth ports_of_def [abs_def] by auto
  have g: "gftid (heap l' r) = gftid (h2 r)" for r unfolding l'(2) by (rule gftid_same) simp
  have inj: "gftid (h2 a) = gftid (h2 b) \<longleftrightarrow> a = b" if "a \<in> set ?fis" "b \<in> set ?fis" for a b
    using that p unfolding in_set_conv_nth by auto
  have wf: "\<forall>r\<in>set ?fis. map_wf (outports (h2 r))" using assms(3) h2(1) by simp
  have R: "ins (heap l') b q = {Gftid_Port (gftid (h2 r)) p | r p. r \<in> set ?fis \<and> Instance_Port b q \<in> links l r p}"
    and O: "outs (heap l') a p = map (remote_of (\<lambda>r. gftid (h2 r))) (ports_of (heap l a) p)"
    if "a \<in> set ?fis" "b \<in> set ?fis" for a b p q
  proof -
    note r = resolve_instances [where h = h2 and a = a and b = b, OF d wf, folded l'(2)]
    have i: "ins h2 b q = {}" "outs h2 a p = []" for p q using h2(2,3) that by (simp_all add: ins_def outs_def map_get_def_def)
    show "ins (heap l') b q = {Gftid_Port (gftid (h2 r)) p | r p. r \<in> set ?fis \<and> Instance_Port b q \<in> links l r p}"
    proof -
      have "ins (heap l') b q = {Gftid_Port (gftid (h2 r)) p | r p. r \<in> set ?fis \<and> Instance_Port b q \<in> set (ports_of (h2 r) p)}"
        using r(1) h2(2,3) that i by simp
      also have "\<dots> = {Gftid_Port (gftid (h2 r)) p | r p. r \<in> set ?fis \<and> Instance_Port b q \<in> links l r p}"
        unfolding links_def using h2(4) by (metis (no_types, opaque_lifting))
      finally show ?thesis .
    qed
    show "outs (heap l') a p = map (remote_of (\<lambda>r. gftid (h2 r))) (ports_of (heap l a) p)"
      using r h2 that unfolding i by (auto simp: ports_of_def map_get_def_def)
  qed
  have "(Gftid_Port (gftid (heap l' b)) q \<in> set (outs (heap l') a p) \<longleftrightarrow> Instance_Port b q \<in> links l a p)
       \<and> (Gftid_Port (gftid (heap l' a)) p \<in> ins (heap l') b q \<longleftrightarrow> Instance_Port b q \<in> links l a p)"
    if ab: "a \<in> set ?fis" "b \<in> set ?fis" for a b p q
  proof -
    have into: "ip \<in> links l a p \<Longrightarrow> ip_instance ip \<in> set ?fis" for ip using assms(2) ab unfolding layout_wf_def by blast
    have "Gftid_Port (gftid (h2 b)) q = remote_of (\<lambda>r. gftid (h2 r)) ip \<longleftrightarrow> ip = Instance_Port b q" if "ip \<in> links l a p" for ip
      using inj [OF ab(2) into [OF that]] by (cases ip) (auto simp: remote_of_def)
    then have "Gftid_Port (gftid (h2 b)) q \<in> remote_of (\<lambda>r. gftid (h2 r)) ` links l a p \<longleftrightarrow> Instance_Port b q \<in> links l a p"
      by blast
    then show ?thesis unfolding R [OF ab] O [OF ab] g set_map links_def [symmetric] using inj [OF ab(1)] ab(1) by blast
  qed
  moreover have "\<forall>a\<in>set ?fis. \<forall>p. outs (heap l') a p = map (remote_of (\<lambda>r. gftid (heap l' r))) (ports_of (heap l a) p)"
    unfolding g using O by blast
  ultimately show ?thesis using l'(1) by blast
qed

theorem placement_ports_witness:
  "\<exists>l'. do_placement (\<lambda>h. h = ''here'' \<or> h = ''me'') ''me'' console_and_two = Inr l'
     \<and> outs (heap l') 0 ''o'' = [Gftid_Port (gftid (heap l' 1)) ''i'']
     \<and> Gftid_Port (gftid (heap l' 1)) ''o'' \<in> ins (heap l') 2 ''i''"
proof -
  have wf: "layout_wf console_and_two"
    by (auto simp: layout_wf_def links_def ports_of_def map_get_def_def console_and_two_heap DCFilterInstance_new_def split: if_splits)
  have "\<forall>r\<in>set (filter_instances console_and_two). map_wf (outports (heap console_and_two r))
      \<and> resolved_inports (heap console_and_two r) = [] \<and> resolved_outports (heap console_and_two r) = []"
    by (simp add: console_and_two_heap DCFilterInstance_new_def map_wf_def)
  from placement_ports [OF console_and_two_ready wf this] show ?thesis
    by (force simp: console_and_two_heap links_def ports_of_def map_get_def_def DCFilterInstance_new_def remote_of_def)
qed

end
