(* ===== verification/Runtime.thy ===== *)
theory Runtime
  imports Executor
begin

text \<open>
  One process of the MPI runtime (\<open>src/src/dcmpiruntime.cpp\<close>, \<open>src/src/dcmpiruntime-util.h\<close>): how the
  out-ports of its filters are linked up, how packets are delivered and passed on, how sends and
  receives are completed, and when the main loop ends. MPI is a library: a message that is sent
  is an element of \<open>started_sends\<close>, a message that has arrived the first element of an inbox, and whether
  \<open>MPI_Test\<close> finds a request done is an argument. A message longer than the receive buffer is MPI's
  truncation error, which aborts. Rank and cluster numbers are integers; they are
  words in the headers of packets.
\<close>

section \<open>State\<close>

text \<open>
  A packet that is being sent is in \<open>sent_packets\<close> with its reference count (\<open>None\<close> once it is
  deleted); \<open>outreq\<close> has, for every request that is not done, the packet it belongs to (the
  vectors \<open>outreq\<close> and \<open>outreq_pending_state\<close> of the code).
\<close>

record runtime =
  rt_process :: process
  mpi_rank :: int
  mpi_size :: int
  this_dcmpi_rank :: int
  totaldcmpiranks :: int
  cluster_rank :: int
  cluster_offset :: int
  console_filter_present :: bool
  handles_console :: bool
  use_proxy :: bool
  MUID_of_dcmpiruntime :: int
  unfinished_local_gftids :: "int list"
  all_filter_done_messages_routed :: int
  all_filter_done_messages_to_route :: int
  num_all_filters_done_received :: int
  sent_all_filters_done_message :: bool
  started_sends :: "(int \<times> char list) list"
  outreq :: "nat list"
  sent_packets :: "nat \<Rightarrow> DCMPIPacket \<times> int option"
  next_packet :: nat

definition put_out :: "out_queue \<Rightarrow> DCMPIPacket \<Rightarrow> runtime \<Rightarrow> runtime" where
  "put_out oq p rt =
     (let pr = rt_process rt; qs = queues pr
      in rt\<lparr>rt_process := pr\<lparr>queues := qs\<lparr>out_queues := (out_queues qs)(oq := Queue_put p (out_queues qs oq))\<rparr>\<rparr>\<rparr>)"

definition set_budget :: "int \<Rightarrow> MemUsage \<Rightarrow> runtime \<Rightarrow> runtime" where
  "set_budget m mu rt =
     (let pr = rt_process rt in rt\<lparr>rt_process := pr\<lparr>MUID_MemUsage := (MUID_MemUsage pr)(m \<mapsto> mu)\<rparr>\<rparr>)"

definition rt_reduce :: "int \<Rightarrow> int \<Rightarrow> runtime \<Rightarrow> runtime result" where
  "rt_reduce m bytes rt =
     (case MUID_MemUsage (rt_process rt) m of
        None \<Rightarrow> Inl Undefined_behaviour
      | Some mu \<Rightarrow> bind_result (reduce bytes mu) (\<lambda>mu'. Inr (set_budget m mu' rt)))"

section \<open>Linking the out-ports\<close>

text \<open>
  The writer for one remote of a port: into the in-port itself, to the console, to the proxy, or
  to MPI. \<open>instances\<close> is \<open>gftids_to_instances\<close>.
\<close>

definition remote_address :: "DCFilterInstance \<Rightarrow> string \<Rightarrow> DCFilterInstance \<Rightarrow> Gftid_Port \<Rightarrow> DCMPIPacketAddress" where
  "remote_address fi key remote gp =
     \<lparr>to_rank = word_of_int (dcmpi_rank remote), to_cluster_rank = word_of_int (dcmpi_cluster_rank remote),
      to_gftid = word_of_int (gp_gftid gp), to_port = gp_port gp, from_rank = word_of_int (dcmpi_rank fi),
      from_cluster_rank = word_of_int (dcmpi_cluster_rank fi), from_gftid = word_of_int (gftid fi), from_port = key\<rparr>"

definition make_writer :: "runtime \<Rightarrow> (int \<rightharpoonup> DCFilterInstance) \<Rightarrow> DCFilterInstance \<Rightarrow> string \<Rightarrow> Gftid_Port \<Rightarrow> QueueWriter result" where
  "make_writer rt instances fi key gp =
     (case instances (gp_gftid gp) of
        None \<Rightarrow> Inl Undefined_behaviour
      | Some remote \<Rightarrow>
          if executors (rt_process rt) (gp_gftid gp) \<noteq> None
          then Inr (LocalQueueWriter (gp_gftid gp) (gp_port gp) (gftid fi) remote)
          else let oq = (if dcmpi_rank remote = - 1 \<and> handles_console rt then Mpi_to_console_queue
                         else if mpi_rank rt = 0 \<and> cluster_rank rt \<noteq> dcmpi_cluster_rank remote then Mpi_to_proxy_queue
                         else Single_mpi_outqueue)
               in if oq = Mpi_to_proxy_queue \<and> \<not> use_proxy rt then Inl Assert_failure
                  else Inr (RemoteQueueWriter (remote_address fi key remote gp) oq remote))"

text \<open>
  One out-port. The policy and the order of \<open>std::random_shuffle\<close> are arguments; a port without
  remotes has no manager, and \<open>note_final_target\<close> is called through a null pointer.
\<close>

fun make_writers :: "runtime \<Rightarrow> (int \<rightharpoonup> DCFilterInstance) \<Rightarrow> DCFilterInstance \<Rightarrow> string \<Rightarrow> ResolvedMultiPort \<Rightarrow> QueueWriter list result" where
  "make_writers rt instances fi key [] = Inr []"
| "make_writers rt instances fi key (gp # gps) =
     bind_result (make_writer rt instances fi key gp) (\<lambda>w.
     bind_result (make_writers rt instances fi key gps) (\<lambda>ws. Inr (w # ws)))"

definition link_port :: "(QueueWriter list \<Rightarrow> QueueWriter list) \<Rightarrow> int \<Rightarrow> runtime \<Rightarrow> (int \<rightharpoonup> DCFilterInstance) \<Rightarrow>
    DCFilterInstance \<Rightarrow> string \<times> ResolvedMultiPort \<Rightarrow> (string, MultiOutportManager) std_map \<Rightarrow> (string, MultiOutportManager) std_map result" where
  "link_port shuffle pol rt instances fi port ops =
     bind_result (make_writers rt instances fi (fst port) (snd port)) (\<lambda>ws.
       let ops' = (if ws \<noteq> [] \<and> \<not> map_has (fst port) ops then map_put (fst port) (MultiOutportManager_new pol) ops else ops)
       in case map_of ops' (fst port) of
            None \<Rightarrow> Inl Undefined_behaviour
          | Some mom \<Rightarrow> Inr (map_put (fst port) (note_final_target shuffle (fold add_target ws mom)) ops'))"

definition link_executor :: "(QueueWriter list \<Rightarrow> QueueWriter list) \<Rightarrow> int \<Rightarrow> (int \<rightharpoonup> DCFilterInstance) \<Rightarrow> int \<Rightarrow> runtime \<Rightarrow> runtime result" where
  "link_executor shuffle pol instances g rt =
     (case executors (rt_process rt) g of
        None \<Rightarrow> Inl Undefined_behaviour
      | Some ex \<Rightarrow>
          bind_result (fold_result (link_port shuffle pol rt instances (filter_instance ex)) (resolved_outports (filter_instance ex)) (out_ports ex)) (\<lambda>ops.
            Inr (rt\<lparr>rt_process := (rt_process rt)\<lparr>executors := (executors (rt_process rt))(g \<mapsto> ex\<lparr>out_ports := ops\<rparr>)\<rparr>\<rparr>)))"

section \<open>Delivery\<close>

text \<open>
  \<open>deliver_in\<close>: a packet for this process. The executor and the in-port are looked up with
  \<open>operator[]\<close>, which makes a null pointer of what is not there.
\<close>

definition on_in_port :: "DCMPIPacket \<Rightarrow> (Buffer_MUID Queue \<Rightarrow> Buffer_MUID Queue) \<Rightarrow> runtime \<Rightarrow> runtime result" where
  "on_in_port p f rt =
     (let g = sint (to_gftid (address p)); port = to_port (address p); pr = rt_process rt
      in if executors pr g = None then Inl Undefined_behaviour
         else case in_queues (queues pr) (g, port) of
             None \<Rightarrow> Inl Undefined_behaviour
           | Some iq \<Rightarrow> Inr (rt\<lparr>rt_process := set_queue g port (f iq) pr\<rparr>))"

definition deliver_in :: "DCMPIPacket \<Rightarrow> runtime \<Rightarrow> runtime result" where
  "deliver_in p rt =
     (if packet_type p = DCMPI_PACKET_TYPE_DCBUF then
        on_in_port p (Queue_put \<lparr>buffer = body p, muid = MUID_of_dcmpiruntime rt\<rparr>) rt
      else if packet_type p = DCMPI_PACKET_TYPE_REMOVE_PUTTER then
        on_in_port p (remove_putter (sint (from_gftid (address p)))) rt
      else if packet_type p = DCMPI_PACKET_TYPE_ALL_MY_FILTERS_DONE then
        Inr (rt\<lparr>num_all_filters_done_received := num_all_filters_done_received rt + 1\<rparr>)
      else Inl Assert_failure)"

text \<open>\<open>MPI_Isend\<close> of the header and, if there is one, of the body; a reference for each request.\<close>

definition send_mpi :: "bool \<Rightarrow> int \<Rightarrow> DCMPIPacket \<Rightarrow> runtime \<Rightarrow> runtime result" where
  "send_mpi host outrank p rt =
     bind_result (to_bytearray host p) (\<lambda>hdr.
     bind_result (addref RefCounted_new) (\<lambda>c1.
       let r = next_packet rt;
           rt1 = rt\<lparr>started_sends := started_sends rt @ [(outrank, hdr)], outreq := outreq rt @ [r],
             sent_packets := (sent_packets rt)(r := (p, c1)), next_packet := r + 1\<rparr>
       in case body p of
            None \<Rightarrow> Inr rt1
          | Some b \<Rightarrow>
              if sint (body_len p) < 0 then Inl Undefined_behaviour
              else bind_result (block_read (mem b) 0 (nat (sint (body_len p)))) (\<lambda>bytes.
                bind_result (addref c1) (\<lambda>c2.
                  Inr (rt1\<lparr>started_sends := started_sends rt1 @ [(outrank, bytes)], outreq := outreq rt1 @ [r],
                    sent_packets := (sent_packets rt1)(r := (p, c2))\<rparr>)))))"

text \<open>\<open>deliver_elsewhere\<close>: to the console, to the proxy, or by MPI, through rank 0 for the first two.\<close>

datatype route = To_console | To_proxy | To_mpi int

definition route_of :: "runtime \<Rightarrow> DCMPIPacketAddress \<Rightarrow> route" where
  "route_of rt a =
     (if sint (to_rank a) = - 1 \<and> handles_console rt then To_console
      else if mpi_rank rt = 0 \<and> use_proxy rt \<and> sint (to_cluster_rank a) \<noteq> cluster_rank rt then To_proxy
      else To_mpi (if sint (to_rank a) = - 1 then 0
                   else if sint (to_cluster_rank a) \<noteq> cluster_rank rt then 0
                   else sint (to_rank a) - cluster_offset rt))"

definition count_routed :: "DCMPIPacket \<Rightarrow> runtime \<Rightarrow> runtime" where
  "count_routed p rt =
     (if packet_type p = DCMPI_PACKET_TYPE_ALL_MY_FILTERS_DONE \<and> sint (from_rank (address p)) \<noteq> this_dcmpi_rank rt
      then rt\<lparr>all_filter_done_messages_routed := all_filter_done_messages_routed rt + 1\<rparr> else rt)"

definition deliver_elsewhere :: "bool \<Rightarrow> DCMPIPacket \<Rightarrow> runtime \<Rightarrow> runtime result" where
  "deliver_elsewhere host p rt =
     (let rt1 = count_routed p rt
      in case route_of rt (address p) of
           To_console \<Rightarrow> Inr (put_out Mpi_to_console_queue p rt1)
         | To_proxy \<Rightarrow> Inr (put_out Mpi_to_proxy_queue p rt1)
         | To_mpi outrank \<Rightarrow> send_mpi host outrank p rt1)"

text \<open>What the main loop does with every packet that comes in.\<close>

definition deliver :: "bool \<Rightarrow> DCMPIPacket \<Rightarrow> runtime \<Rightarrow> runtime result" where
  "deliver host p rt =
     (if sint (to_rank (address p)) = this_dcmpi_rank rt then deliver_in p rt else deliver_elsewhere host p rt)"

section \<open>Finishing sends\<close>

text \<open>
  The pass over the pending requests. When the last request of a packet with a body is done the
  memory of the body is given back to the budget it was charged to: the runtime's for what came
  from the console or another cluster, the sender's otherwise.
\<close>

definition charged_to :: "runtime \<Rightarrow> DCMPIPacketAddress \<Rightarrow> int" where
  "charged_to rt a =
     (if handles_console rt \<and> sint (from_rank a) = - 1 then MUID_of_dcmpiruntime rt
      else if sint (from_cluster_rank a) \<noteq> cluster_rank rt then MUID_of_dcmpiruntime rt
      else sint (from_gftid a))"

definition finish_send :: "nat \<Rightarrow> runtime \<Rightarrow> runtime result" where
  "finish_send r rt =
     (case sent_packets rt r of (p, c0) \<Rightarrow>
        bind_result
          (case body p of
             None \<Rightarrow> Inr rt
           | Some b \<Rightarrow> if c0 = Some 1 then rt_reduce (charged_to rt (address p)) (wSize b) rt else Inr rt) (\<lambda>rt1.
        bind_result (delref c0) (\<lambda>c. Inr (rt1\<lparr>sent_packets := (sent_packets rt1)(r := (p, c))\<rparr>))))"

text \<open>\<open>test u\<close> is what \<open>MPI_Test\<close> answers for the request at position \<open>u\<close>.\<close>

fun finish_loop :: "(nat \<Rightarrow> bool) \<Rightarrow> nat \<Rightarrow> nat list \<Rightarrow> nat list \<Rightarrow> runtime \<Rightarrow> (nat list \<times> runtime) result" where
  "finish_loop test u new_outreq [] rt = Inr (new_outreq, rt)"
| "finish_loop test u new_outreq (r # rs) rt =
     (if test u then bind_result (finish_send r rt) (\<lambda>rt1. finish_loop test (u + 1) new_outreq rs rt1)
      else finish_loop test (u + 1) (new_outreq @ [r]) rs rt)"

definition finish_sends :: "(nat \<Rightarrow> bool) \<Rightarrow> runtime \<Rightarrow> runtime result" where
  "finish_sends test rt =
     bind_result (finish_loop test 0 [] (outreq rt) rt) (\<lambda>(new_outreq, rt1). Inr (rt1\<lparr>outreq := new_outreq\<rparr>))"

section \<open>Receiving\<close>

datatype recv_state = REQ_INACTIVE | REQ_ACTIVE | REQ_COMPLETED_READY_FOR_BODY

record mpi_recv_info =
  recv_state :: recv_state
  bodyless_packet :: "DCMPIPacket option"

definition mpi_recv_info_new :: mpi_recv_info where
  "mpi_recv_info_new = \<lparr>recv_state = REQ_INACTIVE, bodyless_packet = None\<rparr>"

text \<open>\<open>MPI_Irecv\<close> of a header.\<close>

definition start_receive :: "mpi_recv_info \<Rightarrow> mpi_recv_info" where
  "start_receive info = (if recv_state info = REQ_INACTIVE then info\<lparr>recv_state := REQ_ACTIVE\<rparr> else info)"

definition blank_packet :: DCMPIPacket where
  "blank_packet = DCMPIPacket_new \<lparr>to_rank = 0, to_cluster_rank = 0, to_gftid = 0, to_port = [],
     from_rank = 0, from_cluster_rank = 0, from_gftid = 0, from_port = []\<rparr> 0 0 None"

text \<open>
  The header: the packet that \<open>MPI_Test\<close> says has arrived, the one that waits for memory, or
  none. \<open>None\<close> of an \<open>io\<close> is a receive that waits for a message.
\<close>

definition receive_head :: "bool \<Rightarrow> bool \<Rightarrow> mpi_recv_info \<Rightarrow> char list list \<Rightarrow> (DCMPIPacket option, char list list) io" where
  "receive_head host req_done info inbox =
     (if recv_state info = REQ_COMPLETED_READY_FOR_BODY then ret (bodyless_packet info) inbox
      else if recv_state info = REQ_ACTIVE \<and> req_done then
        (case inbox of
           [] \<Rightarrow> None
         | m # ms \<Rightarrow>
             if DCMPI_PACKET_HEADER_SIZE < length m then fail Exit_failure
             else (case init_from_bytearray host m blank_packet of Inl e \<Rightarrow> fail e | Inr p \<Rightarrow> ret (Some p) ms))
      else ret None inbox)"

text \<open>\<open>MPI_Recv\<close> of the body into a new buffer.\<close>

definition receive_body :: "bool \<Rightarrow> DCMPIPacket \<Rightarrow> char list list \<Rightarrow> (DCMPIPacket, char list list) io" where
  "receive_body host p inbox =
     (case inbox of
        [] \<Rightarrow> None
      | m # ms \<Rightarrow>
          let sz = sint (body_len p)
          in if sz < 0 \<or> sz < int (length m) then fail Exit_failure
             else (case bind_result (DCBuffer_sized host sz) (\<lambda>buf.
                     bind_result (block_write (mem buf) 0 m) (\<lambda>blk.
                       setUsedSize sz (if pBuf buf = None then buf else buf\<lparr>pBuf := Some blk\<rparr>))) of
                   Inl e \<Rightarrow> fail e
                 | Inr buf \<Rightarrow> ret (p\<lparr>body := Some buf\<rparr>) ms))"

text \<open>
  One pass for one rank. The body of a packet is received once the budget \<open>mu\<close> of the runtime has
  room for it; until then the packet waits in \<open>bodyless_packet\<close>. A packet that is complete is
  delivered.
\<close>

definition accept_packet :: "bool \<Rightarrow> DCMPIPacket \<Rightarrow> mpi_recv_info \<Rightarrow> MemUsage \<Rightarrow> char list list \<Rightarrow>
    (DCMPIPacket option \<times> mpi_recv_info \<times> MemUsage, char list list) io" where
  "accept_packet host p info mu inbox =
     (if packet_type p = DCMPI_PACKET_TYPE_DCBUF then
        (case accumulate_if_not_exceeding_limit (sint (body_len p)) mu of
           Inl e \<Rightarrow> fail e
         | Inr (room, mu') \<Rightarrow>
             if \<not> room then ret (None, info\<lparr>recv_state := REQ_COMPLETED_READY_FOR_BODY, bodyless_packet := Some p\<rparr>, mu) inbox
             else bind_io (receive_body host p inbox) (\<lambda>p' inbox'.
               ret (Some p', info\<lparr>recv_state := REQ_INACTIVE, bodyless_packet := None\<rparr>, mu') inbox'))
      else ret (Some p, info\<lparr>recv_state := REQ_INACTIVE, bodyless_packet := None\<rparr>, mu) inbox)"

definition receive_packet :: "bool \<Rightarrow> bool \<Rightarrow> mpi_recv_info \<Rightarrow> MemUsage \<Rightarrow> char list list \<Rightarrow>
    (DCMPIPacket option \<times> mpi_recv_info \<times> MemUsage, char list list) io" where
  "receive_packet host req_done info mu inbox =
     bind_io (receive_head host req_done info inbox) (\<lambda>head inbox1.
       case head of None \<Rightarrow> ret (None, info, mu) inbox1 | Some p \<Rightarrow> accept_packet host p info mu inbox1)"

definition finish_receive :: "bool \<Rightarrow> bool \<Rightarrow> mpi_recv_info \<Rightarrow> char list list \<Rightarrow> runtime \<Rightarrow>
    (mpi_recv_info \<times> runtime, char list list) io" where
  "finish_receive host req_done info inbox rt =
     (case MUID_MemUsage (rt_process rt) (MUID_of_dcmpiruntime rt) of
        None \<Rightarrow> fail Undefined_behaviour
      | Some mu \<Rightarrow>
          bind_io (receive_packet host req_done info mu inbox) (\<lambda>(head, info', mu') inbox'.
            let rt' = set_budget (MUID_of_dcmpiruntime rt) mu' rt
            in case head of
                 None \<Rightarrow> ret (info', rt') inbox'
               | Some p \<Rightarrow> (case deliver host p rt' of Inl e \<Rightarrow> fail e | Inr rt'' \<Rightarrow> ret (info', rt'') inbox')))"

section \<open>The end of the run\<close>

text \<open>
  A filter that is finished leaves the queues it writes to (\<open>DCFilterThread::run\<close>) and the list of
  unfinished filters.
\<close>

definition leave_targets :: "int \<Rightarrow> MultiOutportManager \<Rightarrow> queues \<Rightarrow> queues result" where
  "leave_targets g mom qs =
     (if length (targets mom) < num_targets mom then Inl Undefined_behaviour
      else fold_result (\<lambda>w. writer_remove_putter w g) (take (num_targets mom) (targets mom)) qs)"

definition filter_done :: "int \<Rightarrow> runtime \<Rightarrow> runtime result" where
  "filter_done g rt =
     (case executors (rt_process rt) g of
        None \<Rightarrow> Inl Undefined_behaviour
      | Some ex \<Rightarrow>
          bind_result (fold_result (\<lambda>(port, mom). leave_targets (gftid (filter_instance ex)) mom) (out_ports ex) (queues (rt_process rt))) (\<lambda>qs.
            if gftid (filter_instance ex) \<notin> set (unfinished_local_gftids rt) then Inl Undefined_behaviour
            else Inr (rt\<lparr>rt_process := (rt_process rt)\<lparr>queues := qs\<rparr>,
              unfinished_local_gftids := remove1 (gftid (filter_instance ex)) (unfinished_local_gftids rt)\<rparr>)))"

text \<open>
  When no filter is left and nothing waits to go out, every other rank is told. \<open>clusterrank\<close> is
  \<open>dcmpirank_clusterrank\<close>, whose \<open>operator[]\<close> gives 0 for a rank without filters.
\<close>

definition nothing_to_send :: "runtime \<Rightarrow> bool" where
  "nothing_to_send rt \<longleftrightarrow> Queue_empty (out_queues (queues (rt_process rt)) Single_mpi_outqueue)
     \<and> (use_proxy rt \<and> mpi_rank rt = 0 \<longrightarrow> Queue_empty (out_queues (queues (rt_process rt)) Mpi_to_proxy_queue))"

definition done_packet :: "runtime \<Rightarrow> (int, int) std_map \<Rightarrow> int \<Rightarrow> DCMPIPacket" where
  "done_packet rt clusterrank rnk =
     DCMPIPacket_new \<lparr>to_rank = word_of_int rnk, to_cluster_rank = word_of_int (map_get_def rnk 0 clusterrank),
       to_gftid = - 1, to_port = [], from_rank = word_of_int (this_dcmpi_rank rt),
       from_cluster_rank = word_of_int (cluster_rank rt), from_gftid = - 1, from_port = []\<rparr>
       DCMPI_PACKET_TYPE_ALL_MY_FILTERS_DONE 0 None"

definition other_ranks :: "runtime \<Rightarrow> int list" where
  "other_ranks rt =
     (let first = (if console_filter_present rt then - 1 else 0)
      in filter (\<lambda>rnk. rnk \<noteq> this_dcmpi_rank rt) (map (\<lambda>i. first + int i) [0..<nat (totaldcmpiranks rt)]))"

definition send_done_message :: "bool \<Rightarrow> (int, int) std_map \<Rightarrow> runtime \<Rightarrow> runtime result" where
  "send_done_message host clusterrank rt =
     (if \<not> sent_all_filters_done_message rt \<and> unfinished_local_gftids rt = [] \<and> nothing_to_send rt
      then fold_result (\<lambda>rnk rt. deliver_elsewhere host (done_packet rt clusterrank rnk) rt) (other_ranks rt)
             (rt\<lparr>sent_all_filters_done_message := True\<rparr>)
      else Inr rt)"

definition num_all_filters_done_expected :: "runtime \<Rightarrow> int" where
  "num_all_filters_done_expected rt = totaldcmpiranks rt - 1"

definition messages_to_route :: "runtime \<Rightarrow> int" where
  "messages_to_route rt =
     (if mpi_rank rt \<noteq> 0 then 0
      else let others = mpi_size rt - 1 + (if cluster_rank rt = 0 \<and> console_filter_present rt then 1 else 0)
           in (if cluster_rank rt = 0 \<and> console_filter_present rt then 2 * (mpi_size rt - 1) else 0)
              + others * (totaldcmpiranks rt - (others + 1)) * 2)"

text \<open>The test at the top of the loop; \<open>from_console\<close> is \<open>mpi_from_console_queue\<close>.\<close>

definition may_end :: "runtime \<Rightarrow> DCMPIPacket Queue \<Rightarrow> bool" where
  "may_end rt from_console \<longleftrightarrow> sent_all_filters_done_message rt
     \<and> num_all_filters_done_received rt = num_all_filters_done_expected rt
     \<and> unfinished_local_gftids rt = []
     \<and> Queue_empty (out_queues (queues (rt_process rt)) Single_mpi_outqueue)
     \<and> all_filter_done_messages_routed rt = all_filter_done_messages_to_route rt
     \<and> outreq rt = []
     \<and> (handles_console rt \<longrightarrow> \<not> has_more_putters from_console \<and> Queue_empty from_console)"

end
