(* ===== verification/RuntimeSends.thy ===== *)
theory RuntimeSends
  imports Runtime
begin

text \<open>
  The memory of bodies that are being sent: every request that is done, in whatever order and however many
  passes of the main loop it takes, leaves the budgets charged with exactly what is still on its
  way, and a packet is deleted with its last request.
\<close>

section \<open>What is on its way\<close>

definition weight :: "runtime \<Rightarrow> nat \<Rightarrow> int \<Rightarrow> int" where
  "weight rt r m = (case body (fst (sent_packets rt r)) of None \<Rightarrow> 0
     | Some b \<Rightarrow> if charged_to rt (address (fst (sent_packets rt r))) = m then wSize b else 0)"

definition flight :: "runtime \<Rightarrow> nat list \<Rightarrow> int \<Rightarrow> int" where
  "flight rt pend m = (\<Sum>r\<in>set pend. weight rt r m)"

definition usage :: "runtime \<Rightarrow> int \<Rightarrow> int" where
  "usage rt m = (case MUID_MemUsage (rt_process rt) m of None \<Rightarrow> 0 | Some mu \<Rightarrow> current_usage mu)"

text \<open>Every packet with requests that are not done has one reference for each.\<close>

definition pend_ok :: "runtime \<Rightarrow> nat list \<Rightarrow> bool" where
  "pend_ok rt pend \<longleftrightarrow> (\<forall>r\<in>set pend. snd (sent_packets rt r) = Some (int (count_list pend r)) \<and> count_list pend r \<le> 2
     \<and> (\<forall>b. body (fst (sent_packets rt r)) = Some b \<longrightarrow> 0 \<le> wSize b
          \<and> MUID_MemUsage (rt_process rt) (charged_to rt (address (fst (sent_packets rt r)))) \<noteq> None))"

definition covered :: "runtime \<Rightarrow> nat list \<Rightarrow> bool" where
  "covered rt pend \<longleftrightarrow> (\<forall>m. flight rt pend m \<le> usage rt m \<and> int8_ok (usage rt m))"

lemma pend_okD:
  assumes "pend_ok rt pend" and "r \<in> set pend"
  shows "snd (sent_packets rt r) = Some (int (count_list pend r))" and "count_list pend r \<le> 2"
    and "body (fst (sent_packets rt r)) = Some b \<Longrightarrow> 0 \<le> wSize b"
    and "body (fst (sent_packets rt r)) = Some b \<Longrightarrow>
      MUID_MemUsage (rt_process rt) (charged_to rt (address (fst (sent_packets rt r)))) \<noteq> None"
  using assms unfolding pend_ok_def by auto

lemma weight_nonneg: "pend_ok rt pend \<Longrightarrow> r \<in> set pend \<Longrightarrow> 0 \<le> weight rt r m"
  using pend_okD(3) [of rt pend r] by (auto simp: weight_def split: option.splits)

lemma weight_le_flight:
  assumes "pend_ok rt pend" and "r \<in> set pend"
  shows "weight rt r m \<le> flight rt pend m"
  unfolding flight_def using assms by (intro member_le_sum) (auto intro: weight_nonneg)

lemma flight_remove:
  "flight rt (xs @ r # ys) m = flight rt (xs @ ys) m + (if r \<in> set (xs @ ys) then 0 else weight rt r m)"
proof (cases "r \<in> set (xs @ ys)")
  case True
  then have "set (xs @ r # ys) = set (xs @ ys)" by auto
  then show ?thesis using True by (simp add: flight_def)
next
  case False
  then have "set (xs @ r # ys) = insert r (set (xs @ ys))" by auto
  then show ?thesis using False by (simp add: flight_def)
qed

text \<open>The states of a process that differ in budgets and references only.\<close>

definition same_sends :: "runtime \<Rightarrow> runtime \<Rightarrow> bool" where
  "same_sends rt rt' \<longleftrightarrow> (\<forall>r. fst (sent_packets rt' r) = fst (sent_packets rt r))
     \<and> (\<forall>a. charged_to rt' a = charged_to rt a)
     \<and> (\<forall>m. MUID_MemUsage (rt_process rt') m = None \<longleftrightarrow> MUID_MemUsage (rt_process rt) m = None)
     \<and> outreq rt' = outreq rt \<and> started_sends rt' = started_sends rt \<and> next_packet rt' = next_packet rt"

lemma charged_to_upd [simp]: "charged_to (rt\<lparr>sent_packets := f\<rparr>) a = charged_to rt a"
  by (simp add: charged_to_def)

lemma charged_to_upd2 [simp]: "charged_to (rt\<lparr>outreq := x\<rparr>) a = charged_to rt a"
  by (simp add: charged_to_def)

lemma same_sends_refl [simp]: "same_sends rt rt"
  by (simp add: same_sends_def)

lemma same_sends_trans: "same_sends rt rt1 \<Longrightarrow> same_sends rt1 rt2 \<Longrightarrow> same_sends rt rt2"
  by (simp add: same_sends_def)

lemma same_sendsD:
  assumes "same_sends rt rt'"
  shows "fst (sent_packets rt' r) = fst (sent_packets rt r)" and "charged_to rt' a = charged_to rt a"
    and "MUID_MemUsage (rt_process rt') m = None \<longleftrightarrow> MUID_MemUsage (rt_process rt) m = None"
  using assms unfolding same_sends_def by blast+

lemma weight_same: "same_sends rt rt' \<Longrightarrow> weight rt' = weight rt"
  by (intro ext) (simp only: weight_def same_sendsD)

lemma flight_same: "same_sends rt rt' \<Longrightarrow> flight rt' = flight rt"
  by (intro ext) (simp add: flight_def weight_same)

section \<open>One request\<close>

lemma rt_reduce_ok:
  assumes "MUID_MemUsage (rt_process rt) m \<noteq> None" and "0 \<le> n" and "n \<le> usage rt m" and "int8_ok (usage rt m)"
  shows "\<exists>rt'. rt_reduce m n rt = Inr rt' \<and> same_sends rt rt' \<and> sent_packets rt' = sent_packets rt
    \<and> (\<forall>k. usage rt' k = usage rt k - (if k = m then n else 0))"
proof -
  obtain mu where mu: "MUID_MemUsage (rt_process rt) m = Some mu" using assms(1) by auto
  then have "0 \<le> current_usage mu - n" "int8_ok (current_usage mu - n)"
    using assms(2-4) by (auto simp: usage_def int8_ok_def)
  then show ?thesis
    using mu by (auto simp: rt_reduce_def reduce_def Let_def set_budget_def same_sends_def charged_to_def usage_def
        split: option.splits)
qed

lemma finish_send_ok:
  assumes "pend_ok rt (xs @ r # ys)" and "covered rt (xs @ r # ys)"
  shows "\<exists>rt'. finish_send r rt = Inr rt' \<and> same_sends rt rt' \<and> pend_ok rt' (xs @ ys) \<and> covered rt' (xs @ ys)
    \<and> (\<forall>m. usage rt' m - flight rt (xs @ ys) m = usage rt m - flight rt (xs @ r # ys) m)
    \<and> (\<forall>x. x \<noteq> r \<longrightarrow> sent_packets rt' x = sent_packets rt x)
    \<and> (r \<notin> set (xs @ ys) \<longrightarrow> snd (sent_packets rt' r) = None)"
proof -
  define p where "p = fst (sent_packets rt r)"
  let ?pend = "xs @ r # ys" and ?n = "count_list (xs @ r # ys) r"
  have r: "r \<in> set ?pend" by simp
  note ok = pend_okD [OF assms(1) r, folded p_def]
  have count: "?n = Suc (count_list (xs @ ys) r)" by simp
  have last: "r \<in> set (xs @ ys) \<longleftrightarrow> ?n \<noteq> 1" unfolding count by (simp add: count_list_0_iff)
  have pkt: "sent_packets rt r = (p, Some (int ?n))" using ok(1) unfolding p_def by (metis prod.collapse)
  have cov: "flight rt ?pend m \<le> usage rt m" "int8_ok (usage rt m)" for m
    using assms(2) unfolding covered_def by auto
  obtain rt1 where rt1: "(case body p of None \<Rightarrow> Inr rt
      | Some b \<Rightarrow> if Some (int ?n) = Some 1 then rt_reduce (charged_to rt (address p)) (wSize b) rt else Inr rt) = Inr rt1"
    and s1: "same_sends rt rt1" "sent_packets rt1 = sent_packets rt"
    and u1: "\<forall>m. usage rt1 m = usage rt m - (if ?n = 1 then weight rt r m else 0)"
  proof (cases "body p")
    case None
    then have "weight rt r m = 0" for m by (simp add: weight_def p_def [symmetric])
    with None show ?thesis by (intro that [of rt]) auto
  next
    case (Some b)
    let ?m = "charged_to rt (address p)"
    have w: "weight rt r m = (if m = ?m then wSize b else 0)" for m by (auto simp: weight_def p_def [symmetric] Some)
    show ?thesis
    proof (cases "?n = 1")
      case True
      have "wSize b \<le> usage rt ?m"
        using weight_le_flight [OF assms(1) r, of ?m] cov(1) [of ?m] unfolding w by simp
      from rt_reduce_ok [OF ok(4) [OF Some] ok(3) [OF Some] this cov(2)] obtain rt1 where
        "rt_reduce ?m (wSize b) rt = Inr rt1" "same_sends rt rt1" "sent_packets rt1 = sent_packets rt"
        "\<forall>k. usage rt1 k = usage rt k - (if k = ?m then wSize b else 0)" by blast
      with True Some show ?thesis by (intro that [of rt1]) (auto simp: w)
    next
      case False
      with Some show ?thesis by (intro that [of rt]) auto
    qed
  qed
  have "int4_ok (int ?n - 1)" using ok(2) by (simp add: int4_ok_def)
  then have d: "delref (Some (int ?n)) = Inr (if ?n = 1 then None else Some (int ?n - 1))"
    by (simp add: delref_def)
  let ?c = "if ?n = 1 then None else Some (int ?n - 1)"
  let ?rt' = "rt1\<lparr>sent_packets := (sent_packets rt1)(r := (p, ?c))\<rparr>"
  have run: "finish_send r rt = Inr ?rt'"
    unfolding finish_send_def pkt prod.case rt1 bind_result.simps d ..
  have same: "same_sends rt ?rt'"
    using s1 by (simp add: same_sends_def p_def)
  have us: "usage ?rt' m = usage rt m - (if ?n = 1 then weight rt r m else 0)" for m
    using u1 by (simp add: usage_def)
  have bal: "usage ?rt' m - flight rt (xs @ ys) m = usage rt m - flight rt ?pend m" for m
    unfolding us flight_remove [of rt xs r ys] using last by simp
  have "pend_ok ?rt' (xs @ ys)"
    unfolding pend_ok_def
  proof (intro ballI conjI allI impI)
    fix x assume x: "x \<in> set (xs @ ys)"
    then have xp: "x \<in> set ?pend" by auto
    note okx = pend_okD [OF assms(1) xp]
    show "snd (sent_packets ?rt' x) = Some (int (count_list (xs @ ys) x))"
      using x okx(1) last count s1(2) by auto
    show "count_list (xs @ ys) x \<le> 2" using okx(2) by (auto split: if_splits)
    fix b assume "body (fst (sent_packets ?rt' x)) = Some b"
    then have b: "body (fst (sent_packets rt x)) = Some b" using same by (simp add: same_sends_def)
    show "0 \<le> wSize b" by (rule okx(3) [OF b])
    show "MUID_MemUsage (rt_process ?rt') (charged_to ?rt' (address (fst (sent_packets ?rt' x)))) \<noteq> None"
      using okx(4) [OF b] same by (simp add: same_sends_def)
  qed
  moreover have "covered ?rt' (xs @ ys)"
    unfolding covered_def
  proof (intro allI conjI)
    fix m
    have "flight rt (xs @ ys) m \<le> usage ?rt' m" using bal [of m] cov(1) [of m] by linarith
    then show "flight ?rt' (xs @ ys) m \<le> usage ?rt' m" unfolding flight_same [OF same] .
    have "0 \<le> flight rt (xs @ ys) m"
      unfolding flight_def using assms(1) by (intro sum_nonneg) (auto intro: weight_nonneg)
    then have "0 \<le> usage ?rt' m" using \<open>flight rt (xs @ ys) m \<le> usage ?rt' m\<close> by linarith
    moreover have "usage ?rt' m \<le> usage rt m" unfolding us using weight_nonneg [OF assms(1) r, of m] by simp
    ultimately show "int8_ok (usage ?rt' m)" using cov(2) [of m] unfolding int8_ok_def by linarith
  qed
  ultimately show ?thesis using run same bal last s1(2) by (intro exI [of _ ?rt']) auto
qed

section \<open>A pass over all of them\<close>

lemma finish_loop_ok:
  assumes "pend_ok rt (new @ rs)" and "covered rt (new @ rs)"
  shows "\<exists>left rt'. finish_loop test u new rs rt = Inr (new @ left, rt') \<and> same_sends rt rt'
    \<and> left = map (\<lambda>i. rs ! i) (filter (\<lambda>i. \<not> test (u + i)) [0..<length rs])
    \<and> pend_ok rt' (new @ left) \<and> covered rt' (new @ left)
    \<and> (\<forall>m. usage rt' m - flight rt (new @ left) m = usage rt m - flight rt (new @ rs) m)
    \<and> (\<forall>x. x \<notin> set rs \<longrightarrow> sent_packets rt' x = sent_packets rt x)
    \<and> (\<forall>x\<in>set rs. x \<notin> set (new @ left) \<longrightarrow> snd (sent_packets rt' x) = None)"
  using assms
proof (induction rs arbitrary: u new rt)
  case Nil
  then show ?case by (intro exI [of _ "[]"] exI [of _ rt]) simp
next
  case (Cons r rs)
  let ?left = "map (\<lambda>i. rs ! i) (filter (\<lambda>i. \<not> test (u + 1 + i)) [0..<length rs])"
  have left: "map (\<lambda>i. (r # rs) ! i) (filter (\<lambda>i. \<not> test (u + i)) [0..<length (r # rs)])
      = (if test u then ?left else r # ?left)"
    unfolding length_Cons upt_conv_Cons [OF zero_less_Suc] map_Suc_upt [symmetric] filter.simps filter_map map_map
    by (simp add: comp_def)
  show ?case
  proof (cases "test u")
    case True
    obtain rt1 where 1: "finish_send r rt = Inr rt1" "same_sends rt rt1" "pend_ok rt1 (new @ rs)" "covered rt1 (new @ rs)"
      "\<forall>m. usage rt1 m - flight rt (new @ rs) m = usage rt m - flight rt (new @ r # rs) m"
      "\<forall>x. x \<noteq> r \<longrightarrow> sent_packets rt1 x = sent_packets rt x"
      "r \<notin> set (new @ rs) \<longrightarrow> snd (sent_packets rt1 r) = None"
      using finish_send_ok [OF Cons.prems] by blast
    obtain rt' where 2: "finish_loop test (u + 1) new rs rt1 = Inr (new @ ?left, rt')" "same_sends rt1 rt'"
      "pend_ok rt' (new @ ?left)" "covered rt' (new @ ?left)"
      "\<forall>m. usage rt' m - flight rt1 (new @ ?left) m = usage rt1 m - flight rt1 (new @ rs) m"
      "\<forall>x. x \<notin> set rs \<longrightarrow> sent_packets rt' x = sent_packets rt1 x"
      "\<forall>x\<in>set rs. x \<notin> set (new @ ?left) \<longrightarrow> snd (sent_packets rt' x) = None"
      using Cons.IH [OF 1(3,4), of "u + 1"] by blast
    have "usage rt' m - flight rt (new @ ?left) m = usage rt m - flight rt (new @ r # rs) m" for m
      using 1(5) 2(5) unfolding flight_same [OF 1(2)] by (metis diff_add_cancel)
    moreover have "snd (sent_packets rt' r) = None" if "r \<notin> set (new @ ?left)"
      using 1(7) 2(6,7) that by (cases "r \<in> set rs") auto
    ultimately show ?thesis
      unfolding left using True 1 2 same_sends_trans [OF 1(2) 2(2)]
      by (intro exI [of _ ?left] exI [of _ rt']) auto
  next
    case False
    obtain rt' where 2: "finish_loop test (u + 1) (new @ [r]) rs rt = Inr ((new @ [r]) @ ?left, rt')" "same_sends rt rt'"
      "pend_ok rt' ((new @ [r]) @ ?left)" "covered rt' ((new @ [r]) @ ?left)"
      "\<forall>m. usage rt' m - flight rt ((new @ [r]) @ ?left) m = usage rt m - flight rt ((new @ [r]) @ rs) m"
      "\<forall>x. x \<notin> set rs \<longrightarrow> sent_packets rt' x = sent_packets rt x"
      "\<forall>x\<in>set rs. x \<notin> set ((new @ [r]) @ ?left) \<longrightarrow> snd (sent_packets rt' x) = None"
      using Cons.IH [of rt "new @ [r]" "u + 1"] Cons.prems by auto
    show ?thesis
      unfolding left using False 2 by (intro exI [of _ "r # ?left"] exI [of _ rt']) auto
  qed
qed

section \<open>Sending and finishing\<close>

lemma finish_sends_ok:
  assumes "pend_ok rt (outreq rt)" and "covered rt (outreq rt)"
  shows "\<exists>rt'. finish_sends test rt = Inr rt' \<and> pend_ok rt' (outreq rt') \<and> covered rt' (outreq rt')
    \<and> weight rt' = weight rt
    \<and> (\<forall>m. usage rt' m - flight rt' (outreq rt') m = usage rt m - flight rt (outreq rt) m)
    \<and> set (outreq rt') \<subseteq> set (outreq rt)
    \<and> (\<forall>x. x \<notin> set (outreq rt) \<longrightarrow> sent_packets rt' x = sent_packets rt x)
    \<and> (\<forall>x\<in>set (outreq rt). x \<notin> set (outreq rt') \<longrightarrow> snd (sent_packets rt' x) = None)"
proof -
  obtain left rt1 where 1: "finish_loop test 0 [] (outreq rt) rt = Inr ([] @ left, rt1)" "same_sends rt rt1"
    "left = map (\<lambda>i. outreq rt ! i) (filter (\<lambda>i. \<not> test (0 + i)) [0..<length (outreq rt)])"
    "pend_ok rt1 ([] @ left)" "covered rt1 ([] @ left)"
    "\<forall>m. usage rt1 m - flight rt ([] @ left) m = usage rt m - flight rt ([] @ outreq rt) m"
    "\<forall>x. x \<notin> set (outreq rt) \<longrightarrow> sent_packets rt1 x = sent_packets rt x"
    "\<forall>x\<in>set (outreq rt). x \<notin> set ([] @ left) \<longrightarrow> snd (sent_packets rt1 x) = None"
    using finish_loop_ok [of rt "[]" "outreq rt" test 0] assms by auto
  let ?rt' = "rt1\<lparr>outreq := left\<rparr>"
  have w: "weight ?rt' = weight rt" unfolding weight_same [OF 1(2), symmetric] by (intro ext) (simp add: weight_def split: option.split)
  have f: "flight ?rt' = flight rt1" unfolding weight_same [OF 1(2)] flight_def [abs_def] w by simp
  have u: "usage ?rt' = usage rt1" by (intro ext) (simp add: usage_def)
  have "pend_ok ?rt' left" using 1(4) unfolding pend_ok_def by simp
  moreover have "covered ?rt' left" using 1(5) unfolding covered_def f u by simp
  moreover have "set left \<subseteq> set (outreq rt)" unfolding 1(3) by auto
  ultimately show ?thesis
    using 1(1,6-8) w by (intro exI [of _ ?rt']) (simp add: finish_sends_def f u flight_same [OF 1(2)])
qed

lemma finish_passes_ok:
  assumes "pend_ok rt (outreq rt)" and "covered rt (outreq rt)"
  shows "\<exists>rt'. fold_result finish_sends tests rt = Inr rt' \<and> pend_ok rt' (outreq rt') \<and> weight rt' = weight rt
    \<and> (\<forall>m. usage rt' m - flight rt' (outreq rt') m = usage rt m - flight rt (outreq rt) m)
    \<and> set (outreq rt') \<subseteq> set (outreq rt)
    \<and> (\<forall>x\<in>set (outreq rt). x \<notin> set (outreq rt') \<longrightarrow> snd (sent_packets rt' x) = None)
    \<and> (\<forall>x. x \<notin> set (outreq rt) \<longrightarrow> sent_packets rt' x = sent_packets rt x)"
  using assms
proof (induction tests arbitrary: rt)
  case Nil
  then show ?case by simp
next
  case (Cons test tests)
  obtain rt1 where 1: "finish_sends test rt = Inr rt1" "pend_ok rt1 (outreq rt1)" "covered rt1 (outreq rt1)"
    "weight rt1 = weight rt" "\<forall>m. usage rt1 m - flight rt1 (outreq rt1) m = usage rt m - flight rt (outreq rt) m"
    "set (outreq rt1) \<subseteq> set (outreq rt)"
    "\<forall>x\<in>set (outreq rt). x \<notin> set (outreq rt1) \<longrightarrow> snd (sent_packets rt1 x) = None"
    "\<forall>x. x \<notin> set (outreq rt) \<longrightarrow> sent_packets rt1 x = sent_packets rt x"
    using finish_sends_ok [OF Cons.prems, of test] by blast
  obtain rt' where 2: "fold_result finish_sends tests rt1 = Inr rt'" "pend_ok rt' (outreq rt')" "weight rt' = weight rt1"
    "\<forall>m. usage rt' m - flight rt' (outreq rt') m = usage rt1 m - flight rt1 (outreq rt1) m"
    "set (outreq rt') \<subseteq> set (outreq rt1)"
    "\<forall>x\<in>set (outreq rt1). x \<notin> set (outreq rt') \<longrightarrow> snd (sent_packets rt' x) = None"
    "\<forall>x. x \<notin> set (outreq rt1) \<longrightarrow> sent_packets rt' x = sent_packets rt1 x"
    using Cons.IH [OF 1(2,3)] by blast
  have "snd (sent_packets rt' x) = None" if "x \<in> set (outreq rt)" "x \<notin> set (outreq rt')" for x
    using that 1(7) 2(6,7) by (cases "x \<in> set (outreq rt1)") auto
  moreover have "sent_packets rt' x = sent_packets rt x" if "x \<notin> set (outreq rt)" for x
    using that 1(6,8) 2(7) by auto
  ultimately show ?case using 1(1,4-6) 2(1-5) by (intro exI [of _ rt']) auto
qed

lemma count_list_outside: "r \<notin> set xs \<Longrightarrow> count_list xs r = 0"
  by (simp add: count_list_0_iff)

lemma send_mpi_ok:
  assumes "to_bytearray host p = Inr hdr" and "body p = Some b" and "buf_wf b" and "body_len p = word_of_int (wSize b)"
    and "pend_ok rt (outreq rt)" and "\<forall>r\<in>set (outreq rt). r < next_packet rt"
    and "MUID_MemUsage (rt_process rt) (charged_to rt (address p)) \<noteq> None"
    and "\<forall>m. int8_ok (usage rt m) \<and> flight rt (outreq rt) m + (if m = charged_to rt (address p) then wSize b else 0) \<le> usage rt m"
  shows "\<exists>rt1. send_mpi host outrank p rt = Inr rt1
    \<and> started_sends rt1 = started_sends rt @ [(outrank, hdr), (outrank, used b)]
    \<and> outreq rt1 = outreq rt @ [next_packet rt, next_packet rt]
    \<and> pend_ok rt1 (outreq rt1) \<and> covered rt1 (outreq rt1) \<and> usage rt1 = usage rt
    \<and> (\<forall>m. flight rt1 (outreq rt1) m = flight rt (outreq rt) m + (if m = charged_to rt (address p) then wSize b else 0))"
proof -
  let ?r = "next_packet rt"
  have len: "wSize b = int (length (used b))" "short (used b)" "0 \<le> wSize b"
    using wSize_used [OF assms(3)] used_length [OF assms(3)] assms(3) by (auto simp: buf_wf_def short_def)
  have sz: "sint (body_len p) = wSize b" using assms(4) len sint_of_short [OF len(2)] by simp
  have refs: "addref RefCounted_new = Inr (Some 1)" "addref (Some 1) = Inr (Some 2)"
    by (simp_all add: addref_def RefCounted_new_def int4_ok_def)
  let ?rt1 = "rt\<lparr>started_sends := (started_sends rt @ [(outrank, hdr)]) @ [(outrank, used b)],
    outreq := (outreq rt @ [?r]) @ [?r], sent_packets := (sent_packets rt)(?r := (p, Some 2)), next_packet := ?r + 1\<rparr>"
  have run: "send_mpi host outrank p rt = Inr ?rt1"
    using len block_read_used [OF assms(3)] by (simp add: send_mpi_def assms(1,2) refs sz Let_def)
  have c: "charged_to ?rt1 a = charged_to rt a" for a by (simp add: charged_to_def)
  have new: "?r \<notin> set (outreq rt)" using assms(6) by blast
  have old: "weight ?rt1 x m = weight rt x m" if "x \<in> set (outreq rt)" for x m
  proof -
    have "x \<noteq> ?r" using that new by blast
    then have "sent_packets ?rt1 x = sent_packets rt x" by simp
    then show ?thesis by (simp only: weight_def c)
  qed
  have f: "flight ?rt1 (outreq ?rt1) m = flight rt (outreq rt) m + (if m = charged_to rt (address p) then wSize b else 0)" for m
  proof -
    have "set (outreq ?rt1) = insert ?r (set (outreq rt))" by simp
    then have "flight ?rt1 (outreq ?rt1) m = weight ?rt1 ?r m + (\<Sum>x\<in>set (outreq rt). weight ?rt1 x m)"
      unfolding flight_def using new by simp
    also have "(\<Sum>x\<in>set (outreq rt). weight ?rt1 x m) = flight rt (outreq rt) m"
      unfolding flight_def using old by (intro sum.cong) auto
    finally have "flight ?rt1 (outreq ?rt1) m = weight ?rt1 ?r m + flight rt (outreq rt) m" .
    moreover have sp: "sent_packets ?rt1 ?r = (p, Some 2)" by simp
    have "weight ?rt1 ?r m = (if m = charged_to rt (address p) then wSize b else 0)"
      unfolding weight_def c sp fst_conv assms(2) option.case by auto
    ultimately show ?thesis by (simp only: add.commute)
  qed
  have pend: "pend_ok ?rt1 (outreq ?rt1)"
    unfolding pend_ok_def
  proof (intro ballI conjI allI impI)
    fix x assume "x \<in> set (outreq ?rt1)"
    then have x: "x = ?r \<or> x \<in> set (outreq rt) \<and> x \<noteq> ?r" using new by auto
    then show "snd (sent_packets ?rt1 x) = Some (int (count_list (outreq ?rt1) x))"
      using pend_okD(1) [OF assms(5)] count_list_outside [OF new] by auto
    from x show "count_list (outreq ?rt1) x \<le> 2"
      using pend_okD(2) [OF assms(5)] count_list_outside [OF new] by auto
    fix b' assume b': "body (fst (sent_packets ?rt1 x)) = Some b'"
    from x b' show "0 \<le> wSize b'" using pend_okD(3) [OF assms(5)] len(3) assms(2) by auto
    from x b' show "MUID_MemUsage (rt_process ?rt1) (charged_to ?rt1 (address (fst (sent_packets ?rt1 x)))) \<noteq> None"
      using pend_okD(4) [OF assms(5)] assms(7) unfolding c by auto
  qed
  have u: "usage ?rt1 = usage rt" by (intro ext) (simp add: usage_def)
  have "covered ?rt1 (outreq ?rt1)" unfolding covered_def f u using assms(8) by blast
  with run pend f u show ?thesis by (intro exI [of _ ?rt1]) simp
qed

section \<open>Properties\<close>

text \<open>
  C7. A packet with a body that is sent by MPI goes out as its header and its bytes. Whatever
  requests \<open>MPI_Test\<close> finds done in whatever passes, the budgets then stay charged with exactly the
  bodies that still have a request pending: nothing is given back twice or too early, and all of it by
  the time no request is left; the packet is deleted with its last request.
\<close>

theorem send_budgets:
  assumes "to_bytearray host p = Inr hdr" and "body p = Some b" and "buf_wf b" and "body_len p = word_of_int (wSize b)"
    and "pend_ok rt (outreq rt)" and "\<forall>r\<in>set (outreq rt). r < next_packet rt"
    and "MUID_MemUsage (rt_process rt) (charged_to rt (address p)) \<noteq> None"
    and "\<forall>m. int8_ok (usage rt m) \<and> flight rt (outreq rt) m + (if m = charged_to rt (address p) then wSize b else 0) \<le> usage rt m"
  shows "\<exists>rt1. send_mpi host outrank p rt = Inr rt1
    \<and> started_sends rt1 = started_sends rt @ [(outrank, hdr), (outrank, used b)]
    \<and> (\<forall>tests. \<exists>rt'. fold_result finish_sends tests rt1 = Inr rt'
         \<and> (\<forall>m. usage rt' m - flight rt' (outreq rt') m
              = usage rt m - flight rt (outreq rt) m - (if m = charged_to rt (address p) then wSize b else 0))
         \<and> (next_packet rt \<notin> set (outreq rt') \<longrightarrow> snd (sent_packets rt' (next_packet rt)) = None)
         \<and> (outreq rt' = [] \<longrightarrow> (\<forall>m. flight rt' (outreq rt') m = 0)))"
proof -
  obtain rt1 where rt1: "send_mpi host outrank p rt = Inr rt1"
    "started_sends rt1 = started_sends rt @ [(outrank, hdr), (outrank, used b)]"
    "outreq rt1 = outreq rt @ [next_packet rt, next_packet rt]"
    "pend_ok rt1 (outreq rt1)" "covered rt1 (outreq rt1)" "usage rt1 = usage rt"
    "\<forall>m. flight rt1 (outreq rt1) m = flight rt (outreq rt) m + (if m = charged_to rt (address p) then wSize b else 0)"
    using send_mpi_ok [OF assms, of outrank] by blast
  have "\<exists>rt'. fold_result finish_sends tests rt1 = Inr rt'
         \<and> (\<forall>m. usage rt' m - flight rt' (outreq rt') m
              = usage rt m - flight rt (outreq rt) m - (if m = charged_to rt (address p) then wSize b else 0))
         \<and> (next_packet rt \<notin> set (outreq rt') \<longrightarrow> snd (sent_packets rt' (next_packet rt)) = None)
         \<and> (outreq rt' = [] \<longrightarrow> (\<forall>m. flight rt' (outreq rt') m = 0))" for tests
  proof -
    obtain rt' where rt': "fold_result finish_sends tests rt1 = Inr rt'"
      "\<forall>m. usage rt' m - flight rt' (outreq rt') m = usage rt1 m - flight rt1 (outreq rt1) m"
      "\<forall>x\<in>set (outreq rt1). x \<notin> set (outreq rt') \<longrightarrow> snd (sent_packets rt' x) = None"
      using finish_passes_ok [OF rt1(4,5), of tests] by blast
    have "flight rt' [] m = 0" for m by (simp add: flight_def)
    moreover have "usage rt' m - flight rt' (outreq rt') m
        = usage rt m - flight rt (outreq rt) m - (if m = charged_to rt (address p) then wSize b else 0)" for m
      using spec [OF rt'(2), of m] spec [OF rt1(7), of m] unfolding rt1(6) by linarith
    moreover have "next_packet rt \<in> set (outreq rt1)" unfolding rt1(3) by simp
    ultimately show ?thesis using rt'(1,3) by (intro exI [of _ rt']) auto
  qed
  with rt1(1,2) show ?thesis by blast
qed

text \<open>A process with one filter, whose budget is charged with 2 bytes.\<close>

definition one_filter :: runtime where
  "one_filter = \<lparr>rt_process = two_filters\<lparr>MUID_MemUsage := [1 \<mapsto> \<lparr>memory_threshold = 100, current_usage = 2\<rparr>]\<rparr>,
     mpi_rank = 0, mpi_size = 2, this_dcmpi_rank = 0, totaldcmpiranks = 2, cluster_rank = 0, cluster_offset = 0,
     console_filter_present = False, handles_console = True, use_proxy = False, MUID_of_dcmpiruntime = 9,
     unfinished_local_gftids = [1], all_filter_done_messages_routed = 0, all_filter_done_messages_to_route = 0,
     num_all_filters_done_received = 0, sent_all_filters_done_message = False, started_sends = [], outreq = [],
     sent_packets = (\<lambda>_. (blank_packet, None)), next_packet = 0\<rparr>"

definition packet_hi :: DCMPIPacket where
  "packet_hi = DCMPIPacket_new \<lparr>to_rank = 1, to_cluster_rank = 0, to_gftid = 2, to_port = ''i'',
     from_rank = 0, from_cluster_rank = 0, from_gftid = 1, from_port = ''o''\<rparr>
     DCMPI_PACKET_TYPE_DCBUF 2 (Some (restored False ''hi''))"

theorem send_budgets_witness:
  "\<exists>rt1 rt'. send_mpi False 1 packet_hi one_filter = Inr rt1
     \<and> fold_result finish_sends [\<lambda>u. u = 1, \<lambda>u. True] rt1 = Inr rt'
     \<and> usage rt' 1 - flight rt' (outreq rt') 1 = 0"
proof -
  obtain hdr where hdr: "to_bytearray False packet_hi = Inr hdr"
    by (auto simp: to_bytearray_def packet_hi_def DCMPIPacket_new_def port_field_def DCMPI_PORT_MAXLEN_SIZE_def Let_def)
  have s: "short ''hi''" by (simp add: short_def)
  have b: "body packet_hi = Some (restored False ''hi'')" "buf_wf (restored False ''hi'')"
    "body_len packet_hi = word_of_int (wSize (restored False ''hi''))"
    using restored_wf(1) [OF s, of False] by (simp_all add: packet_hi_def DCMPIPacket_new_def restored_def)
  have u: "usage one_filter m = (if m = 1 then 2 else 0)" "flight one_filter (outreq one_filter) m = 0"
    "charged_to one_filter (address packet_hi) = 1" for m
    by (simp_all add: usage_def one_filter_def flight_def charged_to_def packet_hi_def DCMPIPacket_new_def)
  have "\<forall>m. int8_ok (usage one_filter m) \<and> flight one_filter (outreq one_filter) m
      + (if m = charged_to one_filter (address packet_hi) then wSize (restored False ''hi'') else 0) \<le> usage one_filter m"
    unfolding u by (simp add: int8_ok_def restored_def)
  note bud = this
  have rt: "pend_ok one_filter (outreq one_filter)" "\<forall>r\<in>set (outreq one_filter). r < next_packet one_filter"
    "MUID_MemUsage (rt_process one_filter) (charged_to one_filter (address packet_hi)) \<noteq> None"
    unfolding u(3) by (simp_all add: one_filter_def pend_ok_def)
  obtain rt1 where run: "send_mpi False 1 packet_hi one_filter = Inr rt1"
    and t: "\<forall>tests. \<exists>rt'. fold_result finish_sends tests rt1 = Inr rt'
         \<and> (\<forall>m. usage rt' m - flight rt' (outreq rt') m
              = usage one_filter m - flight one_filter (outreq one_filter) m
                - (if m = charged_to one_filter (address packet_hi) then wSize (restored False ''hi'') else 0))"
    using send_budgets [OF hdr b rt bud, of 1] by blast
  obtain rt' where
    "fold_result finish_sends [\<lambda>u. u = 1, \<lambda>u. True] rt1 = Inr rt'" "usage rt' 1 - flight rt' (outreq rt') 1 = 0"
  proof -
    obtain rt' where rt': "fold_result finish_sends [\<lambda>u. u = 1, \<lambda>u. True] rt1 = Inr rt'"
      and m: "\<forall>m. usage rt' m - flight rt' (outreq rt') m = (if m = 1 then 2 else 0) - 0 - (if m = 1 then wSize (restored False ''hi'') else 0)"
      using spec [OF t, of "[\<lambda>u. u = 1, \<lambda>u. True]"] unfolding u by blast
    from spec [OF m, of 1] have "usage rt' 1 - flight rt' (outreq rt') 1 = 0" by (simp add: restored_def)
    with rt' that show thesis by blast
  qed
  with run show ?thesis by blast
qed

end
