(* ===== verification/Routing.thy ===== *)
theory Routing
  imports Runtime
begin

text \<open>
  The processes of a run as a network: clusters of MPI processes, each with its rank 0 as the
  gateway, the proxy between clusters, and the console behind rank 0 of cluster 0 (the console
  process sends everything to that rank, \<open>src/src/ConsoleToMPIThread.h\<close>; the proxy,
  \<open>src/src/dcmpiproxy\<close>, hands a packet to rank 0 of the cluster that \<open>ProxyWriter\<close> names). The
  hops that a packet takes are what \<open>deliver_elsewhere\<close> decides at every process.
\<close>

section \<open>The network\<close>

datatype node = Console | Node nat nat

record network =
  cluster_sizes :: "nat list"
  has_console :: bool

definition net_ok :: "network \<Rightarrow> bool" where
  "net_ok net \<longleftrightarrow> cluster_sizes net \<noteq> [] \<and> 0 \<notin> set (cluster_sizes net) \<and> sum_list (cluster_sizes net) < 2 ^ 31 - 1"

definition offset_of :: "network \<Rightarrow> nat \<Rightarrow> nat" where
  "offset_of net c = sum_list (take c (cluster_sizes net))"

fun is_node :: "network \<Rightarrow> node \<Rightarrow> bool" where
  "is_node net Console = has_console net"
| "is_node net (Node c r) = (c < length (cluster_sizes net) \<and> r < cluster_sizes net ! c)"

text \<open>The rank in the whole run and the cluster of a process, as they are in addresses.\<close>

fun dcmpi_rank_of :: "network \<Rightarrow> node \<Rightarrow> int" where
  "dcmpi_rank_of net Console = - 1"
| "dcmpi_rank_of net (Node c r) = int (offset_of net c + r)"

fun cluster_of :: "node \<Rightarrow> int" where
  "cluster_of Console = 0"
| "cluster_of (Node c r) = int c"

definition total_ranks :: "network \<Rightarrow> int" where
  "total_ranks net = int (sum_list (cluster_sizes net)) + (if has_console net then 1 else 0)"

text \<open>What a process is told when it starts (\<open>parse_args\<close>, which only rank 0 calls, and the broadcasts).\<close>

definition runs_as :: "network \<Rightarrow> nat \<Rightarrow> nat \<Rightarrow> runtime \<Rightarrow> bool" where
  "runs_as net c r rt \<longleftrightarrow> mpi_rank rt = int r \<and> mpi_size rt = int (cluster_sizes net ! c)
     \<and> this_dcmpi_rank rt = dcmpi_rank_of net (Node c r) \<and> totaldcmpiranks rt = total_ranks net
     \<and> cluster_rank rt = int c \<and> cluster_offset rt = int (offset_of net c)
     \<and> console_filter_present rt = has_console net \<and> handles_console rt = (c = 0 \<and> r = 0)
     \<and> use_proxy rt = (r = 0 \<and> 1 < length (cluster_sizes net))"

definition addressed_to :: "network \<Rightarrow> node \<Rightarrow> DCMPIPacketAddress \<Rightarrow> bool" where
  "addressed_to net n a \<longleftrightarrow> to_rank a = word_of_int (dcmpi_rank_of net n) \<and> to_cluster_rank a = word_of_int (cluster_of n)"

text \<open>Where a packet goes next.\<close>

definition next_node :: "(nat \<Rightarrow> nat \<Rightarrow> runtime) \<Rightarrow> DCMPIPacketAddress \<Rightarrow> node \<Rightarrow> node" where
  "next_node rts a n =
     (case n of
        Console \<Rightarrow> Node 0 0
      | Node c r \<Rightarrow> (case route_of (rts c r) a of
            To_console \<Rightarrow> Console
          | To_proxy \<Rightarrow> Node (nat (sint (to_cluster_rank a))) 0
          | To_mpi k \<Rightarrow> Node c (nat k)))"

section \<open>Ranks\<close>

lemma offset_bound:
  assumes "c < length (cluster_sizes net)" and "r < cluster_sizes net ! c"
  shows "offset_of net c + r < sum_list (cluster_sizes net)"
proof -
  have "cluster_sizes net = take c (cluster_sizes net) @ cluster_sizes net ! c # drop (Suc c) (cluster_sizes net)"
    using assms(1) by (rule id_take_nth_drop)
  then have "sum_list (cluster_sizes net) = offset_of net c + (cluster_sizes net ! c + sum_list (drop (Suc c) (cluster_sizes net)))"
    unfolding offset_of_def by (metis sum_list.Cons sum_list.append)
  with assms(2) show ?thesis by linarith
qed

lemma offset_Suc: "c < length (cluster_sizes net) \<Longrightarrow> offset_of net (Suc c) = offset_of net c + cluster_sizes net ! c"
  by (simp add: offset_of_def take_Suc_conv_app_nth)

lemma offset_mono: "c \<le> d \<Longrightarrow> d \<le> length (cluster_sizes net) \<Longrightarrow> offset_of net c \<le> offset_of net d"
proof (induction d)
  case (Suc d)
  show ?case
  proof (cases "c = Suc d")
    case False
    then have "offset_of net c \<le> offset_of net d" using Suc by simp
    then show ?thesis using offset_Suc [of d net] Suc.prems by simp
  qed simp
qed simp

lemma dcmpi_rank_inj:
  assumes "is_node net m" and "is_node net n" and "dcmpi_rank_of net m = dcmpi_rank_of net n"
  shows "m = n"
proof -
  have lt: "offset_of net c + r < offset_of net d" if "c < d" "is_node net (Node c r)" "is_node net (Node d s)" for c d r s
  proof -
    have "offset_of net (Suc c) \<le> offset_of net d" using that by (intro offset_mono) auto
    then show ?thesis using that offset_Suc [of c net] by simp
  qed
  show ?thesis
  proof (cases m)
    case Console
    with assms(3) show ?thesis by (cases n) simp_all
  next
    case m: (Node c r)
    show ?thesis
    proof (cases n)
      case Console
      with assms(3) m show ?thesis by simp
    next
      case n: (Node d s)
      have eq: "offset_of net c + r = offset_of net d + s" using assms(3) unfolding m n dcmpi_rank_of.simps of_nat_eq_iff .
      have "\<not> c < d" using lt [of c d r s] assms(1,2) eq unfolding m n by fastforce
      moreover have "\<not> d < c" using lt [of d c s r] assms(1,2) eq unfolding m n by fastforce
      ultimately show ?thesis using eq m n by simp
    qed
  qed
qed

lemma dcmpi_rank_range:
  assumes "net_ok net" and "is_node net n"
  shows "- 1 \<le> dcmpi_rank_of net n" and "dcmpi_rank_of net n < 2 ^ 31 - 1"
proof -
  show "- 1 \<le> dcmpi_rank_of net n" by (cases n) simp_all
  show "dcmpi_rank_of net n < 2 ^ 31 - 1"
  proof (cases n)
    case (Node c r)
    with assms(2) offset_bound [of c net r] assms(1) show ?thesis by (simp add: net_ok_def)
  qed simp
qed

lemma length_le_sum: "0 \<notin> set xs \<Longrightarrow> length xs \<le> sum_list (xs :: nat list)"
  by (induction xs) auto

lemma cluster_range:
  assumes "net_ok net" and "is_node net n"
  shows "0 \<le> cluster_of n" and "cluster_of n < 2 ^ 31"
proof -
  show "0 \<le> cluster_of n" by (cases n) simp_all
  have "length (cluster_sizes net) < 2 ^ 31" using assms(1) length_le_sum [of "cluster_sizes net"] by (simp add: net_ok_def)
  then show "cluster_of n < 2 ^ 31" using assms(2) by (cases n) simp_all
qed

lemma addressed_words:
  assumes "net_ok net" and "is_node net n" and "addressed_to net n a"
  shows "sint (to_rank a) = dcmpi_rank_of net n" and "sint (to_cluster_rank a) = cluster_of n"
proof -
  have "int4_ok (dcmpi_rank_of net n)" "int4_ok (cluster_of n)"
    using dcmpi_rank_range [OF assms(1,2)] cluster_range [OF assms(1,2)] by (simp_all add: int4_ok_def)
  then show "sint (to_rank a) = dcmpi_rank_of net n" "sint (to_cluster_rank a) = cluster_of n"
    using assms(3) sint_int4 unfolding addressed_to_def by simp_all
qed

section \<open>Hops\<close>

text \<open>The specification: straight within a cluster, otherwise by the gateways.\<close>

fun hop :: "node \<Rightarrow> node \<Rightarrow> node" where
  "hop b Console = Node 0 0"
| "hop b (Node c r) =
     (if b \<noteq> Console \<and> cluster_of b = int c then b
      else if c = 0 \<and> r = 0 \<and> b = Console then Console
      else if r = 0 then Node (nat (cluster_of b)) 0
      else Node c 0)"

lemma next_node_hop:
  assumes "net_ok net" and "is_node net b" and "is_node net n" and "addressed_to net b a" and "n \<noteq> b"
    and "\<And>c r. is_node net (Node c r) \<Longrightarrow> runs_as net c r (rts c r)"
  shows "next_node rts a n = hop b n"
proof (cases n)
  case Console
  then show ?thesis by (simp add: next_node_def)
next
  case (Node c r)
  note w = addressed_words [OF assms(1,2,4)]
  have rt: "mpi_rank (rts c r) = int r" "cluster_rank (rts c r) = int c" "cluster_offset (rts c r) = int (offset_of net c)"
    "handles_console (rts c r) = (c = 0 \<and> r = 0)" "use_proxy (rts c r) = (r = 0 \<and> 1 < length (cluster_sizes net))"
    using assms(3,6) unfolding Node runs_as_def by auto
  show ?thesis
  proof (cases b)
    case Console
    have "1 < length (cluster_sizes net)" if "c \<noteq> 0" using that assms(3) Node by simp
    then show ?thesis using Console by (auto simp: Node next_node_def route_of_def w rt)
  next
    case b: (Node d s)
    have "1 < length (cluster_sizes net)" if "c \<noteq> d" using that assms(2,3) Node b by (cases c; cases d) auto
    then show ?thesis using b by (auto simp: Node next_node_def route_of_def w rt)
  qed
qed

text \<open>The way of a packet: the processes it reaches, its destination the last.\<close>

fun walk :: "(node \<Rightarrow> node) \<Rightarrow> nat \<Rightarrow> node \<Rightarrow> node \<Rightarrow> node list" where
  "walk next_hop 0 b n = []"
| "walk next_hop (Suc k) b n = (if n = b then [] else next_hop n # walk next_hop k b (next_hop n))"

definition path :: "node \<Rightarrow> node \<Rightarrow> node list" where
  "path a b = walk (hop b) 3 b a"

lemma path_cases:
  assumes "is_node net a" and "is_node net b" and "a \<noteq> b"
  shows "path a b = (case a of
      Console \<Rightarrow> (case b of Console \<Rightarrow> []
        | Node d s \<Rightarrow> if d = 0 then (if s = 0 then [b] else [Node 0 0, b])
            else if s = 0 then [Node 0 0, b] else [Node 0 0, Node d 0, b])
    | Node c r \<Rightarrow> (case b of
          Console \<Rightarrow> if c = 0 then (if r = 0 then [b] else [Node 0 0, b])
            else if r = 0 then [Node 0 0, b] else [Node c 0, Node 0 0, b]
        | Node d s \<Rightarrow> if c = d then [b]
            else (if r = 0 then [] else [Node c 0]) @ (if s = 0 then [b] else [Node d 0, b])))"
  using assms(3) by (cases a; cases b) (auto simp: path_def numeral_3_eq_3)

lemma path_ends:
  assumes "is_node net a" and "is_node net b" and "a \<noteq> b"
  shows "path a b \<noteq> []" and "last (path a b) = b" and "distinct (a # path a b)" and "length (path a b) \<le> 3"
    and "set (butlast (path a b)) \<subseteq> {n. \<exists>c. n = Node c 0}"
    and "hd (path a b) = hop b a"
  using assms unfolding path_cases [OF assms]
  by (cases a; cases b; auto)+

lemma hop_is_node:
  assumes "net_ok net" and "is_node net b" and "is_node net n" and "n \<noteq> b"
  shows "is_node net (hop b n)"
proof -
  have "0 < cluster_sizes net ! c" if "c < length (cluster_sizes net)" for c
    using that assms(1) unfolding net_ok_def by (metis gr0I nth_mem)
  moreover have "0 < length (cluster_sizes net)" using assms(1) by (simp add: net_ok_def)
  ultimately show ?thesis using assms(2-4) by (cases n; cases b) auto
qed

lemma walk_next_node:
  assumes "net_ok net" and "is_node net b" and "addressed_to net b a" and "\<And>c r. is_node net (Node c r) \<Longrightarrow> runs_as net c r (rts c r)"
    and "is_node net n"
  shows "walk (next_node rts a) k b n = walk (hop b) k b n"
  using assms(5)
proof (induction k arbitrary: n)
  case (Suc k)
  show ?case
  proof (cases "n = b")
    case False
    have h: "next_node rts a n = hop b n"
      by (rule next_node_hop [OF assms(1,2) Suc.prems assms(3) False]) (rule assms(4))
    show ?thesis
      using False Suc.IH [OF hop_is_node [OF assms(1,2) Suc.prems False]] unfolding walk.simps h by simp
  qed simp
qed simp

section \<open>Properties\<close>

text \<open>
  C13. What a filter writes to a remote port reaches the process of its target. The writer that
  \<open>make_writer\<close> links up puts packets into the queue of the next hop that \<open>deliver_elsewhere\<close>
  would choose; from there every process that is not the destination passes the packet on and the
  destination takes it in; it arrives after at most three hops, visits no process twice, and all
  processes in between are of rank 0.
\<close>

theorem remote_writes_arrive:
  assumes "net_ok net" and "is_node net (Node c r)" and "is_node net b" and "Node c r \<noteq> b"
    and "\<And>c r. is_node net (Node c r) \<Longrightarrow> runs_as net c r (rts c r)"
    and "instances (gp_gftid gp) = Some remote"
    and "dcmpi_rank remote = dcmpi_rank_of net b" and "dcmpi_cluster_rank remote = cluster_of b"
    and "executors (rt_process (rts c r)) (gp_gftid gp) = None"
  shows "\<exists>adr oq way. make_writer (rts c r) instances fi key gp = Inr (RemoteQueueWriter adr oq remote)
    \<and> way = walk (next_node rts adr) 3 b (Node c r)
    \<and> (oq = Mpi_to_console_queue \<longleftrightarrow> hd way = Console)
    \<and> (oq = Mpi_to_proxy_queue \<longleftrightarrow> route_of (rts c r) adr = To_proxy)
    \<and> last way = b \<and> distinct (Node c r # way) \<and> 1 \<le> length way \<and> length way \<le> 3
    \<and> (\<forall>n\<in>set (butlast way). \<exists>d. n = Node d 0)
    \<and> (\<forall>d s host p. is_node net (Node d s) \<longrightarrow> address p = adr \<longrightarrow>
         deliver host p (rts d s) = (if Node d s = b then deliver_in p (rts d s) else deliver_elsewhere host p (rts d s)))"
proof -
  let ?adr = "remote_address fi key remote gp"
  have adr: "addressed_to net b ?adr" using assms(7,8) by (simp add: addressed_to_def remote_address_def)
  note w = addressed_words [OF assms(1,3) adr]
  have way: "walk (next_node rts ?adr) 3 b (Node c r) = path (Node c r) b"
    unfolding path_def by (rule walk_next_node [OF assms(1,3) adr assms(5,2)])
  note ends = path_ends [OF assms(2,3,4)]
  note rt = assms(5) [OF assms(2), unfolded runs_as_def]
  have proxy: "use_proxy (rts c r)" if "r = 0" "int c \<noteq> cluster_of b"
  proof -
    have "1 < length (cluster_sizes net)" using that assms(2,3) by (cases b; cases c) auto
    with that rt show ?thesis by simp
  qed
  let ?oq = "if dcmpi_rank remote = - 1 \<and> handles_console (rts c r) then Mpi_to_console_queue
     else if mpi_rank (rts c r) = 0 \<and> cluster_rank (rts c r) \<noteq> dcmpi_cluster_rank remote then Mpi_to_proxy_queue
     else Single_mpi_outqueue"
  have "\<not> (?oq = Mpi_to_proxy_queue \<and> \<not> use_proxy (rts c r))"
    using proxy rt assms(8) by auto
  then have mk: "make_writer (rts c r) instances fi key gp = Inr (RemoteQueueWriter ?adr ?oq remote)"
    unfolding make_writer_def assms(6) using assms(9) by (simp add: Let_def)
  have console: "?oq = Mpi_to_console_queue \<longleftrightarrow> hop b (Node c r) = Console"
    using rt assms(4,7) by (cases b) auto
  have toproxy: "?oq = Mpi_to_proxy_queue \<longleftrightarrow> route_of (rts c r) ?adr = To_proxy"
  proof -
    have "mpi_rank (rts c r) = 0 \<and> cluster_rank (rts c r) \<noteq> cluster_of b \<longrightarrow> use_proxy (rts c r)"
      using rt proxy by simp
    then show ?thesis unfolding route_of_def w assms(7,8) by auto
  qed
  have del: "deliver host p (rts d s) = (if Node d s = b then deliver_in p (rts d s) else deliver_elsewhere host p (rts d s))"
    if "is_node net (Node d s)" "address p = ?adr" for d s host p
  proof -
    have "this_dcmpi_rank (rts d s) = dcmpi_rank_of net (Node d s)" using assms(5) [OF that(1)] by (simp add: runs_as_def)
    then have "sint (to_rank (address p)) = this_dcmpi_rank (rts d s) \<longleftrightarrow> Node d s = b"
      unfolding that(2) w(1) using dcmpi_rank_inj [OF assms(3) that(1)] by auto
    then show ?thesis unfolding deliver_def by simp
  qed
  have "1 \<le> length (path (Node c r) b)" using ends(1) by (cases "path (Node c r) b") auto
  then show ?thesis
    using mk console toproxy ends del
    by (intro exI [of _ ?adr] exI [of _ ?oq] exI [of _ "path (Node c r) b"] conjI way [symmetric]) auto
qed

text \<open>Two clusters of two processes each; a filter on the last writes to the console.\<close>

definition two_clusters :: network where
  "two_clusters = \<lparr>cluster_sizes = [2, 2], has_console = True\<rparr>"

definition process_of :: "nat \<Rightarrow> nat \<Rightarrow> runtime" where
  "process_of c r = \<lparr>rt_process = two_filters, mpi_rank = int r, mpi_size = 2, this_dcmpi_rank = 2 * int c + int r,
     totaldcmpiranks = 5, cluster_rank = int c, cluster_offset = 2 * int c,
     console_filter_present = True, handles_console = (c = 0 \<and> r = 0), use_proxy = (r = 0), MUID_of_dcmpiruntime = 9,
     unfinished_local_gftids = [], all_filter_done_messages_routed = 0, all_filter_done_messages_to_route = 0,
     num_all_filters_done_received = 0, sent_all_filters_done_message = False, started_sends = [], outreq = [],
     sent_packets = (\<lambda>_. (blank_packet, None)), next_packet = 0\<rparr>"

lemma process_of_runs: "is_node two_clusters (Node c r) \<Longrightarrow> runs_as two_clusters c r (process_of c r)"
proof -
  assume "is_node two_clusters (Node c r)"
  then have "c = 0 \<and> r < 2 \<or> c = 1 \<and> r < 2" by (cases c; cases "c - 1") (auto simp: two_clusters_def)
  then show ?thesis by (auto simp: runs_as_def process_of_def two_clusters_def total_ranks_def offset_of_def)
qed

theorem remote_writes_arrive_witness:
  "\<exists>adr oq. make_writer (process_of 1 1) [7 \<mapsto> DCFilterInstance_new ''<console>'' ''c''] (DCFilterInstance_new ''F'' ''f'') ''o'' (Gftid_Port 7 ''i'')
     = Inr (RemoteQueueWriter adr oq (DCFilterInstance_new ''<console>'' ''c''))
     \<and> last (walk (next_node process_of adr) 3 Console (Node 1 1)) = Console"
proof -
  have "net_ok two_clusters" "is_node two_clusters (Node 1 1)" "is_node two_clusters Console" "Node 1 1 \<noteq> Console"
    by (simp_all add: two_clusters_def net_ok_def)
  from remote_writes_arrive [OF this process_of_runs, of "[7 \<mapsto> DCFilterInstance_new ''<console>'' ''c'']" "Gftid_Port 7 ''i''"]
  show ?thesis by (fastforce simp: DCFilterInstance_new_def process_of_def two_filters_def)
qed

end
