(* ===== verification/Shutdown.thy ===== *)
theory Shutdown
  imports Routing
begin

text \<open>
  The end of a run: every process tells every other that its filters are done and leaves its main
  loop when it has heard from all of them and has passed on what it has to pass on. How many
  messages that are is computed by \<open>messages_to_route\<close>; that it is the right number, so that no
  process waits for ever and none leaves while a message still needs it, is shown here.
\<close>

section \<open>The number of messages to pass on\<close>

definition nodes :: "network \<Rightarrow> node set" where
  "nodes net = {n. is_node net n}"

definition pairs :: "network \<Rightarrow> (node \<times> node) set" where
  "pairs net = {(a, b). is_node net a \<and> is_node net b \<and> a \<noteq> b}"

definition through :: "network \<Rightarrow> node \<Rightarrow> (node \<times> node) set" where
  "through net n = {(a, b) \<in> pairs net. n \<in> set (butlast (path a b))}"

definition cluster_nodes :: "network \<Rightarrow> nat \<Rightarrow> node set" where
  "cluster_nodes net c = {n. is_node net n \<and> cluster_of n = int c}"

lemma nodes_split: "nodes net = (if has_console net then {Console} else {})
    \<union> (\<lambda>(c, r). Node c r) ` (SIGMA c:{..<length (cluster_sizes net)}. {..<cluster_sizes net ! c})"
proof -
  have "n \<in> nodes net \<longleftrightarrow> n \<in> (if has_console net then {Console} else {})
    \<union> (\<lambda>(c, r). Node c r) ` (SIGMA c:{..<length (cluster_sizes net)}. {..<cluster_sizes net ! c})" for n
    by (cases n) (auto simp: nodes_def image_iff)
  then show ?thesis by blast
qed

lemma finite_nodes [simp]: "finite (nodes net)"
  unfolding nodes_split by simp

lemma card_nodes: "int (card (nodes net)) = total_ranks net"
proof -
  let ?S = "SIGMA c:{..<length (cluster_sizes net)}. {..<cluster_sizes net ! c}"
  have inj: "inj_on (\<lambda>(c, r). Node c r) ?S" by (auto simp: inj_on_def)
  have "card ?S = sum_list (cluster_sizes net)" by (simp add: sum_list_sum_nth atLeast0LessThan)
  then have "card ((\<lambda>(c, r). Node c r) ` ?S) = sum_list (cluster_sizes net)" by (simp add: card_image [OF inj])
  moreover have "Console \<notin> (\<lambda>(c, r). Node c r) ` ?S" by auto
  ultimately show ?thesis unfolding nodes_split total_ranks_def by auto
qed

lemma card_others: "is_node net n \<Longrightarrow> int (card (nodes net - {n})) = total_ranks net - 1"
proof -
  assume "is_node net n"
  then have n: "n \<in> nodes net" by (simp add: nodes_def)
  then have "card (nodes net) = Suc (card (nodes net - {n}))" by (rule card.remove [OF finite_nodes])
  then show ?thesis using card_nodes [of net] by linarith
qed

lemma pairs_sub: "pairs net \<subseteq> nodes net \<times> nodes net"
  by (auto simp: pairs_def nodes_def)

lemma finite_pairs [simp]: "finite (pairs net)"
  by (rule finite_subset [OF pairs_sub]) simp

lemma finite_through [simp]: "finite (through net n)"
  by (rule finite_subset [OF _ finite_pairs [of net]]) (auto simp: through_def)

lemma cluster_nodes_eq:
  assumes "c < length (cluster_sizes net)"
  shows "cluster_nodes net c = (if c = 0 \<and> has_console net then {Console} else {}) \<union> Node c ` {..<cluster_sizes net ! c}"
proof -
  have "n \<in> cluster_nodes net c \<longleftrightarrow> n \<in> (if c = 0 \<and> has_console net then {Console} else {}) \<union> Node c ` {..<cluster_sizes net ! c}" for n
    using assms by (cases n) (auto simp: cluster_nodes_def)
  then show ?thesis by blast
qed

lemma cluster_others:
  assumes "net_ok net" and "c < length (cluster_sizes net)"
  shows "int (card (cluster_nodes net c - {Node c 0})) = int (cluster_sizes net ! c) - 1 + (if c = 0 \<and> has_console net then 1 else 0)"
    and "Node c 0 \<in> cluster_nodes net c" and "finite (cluster_nodes net c)"
proof -
  have pos: "0 < cluster_sizes net ! c" using assms unfolding net_ok_def by (metis gr0I nth_mem)
  note eq = cluster_nodes_eq [OF assms(2)]
  show m: "Node c 0 \<in> cluster_nodes net c" and f: "finite (cluster_nodes net c)" unfolding eq using pos by auto
  have "card (Node c ` {..<cluster_sizes net ! c}) = cluster_sizes net ! c" by (simp add: card_image inj_on_def)
  then have "card (cluster_nodes net c) = cluster_sizes net ! c + (if c = 0 \<and> has_console net then 1 else 0)"
    unfolding eq by (auto simp: card_insert_if)
  then show "int (card (cluster_nodes net c - {Node c 0})) = int (cluster_sizes net ! c) - 1 + (if c = 0 \<and> has_console net then 1 else 0)"
    using m f pos by (simp add: of_nat_diff)
qed

text \<open>The messages that pass through the gateway of cluster \<open>c\<close>.\<close>

lemma through_gateway:
  assumes "net_ok net" and "c < length (cluster_sizes net)"
  defines "oth \<equiv> cluster_nodes net c - {Node c 0}" and "rest \<equiv> nodes net - cluster_nodes net c"
  shows "through net (Node c 0) = oth \<times> rest \<union> rest \<times> oth
    \<union> (if c = 0 \<and> has_console net then {Console} \<times> (oth - {Console}) \<union> (oth - {Console}) \<times> {Console} else {})"
proof -
  have "(a, b) \<in> through net (Node c 0) \<longleftrightarrow> (a, b) \<in> oth \<times> rest \<union> rest \<times> oth
    \<union> (if c = 0 \<and> has_console net then {Console} \<times> (oth - {Console}) \<union> (oth - {Console}) \<times> {Console} else {})" for a b
  proof (cases "is_node net a \<and> is_node net b \<and> a \<noteq> b")
    case True
    then have p: "is_node net a" "is_node net b" "a \<noteq> b" by auto
    show ?thesis
      using p unfolding through_def pairs_def mem_Collect_eq prod.case path_cases [OF p] oth_def rest_def
      by (cases a; cases b) (auto simp: cluster_nodes_def nodes_def)
  next
    case False
    then show ?thesis by (auto simp: through_def pairs_def oth_def rest_def cluster_nodes_def nodes_def)
  qed
  then show ?thesis unfolding set_eq_iff split_paired_All by blast
qed

lemma through_card:
  assumes "net_ok net" and "is_node net (Node c r)" and "runs_as net c r rt"
  shows "int (card (through net (Node c r))) = messages_to_route rt"
proof (cases "r = 0")
  case False
  have "n \<noteq> Node c r" if "is_node net a" "is_node net b" "a \<noteq> b" "n \<in> set (butlast (path a b))" for a b n
    using path_ends(5) [OF that(1-3)] that(4) False by auto
  then have "through net (Node c r) = {}" by (auto simp: through_def pairs_def)
  moreover have "mpi_rank rt \<noteq> 0" using assms(3) False by (simp add: runs_as_def)
  ultimately show ?thesis by (simp add: messages_to_route_def)
next
  case [simp]: True
  have c: "c < length (cluster_sizes net)" using assms(2) by simp
  let ?cn = "cluster_nodes net c" and ?con = "c = 0 \<and> has_console net"
  define oth where "oth = ?cn - {Node c 0}"
  define rest where "rest = nodes net - ?cn"
  note co = cluster_others [OF assms(1) c, folded oth_def]
  have sub: "?cn \<subseteq> nodes net" by (auto simp: cluster_nodes_def nodes_def)
  have fin: "finite oth" "finite rest" using co(3) by (simp_all add: oth_def rest_def)
  have "card (nodes net) = card ?cn + card rest"
    unfolding rest_def using card_Diff_subset [OF co(3) sub] card_mono [OF finite_nodes sub] by linarith
  moreover have "card ?cn = Suc (card oth)" unfolding oth_def using co(2,3) by (metis card_Suc_Diff1)
  ultimately have rest: "int (card rest) = total_ranks net - (int (card oth) + 1)"
    using card_nodes [of net] by linarith
  have disj: "oth \<inter> rest = {}" by (auto simp: oth_def rest_def)
  let ?X = "oth \<times> rest" and ?Y = "rest \<times> oth"
  let ?Z = "if ?con then {Console} \<times> (oth - {Console}) \<union> (oth - {Console}) \<times> {Console} else {}"
  have t: "through net (Node c r) = ?X \<union> ?Y \<union> ?Z"
    using through_gateway [OF assms(1) c] unfolding oth_def rest_def by simp
  have inO: "Console \<in> oth" if ?con using that by (simp add: oth_def cluster_nodes_def)
  have xy: "card (?X \<union> ?Y) = 2 * (card oth * card rest)"
    using fin disj by (subst card_Un_disjoint) (auto simp: card_cartesian_product)
  have z: "int (card ?Z) = (if ?con then 2 * (int (card oth) - 1) else 0)"
  proof (cases ?con)
    case True
    have "({Console} \<times> (oth - {Console})) \<inter> ((oth - {Console}) \<times> {Console}) = {}" by auto
    then have "card ?Z = card (oth - {Console}) + card (oth - {Console})"
      using True fin by (simp add: card_Un_disjoint card_cartesian_product)
    moreover have "int (card (oth - {Console})) = int (card oth) - 1"
      using inO [OF True] fin(1) card_gt_0_iff [of oth] by (auto simp: of_nat_diff)
    ultimately show ?thesis using True by simp
  next
    case False
    then show ?thesis by auto
  qed
  have "(?X \<union> ?Y) \<inter> ?Z = {}" using disj inO by (auto split: if_splits)
  then have "int (card (through net (Node c r))) = 2 * (int (card oth) * int (card rest)) + int (card ?Z)"
    unfolding t using fin xy by (subst card_Un_disjoint) (auto split: if_splits)
  also have "\<dots> = messages_to_route rt"
    using assms(3) unfolding z rest co(1) messages_to_route_def runs_as_def
    by (auto simp: Let_def algebra_simps)
  finally show ?thesis .
qed

section \<open>The protocol\<close>

text \<open>
  What a message of one process to another has passed: the number of hops on its way. A process
  counts the messages that it has received and those that it has passed on, as \<open>deliver\<close> does.
\<close>

record shutdown =
  running :: "node \<Rightarrow> bool"
  told :: "node \<Rightarrow> bool"
  hops :: "node \<times> node \<Rightarrow> nat"
  received :: "node \<Rightarrow> int"
  routed :: "node \<Rightarrow> int"
  gone :: "node \<Rightarrow> bool"

definition shutdown_start :: shutdown where
  "shutdown_start = \<lparr>running = (\<lambda>_. True), told = (\<lambda>_. False), hops = (\<lambda>_. 0), received = (\<lambda>_. 0),
     routed = (\<lambda>_. 0), gone = (\<lambda>_. False)\<rparr>"

definition take_hop :: "node \<Rightarrow> node \<Rightarrow> node \<Rightarrow> shutdown \<Rightarrow> shutdown" where
  "take_hop a b n s =
     (let s' = s\<lparr>hops := (hops s)((a, b) := hops s (a, b) + 1)\<rparr>
      in if n = b then s'\<lparr>received := (received s)(n := received s n + 1)\<rparr>
         else s'\<lparr>routed := (routed s)(n := routed s n + 1)\<rparr>)"

text \<open>
  The steps: the filters of a process finish; it tells all others; a message takes its next hop,
  if the process there is still in its main loop; a process leaves. The console does not count: it leaves
  when rank 0 has left (\<open>DCMPI_PACKET_TYPE_CLOSE\<close>) and what came before that has arrived.
\<close>

inductive shutdown_step :: "network \<Rightarrow> (nat \<Rightarrow> nat \<Rightarrow> runtime) \<Rightarrow> shutdown \<Rightarrow> shutdown \<Rightarrow> bool" for net rts where
  finish: "is_node net n \<Longrightarrow> running s n \<Longrightarrow> shutdown_step net rts s (s\<lparr>running := (running s)(n := False)\<rparr>)"
| tell: "is_node net n \<Longrightarrow> \<not> running s n \<Longrightarrow> \<not> told s n \<Longrightarrow> shutdown_step net rts s (s\<lparr>told := (told s)(n := True)\<rparr>)"
| arrive: "(a, b) \<in> pairs net \<Longrightarrow> told s a \<Longrightarrow> hops s (a, b) < length (path a b) \<Longrightarrow> n = path a b ! hops s (a, b) \<Longrightarrow>
    \<not> gone s n \<Longrightarrow> shutdown_step net rts s (take_hop a b n s)"
| leave: "is_node net (Node c r) \<Longrightarrow> \<not> gone s (Node c r) \<Longrightarrow> told s (Node c r) \<Longrightarrow>
    received s (Node c r) = num_all_filters_done_expected (rts c r) \<Longrightarrow> routed s (Node c r) = messages_to_route (rts c r) \<Longrightarrow>
    shutdown_step net rts s (s\<lparr>gone := (gone s)(Node c r := True)\<rparr>)"
| leave_console: "is_node net Console \<Longrightarrow> \<not> gone s Console \<Longrightarrow> told s Console \<Longrightarrow> gone s (Node 0 0) \<Longrightarrow>
    \<forall>a. is_node net a \<and> a \<noteq> Console \<longrightarrow> hops s (a, Console) = length (path a Console) \<Longrightarrow>
    shutdown_step net rts s (s\<lparr>gone := (gone s)(Console := True)\<rparr>)"

inductive shutdown_run :: "network \<Rightarrow> (nat \<Rightarrow> nat \<Rightarrow> runtime) \<Rightarrow> nat \<Rightarrow> shutdown \<Rightarrow> bool" for net rts where
  start: "shutdown_run net rts 0 shutdown_start"
| step: "shutdown_run net rts k s \<Longrightarrow> shutdown_step net rts s s' \<Longrightarrow> shutdown_run net rts (Suc k) s'"

lemma shutdown_stepE:
  assumes "shutdown_step net rts s s'"
  obtains (finish) n where "s' = s\<lparr>running := (running s)(n := False)\<rparr>" "is_node net n" "running s n"
    | (tell) n where "s' = s\<lparr>told := (told s)(n := True)\<rparr>" "is_node net n" "\<not> running s n" "\<not> told s n"
    | (arrive) a b n where "s' = take_hop a b n s" "(a, b) \<in> pairs net" "told s a" "hops s (a, b) < length (path a b)"
        "n = path a b ! hops s (a, b)" "\<not> gone s n"
    | (leave) c r where "s' = s\<lparr>gone := (gone s)(Node c r := True)\<rparr>" "is_node net (Node c r)" "\<not> gone s (Node c r)"
        "told s (Node c r)" "received s (Node c r) = num_all_filters_done_expected (rts c r)"
        "routed s (Node c r) = messages_to_route (rts c r)"
    | (leave_console) "s' = s\<lparr>gone := (gone s)(Console := True)\<rparr>" "is_node net Console" "\<not> gone s Console" "told s Console"
        "gone s (Node 0 0)" "\<forall>a. is_node net a \<and> a \<noteq> Console \<longrightarrow> hops s (a, Console) = length (path a Console)"
  using assms by (cases rule: shutdown_step.cases) (simp_all only:, blast+)

lemma zero_nodes: "net_ok net \<Longrightarrow> c < length (cluster_sizes net) \<Longrightarrow> is_node net (Node c 0)"
  by (metis gr0I is_node.simps(2) net_ok_def nth_mem)

lemma path_nodes:
  assumes "net_ok net" and "(a, b) \<in> pairs net" and "n \<in> set (path a b)"
  shows "is_node net n"
proof -
  have p: "is_node net a" "is_node net b" "a \<noteq> b" using assms(2) by (auto simp: pairs_def)
  have z0: "is_node net (Node 0 0)" using zero_nodes [OF assms(1)] assms(1) by (simp add: net_ok_def)
  have zc: "is_node net (Node c r) \<Longrightarrow> is_node net (Node c 0)" for c r using zero_nodes [OF assms(1)] by simp
  consider "n = b" | "n = Node 0 0" | c r where "n = Node c 0" "a = Node c r" | c r where "n = Node c 0" "b = Node c r"
    using assms(3) unfolding path_cases [OF p] by (cases a; cases b) (auto split: if_splits)
  then show ?thesis using z0 zc p by cases blast+
qed

section \<open>The invariant\<close>

definition passed :: "network \<Rightarrow> (node \<times> node \<Rightarrow> nat) \<Rightarrow> node \<Rightarrow> (node \<times> node) set" where
  "passed net h n = {(a, b) \<in> pairs net. n \<in> set (take (h (a, b)) (butlast (path a b)))}"

definition arrived :: "network \<Rightarrow> (node \<times> node \<Rightarrow> nat) \<Rightarrow> node \<Rightarrow> node set" where
  "arrived net h n = {a. (a, n) \<in> pairs net \<and> h (a, n) = length (path a n)}"

text \<open>No message has the process on the rest of its way.\<close>

definition clear_of :: "network \<Rightarrow> (node \<times> node \<Rightarrow> nat) \<Rightarrow> node \<Rightarrow> bool" where
  "clear_of net h n \<longleftrightarrow> (\<forall>(a, b)\<in>pairs net. n \<notin> set (drop (h (a, b)) (path a b)))"

definition shutdown_inv :: "network \<Rightarrow> shutdown \<Rightarrow> bool" where
  "shutdown_inv net s \<longleftrightarrow>
     (\<forall>(a, b)\<in>pairs net. hops s (a, b) \<le> length (path a b))
     \<and> (\<forall>n. received s n = int (card (arrived net (hops s) n)))
     \<and> (\<forall>n. routed s n = int (card (passed net (hops s) n)))
     \<and> (\<forall>n. is_node net n \<longrightarrow> gone s n \<longrightarrow> clear_of net (hops s) n)
     \<and> (\<forall>n. gone s n \<longrightarrow> told s n)"

lemma pairs_path:
  assumes "(a, b) \<in> pairs net"
  shows "path a b \<noteq> []" and "last (path a b) = b" and "distinct (path a b)" and "length (path a b) \<le> 3"
  using path_ends [of net a b] assms by (auto simp: pairs_def)

lemma finite_passed [simp]: "finite (passed net h n)"
  by (rule finite_subset [OF _ finite_pairs [of net]]) (auto simp: passed_def)

lemma finite_arrived [simp]: "finite (arrived net h n)"
  by (rule finite_subset [OF _ finite_nodes [of net]]) (auto simp: arrived_def pairs_def nodes_def)

lemma hop_before_last:
  assumes "(a, b) \<in> pairs net" and "k < length (path a b)"
  shows "path a b ! k = b \<longleftrightarrow> k = length (path a b) - 1"
proof -
  note p = pairs_path [OF assms(1)]
  have "path a b ! (length (path a b) - 1) = b" using p(1,2) by (simp add: last_conv_nth)
  then show ?thesis using p(1,3) assms(2) nth_eq_iff_index_eq [OF p(3), of k "length (path a b) - 1"] by force
qed

text \<open>One hop counts once, at the process it reaches.\<close>

lemma hop_passed:
  assumes "(a, b) \<in> pairs net" and "h (a, b) < length (path a b)" and "n = path a b ! h (a, b)"
  shows "passed net (h((a, b) := h (a, b) + 1)) m
    = (if m = n \<and> n \<noteq> b then insert (a, b) (passed net h m) else passed net h m)"
    and "n \<noteq> b \<Longrightarrow> (a, b) \<notin> passed net h n"
proof -
  note p = pairs_path [OF assms(1)]
  note last = hop_before_last [OF assms(1,2), folded assms(3)]
  have take: "set (take (Suc (h (a, b))) (butlast (path a b)))
      = set (take (h (a, b)) (butlast (path a b))) \<union> (if n \<noteq> b then {n} else {})"
  proof (cases "n = b")
    case True
    then have "h (a, b) = length (butlast (path a b))" using last by simp
    then show ?thesis using True by simp
  next
    case False
    then have h: "h (a, b) < length (butlast (path a b))" using last assms(2) by simp
    then have "butlast (path a b) ! h (a, b) = n" by (simp add: nth_butlast assms(3))
    then show ?thesis using False h by (simp add: take_Suc_conv_app_nth)
  qed
  show "passed net (h((a, b) := h (a, b) + 1)) m
    = (if m = n \<and> n \<noteq> b then insert (a, b) (passed net h m) else passed net h m)"
    using take assms(1) unfolding passed_def by (auto split: if_splits)
  show "(a, b) \<notin> passed net h n" if "n \<noteq> b"
  proof
    assume "(a, b) \<in> passed net h n"
    then have n: "n \<in> set (take (h (a, b)) (butlast (path a b)))" by (simp add: passed_def)
    have "take (h (a, b)) (butlast (path a b)) = take (h (a, b)) (path a b)"
      using assms(2) by (auto simp: butlast_conv_take take_take min_def)
    with n obtain i where i: "i < h (a, b)" "path a b ! i = n" using assms(2) by (auto simp: in_set_conv_nth)
    then show False using p(3) assms(2,3) nth_eq_iff_index_eq [OF p(3), of i "h (a, b)"] by simp
  qed
qed

lemma hop_arrived:
  assumes "(a, b) \<in> pairs net" and "h (a, b) < length (path a b)" and "n = path a b ! h (a, b)"
  shows "arrived net (h((a, b) := h (a, b) + 1)) m
    = (if m = n \<and> n = b then insert a (arrived net h m) else arrived net h m)"
    and "a \<notin> arrived net h b"
proof -
  have last: "n = b \<longleftrightarrow> Suc (h (a, b)) = length (path a b)"
    using hop_before_last [OF assms(1,2), folded assms(3)] assms(2) by auto
  show "arrived net (h((a, b) := h (a, b) + 1)) m
    = (if m = n \<and> n = b then insert a (arrived net h m) else arrived net h m)"
    using last assms(1,2) unfolding arrived_def by auto
  show "a \<notin> arrived net h b" using assms(2) by (simp add: arrived_def)
qed

lemma clear_hop: "clear_of net h n \<Longrightarrow> clear_of net (h((a, b) := h (a, b) + 1)) n"
proof -
  assume c: "clear_of net h n"
  have "n \<notin> set (drop (Suc k) p)" if "n \<notin> set (drop k p)" for k and p :: "node list"
    using that by (metis set_drop_subset_set_drop in_mono le_SucI order_refl)
  with c show ?thesis unfolding clear_of_def by auto
qed

text \<open>Whoever has heard all and passed on all is clear of all messages.\<close>

lemma all_arrived:
  assumes "card (arrived net h n) = card (nodes net) - 1" and "is_node net n" and "(a, n) \<in> pairs net"
  shows "h (a, n) = length (path a n)"
proof -
  have sub: "arrived net h n \<subseteq> nodes net - {n}" by (auto simp: arrived_def pairs_def nodes_def)
  have "card (nodes net - {n}) = card (nodes net) - 1" using assms(2) by (simp add: nodes_def)
  then have "arrived net h n = nodes net - {n}" using card_subset_eq [OF _ sub] assms(1) by simp
  moreover have "a \<in> nodes net - {n}" using assms(3) by (auto simp: pairs_def nodes_def)
  ultimately have "a \<in> arrived net h n" by blast
  then show ?thesis by (simp add: arrived_def)
qed

lemma all_passed:
  assumes "card (passed net h n) = card (through net n)" and "(a, b) \<in> through net n" and "\<forall>(a, b)\<in>pairs net. h (a, b) \<le> length (path a b)"
  shows "n \<notin> set (drop (h (a, b)) (path a b))"
proof -
  have "passed net h n \<subseteq> through net n" by (auto simp: passed_def through_def dest: in_set_takeD)
  then have "passed net h n = through net n" using card_subset_eq [OF finite_through] assms(1) by simp
  then have n: "(a, b) \<in> pairs net" "n \<in> set (take (h (a, b)) (butlast (path a b)))" using assms(2) by (auto simp: passed_def)
  have "set (take (h (a, b)) (butlast (path a b))) \<subseteq> set (take (h (a, b)) (path a b))"
    by (auto simp: butlast_conv_take take_take min_def split: if_splits dest: in_set_takeD)
  then have "n \<in> set (take (h (a, b)) (path a b))" using n(2) by blast
  then show ?thesis using pairs_path(3) [OF n(1)] by (metis append_take_drop_id distinct_append disjoint_iff)
qed

lemma counted_clear:
  assumes "card (arrived net h n) = card (nodes net) - 1" and "card (passed net h n) = card (through net n)"
    and "is_node net n" and "\<forall>(a, b)\<in>pairs net. h (a, b) \<le> length (path a b)"
  shows "clear_of net h n"
  unfolding clear_of_def
proof (clarify)
  fix a b assume ab: "(a, b) \<in> pairs net" and n: "n \<in> set (drop (h (a, b)) (path a b))"
  note p = pairs_path [OF ab]
  show False
  proof (cases "n = b")
    case True
    then show False using all_arrived [OF assms(1,3)] ab n by simp
  next
    case False
    have "n \<in> set (path a b)" using n by (rule in_set_dropD)
    then have "n \<in> set (butlast (path a b))" using p(1,2) False by (metis append_butlast_last_id in_set_conv_decomp rotate1.simps(2) set_ConsD set_rotate1)
    then have "(a, b) \<in> through net n" using ab by (simp add: through_def)
    then show False using all_passed [OF assms(2) _ assms(4)] n by blast
  qed
qed

lemma start_inv: "shutdown_inv net shutdown_start"
proof -
  have "arrived net (\<lambda>_. 0) n = {}" for n using pairs_path(1) by (fastforce simp: arrived_def)
  moreover have "passed net (\<lambda>_. 0) n = {}" for n by (simp add: passed_def)
  ultimately show ?thesis by (auto simp: shutdown_inv_def shutdown_start_def)
qed

lemma step_inv:
  assumes "net_ok net" and "\<And>c r. is_node net (Node c r) \<Longrightarrow> runs_as net c r (rts c r)"
    and "shutdown_step net rts s s'" and "shutdown_inv net s"
  shows "shutdown_inv net s'"
  using assms(3)
proof (cases rule: shutdown_stepE)
  case (finish n)
  with assms(4) show ?thesis by (simp add: shutdown_inv_def)
next
  case (tell n)
  with assms(4) show ?thesis by (auto simp: shutdown_inv_def)
next
  case (arrive a b n)
  note inv = assms(4) [unfolded shutdown_inv_def]
  let ?h = "(hops s)((a, b) := hops s (a, b) + 1)"
  have s': "hops s' = ?h" "gone s' = gone s" "told s' = told s"
    "received s' = (if n = b then (received s)(n := received s n + 1) else received s)"
    "routed s' = (if n = b then routed s else (routed s)(n := routed s n + 1))"
    unfolding arrive(1) by (simp_all add: take_hop_def Let_def)
  note ar = hop_arrived [where h = "hops s", OF arrive(2,4,5)] and pa = hop_passed [where h = "hops s", OF arrive(2,4,5)]
  have "\<forall>(a, b)\<in>pairs net. ?h (a, b) \<le> length (path a b)" using inv arrive(4) by auto
  moreover have "received s' m = int (card (arrived net ?h m))" for m
  proof -
    have r: "received s m = int (card (arrived net (hops s) m))" using inv by blast
    show ?thesis
    proof (cases "m = n \<and> n = b")
      case True
      then have "card (arrived net ?h m) = Suc (card (arrived net (hops s) m))" using ar by simp
      then show ?thesis using True r unfolding s'(4) by simp
    next
      case False
      then show ?thesis using r unfolding s'(4) ar(1) by auto
    qed
  qed
  moreover have "routed s' m = int (card (passed net ?h m))" for m
  proof -
    have r: "routed s m = int (card (passed net (hops s) m))" using inv by blast
    show ?thesis
    proof (cases "m = n \<and> n \<noteq> b")
      case True
      then have "card (passed net ?h m) = Suc (card (passed net (hops s) m))" using pa by simp
      then show ?thesis using True r unfolding s'(5) by simp
    next
      case False
      then show ?thesis using r unfolding s'(5) pa(1) by auto
    qed
  qed
  moreover have "clear_of net ?h m" if "is_node net m" "gone s m" for m using inv that clear_hop by blast
  ultimately show ?thesis unfolding shutdown_inv_def s'(1,2,3) using inv by blast
next
  case (leave c r)
  note inv = assms(4) [unfolded shutdown_inv_def]
  have rt: "runs_as net c r (rts c r)" by (rule assms(2) [OF leave(2)])
  have "int (card (arrived net (hops s) (Node c r))) = total_ranks net - 1"
    using inv leave(5) rt by (simp add: num_all_filters_done_expected_def runs_as_def)
  then have "card (arrived net (hops s) (Node c r)) = card (nodes net) - 1"
    using card_nodes [of net] by linarith
  moreover have "card (passed net (hops s) (Node c r)) = card (through net (Node c r))"
    using inv leave(6) through_card [OF assms(1) leave(2) rt] by (metis of_nat_eq_iff)
  moreover have "\<forall>(a, b)\<in>pairs net. hops s (a, b) \<le> length (path a b)" using inv by blast
  ultimately have "clear_of net (hops s) (Node c r)" using counted_clear leave(2) by blast
  then show ?thesis using inv leave(4) unfolding leave(1) by (auto simp: shutdown_inv_def)
next
  case leave_console
  note inv = assms(4) [unfolded shutdown_inv_def]
  have "clear_of net (hops s) Console"
    unfolding clear_of_def
  proof (clarify)
    fix a b assume ab: "(a, b) \<in> pairs net" and n: "Console \<in> set (drop (hops s (a, b)) (path a b))"
    have "Console \<in> set (path a b)" using n by (rule in_set_dropD)
    then have "b = Console" using ab path_cases [of net a b] by (cases a; cases b) (auto simp: pairs_def split: if_splits)
    then show False using leave_console(6) ab n by (auto simp: pairs_def)
  qed
  then show ?thesis using inv leave_console(4) unfolding leave_console(1) by (auto simp: shutdown_inv_def)
qed

lemma run_inv:
  assumes "net_ok net" and "\<And>c r. is_node net (Node c r) \<Longrightarrow> runs_as net c r (rts c r)" and "shutdown_run net rts k s"
  shows "shutdown_inv net s"
  using assms(3)
proof (induction rule: shutdown_run.induct)
  case start
  show ?case by (rule start_inv)
next
  case (step k s s')
  then show ?case using step_inv [OF assms(1,2)] by blast
qed

section \<open>Progress\<close>

definition hops_left :: "network \<Rightarrow> shutdown \<Rightarrow> nat" where
  "hops_left net s = (\<Sum>(a, b)\<in>pairs net. length (path a b) - hops s (a, b))"

definition work_left :: "network \<Rightarrow> shutdown \<Rightarrow> nat" where
  "work_left net s = card {n \<in> nodes net. running s n} + card {n \<in> nodes net. \<not> told s n}
     + card {n \<in> nodes net. \<not> gone s n} + hops_left net s"

lemma card_drop: "x \<in> nodes net \<Longrightarrow> P x \<Longrightarrow> Suc (card {n \<in> nodes net. P n \<and> n \<noteq> x}) = card {n \<in> nodes net. P n}"
proof -
  assume "x \<in> nodes net" "P x"
  then have "{n \<in> nodes net. P n} = insert x {n \<in> nodes net. P n \<and> n \<noteq> x}" by auto
  then show ?thesis by simp
qed

lemma step_work:
  assumes "shutdown_step net rts s s'"
  shows "Suc (work_left net s') = work_left net s"
  using assms
proof (cases rule: shutdown_stepE)
  case (finish n)
  have "{m \<in> nodes net. running s' m} = {m \<in> nodes net. running s m \<and> m \<noteq> n}" unfolding finish(1) by auto
  then show ?thesis using card_drop [of n net "running s"] finish by (simp add: work_left_def hops_left_def nodes_def)
next
  case (tell n)
  have "{m \<in> nodes net. \<not> told s' m} = {m \<in> nodes net. \<not> told s m \<and> m \<noteq> n}" unfolding tell(1) by auto
  then show ?thesis using card_drop [of n net "\<lambda>m. \<not> told s m"] tell by (simp add: work_left_def hops_left_def nodes_def)
next
  case (arrive a b n)
  have s': "hops s' = (hops s)((a, b) := hops s (a, b) + 1)" "gone s' = gone s" "told s' = told s" "running s' = running s"
    unfolding arrive(1) by (simp_all add: take_hop_def Let_def)
  have "Suc (hops_left net s') = hops_left net s"
  proof -
    have rest: "(\<Sum>(x, y)\<in>pairs net - {(a, b)}. length (path x y) - hops s' (x, y))
        = (\<Sum>(x, y)\<in>pairs net - {(a, b)}. length (path x y) - hops s (x, y))"
      unfolding s'(1) by (intro sum.cong refl) (auto split: prod.splits if_splits)
    show ?thesis
      unfolding hops_left_def sum.remove [OF finite_pairs arrive(2)] rest using arrive(4) by (simp add: s'(1))
  qed
  then show ?thesis by (simp add: work_left_def s')
next
  case (leave c r)
  have "{m \<in> nodes net. \<not> gone s' m} = {m \<in> nodes net. \<not> gone s m \<and> m \<noteq> Node c r}" unfolding leave(1) by auto
  then show ?thesis using card_drop [of "Node c r" net "\<lambda>m. \<not> gone s m"] leave by (simp add: work_left_def hops_left_def nodes_def)
next
  case leave_console
  have "{m \<in> nodes net. \<not> gone s' m} = {m \<in> nodes net. \<not> gone s m \<and> m \<noteq> Console}" unfolding leave_console(1) by auto
  then show ?thesis using card_drop [of Console net "\<lambda>m. \<not> gone s m"] leave_console
    by (simp add: work_left_def hops_left_def nodes_def)
qed

lemma run_work: "shutdown_run net rts k s \<Longrightarrow> k + work_left net s = work_left net shutdown_start"
  by (induction rule: shutdown_run.induct) (auto dest: step_work)

lemma start_work: "work_left net shutdown_start \<le> 3 * card (nodes net) + 3 * (card (nodes net) * card (nodes net))"
proof -
  have "hops_left net shutdown_start \<le> (\<Sum>_\<in>pairs net. 3)"
    unfolding hops_left_def shutdown_start_def using pairs_path(4) by (intro sum_mono) auto
  also have "\<dots> = 3 * card (pairs net)" by simp
  also have "card (pairs net) \<le> card (nodes net \<times> nodes net)"
    by (rule card_mono [OF _ pairs_sub]) simp
  finally have "hops_left net shutdown_start \<le> 3 * (card (nodes net) * card (nodes net))"
    by (simp add: card_cartesian_product)
  moreover have le: "card {n \<in> nodes net. P n} \<le> card (nodes net)" for P by (rule card_mono) auto
  ultimately show ?thesis
    unfolding work_left_def
    using le [of "running shutdown_start"] le [of "\<lambda>n. \<not> told shutdown_start n"] le [of "\<lambda>n. \<not> gone shutdown_start n"]
    by linarith
qed

text \<open>As long as somebody is still there, somebody can do something.\<close>

lemma shutdown_progress:
  assumes "net_ok net" and "\<And>c r. is_node net (Node c r) \<Longrightarrow> runs_as net c r (rts c r)"
    and "shutdown_inv net s" and "is_node net m" and "\<not> gone s m"
  shows "\<exists>s'. shutdown_step net rts s s'"
proof (rule ccontr)
  assume none: "\<nexists>s'. shutdown_step net rts s s'"
  note inv = assms(3) [unfolded shutdown_inv_def]
  have run: "\<not> running s n" if "is_node net n" for n using none finish that by blast
  have told: "told s n" if "is_node net n" for n using none tell run that by blast
  have hops: "hops s (a, b) = length (path a b)" if ab: "(a, b) \<in> pairs net" for a b
  proof (rule ccontr)
    assume "hops s (a, b) \<noteq> length (path a b)"
    then have h: "hops s (a, b) < length (path a b)" using inv ab by fastforce
    let ?n = "path a b ! hops s (a, b)"
    have n: "?n \<in> set (drop (hops s (a, b)) (path a b))" using h by (metis Cons_nth_drop_Suc list.set_intros(1))
    have "is_node net a" using ab by (simp add: pairs_def)
    then have g: "gone s ?n" using none arrive [OF ab told h refl] by blast
    have "is_node net ?n"
      using path_nodes [OF assms(1) ab nth_mem [OF h]] .
    then have "clear_of net (hops s) ?n" using inv g by blast
    then show False using ab n unfolding clear_of_def by blast
  qed
  have arr: "arrived net (hops s) n = nodes net - {n}" if "is_node net n" for n
    using that hops by (auto simp: arrived_def pairs_def nodes_def)
  have pas: "passed net (hops s) n = through net n" for n
    unfolding passed_def through_def using hops by auto
  have gone: "gone s (Node c r)" if cr: "is_node net (Node c r)" for c r
  proof (rule ccontr)
    assume g: "\<not> gone s (Node c r)"
    note rt = assms(2) [OF cr]
    have "received s (Node c r) = num_all_filters_done_expected (rts c r)"
      using inv arr [OF cr] card_others [OF cr] rt by (simp add: num_all_filters_done_expected_def runs_as_def)
    moreover have "routed s (Node c r) = messages_to_route (rts c r)"
      using inv pas through_card [OF assms(1) cr rt] by simp
    ultimately show False using none leave [OF cr g told [OF cr]] by blast
  qed
  show False
  proof (cases m)
    case (Node c r)
    with assms(4,5) gone show False by blast
  next
    case Console
    have "\<forall>a. is_node net a \<and> a \<noteq> Console \<longrightarrow> hops s (a, Console) = length (path a Console)"
      using hops assms(4) Console by (auto simp: pairs_def)
    moreover have "gone s (Node 0 0)" using gone zero_nodes [OF assms(1)] assms(1) by (simp add: net_ok_def)
    ultimately show False
      using none leave_console [of net s rts] told assms(4,5) Console by blast
  qed
qed

section \<open>Properties\<close>

text \<open>
  C1. The end of a run, in any number of clusters and with or without a console filter: however
  the steps of the processes interleave, there are at most \<open>3 * n + 3 * n * n\<close> of them for \<open>n\<close>
  processes, somebody can take a step as long as anybody is still there, so in the end everybody
  has left; and a process that has left is not on the way of any message, so none is lost.
\<close>

theorem everybody_leaves:
  assumes "net_ok net" and "\<And>c r. is_node net (Node c r) \<Longrightarrow> runs_as net c r (rts c r)"
    and "shutdown_run net rts k s"
  shows "k \<le> 3 * card (nodes net) + 3 * (card (nodes net) * card (nodes net))
    \<and> ((\<forall>n\<in>nodes net. gone s n) \<or> (\<exists>s'. shutdown_step net rts s s'))
    \<and> (\<forall>n\<in>nodes net. gone s n \<longrightarrow> (\<forall>(a, b)\<in>pairs net. n \<notin> set (drop (hops s (a, b)) (path a b))))"
proof (intro conjI)
  note inv = run_inv [OF assms]
  show "k \<le> 3 * card (nodes net) + 3 * (card (nodes net) * card (nodes net))"
    using run_work [OF assms(3)] start_work [of net] by linarith
  show "(\<forall>n\<in>nodes net. gone s n) \<or> (\<exists>s'. shutdown_step net rts s s')"
    using shutdown_progress [OF assms(1,2) inv] unfolding nodes_def by blast
  show "\<forall>n\<in>nodes net. gone s n \<longrightarrow> (\<forall>(a, b)\<in>pairs net. n \<notin> set (drop (hops s (a, b)) (path a b)))"
    using inv unfolding shutdown_inv_def clear_of_def nodes_def by blast
qed

theorem everybody_leaves_witness:
  "shutdown_run two_clusters process_of 0 shutdown_start \<and> (\<exists>s'. shutdown_step two_clusters process_of shutdown_start s')"
proof -
  have net: "net_ok two_clusters" by (simp add: two_clusters_def net_ok_def)
  have "Node 0 0 \<in> nodes two_clusters" by (simp add: nodes_def two_clusters_def)
  then have "\<not> (\<forall>n\<in>nodes two_clusters. gone shutdown_start n)" by (auto simp: shutdown_start_def)
  then show ?thesis
    using everybody_leaves [OF net process_of_runs shutdown_run.start] shutdown_run.start by blast
qed

end
