(* ===== verification/Channel.thy ===== *)
theory Channel
  imports Runtime
begin

text \<open>
  What the main loop of a process relies on in everything that hands it packets, the ranks of its
  cluster and the proxy: a pass looks whether there is data, takes the next packet in if the budget
  of the runtime has room for its body, and charges the budget with it. The interface is a locale;
  its laws make a queue of packets of it.
\<close>

section \<open>Budgets\<close>

definition budget_ok :: "MemUsage \<Rightarrow> bool" where
  "budget_ok mu \<longleftrightarrow> 0 \<le> current_usage mu \<and> current_usage mu < 2 ^ 62"

definition has_room :: "DCMPIPacket list \<Rightarrow> MemUsage \<Rightarrow> bool" where
  "has_room ps mu \<longleftrightarrow> (\<forall>p\<in>set ps. current_usage mu + sint (body_len p) \<le> memory_threshold mu)"

text \<open>What a packet holds of a budget.\<close>

definition held :: "DCMPIPacket \<Rightarrow> int" where
  "held p = (if packet_type p = DCMPI_PACKET_TYPE_DCBUF then sint (body_len p) else 0)"

lemma accumulate_room:
  assumes "budget_ok mu" and "- (2 ^ 31) \<le> n" and "n < 2 ^ 31"
  shows "accumulate_if_not_exceeding_limit n mu
    = Inr (if current_usage mu + n \<le> memory_threshold mu then (True, mu\<lparr>current_usage := current_usage mu + n\<rparr>) else (False, mu))"
  using assms by (auto simp: accumulate_if_not_exceeding_limit_def budget_ok_def int8_ok_def)

section \<open>Passes\<close>

text \<open>
  Passes of the main loop, with the answer to the question for data and the budget in each. The
  result has the packets that were handed out and how much the budget was charged in all.
\<close>

fun channel_run :: "(bool \<Rightarrow> MemUsage \<Rightarrow> 's \<Rightarrow> 'w \<Rightarrow> (DCMPIPacket option \<times> 's \<times> MemUsage, 'w) io) \<Rightarrow>
    (bool \<times> MemUsage) list \<Rightarrow> 's \<Rightarrow> 'w \<Rightarrow> (DCMPIPacket list \<times> 's \<times> int, 'w) io" where
  "channel_run pass [] s w = ret ([], s, 0) w"
| "channel_run pass ((ready, mu) # sched) s w =
     bind_io (pass ready mu s w) (\<lambda>(pk, s1, mu') w1.
     bind_io (channel_run pass sched s1 w1) (\<lambda>(ds, s2, n) w2.
       ret ((case pk of None \<Rightarrow> ds | Some p \<Rightarrow> p # ds), s2, current_usage mu' - current_usage mu + n) w2))"

text \<open>The passes that have data and room for every body.\<close>

definition good_passes :: "DCMPIPacket list \<Rightarrow> (bool \<times> MemUsage) list \<Rightarrow> nat" where
  "good_passes ps sched = length (filter (\<lambda>(ready, mu). ready \<and> has_room ps mu) sched)"

text \<open>
  The laws of a pass: in a state that still has the packets \<open>ps\<close> it hands out the first or none;
  none only if it was refused or, as the last pass, because there is none. The budgets that the main loop
  can have satisfy \<open>budget_fits\<close>.
\<close>

locale packet_channel =
  fixes pass :: "bool \<Rightarrow> MemUsage \<Rightarrow> 's \<Rightarrow> 'w \<Rightarrow> (DCMPIPacket option \<times> 's \<times> MemUsage, 'w) io"
    and still_has :: "'s \<Rightarrow> 'w \<Rightarrow> DCMPIPacket list \<Rightarrow> bool"
    and packet_fits :: "DCMPIPacket \<Rightarrow> bool"
    and came_as :: "DCMPIPacket \<Rightarrow> DCMPIPacket \<Rightarrow> bool"
    and at_end :: "'s \<Rightarrow> bool"
    and budget_fits :: "MemUsage \<Rightarrow> bool"
  assumes pass_hands_out: "still_has s w ps \<Longrightarrow> \<forall>p\<in>set ps. packet_fits p \<Longrightarrow> budget_fits mu \<Longrightarrow>
      \<exists>pk s' mu' w'. pass ready mu s w = Some (Inr ((pk, s', mu'), w'))
        \<and> (case pk of None \<Rightarrow> mu' = mu \<and> still_has s' w' ps \<and> (ready \<and> has_room ps mu \<longrightarrow> ps = [] \<and> at_end s')
           | Some p' \<Rightarrow> \<exists>p ps'. ps = p # ps' \<and> came_as p p' \<and> still_has s' w' ps' \<and> current_usage mu' = current_usage mu + held p')
        \<and> (at_end s \<longrightarrow> at_end s')"
begin

lemma run_is_queue:
  assumes "\<forall>(ready, mu)\<in>set sched. budget_fits mu" and "still_has s w qs" and "\<forall>p\<in>set qs. packet_fits p" and "set qs \<subseteq> set ps"
  shows "\<exists>ds s' w' k. channel_run pass sched s w = Some (Inr ((ds, s', sum_list (map held ds)), w'))
    \<and> list_all2 came_as (take k qs) ds \<and> still_has s' w' (drop k qs)
    \<and> (length qs + (if at_end s then 0 else 1) \<le> good_passes ps sched \<longrightarrow> length ds = length qs \<and> at_end s')
    \<and> (at_end s \<longrightarrow> at_end s')"
  using assms
proof (induction sched arbitrary: s w qs)
  case Nil
  then show ?case by (intro exI [of _ "[]"] exI [of _ s] exI [of _ w] exI [of _ 0]) (simp add: ret_def good_passes_def)
next
  case (Cons p1 sched)
  obtain ready mu where p1: "p1 = (ready, mu)" by (cases p1)
  have mu: "budget_fits mu" and sched: "\<forall>(ready, mu)\<in>set sched. budget_fits mu" using Cons.prems(1) p1 by auto
  have room: "has_room ps mu \<Longrightarrow> has_room qs mu" using Cons.prems(4) by (auto simp: has_room_def)
  have good: "good_passes ps (p1 # sched) = (if ready \<and> has_room ps mu then 1 else 0) + good_passes ps sched"
    by (simp add: good_passes_def p1)
  obtain pk s1 mu1 w1 where 1: "pass ready mu s w = Some (Inr ((pk, s1, mu1), w1))"
    and pk: "case pk of None \<Rightarrow> mu1 = mu \<and> still_has s1 w1 qs \<and> (ready \<and> has_room qs mu \<longrightarrow> qs = [] \<and> at_end s1)
         | Some p' \<Rightarrow> \<exists>p ps'. qs = p # ps' \<and> came_as p p' \<and> still_has s1 w1 ps' \<and> current_usage mu1 = current_usage mu + held p'"
    and ends: "at_end s \<Longrightarrow> at_end s1"
    using pass_hands_out [OF Cons.prems(2,3) mu, of ready] by blast
  show ?case
  proof (cases pk)
    case None
    with pk have l: "mu1 = mu" "still_has s1 w1 qs" "ready \<and> has_room ps mu \<Longrightarrow> qs = [] \<and> at_end s1" using room by auto
    obtain ds s' w' k where r: "channel_run pass sched s1 w1 = Some (Inr ((ds, s', sum_list (map held ds)), w'))"
      "list_all2 came_as (take k qs) ds" "still_has s' w' (drop k qs)"
      "length qs + (if at_end s1 then 0 else 1) \<le> good_passes ps sched \<longrightarrow> length ds = length qs \<and> at_end s'"
      "at_end s1 \<longrightarrow> at_end s'"
      using Cons.IH [OF sched l(2) Cons.prems(3,4)] by blast
    have "length qs + (if at_end s then 0 else 1) \<le> good_passes ps (p1 # sched) \<longrightarrow> length ds = length qs \<and> at_end s'"
      using r(4) l(3) ends unfolding good by (auto split: if_splits)
    then show ?thesis using 1 None l(1) r ends by (intro exI [of _ ds] exI [of _ s'] exI [of _ w'] exI [of _ k]) (simp add: p1 ret_def)
  next
    case (Some p')
    with pk obtain p ps' where p: "qs = p # ps'" "came_as p p'" "still_has s1 w1 ps'" "current_usage mu1 = current_usage mu + held p'" by auto
    have "\<forall>p\<in>set ps'. packet_fits p" "set ps' \<subseteq> set ps" using Cons.prems(3,4) p(1) by auto
    from Cons.IH [OF sched p(3) this] obtain ds s' w' k where r: "channel_run pass sched s1 w1 = Some (Inr ((ds, s', sum_list (map held ds)), w'))"
      "list_all2 came_as (take k ps') ds" "still_has s' w' (drop k ps')"
      "length ps' + (if at_end s1 then 0 else 1) \<le> good_passes ps sched \<longrightarrow> length ds = length ps' \<and> at_end s'"
      "at_end s1 \<longrightarrow> at_end s'"
      by blast
    have "length qs + (if at_end s then 0 else 1) \<le> good_passes ps (p1 # sched) \<longrightarrow> length (p' # ds) = length qs \<and> at_end s'"
      using r(4) ends p(1) unfolding good by (auto split: if_splits)
    then show ?thesis using 1 Some r p(1,2,4) ends
      by (intro exI [of _ "p' # ds"] exI [of _ s'] exI [of _ w'] exI [of _ "Suc k"]) (simp add: p1 ret_def)
  qed
qed

end

end
