(* ===== verification/RuntimeReceive.thy ===== *)
theory RuntimeReceive
  imports Channel
begin

text \<open>
  The packets on their way from one rank to another: on the wire they are headers and bodies, and
  a receiver that has no memory for a body puts it off; seen from outside it is a queue of packets.
\<close>

section \<open>Packets as messages\<close>

text \<open>Packets that fit their header and their body.\<close>

definition sendable_packet :: "DCMPIPacket \<Rightarrow> bool" where
  "sendable_packet p \<longleftrightarrow> port_ok (to_port (address p)) \<and> port_ok (from_port (address p))
     \<and> (\<forall>b. body p = Some b \<longrightarrow> buf_wf b \<and> body_len p = word_of_int (wSize b))"

definition packet_ok :: "DCMPIPacket \<Rightarrow> bool" where
  "packet_ok p \<longleftrightarrow> sendable_packet p \<and> (packet_type p = DCMPI_PACKET_TYPE_DCBUF \<longleftrightarrow> body p \<noteq> None)"

definition header_of :: "bool \<Rightarrow> DCMPIPacket \<Rightarrow> char list" where
  "header_of h p = (case to_bytearray h p of Inl _ \<Rightarrow> [] | Inr hdr \<Rightarrow> hdr)"

definition messages :: "bool \<Rightarrow> DCMPIPacket \<Rightarrow> char list list" where
  "messages h p = header_of h p # (case body p of None \<Rightarrow> [] | Some b \<Rightarrow> [used b])"

text \<open>What the receiver makes of a packet: the body has the byte order of the receiver.\<close>

definition received_as :: "bool \<Rightarrow> DCMPIPacket \<Rightarrow> DCMPIPacket \<Rightarrow> bool" where
  "received_as host p p' \<longleftrightarrow> address p' = address p \<and> packet_type p' = packet_type p \<and> body_len p' = body_len p
     \<and> (case body p of None \<Rightarrow> body p' = None
        | Some b \<Rightarrow> \<exists>b'. body p' = Some b' \<and> used b' = used b \<and> isbigendian b' = host)"

text \<open>The packets that are still on their way.\<close>

definition on_link :: "bool \<Rightarrow> mpi_recv_info \<Rightarrow> char list list \<Rightarrow> DCMPIPacket list \<Rightarrow> bool" where
  "on_link h info inbox ps \<longleftrightarrow>
     (if recv_state info = REQ_COMPLETED_READY_FOR_BODY
      then \<exists>p ps' b. ps = p # ps' \<and> body p = Some b \<and> bodyless_packet info = Some (p\<lparr>body := None\<rparr>)
           \<and> inbox = used b # concat (map (messages h) ps')
      else bodyless_packet info = None \<and> inbox = concat (map (messages h) ps))"

text \<open>
  A pass of the main loop for one rank; \<open>MPI_Test\<close> cannot say yes before a message is there.
\<close>

definition mpi_pass :: "bool \<Rightarrow> bool \<Rightarrow> MemUsage \<Rightarrow> mpi_recv_info \<Rightarrow> char list list \<Rightarrow>
    (DCMPIPacket option \<times> mpi_recv_info \<times> MemUsage, char list list) io" where
  "mpi_pass host req_done mu info inbox = receive_packet host (req_done \<and> inbox \<noteq> []) (start_receive info) mu inbox"

section \<open>One pass\<close>

lemma sendable_header:
  assumes "sendable_packet p"
  shows "to_bytearray h p = Inr (header_of h p)" and "length (header_of h p) = DCMPI_PACKET_HEADER_SIZE"
    and "init_from_bytearray h' (header_of h p) p' = Inr (p\<lparr>body := body p'\<rparr>)"
proof -
  have ok: "port_ok (to_port (address p))" "port_ok (from_port (address p))" using assms by (simp_all add: sendable_packet_def)
  then obtain hdr where hdr: "to_bytearray h p = Inr hdr"
    unfolding to_bytearray_def Let_def by (auto simp: port_ok_def port_field_def)
  then show "to_bytearray h p = Inr (header_of h p)" by (simp add: header_of_def)
  show "length (header_of h p) = DCMPI_PACKET_HEADER_SIZE"
    using to_bytearray_length [OF hdr] by (simp add: header_of_def hdr)
  have "p'\<lparr>packet_type := packet_type p, body_len := body_len p, address := address p\<rparr> = p\<lparr>body := body p'\<rparr>"
    by (cases p; cases p') simp
  then show "init_from_bytearray h' (header_of h p) p' = Inr (p\<lparr>body := body p'\<rparr>)"
    using header_roundtrip [OF ok hdr, of h' p'] by (simp add: header_of_def hdr)
qed

lemma sendable_body:
  assumes "sendable_packet p" and "body p = Some b"
  shows "sint (body_len p) = int (length (used b))" and "short (used b)" and "block_read (mem b) 0 (length (used b)) = Inr (used b)"
proof -
  have b: "buf_wf b" "body_len p = word_of_int (wSize b)" using assms by (auto simp: sendable_packet_def)
  have len: "wSize b = int (length (used b))" by (rule wSize_used [OF b(1)])
  show s: "short (used b)" using b(1) len by (auto simp: buf_wf_def short_def)
  show "sint (body_len p) = int (length (used b))" using b(2) len sint_of_short [OF s] by simp
  show "block_read (mem b) 0 (length (used b)) = Inr (used b)" using block_read_used [OF b(1)] unfolding len nat_int .
qed

lemma packet_ok_sendable: "packet_ok p \<Longrightarrow> sendable_packet p"
  by (simp add: packet_ok_def)

lemma packet_ok_header:
  assumes "packet_ok p"
  shows "to_bytearray h p = Inr (header_of h p)" and "length (header_of h p) = DCMPI_PACKET_HEADER_SIZE"
    and "init_from_bytearray h' (header_of h p) blank_packet = Inr (p\<lparr>body := None\<rparr>)"
  using sendable_header [OF packet_ok_sendable [OF assms]] by (simp_all add: blank_packet_def DCMPIPacket_new_def)

lemma packet_ok_body:
  assumes "packet_ok p" and "body p = Some b"
  shows "sint (body_len p) = int (length (used b))" and "short (used b)"
  by (rule sendable_body [OF packet_ok_sendable [OF assms(1)] assms(2)])+

lemma receive_body_ok:
  assumes "packet_ok p" and "body p = Some b"
  shows "\<exists>p'. receive_body host (p\<lparr>body := None\<rparr>) (used b # ms) = Some (Inr (p', ms)) \<and> received_as host p p'"
proof -
  note sz = packet_ok_body [OF assms]
  obtain buf b' where b: "DCBuffer_sized host (int (length (used b))) = Inr buf"
    "bind_result (block_write (mem buf) 0 (used b)) (\<lambda>blk.
      setUsedSize (int (length (used b))) (if pBuf buf = None then buf else buf\<lparr>pBuf := Some blk\<rparr>)) = Inr b'"
    "used b' = used b" "isbigendian b' = host" using new_body [OF refl] by blast
  have "receive_body host (p\<lparr>body := None\<rparr>) (used b # ms) = Some (Inr (p\<lparr>body := Some b'\<rparr>, ms))"
    using b by (simp add: receive_body_def sz(1) ret_def)
  moreover have "received_as host p (p\<lparr>body := Some b'\<rparr>)" using assms(2) b by (simp add: received_as_def)
  ultimately show ?thesis by blast
qed

text \<open>A pass hands out the next packet or none; with room and a message it hands one out.\<close>

lemma receive_packet_ok:
  assumes "on_link h info inbox ps" and "\<forall>p\<in>set ps. packet_ok p" and "budget_ok mu"
  shows "\<exists>pk info' mu' inbox'. receive_packet host (req_done \<and> inbox \<noteq> []) (start_receive info) mu inbox
      = Some (Inr ((pk, info', mu'), inbox'))
    \<and> (case pk of None \<Rightarrow> mu' = mu \<and> on_link h info' inbox' ps \<and> (req_done \<and> has_room ps mu \<longrightarrow> ps = [])
       | Some p' \<Rightarrow> \<exists>p ps'. ps = p # ps' \<and> received_as host p p' \<and> on_link h info' inbox' ps' \<and> current_usage mu' = current_usage mu + held p')"
proof -
  let ?info = "start_receive info"
  have body: "\<exists>pk info' mu' inbox'. accept_packet host (p\<lparr>body := None\<rparr>) ?info mu inbox1 = Some (Inr ((pk, info', mu'), inbox'))
    \<and> (case pk of None \<Rightarrow> mu' = mu \<and> on_link h info' inbox' (p # ps') \<and> (req_done \<and> has_room (p # ps') mu \<longrightarrow> p # ps' = [])
       | Some p' \<Rightarrow> \<exists>q qs. p # ps' = q # qs \<and> received_as host q p' \<and> on_link h info' inbox' qs \<and> current_usage mu' = current_usage mu + held p')"
    if p: "packet_ok p" and inbox1: "inbox1 = (case body p of None \<Rightarrow> [] | Some b \<Rightarrow> [used b]) @ concat (map (messages h) ps')"
    for p ps' inbox1
  proof (cases "body p")
    case None
    with p have "packet_type p \<noteq> DCMPI_PACKET_TYPE_DCBUF" by (simp add: packet_ok_def)
    moreover have "received_as host p (p\<lparr>body := None\<rparr>)" using None by (simp add: received_as_def)
    ultimately show ?thesis using None inbox1 by (simp add: accept_packet_def ret_def on_link_def held_def)
  next
    case (Some b)
    with p have t: "packet_type p = DCMPI_PACKET_TYPE_DCBUF" by (simp add: packet_ok_def)
    note sz = packet_ok_body [OF p Some]
    have "sint (body_len p) < 2 ^ 31" "- (2 ^ 31) \<le> sint (body_len p)"
      using sz by (simp_all add: short_def)
    then have mu': "accumulate_if_not_exceeding_limit (sint (body_len p)) mu = Inr (if current_usage mu + sint (body_len p) \<le> memory_threshold mu
        then (True, mu\<lparr>current_usage := current_usage mu + sint (body_len p)\<rparr>) else (False, mu))"
      using accumulate_room [OF assms(3)] by blast
    obtain p' where p': "receive_body host (p\<lparr>body := None\<rparr>) inbox1 = Some (Inr (p', concat (map (messages h) ps')))"
      "received_as host p p'" using receive_body_ok [OF p Some] inbox1 Some by auto
    show ?thesis
    proof (cases "current_usage mu + sint (body_len p) \<le> memory_threshold mu")
      case True
      then show ?thesis using t mu' p' by (simp add: accept_packet_def ret_def on_link_def) (simp add: received_as_def held_def)
    next
      case False
      then show ?thesis using t mu' inbox1 Some by (auto simp: accept_packet_def ret_def on_link_def has_room_def)
    qed
  qed
  show ?thesis
  proof (cases "recv_state info = REQ_COMPLETED_READY_FOR_BODY")
    case True
    then obtain p ps' b where p: "ps = p # ps'" "body p = Some b" "bodyless_packet info = Some (p\<lparr>body := None\<rparr>)"
      "inbox = used b # concat (map (messages h) ps')" using assms(1) by (auto simp: on_link_def)
    have "receive_head host (req_done \<and> inbox \<noteq> []) ?info inbox = ret (Some (p\<lparr>body := None\<rparr>)) inbox"
      using True p by (simp add: receive_head_def start_receive_def)
    then have "receive_packet host (req_done \<and> inbox \<noteq> []) ?info mu inbox = accept_packet host (p\<lparr>body := None\<rparr>) ?info mu inbox"
      by (simp add: receive_packet_def ret_def)
    moreover have "packet_ok p" "inbox = (case body p of None \<Rightarrow> [] | Some b \<Rightarrow> [used b]) @ concat (map (messages h) ps')"
      using assms(2) p by simp_all
    ultimately show ?thesis using body [of p inbox ps'] unfolding p(1) by (simp only:)
  next
    case False
    then have i: "recv_state ?info = REQ_ACTIVE" "bodyless_packet ?info = None" "inbox = concat (map (messages h) ps)"
      using assms(1) by (cases "recv_state info"; simp add: on_link_def start_receive_def)+
    show ?thesis
    proof (cases "req_done \<and> inbox \<noteq> []")
      case no: False
      then have "receive_head host (req_done \<and> inbox \<noteq> []) ?info inbox = ret None inbox"
        unfolding receive_head_def i(1) by (simp only: no) simp
      moreover have "req_done \<longrightarrow> ps = []" using no i(3) by (auto simp: messages_def)
      ultimately show ?thesis using i no by (auto simp: receive_packet_def ret_def on_link_def)
    next
      case yes: True
      then obtain p ps' where p: "ps = p # ps'" using i(3) by (cases ps) auto
      have sp: "packet_ok p" using assms(2) p by simp
      let ?rest = "(case body p of None \<Rightarrow> [] | Some b \<Rightarrow> [used b]) @ concat (map (messages h) ps')"
      have inbox: "inbox = header_of h p # ?rest" unfolding i(3) p by (simp add: messages_def)
      have "receive_head host (req_done \<and> inbox \<noteq> []) ?info inbox = ret (Some (p\<lparr>body := None\<rparr>)) ?rest"
        using yes i(1) packet_ok_header(2) [OF sp, of h] packet_ok_header(3) [OF sp, where h = h and h' = host]
        unfolding receive_head_def inbox by simp
      then have "receive_packet host (req_done \<and> inbox \<noteq> []) ?info mu inbox = accept_packet host (p\<lparr>body := None\<rparr>) ?info mu ?rest"
        by (simp add: receive_packet_def ret_def)
      with body [OF sp refl, of ps'] show ?thesis unfolding p by (simp only:)
    qed
  qed
qed

text \<open>The ranks of a cluster provide the interface of \<open>Channel\<close>.\<close>

interpretation mpi_link: packet_channel "mpi_pass host" "on_link h" packet_ok "received_as host" "\<lambda>_. True" budget_ok for host h
  by unfold_locales (simp only: mpi_pass_def simp_thms, rule receive_packet_ok)

section \<open>Properties\<close>

text \<open>
  C2. Between two ranks MPI carries a queue of packets: whatever the byte orders of the two, however
  often the receiver asks before a message is there or has no memory for a body and puts the
  packet off, the packets it hands out are those that were sent, in order, without loss, gap or
  repetition, and never an error; the budgets are charged with exactly their bodies; and after as many
  passes with a message there and enough memory as there are packets, it has handed out all of them.
\<close>

theorem link_is_queue:
  assumes "\<forall>p\<in>set ps. packet_ok p" and "\<forall>(req_done, mu)\<in>set sched. budget_ok mu"
  shows "\<exists>ds info' inbox' k. channel_run (mpi_pass host) sched mpi_recv_info_new (concat (map (messages h) ps))
      = Some (Inr ((ds, info', sum_list (map held ds)), inbox'))
    \<and> list_all2 (received_as host) (take k ps) ds \<and> on_link h info' inbox' (drop k ps)
    \<and> (length ps \<le> good_passes ps sched \<longrightarrow> length ds = length ps)"
proof -
  have "on_link h mpi_recv_info_new (concat (map (messages h) ps)) ps" by (simp add: on_link_def mpi_recv_info_new_def)
  from mpi_link.run_is_queue [OF assms(2) this assms(1) subset_refl, of host] show ?thesis by simp
qed

text \<open>A packet of two bytes, for which there is no room at first.\<close>

theorem link_is_queue_witness:
  "\<exists>ds info' inbox' n. channel_run (mpi_pass True) [(True, \<lparr>memory_threshold = 1, current_usage = 0\<rparr>), (True, \<lparr>memory_threshold = 9, current_usage = 0\<rparr>)]
       mpi_recv_info_new (concat (map (messages False) [DCMPIPacket_new \<lparr>to_rank = 1, to_cluster_rank = 0, to_gftid = 2, to_port = ''i'',
         from_rank = 0, from_cluster_rank = 0, from_gftid = 1, from_port = ''o''\<rparr> DCMPI_PACKET_TYPE_DCBUF 2 (Some (restored False ''hi''))]))
     = Some (Inr ((ds, info', n), inbox')) \<and> length ds = 1"
proof -
  let ?p = "DCMPIPacket_new \<lparr>to_rank = 1, to_cluster_rank = 0, to_gftid = 2, to_port = ''i'',
         from_rank = 0, from_cluster_rank = 0, from_gftid = 1, from_port = ''o''\<rparr> DCMPI_PACKET_TYPE_DCBUF 2 (Some (restored False ''hi''))"
  let ?sched = "[(True, \<lparr>memory_threshold = 1, current_usage = 0\<rparr>), (True, \<lparr>memory_threshold = 9, current_usage = 0\<rparr>)]"
  have s: "short ''hi''" by (simp add: short_def)
  have "\<forall>p\<in>set [?p]. packet_ok p"
    using restored_wf(1) [OF s, of False]
    by (simp add: packet_ok_def sendable_packet_def DCMPIPacket_new_def port_ok_def DCMPI_PORT_MAXLEN_SIZE_def)
  moreover have "\<forall>(req_done, mu)\<in>set ?sched. budget_ok mu" by (simp add: budget_ok_def)
  ultimately obtain ds info' inbox' n where
    "channel_run (mpi_pass True) ?sched mpi_recv_info_new (concat (map (messages False) [?p])) = Some (Inr ((ds, info', n), inbox'))"
    "length [?p] \<le> good_passes [?p] ?sched \<longrightarrow> length ds = length [?p]"
    using link_is_queue [of "[?p]" ?sched True False] by blast
  moreover have "length [?p] \<le> good_passes [?p] ?sched"
    by (simp add: good_passes_def has_room_def DCMPIPacket_new_def)
  ultimately show ?thesis by (metis length_Cons list.size(3) One_nat_def)
qed

end
