(* ===== verification/ShutdownCode.thy ===== *)
theory ShutdownCode
  imports Shutdown RuntimeReceive
begin

text \<open>
  That the steps of the protocol of \<open>Shutdown\<close> are what the code of a process does: what it hands to
  its neighbours and what it counts when it tells the others that its filters are done and when
  such a message reaches it.
\<close>

section \<open>What a process hands to a neighbour\<close>

text \<open>
  The headers that process \<open>c r\<close> has given to the queue of the console, to the queue of the proxy for
  the gateway of another cluster, and to MPI for a process of its own cluster.
\<close>

fun emitted :: "bool \<Rightarrow> nat \<Rightarrow> node \<Rightarrow> runtime \<Rightarrow> char list list" where
  "emitted host c Console rt = map (header_of host) (q (out_queues (queues (rt_process rt)) Mpi_to_console_queue))"
| "emitted host c (Node d s) rt =
     (if d = c then map snd (filter (\<lambda>(k, _). k = int s) (started_sends rt))
      else if s = 0 then map (header_of host) (filter (\<lambda>p. sint (to_cluster_rank (address p)) = int d)
        (q (out_queues (queues (rt_process rt)) Mpi_to_proxy_queue)))
      else [])"

text \<open>What the protocol counts.\<close>

definition counts :: "runtime \<Rightarrow> int \<times> int \<times> bool \<times> int list" where
  "counts rt = (num_all_filters_done_received rt, all_filter_done_messages_routed rt,
     sent_all_filters_done_message rt, unfinished_local_gftids rt)"

lemma header_of_no_port:
  assumes "to_port (address p) = []" and "from_port (address p) = []"
  obtains hdr where "to_bytearray host p = Inr hdr" "header_of host p = hdr"
  using assms by (simp add: to_bytearray_def port_field_def header_of_def Let_def)

lemma send_mpi_header:
  assumes "to_port (address p) = []" and "from_port (address p) = []" and "body p = None"
  obtains rt' where "send_mpi host k p rt = Inr rt'" "started_sends rt' = started_sends rt @ [(k, header_of host p)]"
    "rt_process rt' = rt_process rt" "counts rt' = counts rt" "\<And>net c r. runs_as net c r rt' = runs_as net c r rt"
proof -
  obtain hdr where hdr: "to_bytearray host p = Inr hdr" "header_of host p = hdr"
    using header_of_no_port [OF assms(1,2)] .
  obtain c1 where c1: "addref RefCounted_new = Inr c1"
    by (simp add: addref_def RefCounted_new_def int4_ok_def)
  show thesis
    using that hdr c1 assms(3) by (simp add: send_mpi_def Let_def counts_def runs_as_def)
qed

lemma count_routed_rest [simp]:
  "started_sends (count_routed p rt) = started_sends rt" "rt_process (count_routed p rt) = rt_process rt"
  "runs_as net c r (count_routed p rt) = runs_as net c r rt" "route_of (count_routed p rt) a = route_of rt a"
  by (simp_all add: count_routed_def runs_as_def route_of_def)

lemma emitted_cong:
  "started_sends rt' = started_sends rt \<Longrightarrow> rt_process rt' = rt_process rt \<Longrightarrow> emitted host c m rt' = emitted host c m rt"
  by (cases m) simp_all

text \<open>A process that passes a packet without a body on gives it to the next process of its way.\<close>

lemma deliver_elsewhere_hop:
  assumes "net_ok net" and "is_node net (Node c r)" and "runs_as net c r rt"
    and "is_node net b" and "b \<noteq> Node c r" and "addressed_to net b (address p)"
    and "to_port (address p) = []" and "from_port (address p) = []" and "body p = None"
  obtains rt' where "deliver_elsewhere host p rt = Inr rt'" "runs_as net c r rt'" "counts rt' = counts (count_routed p rt)"
    "\<And>m. is_node net m \<Longrightarrow> m \<noteq> Node c r \<Longrightarrow>
      emitted host c m rt' = emitted host c m rt @ (if m = hop b (Node c r) then [header_of host p] else [])"
proof -
  let ?rt = "count_routed p rt"
  note w = addressed_words [OF assms(1,4,6)]
  have run: "mpi_rank rt = int r" "cluster_rank rt = int c" "cluster_offset rt = int (offset_of net c)"
    "handles_console rt = (c = 0 \<and> r = 0)" "use_proxy rt = (r = 0 \<and> 1 < length (cluster_sizes net))"
    using assms(3) unfolding runs_as_def by auto
  have proxy: "use_proxy rt" if "r = 0" "int c \<noteq> cluster_of b"
    using that run(5) assms(2,4) by (cases b; cases c) auto
  have eq: "deliver_elsewhere host p rt = (case route_of rt (address p) of
           To_console \<Rightarrow> Inr (put_out Mpi_to_console_queue p ?rt)
         | To_proxy \<Rightarrow> Inr (put_out Mpi_to_proxy_queue p ?rt)
         | To_mpi k \<Rightarrow> send_mpi host k p ?rt)"
    by (simp add: deliver_elsewhere_def Let_def)
  show thesis
  proof (cases "route_of rt (address p)")
    case To_console
    then have h: "hop b (Node c r) = Console" "c = 0"
      using w run assms(5) by (cases b; auto simp: route_of_def split: if_splits)+
    let ?rt' = "put_out Mpi_to_console_queue p ?rt"
    have "emitted host c m ?rt' = emitted host c m rt @ (if m = hop b (Node c r) then [header_of host p] else [])" for m
      unfolding h(1) by (cases m) (simp_all add: put_out_def Let_def Queue_put_def)
    moreover have "runs_as net c r ?rt'" "counts ?rt' = counts ?rt"
      using assms(3) by (simp_all add: put_out_def Let_def runs_as_def counts_def count_routed_def)
    ultimately show thesis using that eq To_console by simp
  next
    case To_proxy
    then have r: "r = 0" "cluster_of b \<noteq> int c"
      using w run by (auto simp: route_of_def split: if_splits)
    have ncon: "\<not> (b = Console \<and> c = 0)" using To_proxy w run r by (auto simp: route_of_def)
    obtain d where d: "cluster_of b = int d" "d \<noteq> c" using r by (cases b) auto
    have h: "hop b (Node c r) = Node d 0" using r d ncon by (cases b) auto
    let ?rt' = "put_out Mpi_to_proxy_queue p ?rt"
    have "emitted host c m ?rt' = emitted host c m rt @ (if m = hop b (Node c r) then [header_of host p] else [])" for m
      unfolding h using d w(2) by (cases m) (auto simp: put_out_def Let_def Queue_put_def)
    moreover have "runs_as net c r ?rt'" "counts ?rt' = counts ?rt"
      using assms(3) by (simp_all add: put_out_def Let_def runs_as_def counts_def count_routed_def)
    ultimately show thesis using that eq To_proxy by simp
  next
    case (To_mpi k)
    have h: "hop b (Node c r) = Node c (nat k) \<and> 0 \<le> k"
      using To_mpi w run assms(5) proxy by (cases b) (auto simp: route_of_def split: if_splits)
    obtain rt' where rt': "send_mpi host k p ?rt = Inr rt'" "started_sends rt' = started_sends ?rt @ [(k, header_of host p)]"
        "rt_process rt' = rt_process ?rt" "counts rt' = counts ?rt" "\<And>net c r. runs_as net c r rt' = runs_as net c r ?rt"
      using send_mpi_header [OF assms(7-9), of host k ?rt] by blast
    have "emitted host c m rt' = emitted host c m rt @ (if m = hop b (Node c r) then [header_of host p] else [])" for m
      using h rt'(2,3) by (cases m) auto
    then show thesis using that eq To_mpi rt' assms(3) by simp
  qed
qed

section \<open>The ranks to tell\<close>

lemma ranks_of_nodes:
  "dcmpi_rank_of net ` nodes net
     = {(if has_console net then - 1 else 0) ..< (if has_console net then - 1 else 0) + total_ranks net}" (is "?f ` _ = ?I")
proof -
  have sub: "?f ` nodes net \<subseteq> ?I"
  proof
    fix k assume "k \<in> ?f ` nodes net"
    then obtain n where n: "is_node net n" "k = dcmpi_rank_of net n" by (auto simp: nodes_def)
    then show "k \<in> ?I"
      using offset_bound [of _ net] by (cases n) (fastforce simp: total_ranks_def)+
  qed
  have "inj_on ?f (nodes net)" using dcmpi_rank_inj by (auto simp: inj_on_def nodes_def)
  then have "card (?f ` nodes net) = card (nodes net)" by (rule card_image)
  also have "int \<dots> = total_ranks net" by (rule card_nodes)
  finally have "card (?f ` nodes net) = card ?I" by simp
  with sub show ?thesis by (intro card_subset_eq) simp_all
qed

lemma other_ranks_nodes:
  assumes "is_node net (Node c r)" and "runs_as net c r rt"
  obtains bs where "other_ranks rt = map (dcmpi_rank_of net) bs" "set bs = nodes net - {Node c r}" "distinct bs"
proof -
  let ?f = "dcmpi_rank_of net" and ?first = "if has_console net then - 1 else 0 :: int"
  let ?all = "map (\<lambda>i. ?first + int i) [0..<nat (total_ranks net)]"
  have "set ?all = {?first ..< ?first + total_ranks net}"
  proof (intro equalityI subsetI)
    fix k assume "k \<in> {?first ..< ?first + total_ranks net}"
    then have "k = ?first + int (nat (k - ?first))" "nat (k - ?first) < nat (total_ranks net)" by auto
    then show "k \<in> set ?all" unfolding set_map set_upt by (intro image_eqI [of _ _ "nat (k - ?first)"]) simp_all
  qed auto
  then have all: "set ?all = ?f ` nodes net" unfolding ranks_of_nodes .
  have inj: "inj_on ?f (nodes net)" using dcmpi_rank_inj by (auto simp: inj_on_def nodes_def)
  have others: "other_ranks rt = filter (\<lambda>k. k \<noteq> ?f (Node c r)) ?all"
    using assms(2) unfolding runs_as_def by (simp add: other_ranks_def Let_def)
  let ?g = "the_inv_into (nodes net) ?f"
  have gf: "?f (?g k) = k" "?g k \<in> nodes net" if "k \<in> set ?all" for k
    using that all f_the_inv_into_f [OF inj] the_inv_into_into [OF inj, of k "nodes net"] by auto
  show thesis
  proof (rule that)
    show "other_ranks rt = map ?f (map ?g (other_ranks rt))"
    proof -
      have "k \<in> set ?all" if "k \<in> set (other_ranks rt)" for k using that unfolding others by simp
      then have "map (\<lambda>k. ?f (?g k)) (other_ranks rt) = other_ranks rt" using gf(1) by (intro map_idI) simp
      then show ?thesis by (simp add: comp_def)
    qed
    show "set (map ?g (other_ranks rt)) = nodes net - {Node c r}"
    proof (intro equalityI subsetI)
      fix n assume "n \<in> set (map ?g (other_ranks rt))"
      then obtain k where k: "k \<in> set (other_ranks rt)" "n = ?g k" unfolding set_map by (elim imageE)
      then have "k \<in> set ?all" "k \<noteq> ?f (Node c r)" unfolding others set_filter by blast+
      then have "n \<in> nodes net" "?f n \<noteq> ?f (Node c r)" unfolding k(2) using gf by (blast, metis)
      then show "n \<in> nodes net - {Node c r}" by blast
    next
      fix n assume n: "n \<in> nodes net - {Node c r}"
      then have "?f n \<in> set (other_ranks rt)"
        using all inj assms(1) unfolding others by (auto simp: inj_on_def nodes_def)
      moreover have "?g (?f n) = n" using n the_inv_into_f_f [OF inj] by blast
      ultimately show "n \<in> set (map ?g (other_ranks rt))" by force
    qed
    have "distinct ?all" by (simp add: distinct_map inj_on_def)
    then have "distinct (other_ranks rt)" unfolding others by simp
    moreover have "inj_on ?g (set (other_ranks rt))"
    proof (rule inj_on_inverseI)
      fix k assume "k \<in> set (other_ranks rt)"
      then have "k \<in> set ?all" unfolding others set_filter by blast
      then show "?f (?g k) = k" by (rule gf(1))
    qed
    ultimately show "distinct (map ?g (other_ranks rt))" by (simp add: distinct_map)
  qed
qed

section \<open>Telling the others\<close>

text \<open>A packet that says that the filters of process \<open>a\<close> are done, on its way to \<open>b\<close>.\<close>

definition done_from :: "network \<Rightarrow> node \<Rightarrow> node \<Rightarrow> DCMPIPacket \<Rightarrow> bool" where
  "done_from net a b p \<longleftrightarrow> packet_type p = DCMPI_PACKET_TYPE_ALL_MY_FILTERS_DONE \<and> addressed_to net b (address p)
     \<and> from_rank (address p) = word_of_int (dcmpi_rank_of net a)
     \<and> to_port (address p) = [] \<and> from_port (address p) = [] \<and> body p = None"

text \<open>The rank of a cluster that the code has noted for every process with filters.\<close>

definition clusters_known :: "network \<Rightarrow> (int, int) std_map \<Rightarrow> bool" where
  "clusters_known net clusterrank \<longleftrightarrow>
     (\<forall>b\<in>nodes net. map_get_def (dcmpi_rank_of net b) 0 clusterrank = cluster_of b)"

lemma done_packet_from:
  assumes "runs_as net c r rt" and "clusters_known net clusterrank" and "is_node net b"
  shows "done_from net (Node c r) b (done_packet rt clusterrank (dcmpi_rank_of net b))"
  using assms by (simp add: done_from_def done_packet_def DCMPIPacket_new_def addressed_to_def clusters_known_def runs_as_def nodes_def)

lemma from_rank_node:
  assumes "net_ok net" and "is_node net a" and "done_from net a b p"
  shows "sint (from_rank (address p)) = dcmpi_rank_of net a"
proof -
  have "int4_ok (dcmpi_rank_of net a)" using dcmpi_rank_range [OF assms(1,2)] by (simp add: int4_ok_def)
  then show ?thesis using assms(3) sint_int4 by (simp add: done_from_def)
qed

lemma done_counts:
  assumes "net_ok net" and "is_node net (Node c r)" and "runs_as net c r rt" and "is_node net a" and "done_from net a b p"
  shows "counts (count_routed p rt) = (num_all_filters_done_received rt,
    all_filter_done_messages_routed rt + (if a = Node c r then 0 else 1), sent_all_filters_done_message rt, unfinished_local_gftids rt)"
proof -
  have "this_dcmpi_rank rt = dcmpi_rank_of net (Node c r)" using assms(3) by (simp add: runs_as_def)
  then have "sint (from_rank (address p)) = this_dcmpi_rank rt \<longleftrightarrow> a = Node c r"
    unfolding from_rank_node [OF assms(1,4,5)] using dcmpi_rank_inj [OF assms(4,2)] by auto
  then show ?thesis using assms(5) by (simp add: counts_def count_routed_def done_from_def)
qed

text \<open>The loop over the other ranks.\<close>

lemma tell_loop:
  assumes "net_ok net" and "is_node net (Node c r)" and "clusters_known net clusterrank"
    and "set bs \<subseteq> nodes net - {Node c r}" and "runs_as net c r rt"
    and "\<And>k. done_packet rt clusterrank k = done_packet rt0 clusterrank k"
  shows "\<exists>rt'. fold_result (\<lambda>k rt. deliver_elsewhere host (done_packet rt clusterrank k) rt) (map (dcmpi_rank_of net) bs) rt = Inr rt'
    \<and> runs_as net c r rt' \<and> counts rt' = counts rt
    \<and> (\<forall>m\<in>nodes net - {Node c r}. emitted host c m rt' = emitted host c m rt
        @ map (\<lambda>b. header_of host (done_packet rt0 clusterrank (dcmpi_rank_of net b))) (filter (\<lambda>b. m = hop b (Node c r)) bs))"
  using assms(4-6)
proof (induction bs arbitrary: rt)
  case (Cons b bs)
  let ?p = "done_packet rt0 clusterrank (dcmpi_rank_of net b)"
  have b: "is_node net b" "b \<noteq> Node c r" using Cons.prems(1) by (auto simp: nodes_def)
  have src: "done_from net (Node c r) b ?p"
    using done_packet_from [OF Cons.prems(2) assms(3) b(1)] unfolding Cons.prems(3) .
  note d = src [unfolded done_from_def]
  obtain rt1 where rt1: "deliver_elsewhere host ?p rt = Inr rt1" "runs_as net c r rt1" "counts rt1 = counts (count_routed ?p rt)"
    "\<And>m. is_node net m \<Longrightarrow> m \<noteq> Node c r \<Longrightarrow>
      emitted host c m rt1 = emitted host c m rt @ (if m = hop b (Node c r) then [header_of host ?p] else [])"
    using deliver_elsewhere_hop [OF assms(1,2) Cons.prems(2) b, of ?p host] d by blast
  have cnt: "counts rt1 = counts rt"
    unfolding rt1(3) done_counts [OF assms(1,2) Cons.prems(2) assms(2) src] by (simp add: counts_def)
  have same: "done_packet rt1 clusterrank k = done_packet rt0 clusterrank k" for k
    using rt1(2) Cons.prems(2) Cons.prems(3) [of k] by (simp add: runs_as_def done_packet_def)
  obtain rt' where "fold_result (\<lambda>k rt. deliver_elsewhere host (done_packet rt clusterrank k) rt) (map (dcmpi_rank_of net) bs) rt1 = Inr rt'"
    "runs_as net c r rt'" "counts rt' = counts rt1"
    "\<forall>m\<in>nodes net - {Node c r}. emitted host c m rt' = emitted host c m rt1
        @ map (\<lambda>b. header_of host (done_packet rt0 clusterrank (dcmpi_rank_of net b))) (filter (\<lambda>b. m = hop b (Node c r)) bs)"
    using Cons.IH [OF _ rt1(2) same] Cons.prems(1) by auto
  then show ?case
    using rt1(1,4) cnt by (intro exI [of _ rt']) (auto simp: nodes_def Cons.prems(3))
qed simp

section \<open>Properties\<close>

text \<open>The counters of a process are those of the protocol.\<close>

definition agrees :: "shutdown \<Rightarrow> node \<Rightarrow> runtime \<Rightarrow> bool" where
  "agrees s n rt \<longleftrightarrow> received s n = num_all_filters_done_received rt \<and> routed s n = all_filter_done_messages_routed rt
     \<and> told s n = sent_all_filters_done_message rt \<and> running s n = (unfinished_local_gftids rt \<noteq> [])"

lemma agrees_counts: "counts rt' = counts rt \<Longrightarrow> agrees s n rt' = agrees s n rt"
  by (simp add: agrees_def counts_def)

text \<open>
  C14. A message of another process that its filters are done does at a process what the step
  \<open>take_hop\<close> of the protocol says: at its destination it is counted as received and handed to nobody;
  elsewhere it is counted as routed and handed, with nothing else, to the next process of its way.
\<close>

theorem done_message_hop:
  assumes "net_ok net" and "is_node net (Node c r)" and "runs_as net c r rt" and "(a, b) \<in> pairs net" and "a \<noteq> Node c r"
    and "done_from net a b p" and "agrees s (Node c r) rt"
  shows "\<exists>rt'. deliver host p rt = Inr rt' \<and> runs_as net c r rt' \<and> agrees (take_hop a b (Node c r) s) (Node c r) rt'
    \<and> (\<forall>m\<in>nodes net - {Node c r}. emitted host c m rt'
        = emitted host c m rt @ (if Node c r \<noteq> b \<and> m = hop b (Node c r) then [header_of host p] else []))"
proof -
  have ab: "is_node net a" "is_node net b" using assms(4) by (auto simp: pairs_def)
  note d = assms(6) [unfolded done_from_def]
  have adr: "addressed_to net b (address p)" using d by blast
  have me: "this_dcmpi_rank rt = dcmpi_rank_of net (Node c r)" using assms(3) by (simp add: runs_as_def)
  have dest: "sint (to_rank (address p)) = this_dcmpi_rank rt \<longleftrightarrow> Node c r = b"
    unfolding addressed_words(1) [OF assms(1) ab(2) adr] me using dcmpi_rank_inj [OF ab(2) assms(2)] by auto
  show ?thesis
  proof (cases "Node c r = b")
    case True
    have del: "deliver host p rt = Inr (rt\<lparr>num_all_filters_done_received := num_all_filters_done_received rt + 1\<rparr>)" (is "_ = Inr ?rt'")
      using True dest d by (simp add: deliver_def deliver_in_def packet_types)
    have "emitted host c m ?rt' = emitted host c m rt" for m by (rule emitted_cong) simp_all
    then show ?thesis
      using del True assms(3,7) by (intro exI [of _ ?rt']) (simp add: runs_as_def agrees_def take_hop_def Let_def)
  next
    case False
    obtain rt' where rt': "deliver_elsewhere host p rt = Inr rt'" "runs_as net c r rt'" "counts rt' = counts (count_routed p rt)"
      "\<And>m. is_node net m \<Longrightarrow> m \<noteq> Node c r \<Longrightarrow>
        emitted host c m rt' = emitted host c m rt @ (if m = hop b (Node c r) then [header_of host p] else [])"
      using deliver_elsewhere_hop [OF assms(1-3) ab(2) False [symmetric] adr, of host] d by blast
    have "agrees (take_hop a b (Node c r) s) (Node c r) rt'"
      using rt'(3) assms(5,7) False unfolding done_counts [OF assms(1-3) ab(1) assms(6)]
      by (simp add: agrees_def counts_def take_hop_def Let_def)
    then show ?thesis using rt' dest False by (intro exI [of _ rt']) (simp add: deliver_def nodes_def)
  qed
qed

text \<open>The message of the last process of \<open>two_clusters\<close> to the console, at rank 0 of cluster 0.\<close>

definition five_ranks :: "(int, int) std_map" where
  "five_ranks = [(- 1, 0), (0, 0), (1, 0), (2, 1), (3, 1)]"

definition filters_finished :: shutdown where
  "filters_finished = shutdown_start\<lparr>running := \<lambda>_. False\<rparr>"

lemma five_ranks_known: "clusters_known two_clusters five_ranks"
  unfolding clusters_known_def
proof
  fix b assume "b \<in> nodes two_clusters"
  then show "map_get_def (dcmpi_rank_of two_clusters b) 0 five_ranks = cluster_of b"
    by (cases b) (auto simp: nodes_def two_clusters_def five_ranks_def offset_of_def map_get_def_def less_Suc_eq numeral_2_eq_2)
qed

lemma process_agrees: "agrees filters_finished n (process_of c r)"
  by (simp add: agrees_def filters_finished_def shutdown_start_def process_of_def)

lemma two_clusters_ok: "net_ok two_clusters"
  by (simp add: two_clusters_def net_ok_def)

theorem done_message_hop_witness:
  "\<exists>rt'. deliver False (done_packet (process_of 1 1) five_ranks (- 1)) (process_of 0 0) = Inr rt'
     \<and> agrees (take_hop (Node 1 1) Console (Node 0 0) filters_finished) (Node 0 0) rt'"
proof -
  have n: "is_node two_clusters (Node 0 0)" "is_node two_clusters (Node 1 1)" "is_node two_clusters Console"
    "(Node 1 1, Console) \<in> pairs two_clusters" "Node 1 1 \<noteq> Node 0 0"
    by (simp_all add: two_clusters_def pairs_def)
  have p: "done_from two_clusters (Node 1 1) Console (done_packet (process_of 1 1) five_ranks (- 1))"
    using done_packet_from [OF process_of_runs [OF n(2)] five_ranks_known n(3)] by simp
  show ?thesis
    using done_message_hop [OF two_clusters_ok n(1) process_of_runs [OF n(1)] n(4,5) p process_agrees] by blast
qed



end
