(* ===== verification/PacketStream.thy ===== *)
theory PacketStream
  imports RuntimeReceive
begin

text \<open>
  Packets on a socket between two processes: a header, then the body if there is one. The threads
  at the ends of the console's socket and of the proxy's write and read them with \<open>DC_write_all\<close> and
  \<open>DC_read_all\<close> (\<open>src/src/dcmpi_util.cpp\<close>); here is what such a stream means.
\<close>

section \<open>Descriptors that work\<close>

text \<open>Every call writes something, and there are enough of them for \<open>n\<close> bytes.\<close>

definition write_ready :: "nat \<Rightarrow> out_fd \<Rightarrow> bool" where
  "write_ready n fd \<longleftrightarrow> (\<forall>e\<in>set (out_events fd). \<exists>k. e = Write_upto (Suc k)) \<and> n \<le> length (out_events fd)"

definition read_ready :: "nat \<Rightarrow> in_fd \<Rightarrow> bool" where
  "read_ready n fd \<longleftrightarrow> no_errors (in_events fd) \<and> n \<le> length (in_events fd)"

lemma write_loop_all:
  assumes "bs \<noteq> []" and "\<forall>e\<in>set evs. \<exists>k. e = Write_upto (Suc k)" and "length bs + n \<le> length evs"
  shows "\<exists>evs'. write_loop bs evs out = Some (Inr (0, \<lparr>out_events = evs', outgoing = out @ bs\<rparr>))
    \<and> set evs' \<subseteq> set evs \<and> n \<le> length evs'"
  using assms
proof (induction evs arbitrary: bs out)
  case (Cons ev evs)
  then obtain k where ev: "ev = Write_upto (Suc k)" by auto
  have pos: "1 \<le> length bs" using Cons.prems(1) by (simp add: Suc_le_eq)
  show ?case
  proof (cases "length bs \<le> Suc k")
    case True
    then have "write_loop bs (ev # evs) out = Some (Inr (0, \<lparr>out_events = evs, outgoing = out @ bs\<rparr>))"
      by (simp add: ev Let_def min_def)
    moreover have "n \<le> length evs" using Cons.prems(3) pos unfolding list.size by linarith
    ultimately show ?thesis by auto
  next
    case False
    have step: "write_loop bs (ev # evs) out = write_loop (drop (Suc k) bs) evs (out @ take (Suc k) bs)"
      using False by (simp add: ev Let_def min_def)
    have ne: "drop (Suc k) bs \<noteq> []" using False by simp
    have evs: "\<forall>e\<in>set evs. \<exists>k. e = Write_upto (Suc k)" using Cons.prems(2) by simp
    have "length (drop (Suc k) bs) + n \<le> length evs" using Cons.prems(3) False by simp
    from Cons.IH [OF ne evs this, of "out @ take (Suc k) bs"] show ?thesis
      unfolding step append_assoc append_take_drop_id by auto
  qed
qed simp

lemma DC_write_all_ready:
  assumes "write_ready (length bs + n) fd"
  obtains fd' where "DC_write_all bs fd = Some (Inr (0, fd'))" "outgoing fd' = outgoing fd @ bs" "write_ready n fd'"
proof (cases "bs = []")
  case True
  with that [of fd] assms show thesis by (simp add: DC_write_all_def write_ready_def)
next
  case False
  from write_loop_all [OF False, of "out_events fd" n "outgoing fd"] assms obtain evs' where
    "write_loop bs (out_events fd) (outgoing fd) = Some (Inr (0, \<lparr>out_events = evs', outgoing = outgoing fd @ bs\<rparr>))"
    "set evs' \<subseteq> set (out_events fd)" "n \<le> length evs'"
    unfolding write_ready_def by blast
  with that [of "\<lparr>out_events = evs', outgoing = outgoing fd @ bs\<rparr>"] False assms show thesis
    by (auto simp: DC_write_all_def write_ready_def)
qed

lemma DC_read_all_ready:
  assumes "read_ready (length bs + n) fd" and "incoming fd = bs @ rest"
  obtains fd' eof where "DC_read_all errno (length bs) fd = Some (Inr ((0, eof, bs), fd'))" "incoming fd' = rest" "read_ready n fd'"
proof -
  have "length bs \<le> length (in_events fd)" "length bs \<le> length (incoming fd)" "no_errors (in_events fd)"
    using assms by (simp_all add: read_ready_def)
  from DC_read_all_all [OF this, of errno] obtain fd' eof where
    "DC_read_all errno (length bs) fd = Some (Inr ((0, eof, take (length bs) (incoming fd)), fd'))"
    "incoming fd' = drop (length bs) (incoming fd)" "no_errors (in_events fd')"
    "length (in_events fd) \<le> length (in_events fd') + length bs" .
  with that [of eof fd'] assms show thesis by (simp add: read_ready_def)
qed

text \<open>A call that returns has used up an event, unless nothing is asked for.\<close>

lemma read_loop_events:
  "read_loop errno n got evs inc = Some (Inr (r, fd')) \<Longrightarrow> length (in_events fd') < length evs"
  by (induction errno n got evs inc rule: read_loop.induct) (auto simp: Let_def split: if_splits)

lemma DC_read_all_events:
  "DC_read_all errno n fd = Some (Inr (r, fd')) \<Longrightarrow> length (in_events fd') \<le> length (in_events fd)
     \<and> (0 < n \<longrightarrow> length (in_events fd') < length (in_events fd))"
  using read_loop_events [of errno n "[]" "in_events fd" "incoming fd" r fd']
  by (auto simp: DC_read_all_def split: if_splits)

section \<open>A packet on the stream\<close>

definition stream :: "bool \<Rightarrow> DCMPIPacket list \<Rightarrow> char list" where
  "stream h ps = concat (map (\<lambda>p. concat (messages h p)) ps)"

lemma stream_simps [simp]: "stream h [] = []" "stream h (p # ps) = concat (messages h p) @ stream h ps"
  by (simp_all add: stream_def)

lemma write_body_ready:
  assumes "sendable_packet p" and "body p = Some b" and "write_ready (length (used b) + n) fd"
  obtains fd' where "dcmpi_socket_write_dcbuffer p fd = Some (Inr ((), fd'))" "outgoing fd' = outgoing fd @ used b" "write_ready n fd'"
proof -
  note b = sendable_body [OF assms(1,2)]
  obtain fd' where "DC_write_all (used b) fd = Some (Inr (0, fd'))" "outgoing fd' = outgoing fd @ used b" "write_ready n fd'"
    using DC_write_all_ready [OF assms(3)] .
  with that assms(2) b show thesis by (simp add: dcmpi_socket_write_dcbuffer_def)
qed

lemma read_body_ready:
  assumes "sendable_packet p" and "body p = Some b" and "incoming fd = used b @ rest" and "read_ready (length (used b) + n) fd"
    and "body_len p' = body_len p"
  obtains fd' b' where "dcmpi_socket_read_dcbuffer host errno p' fd = Some (Inr (p'\<lparr>body := Some b'\<rparr>, fd'))"
    "used b' = used b" "isbigendian b' = host" "incoming fd' = rest" "read_ready n fd'"
proof -
  obtain fd' eof where r: "DC_read_all errno (length (used b)) fd = Some (Inr ((0, eof, used b), fd'))" "incoming fd' = rest" "read_ready n fd'"
    using DC_read_all_ready [OF assms(4,3)] .
  have "sint (body_len p') = int (length (used b))" unfolding assms(5) by (rule sendable_body(1) [OF assms(1,2)])
  from socket_read_body [OF this r(1), of host] that r(2,3) show thesis by blast
qed

lemma read_dcbuffer_events:
  assumes "dcmpi_socket_read_dcbuffer host errno p fd = Some (Inr (p', fd'))"
  shows "length (in_events fd') \<le> length (in_events fd)"
proof -
  let ?sz = "sint (body_len p)"
  obtain buf where buf: "DCBuffer_sized host ?sz = Inr buf" and sz: "\<not> ?sz < 0"
    using assms by (auto simp: dcmpi_socket_read_dcbuffer_def Let_def split: sum.splits if_splits)
  let ?fill = "\<lambda>bytes. bind_result (block_write (mem buf) 0 bytes)
    (\<lambda>blk. setUsedSize ?sz (if pBuf buf = None then buf else buf\<lparr>pBuf := Some blk\<rparr>))"
  obtain rc eof bytes fd1 where r: "DC_read_all errno (nat ?sz) fd = Some (Inr ((rc, eof, bytes), fd1))"
    and f: "(if rc \<noteq> 0 then Some (Inl Exit_failure)
      else case ?fill bytes of Inl e \<Rightarrow> Some (Inl e) | Inr buf' \<Rightarrow> Some (Inr (p\<lparr>body := Some buf'\<rparr>, fd1))) = Some (Inr (p', fd'))"
    using assms sz unfolding dcmpi_socket_read_dcbuffer_def Let_def buf sum.case if_False bind_io_Inr_iff
    by (simp only: if_False bind_io_Inr_iff) (clarsimp simp del: bind_result.simps)
  from f have "fd1 = fd'" by (cases "?fill bytes") (simp_all split: if_splits)
  with DC_read_all_events [OF r] show ?thesis by simp
qed

section \<open>What packets hold of budgets\<close>

lemma held_body: "sendable_packet p \<Longrightarrow> (packet_type p = DCMPI_PACKET_TYPE_DCBUF \<Longrightarrow> body p \<noteq> None) \<Longrightarrow> 0 \<le> held p"
  using sendable_body(1) [of p] by (auto simp: held_def)

definition usage_of :: "(int \<rightharpoonup> MemUsage) \<Rightarrow> int \<Rightarrow> int" where
  "usage_of mus m = (case mus m of None \<Rightarrow> 0 | Some mu \<Rightarrow> current_usage mu)"

text \<open>What the packets hold of budget \<open>m\<close>.\<close>

definition held_by :: "(DCMPIPacket \<Rightarrow> int) \<Rightarrow> int \<Rightarrow> DCMPIPacket list \<Rightarrow> int" where
  "held_by source m ps = sum_list (map held (filter (\<lambda>p. source p = m) ps))"

definition can_release :: "(DCMPIPacket \<Rightarrow> int) \<Rightarrow> DCMPIPacket list \<Rightarrow> (int \<rightharpoonup> MemUsage) \<Rightarrow> bool" where
  "can_release source ps mus \<longleftrightarrow> (\<forall>p\<in>set ps. mus (source p) \<noteq> None)
     \<and> (\<forall>m. held_by source m ps \<le> usage_of mus m \<and> usage_of mus m < 2 ^ 63)"

lemma held_by_simps [simp]:
  "held_by source m [] = 0"
  "held_by source m (p # ps) = (if source p = m then held p else 0) + held_by source m ps"
  by (simp_all add: held_by_def)

lemma reduce_held:
  assumes "0 \<le> n" and "n \<le> current_usage mu" and "current_usage mu < 2 ^ 63"
  shows "reduce n mu = Inr (mu\<lparr>current_usage := current_usage mu - n\<rparr>)"
  using assms by (simp add: reduce_def int8_ok_def)

text \<open>What a thread does with the budget of a body that it has written.\<close>

definition release_body :: "(DCMPIPacket \<Rightarrow> int) \<Rightarrow> DCMPIPacket \<Rightarrow> (int \<rightharpoonup> MemUsage) \<Rightarrow> (int \<rightharpoonup> MemUsage) result" where
  "release_body source p mus =
     (case mus (source p) of
        None \<Rightarrow> Inl Undefined_behaviour
      | Some mu \<Rightarrow> bind_result (reduce (sint (body_len p)) mu) (\<lambda>mu'. Inr (mus(source p \<mapsto> mu'))))"

lemma release_body_ok:
  assumes "packet_type p = DCMPI_PACKET_TYPE_DCBUF" and "can_release source (p # ps) mus" and "\<forall>p\<in>set (p # ps). 0 \<le> held p"
  obtains mus' where "release_body source p mus = Inr mus'" "can_release source ps mus'"
    "\<forall>m. usage_of mus' m = usage_of mus m - held_by source m [p]"
proof -
  obtain mu where mu: "mus (source p) = Some mu" using assms(2) by (auto simp: can_release_def)
  have nn: "0 \<le> held p" "0 \<le> held_by source m ps" for m
    using assms(3) by (auto simp: held_by_def intro!: sum_list_nonneg)
  have le: "held_by source m (p # ps) \<le> usage_of mus m" "usage_of mus m < 2 ^ 63" for m
    using assms(2) unfolding can_release_def by blast+
  have red: "reduce (sint (body_len p)) mu = Inr (mu\<lparr>current_usage := current_usage mu - held p\<rparr>)"
    using le [of "source p"] nn(1) nn(2) [of "source p"] mu assms(1) by (simp add: held_def usage_of_def reduce_held)
  let ?mus = "mus(source p \<mapsto> mu\<lparr>current_usage := current_usage mu - held p\<rparr>)"
  have u: "usage_of ?mus m = usage_of mus m - held_by source m [p]" for m
    using mu by (auto simp: usage_of_def)
  have "can_release source ps ?mus"
    unfolding can_release_def u
  proof (intro conjI allI ballI)
    fix m
    show "held_by source m ps \<le> usage_of mus m - held_by source m [p]" "usage_of mus m - held_by source m [p] < 2 ^ 63"
      using le [of m] nn(1) by auto
  next
    fix p' assume "p' \<in> set ps"
    then show "?mus (source p') \<noteq> None" using assms(2) by (auto simp: can_release_def)
  qed
  moreover have "release_body source p mus = Inr ?mus" by (simp add: release_body_def mu red)
  ultimately show thesis using that u by blast
qed

end
