(* ===== verification/Console.thy ===== *)
theory Console
  imports PacketStream
begin

text \<open>
  The four threads between the process of the console and rank 0: \<open>ConsoleToMPIThread\<close> and
  \<open>MPIFromConsoleThread\<close> for what the console filter writes, \<open>MPIToConsoleThread\<close> and
  \<open>ConsoleFromMPIThread\<close> for what is written to it (the headers of these names in \<open>src/src\<close>).

  The argument of a writing thread is what it will get from its queue, the null pointer that stops
  it as \<open>None\<close>; when the list is used up the thread waits. The budgets are those that the thread
  sees: a thread that waits for memory does not go on. Accepting the connection and closing it are
  system calls.
\<close>

section \<open>Writing\<close>

definition write_header :: "bool \<Rightarrow> failure \<Rightarrow> DCMPIPacket \<Rightarrow> out_fd \<Rightarrow> (unit, out_fd) io" where
  "write_header host failed p fd =
     (case to_bytearray host p of
        Inl e \<Rightarrow> fail e
      | Inr hdr \<Rightarrow> bind_io (DC_write_all hdr fd) (\<lambda>rc fd'. if rc \<noteq> 0 then fail failed else ret () fd'))"

definition close_packet :: "int \<Rightarrow> int \<Rightarrow> DCMPIPacket" where
  "close_packet dest src = DCMPIPacket_new \<lparr>to_rank = word_of_int dest, to_cluster_rank = 0, to_gftid = - 1, to_port = [],
     from_rank = word_of_int src, from_cluster_rank = 0, from_gftid = - 1, from_port = []\<rparr> DCMPI_PACKET_TYPE_CLOSE 0 None"

text \<open>\<open>mu\<close> is \<open>local_console_outgoing_memusage\<close>.\<close>

fun console_to_mpi :: "bool \<Rightarrow> DCMPIPacket option list \<Rightarrow> MemUsage \<Rightarrow> out_fd \<Rightarrow> (MemUsage, out_fd) io" where
  "console_to_mpi host [] mu fd = None"
| "console_to_mpi host (None # _) mu fd =
     bind_io (write_header host Exit_failure (close_packet 0 (- 1)) fd) (\<lambda>_ fd'. ret mu fd')"
| "console_to_mpi host (Some p # rest) mu fd =
     bind_io (write_header host Exit_failure p fd) (\<lambda>_ fd1.
       if packet_type p = DCMPI_PACKET_TYPE_LAYOUT then
         bind_io (dcmpi_socket_write_dcbuffer p fd1) (\<lambda>_ fd2. console_to_mpi host rest mu fd2)
       else if packet_type p = DCMPI_PACKET_TYPE_DCBUF then
         bind_io (dcmpi_socket_write_dcbuffer p fd1) (\<lambda>_ fd2.
           case reduce (sint (body_len p)) mu of Inl e \<Rightarrow> fail e | Inr mu' \<Rightarrow> console_to_mpi host rest mu' fd2)
       else console_to_mpi host rest mu fd1)"

text \<open>
  Towards the console. The memory of a body that a filter of rank 0 sent is the filter's, of any
  other the runtime's.
\<close>

definition local_gftids :: "DCFilterInstance list \<Rightarrow> int list" where
  "local_gftids instances = map gftid (filter (\<lambda>fi. dcmpi_rank fi = 0) instances)"

definition console_source :: "int \<Rightarrow> int list \<Rightarrow> DCMPIPacket \<Rightarrow> int" where
  "console_source muid_runtime locals p =
     (let source_gftid = sint (from_gftid (address p))
      in if source_gftid \<notin> set locals then muid_runtime else source_gftid)"

fun mpi_to_console :: "bool \<Rightarrow> int \<Rightarrow> int list \<Rightarrow> DCMPIPacket option list \<Rightarrow> (int \<rightharpoonup> MemUsage) \<Rightarrow> out_fd \<Rightarrow>
    (int \<rightharpoonup> MemUsage, out_fd) io" where
  "mpi_to_console host muid_runtime locals [] mus fd = None"
| "mpi_to_console host muid_runtime locals (None # _) mus fd =
     bind_io (write_header host Assert_failure (close_packet (- 1) 0) fd) (\<lambda>_ fd'. ret mus fd')"
| "mpi_to_console host muid_runtime locals (Some p # rest) mus fd =
     bind_io (write_header host Assert_failure p fd) (\<lambda>_ fd1.
       if packet_type p = DCMPI_PACKET_TYPE_DCBUF then
         bind_io (dcmpi_socket_write_dcbuffer p fd1) (\<lambda>_ fd2.
           case release_body (console_source muid_runtime locals) p mus of
             Inl e \<Rightarrow> fail e
           | Inr mus' \<Rightarrow> mpi_to_console host muid_runtime locals rest mus' fd2)
       else mpi_to_console host muid_runtime locals rest mus fd1)"

section \<open>Reading\<close>

text \<open>The header of the next packet, read into \<open>p\<close>; a failed read exits.\<close>

definition read_header :: "bool \<Rightarrow> int \<Rightarrow> DCMPIPacket \<Rightarrow> in_fd \<Rightarrow> (DCMPIPacket, in_fd) io" where
  "read_header host errno p fd =
     bind_io (DC_read_all errno DCMPI_PACKET_HEADER_SIZE fd) (\<lambda>(rc, _, hdr) fd'.
       if rc \<noteq> 0 then fail Exit_failure
       else case init_from_bytearray host hdr p of Inl e \<Rightarrow> fail e | Inr p' \<Rightarrow> ret p' fd')"

text \<open>\<open>mu\<close> is the budget of the runtime and \<open>w\<close> the queue \<open>mpi_from_console_queue\<close>.\<close>

definition from_console_body :: "bool \<Rightarrow> int \<Rightarrow> DCMPIPacket \<Rightarrow> MemUsage \<Rightarrow> in_fd \<Rightarrow> (DCMPIPacket \<times> MemUsage, in_fd) io" where
  "from_console_body host errno p mu fd =
     (if packet_type p = DCMPI_PACKET_TYPE_LAYOUT then
        bind_io (dcmpi_socket_read_dcbuffer host errno p fd) (\<lambda>p' fd'. ret (p', mu) fd')
      else if packet_type p = DCMPI_PACKET_TYPE_DCBUF then
        (case accumulate (sint (body_len p)) mu of
           None \<Rightarrow> None
         | Some (Inl e) \<Rightarrow> fail e
         | Some (Inr mu') \<Rightarrow> bind_io (dcmpi_socket_read_dcbuffer host errno p fd) (\<lambda>p' fd'. ret (p', mu') fd'))
      else ret (p, mu) fd)"

function mpi_from_console :: "bool \<Rightarrow> int \<Rightarrow> MemUsage \<Rightarrow> DCMPIPacket Queue \<Rightarrow> in_fd \<Rightarrow>
    (MemUsage \<times> DCMPIPacket Queue, in_fd) io" where
  "mpi_from_console host errno mu w fd =
     (case read_header host errno blank_packet fd of
        None \<Rightarrow> None
      | Some (Inl e) \<Rightarrow> fail e
      | Some (Inr (p, fd1)) \<Rightarrow>
          (case from_console_body host errno p mu fd1 of
             None \<Rightarrow> None
           | Some (Inl e) \<Rightarrow> fail e
           | Some (Inr ((p', mu'), fd2)) \<Rightarrow>
               if packet_type p' = DCMPI_PACKET_TYPE_CLOSE then ret (mu', remove_putter (- 1) w) fd2
               else mpi_from_console host errno mu' (Queue_put p' w) fd2))"
  by pat_completeness auto

text \<open>
  What the console process does with a packet: \<open>exe\<close> is the global number of the console filter, if
  there is one. \<open>None\<close> in the result ends the loop.
\<close>

definition console_in_port :: "int option \<Rightarrow> string \<Rightarrow> (Buffer_MUID Queue \<Rightarrow> Buffer_MUID Queue) \<Rightarrow> process \<Rightarrow> process result" where
  "console_in_port exe port f pr =
     (case exe of
        None \<Rightarrow> Inl Undefined_behaviour
      | Some g \<Rightarrow> (case in_queues (queues pr) (g, port) of
            None \<Rightarrow> Inl Undefined_behaviour
          | Some iq \<Rightarrow> Inr (set_queue g port (f iq) pr)))"

definition console_takes :: "int option \<Rightarrow> DCMPIPacket \<Rightarrow> process \<Rightarrow> process result" where
  "console_takes exe p pr =
     (if packet_type p = DCMPI_PACKET_TYPE_REMOVE_PUTTER then
        console_in_port exe (to_port (address p)) (remove_putter (sint (from_gftid (address p)))) pr
      else if packet_type p = DCMPI_PACKET_TYPE_ALL_MY_FILTERS_DONE then Inr pr
      else console_in_port exe (to_port (address p)) (Queue_put \<lparr>buffer = body p, muid = - 1\<rparr>) pr)"

text \<open>The one packet object of the thread; only a packet with a buffer leaves it without a body.\<close>

definition packet_after :: "DCMPIPacket \<Rightarrow> DCMPIPacket" where
  "packet_after p = (if packet_type p = DCMPI_PACKET_TYPE_REMOVE_PUTTER \<or> packet_type p = DCMPI_PACKET_TYPE_ALL_MY_FILTERS_DONE
     then p else p\<lparr>body := None\<rparr>)"

definition to_console_body :: "bool \<Rightarrow> int \<Rightarrow> DCMPIPacket \<Rightarrow> in_fd \<Rightarrow> (DCMPIPacket, in_fd) io" where
  "to_console_body host errno p fd =
     (if packet_type p = DCMPI_PACKET_TYPE_DCBUF then dcmpi_socket_read_dcbuffer host errno p fd else ret p fd)"

function console_from_mpi :: "bool \<Rightarrow> int \<Rightarrow> int option \<Rightarrow> DCMPIPacket \<Rightarrow> process \<Rightarrow> in_fd \<Rightarrow> (process, in_fd) io" where
  "console_from_mpi host errno exe p0 pr fd =
     (case read_header host errno p0 fd of
        None \<Rightarrow> None
      | Some (Inl e) \<Rightarrow> fail e
      | Some (Inr (p, fd1)) \<Rightarrow>
          (case to_console_body host errno p fd1 of
             None \<Rightarrow> None
           | Some (Inl e) \<Rightarrow> fail e
           | Some (Inr (p', fd2)) \<Rightarrow>
               if packet_type p' = DCMPI_PACKET_TYPE_CLOSE then ret pr fd2
               else (case console_takes exe p' pr of
                   Inl e \<Rightarrow> fail e
                 | Inr pr' \<Rightarrow> console_from_mpi host errno exe (packet_after p') pr' fd2)))"
  by pat_completeness auto

text \<open>Every packet read uses up calls of \<open>read\<close>.\<close>

lemma read_header_events:
  assumes "read_header host errno p fd = Some (Inr (p', fd'))"
  shows "length (in_events fd') < length (in_events fd)"
proof -
  from assms obtain r where r: "DC_read_all errno DCMPI_PACKET_HEADER_SIZE fd = Some (Inr (r, fd'))"
    unfolding read_header_def bind_io_Inr_iff
    by (auto simp: fail_def ret_def split: if_splits sum.splits)
  with DC_read_all_events [OF r] show ?thesis by (simp add: DCMPI_PACKET_HEADER_SIZE_def)
qed

lemma from_console_body_events:
  assumes "from_console_body host errno p mu fd = Some (Inr (r, fd'))"
  shows "length (in_events fd') \<le> length (in_events fd)"
  using assms unfolding from_console_body_def
  by (auto simp: bind_io_Inr_iff ret_def fail_def dest: read_dcbuffer_events split: if_splits option.splits sum.splits)

lemma to_console_body_events:
  "to_console_body host errno p fd = Some (Inr (r, fd')) \<Longrightarrow> length (in_events fd') \<le> length (in_events fd)"
  unfolding to_console_body_def by (auto simp: ret_def dest: read_dcbuffer_events split: if_splits)

termination mpi_from_console
  by (relation "measure (\<lambda>(_, _, _, _, fd). length (in_events fd))")
    (auto dest!: read_header_events from_console_body_events)

termination console_from_mpi
  by (relation "measure (\<lambda>(_, _, _, _, _, fd). length (in_events fd))")
    (auto dest!: read_header_events to_console_body_events)

declare mpi_from_console.simps [simp del] console_from_mpi.simps [simp del]

section \<open>Streams\<close>

lemma sendable_close: "sendable_packet (close_packet a b)" "packet_type (close_packet a b) = DCMPI_PACKET_TYPE_CLOSE"
    "body (close_packet a b) = None"
  by (simp_all add: sendable_packet_def close_packet_def DCMPIPacket_new_def port_ok_def)

lemma write_header_ready:
  assumes "sendable_packet p" and "write_ready (length (header_of h p) + n) fd"
  obtains fd' where "write_header h failed p fd = Some (Inr ((), fd'))" "outgoing fd' = outgoing fd @ header_of h p" "write_ready n fd'"
proof -
  obtain fd' where "DC_write_all (header_of h p) fd = Some (Inr (0, fd'))" "outgoing fd' = outgoing fd @ header_of h p" "write_ready n fd'"
    using DC_write_all_ready [OF assms(2)] .
  with that sendable_header(1) [OF assms(1), of h] show thesis by (simp add: write_header_def ret_def)
qed

lemma read_header_ready:
  assumes "sendable_packet p" and "incoming fd = header_of h p @ rest" and "read_ready (length (header_of h p) + n) fd"
  obtains fd' where "read_header host errno p0 fd = Some (Inr (p\<lparr>body := body p0\<rparr>, fd'))" "incoming fd' = rest" "read_ready n fd'"
proof -
  note h = sendable_header [OF assms(1)]
  obtain fd' eof where r: "DC_read_all errno (length (header_of h p)) fd = Some (Inr ((0, eof, header_of h p), fd'))"
    "incoming fd' = rest" "read_ready n fd'"
    using DC_read_all_ready [OF assms(3,2)] .
  have "read_header host errno p0 fd = Some (Inr (p\<lparr>body := body p0\<rparr>, fd'))"
    using r(1) unfolding h(2) read_header_def by (simp add: h(3) ret_def)
  with that r show thesis by blast
qed

text \<open>Packets between the console and the runtime.\<close>

definition console_packet :: "DCMPIPacket \<Rightarrow> bool" where
  "console_packet p \<longleftrightarrow> sendable_packet p \<and> packet_type p \<noteq> DCMPI_PACKET_TYPE_CLOSE
     \<and> (body p \<noteq> None \<longleftrightarrow> packet_type p = DCMPI_PACKET_TYPE_DCBUF \<or> packet_type p = DCMPI_PACKET_TYPE_LAYOUT)"

lemma held_nonneg: "console_packet p \<Longrightarrow> 0 \<le> held p"
  by (auto simp: console_packet_def intro: held_body)

lemma sum_held_nonneg: "\<forall>p\<in>set ps. console_packet p \<Longrightarrow> 0 \<le> sum_list (map held ps)"
  by (intro sum_list_nonneg) (auto simp: held_nonneg)

lemma accumulate_held:
  assumes "0 \<le> n" and "0 \<le> current_usage mu" and "current_usage mu + n \<le> memory_threshold mu" and "memory_threshold mu < 2 ^ 63"
  shows "accumulate n mu = Some (Inr (mu\<lparr>current_usage := current_usage mu + n\<rparr>))"
  using assms by (simp add: accumulate_def int8_ok_def)

lemma console_to_mpi_step:
  assumes "console_packet p" and "write_ready (length (concat (messages h p)) + n) fd"
    and "held p \<le> current_usage mu" and "current_usage mu < 2 ^ 63"
  obtains fd' where "console_to_mpi h (Some p # rest) mu fd = console_to_mpi h rest (mu\<lparr>current_usage := current_usage mu - held p\<rparr>) fd'"
    "outgoing fd' = outgoing fd @ concat (messages h p)" "write_ready n fd'"
proof (cases "body p")
  case None
  have s: "sendable_packet p" and w: "write_ready (length (header_of h p) + n) fd" and t: "packet_type p \<noteq> DCMPI_PACKET_TYPE_DCBUF" "packet_type p \<noteq> DCMPI_PACKET_TYPE_LAYOUT"
    using assms(1,2) None by (auto simp: console_packet_def messages_def)
  obtain fd' where "write_header h Exit_failure p fd = Some (Inr ((), fd'))" "outgoing fd' = outgoing fd @ header_of h p" "write_ready n fd'"
    using write_header_ready [OF s w] .
  with that t None show thesis by (simp add: held_def messages_def)
next
  case (Some b)
  have s: "sendable_packet p" and w: "write_ready (length (header_of h p) + (length (used b) + n)) fd"
    and t: "packet_type p = DCMPI_PACKET_TYPE_DCBUF \<or> packet_type p = DCMPI_PACKET_TYPE_LAYOUT"
    using assms(1,2) Some by (auto simp: console_packet_def messages_def add.assoc)
  obtain fd1 where h: "write_header h Exit_failure p fd = Some (Inr ((), fd1))" "outgoing fd1 = outgoing fd @ header_of h p"
    "write_ready (length (used b) + n) fd1"
    using write_header_ready [OF s w] .
  obtain fd2 where b: "dcmpi_socket_write_dcbuffer p fd1 = Some (Inr ((), fd2))" "outgoing fd2 = outgoing fd1 @ used b" "write_ready n fd2"
    using write_body_ready [OF s Some h(3)] .
  have "reduce (sint (body_len p)) mu = Inr (mu\<lparr>current_usage := current_usage mu - held p\<rparr>)" if "packet_type p = DCMPI_PACKET_TYPE_DCBUF"
    using that assms(3,4) held_nonneg [OF assms(1)] by (simp add: held_def reduce_held)
  then have "console_to_mpi h (Some p # rest) mu fd = console_to_mpi h rest (mu\<lparr>current_usage := current_usage mu - held p\<rparr>) fd2"
    using h(1) b(1) t by (auto simp: held_def packet_types)
  with that b(2,3) h(2) Some show thesis by (simp add: messages_def)
qed

lemma console_to_mpi_writes:
  assumes "\<forall>p\<in>set ps. console_packet p" and "write_ready (length (stream h (ps @ [close_packet 0 (- 1)]))) fd"
    and "sum_list (map held ps) \<le> current_usage mu" and "current_usage mu < 2 ^ 63"
  shows "\<exists>fd'. console_to_mpi h (map Some ps @ [None]) mu fd
      = Some (Inr (mu\<lparr>current_usage := current_usage mu - sum_list (map held ps)\<rparr>, fd'))
    \<and> outgoing fd' = outgoing fd @ stream h (ps @ [close_packet 0 (- 1)])"
  using assms
proof (induction ps arbitrary: mu fd)
  case Nil
  have "write_ready (length (header_of h (close_packet 0 (- 1))) + 0) fd"
    using Nil.prems(2) by (simp add: messages_def sendable_close)
  then obtain fd' where "write_header h Exit_failure (close_packet 0 (- 1)) fd = Some (Inr ((), fd'))"
    "outgoing fd' = outgoing fd @ header_of h (close_packet 0 (- 1))"
    using write_header_ready [OF sendable_close(1)] by blast
  then show ?case by (simp add: messages_def sendable_close ret_def)
next
  case (Cons p ps)
  have p: "console_packet p" "\<forall>p\<in>set ps. console_packet p" using Cons.prems(1) by simp_all
  have w: "write_ready (length (concat (messages h p)) + length (stream h (ps @ [close_packet 0 (- 1)]))) fd"
    using Cons.prems(2) by simp
  note nn = held_nonneg [OF p(1)] sum_held_nonneg [OF p(2)]
  have le: "held p \<le> current_usage mu" using nn Cons.prems(3) by simp
  let ?mu = "mu\<lparr>current_usage := current_usage mu - held p\<rparr>"
  obtain fd1 where fd1: "console_to_mpi h (Some p # (map Some ps @ [None])) mu fd = console_to_mpi h (map Some ps @ [None]) ?mu fd1"
    "outgoing fd1 = outgoing fd @ concat (messages h p)" "write_ready (length (stream h (ps @ [close_packet 0 (- 1)]))) fd1"
    using console_to_mpi_step [OF p(1) w le Cons.prems(4), of "map Some ps @ [None]"] .
  have "sum_list (map held ps) \<le> current_usage ?mu" "current_usage ?mu < 2 ^ 63" using Cons.prems(3,4) nn by simp_all
  from Cons.IH [OF p(2) fd1(3) this] fd1(1,2) show ?case by (auto simp: diff_diff_eq)
qed

lemma from_console_body_ready:
  assumes "console_packet p" and "incoming fd = concat (map used (case body p of None \<Rightarrow> [] | Some b \<Rightarrow> [b])) @ rest"
    and "read_ready (length (concat (map used (case body p of None \<Rightarrow> [] | Some b \<Rightarrow> [b]))) + n) fd"
    and "0 \<le> current_usage mu" and "current_usage mu + held p \<le> memory_threshold mu" and "memory_threshold mu < 2 ^ 63"
  obtains p' fd' where
    "from_console_body host errno (p\<lparr>body := None\<rparr>) mu fd = Some (Inr ((p', mu\<lparr>current_usage := current_usage mu + held p\<rparr>), fd'))"
    "received_as host p p'" "incoming fd' = rest" "read_ready n fd'"
proof (cases "body p")
  case None
  have "packet_type p \<noteq> DCMPI_PACKET_TYPE_DCBUF \<and> packet_type p \<noteq> DCMPI_PACKET_TYPE_LAYOUT"
    using assms(1) None by (auto simp: console_packet_def)
  with that [of "p\<lparr>body := None\<rparr>" fd] assms(2,3) None show thesis
    by (simp add: from_console_body_def ret_def received_as_def held_def)
next
  case (Some b)
  have s: "sendable_packet p" and t: "packet_type p = DCMPI_PACKET_TYPE_DCBUF \<or> packet_type p = DCMPI_PACKET_TYPE_LAYOUT"
    using assms(1) Some by (auto simp: console_packet_def)
  have inc: "incoming fd = used b @ rest" "read_ready (length (used b) + n) fd" using assms(2,3) Some by simp_all
  obtain fd' b' where r: "dcmpi_socket_read_dcbuffer host errno (p\<lparr>body := None\<rparr>) fd = Some (Inr (p\<lparr>body := Some b'\<rparr>, fd'))"
    "used b' = used b" "isbigendian b' = host" "incoming fd' = rest" "read_ready n fd'"
    using read_body_ready [OF s Some inc, of "p\<lparr>body := None\<rparr>" host errno, simplified] by blast
  have "accumulate (sint (body_len p)) mu = Some (Inr (mu\<lparr>current_usage := current_usage mu + held p\<rparr>))"
    if "packet_type p = DCMPI_PACKET_TYPE_DCBUF"
    using that assms(4-6) held_nonneg [OF assms(1)] by (simp add: held_def accumulate_held)
  then have "from_console_body host errno (p\<lparr>body := None\<rparr>) mu fd
    = Some (Inr ((p\<lparr>body := Some b'\<rparr>, mu\<lparr>current_usage := current_usage mu + held p\<rparr>), fd'))"
    using t r(1) by (auto simp: from_console_body_def held_def packet_types ret_def)
  with that r Some show thesis by (simp add: received_as_def)
qed

lemma messages_parts: "concat (messages h p) = header_of h p @ concat (map used (case body p of None \<Rightarrow> [] | Some b \<Rightarrow> [b]))"
  by (simp add: messages_def split: option.split)

lemma mpi_from_console_reads:
  assumes "\<forall>p\<in>set ps. console_packet p" and "incoming fd = stream h (ps @ [close_packet 0 (- 1)]) @ rest"
    and "read_ready (length (stream h (ps @ [close_packet 0 (- 1)]))) fd"
    and "0 \<le> current_usage mu" and "current_usage mu + sum_list (map held ps) \<le> memory_threshold mu" and "memory_threshold mu < 2 ^ 63"
  shows "\<exists>ps' fd'. mpi_from_console host errno mu w fd
      = Some (Inr ((mu\<lparr>current_usage := current_usage mu + sum_list (map held ps)\<rparr>, remove_putter (- 1) (w\<lparr>q := q w @ ps'\<rparr>)), fd'))
    \<and> list_all2 (received_as host) ps ps' \<and> incoming fd' = rest"
  using assms
proof (induction ps arbitrary: mu w fd)
  case Nil
  let ?p = "close_packet 0 (- 1)"
  have inc: "incoming fd = header_of h ?p @ rest" "read_ready (length (header_of h ?p) + 0) fd"
    using Nil.prems(2,3) by (simp_all add: messages_def sendable_close)
  obtain fd' where r: "read_header host errno blank_packet fd = Some (Inr (?p\<lparr>body := body blank_packet\<rparr>, fd'))" "incoming fd' = rest"
    using read_header_ready [OF sendable_close(1) inc] by blast
  then show ?case
    by (simp add: mpi_from_console.simps [of host errno mu w fd] from_console_body_def sendable_close packet_types ret_def)
next
  case (Cons p ps)
  let ?more = "stream h (ps @ [close_packet 0 (- 1)])" and ?b = "concat (map used (case body p of None \<Rightarrow> [] | Some b \<Rightarrow> [b]))"
  have p: "console_packet p" "\<forall>p\<in>set ps. console_packet p" using Cons.prems(1) by simp_all
  have s: "sendable_packet p" and ncl: "packet_type p \<noteq> DCMPI_PACKET_TYPE_CLOSE" using p(1) by (simp_all add: console_packet_def)
  note nn = held_nonneg [OF p(1)] sum_held_nonneg [OF p(2)]
  have inc: "incoming fd = header_of h p @ ?b @ ?more @ rest" "read_ready (length (header_of h p) + (length ?b + length ?more)) fd"
    using Cons.prems(2,3) by (simp_all add: messages_parts add.assoc)
  obtain fd1 where h: "read_header host errno blank_packet fd = Some (Inr (p\<lparr>body := body blank_packet\<rparr>, fd1))"
    "incoming fd1 = ?b @ ?more @ rest" "read_ready (length ?b + length ?more) fd1"
    using read_header_ready [OF s inc] .
  have room: "current_usage mu + held p \<le> memory_threshold mu" using Cons.prems(5) nn by simp
  let ?mu = "mu\<lparr>current_usage := current_usage mu + held p\<rparr>"
  obtain p' fd2 where b: "from_console_body host errno (p\<lparr>body := None\<rparr>) mu fd1 = Some (Inr ((p', ?mu), fd2))"
    "received_as host p p'" "incoming fd2 = ?more @ rest" "read_ready (length ?more) fd2"
    using from_console_body_ready [OF p(1) h(2,3) Cons.prems(4) room Cons.prems(6)] .
  have step: "mpi_from_console host errno mu w fd = mpi_from_console host errno ?mu (Queue_put p' w) fd2"
    using h(1) b(1,2) ncl
    by (simp add: mpi_from_console.simps [of host errno mu w fd] blank_packet_def DCMPIPacket_new_def received_as_def)
  have "0 \<le> current_usage ?mu" "current_usage ?mu + sum_list (map held ps) \<le> memory_threshold ?mu" "memory_threshold ?mu < 2 ^ 63"
    using Cons.prems(4-6) nn by simp_all
  from Cons.IH [OF p(2) b(3,4) this, of "Queue_put p' w"] obtain ps' fd' where
    "mpi_from_console host errno ?mu (Queue_put p' w) fd2
      = Some (Inr ((?mu\<lparr>current_usage := current_usage ?mu + sum_list (map held ps)\<rparr>,
          remove_putter (- 1) ((Queue_put p' w)\<lparr>q := q (Queue_put p' w) @ ps'\<rparr>)), fd'))"
    "list_all2 (received_as host) ps ps'" "incoming fd' = rest" by blast
  then show ?case unfolding step
    using b(2) by (intro exI [of _ "p' # ps'"] exI [of _ fd']) (simp add: Queue_put_def add.assoc)
qed

section \<open>Towards the console\<close>

definition runtime_packet :: "DCMPIPacket \<Rightarrow> bool" where
  "runtime_packet p \<longleftrightarrow> packet_ok p
     \<and> packet_type p \<in> {DCMPI_PACKET_TYPE_DCBUF, DCMPI_PACKET_TYPE_REMOVE_PUTTER, DCMPI_PACKET_TYPE_ALL_MY_FILTERS_DONE}"

lemma runtime_console_packet: "runtime_packet p \<Longrightarrow> console_packet p"
  by (auto simp: runtime_packet_def console_packet_def packet_ok_def packet_types)

lemma mpi_to_console_step:
  assumes "runtime_packet p" and "write_ready (length (concat (messages h p)) + n) fd"
    and "can_release (console_source mrt locals) (p # ps) mus" and "\<forall>p\<in>set ps. runtime_packet p"
  obtains fd' mus' where "mpi_to_console h mrt locals (Some p # rest) mus fd = mpi_to_console h mrt locals rest mus' fd'"
    "outgoing fd' = outgoing fd @ concat (messages h p)" "write_ready n fd'" "can_release (console_source mrt locals) ps mus'"
    "\<forall>m. usage_of mus' m = usage_of mus m - held_by (console_source mrt locals) m [p]"
proof (cases "body p")
  case None
  have s: "sendable_packet p" and w: "write_ready (length (header_of h p) + n) fd" and t: "packet_type p \<noteq> DCMPI_PACKET_TYPE_DCBUF"
    using assms(1,2) None by (auto simp: runtime_packet_def packet_ok_def messages_def)
  obtain fd' where "write_header h Assert_failure p fd = Some (Inr ((), fd'))" "outgoing fd' = outgoing fd @ header_of h p" "write_ready n fd'"
    using write_header_ready [OF s w] .
  moreover have "held_by (console_source mrt locals) m (p # ps) = held_by (console_source mrt locals) m ps"
      "held_by (console_source mrt locals) m [p] = 0" for m
    using t by (simp_all add: held_def)
  moreover from this(1) have "can_release (console_source mrt locals) ps mus"
    using assms(3) unfolding can_release_def by (metis list.set_intros(2))
  ultimately show thesis using that [of mus fd'] t None by (simp add: messages_def)
next
  case (Some b)
  let ?m = "console_source mrt locals p"
  have s: "sendable_packet p" and w: "write_ready (length (header_of h p) + (length (used b) + n)) fd"
    and t: "packet_type p = DCMPI_PACKET_TYPE_DCBUF"
    using assms(1,2) Some by (auto simp: runtime_packet_def packet_ok_def messages_def add.assoc)
  obtain fd1 where h: "write_header h Assert_failure p fd = Some (Inr ((), fd1))" "outgoing fd1 = outgoing fd @ header_of h p"
    "write_ready (length (used b) + n) fd1"
    using write_header_ready [OF s w] .
  obtain fd2 where b: "dcmpi_socket_write_dcbuffer p fd1 = Some (Inr ((), fd2))" "outgoing fd2 = outgoing fd1 @ used b" "write_ready n fd2"
    using write_body_ready [OF s Some h(3)] .
  have nn: "\<forall>p\<in>set (p # ps). 0 \<le> held p"
    using assms(1,4) by (simp add: held_nonneg runtime_console_packet)
  obtain mus' where m: "release_body (console_source mrt locals) p mus = Inr mus'" "can_release (console_source mrt locals) ps mus'"
    "\<forall>m. usage_of mus' m = usage_of mus m - held_by (console_source mrt locals) m [p]"
    using release_body_ok [OF t assms(3) nn] .
  have "mpi_to_console h mrt locals (Some p # rest) mus fd = mpi_to_console h mrt locals rest mus' fd2"
    using h(1) b(1) t m(1) by simp
  with that b(2,3) h(2) Some m(2,3) show thesis by (simp add: messages_def)
qed

lemma mpi_to_console_writes:
  assumes "\<forall>p\<in>set ps. runtime_packet p" and "write_ready (length (stream h (ps @ [close_packet (- 1) 0]))) fd"
    and "can_release (console_source mrt locals) ps mus"
  shows "\<exists>mus' fd'. mpi_to_console h mrt locals (map Some ps @ [None]) mus fd = Some (Inr (mus', fd'))
    \<and> outgoing fd' = outgoing fd @ stream h (ps @ [close_packet (- 1) 0])
    \<and> (\<forall>m. usage_of mus' m = usage_of mus m - held_by (console_source mrt locals) m ps)"
  using assms
proof (induction ps arbitrary: mus fd)
  case Nil
  have "write_ready (length (header_of h (close_packet (- 1) 0)) + 0) fd"
    using Nil.prems(2) by (simp add: messages_def sendable_close)
  then obtain fd' where "write_header h Assert_failure (close_packet (- 1) 0) fd = Some (Inr ((), fd'))"
    "outgoing fd' = outgoing fd @ header_of h (close_packet (- 1) 0)"
    using write_header_ready [OF sendable_close(1)] by blast
  then show ?case by (simp add: messages_def sendable_close ret_def)
next
  case (Cons p ps)
  have p: "runtime_packet p" "\<forall>p\<in>set ps. runtime_packet p" using Cons.prems(1) by simp_all
  have w: "write_ready (length (concat (messages h p)) + length (stream h (ps @ [close_packet (- 1) 0]))) fd"
    using Cons.prems(2) by simp
  obtain mus1 fd1 where s: "mpi_to_console h mrt locals (Some p # (map Some ps @ [None])) mus fd = mpi_to_console h mrt locals (map Some ps @ [None]) mus1 fd1"
    "outgoing fd1 = outgoing fd @ concat (messages h p)" "write_ready (length (stream h (ps @ [close_packet (- 1) 0]))) fd1"
    "can_release (console_source mrt locals) ps mus1"
    "\<forall>m. usage_of mus1 m = usage_of mus m - held_by (console_source mrt locals) m [p]"
    using mpi_to_console_step [OF p(1) w Cons.prems(3) p(2), of "map Some ps @ [None]"] .
  from Cons.IH [OF p(2) s(3,4)] s(1,2,5) show ?case by (auto simp: diff_diff_eq)
qed

text \<open>The packets for an in-port, and how it takes them in.\<close>

definition delivered :: "Buffer_MUID \<Rightarrow> char list option" where
  "delivered bm = map_option used (buffer bm)"

definition buffers_for :: "string \<Rightarrow> DCMPIPacket list \<Rightarrow> char list option list" where
  "buffers_for port ps = map (\<lambda>p. map_option used (body p)) (filter (\<lambda>p. packet_type p = DCMPI_PACKET_TYPE_DCBUF \<and> to_port (address p) = port) ps)"

definition leavers_of :: "string \<Rightarrow> DCMPIPacket list \<Rightarrow> int list" where
  "leavers_of port ps = map (\<lambda>p. sint (from_gftid (address p))) (filter (\<lambda>p. packet_type p = DCMPI_PACKET_TYPE_REMOVE_PUTTER \<and> to_port (address p) = port) ps)"

definition took_in :: "int \<Rightarrow> DCMPIPacket list \<Rightarrow> process \<Rightarrow> process \<Rightarrow> bool" where
  "took_in g ps pr pr' \<longleftrightarrow> (\<forall>port iq. in_queues (queues pr) (g, port) = Some iq \<longrightarrow>
     (\<exists>iq'. in_queues (queues pr') (g, port) = Some iq' \<and> map delivered (q iq') = map delivered (q iq) @ buffers_for port ps
        \<and> putters iq' = fold set_erase (leavers_of port ps) (putters iq)))"

text \<open>The in-ports that packets are for are there.\<close>

definition ports_there :: "int \<Rightarrow> DCMPIPacket list \<Rightarrow> process \<Rightarrow> bool" where
  "ports_there g ps pr \<longleftrightarrow> (\<forall>p\<in>set ps. packet_type p \<noteq> DCMPI_PACKET_TYPE_ALL_MY_FILTERS_DONE \<longrightarrow>
     in_queues (queues pr) (g, to_port (address p)) \<noteq> None)"

lemma console_takes_ok:
  assumes "runtime_packet p" and "received_as host p p'" and "ports_there g (p # ps) pr"
  obtains pr' where "console_takes (Some g) p' pr = Inr pr'" "took_in g [p] pr pr'" "ports_there g ps pr'"
    "body (packet_after p') = None"
proof -
  have same: "packet_type p' = packet_type p" "address p' = address p"
    using assms(2) by (simp_all add: received_as_def)
  consider (buf) b b' where "packet_type p = DCMPI_PACKET_TYPE_DCBUF" "body p = Some b" "body p' = Some b'" "used b' = used b"
    | (leave) "packet_type p = DCMPI_PACKET_TYPE_REMOVE_PUTTER" "body p' = None"
    | (told) "packet_type p = DCMPI_PACKET_TYPE_ALL_MY_FILTERS_DONE" "body p' = None"
    using assms(1,2) by (auto simp: runtime_packet_def packet_ok_def received_as_def packet_types split: option.splits)
  then show thesis
  proof cases
    case told
    then have "took_in g [p] pr pr" by (simp add: took_in_def buffers_for_def leavers_of_def packet_types)
    with that [of pr] told same assms(3) show thesis
      by (simp add: console_takes_def packet_after_def ports_there_def packet_types)
  next
    case leave
    then obtain iq where iq: "in_queues (queues pr) (g, to_port (address p)) = Some iq"
      using assms(3) by (auto simp: ports_there_def packet_types)
    let ?pr = "set_queue g (to_port (address p)) (remove_putter (sint (from_gftid (address p))) iq) pr"
    have "took_in g [p] pr ?pr"
      using leave iq by (auto simp: took_in_def buffers_for_def leavers_of_def packet_types set_queue_def remove_putter_def)
    moreover have "ports_there g ps ?pr" using assms(3) by (simp add: ports_there_def set_queue_def)
    ultimately show thesis
      using that [of ?pr] leave same iq by (simp add: console_takes_def console_in_port_def packet_after_def)
  next
    case buf
    then obtain iq where iq: "in_queues (queues pr) (g, to_port (address p)) = Some iq"
      using assms(3) by (auto simp: ports_there_def packet_types)
    let ?pr = "set_queue g (to_port (address p)) (Queue_put \<lparr>buffer = body p', muid = - 1\<rparr> iq) pr"
    have "took_in g [p] pr ?pr"
      using buf iq by (auto simp: took_in_def buffers_for_def leavers_of_def packet_types set_queue_def Queue_put_def delivered_def)
    moreover have "ports_there g ps ?pr" using assms(3) by (simp add: ports_there_def set_queue_def)
    ultimately show thesis
      using that [of ?pr] buf same iq by (simp add: console_takes_def console_in_port_def packet_after_def packet_types)
  qed
qed

lemma took_in_append: "took_in g ps pr pr1 \<Longrightarrow> took_in g qs pr1 pr2 \<Longrightarrow> took_in g (ps @ qs) pr pr2"
  unfolding took_in_def buffers_for_def leavers_of_def by fastforce

lemma to_console_body_ready:
  assumes "runtime_packet p" and "incoming fd = concat (map used (case body p of None \<Rightarrow> [] | Some b \<Rightarrow> [b])) @ rest"
    and "read_ready (length (concat (map used (case body p of None \<Rightarrow> [] | Some b \<Rightarrow> [b]))) + n) fd"
  obtains p' fd' where
    "to_console_body host errno (p\<lparr>body := None\<rparr>) fd = Some (Inr (p', fd'))" "received_as host p p'" "incoming fd' = rest" "read_ready n fd'"
proof (cases "body p")
  case None
  have "packet_type p \<noteq> DCMPI_PACKET_TYPE_DCBUF" using assms(1) None by (auto simp: runtime_packet_def packet_ok_def)
  with that [of "p\<lparr>body := None\<rparr>" fd] assms(2,3) None show thesis
    by (simp add: to_console_body_def ret_def received_as_def)
next
  case (Some b)
  have s: "sendable_packet p" and t: "packet_type p = DCMPI_PACKET_TYPE_DCBUF"
    using assms(1) Some by (auto simp: runtime_packet_def packet_ok_def)
  have inc: "incoming fd = used b @ rest" "read_ready (length (used b) + n) fd" using assms(2,3) Some by simp_all
  obtain fd' b' where r: "dcmpi_socket_read_dcbuffer host errno (p\<lparr>body := None\<rparr>) fd = Some (Inr (p\<lparr>body := Some b'\<rparr>, fd'))"
    "used b' = used b" "isbigendian b' = host" "incoming fd' = rest" "read_ready n fd'"
    using read_body_ready [OF s Some inc, of "p\<lparr>body := None\<rparr>" host errno, simplified] by blast
  with that Some t show thesis by (simp add: to_console_body_def received_as_def)
qed

lemma console_from_mpi_reads:
  assumes "\<forall>p\<in>set ps. runtime_packet p" and "incoming fd = stream h (ps @ [close_packet (- 1) 0]) @ rest"
    and "read_ready (length (stream h (ps @ [close_packet (- 1) 0]))) fd" and "ports_there g ps pr" and "body p0 = None"
  shows "\<exists>pr' fd'. console_from_mpi host errno (Some g) p0 pr fd = Some (Inr (pr', fd')) \<and> took_in g ps pr pr' \<and> incoming fd' = rest"
  using assms
proof (induction ps arbitrary: p0 pr fd)
  case Nil
  let ?p = "close_packet (- 1) 0"
  have inc: "incoming fd = header_of h ?p @ rest" "read_ready (length (header_of h ?p) + 0) fd"
    using Nil.prems(2,3) by (simp_all add: messages_def sendable_close)
  obtain fd' where "read_header host errno p0 fd = Some (Inr (?p\<lparr>body := body p0\<rparr>, fd'))" "incoming fd' = rest"
    using read_header_ready [OF sendable_close(1) inc] by blast
  then show ?case
    by (simp add: console_from_mpi.simps [of host errno "Some g" p0 pr fd] to_console_body_def sendable_close packet_types ret_def
        took_in_def buffers_for_def leavers_of_def)
next
  case (Cons p ps)
  let ?more = "stream h (ps @ [close_packet (- 1) 0])" and ?b = "concat (map used (case body p of None \<Rightarrow> [] | Some b \<Rightarrow> [b]))"
  have p: "runtime_packet p" "\<forall>p\<in>set ps. runtime_packet p" using Cons.prems(1) by simp_all
  have s: "sendable_packet p" and ncl: "packet_type p \<noteq> DCMPI_PACKET_TYPE_CLOSE"
    using runtime_console_packet [OF p(1)] by (simp_all add: console_packet_def)
  have inc: "incoming fd = header_of h p @ ?b @ ?more @ rest" "read_ready (length (header_of h p) + (length ?b + length ?more)) fd"
    using Cons.prems(2,3) by (simp_all add: messages_parts add.assoc)
  obtain fd1 where h: "read_header host errno p0 fd = Some (Inr (p\<lparr>body := body p0\<rparr>, fd1))"
    "incoming fd1 = ?b @ ?more @ rest" "read_ready (length ?b + length ?more) fd1"
    using read_header_ready [OF s inc] .
  obtain p' fd2 where b: "to_console_body host errno (p\<lparr>body := None\<rparr>) fd1 = Some (Inr (p', fd2))" "received_as host p p'"
    "incoming fd2 = ?more @ rest" "read_ready (length ?more) fd2"
    using to_console_body_ready [OF p(1) h(2,3)] .
  obtain pr1 where t: "console_takes (Some g) p' pr = Inr pr1" "took_in g [p] pr pr1" "ports_there g ps pr1" "body (packet_after p') = None"
    using console_takes_ok [OF p(1) b(2) Cons.prems(4)] .
  have step: "console_from_mpi host errno (Some g) p0 pr fd = console_from_mpi host errno (Some g) (packet_after p') pr1 fd2"
    using h(1) b(1,2) t(1) ncl Cons.prems(5) by (simp add: console_from_mpi.simps [of host errno "Some g" p0 pr fd] received_as_def)
  from Cons.IH [OF p(2) b(3,4) t(3,4)] obtain pr' fd' where
    "console_from_mpi host errno (Some g) (packet_after p') pr1 fd2 = Some (Inr (pr', fd'))" "took_in g ps pr1 pr'" "incoming fd' = rest"
    by blast
  with took_in_append [OF t(2), of ps pr'] show ?case unfolding step by simp
qed

section \<open>Properties\<close>

text \<open>
  C5. From the console filter to the runtime: the packets that \<open>ConsoleToMPIThread\<close> takes from its
  queue until it is stopped, buffers, layouts and others, come out of \<open>MPIFromConsoleThread\<close> on a host of
  any byte order, in order and complete, however short the single reads and writes are; the
  console's budget is released by the lengths of the buffers and the runtime's charged with them;
  after the last packet the queue of the runtime has lost its putter and nothing more has been read.
\<close>

theorem console_stream:
  assumes "\<forall>p\<in>set ps. console_packet p" and "write_ready (length (stream h (ps @ [close_packet 0 (- 1)]))) ofd"
    and "sum_list (map held ps) \<le> current_usage mu" and "current_usage mu < 2 ^ 63"
    and "incoming ifd = stream h (ps @ [close_packet 0 (- 1)]) @ rest" and "read_ready (length (stream h (ps @ [close_packet 0 (- 1)]))) ifd"
    and "0 \<le> current_usage rmu" and "current_usage rmu + sum_list (map held ps) \<le> memory_threshold rmu" and "memory_threshold rmu < 2 ^ 63"
  shows "\<exists>ofd' ps' ifd'. console_to_mpi h (map Some ps @ [None]) mu ofd
      = Some (Inr (mu\<lparr>current_usage := current_usage mu - sum_list (map held ps)\<rparr>, ofd'))
    \<and> outgoing ofd' @ rest = outgoing ofd @ incoming ifd
    \<and> mpi_from_console host errno rmu w ifd
      = Some (Inr ((rmu\<lparr>current_usage := current_usage rmu + sum_list (map held ps)\<rparr>, remove_putter (- 1) (w\<lparr>q := q w @ ps'\<rparr>)), ifd'))
    \<and> list_all2 (received_as host) ps ps' \<and> incoming ifd' = rest"
  using console_to_mpi_writes [OF assms(1-4)] mpi_from_console_reads [OF assms(1) assms(5-9), of host errno w] assms(5)
  by (elim exE conjE) (intro exI conjI, assumption, simp, assumption+)

text \<open>A buffer of two bytes to a filter with number 2, on a socket that takes and gives a byte at a time.\<close>

definition hi_packet :: DCMPIPacket where
  "hi_packet = DCMPIPacket_new \<lparr>to_rank = - 1, to_cluster_rank = 0, to_gftid = 2, to_port = ''i'',
     from_rank = 0, from_cluster_rank = 0, from_gftid = 1, from_port = ''o''\<rparr>
     DCMPI_PACKET_TYPE_DCBUF 2 (Some (restored False ''hi''))"

lemma hi_packet_ok: "runtime_packet hi_packet" "console_packet hi_packet" "held hi_packet = 2"
proof -
  have s: "short ''hi''" by (simp add: short_def)
  show r: "runtime_packet hi_packet"
    using restored_wf(1) [OF s, of False]
    by (simp add: runtime_packet_def packet_ok_def sendable_packet_def hi_packet_def DCMPIPacket_new_def port_ok_def DCMPI_PORT_MAXLEN_SIZE_def restored_def)
  show "console_packet hi_packet" by (rule runtime_console_packet [OF r])
  show "held hi_packet = 2" by (simp add: held_def hi_packet_def DCMPIPacket_new_def)
qed

lemma hi_stream: "length (stream h [hi_packet, close_packet a b]) = 324"
proof -
  have b: "body hi_packet = Some (restored False ''hi'')" "used (restored False ''hi'') = ''hi''"
    by (simp_all add: hi_packet_def DCMPIPacket_new_def restored_def used_def mem_def)
  have "sendable_packet hi_packet" using hi_packet_ok(2) by (simp add: console_packet_def)
  from sendable_header(2) [OF this] sendable_header(2) [OF sendable_close(1)] show ?thesis
    by (simp add: messages_def b sendable_close(3) DCMPI_PACKET_HEADER_SIZE_def DCMPI_PORT_MAXLEN_SIZE_def)
qed

definition slow_out :: out_fd where
  "slow_out = \<lparr>out_events = replicate 324 (Write_upto 1), outgoing = []\<rparr>"

definition slow_in :: "char list \<Rightarrow> in_fd" where
  "slow_in bs = \<lparr>in_events = replicate 324 (Read_upto 0), incoming = bs\<rparr>"

lemma slow_ready: "write_ready (length (stream h [hi_packet, close_packet a b])) slow_out"
  "read_ready (length (stream h [hi_packet, close_packet a b])) (slow_in bs)"
  unfolding hi_stream by (auto simp: write_ready_def read_ready_def slow_out_def slow_in_def no_errors_def)

theorem console_stream_witness:
  "\<exists>ofd' ps' ifd'. console_to_mpi False [Some hi_packet, None] \<lparr>memory_threshold = 9, current_usage = 5\<rparr> slow_out
      = Some (Inr (\<lparr>memory_threshold = 9, current_usage = 3\<rparr>, ofd'))
    \<and> mpi_from_console True 0 \<lparr>memory_threshold = 9, current_usage = 0\<rparr> \<lparr>q = [], putters = [- 1]\<rparr> (slow_in (outgoing ofd'))
      = Some (Inr ((\<lparr>memory_threshold = 9, current_usage = 2\<rparr>, \<lparr>q = ps', putters = []\<rparr>), ifd'))
    \<and> list_all2 (received_as True) [hi_packet] ps'"
  using console_stream [of "[hi_packet]" False slow_out "\<lparr>memory_threshold = 9, current_usage = 5\<rparr>"
      "slow_in (stream False [hi_packet, close_packet 0 (- 1)])" "[]" "\<lparr>memory_threshold = 9, current_usage = 0\<rparr>" True 0 "\<lparr>q = [], putters = [- 1]\<rparr>"]
    slow_ready [of False 0 "- 1"]
  by (auto simp: hi_packet_ok slow_in_def slow_out_def remove_putter_def set_erase_def)

text \<open>
  C24. From the runtime to the console filter: what \<open>MPIToConsoleThread\<close> takes from its queue until it is
  stopped reaches the in-ports of the console filter: every buffer the port it is for, in order and
  complete, and every upstream filter that has finished leaves the putters of its port; the
  messages that filters are done are dropped. Every buffer gives its bytes back to the budget it was
  charged to: that of its filter if this is on rank 0, otherwise the runtime's.
\<close>

theorem console_receives:
  assumes "\<forall>p\<in>set ps. runtime_packet p" and "write_ready (length (stream h (ps @ [close_packet (- 1) 0]))) ofd"
    and "can_release (console_source mrt locals) ps mus"
    and "incoming ifd = stream h (ps @ [close_packet (- 1) 0]) @ rest" and "read_ready (length (stream h (ps @ [close_packet (- 1) 0]))) ifd"
    and "ports_there g ps pr"
  shows "\<exists>mus' ofd' pr' ifd'. mpi_to_console h mrt locals (map Some ps @ [None]) mus ofd = Some (Inr (mus', ofd'))
    \<and> outgoing ofd' @ rest = outgoing ofd @ incoming ifd
    \<and> (\<forall>m. usage_of mus' m = usage_of mus m - held_by (console_source mrt locals) m ps)
    \<and> console_from_mpi host errno (Some g) blank_packet pr ifd = Some (Inr (pr', ifd'))
    \<and> took_in g ps pr pr' \<and> incoming ifd' = rest"
proof -
  have "body blank_packet = None" by (simp add: blank_packet_def DCMPIPacket_new_def)
  from mpi_to_console_writes [OF assms(1-3)] console_from_mpi_reads [OF assms(1,4-6) this, of host errno] assms(4)
  show ?thesis by (elim exE conjE) (intro exI conjI, assumption, simp, assumption+)
qed

definition console_only :: process where
  "console_only = \<lparr>executors = Map.empty,
     queues = \<lparr>in_queues = [(2, ''i'') \<mapsto> Queue_new], out_queues = \<lambda>_. Queue_new\<rparr>,
     MUID_MemUsage = Map.empty, is_local_console = True, local_console_outgoing_memusage = MemUsage_new 9\<rparr>"

theorem console_receives_witness:
  "\<exists>mus' ofd' pr' ifd'. mpi_to_console False 9 [] [Some hi_packet, None] [9 \<mapsto> \<lparr>memory_threshold = 9, current_usage = 5\<rparr>] slow_out
      = Some (Inr (mus', ofd')) \<and> usage_of mus' 9 = 3
    \<and> console_from_mpi True 0 (Some 2) blank_packet console_only (slow_in (outgoing ofd')) = Some (Inr (pr', ifd'))
    \<and> took_in 2 [hi_packet] console_only pr'"
proof -
  let ?mus = "[9 \<mapsto> \<lparr>memory_threshold = 9, current_usage = 5\<rparr>]"
  have src: "console_source 9 [] hi_packet = 9" by (simp add: console_source_def)
  have rel: "can_release (console_source 9 []) [hi_packet] ?mus"
    by (simp add: can_release_def src usage_of_def hi_packet_ok)
  have there: "ports_there 2 [hi_packet] console_only"
    by (simp add: ports_there_def console_only_def hi_packet_def DCMPIPacket_new_def)
  show ?thesis
    using console_receives [of "[hi_packet]" False slow_out 9 "[]" ?mus "slow_in (stream False [hi_packet, close_packet (- 1) 0])" "[]" 2 console_only True 0]
      slow_ready [of False "- 1" 0] rel there
    by (auto simp: hi_packet_ok src slow_in_def slow_out_def usage_of_def)
qed

end
