(* ===== verification/Numbers.thy ===== *)
theory Numbers
  imports StrUtil
begin

text \<open>
  Numbers as text: \<open>dcmpi_to_string\<close> of \<open>src/src/dcmpi.h\<close> for an \<open>int\<close>, and \<open>Atoi\<close> of
  \<open>src/src/dcmpi_util.h\<close>, with the round trip between them. Message headers of the proxy and the
  command lines of the runtime are made of them.
\<close>

text \<open>\<open>dcmpi_to_string\<close> of an integer, and \<open>Atoi\<close>, whose result is undefined outside an \<open>int\<close>.\<close>

fun digits :: "nat \<Rightarrow> string" where
  "digits n = (if n < 10 then [] else digits (n div 10)) @ [char_of (48 + n mod 10 :: nat)]"

declare digits.simps [simp del]

definition dcmpi_to_string :: "int \<Rightarrow> string" where
  "dcmpi_to_string i = (if i < 0 then CHR ''-'' # digits (nat (- i)) else digits (nat i))"

definition Atoi :: "string \<Rightarrow> int result" where
  "Atoi s =
     (let t = dropWhile isspace s;
          neg = (t \<noteq> [] \<and> hd t = CHR ''-'');
          u = (if t \<noteq> [] \<and> (hd t = CHR ''-'' \<or> hd t = CHR ''+'') then tl t else t);
          n = int (decimal (takeWhile isdigit u));
          i = (if neg then - n else n)
      in if int4_ok i then Inr i else Inl Undefined_behaviour)"

lemma isdigit_char_of: "k < 10 \<Longrightarrow> isdigit (char_of (48 + k :: nat)) \<and> digit_value (char_of (48 + k :: nat)) = k"
  by (simp add: isdigit_def digit_value_def less_eq_char_def)

lemma digits_isdigit: "\<forall>c\<in>set (digits n). isdigit c" and digits_decimal: "decimal (digits n) = n" and digits_ne: "digits n \<noteq> []"
proof (induction n rule: digits.induct)
  case (1 n)
  {
    case 1
    then show ?case
      using "1.IH"(1) isdigit_char_of [of "n mod 10"] by (subst digits.simps) auto
  next
    case 2
    then show ?case
      using "1.IH"(2) isdigit_char_of [of "n mod 10"] by (subst digits.simps) (auto simp: decimal_def)
  next
    case 3
    then show ?case by (subst digits.simps) simp
  }
qed

lemma Atoi_digits: "int n < 2 ^ 31 \<Longrightarrow> Atoi (dcmpi_to_string (int n)) = Inr (int n)"
proof -
  assume n: "int n < 2 ^ 31"
  have d: "isdigit c" if "c \<in> set (digits n)" for c using that digits_isdigit by blast
  obtain c cs where c: "digits n = c # cs" using digits_ne [of n] by (cases "digits n") auto
  have "\<not> isspace c \<and> c \<noteq> CHR ''-'' \<and> c \<noteq> CHR ''+''" using digit_not_space d c by simp
  moreover have "takeWhile isdigit (c # cs) = c # cs" using d c by (intro takeWhile_eq_all_conv [THEN iffD2]) auto
  moreover have "decimal (c # cs) = n" using digits_decimal [of n] c by simp
  ultimately show ?thesis using n by (simp add: Atoi_def dcmpi_to_string_def c int4_ok_def)
qed

end
