(* ===== verification/Proxy.thy ===== *)
theory Proxy
  imports PacketStream Numbers
begin

text \<open>
  Packets between clusters: \<open>ProxyWriter\<close> (\<open>src/src/dcmpiruntime-util.h\<close>) at rank 0 of one cluster, the
  proxy process (\<open>src/src/dcmpiproxy\<close>), and the part of the main loop that takes packets in from the
  proxy at rank 0 of another (\<open>src/src/dcmpiruntime.cpp\<close>). Sockets are descriptors with scheduled
  calls, as in \<open>FdIO\<close>.
\<close>

section \<open>The writer\<close>

text \<open>The argument is what the thread gets from \<open>mpi_to_proxy_queue\<close>, the null pointer as \<open>None\<close>.\<close>

definition proxy_line :: "DCMPIPacket \<Rightarrow> string" where
  "proxy_line p = dcmpi_to_string (sint (to_cluster_rank (address p))) @ '' ''
     @ dcmpi_to_string (int DCMPI_PACKET_HEADER_SIZE + sint (body_len p)) @ [newline]"

text \<open>The budget of a body: its filter's if this process sent it, otherwise the runtime's.\<close>

definition proxy_source :: "int \<Rightarrow> int \<Rightarrow> DCMPIPacket \<Rightarrow> int" where
  "proxy_source muid_runtime this_rank p =
     (if sint (from_rank (address p)) = this_rank then sint (from_gftid (address p)) else muid_runtime)"

definition write_checked :: "char list \<Rightarrow> out_fd \<Rightarrow> (unit, out_fd) io" where
  "write_checked bs fd = bind_io (DC_write_all bs fd) (\<lambda>rc fd'. if rc \<noteq> 0 then fail Exit_failure else ret () fd')"

fun proxy_writer :: "bool \<Rightarrow> int \<Rightarrow> int \<Rightarrow> DCMPIPacket option list \<Rightarrow> (int \<rightharpoonup> MemUsage) \<Rightarrow> out_fd \<Rightarrow>
    (int \<rightharpoonup> MemUsage, out_fd) io" where
  "proxy_writer host muid_runtime this_rank [] mus fd = None"
| "proxy_writer host muid_runtime this_rank (None # _) mus fd =
     bind_io (write_checked (''bye'' @ [newline]) fd) (\<lambda>_ fd'. ret mus fd')"
| "proxy_writer host muid_runtime this_rank (Some p # rest) mus fd =
     (case to_bytearray host p of
        Inl e \<Rightarrow> fail e
      | Inr hdr \<Rightarrow>
          if \<not> int4_ok (int DCMPI_PACKET_HEADER_SIZE + sint (body_len p)) then fail Undefined_behaviour
          else bind_io (write_checked (proxy_line p) fd) (\<lambda>_ fd1.
            bind_io (write_checked hdr fd1) (\<lambda>_ fd2.
              case body p of
                None \<Rightarrow> proxy_writer host muid_runtime this_rank rest mus fd2
              | Some b \<Rightarrow>
                  if sint (body_len p) < 0 then fail Undefined_behaviour
                  else case block_read (mem b) 0 (nat (sint (body_len p))) of
                    Inl e \<Rightarrow> fail e
                  | Inr bytes \<Rightarrow> bind_io (write_checked bytes fd2) (\<lambda>_ fd3.
                      case release_body (proxy_source muid_runtime this_rank) p mus of
                        Inl e \<Rightarrow> fail e
                      | Inr mus' \<Rightarrow> proxy_writer host muid_runtime this_rank rest mus' fd3))))"

section \<open>The proxy\<close>

text \<open>
  The process between the clusters. The thread for what a cluster sends reads lines with a
  destination and a len, then as many bytes, which it puts into the queue of the destination; a
  line that it cannot parse ends it with an exception. The thread for what a cluster gets writes a line
  with the size and then the bytes.
\<close>

function proxy_in_thread :: "char list \<Rightarrow> (nat \<times> char list) list option" where
  "proxy_in_thread inp =
     (let line = takeWhile (\<lambda>c. c \<noteq> newline) inp; after = drop (length line + 1) inp
      in if line = [] then None
         else if line = ''bye'' then Some []
         else case words '' '' line of
             [dst, len] \<Rightarrow>
               if list_all isdigit dst \<and> list_all isdigit len
               then map_option (Cons (decimal dst, take (decimal len) after)) (proxy_in_thread (drop (decimal len) after))
               else None
           | _ \<Rightarrow> None)"
  by pat_completeness auto
termination
proof (relation "measure length")
  fix inp line after :: "char list" and dst len :: string and xs ys :: "string list"
  assume "line = takeWhile (\<lambda>c. c \<noteq> newline) inp" "after = drop (length line + 1) inp" "line \<noteq> []"
  then have "length after < length inp" by (cases inp) auto
  then show "(drop (decimal len) after, inp) \<in> measure length" by simp
qed simp

declare proxy_in_thread.simps [simp del]

definition proxy_out_item :: "char list \<Rightarrow> char list" where
  "proxy_out_item item = dcmpi_to_string (int (length item)) @ [newline] @ item"

section \<open>The reader\<close>

datatype proxy_state = PROXY_IN_NEED_HEAD | PROXY_IN_NEED_BODY

text \<open>\<open>proxy_open\<close>: \<open>proxy_in_socket\<close> is not -1.\<close>

record proxy_in =
  proxy_in_state :: proxy_state
  proxy_in_packet :: "DCMPIPacket option"
  proxy_in_body_length :: int
  proxy_open :: bool

definition proxy_in_start :: proxy_in where
  "proxy_in_start = \<lparr>proxy_in_state = PROXY_IN_NEED_HEAD, proxy_in_packet = None, proxy_in_body_length = 0, proxy_open = True\<rparr>"

text \<open>The results of the two parts tell whether the packet is to be delivered now.\<close>

definition proxy_head :: "bool \<Rightarrow> int \<Rightarrow> proxy_in \<Rightarrow> in_fd \<Rightarrow> (bool \<times> proxy_in, in_fd) io" where
  "proxy_head host errno pin fd =
     bind_io (dcmpi_socket_read_line errno fd) (\<lambda>line fd1.
       if line = ''bye'' then ret (False, pin\<lparr>proxy_open := False\<rparr>) fd1
       else bind_io (DC_read_all errno DCMPI_PACKET_HEADER_SIZE fd1) (\<lambda>(rc, _, hdr) fd2.
         if rc \<noteq> 0 then fail Exit_failure
         else case Atoi line of
             Inl e \<Rightarrow> fail e
           | Inr len \<Rightarrow>
               if \<not> int4_ok (len - int DCMPI_PACKET_HEADER_SIZE) then fail Undefined_behaviour
               else case init_from_bytearray host hdr blank_packet of
                   Inl e \<Rightarrow> fail e
                 | Inr p \<Rightarrow>
                     let pin' = pin\<lparr>proxy_in_body_length := len - int DCMPI_PACKET_HEADER_SIZE, proxy_in_packet := Some p\<rparr>
                     in if packet_type p = DCMPI_PACKET_TYPE_DCBUF
                        then ret (False, pin'\<lparr>proxy_in_state := PROXY_IN_NEED_BODY\<rparr>) fd2
                        else ret (True, pin') fd2))"

definition proxy_body :: "bool \<Rightarrow> int \<Rightarrow> proxy_in \<Rightarrow> MemUsage \<Rightarrow> in_fd \<Rightarrow> (bool \<times> proxy_in \<times> MemUsage, in_fd) io" where
  "proxy_body host errno pin mu fd =
     (let n = proxy_in_body_length pin
      in case accumulate_if_not_exceeding_limit n mu of
           Inl e \<Rightarrow> fail e
         | Inr (room, mu') \<Rightarrow>
             if \<not> room then ret (False, pin, mu) fd
             else (case (DCBuffer_sized host n, proxy_in_packet pin) of
                 (Inr buf, Some p) \<Rightarrow>
                   let pin' = (\<lambda>b. pin\<lparr>proxy_in_packet := Some (p\<lparr>body := Some b\<rparr>), proxy_in_state := PROXY_IN_NEED_HEAD\<rparr>)
                   in if n = 0 then ret (True, pin' buf, mu') fd
                      else if n < 0 then fail Exit_failure
                      else bind_io (DC_read_all errno (nat n) fd) (\<lambda>(rc, _, bytes) fd1.
                        if rc \<noteq> 0 then fail Exit_failure
                        else case bind_result (block_write (mem buf) 0 bytes) (\<lambda>blk.
                            setUsedSize n (if pBuf buf = None then buf else buf\<lparr>pBuf := Some blk\<rparr>)) of
                          Inl e \<Rightarrow> fail e
                        | Inr b \<Rightarrow> ret (True, pin' b, mu') fd1)
               | (Inl e, _) \<Rightarrow> fail e
               | (_, None) \<Rightarrow> fail Undefined_behaviour))"

text \<open>
  One pass of the main loop: \<open>ready\<close> is what \<open>dcmpi_socket_data_ready_for_reading\<close> answers. The
  packet of the result is the one to deliver.
\<close>

definition proxy_in_pass :: "bool \<Rightarrow> int \<Rightarrow> bool \<Rightarrow> MemUsage \<Rightarrow> proxy_in \<Rightarrow> in_fd \<Rightarrow>
    (DCMPIPacket option \<times> proxy_in \<times> MemUsage, in_fd) io" where
  "proxy_in_pass host errno ready mu pin fd =
     (if \<not> proxy_open pin then ret (None, pin, mu) fd
      else bind_io (if proxy_in_state pin = PROXY_IN_NEED_HEAD \<and> ready then proxy_head host errno pin fd else ret (False, pin) fd)
        (\<lambda>(deliver_packet, pin1) fd1.
          bind_io (if proxy_in_state pin1 = PROXY_IN_NEED_BODY then proxy_body host errno pin1 mu fd1 else ret (deliver_packet, pin1, mu) fd1)
            (\<lambda>(deliver_packet', pin2, mu2) fd2. ret (if deliver_packet' then proxy_in_packet pin2 else None, pin2, mu2) fd2)))"

section \<open>What the proxy hands over\<close>

text \<open>The bytes of a packet, which the proxy does not look into.\<close>

definition packet_bytes :: "bool \<Rightarrow> DCMPIPacket \<Rightarrow> char list" where
  "packet_bytes h p = concat (messages h p)"

text \<open>Packets that a process of the runtime sends to another cluster.\<close>

definition proxied :: "DCMPIPacket \<Rightarrow> bool" where
  "proxied p \<longleftrightarrow> packet_ok p \<and> 0 \<le> sint (to_cluster_rank (address p)) \<and> length (packet_bytes False p) < 2 ^ 31
     \<and> (body p = None \<longrightarrow> body_len p = 0)"

lemma packet_bytes_split:
  assumes "packet_ok p"
  shows "packet_bytes h p = header_of h p @ (case body p of None \<Rightarrow> [] | Some b \<Rightarrow> used b)"
    and "length (packet_bytes h p) = DCMPI_PACKET_HEADER_SIZE + length (case body p of None \<Rightarrow> [] | Some b \<Rightarrow> used b)"
  using packet_ok_header(2) [OF assms, of h] by (simp_all add: packet_bytes_def messages_def split: option.split)

lemma proxied_length:
  assumes "proxied p"
  shows "int DCMPI_PACKET_HEADER_SIZE + sint (body_len p) = int (length (packet_bytes h p))" and "length (packet_bytes h p) < 2 ^ 31"
    and "sint (body_len p) = int (length (case body p of None \<Rightarrow> [] | Some b \<Rightarrow> used b))"
proof -
  have ok: "packet_ok p" using assms by (simp add: proxied_def)
  show b: "sint (body_len p) = int (length (case body p of None \<Rightarrow> [] | Some b \<Rightarrow> used b))"
    using assms packet_ok_body(1) [OF ok] by (cases "body p") (simp_all add: proxied_def)
  show "int DCMPI_PACKET_HEADER_SIZE + sint (body_len p) = int (length (packet_bytes h p))"
    unfolding b packet_bytes_split(2) [OF ok] by simp
  show "length (packet_bytes h p) < 2 ^ 31"
    using assms unfolding proxied_def packet_bytes_split(2) [OF ok] by blast
qed

text \<open>
  The proxy takes a stream of \<open>ProxyWriter\<close> apart into the bytes of the packets, each for the
  cluster it is addressed to.
\<close>

lemma digits_no: "c \<in> set (digits n) \<Longrightarrow> c \<noteq> newline \<and> c \<noteq> CHR '' ''"
  using digits_isdigit [of n] digit_not_space [of c] by (fastforce simp: isspace_def)

definition written :: "bool \<Rightarrow> DCMPIPacket list \<Rightarrow> char list" where
  "written h ps = concat (map (\<lambda>p. proxy_line p @ packet_bytes h p) ps) @ ''bye'' @ [newline]"

lemma proxy_parts:
  assumes "\<forall>p\<in>set ps. proxied p"
  shows "proxy_in_thread (written h ps) = Some (map (\<lambda>p. (nat (sint (to_cluster_rank (address p))), packet_bytes h p)) ps)"
  using assms
proof (induction ps)
  case Nil
  then show ?case by (simp add: written_def proxy_in_thread.simps)
next
  case (Cons p ps)
  let ?d = "digits (nat (sint (to_cluster_rank (address p))))" and ?s = "digits (length (packet_bytes h p))"
  let ?line = "?d @ '' '' @ ?s" and ?after = "packet_bytes h p @ written h ps"
  have p: "proxied p" using Cons.prems by simp
  have line: "proxy_line p = ?line @ [newline]"
    using p proxied_length(1) [OF p, of h] by (simp add: proxy_line_def dcmpi_to_string_def proxied_def)
  have inp: "written h (p # ps) = ?line @ newline # ?after" by (simp add: written_def line)
  have nl: "\<forall>c\<in>set ?line. c \<noteq> newline" using digits_no by auto
  have t: "takeWhile (\<lambda>c. c \<noteq> newline) (written h (p # ps)) = ?line"
    unfolding inp using nl by (subst takeWhile_append2) auto
  have w: "words '' '' ?line = [?d, ?s]"
    using words_append_delim [of ?d "'' ''" "CHR '' ''" ?s] words_token [of ?s "'' ''"] digits_no digits_ne by fastforce
  have nbye: "?line \<noteq> ''bye''"
  proof
    assume "?line = ''bye''"
    then have "CHR '' '' \<in> set ''bye''" by (metis in_set_conv_decomp append_Cons append_Nil)
    then show False by simp
  qed
  have dig: "list_all isdigit ?d" "list_all isdigit ?s" using digits_isdigit by (simp_all add: list_all_iff)
  have dr: "drop (length ?line + 1) (written h (p # ps)) = ?after" unfolding inp by simp
  have ih: "proxy_in_thread (written h ps) = Some (map (\<lambda>p. (nat (sint (to_cluster_rank (address p))), packet_bytes h p)) ps)"
    using Cons by simp
  show ?case
    using nbye digits_ne [of "nat (sint (to_cluster_rank (address p)))"]
    by (subst proxy_in_thread.simps, simp only: t Let_def dr) (simp add: w [simplified] dig digits_decimal ih)
qed

section \<open>Writing\<close>

lemma write_checked_ready:
  assumes "write_ready (length bs + n) fd"
  obtains fd' where "write_checked bs fd = Some (Inr ((), fd'))" "outgoing fd' = outgoing fd @ bs" "write_ready n fd'"
proof -
  obtain fd' where "DC_write_all bs fd = Some (Inr (0, fd'))" "outgoing fd' = outgoing fd @ bs" "write_ready n fd'"
    using DC_write_all_ready [OF assms] .
  with that show thesis by (simp add: write_checked_def ret_def)
qed

lemma proxied_held: "proxied p \<Longrightarrow> 0 \<le> held p"
  by (auto simp: proxied_def packet_ok_def intro: held_body)

lemma proxy_writer_step:
  assumes "proxied p" and "write_ready (length (proxy_line p @ packet_bytes h p) + n) fd"
    and "can_release (proxy_source mrt rnk) (p # ps) mus" and "\<forall>p\<in>set ps. proxied p"
  obtains fd' mus' where "proxy_writer h mrt rnk (Some p # rest) mus fd = proxy_writer h mrt rnk rest mus' fd'"
    "outgoing fd' = outgoing fd @ proxy_line p @ packet_bytes h p" "write_ready n fd'"
    "can_release (proxy_source mrt rnk) ps mus'" "\<forall>m. usage_of mus' m = usage_of mus m - held_by (proxy_source mrt rnk) m [p]"
proof -
  have ok: "packet_ok p" using assms(1) by (simp add: proxied_def)
  let ?b = "case body p of None \<Rightarrow> [] | Some b \<Rightarrow> used b"
  note parts = packet_bytes_split(1) [OF ok, of h]
  have fits: "int4_ok (int DCMPI_PACKET_HEADER_SIZE + sint (body_len p))"
    using proxied_length(1,2) [OF assms(1), of h] by (simp add: int4_ok_def)
  have w: "write_ready (length (proxy_line p) + (length (header_of h p) + (length ?b + n))) fd"
    using assms(2) by (simp add: parts add.assoc)
  obtain fd1 where 1: "write_checked (proxy_line p) fd = Some (Inr ((), fd1))" "outgoing fd1 = outgoing fd @ proxy_line p"
    "write_ready (length (header_of h p) + (length ?b + n)) fd1" using write_checked_ready [OF w] .
  obtain fd2 where 2: "write_checked (header_of h p) fd1 = Some (Inr ((), fd2))" "outgoing fd2 = outgoing fd1 @ header_of h p"
    "write_ready (length ?b + n) fd2" using write_checked_ready [OF 1(3)] .
  note hdr = packet_ok_header(1) [OF ok, of h]
  show thesis
  proof (cases "body p")
    case None
    then have "held p = 0" using ok by (simp add: packet_ok_def held_def)
    then have "held_by (proxy_source mrt rnk) m (p # ps) = held_by (proxy_source mrt rnk) m ps" "held_by (proxy_source mrt rnk) m [p] = 0" for m
      by simp_all
    moreover from this(1) have "can_release (proxy_source mrt rnk) ps mus"
      using assms(3) unfolding can_release_def by (metis list.set_intros(2))
    moreover have "proxy_writer h mrt rnk (Some p # rest) mus fd = proxy_writer h mrt rnk rest mus fd2"
      using hdr fits 1(1) 2(1) None by simp
    ultimately show thesis using that [of mus fd2] 1(2) 2(2,3) None by (simp add: parts)
  next
    case (Some b)
    then have t: "packet_type p = DCMPI_PACKET_TYPE_DCBUF" using ok by (simp add: packet_ok_def)
    note sz = sendable_body [OF packet_ok_sendable [OF ok] Some]
    have "write_ready (length (used b) + n) fd2" using 2(3) Some by simp
    then obtain fd3 where 3: "write_checked (used b) fd2 = Some (Inr ((), fd3))" "outgoing fd3 = outgoing fd2 @ used b" "write_ready n fd3"
      by (rule write_checked_ready)
    have nn: "\<forall>p\<in>set (p # ps). 0 \<le> held p" using assms(1,4) by (simp add: proxied_held)
    obtain mus' where m: "release_body (proxy_source mrt rnk) p mus = Inr mus'" "can_release (proxy_source mrt rnk) ps mus'"
      "\<forall>m. usage_of mus' m = usage_of mus m - held_by (proxy_source mrt rnk) m [p]"
      using release_body_ok [OF t assms(3) nn] .
    have "proxy_writer h mrt rnk (Some p # rest) mus fd = proxy_writer h mrt rnk rest mus' fd3"
      using hdr fits 1(1) 2(1) Some sz 3(1) m(1) by simp
    with that [of mus' fd3] m(2,3) 1(2) 2(2) 3(2,3) Some show thesis by (simp add: parts)
  qed
qed

lemma proxy_writer_writes:
  assumes "\<forall>p\<in>set ps. proxied p" and "write_ready (length (written h ps)) fd" and "can_release (proxy_source mrt rnk) ps mus"
  shows "\<exists>mus' fd'. proxy_writer h mrt rnk (map Some ps @ [None]) mus fd = Some (Inr (mus', fd'))
    \<and> outgoing fd' = outgoing fd @ written h ps \<and> (\<forall>m. usage_of mus' m = usage_of mus m - held_by (proxy_source mrt rnk) m ps)"
  using assms
proof (induction ps arbitrary: mus fd)
  case Nil
  then have "write_ready (length (''bye'' @ [newline]) + 0) fd" by (simp add: written_def)
  then obtain fd' where "write_checked (''bye'' @ [newline]) fd = Some (Inr ((), fd'))" "outgoing fd' = outgoing fd @ ''bye'' @ [newline]"
    using write_checked_ready by blast
  then show ?case by (simp add: written_def ret_def)
next
  case (Cons p ps)
  have p: "proxied p" "\<forall>p\<in>set ps. proxied p" using Cons.prems(1) by simp_all
  have w: "write_ready (length (proxy_line p @ packet_bytes h p) + length (written h ps)) fd"
    using Cons.prems(2) by (simp add: written_def add.assoc)
  obtain fd1 mus1 where s: "proxy_writer h mrt rnk (Some p # (map Some ps @ [None])) mus fd = proxy_writer h mrt rnk (map Some ps @ [None]) mus1 fd1"
    "outgoing fd1 = outgoing fd @ proxy_line p @ packet_bytes h p" "write_ready (length (written h ps)) fd1"
    "can_release (proxy_source mrt rnk) ps mus1" "\<forall>m. usage_of mus1 m = usage_of mus m - held_by (proxy_source mrt rnk) m [p]"
    using proxy_writer_step [OF p(1) w Cons.prems(3) p(2), of "map Some ps @ [None]"] .
  from Cons.IH [OF p(2) s(3,4)] s(1,2,5) show ?case by (auto simp: written_def diff_diff_eq)
qed

section \<open>Reading\<close>

lemma read_line_ready:
  assumes "newline \<notin> set m" and "incoming fd = m @ newline # rest" and "read_ready (length m + 1 + n) fd"
  obtains fd' where "dcmpi_socket_read_line errno fd = Some (Inr (m, fd'))" "incoming fd' = rest" "read_ready n fd'"
proof -
  have "\<exists>fd'. read_line_loop errno str fd = Some (Inr (str @ m, fd')) \<and> incoming fd' = rest \<and> read_ready n fd'" for str
    using assms
  proof (induction m arbitrary: str fd)
    case Nil
    have "read_ready (length [newline] + n) fd" "incoming fd = [newline] @ rest" using Nil by simp_all
    from DC_read_all_ready [OF this, of errno] obtain fd' eof where
      "DC_read_all errno (length [newline]) fd = Some (Inr ((0, eof, [newline]), fd'))" "incoming fd' = rest" "read_ready n fd'" .
    then show ?case by (subst read_line_loop.simps) simp
  next
    case (Cons c m)
    have "read_ready (length [c] + (length m + 1 + n)) fd" "incoming fd = [c] @ (m @ newline # rest)" using Cons.prems by simp_all
    from DC_read_all_ready [OF this, of errno] obtain fd1 eof where
      r: "DC_read_all errno (length [c]) fd = Some (Inr ((0, eof, [c]), fd1))" "incoming fd1 = m @ newline # rest"
        "read_ready (length m + 1 + n) fd1" .
    have "newline \<notin> set m" "c \<noteq> newline" using Cons.prems(1) by auto
    from Cons.IH [OF this(1) r(2,3), of "str @ [c]"] this(2) r(1) show ?case by (subst read_line_loop.simps) simp
  qed
  from this [of "[]"] that show thesis by (auto simp: dcmpi_socket_read_line_def)
qed

text \<open>What the proxy still has for a cluster, and what its end looks like.\<close>

definition handed :: "bool \<Rightarrow> DCMPIPacket list \<Rightarrow> char list" where
  "handed h ps = concat (map (\<lambda>p. proxy_out_item (packet_bytes h p)) ps) @ ''bye'' @ [newline]"

definition on_proxy :: "bool \<Rightarrow> char list \<Rightarrow> proxy_in \<Rightarrow> in_fd \<Rightarrow> DCMPIPacket list \<Rightarrow> bool" where
  "on_proxy h rest pin fd ps \<longleftrightarrow>
     (if \<not> proxy_open pin then ps = [] \<and> incoming fd = rest
      else if proxy_in_state pin = PROXY_IN_NEED_BODY
      then \<exists>p ps' b. ps = p # ps' \<and> body p = Some b \<and> proxy_in_packet pin = Some (p\<lparr>body := None\<rparr>)
           \<and> proxy_in_body_length pin = int (length (used b)) \<and> incoming fd = used b @ handed h ps' @ rest
           \<and> read_ready (length (used b @ handed h ps')) fd
      else incoming fd = handed h ps @ rest \<and> read_ready (length (handed h ps)) fd)"

lemma handed_Cons:
  assumes "proxied p"
  shows "handed h (p # ps) = dcmpi_to_string (int (length (packet_bytes h p))) @ newline # header_of h p
    @ (case body p of None \<Rightarrow> [] | Some b \<Rightarrow> used b) @ handed h ps"
  using assms packet_bytes_split(1) [of p h] by (simp add: handed_def proxy_out_item_def proxied_def)

lemma proxy_head_ok:
  assumes "proxied p" and "incoming fd = handed h (p # ps) @ rest" and "read_ready (length (handed h (p # ps))) fd"
    and "proxy_in_state pin = PROXY_IN_NEED_HEAD"
  obtains fd' where "proxy_head host errno pin fd = Some (Inr ((body p = None,
      pin\<lparr>proxy_in_body_length := sint (body_len p), proxy_in_packet := Some (p\<lparr>body := None\<rparr>),
        proxy_in_state := if body p = None then PROXY_IN_NEED_HEAD else PROXY_IN_NEED_BODY\<rparr>), fd'))"
    "incoming fd' = (case body p of None \<Rightarrow> [] | Some b \<Rightarrow> used b) @ handed h ps @ rest"
    "read_ready (length ((case body p of None \<Rightarrow> [] | Some b \<Rightarrow> used b) @ handed h ps)) fd'"
proof -
  let ?line = "dcmpi_to_string (int (length (packet_bytes h p)))" and ?b = "case body p of None \<Rightarrow> [] | Some b \<Rightarrow> used b"
  have ok: "packet_ok p" using assms(1) by (simp add: proxied_def)
  note h = packet_ok_header [OF ok] and len = proxied_length [OF assms(1)]
  have nl: "newline \<notin> set ?line" using digits_no by (auto simp: dcmpi_to_string_def)
  have dig: "\<forall>c\<in>set ?line. isdigit c" using digits_isdigit by (simp add: dcmpi_to_string_def)
  have nbye: "?line \<noteq> ''bye''" using dig by (auto simp: isdigit_def less_eq_char_def)
  have inc: "incoming fd = ?line @ newline # header_of h p @ ?b @ handed h ps @ rest"
    "read_ready (length ?line + 1 + (length (header_of h p) + length (?b @ handed h ps))) fd"
    using assms(2,3) unfolding handed_Cons [OF assms(1)] by (simp_all add: add.assoc)
  obtain fd1 where 1: "dcmpi_socket_read_line errno fd = Some (Inr (?line, fd1))" "incoming fd1 = header_of h p @ ?b @ handed h ps @ rest"
    "read_ready (length (header_of h p) + length (?b @ handed h ps)) fd1"
    using read_line_ready [OF nl inc] .
  obtain fd2 eof where 2: "DC_read_all errno (length (header_of h p)) fd1 = Some (Inr ((0, eof, header_of h p), fd2))"
    "incoming fd2 = ?b @ handed h ps @ rest" "read_ready (length (?b @ handed h ps)) fd2"
    using DC_read_all_ready [OF 1(3,2)] .
  have a: "Atoi ?line = Inr (int (length (packet_bytes h p)))" using len(2) [of h] by (intro Atoi_digits) simp
  have l: "int (length (packet_bytes h p)) - int DCMPI_PACKET_HEADER_SIZE = sint (body_len p)" using len(1) [of h] by simp
  have i: "int4_ok (sint (body_len p))" using sint_ge [of "body_len p"] sint_lt [of "body_len p"] by (simp add: int4_ok_def)
  have t: "packet_type p = DCMPI_PACKET_TYPE_DCBUF \<longleftrightarrow> body p \<noteq> None" using ok by (simp add: packet_ok_def)
  have "proxy_head host errno pin fd = Some (Inr ((body p = None,
      pin\<lparr>proxy_in_body_length := sint (body_len p), proxy_in_packet := Some (p\<lparr>body := None\<rparr>),
        proxy_in_state := if body p = None then PROXY_IN_NEED_HEAD else PROXY_IN_NEED_BODY\<rparr>), fd2))"
    using 1(1) 2(1) nbye t assms(4) unfolding h(2) by (auto simp: proxy_head_def a l i h(3) ret_def Let_def)
  with that 2(2,3) show thesis by blast
qed

lemma proxy_body_ok:
  assumes "body p = Some b" and "proxy_in_packet pin = Some (p\<lparr>body := None\<rparr>)" and "proxy_in_body_length pin = int (length (used b))"
    and "short (used b)" and "incoming fd = used b @ rest" and "read_ready (length (used b) + n) fd" and "budget_ok mu"
  shows "current_usage mu + int (length (used b)) \<le> memory_threshold mu \<and>
      (\<exists>p' mu' fd'. proxy_body host errno pin mu fd = Some (Inr ((True, pin\<lparr>proxy_in_packet := Some p', proxy_in_state := PROXY_IN_NEED_HEAD\<rparr>, mu'), fd'))
        \<and> received_as host p p' \<and> incoming fd' = rest \<and> read_ready n fd' \<and> current_usage mu' = current_usage mu + int (length (used b)))
    \<or> \<not> current_usage mu + int (length (used b)) \<le> memory_threshold mu \<and> proxy_body host errno pin mu fd = Some (Inr ((False, pin, mu), fd))"
proof -
  have "int (length (used b)) < 2 ^ 31" using assms(4) by (simp add: short_def)
  then have mu': "accumulate_if_not_exceeding_limit (int (length (used b))) mu = Inr (if current_usage mu + int (length (used b)) \<le> memory_threshold mu
      then (True, mu\<lparr>current_usage := current_usage mu + int (length (used b))\<rparr>) else (False, mu))"
    using accumulate_room [OF assms(7), of "int (length (used b))"] by simp
  let ?mu = "mu\<lparr>current_usage := current_usage mu + int (length (used b))\<rparr>"
  show ?thesis
  proof (cases "current_usage mu + int (length (used b)) \<le> memory_threshold mu")
    case False
    then show ?thesis using mu' by (simp add: proxy_body_def Let_def assms(3) ret_def)
  next
    case True
    show ?thesis
    proof (cases "used b = []")
      case empty: True
      have "DCBuffer_sized host 0 = Inr (DCBuffer_empty host)"
        by (simp add: DCBuffer_sized_def New_def DCBuffer_empty_def commonInit_def Delete_def)
      moreover have "received_as host p (p\<lparr>body := Some (DCBuffer_empty host)\<rparr>)"
        using assms(1) empty by (simp add: received_as_def DCBuffer_empty_def commonInit_def used_def mem_def)
      ultimately show ?thesis
        using True mu' assms(2,3,5,6) empty by (auto simp: proxy_body_def Let_def ret_def)
    next
      case ne: False
      obtain buf b' where b: "DCBuffer_sized host (int (length (used b))) = Inr buf"
        "bind_result (block_write (mem buf) 0 (used b)) (\<lambda>blk.
          setUsedSize (int (length (used b))) (if pBuf buf = None then buf else buf\<lparr>pBuf := Some blk\<rparr>)) = Inr b'"
        "used b' = used b" "isbigendian b' = host" using new_body [OF refl] by blast
      obtain fd' eof where r: "DC_read_all errno (length (used b)) fd = Some (Inr ((0, eof, used b), fd'))"
        "incoming fd' = rest" "read_ready n fd'"
        using DC_read_all_ready [OF assms(6,5)] .
      have "proxy_body host errno pin mu fd
        = Some (Inr ((True, pin\<lparr>proxy_in_packet := Some (p\<lparr>body := Some b'\<rparr>), proxy_in_state := PROXY_IN_NEED_HEAD\<rparr>, ?mu), fd'))"
        using True mu' b r(1) ne by (simp add: proxy_body_def Let_def assms(2,3) ret_def)
      moreover have "received_as host p (p\<lparr>body := Some b'\<rparr>)" using assms(1) b by (simp add: received_as_def)
      moreover have "current_usage ?mu = current_usage mu + int (length (used b))" by simp
      ultimately show ?thesis using True r(2,3) by blast
    qed
  qed
qed

text \<open>A pass delivers the next packet or none; with data and memory it delivers one or meets the end.\<close>

lemma proxy_pass_ok:
  assumes "on_proxy h rest pin fd ps" and "\<forall>p\<in>set ps. proxied p" and "budget_ok mu"
  shows "\<exists>pk pin' mu' fd'. proxy_in_pass host errno ready mu pin fd = Some (Inr ((pk, pin', mu'), fd'))
    \<and> (case pk of None \<Rightarrow> mu' = mu \<and> on_proxy h rest pin' fd' ps \<and> (ready \<and> has_room ps mu \<longrightarrow> ps = [] \<and> \<not> proxy_open pin')
       | Some p' \<Rightarrow> \<exists>p ps'. ps = p # ps' \<and> received_as host p p' \<and> on_proxy h rest pin' fd' ps' \<and> current_usage mu' = current_usage mu + held p')
      \<and> (\<not> proxy_open pin \<longrightarrow> \<not> proxy_open pin')"
proof (cases "proxy_open pin")
  case False
  then show ?thesis using assms(1) by (auto simp: proxy_in_pass_def on_proxy_def ret_def)
next
  case op: True
  have body: "\<exists>pk pin' mu' fd'. bind_io (proxy_body host errno pin1 mu fd1)
        (\<lambda>(deliver_packet', pin2, mu2) fd2. ret (if deliver_packet' then proxy_in_packet pin2 else None, pin2, mu2) fd2) = Some (Inr ((pk, pin', mu'), fd'))
      \<and> (case pk of None \<Rightarrow> mu' = mu \<and> on_proxy h rest pin' fd' ps \<and> (ready \<and> has_room ps mu \<longrightarrow> ps = [] \<and> \<not> proxy_open pin')
       | Some p' \<Rightarrow> \<exists>p ps'. ps = p # ps' \<and> received_as host p p' \<and> on_proxy h rest pin' fd' ps' \<and> current_usage mu' = current_usage mu + held p')
      \<and> (\<not> proxy_open pin \<longrightarrow> \<not> proxy_open pin')"
    if on: "on_proxy h rest pin1 fd1 ps" and st: "proxy_open pin1" "proxy_in_state pin1 = PROXY_IN_NEED_BODY" for pin1 fd1
  proof -
    obtain p ps' b where p: "ps = p # ps'" "body p = Some b" "proxy_in_packet pin1 = Some (p\<lparr>body := None\<rparr>)"
        "proxy_in_body_length pin1 = int (length (used b))" "incoming fd1 = used b @ handed h ps' @ rest"
        "read_ready (length (used b) + length (handed h ps')) fd1"
      using on st by (auto simp: on_proxy_def)
    have ok: "packet_ok p" using assms(2) p(1) by (simp add: proxied_def)
    note sz = packet_ok_body [OF ok p(2)]
    from proxy_body_ok [OF p(2-4) sz(2) p(5,6) assms(3), of host errno] show ?thesis
    proof (elim disjE conjE exE)
      fix p' mu' fd'
      assume "proxy_body host errno pin1 mu fd1 = Some (Inr ((True, pin1\<lparr>proxy_in_packet := Some p', proxy_in_state := PROXY_IN_NEED_HEAD\<rparr>, mu'), fd'))"
        "received_as host p p'" "incoming fd' = handed h ps' @ rest" "read_ready (length (handed h ps')) fd'"
        "current_usage mu' = current_usage mu + int (length (used b))"
      moreover from this(2) have "held p' = int (length (used b))" using ok p(2) sz(1) by (simp add: received_as_def held_def packet_ok_def)
      ultimately show ?thesis using st op p(1) by (simp add: on_proxy_def ret_def)
    next
      assume "\<not> current_usage mu + int (length (used b)) \<le> memory_threshold mu" "proxy_body host errno pin1 mu fd1 = Some (Inr ((False, pin1, mu), fd1))"
      then show ?thesis using on op p(1) sz(1) by (simp add: has_room_def ret_def)
    qed
  qed
  show ?thesis
  proof (cases "proxy_in_state pin")
    case PROXY_IN_NEED_BODY
    then have "proxy_in_pass host errno ready mu pin fd = bind_io (proxy_body host errno pin mu fd)
        (\<lambda>(deliver_packet', pin2, mu2) fd2. ret (if deliver_packet' then proxy_in_packet pin2 else None, pin2, mu2) fd2)"
      using op by (simp add: proxy_in_pass_def ret_def [of "(False, pin)"])
    then show ?thesis using body [OF assms(1) op PROXY_IN_NEED_BODY] by (simp only:)
  next
    case head: PROXY_IN_NEED_HEAD
    have inc: "incoming fd = handed h ps @ rest" "read_ready (length (handed h ps)) fd"
      using assms(1) op head by (simp_all add: on_proxy_def)
    show ?thesis
    proof (cases "ready")
      case False
      then show ?thesis using assms(1) op head by (simp add: proxy_in_pass_def ret_def)
    next
      case ready: True
      show ?thesis
      proof (cases ps)
        case Nil
        have i: "newline \<notin> set ''bye''" "incoming fd = ''bye'' @ newline # rest" "read_ready (length ''bye'' + 1 + 0) fd"
          using inc Nil by (simp_all add: handed_def)
        obtain fd' where "dcmpi_socket_read_line errno fd = Some (Inr (''bye'', fd'))" "incoming fd' = rest"
          using read_line_ready [OF i] .
        then show ?thesis using ready op head Nil
          by (simp add: proxy_in_pass_def proxy_head_def ret_def on_proxy_def)
      next
        case (Cons p ps')
        have p: "proxied p" using assms(2) Cons by simp
        let ?b = "case body p of None \<Rightarrow> [] | Some b \<Rightarrow> used b"
        let ?pin = "pin\<lparr>proxy_in_body_length := sint (body_len p), proxy_in_packet := Some (p\<lparr>body := None\<rparr>),
          proxy_in_state := if body p = None then PROXY_IN_NEED_HEAD else PROXY_IN_NEED_BODY\<rparr>"
        obtain fd1 where hd: "proxy_head host errno pin fd = Some (Inr ((body p = None, ?pin), fd1))"
          "incoming fd1 = ?b @ handed h ps' @ rest" "read_ready (length (?b @ handed h ps')) fd1"
          using proxy_head_ok [OF p inc [unfolded Cons] head] .
        show ?thesis
        proof (cases "body p")
          case None
          have "received_as host p (p\<lparr>body := None\<rparr>)" using None by (simp add: received_as_def)
          moreover have "held (p\<lparr>body := None\<rparr>) = 0" using None p by (simp add: held_def proxied_def packet_ok_def)
          ultimately show ?thesis
            using hd None ready op head Cons by (simp add: proxy_in_pass_def ret_def on_proxy_def)
        next
          case (Some b)
          have "on_proxy h rest ?pin fd1 ps"
            using hd(2,3) Some op Cons proxied_length(3) [OF p] by (simp add: on_proxy_def)
          from body [OF this] op Some obtain pk pin' mu' fd' where
            "bind_io (proxy_body host errno ?pin mu fd1)
              (\<lambda>(deliver_packet', pin2, mu2) fd2. ret (if deliver_packet' then proxy_in_packet pin2 else None, pin2, mu2) fd2) = Some (Inr ((pk, pin', mu'), fd'))"
            "case pk of None \<Rightarrow> mu' = mu \<and> on_proxy h rest pin' fd' ps \<and> (ready \<and> has_room ps mu \<longrightarrow> ps = [] \<and> \<not> proxy_open pin')
             | Some p' \<Rightarrow> \<exists>p ps'. ps = p # ps' \<and> received_as host p p' \<and> on_proxy h rest pin' fd' ps' \<and> current_usage mu' = current_usage mu + held p'"
            by auto
          then show ?thesis
            using hd(1) Some ready op head by (intro exI conjI) (simp_all add: proxy_in_pass_def)
        qed
      qed
    qed
  qed
qed

text \<open>The proxy provides the interface of \<open>Channel\<close>.\<close>

interpretation proxy_link: packet_channel "proxy_in_pass host errno" "on_proxy h rest" proxied "received_as host" "\<lambda>pin. \<not> proxy_open pin" budget_ok
  for host errno h rest
  by unfold_locales (rule proxy_pass_ok)

section \<open>Properties\<close>


text \<open>A buffer of two bytes for cluster 1.\<close>

definition far_packet :: DCMPIPacket where
  "far_packet = DCMPIPacket_new \<lparr>to_rank = 5, to_cluster_rank = 1, to_gftid = 2, to_port = ''i'',
     from_rank = 0, from_cluster_rank = 0, from_gftid = 1, from_port = ''o''\<rparr>
     DCMPI_PACKET_TYPE_DCBUF 2 (Some (restored False ''hi''))"

lemma far_packet_ok: "proxied far_packet" "length (packet_bytes h far_packet) = 163" "held far_packet = 2"
proof -
  have s: "short ''hi''" by (simp add: short_def)
  have ok: "packet_ok far_packet"
    using restored_wf(1) [OF s, of False]
    by (simp add: packet_ok_def sendable_packet_def far_packet_def DCMPIPacket_new_def port_ok_def DCMPI_PORT_MAXLEN_SIZE_def restored_def)
  have b: "body far_packet = Some (restored False ''hi'')" "used (restored False ''hi'') = ''hi''"
    by (simp_all add: far_packet_def DCMPIPacket_new_def restored_def used_def mem_def)
  show len: "length (packet_bytes h far_packet) = 163" for h
    using packet_bytes_split(2) [OF ok, of h] by (simp add: b DCMPI_PACKET_HEADER_SIZE_def DCMPI_PORT_MAXLEN_SIZE_def)
  show "proxied far_packet" using ok len by (simp add: proxied_def) (simp add: far_packet_def DCMPIPacket_new_def)
  show "held far_packet = 2" by (simp add: held_def far_packet_def DCMPIPacket_new_def)
qed

lemma far_packet_streams: "length (written h [far_packet]) = 173" "length (handed h [far_packet]) = 171"
proof -
  have "sint (to_cluster_rank (address far_packet)) = 1" "sint (body_len far_packet) = 2"
    by (simp_all add: far_packet_def DCMPIPacket_new_def)
  then show "length (written h [far_packet]) = 173" "length (handed h [far_packet]) = 171"
    using far_packet_ok(2) [of h]
    by (simp_all add: written_def handed_def proxy_line_def proxy_out_item_def dcmpi_to_string_def digits.simps
        DCMPI_PACKET_HEADER_SIZE_def DCMPI_PORT_MAXLEN_SIZE_def)
qed


text \<open>
  C4. Into a cluster: what the proxy hands over for the packets that are addressed to a cluster is,
  for the passes of the main loop there, a queue of packets: however often the poll says no or
  there is no memory for a body, they deliver the packets in order, without loss or repetition, and
  never fail; the budgets are charged with exactly the bodies; after one more pass with data and memory than there are packets, all are delivered and
  the socket is closed.
\<close>

theorem proxy_is_queue:
  assumes "\<forall>p\<in>set ps. proxied p" and "incoming fd = handed h ps @ rest" and "read_ready (length (handed h ps)) fd"
    and "\<forall>(ready, mu)\<in>set sched. budget_ok mu"
  shows "\<exists>ds pin' fd' k. channel_run (proxy_in_pass host errno) sched proxy_in_start fd = Some (Inr ((ds, pin', sum_list (map held ds)), fd'))
    \<and> list_all2 (received_as host) (take k ps) ds \<and> on_proxy h rest pin' fd' (drop k ps)
    \<and> (length ps < good_passes ps sched \<longrightarrow> length ds = length ps \<and> \<not> proxy_open pin')"
proof -
  have "on_proxy h rest proxy_in_start fd ps" using assms(2,3) by (simp add: on_proxy_def proxy_in_start_def)
  from proxy_link.run_is_queue [OF assms(4) this assms(1) subset_refl, of host errno] show ?thesis
    by (simp add: proxy_in_start_def Suc_le_eq)
qed

text \<open>There is no memory for the body at first.\<close>

theorem proxy_is_queue_witness:
  "\<exists>ds pin' fd' n. channel_run (proxy_in_pass True 0) [(True, \<lparr>memory_threshold = 1, current_usage = 0\<rparr>), (True, \<lparr>memory_threshold = 9, current_usage = 0\<rparr>),
      (True, \<lparr>memory_threshold = 9, current_usage = 0\<rparr>)] proxy_in_start
      \<lparr>in_events = replicate 171 (Read_upto 0), incoming = handed False [far_packet]\<rparr> = Some (Inr ((ds, pin', n), fd'))
    \<and> length ds = 1 \<and> \<not> proxy_open pin'"
proof -
  let ?fd = "\<lparr>in_events = replicate 171 (Read_upto 0), incoming = handed False [far_packet]\<rparr>"
  let ?sched = "[(True, \<lparr>memory_threshold = 1, current_usage = 0\<rparr>), (True, \<lparr>memory_threshold = 9, current_usage = 0\<rparr>),
      (True, \<lparr>memory_threshold = 9, current_usage = 0\<rparr>)]"
  have "\<forall>p\<in>set [far_packet]. proxied p" "incoming ?fd = handed False [far_packet] @ []" by (simp_all add: far_packet_ok)
  moreover have "read_ready (length (handed False [far_packet])) ?fd" by (auto simp: read_ready_def no_errors_def far_packet_streams)
  moreover have "\<forall>(ready, mu)\<in>set ?sched. budget_ok mu" by (simp add: budget_ok_def)
  moreover have "good_passes [far_packet] ?sched = 2"
    by (simp add: good_passes_def has_room_def far_packet_def DCMPIPacket_new_def)
  ultimately show ?thesis using proxy_is_queue [of "[far_packet]" ?fd False "[]" ?sched True 0] by fastforce
qed

end
