(* ===== verification/Sha1.thy ===== *)
theory Sha1
  imports Prelude
begin

unbundle bit_operations_syntax

text \<open>
  The checksum of \<open>src/src/dcmpi_sha1.cpp\<close> and its wrappers in \<open>src/src/dcmpi.cpp\<close>: a context that
  takes a message in pieces of any lengths, with the unrolled rounds of the code, against the definition
  of SHA-1 in FIPS 180 over the whole padded message. Bytes are words of 8 bits here.
\<close>

type_synonym uint4 = "32 word"

section \<open>The code\<close>

record sha1_context =
  sha_total :: "uint4 \<times> uint4"
  sha_state :: "uint4 list"
  sha_buffer :: "uint1 list"

definition GET_UINT4 :: "uint1 list \<Rightarrow> nat \<Rightarrow> uint4" where
  "GET_UINT4 b i = push_bit 24 (ucast (b ! i)) OR push_bit 16 (ucast (b ! (i + 1)))
     OR push_bit 8 (ucast (b ! (i + 2))) OR ucast (b ! (i + 3))"

definition PUT_UINT4 :: "uint4 \<Rightarrow> uint1 list" where
  "PUT_UINT4 n = [ucast (drop_bit 24 n), ucast (drop_bit 16 n), ucast (drop_bit 8 n), ucast n]"

definition sha1_starts :: "sha1_context \<Rightarrow> sha1_context" where
  "sha1_starts ctx = ctx\<lparr>sha_total := (0, 0),
     sha_state := [0x67452301, 0xEFCDAB89, 0x98BADCFE, 0x10325476, 0xC3D2E1F0]\<rparr>"

definition S :: "uint4 \<Rightarrow> nat \<Rightarrow> uint4" where
  "S x n = push_bit n x OR drop_bit (32 - n) (x AND 0xFFFFFFFF)"

text \<open>The macros \<open>F\<close> and \<open>K\<close>, which are redefined every 20 rounds.\<close>

definition F :: "nat \<Rightarrow> uint4 \<Rightarrow> uint4 \<Rightarrow> uint4 \<Rightarrow> uint4" where
  "F t x y z =
     (if t < 20 then z XOR (x AND (y XOR z))
      else if t < 40 then x XOR y XOR z
      else if t < 60 then (x AND y) OR (z AND (x OR y))
      else x XOR y XOR z)"

definition K :: "nat \<Rightarrow> uint4" where
  "K t = (if t < 20 then 0x5A827999 else if t < 40 then 0x6ED9EBA1 else if t < 60 then 0x8F1BBCDC else 0xCA62C1D6)"

text \<open>
  \<open>P(a, b, c, d, e, x)\<close>: the arguments are indices into the registers \<open>A\<close> to \<open>E\<close>. In round \<open>t\<close> of
  the code they are rotated by \<open>t\<close>. From round 16 on \<open>x\<close> is \<open>R(t)\<close>, which writes \<open>W\<close> in place.
\<close>

definition P :: "nat \<Rightarrow> nat \<Rightarrow> nat \<Rightarrow> nat \<Rightarrow> nat \<Rightarrow> nat \<Rightarrow> uint4 \<Rightarrow> uint4 list \<Rightarrow> uint4 list" where
  "P t a b c d e x regs =
     (let regs1 = regs[e := regs ! e + (S (regs ! a) 5 + F t (regs ! b) (regs ! c) (regs ! d) + K t + x)]
      in regs1[b := S (regs1 ! b) 30])"

definition R :: "nat \<Rightarrow> uint4 list \<Rightarrow> uint4 list" where
  "R t W = (let temp = W ! ((t - 3) mod 16) XOR W ! ((t - 8) mod 16) XOR W ! ((t - 14) mod 16) XOR W ! (t mod 16)
     in W[t mod 16 := S temp 1])"

definition reg :: "nat \<Rightarrow> nat \<Rightarrow> nat" where
  "reg t i = (80 - t + i) mod 5"

definition sha1_round :: "nat \<Rightarrow> uint4 list \<times> uint4 list \<Rightarrow> uint4 list \<times> uint4 list" where
  "sha1_round t s =
     (case s of (regs, W) \<Rightarrow>
        let W1 = (if t < 16 then W else R t W)
        in (P t (reg t 0) (reg t 1) (reg t 2) (reg t 3) (reg t 4) (W1 ! (t mod 16)) regs, W1))"

definition sha1_process :: "sha1_context \<Rightarrow> uint1 list \<Rightarrow> sha1_context" where
  "sha1_process ctx data =
     (let W = map (\<lambda>i. GET_UINT4 data (4 * i)) [0..<16];
          regs = fst (fold sha1_round [0..<80] (sha_state ctx, W))
      in ctx\<lparr>sha_state := map2 (+) (sha_state ctx) regs\<rparr>)"

text \<open>\<open>memcpy\<close> into the buffer at an offset; the loop over full blocks of the input.\<close>

definition buffer_put :: "nat \<Rightarrow> uint1 list \<Rightarrow> sha1_context \<Rightarrow> sha1_context" where
  "buffer_put off bs ctx =
     ctx\<lparr>sha_buffer := take off (sha_buffer ctx) @ bs @ drop (off + length bs) (sha_buffer ctx)\<rparr>"

function sha1_blocks :: "sha1_context \<Rightarrow> uint1 list \<Rightarrow> sha1_context \<times> uint1 list" where
  "sha1_blocks ctx input =
     (if 64 \<le> length input then sha1_blocks (sha1_process ctx (take 64 input)) (drop 64 input) else (ctx, input))"
  by pat_completeness auto
termination by (relation "measure (\<lambda>(_, input). length input)") auto

declare sha1_blocks.simps [simp del]

definition sha1_update :: "uint1 list \<Rightarrow> sha1_context \<Rightarrow> sha1_context" where
  "sha1_update input ctx =
     (if of_nat (length input) = (0 :: uint4) then ctx
      else let len = of_nat (length input) :: uint4;
               left = unat (fst (sha_total ctx) AND 0x3F);
               fill = 64 - left;
               total0 = (fst (sha_total ctx) + len) AND 0xFFFFFFFF;
               total1 = (if total0 < len then snd (sha_total ctx) + 1 else snd (sha_total ctx));
               ctx1 = ctx\<lparr>sha_total := (total0, total1)\<rparr>;
               (ctx2, input2, left2) =
                 (if left \<noteq> 0 \<and> fill \<le> length input
                  then let c = buffer_put left (take fill input) ctx1
                       in (sha1_process c (sha_buffer c), drop fill input, 0)
                  else (ctx1, input, left));
               (ctx3, input3) = sha1_blocks ctx2 input2
           in if input3 \<noteq> [] then buffer_put left2 input3 ctx3 else ctx3)"

definition sha1_padding :: "uint1 list" where
  "sha1_padding = 0x80 # replicate 63 0"

definition sha1_finish :: "sha1_context \<Rightarrow> uint1 list" where
  "sha1_finish ctx =
     (let (total0, total1) = sha_total ctx;
          high = drop_bit 29 total0 OR push_bit 3 total1;
          low = push_bit 3 total0;
          msglen = PUT_UINT4 high @ PUT_UINT4 low;
          last = unat (total0 AND 0x3F);
          padn = (if last < 56 then 56 - last else 120 - last);
          ctx1 = sha1_update (take padn sha1_padding) ctx;
          ctx2 = sha1_update msglen ctx1
      in concat (map PUT_UINT4 (sha_state ctx2)))"

text \<open>
  The wrapper: the length is cut to 32 bits, so of a longer message only the first part is hashed.
  The context is a local variable, whose buffer has arbitrary contents.
\<close>

definition dcmpi_sha1 :: "uint1 list \<Rightarrow> uint1 list \<Rightarrow> uint1 list" where
  "dcmpi_sha1 garbage message =
     (let message_len = unat (of_nat (length message) :: uint4)
      in sha1_finish (sha1_update (take message_len message) (sha1_starts \<lparr>sha_total = (0, 0), sha_state = [], sha_buffer = garbage\<rparr>)))"

definition hex_digit :: "nat \<Rightarrow> char" where
  "hex_digit n = (if n < 10 then char_of (48 + n) else char_of (87 + n))"

text \<open>\<open>sprintf("%x")\<close> of a byte, with a zero in front if that is one digit.\<close>

definition hex_byte :: "uint1 \<Rightarrow> string" where
  "hex_byte b = (let n = unat b; s1 = (if n < 16 then [hex_digit n] else [hex_digit (n div 16), hex_digit (n mod 16)])
     in if length s1 = 1 then CHR ''0'' # s1 else s1)"

definition dcmpi_sha1_tostring :: "uint1 list \<Rightarrow> uint1 list \<Rightarrow> string" where
  "dcmpi_sha1_tostring garbage message = concat (map hex_byte (dcmpi_sha1 garbage message))"

section \<open>The standard\<close>

text \<open>FIPS 180: the functions and the schedule of the 80 rounds, on the 16 words \<open>M\<close> of a block.\<close>

definition ROTL :: "nat \<Rightarrow> uint4 \<Rightarrow> uint4" where
  "ROTL n x = push_bit n x OR drop_bit (32 - n) x"

definition fips_f :: "nat \<Rightarrow> uint4 \<Rightarrow> uint4 \<Rightarrow> uint4 \<Rightarrow> uint4" where
  "fips_f t x y z =
     (if t < 20 then (x AND y) XOR (NOT x AND z)
      else if 40 \<le> t \<and> t < 60 then (x AND y) XOR (x AND z) XOR (y AND z)
      else x XOR y XOR z)"

function schedule :: "uint4 list \<Rightarrow> nat \<Rightarrow> uint4" where
  "schedule M t =
     (if t < 16 then M ! t
      else ROTL 1 (schedule M (t - 3) XOR schedule M (t - 8) XOR schedule M (t - 14) XOR schedule M (t - 16)))"
  by pat_completeness auto
termination by (relation "measure snd") auto

declare schedule.simps [simp del]

type_synonym registers = "uint4 \<times> uint4 \<times> uint4 \<times> uint4 \<times> uint4"

fun fips_round :: "uint4 list \<Rightarrow> nat \<Rightarrow> registers \<Rightarrow> registers" where
  "fips_round M t (a, b, c, d, e) = (ROTL 5 a + fips_f t b c d + e + K t + schedule M t, a, ROTL 30 b, c, d)"

fun fips_compress :: "uint4 list \<Rightarrow> registers \<Rightarrow> registers" where
  "fips_compress M (h0, h1, h2, h3, h4) =
     (case fold (fips_round M) [0..<80] (h0, h1, h2, h3, h4) of (a, b, c, d, e) \<Rightarrow> (h0 + a, h1 + b, h2 + c, h3 + d, h4 + e))"

text \<open>Numbers are big-endian. A message is followed by a one bit, zeros, and its length in bits.\<close>

definition be_word :: "uint1 list \<Rightarrow> uint4" where
  "be_word bs = foldl (\<lambda>n b. 256 * n + ucast b) 0 bs"

definition be_bytes :: "nat \<Rightarrow> nat \<Rightarrow> uint1 list" where
  "be_bytes k n = map (\<lambda>i. of_nat (n div 256 ^ (k - 1 - i))) [0..<k]"

fun pieces :: "nat \<Rightarrow> 'a list \<Rightarrow> 'a list list" where
  "pieces n xs = (if n = 0 \<or> xs = [] then [] else take n xs # pieces n (drop n xs))"

declare pieces.simps [simp del]

definition fips_padded :: "uint1 list \<Rightarrow> uint1 list" where
  "fips_padded m = m @ [0x80] @ replicate ((119 - length m mod 64) mod 64) 0 @ be_bytes 8 (8 * length m)"

definition fips_block :: "uint1 list \<Rightarrow> uint4 list" where
  "fips_block bs = map be_word (pieces 4 bs)"

fun register_list :: "registers \<Rightarrow> uint4 list" where
  "register_list (a, b, c, d, e) = [a, b, c, d, e]"

definition fips_start :: registers where
  "fips_start = (0x67452301, 0xEFCDAB89, 0x98BADCFE, 0x10325476, 0xC3D2E1F0)"

definition fips_sha1 :: "uint1 list \<Rightarrow> uint1 list" where
  "fips_sha1 m = concat (map (\<lambda>w. be_bytes 4 (unat w))
     (register_list (fold (\<lambda>bs. fips_compress (fips_block bs)) (pieces 64 (fips_padded m)) fips_start)))"

section \<open>One block\<close>

lemma all_ones: "(0xFFFFFFFF :: uint4) = - 1"
  by simp

lemma S_ROTL: "S x n = ROTL n x"
  unfolding S_def ROTL_def all_ones by simp

lemma F_fips: "F t x y z = fips_f t x y z"
  unfolding F_def fips_f_def by (auto intro!: bit_word_eqI simp: bit_simps)

lemma R_length [simp]: "length (R t W) = length W"
  by (simp add: R_def Let_def)

text \<open>The 16 words of the code are the last 16 of the schedule.\<close>

definition window :: "uint4 list \<Rightarrow> nat \<Rightarrow> uint4 list \<Rightarrow> bool" where
  "window M t W \<longleftrightarrow> length W = 16 \<and> (\<forall>j. j < t \<longrightarrow> t \<le> j + 16 \<longrightarrow> W ! (j mod 16) = schedule M j)"

lemma window_start: "length M = 16 \<Longrightarrow> window M 16 M"
  by (simp add: window_def schedule.simps)

lemma window_step:
  assumes "window M t W" and "16 \<le> t"
  shows "window M (t + 1) (R t W)" and "R t W ! (t mod 16) = schedule M t"
proof -
  have W: "length W = 16" "\<And>j. j < t \<Longrightarrow> t \<le> j + 16 \<Longrightarrow> W ! (j mod 16) = schedule M j"
    using assms(1) by (auto simp: window_def)
  have "t mod 16 = (t - 16) mod 16" using assms(2) by (simp add: le_mod_geq)
  then have "W ! (t mod 16) = schedule M (t - 16)" using W(2) [of "t - 16"] assms(2) by simp
  then have temp: "W ! ((t - 3) mod 16) XOR W ! ((t - 8) mod 16) XOR W ! ((t - 14) mod 16) XOR W ! (t mod 16)
      = schedule M (t - 3) XOR schedule M (t - 8) XOR schedule M (t - 14) XOR schedule M (t - 16)"
    using W(2) assms(2) by simp
  show new: "R t W ! (t mod 16) = schedule M t"
    using assms(2) by (simp add: R_def temp S_ROTL W(1) schedule.simps [of M t])
  have "R t W ! (j mod 16) = schedule M j" if j: "j < t + 1" "t + 1 \<le> j + 16" for j
  proof (cases "j = t")
    case False
    then have "j < t" "t - j < 16" using j by auto
    then have "j mod 16 \<noteq> t mod 16" by (metis False diff_is_0_eq dvd_imp_mod_0 less_or_eq_imp_le mod_eq_dvd_iff_nat mod_less not_le zero_less_diff)
    then show ?thesis using W(2) [of j] \<open>j < t\<close> j by (simp add: R_def)
  qed (simp add: new)
  then show "window M (t + 1) (R t W)" using W(1) by (auto simp: window_def)
qed

text \<open>The registers of the code hold those of the standard in rotated order.\<close>

lemma reg_less [simp]: "reg t i < 5"
  by (simp add: reg_def)

lemma reg_next:
  assumes "t < 80"
  shows "reg (t + 1) 0 = reg t 4" and "reg (t + 1) (Suc i) = reg t i"
proof -
  obtain u where u: "80 - t = Suc u" using assms by (metis Suc_diff_Suc)
  then have v: "80 - (t + 1) = u" by simp
  have "(u + 5) mod 5 = u mod 5" by simp
  then show "reg (t + 1) 0 = reg t 4" unfolding reg_def u v by simp
  show "reg (t + 1) (Suc i) = reg t i" unfolding reg_def u v by simp
qed

lemma add_mod_inj:
  assumes "(n + i) mod m = (n + j) mod m" and "i < m" and "j < m"
  shows "i = (j :: nat)"
proof -
  have "i = j" if "i \<le> j" "(n + i) mod m = (n + j) mod m" "j < m" for i j
  proof -
    have "m dvd (n + j) - (n + i)" using that mod_eq_dvd_iff_nat [of "n + i" "n + j" m] by simp
    then have "m dvd j - i" by simp
    then show ?thesis using that by (metis diff_is_0_eq dvd_imp_le le_antisym less_imp_diff_less not_less zero_less_iff_neq_zero)
  qed
  from this [of i j] this [of j i] assms show ?thesis by (metis nat_le_linear)
qed

lemma reg_inj: "i < 5 \<Longrightarrow> j < 5 \<Longrightarrow> reg t i = reg t j \<longleftrightarrow> i = j"
  unfolding reg_def using add_mod_inj [of "80 - t" i 5 j] by blast

fun holds_registers :: "nat \<Rightarrow> uint4 list \<Rightarrow> registers \<Rightarrow> bool" where
  "holds_registers t regs (a, b, c, d, e) \<longleftrightarrow> length regs = 5 \<and> regs ! reg t 0 = a \<and> regs ! reg t 1 = b
     \<and> regs ! reg t 2 = c \<and> regs ! reg t 3 = d \<and> regs ! reg t 4 = e"

lemma P_round:
  assumes "holds_registers t regs r" and "t < 80" and "x = schedule M t"
  shows "holds_registers (t + 1) (P t (reg t 0) (reg t 1) (reg t 2) (reg t 3) (reg t 4) x regs) (fips_round M t r)"
proof -
  obtain a b c d e where r: "r = (a, b, c, d, e)" by (cases r)
  have l: "length regs = 5" and v: "regs ! reg t 0 = a" "regs ! reg t 1 = b" "regs ! reg t 2 = c" "regs ! reg t 3 = d" "regs ! reg t 4 = e"
    using assms(1) by (simp_all add: r)
  note nx = reg_next [OF assms(2)]
  have n: "reg (t + 1) 1 = reg t 0" "reg (t + 1) 2 = reg t 1" "reg (t + 1) 3 = reg t 2" "reg (t + 1) 4 = reg t 3"
    using nx(2) [of 0] nx(2) [of 1] nx(2) [of 2] nx(2) [of 3] by (simp_all add: numeral_eq_Suc)
  show ?thesis
    unfolding r fips_round.simps holds_registers.simps nx(1) n P_def Let_def v
    by (simp add: l v v(2) [unfolded One_nat_def] reg_inj S_ROTL F_fips assms(3) add.commute add.left_commute)
qed

lemma rounds:
  assumes "length M = 16" and "holds_registers 0 regs r" and "n \<le> 80"
  shows "(if n < 16 then snd (fold sha1_round [0..<n] (regs, M)) = M else window M n (snd (fold sha1_round [0..<n] (regs, M))))
    \<and> holds_registers n (fst (fold sha1_round [0..<n] (regs, M))) (fold (fips_round M) [0..<n] r)"
  using assms(3)
proof (induction n)
  case 0
  then show ?case using assms(2) by simp
next
  case (Suc n)
  obtain regs' W where st: "fold sha1_round [0..<n] (regs, M) = (regs', W)" by force
  from Suc st have ih: "if n < 16 then W = M else window M n W" "holds_registers n regs' (fold (fips_round M) [0..<n] r)" by auto
  define W1 where "W1 = (if n < 16 then W else R n W)"
  have x: "W1 ! (n mod 16) = schedule M n"
    using ih(1) window_step(2) [of M n W] by (auto simp: W1_def schedule.simps [of M n])
  have W1: "if Suc n < 16 then W1 = M else window M (Suc n) W1"
  proof (cases "n < 15")
    case False
    have "window M 16 M" by (rule window_start [OF assms(1)])
    then show ?thesis using ih(1) window_step(1) [of M n W] False by (cases "n = 15") (auto simp: W1_def)
  qed (use ih(1) in \<open>simp add: W1_def\<close>)
  have "sha1_round n (regs', W) = (P n (reg n 0) (reg n 1) (reg n 2) (reg n 3) (reg n 4) (W1 ! (n mod 16)) regs', W1)"
    by (simp add: sha1_round_def W1_def Let_def)
  then show ?case using P_round [OF ih(2) _ x] Suc.prems W1 by (simp add: st)
qed

lemma mult_256_plus: "256 * n + ucast (b :: uint1) = push_bit 8 n OR (ucast b :: uint4)"
proof -
  have "push_bit 8 n + ucast b = push_bit 8 n OR (ucast b :: uint4)"
    by (rule disjunctive_add) (auto simp: bit_simps dest: bit_imp_le_length)
  moreover have "256 * n = push_bit 8 n" by (simp add: push_bit_eq_mult mult.commute)
  ultimately show ?thesis by simp
qed

lemma GET_UINT4_be: "GET_UINT4 b i = be_word [b ! i, b ! (i + 1), b ! (i + 2), b ! (i + 3)]"
  unfolding GET_UINT4_def be_word_def foldl.simps mult_256_plus
  by (simp add: push_bit_or or.assoc)

lemma PUT_UINT4_be: "PUT_UINT4 n = be_bytes 4 (unat n)"
proof -
  have "ucast (drop_bit k n) = (of_nat (unat n div 2 ^ k) :: uint1)" for k
    by (metis drop_bit_eq_div of_nat_unat unat_drop_bit_eq)
  from this [of 24] this [of 16] this [of 8] this [of 0] show ?thesis
    by (simp add: PUT_UINT4_def be_bytes_def upt_rec [of _ 4])
qed

lemma pieces_Nil [simp]: "pieces n [] = []"
  by (simp add: pieces.simps)

lemma pieces_step: "0 < n \<Longrightarrow> length a = n \<Longrightarrow> pieces n (a @ xs) = a # pieces n xs"
  by (subst pieces.simps) auto

lemma take_4: "k + 4 \<le> length xs \<Longrightarrow> take 4 (drop k xs) = [xs ! k, xs ! (k + 1), xs ! (k + 2), xs ! (k + 3)]"
  by (rule nth_equalityI) (auto simp: less_Suc_eq numeral_eq_Suc)

lemma pieces_map: "0 < n \<Longrightarrow> length xs = n * k \<Longrightarrow> pieces n xs = map (\<lambda>i. take n (drop (n * i) xs)) [0..<k]"
proof (induction k arbitrary: xs)
  case (Suc k)
  have ih: "pieces n (drop n xs) = map (\<lambda>i. take n (drop (n * i) (drop n xs))) [0..<k]"
    using Suc.IH [of "drop n xs"] Suc.prems by simp
  have "pieces n xs = take n xs # pieces n (drop n xs)"
    using Suc.prems by (subst pieces.simps) auto
  then show ?case
    unfolding ih upt_conv_Cons [OF zero_less_Suc] map_Suc_upt [symmetric] by (simp add: add.commute)
qed simp

lemma words_of_block:
  assumes "length data = 64"
  shows "map (\<lambda>i. GET_UINT4 data (4 * i)) [0..<16] = fips_block data"
  using assms by (simp add: fips_block_def pieces_map [of 4 data 16] GET_UINT4_be take_4 del: upt_rec_numeral)

lemma registers_80:
  assumes "holds_registers 80 l (a, b, c, d, e)"
  shows "l = [a, b, c, d, e]"
proof (rule nth_equalityI)
  show "length l = length [a, b, c, d, e]" using assms by simp
  show "l ! i = [a, b, c, d, e] ! i" if "i < length l" for i
  proof -
    have "i = 0 \<or> i = 1 \<or> i = 2 \<or> i = 3 \<or> i = 4" using that assms by auto
    then show ?thesis using assms by (auto simp: reg_def numeral_2_eq_2)
  qed
qed

lemma process_compress:
  assumes "sha_state ctx = register_list r" and "length data = 64"
  shows "sha1_process ctx data = ctx\<lparr>sha_state := register_list (fips_compress (fips_block data) r)\<rparr>"
proof -
  obtain a b c d e where r: "r = (a, b, c, d, e)" by (cases r)
  have l: "length (fips_block data) = 16" using words_of_block [OF assms(2)] by (metis length_map length_upt diff_zero)
  have "holds_registers 0 (register_list r) r" by (simp add: r reg_def)
  from rounds [OF l this, of 80] have h: "holds_registers 80 (fst (fold sha1_round [0..<80] (register_list r, fips_block data)))
      (fold (fips_round (fips_block data)) [0..<80] r)" by simp
  obtain a' b' c' d' e' where r': "fold (fips_round (fips_block data)) [0..<80] r = (a', b', c', d', e')"
    by (metis prod_cases5)
  have regs: "fst (fold sha1_round [0..<80] (register_list r, fips_block data)) = [a', b', c', d', e']"
    using h unfolding r' by (rule registers_80)
  show ?thesis
    unfolding sha1_process_def words_of_block [OF assms(2)] assms(1) Let_def regs
    using r' by (simp add: r del: upt_rec_numeral)
qed

section \<open>A message in pieces\<close>

definition full_part :: "uint1 list \<Rightarrow> uint1 list" where
  "full_part m = take (64 * (length m div 64)) m"

definition rest_part :: "uint1 list \<Rightarrow> uint1 list" where
  "rest_part m = drop (64 * (length m div 64)) m"

definition compress_all :: "uint1 list \<Rightarrow> registers \<Rightarrow> registers" where
  "compress_all m r = fold (\<lambda>bs. fips_compress (fips_block bs)) (pieces 64 m) r"

lemma full_rest: "full_part m @ rest_part m = m"
  by (simp add: full_part_def rest_part_def)

lemma length_full [simp]: "length (full_part m) = 64 * (length m div 64)"
  by (simp add: full_part_def)

lemma length_rest [simp]: "length (rest_part m) = length m mod 64"
  by (simp add: rest_part_def minus_mult_div_eq_mod)

lemma full_append: "64 dvd length a \<Longrightarrow> full_part (a @ b) = a @ full_part b"
  by (elim dvdE) (simp add: full_part_def)

lemma rest_append: "64 dvd length a \<Longrightarrow> rest_part (a @ b) = rest_part b"
  by (elim dvdE) (simp add: rest_part_def)

lemma full_short: "length m < 64 \<Longrightarrow> full_part m = []"
  by (simp add: full_part_def)

lemma rest_short: "length m < 64 \<Longrightarrow> rest_part m = m"
  by (simp add: rest_part_def)

lemma full_all: "64 dvd length m \<Longrightarrow> full_part m = m"
  by (simp add: full_part_def)

lemma compress_all_Nil [simp]: "compress_all [] r = r"
  by (simp add: compress_all_def)

lemma compress_all_block: "length a = 64 \<Longrightarrow> compress_all (a @ m) r = compress_all m (fips_compress (fips_block a) r)"
  by (simp add: compress_all_def pieces_step)

lemma compress_all_append: "64 dvd length a \<Longrightarrow> compress_all (a @ b) r = compress_all b (compress_all a r)"
proof (induction "length a div 64" arbitrary: a r)
  case 0
  then show ?case by (auto elim: dvdE)
next
  case (Suc n)
  have a: "a = take 64 a @ drop 64 a" and l: "length (take 64 a) = 64" using Suc(2) by auto
  have "compress_all (drop 64 a @ b) (fips_compress (fips_block (take 64 a)) r)
      = compress_all b (compress_all (drop 64 a) (fips_compress (fips_block (take 64 a)) r))"
    using Suc by (intro Suc(1)) auto
  then show ?case by (metis a append.assoc compress_all_block l)
qed

lemma blocks_compress:
  "sha_state ctx = register_list r \<Longrightarrow>
     sha1_blocks ctx input = (ctx\<lparr>sha_state := register_list (compress_all (full_part input) r)\<rparr>, rest_part input)"
proof (induction ctx input arbitrary: r rule: sha1_blocks.induct)
  case (1 ctx input)
  show ?case
  proof (cases "64 \<le> length input")
    case True
    have i: "input = take 64 input @ drop 64 input" and l: "length (take 64 input) = 64" using True by auto
    let ?r = "fips_compress (fips_block (take 64 input)) r"
    have p: "sha1_process ctx (take 64 input) = ctx\<lparr>sha_state := register_list ?r\<rparr>"
      by (rule process_compress [OF 1(2) l])
    have "compress_all (full_part input) r = compress_all (full_part (drop 64 input)) ?r"
      using full_append [of "take 64 input" "drop 64 input"] l by (simp add: compress_all_block)
    moreover have "rest_part input = rest_part (drop 64 input)"
      using rest_append [of "take 64 input" "drop 64 input"] l by simp
    ultimately show ?thesis
      using 1(1) [OF True, of ?r] True p by (simp add: sha1_blocks.simps [of ctx input])
  next
    case False
    then have "full_part input = []" "rest_part input = input" by (simp_all add: full_short rest_short)
    then show ?thesis using False 1(2) by (simp add: sha1_blocks.simps [of ctx input])
  qed
qed

text \<open>A context has taken the message \<open>m\<close>.\<close>

definition taken :: "uint1 list \<Rightarrow> sha1_context \<Rightarrow> bool" where
  "taken m ctx \<longleftrightarrow> sha_total ctx = (of_nat (length m), of_nat (length m div 2 ^ 32))
     \<and> sha_state ctx = register_list (compress_all (full_part m) fips_start)
     \<and> length (sha_buffer ctx) = 64 \<and> take (length m mod 64) (sha_buffer ctx) = rest_part m"

lemma taken_start: "length (sha_buffer ctx) = 64 \<Longrightarrow> taken [] (sha1_starts ctx)"
  by (simp add: taken_def sha1_starts_def full_part_def rest_part_def fips_start_def)

lemma low_six: "unat ((of_nat n :: uint4) AND 0x3F) = n mod 64"
proof -
  have "(0x3F :: uint4) = mask 6" by (simp add: mask_eq_exp_minus_1)
  then have "(of_nat n :: uint4) AND 0x3F = take_bit 6 (of_nat n)"
    by (simp only: take_bit_eq_mask)
  moreover have "take_bit 6 (n mod 2 ^ 32) = n mod 2 ^ 6"
    unfolding take_bit_eq_mod by (rule mod_mod_cancel) simp
  ultimately show ?thesis by (simp only: unsigned_take_bit_eq unat_of_nat) simp
qed

lemma count_total:
  assumes "k < 2 ^ 32"
  shows "(if (of_nat n + of_nat k :: uint4) < of_nat k then of_nat (n div 2 ^ 32) + 1 else of_nat (n div 2 ^ 32))
    = (of_nat ((n + k) div 2 ^ 32) :: uint4)"
proof -
  define u where "u = n mod 2 ^ 32"
  define h where "h = n div 2 ^ 32"
  have n: "n = 2 ^ 32 * h + u" and u: "u < 2 ^ 32" by (simp_all add: u_def h_def)
  have s: "n + k = 2 ^ 32 * h + (u + k)" by (simp add: n)
  have l: "unat (of_nat n + of_nat k :: uint4) = (u + k) mod 2 ^ 32"
    unfolding of_nat_add [symmetric] by (simp only: s unat_of_nat) simp
  have k: "unat (of_nat k :: uint4) = k" using assms by (simp add: unat_of_nat)
  show ?thesis
  proof (cases "u + k < 2 ^ 32")
    case True
    then have "(n + k) div 2 ^ 32 = h" unfolding s by simp
    then show ?thesis using True by (simp add: word_less_nat_alt l k h_def)
  next
    case False
    then obtain j where j: "u + k = 2 ^ 32 + j" by (metis add_diff_inverse_nat)
    then have small: "j < k" "j < 2 ^ 32" using u assms by auto
    then have "(n + k) div 2 ^ 32 = h + 1" unfolding s j by simp
    moreover have "(of_nat n + of_nat k :: uint4) < of_nat k"
      unfolding word_less_nat_alt l k j using small by simp
    ultimately show ?thesis unfolding h_def by simp
  qed
qed

lemma taken_blocks:
  assumes "sha_state c = register_list (compress_all a fips_start)" and "64 dvd length a"
    and "length (sha_buffer c) = 64" and "take l (sha_buffer c) = p" and "length p = l"
    and "l = 0 \<or> l + length i < 64"
    and "sha_total c = (of_nat (length (a @ p @ i)), of_nat (length (a @ p @ i) div 2 ^ 32))"
  shows "taken (a @ p @ i) (case sha1_blocks c i of (c3, i3) \<Rightarrow> if i3 \<noteq> [] then buffer_put l i3 c3 else c3)"
proof -
  have b: "sha1_blocks c i = (c\<lparr>sha_state := register_list (compress_all (full_part i) (compress_all a fips_start))\<rparr>, rest_part i)"
    by (rule blocks_compress [OF assms(1)])
  obtain k where k: "length a = 64 * k" using assms(2) by (elim dvdE)
  show ?thesis
  proof (cases "l = 0")
    case True
    then have p: "p = []" using assms(5) by simp
    show ?thesis
    proof (cases "rest_part i = []")
      case True
      then have "length i mod 64 = 0" by (metis length_rest list.size(3))
      then show ?thesis
        using assms(3,7) True k
        by (simp add: taken_def b p full_append [OF assms(2)] rest_append [OF assms(2)] compress_all_append [OF assms(2)])
    next
      case False
      then show ?thesis
        using assms(3,7) k \<open>l = 0\<close>
        by (simp add: taken_def b p buffer_put_def full_append [OF assms(2)] rest_append [OF assms(2)] compress_all_append [OF assms(2)])
    qed
  next
    case False
    then have short: "length (p @ i) < 64" "length i < 64" using assms(5,6) by auto
    then show ?thesis
      using assms(1,3,4,5,7) k
      by (auto simp: taken_def b buffer_put_def full_append [OF assms(2)] rest_append [OF assms(2)] full_short rest_short)
  qed
qed

text \<open>Taking a piece of any length makes it part of the message.\<close>

lemma taken_update:
  assumes "taken m ctx" and "length input < 2 ^ 32"
  shows "taken (m @ input) (sha1_update input ctx)"
proof (cases "input = []")
  case True
  then show ?thesis using assms by (simp add: sha1_update_def)
next
  case False
  let ?l = "length m mod 64" and ?r = "compress_all (full_part m) fips_start"
  define ctx1 where "ctx1 = ctx\<lparr>sha_total := (of_nat (length m + length input), of_nat ((length m + length input) div 2 ^ 32))\<rparr>"
  have t: "sha_total ctx = (of_nat (length m), of_nat (length m div 2 ^ 32))" and st: "sha_state ctx = register_list ?r"
    and b: "length (sha_buffer ctx) = 64" "take ?l (sha_buffer ctx) = rest_part m"
    using assms(1) by (simp_all add: taken_def)
  have "unat (of_nat (length input) :: uint4) \<noteq> 0" using False assms(2) by (simp add: unat_of_nat)
  then have nz: "of_nat (length input) \<noteq> (0 :: uint4)" by (metis unat_0)
  have u: "sha1_update input ctx =
     (let (ctx2, input2, left2) =
        (if ?l \<noteq> 0 \<and> 64 - ?l \<le> length input
         then let c = buffer_put ?l (take (64 - ?l) input) ctx1
              in (sha1_process c (sha_buffer c), drop (64 - ?l) input, 0)
         else (ctx1, input, ?l))
      in case sha1_blocks ctx2 input2 of (c3, i3) \<Rightarrow> if i3 \<noteq> [] then buffer_put left2 i3 c3 else c3)"
    unfolding sha1_update_def Let_def t fst_conv snd_conv low_six all_ones and.right_neutral
      of_nat_add [symmetric] count_total [OF assms(2), folded of_nat_add] if_not_P [OF nz] ctx1_def by (rule refl)
  show ?thesis
  proof (cases "?l \<noteq> 0 \<and> 64 - ?l \<le> length input")
    case True
    define x where "x = take (64 - ?l) input"
    define y where "y = drop (64 - ?l) input"
    have i: "input = x @ y" by (simp add: x_def y_def)
    have l: "length (rest_part m @ x) = 64" using True by (auto simp: x_def)
    have buf: "sha_buffer (buffer_put ?l x ctx1) = rest_part m @ x"
      using b True by (simp add: buffer_put_def ctx1_def x_def)
    have "sha1_process (buffer_put ?l x ctx1) (rest_part m @ x) = (buffer_put ?l x ctx1)
        \<lparr>sha_state := register_list (fips_compress (fips_block (rest_part m @ x)) ?r)\<rparr>"
      by (rule process_compress [OF _ l]) (simp add: buffer_put_def ctx1_def st)
    then have upd: "sha1_update input ctx = (case sha1_blocks ((buffer_put ?l x ctx1)
        \<lparr>sha_state := register_list (compress_all (full_part m @ rest_part m @ x) fips_start)\<rparr>) y
      of (c3, i3) \<Rightarrow> if i3 \<noteq> [] then buffer_put 0 i3 c3 else c3)"
      using True l compress_all_append [of "full_part m" "rest_part m @ x"] compress_all_block [of "rest_part m @ x" "[]"]
      unfolding u by (simp add: buf x_def [symmetric] y_def [symmetric])
    have "taken ((full_part m @ rest_part m @ x) @ [] @ y) (sha1_update input ctx)"
      unfolding upd
      using l buf i full_rest [of m] by (intro taken_blocks) (auto simp: buffer_put_def ctx1_def)
    then show ?thesis by (simp add: i full_rest flip: append_assoc)
  next
    case False
    then have "taken (full_part m @ rest_part m @ input) (sha1_update input ctx)"
      unfolding u if_not_P [OF False] Let_def prod.case
      by (intro taken_blocks) (auto simp: ctx1_def st b full_rest simp flip: append_assoc)
    then show ?thesis by (simp add: full_rest flip: append_assoc)
  qed
qed

section \<open>Padding\<close>

lemma be_bytes_8: "be_bytes 8 n = be_bytes 4 (n div 2 ^ 32) @ be_bytes 4 (n mod 2 ^ 32)"
proof -
  have low: "of_nat (n mod 2 ^ 32 div 2 ^ k) = (of_nat (n div 2 ^ k) :: uint1)" if "k \<le> 24" for k
  proof -
    have e: "(2 :: nat) ^ 32 = 2 ^ k * 2 ^ (32 - k)" using that by (simp flip: power_add)
    have "n mod 2 ^ 32 div 2 ^ k = n div 2 ^ k mod 2 ^ (32 - k)"
      unfolding e by (simp add: mod_mult2_eq)
    moreover have "(256 :: nat) dvd 2 ^ (32 - k)"
      using that le_imp_power_dvd [of 8 "32 - k" "2 :: nat"] by simp
    ultimately show ?thesis by (simp add: word_of_nat_eq_iff take_bit_eq_mod mod_mod_cancel)
  qed
  from low [of 24] low [of 16] low [of 8] low [of 0] show ?thesis
    by (simp add: be_bytes_def upt_rec [of _ 4] upt_rec [of _ 8] flip: div_mult2_eq)
qed

lemma message_length:
  assumes "n < 2 ^ 61"
  shows "PUT_UINT4 (drop_bit 29 (of_nat n) OR push_bit 3 (of_nat (n div 2 ^ 32))) @ PUT_UINT4 (push_bit 3 (of_nat n)) = be_bytes 8 (8 * n)"
proof -
  define u where "u = n mod 2 ^ 32"
  define h where "h = n div 2 ^ 32"
  have n: "n = 2 ^ 32 * h + u" and u: "u < 2 ^ 32" by (simp_all add: u_def h_def)
  have h: "h < 2 ^ 29" using assms by (simp add: h_def less_mult_imp_div_less)
  have shift: "push_bit 3 (of_nat k) = (of_nat (8 * k) :: uint4)" for k
    by (simp add: push_bit_eq_mult mult.commute)
  have d: "unat (drop_bit 29 (of_nat n) :: uint4) = u div 2 ^ 29"
    unfolding unat_drop_bit_eq unfolding drop_bit_eq_div u_def by (simp add: unat_of_nat)
  have p: "unat (push_bit 3 (of_nat h) :: uint4) = 8 * h"
    using h by (simp add: shift unat_of_nat del: of_nat_mult)
  have "u div 2 ^ 29 < 8" using u by (simp add: less_mult_imp_div_less)
  then have "8 * h + u div 2 ^ 29 < 2 ^ 32" using h by simp
  moreover have "drop_bit 29 (of_nat n) OR push_bit 3 (of_nat h) = (drop_bit 29 (of_nat n) + push_bit 3 (of_nat h) :: uint4)"
    by (rule sym, rule disjunctive_add) (auto simp: bit_simps dest: bit_imp_le_length)
  ultimately have "unat (drop_bit 29 (of_nat n) OR push_bit 3 (of_nat h) :: uint4) = 8 * h + u div 2 ^ 29"
    by (simp only: unat_word_ariths d p) simp
  moreover have "8 * h + u div 2 ^ 29 = 8 * n div 2 ^ 32" unfolding n by simp
  moreover have "unat (push_bit 3 (of_nat n) :: uint4) = 8 * n mod 2 ^ 32"
    unfolding shift by (simp only: unat_of_nat) simp
  ultimately show ?thesis unfolding be_bytes_8 PUT_UINT4_be by (simp only: h_def)
qed

lemma finish_padded:
  assumes "taken m ctx" and "length m < 2 ^ 61"
  shows "sha1_finish ctx = fips_sha1 m"
proof -
  define l where "l = length m mod 64"
  define padn where "padn = (if l < 56 then 56 - l else 120 - l)"
  define ctx2 where "ctx2 = sha1_update (be_bytes 8 (8 * length m)) (sha1_update (take padn sha1_padding) ctx)"
  have l: "l < 64" by (simp add: l_def)
  have padn: "padn = Suc ((119 - l) mod 64)" using l by (auto simp: padn_def le_mod_geq)
  have t: "sha_total ctx = (of_nat (length m), of_nat (length m div 2 ^ 32))" using assms(1) by (simp add: taken_def)
  have fin: "sha1_finish ctx = concat (map PUT_UINT4 (sha_state ctx2))"
    unfolding sha1_finish_def Let_def t prod.case low_six message_length [OF assms(2)]
    by (simp add: ctx2_def padn_def l_def)
  have pad: "take padn sha1_padding = 0x80 # replicate ((119 - l) mod 64) 0"
    by (simp add: padn sha1_padding_def min_def)
  have "length (take padn sha1_padding) < 2 ^ 32" "length (be_bytes 8 (8 * length m)) < 2 ^ 32"
    by (simp_all add: sha1_padding_def be_bytes_def min_less_iff_disj)
  then have "taken ((m @ take padn sha1_padding) @ be_bytes 8 (8 * length m)) ctx2"
    unfolding ctx2_def by (intro taken_update assms(1))
  then have "taken (fips_padded m) ctx2"
    unfolding fips_padded_def l_def [symmetric] pad by simp
  moreover have "64 dvd length (fips_padded m)"
  proof -
    have "length (fips_padded m) = length m + padn + 8"
      by (simp add: fips_padded_def padn be_bytes_def l_def)
    also have "\<dots> = 64 * (length m div 64) + (l + padn + 8)"
      using mult_div_mod_eq [of 64 "length m"] by (simp add: l_def)
    finally show ?thesis using l by (auto simp: padn_def)
  qed
  ultimately have "sha_state ctx2 = register_list (compress_all (fips_padded m) fips_start)"
    by (simp add: taken_def full_all)
  then show ?thesis
    by (simp add: fin fips_sha1_def compress_all_def PUT_UINT4_be fun_eq_iff cong: map_cong)
qed

lemma taken_chunks:
  "taken m ctx \<Longrightarrow> \<forall>c \<in> set chunks. length c < 2 ^ 32 \<Longrightarrow> taken (m @ concat chunks) (fold sha1_update chunks ctx)"
proof (induction chunks arbitrary: m ctx)
  case (Cons c chunks)
  have "taken (m @ c) (sha1_update c ctx)" using Cons.prems by (intro taken_update) auto
  from Cons.IH [OF this] show ?case using Cons.prems by simp
qed simp

section \<open>The checksum\<close>

text \<open>
  C27. A message given to \<open>sha1_update\<close> in pieces of any lengths gives, after \<open>sha1_finish\<close>, the digest
  of FIPS 180 of the whole message; the context's buffer may hold anything at the start.
\<close>

theorem sha1_in_pieces:
  assumes "length (sha_buffer ctx) = 64" and "\<forall>c \<in> set chunks. length c < 2 ^ 32" and "length (concat chunks) < 2 ^ 61"
  shows "sha1_finish (fold sha1_update chunks (sha1_starts ctx)) = fips_sha1 (concat chunks)"
  using finish_padded [OF taken_chunks [OF taken_start [OF assms(1)] assms(2)]] assms(3) by simp

lemma sha1_in_pieces_witness:
  "sha1_finish (fold sha1_update [[97], replicate 70 98, [99, 100]]
     (sha1_starts \<lparr>sha_total = (0, 0), sha_state = [], sha_buffer = replicate 64 7\<rparr>))
   = fips_sha1 (97 # replicate 70 98 @ [99, 100])"
  using sha1_in_pieces [of "\<lparr>sha_total = (0, 0), sha_state = [], sha_buffer = replicate 64 7\<rparr>" "[[97], replicate 70 98, [99, 100]]"]
  by simp

text \<open>
  The wrapper casts the length of the message to 32 bits: what it hashes is the message as long as that
  is shorter than 4 GB, and only the first \<open>length mod 2 ^ 32\<close> bytes of a longer one.
\<close>

theorem dcmpi_sha1_prefix:
  assumes "length garbage = 64"
  shows "dcmpi_sha1 garbage message = fips_sha1 (take (length message mod 2 ^ 32) message)"
proof -
  let ?m = "take (length message mod 2 ^ 32) message"
  have l: "length ?m < 2 ^ 32" by (simp add: min_less_iff_disj)
  have "taken ([] @ ?m) (sha1_update ?m (sha1_starts \<lparr>sha_total = (0, 0), sha_state = [], sha_buffer = garbage\<rparr>))"
    by (rule taken_update [OF taken_start l]) (simp add: assms)
  then have "sha1_finish (sha1_update ?m (sha1_starts \<lparr>sha_total = (0, 0), sha_state = [], sha_buffer = garbage\<rparr>)) = fips_sha1 ([] @ ?m)"
    using l by (intro finish_padded) auto
  then show ?thesis by (simp add: dcmpi_sha1_def unat_of_nat)
qed

end
