(* ===== verification/ConfigFiles.thy ===== *)
theory ConfigFiles
  imports FdIO StdContainers "HOL-Library.Signed_Division"
begin

text \<open>
  Configuration files (\<open>src/src/dcmpi_util.cpp\<close>, \<open>src/src/dcmpi_util.h\<close>, \<open>src/src/MemUsage.h\<close>,
  \<open>src/src/dcmpiconfig.cpp\<close>): files of key and value pairs, lists of lines, where they are looked up,
  and the quoting of strings for command lines.

  A file is its contents. \<open>files\<close> maps the names of the readable files to their contents. What
  \<open>stat\<close> says of a name, the directories of the user and of the system, and the size of the
  physical memory are arguments.
\<close>

type_synonym files = "string \<rightharpoonup> string"

section \<open>Lines\<close>

text \<open>
  \<open>fgets(buf, size, f)\<close>: up to and with the next newline, at most \<open>size - 1\<close> characters. The buffer is
  used as a C string, which ends at a NUL.
\<close>

definition fgets_line :: "nat \<Rightarrow> string \<Rightarrow> string" where
  "fgets_line sz f =
     (let m = take (sz - 1) f in take (Suc (length (takeWhile (\<lambda>c. c \<noteq> newline) m))) m)"

definition c_string :: "string \<Rightarrow> string" where
  "c_string buf = takeWhile (\<lambda>c. c \<noteq> CHR 0x00) buf"

lemma length_fgets_line: "1 < sz \<Longrightarrow> f \<noteq> [] \<Longrightarrow> 0 < length (fgets_line sz f)"
  by (cases f) (auto simp: fgets_line_def Let_def take_Cons')

lemma drop_fgets_line [termination_simp]:
  "f \<noteq> [] \<Longrightarrow> 1 < sz \<Longrightarrow> length f - length (fgets_line sz f) < length f"
  using length_fgets_line [of sz f] by auto

text \<open>\<open>dcmpi_file_read_line\<close> reads a character at a time; the rest of the file is returned with the line.\<close>

fun dcmpi_file_read_line :: "string \<Rightarrow> string \<Rightarrow> string \<times> string" where
  "dcmpi_file_read_line str [] = (str, [])"
| "dcmpi_file_read_line str (c # f) =
     (let str' = str @ [c] in if c = newline then (str', f) else dcmpi_file_read_line str' f)"

section \<open>Pairs\<close>

text \<open>
  The last character of a line is cut, whatever it is. An empty C string in the buffer (a line that
  starts with a NUL) makes the cut write in front of the buffer.
\<close>

definition pair_of_line :: "string \<Rightarrow> (string, string) std_map \<Rightarrow> (string, string) std_map result" where
  "pair_of_line buf out =
     (if buf \<noteq> [] \<and> hd buf = CHR ''#'' then Inr out
      else if CHR '' '' \<notin> set buf then Inl Exit_failure
      else let key = dcmpi_string_trim_front (takeWhile (\<lambda>c. c \<noteq> CHR '' '') buf);
               space = dropWhile (\<lambda>c. c = CHR '' '') (dropWhile (\<lambda>c. c \<noteq> CHR '' '') buf)
           in if space = [] then Inl Exit_failure
              else Inr (map_put key (dcmpi_string_trim_rear space) out))"

function pairs_loop :: "string \<Rightarrow> (string, string) std_map \<Rightarrow> (string, string) std_map result" where
  "pairs_loop f out =
     (if f = [] then Inr out
      else let line = fgets_line 1024 f;
               buf = c_string line
           in if buf = [] then Inl Undefined_behaviour
              else case pair_of_line (butlast buf) out of
                     Inl e \<Rightarrow> Inl e
                   | Inr out' \<Rightarrow> pairs_loop (drop (length line) f) out')"
  by pat_completeness auto
termination by (relation "measure (\<lambda>(f, _). length f)") (auto intro!: drop_fgets_line)

declare pairs_loop.simps [simp del]

definition file_to_pairs :: "string \<Rightarrow> (string, string) std_map result" where
  "file_to_pairs f = pairs_loop f []"

definition file_to_pairs_named :: "files \<Rightarrow> string \<Rightarrow> (string, string) std_map result" where
  "file_to_pairs_named files filename =
     (case files filename of None \<Rightarrow> Inl Exit_failure | Some f \<Rightarrow> file_to_pairs f)"

text \<open>
  \<open>pairs_to_file\<close>: what the file holds afterwards, and the failure if one stops it.
  \<open>fwrite\<close> of an object of size 0 returns 0, which the code takes for an error.
\<close>

fun write_pairs :: "(string, string) std_map \<Rightarrow> string \<Rightarrow> string \<times> failure option" where
  "write_pairs [] f = (f, None)"
| "write_pairs ((key, val) # pairs) f =
     (if length key = 0 then (f, Some Exit_failure)
      else if length val = 0 then (f @ key @ '' '', Some Exit_failure)
      else write_pairs pairs (f @ key @ '' '' @ val @ [newline]))"

definition pairs_to_file :: "(string, string) std_map \<Rightarrow> string \<times> failure option" where
  "pairs_to_file pairs = write_pairs pairs []"

section \<open>Lists of lines\<close>

function lines_loop :: "string \<Rightarrow> string list \<Rightarrow> string list" where
  "lines_loop f out =
     (if f = [] then out
      else let line = fgets_line 1024 f;
               s = dcmpi_string_trim (c_string line)
           in lines_loop (drop (length line) f) (if s \<noteq> [] \<and> hd s \<noteq> CHR ''#'' then out @ [s] else out))"
  by pat_completeness auto
termination by (relation "measure (\<lambda>(f, _). length f)") (auto intro!: drop_fgets_line)

declare lines_loop.simps [simp del]

definition get_config_noncomment_nonempty_lines :: "files \<Rightarrow> string \<Rightarrow> string list result" where
  "get_config_noncomment_nonempty_lines files filename =
     (case files filename of None \<Rightarrow> Inl Exit_failure | Some f \<Rightarrow> Inr (lines_loop f []))"

text \<open>Where a configuration file is looked up: the file of the system, then that of the user; absent ones are empty names.\<close>

definition get_config_filenames :: "(string \<Rightarrow> bool) \<Rightarrow> string \<Rightarrow> string \<Rightarrow> string \<Rightarrow> bool \<Rightarrow> string \<times> string" where
  "get_config_filenames file_exists system_root home config_name ok_if_not_exist =
     (let fn = system_root @ ''/'' @ config_name;
          user_fn = home @ ''/'' @ config_name
      in (if file_exists system_root \<and> (ok_if_not_exist \<or> file_exists fn) then fn else [],
          if ok_if_not_exist \<or> file_exists user_fn then user_fn else []))"

definition get_user_specified_write_buffer_space ::
    "files \<Rightarrow> (string \<Rightarrow> bool) \<Rightarrow> string \<Rightarrow> string \<Rightarrow> int \<Rightarrow> int result" where
  "get_user_specified_write_buffer_space files file_exists system_root home phys_memory =
     (let (system_fn, user_fn) = get_config_filenames file_exists system_root home ''memory'' False;
          memfile = (if user_fn \<noteq> [] then user_fn else system_fn)
      in if memfile \<noteq> [] \<and> file_exists memfile
         then bind_result (file_to_pairs_named files memfile) (\<lambda>pairs.
                case map_of pairs ''write_buffer'' of
                  Some v \<Rightarrow> map_sum id sint (dcmpi_csnum v)
                | None \<Rightarrow> Inr ((phys_memory sdiv 4) * 3))
         else Inr ((phys_memory sdiv 4) * 3))"

text \<open>
  \<open>config_write_buffer_space\<close> on the line the user enters: the files afterwards, and the failure if
  one stops the program.
\<close>

definition config_write_buffer_space :: "string \<Rightarrow> string \<Rightarrow> files \<Rightarrow> files \<times> failure option" where
  "config_write_buffer_space home answer files =
     (let filename = home @ ''/memory'';
          v = dcmpi_string_trim (c_string (fgets_line 256 answer))
      in case (if files filename \<noteq> None then file_to_pairs_named files filename else Inr []) of
           Inl e \<Rightarrow> (files, Some e)
         | Inr pairs \<Rightarrow> (case pairs_to_file (map_put ''write_buffer'' v pairs) of
             (contents, e) \<Rightarrow> (files(filename \<mapsto> contents), e)))"

section \<open>Run commands\<close>

definition DCMPI_DEFAULT_RUN_COMMAND :: string where
  "DCMPI_DEFAULT_RUN_COMMAND = ''dcmpirun-socket -hostfile %h -size %n -exe %e''"

definition DCMPI_DEFAULT_SOCKET_RSH_COMMAND :: string where
  "DCMPI_DEFAULT_SOCKET_RSH_COMMAND = ''ssh -x -o StrictHostKeyChecking=no''"

function raw_command_loop :: "string \<Rightarrow> string result" where
  "raw_command_loop f =
     (if f = [] then Inl Exit_failure
      else let line = fgets_line 512 f
           in if hd line = CHR ''#'' then raw_command_loop (drop (length line) f)
              else Inr (dcmpi_string_trim (c_string line)))"
  by pat_completeness auto
termination by (relation "measure length") (auto intro!: drop_fgets_line)

declare raw_command_loop.simps [simp del]

definition get_raw_run_command :: "files \<Rightarrow> string \<times> string \<Rightarrow> string result" where
  "get_raw_run_command files input_files =
     (let input_file = (if snd input_files \<noteq> [] then snd input_files else fst input_files)
      in if input_file = [] then Inr DCMPI_DEFAULT_RUN_COMMAND
         else case files input_file of None \<Rightarrow> Inl Exit_failure | Some f \<Rightarrow> raw_command_loop f)"

section \<open>Quoting\<close>

definition hex_char :: "nat \<Rightarrow> char" where
  "hex_char n = (if n < 10 then char_of (48 + n) else char_of (87 + n))"

definition is_alnum :: "char \<Rightarrow> bool" where
  "is_alnum c \<longleftrightarrow> (CHR ''0'' \<le> c \<and> c \<le> CHR ''9'') \<or> (CHR ''A'' \<le> c \<and> c \<le> CHR ''Z'') \<or> (CHR ''a'' \<le> c \<and> c \<le> CHR ''z'')"

definition quote_char :: "char \<Rightarrow> string" where
  "quote_char c = (if is_alnum c then [c]
     else [CHR ''='', hex_char (of_char c div 16), hex_char (of_char c mod 16)])"

definition shell_quote :: "string \<Rightarrow> string" where
  "shell_quote s = concat (map quote_char s)"

text \<open>\<open>strtol(hex, NULL, 16)\<close>, as the code uses it on at most two characters.\<close>

definition hex_digit_value :: "char \<Rightarrow> nat option" where
  "hex_digit_value c =
     (if CHR ''0'' \<le> c \<and> c \<le> CHR ''9'' then Some (of_char c - 48)
      else if CHR ''a'' \<le> c \<and> c \<le> CHR ''f'' then Some (of_char c - 87)
      else if CHR ''A'' \<le> c \<and> c \<le> CHR ''F'' then Some (of_char c - 55)
      else None)"

fun skip_0x :: "string \<Rightarrow> string" where
  "skip_0x (z # x # d # s) =
     (if z = CHR ''0'' \<and> (x = CHR ''x'' \<or> x = CHR ''X'') \<and> hex_digit_value d \<noteq> None then d # s else z # x # d # s)"
| "skip_0x s = s"

definition strtol_16 :: "string \<Rightarrow> int" where
  "strtol_16 s =
     (let t = dropWhile isspace s;
          neg = (t \<noteq> [] \<and> hd t = CHR ''-'');
          u = skip_0x (if t \<noteq> [] \<and> (hd t = CHR ''-'' \<or> hd t = CHR ''+'') then tl t else t);
          n = foldl (\<lambda>n c. 16 * n + the (hex_digit_value c)) 0 (takeWhile (\<lambda>c. hex_digit_value c \<noteq> None) u)
      in if neg then - int n else int n)"

text \<open>\<open>substr(2)\<close> of a string shorter than that throws; \<open>toks[0]\<close> of no tokens lies outside the vector.\<close>

fun unquote_tokens :: "string \<Rightarrow> string list \<Rightarrow> string result" where
  "unquote_tokens result [] = Inr result"
| "unquote_tokens result (s2 # toks) =
     (if length s2 < 2 then Inl Uncaught_exception
      else unquote_tokens (result @ [char_of (nat (strtol_16 (take 2 s2) mod 256))] @ drop 2 s2) toks)"

definition shell_unquote :: "string \<Rightarrow> string result" where
  "shell_unquote s =
     (if s = [] then Inr []
      else bind_result (dcmpi_string_tokenize s ''='') (\<lambda>toks.
             if toks = [] then Inl Undefined_behaviour else unquote_tokens (hd toks) (tl toks)))"

definition get_dcmpiruntime_runtime :: "string \<Rightarrow> string" where
  "get_dcmpiruntime_runtime mpi_run_command =
     (if dcmpi_string_starts_with mpi_run_command ''dcmpirun-socket'' then ''dcmpiruntime-socket'' else ''dcmpiruntime'')"

text \<open>The configured commands: of the two files the later one wins, key by key.\<close>

record socket_commands =
  rsh :: string
  wrapper :: string
  wrapperhosts :: string

definition read_socket_config :: "files \<Rightarrow> string \<Rightarrow> socket_commands \<Rightarrow> socket_commands result" where
  "read_socket_config files fn cmds =
     (if fn = [] then Inr cmds
      else bind_result (file_to_pairs_named files fn) (\<lambda>pairs. Inr \<lparr>
        rsh = map_get_def ''rsh'' (rsh cmds) pairs,
        wrapper = map_get_def ''wrapper'' (wrapper cmds) pairs,
        wrapperhosts = map_get_def ''wrapperhosts'' (wrapperhosts cmds) pairs\<rparr>))"

definition suffix_of :: "socket_commands \<Rightarrow> string" where
  "suffix_of cmds = ''-rsh '' @ shell_quote (rsh cmds)
     @ (if wrapper cmds \<noteq> [] then '' -wrapper '' @ shell_quote (wrapper cmds) else [])
     @ (if wrapperhosts cmds \<noteq> [] then '' -wrapperhosts '' @ shell_quote (wrapperhosts cmds) else [])"

definition get_dcmpiruntime_suffix :: "files \<Rightarrow> string \<times> string \<Rightarrow> string \<Rightarrow> string result" where
  "get_dcmpiruntime_suffix files socket_config mpi_run_command =
     (if dcmpi_string_starts_with mpi_run_command ''dcmpirun-socket''
      then bind_result (fold_result (read_socket_config files) [fst socket_config, snd socket_config]
             \<lparr>rsh = DCMPI_DEFAULT_SOCKET_RSH_COMMAND, wrapper = [], wrapperhosts = []\<rparr>) (\<lambda>cmds. Inr (suffix_of cmds))
      else Inr [])"

section \<open>Reading and writing pairs\<close>

lemma set_line: "set (c_string (fgets_line sz f)) \<subseteq> set f"
  by (auto simp: c_string_def fgets_line_def Let_def dest: set_takeWhileD dest!: in_set_takeD)

lemma trim_front: "dcmpi_string_trim_front s = dropWhile is_blank s"
  by (auto simp: dcmpi_string_trim_front_def find_from_drop dropWhile_eq_drop)

lemma trim_rear_blanks:
  assumes "s \<noteq> []" and "\<not> is_blank (last s)" and "\<forall>c \<in> set t. is_blank c" and "length s < 2 ^ 64"
  shows "dcmpi_string_trim_rear (s @ t) = s"
proof -
  obtain n where n: "length s = Suc n" using assms(1) by (cases s) auto
  have "s ! n = last s" using assms(1) n by (simp add: last_conv_nth)
  then have "find_last_not_blank (s @ t) = Some n"
    using assms(2,3) n unfolding find_last_not_blank_def by (subst find_rev_Some) (auto simp: nth_append)
  moreover have "unat (of_nat n + 1 :: int8) = Suc n"
    unfolding add.commute [of _ 1] of_nat_Suc [symmetric] using assms(4) n by (simp only: unat_of_nat) simp
  ultimately show ?thesis by (simp add: dcmpi_string_trim_rear_def npos_word_def n)
qed

lemma trim_rear: "s \<noteq> [] \<Longrightarrow> \<not> is_blank (last s) \<Longrightarrow> length s < 2 ^ 64 \<Longrightarrow> dcmpi_string_trim_rear s = s"
  using trim_rear_blanks [of s "[]"] by simp

lemma fgets_newline:
  assumes "newline \<notin> set l" and "length l + 1 < sz"
  shows "fgets_line sz (l @ newline # f) = l @ [newline]"
proof -
  have t: "take (sz - 1) (l @ newline # f) = l @ newline # take (sz - 2 - length l) f"
    using assms(2) by (simp add: take_Cons')
  have "takeWhile (\<lambda>c. c \<noteq> newline) (l @ newline # g) = l" for g
    using assms(1) by (induction l) auto
  then show ?thesis unfolding fgets_line_def Let_def t by simp
qed

lemma fgets_last:
  assumes "newline \<notin> set l" and "length l < sz"
  shows "fgets_line sz l = l"
proof -
  have "takeWhile (\<lambda>c. c \<noteq> newline) l = l" using assms(1) by (induction l) auto
  then show ?thesis using assms(2) by (simp add: fgets_line_def Let_def del: takeWhile_eq_all_conv)
qed

lemma c_string_id: "CHR 0x00 \<notin> set l \<Longrightarrow> c_string l = l"
  by (auto simp: c_string_def takeWhile_eq_all_conv)

text \<open>The pairs that a file can hold.\<close>

fun plain_pair :: "string \<times> string \<Rightarrow> bool" where
  "plain_pair (k, v) \<longleftrightarrow> k \<noteq> [] \<and> v \<noteq> [] \<and> set k \<inter> {CHR 0x00, newline, CHR '' ''} = {} \<and> set v \<inter> {CHR 0x00, newline} = {}
     \<and> hd k \<noteq> CHR ''#'' \<and> \<not> is_blank (hd k) \<and> hd v \<noteq> CHR '' '' \<and> \<not> is_blank (last v)
     \<and> length k + length v + 3 < 1024"

fun pair_line :: "string \<times> string \<Rightarrow> string" where
  "pair_line (k, v) = k @ '' '' @ v @ [newline]"

lemma split_at_space:
  assumes "CHR '' '' \<notin> set k"
  shows "takeWhile (\<lambda>c. c \<noteq> CHR '' '') (k @ CHR '' '' # v) = k" and "dropWhile (\<lambda>c. c \<noteq> CHR '' '') (k @ CHR '' '' # v) = CHR '' '' # v"
  using assms by (induction k) auto

lemma pair_of_plain:
  assumes "k \<noteq> []" and "CHR '' '' \<notin> set k" and "hd k \<noteq> CHR ''#''" and "\<not> is_blank (hd k)"
    and "v \<noteq> []" and "hd v \<noteq> CHR '' ''" and "\<not> is_blank (last v)" and "length v < 1024"
  shows "pair_of_line (k @ CHR '' '' # v) out = Inr (map_put k v out)"
proof -
  have "dropWhile is_blank k = k" using assms(1,4) by (cases k) auto
  moreover have "dropWhile (\<lambda>c. c = CHR '' '') (CHR '' '' # v) = v" using assms(5,6) by (cases v) auto
  moreover have "dcmpi_string_trim_rear v = v" using assms(5,7,8) by (intro trim_rear) auto
  ultimately show ?thesis
    using assms(1-5) by (simp add: pair_of_line_def Let_def split_at_space trim_front)
qed

lemma pairs_loop_line:
  assumes "plain_pair (k, v)"
  shows "pairs_loop (pair_line (k, v) @ f) out = pairs_loop f (map_put k v out)"
proof -
  let ?l = "k @ CHR '' '' # v"
  have l: "fgets_line 1024 (?l @ newline # f) = ?l @ [newline]"
    using assms by (intro fgets_newline) auto
  have c: "c_string (?l @ [newline]) = ?l @ [newline]"
    using assms by (intro c_string_id) auto
  have "pair_of_line ?l out = Inr (map_put k v out)"
    using assms by (intro pair_of_plain) auto
  then show ?thesis
    using l c by (simp add: pairs_loop.simps [of "k @ CHR '' '' # v @ newline # f"] Let_def butlast_append)
qed

lemma pairs_loop_lines:
  "\<forall>p \<in> set ps. plain_pair p \<Longrightarrow> pairs_loop (concat (map pair_line ps) @ f) out = pairs_loop f (fold (\<lambda>(k, v). map_put k v) ps out)"
proof (induction ps arbitrary: out)
  case (Cons p ps)
  obtain k v where p: "p = (k, v)" by (cases p)
  have "pairs_loop (pair_line (k, v) @ (concat (map pair_line ps) @ f)) out = pairs_loop (concat (map pair_line ps) @ f) (map_put k v out)"
    using Cons.prems by (intro pairs_loop_line) (auto simp: p)
  then show ?case using Cons by (simp add: p)
qed simp

lemma write_plain:
  "\<forall>p \<in> set ps. plain_pair p \<Longrightarrow> write_pairs (ps @ qs) f = write_pairs qs (f @ concat (map pair_line ps))"
  by (induction ps arbitrary: f) auto

lemma pairs_loop_Nil [simp]: "pairs_loop [] out = Inr out"
  by (simp add: pairs_loop.simps)

lemma written_pairs: "\<forall>p \<in> set pairs. plain_pair p \<Longrightarrow> pairs_to_file pairs = (concat (map pair_line pairs), None)"
  using write_plain [of pairs "[]" "[]"] by (simp add: pairs_to_file_def)

lemma reread_pairs:
  "map_wf pairs \<Longrightarrow> \<forall>p \<in> set pairs. plain_pair p \<Longrightarrow> file_to_pairs (concat (map pair_line pairs)) = Inr pairs"
  using pairs_loop_lines [of pairs "[]" "[]"] smap.rebuild [of pairs] by (simp add: file_to_pairs_def)

text \<open>
  \<open>pairs_to_file\<close> and \<open>file_to_pairs\<close>: a map whose keys and values fit into lines is written without
  an error and read back as it was.
\<close>

theorem pairs_roundtrip:
  assumes "map_wf pairs" and "\<forall>p \<in> set pairs. plain_pair p"
  shows "snd (pairs_to_file pairs) = None \<and> file_to_pairs (fst (pairs_to_file pairs)) = Inr pairs"
  using written_pairs [OF assms(2)] reread_pairs [OF assms] by simp

lemma pairs_roundtrip_witness:
  "snd (pairs_to_file [(''rsh'', ''ssh -x''), (''wrapper'', ''nice'')]) = None
   \<and> file_to_pairs (fst (pairs_to_file [(''rsh'', ''ssh -x''), (''wrapper'', ''nice'')])) = Inr [(''rsh'', ''ssh -x''), (''wrapper'', ''nice'')]"
  using pairs_roundtrip [of "[(''rsh'', ''ssh -x''), (''wrapper'', ''nice'')]"]
  by (simp add: map_wf_def is_blank_def less_char_def)

text \<open>
  The last character of the last line is lost unless a newline follows it.
\<close>

lemma last_line_cut:
  assumes "\<forall>p \<in> set pairs. plain_pair p" and "plain_pair (k, v)" and "2 \<le> length v" and "\<not> is_blank (last (butlast v))"
  shows "file_to_pairs (concat (map pair_line pairs) @ k @ '' '' @ v)
    = Inr (map_put k (butlast v) (fold (\<lambda>(k, v). map_put k v) pairs []))"
proof -
  let ?l = "k @ CHR '' '' # v"
  have v: "butlast v \<noteq> []" using assms(3) by (cases v rule: rev_cases) (auto simp: Suc_le_eq)
  then have hd: "hd (butlast v) = hd v" by (cases v) auto
  have l: "fgets_line 1024 ?l = ?l" using assms(2) by (intro fgets_last) auto
  have c: "c_string ?l = ?l" using assms(2) by (intro c_string_id) auto
  have b: "butlast ?l = k @ CHR '' '' # butlast v" using assms(2) by (simp add: butlast_append)
  have "pair_of_line (k @ CHR '' '' # butlast v) out = Inr (map_put k (butlast v) out)" for out
    using assms(2,4) v hd by (intro pair_of_plain) auto
  then have "pairs_loop ?l out = Inr (map_put k (butlast v) out)" for out
    using l c b by (simp add: pairs_loop.simps [of ?l] Let_def)
  then show ?thesis
    using pairs_loop_lines [OF assms(1), of ?l "[]"] by (simp add: file_to_pairs_def)
qed

section \<open>Quoting\<close>

lemma hex_char_facts:
  assumes "n < 16"
  shows "hex_digit_value (hex_char n) = Some n" and "hex_char n \<noteq> CHR ''=''" and "\<not> isspace (hex_char n)"
    and "hex_char n \<noteq> CHR ''-''" and "hex_char n \<noteq> CHR ''+''"
proof -
  have "\<forall>n \<in> set [0..<16]. hex_digit_value (hex_char n) = Some n \<and> hex_char n \<noteq> CHR ''='' \<and> \<not> isspace (hex_char n)
      \<and> hex_char n \<noteq> CHR ''-'' \<and> hex_char n \<noteq> CHR ''+''"
    by code_simp
  moreover have "n \<in> set [0..<16]" using assms by simp
  ultimately show "hex_digit_value (hex_char n) = Some n" "hex_char n \<noteq> CHR ''=''" "\<not> isspace (hex_char n)"
    "hex_char n \<noteq> CHR ''-''" "hex_char n \<noteq> CHR ''+''" by blast+
qed

lemma skip_0x_two [simp]: "skip_0x [a, b] = [a, b]"
  by simp

lemma strtol_16_hex: "a < 16 \<Longrightarrow> b < 16 \<Longrightarrow> strtol_16 [hex_char a, hex_char b] = int (16 * a + b)"
  by (simp add: strtol_16_def hex_char_facts)

lemma alnum_not_eq: "is_alnum c \<Longrightarrow> c \<noteq> CHR ''=''"
  by (auto simp: is_alnum_def less_eq_char_def)

lemma quote_alnum: "\<forall>c \<in> set p. is_alnum c \<Longrightarrow> shell_quote (p @ s) = p @ shell_quote s"
  by (induction p) (auto simp: shell_quote_def quote_char_def)

definition hex_of :: "char \<Rightarrow> string" where
  "hex_of c = [hex_char (of_char c div 16), hex_char (of_char c mod 16)]"

lemma code_halves: "of_char c div 16 < (16 :: nat)" "of_char c mod 16 < (16 :: nat)"
proof -
  have "of_char c < (256 :: nat)" by (rule of_char_less)
  then show "of_char c div 16 < (16 :: nat)" by (intro less_mult_imp_div_less) simp
qed simp

lemma quote_other: "\<not> is_alnum c \<Longrightarrow> shell_quote (c # s) = CHR ''='' # hex_of c @ shell_quote s"
  by (simp add: shell_quote_def quote_char_def hex_of_def)

lemma hex_of_facts: "length (hex_of c) = 2" "CHR ''='' \<notin> set (hex_of c)" "char_of (nat (strtol_16 (hex_of c) mod 256)) = c"
proof -
  have "strtol_16 (hex_of c) = int (16 * (of_char c div 16) + of_char c mod 16)"
    unfolding hex_of_def by (rule strtol_16_hex) (simp_all add: code_halves)
  then have "strtol_16 (hex_of c) = int (of_char c)" by simp
  moreover have "of_char c < (256 :: nat)" by (rule of_char_less)
  ultimately show "char_of (nat (strtol_16 (hex_of c) mod 256)) = c" by simp
  show "CHR ''='' \<notin> set (hex_of c)"
    using hex_char_facts(2) [OF code_halves(1), of c] hex_char_facts(2) [OF code_halves(2), of c] by (auto simp: hex_of_def)
qed (simp add: hex_of_def)

text \<open>A run of letters and digits, and the quoted rest of a string, which starts with \<open>=\<close>.\<close>

lemma words_quoted:
  assumes "t \<noteq> []" and "CHR ''='' \<notin> set t" and "s \<noteq> [] \<Longrightarrow> \<not> is_alnum (hd s)"
  shows "words ''='' (t @ shell_quote s) = t # words ''='' (shell_quote s)"
proof (cases s)
  case Nil
  then show ?thesis using words_token [of t "''=''"] assms(1,2) by (simp add: shell_quote_def)
next
  case (Cons c cs)
  then have q: "shell_quote s = CHR ''='' # hex_of c @ shell_quote cs" using assms(3) by (simp add: quote_other)
  have "words ''='' (t @ CHR ''='' # hex_of c @ shell_quote cs) = t # words ''='' (hex_of c @ shell_quote cs)"
    using assms(1,2) by (intro words_append_delim) auto
  moreover have "words ''='' (CHR ''='' # z) = words ''='' z" for z
    using words_skip [of "''=''" "CHR ''='' # z"] words_skip [of "''=''" z] by simp
  ultimately show ?thesis by (simp add: q)
qed

lemma alnum_split: "\<exists>p s'. s = p @ s' \<and> (\<forall>c \<in> set p. is_alnum c) \<and> (s' \<noteq> [] \<longrightarrow> \<not> is_alnum (hd s'))"
proof (intro exI conjI)
  show "s = takeWhile is_alnum s @ dropWhile is_alnum s" by simp
  show "\<forall>c \<in> set (takeWhile is_alnum s). is_alnum c" by (auto dest: set_takeWhileD)
  show "dropWhile is_alnum s \<noteq> [] \<longrightarrow> \<not> is_alnum (hd (dropWhile is_alnum s))" using hd_dropWhile by blast
qed

lemma words_other:
  assumes "\<not> is_alnum c" and "s = p @ s'" and "\<forall>c \<in> set p. is_alnum c" and "s' \<noteq> [] \<Longrightarrow> \<not> is_alnum (hd s')"
  shows "words ''='' (shell_quote (c # s)) = (hex_of c @ p) # words ''='' (shell_quote s')"
proof -
  have "words ''='' (CHR ''='' # z) = words ''='' z" for z
    using words_skip [of "''=''" "CHR ''='' # z"] words_skip [of "''=''" z] by simp
  then have "words ''='' (shell_quote (c # s)) = words ''='' ((hex_of c @ p) @ shell_quote s')"
    using assms(1,3) by (simp add: quote_other assms(2) quote_alnum)
  also have "\<dots> = (hex_of c @ p) # words ''='' (shell_quote s')"
  proof (rule words_quoted)
    show "hex_of c @ p \<noteq> []" by (simp add: hex_of_def)
    show "CHR ''='' \<notin> set (hex_of c @ p)" using assms(3) alnum_not_eq hex_of_facts(2) by auto
  qed (rule assms(4))
  finally show ?thesis .
qed

lemma unquote_quoted: "(s \<noteq> [] \<Longrightarrow> \<not> is_alnum (hd s)) \<Longrightarrow> unquote_tokens r (words ''='' (shell_quote s)) = Inr (r @ s)"
proof (induction s arbitrary: r rule: length_induct)
  case (1 s)
  show ?case
  proof (cases s)
    case Nil
    then show ?thesis by (simp add: shell_quote_def)
  next
    case (Cons c cs)
    then have c: "\<not> is_alnum c" using 1(2) by simp
    obtain p s' where s0: "cs = p @ s'" "\<forall>c \<in> set p. is_alnum c" "s' \<noteq> [] \<longrightarrow> \<not> is_alnum (hd s')"
      using alnum_split [of cs] by blast
    note s' = s0(1,2) s0(3) [THEN mp]
    have "unquote_tokens r (words ''='' (shell_quote s)) = unquote_tokens (r @ c # p) (words ''='' (shell_quote s'))"
      using hex_of_facts [of c] by (simp add: Cons words_other [OF c s'])
    also have "\<dots> = Inr ((r @ c # p) @ s')"
      using 1(1) s' Cons by auto
    finally show ?thesis by (simp add: Cons s'(1))
  qed
qed

text \<open>
  \<open>shell_unquote\<close> after \<open>shell_quote\<close>: a string that starts with a letter or a digit comes back. Any
  other string does not, since the tokenizer skips the leading \<open>=\<close> and the first token is taken as it is:
  its first character comes back as the two hexadecimal digits of its code.
\<close>

theorem quoting:
  "shell_unquote (shell_quote s) = Inr (if s = [] \<or> is_alnum (hd s) then s else hex_of (hd s) @ tl s)"
proof (cases s)
  case Nil
  then show ?thesis by (simp add: shell_unquote_def shell_quote_def)
next
  case (Cons c cs)
  obtain p s' where s0: "cs = p @ s'" "\<forall>c \<in> set p. is_alnum c" "s' \<noteq> [] \<longrightarrow> \<not> is_alnum (hd s')"
    using alnum_split [of cs] by blast
  note s' = s0(1,2) s0(3) [THEN mp]
  have ne: "shell_quote s \<noteq> []" by (simp add: Cons shell_quote_def quote_char_def)
  have "words ''='' (shell_quote s) = (if is_alnum c then c # p else hex_of c @ p) # words ''='' (shell_quote s')"
  proof (cases "is_alnum c")
    case True
    then have "shell_quote s = (c # p) @ shell_quote s'" using s' quote_alnum [of "c # p" s'] by (simp add: Cons)
    then show ?thesis using True s' alnum_not_eq words_quoted [of "c # p" s'] by auto
  next
    case False
    then show ?thesis by (simp add: Cons words_other [OF False s'])
  qed
  then have "shell_unquote (shell_quote s) = Inr ((if is_alnum c then c # p else hex_of c @ p) @ s')"
    using ne unquote_quoted [OF s'(3)] by (simp add: shell_unquote_def tokenize_words)
  then show ?thesis by (simp add: Cons s'(1))
qed

section \<open>The amount of memory\<close>

lemma map_put_parts:
  "map_wf m \<Longrightarrow> map_put k v m = filter (\<lambda>p. fst p < k) m @ (k, v) # filter (\<lambda>p. k < fst p) m"
proof (induction k v m rule: map_put.induct)
  case (2 k v k' v' m)
  have f: "k' < k \<Longrightarrow> False" if "k \<le> k'" using that by auto
  have g: "\<forall>p \<in> set m. k' < fst p" "map_wf m" using 2(2) by (auto simp: map_wf_Cons)
  then have "filter (\<lambda>p. fst p < k) m = []" "filter (\<lambda>p. k < fst p) m = m" if "k \<le> k'"
    using that by (auto simp: filter_empty_conv filter_id_conv)
  then show ?case using 2(1) g by (cases k k' rule: linorder_cases) auto
qed simp

lemma map_wf_file: "map_wf out \<Longrightarrow> pairs_loop f out = Inr pairs \<Longrightarrow> map_wf pairs"
proof (induction f out rule: pairs_loop.induct)
  case (1 f out)
  show ?case
  proof (cases "f = []")
    case False
    let ?line = "fgets_line 1024 f"
    obtain out' where o: "c_string ?line \<noteq> []" "pair_of_line (butlast (c_string ?line)) out = Inr out'"
      "pairs_loop (drop (length ?line) f) out' = Inr pairs"
      using 1(3) False by (subst (asm) pairs_loop.simps) (auto simp: Let_def split: if_splits sum.splits)
    have "map_wf out'" using o(2) 1(2) by (auto simp: pair_of_line_def Let_def split: if_splits)
    then show ?thesis using 1(1) [OF False refl refl] o by simp
  qed (use 1 in simp)
qed

lemma set_map_put: "set (map_put k v m) \<subseteq> insert (k, v) (set m)"
  by (induction k v m rule: map_put.induct) auto

lemma sint_small:
  assumes "unat (w :: int8) < 2 ^ 63"
  shows "sint w = int (unat w)"
proof -
  have "int (unat w) < int (2 ^ 63)" using assms by (simp only: of_nat_less_iff)
  then show ?thesis by (simp add: sint_uint signed_take_bit_int_eq_self order_trans [OF _ uint_ge_0])
qed

text \<open>
  C38. The amount of memory that the user enters in \<open>dcmpiconfig\<close> is the one the runtime reads: the other
  settings of the file are kept, and \<open>get_user_specified_write_buffer_space\<close> returns the number times
  the power of 1024 that its letter stands for.
\<close>

theorem configured_memory:
  assumes "(case files (home @ ''/memory'') of None \<Rightarrow> Inr [] | Some f \<Rightarrow> file_to_pairs f) = Inr pairs"
    and "\<forall>p \<in> set pairs. plain_pair p"
    and "ds \<noteq> []" and "list_all isdigit ds" and "length ds < 250" and "decimal ds * 1024 ^ (k + 1) < 2 ^ 63"
    and "k < 5" and "c = ''kmgtp'' ! k \<or> c = ''KMGTP'' ! k"
    and "file_exists (home @ ''/memory'')"
  shows "case config_write_buffer_space home (ds @ [c, newline]) files of (files', e) \<Rightarrow>
    e = None \<and> (\<exists>f. files' (home @ ''/memory'') = Some f \<and> file_to_pairs f = Inr (map_put ''write_buffer'' (ds @ [c]) pairs))
    \<and> get_user_specified_write_buffer_space files' file_exists system_root home phys_memory
      = Inr (int (decimal ds * 1024 ^ (k + 1)))"
proof -
  let ?v = "ds @ [c]" and ?fn = "home @ ''/memory''"
  define new where "new = map_put ''write_buffer'' ?v pairs"
  have "k \<in> {0, 1, 2, 3, 4}" using assms(7) by auto
  then have c: "c \<in> set ''kmgtpKMGTP''" using assms(8) by auto
  have d: "\<not> is_blank x \<and> x \<noteq> CHR 0x00" if "x \<in> set ds" for x
  proof -
    have "isdigit x" using that assms(4) by (simp add: list_all_iff)
    then show ?thesis by (auto simp: isdigit_def is_blank_def less_eq_char_def)
  qed
  have v: "\<not> is_blank x \<and> x \<noteq> CHR 0x00" if "x \<in> set ?v" for x
    using d c that by (auto simp: is_blank_def)
  have wf: "map_wf pairs" using assms(1) map_wf_file [of "[]"] by (auto simp: file_to_pairs_def split: option.splits)
  have "fgets_line 256 (?v @ [newline]) = ?v @ [newline]"
    using v assms(5) by (intro fgets_newline) (auto simp: is_blank_def)
  moreover have "c_string (?v @ [newline]) = ?v @ [newline]"
    using v by (intro c_string_id) auto
  moreover have "dcmpi_string_trim (?v @ [newline]) = ?v"
  proof -
    have "dropWhile is_blank (?v @ [newline]) = ?v @ [newline]" using v assms(3) by (cases ds) auto
    then show ?thesis
      using v assms(5) by (simp add: dcmpi_string_trim_def trim_front trim_rear_blanks [of ?v "[newline]", simplified] is_blank_def)
  qed
  ultimately have v': "dcmpi_string_trim (c_string (fgets_line 256 (ds @ [c, newline]))) = ?v" by simp
  have "plain_pair (''write_buffer'', ?v)"
    using v assms(3,5) by (cases ds) (auto simp: is_blank_def)
  then have all_plain: "\<forall>p \<in> set new. plain_pair p" using assms(2) set_map_put [of "''write_buffer''" ?v pairs] by (auto simp: new_def)
  have reread: "file_to_pairs (concat (map pair_line new)) = Inr new"
    using wf by (intro reread_pairs all_plain) (auto simp: new_def)
  have after: "config_write_buffer_space home (ds @ [c, newline]) files = (files(?fn \<mapsto> concat (map pair_line new)), None)"
    using assms(1) written_pairs [OF all_plain] unfolding new_def
    by (cases "files ?fn") (simp_all add: config_write_buffer_space_def Let_def v' file_to_pairs_named_def)
  have entry: "map_of new ''write_buffer'' = Some ?v" using wf by (simp add: new_def map_of_put)
  have num: "map_sum id unat (dcmpi_csnum ?v) = Inr (decimal ds * 1024 ^ (k + 1))"
    using assms(3,4,6,7,8) by (intro csnum_value) auto
  then obtain w where w: "dcmpi_csnum ?v = Inr w" "unat w = decimal ds * 1024 ^ (k + 1)" by (cases "dcmpi_csnum ?v") auto
  then have "sint w = int (decimal ds * 1024 ^ (k + 1))"
    using assms(6) by (simp add: sint_small)
  with entry w(1) assms(9) have "get_user_specified_write_buffer_space (files(?fn \<mapsto> concat (map pair_line new))) file_exists system_root home phys_memory
      = Inr (int (decimal ds * 1024 ^ (k + 1)))"
    by (simp add: get_user_specified_write_buffer_space_def get_config_filenames_def Let_def file_to_pairs_named_def reread)
  then show ?thesis using reread by (simp add: after flip: new_def)
qed

lemma configured_memory_witness:
  "case config_write_buffer_space ''/home/u'' (''64M'' @ [newline]) [''/home/u/memory'' \<mapsto> ''user_area 8m'' @ [newline]] of (files', e) \<Rightarrow>
    e = None \<and> (\<exists>f. files' ''/home/u/memory'' = Some f
        \<and> file_to_pairs f = Inr [(''user_area'', ''8m''), (''write_buffer'', ''64M'')])
    \<and> get_user_specified_write_buffer_space files' (\<lambda>fn. fn = ''/home/u/memory'') ''/etc/dcmpi'' ''/home/u'' 1000 = Inr 67108864"
proof -
  have pairs: "file_to_pairs (''user_area 8m'' @ [newline]) = Inr [(''user_area'', ''8m'')]"
    using reread_pairs [of "[(''user_area'', ''8m'')]"] by (simp add: is_blank_def map_wf_def)
  show ?thesis
    using configured_memory [of "[''/home/u/memory'' \<mapsto> ''user_area 8m'' @ [newline]]" "''/home/u''" "[(''user_area'', ''8m'')]"
        "''64''" 1 "CHR ''M''" "\<lambda>fn. fn = ''/home/u/memory''" "''/etc/dcmpi''" 1000] pairs
    by (simp add: is_blank_def isdigit_def less_eq_char_def less_char_def decimal_def digit_value_def)
qed

text \<open>
  C40. An empty answer in \<open>dcmpiconfig\<close> destroys the user's memory file: the program stops with an error
  in the middle of writing, the settings behind \<open>write_buffer\<close> are lost, and the line without a value that
  is left makes the runtime exit whenever it looks for its amount of memory.
\<close>

theorem empty_answer_spoils_file:
  assumes "files (home @ ''/memory'') = Some f" and "file_to_pairs f = Inr pairs" and "\<forall>p \<in> set pairs. plain_pair p"
    and "list_all is_blank answer" and "file_exists (home @ ''/memory'')"
  shows "case config_write_buffer_space home (answer @ [newline]) files of (files', e) \<Rightarrow>
    e = Some Exit_failure
    \<and> files' (home @ ''/memory'') = Some (concat (map pair_line (filter (\<lambda>p. fst p < ''write_buffer'') pairs)) @ ''write_buffer '')
    \<and> get_user_specified_write_buffer_space files' file_exists system_root home phys_memory = Inl Exit_failure"
proof -
  let ?fn = "home @ ''/memory''" and ?l = "concat (map pair_line (filter (\<lambda>p. fst p < ''write_buffer'') pairs))"
  have blank: "dropWhile is_blank (c_string (fgets_line 256 (answer @ [newline]))) = []"
  proof -
    have "is_blank c" if "c \<in> set (c_string (fgets_line 256 (answer @ [newline])))" for c
      using subsetD [OF set_line that] assms(4) by (auto simp: list_all_iff is_blank_def)
    then show ?thesis by (simp add: dropWhile_eq_Nil_conv)
  qed
  have v: "dcmpi_string_trim (c_string (fgets_line 256 (answer @ [newline]))) = []"
    unfolding dcmpi_string_trim_def trim_front blank by (simp add: dcmpi_string_trim_rear_def)
  have wf: "map_wf pairs" using assms(2) map_wf_file [of "[]"] by (auto simp: file_to_pairs_def)
  have plain: "\<forall>p \<in> set (filter (\<lambda>p. fst p < ''write_buffer'') pairs). plain_pair p" using assms(3) by simp
  have "pairs_to_file (map_put ''write_buffer'' [] pairs) = (?l @ ''write_buffer '', Some Exit_failure)"
    using write_plain [OF plain, of "(''write_buffer'', []) # filter (\<lambda>p. ''write_buffer'' < fst p) pairs" "[]"]
    by (simp add: pairs_to_file_def map_put_parts [OF wf])
  then have after: "config_write_buffer_space home (answer @ [newline]) files = (files(?fn \<mapsto> ?l @ ''write_buffer ''), Some Exit_failure)"
    using assms(1,2) by (simp add: config_write_buffer_space_def Let_def v file_to_pairs_named_def)
  have "pairs_loop ''write_buffer '' out = Inl Exit_failure" for out
    by (simp add: pairs_loop.simps fgets_line_def c_string_def pair_of_line_def)
  then have "file_to_pairs (?l @ ''write_buffer '') = Inl Exit_failure"
    using pairs_loop_lines [OF plain, of "''write_buffer ''" "[]"] by (simp add: file_to_pairs_def)
  then have "get_user_specified_write_buffer_space (files(?fn \<mapsto> ?l @ ''write_buffer '')) file_exists system_root home phys_memory = Inl Exit_failure"
    using assms(5) by (simp add: get_user_specified_write_buffer_space_def get_config_filenames_def Let_def file_to_pairs_named_def)
  then show ?thesis by (simp add: after)
qed

lemma empty_answer_spoils_file_witness:
  "case config_write_buffer_space ''/home/u'' ('' '' @ [newline]) [''/home/u/memory'' \<mapsto> ''user_area 8m'' @ [newline]] of (files', e) \<Rightarrow>
    e = Some Exit_failure \<and> files' ''/home/u/memory'' = Some (''user_area 8m'' @ [newline] @ ''write_buffer '')
    \<and> get_user_specified_write_buffer_space files' (\<lambda>fn. fn = ''/home/u/memory'') ''/etc/dcmpi'' ''/home/u'' 1000 = Inl Exit_failure"
proof -
  have pairs: "file_to_pairs (''user_area 8m'' @ [newline]) = Inr [(''user_area'', ''8m'')]"
    using reread_pairs [of "[(''user_area'', ''8m'')]"] by (simp add: is_blank_def map_wf_def)
  show ?thesis
    using empty_answer_spoils_file [of "[''/home/u/memory'' \<mapsto> ''user_area 8m'' @ [newline]]" "''/home/u''"
        "''user_area 8m'' @ [newline]" "[(''user_area'', ''8m'')]" "'' ''" "\<lambda>fn. fn = ''/home/u/memory''" "''/etc/dcmpi''" 1000] pairs
    by (simp add: is_blank_def less_char_def)
qed

end
