(* ===== verification/Launch.thy ===== *)
theory Launch
  imports ConfigFiles Numbers
begin

text \<open>
  How the console starts the runtime: the command line that \<open>run_command_finalize\<close>
  (\<open>src/src/dcmpi_util.h\<close>) and \<open>remote_run_command_finalize\<close> (\<open>src/src/DCLayout.cpp\<close>) make of the configured
  command, \<open>dcmpiremotestartup\<close> (\<open>src/src/dcmpiremotestartup.cpp\<close>), which passes one on in a remote
  cluster, and \<open>parse_args\<close> of the runtime (\<open>src/src/dcmpiruntime-util.h\<close>).

  The executable's path, the names of temporary files and the value of \<open>DCMPI_DEBUG\<close> come from the
  operating system and are arguments.
\<close>

section \<open>The command\<close>

type_synonym launch_params = "(string, string) std_map"

definition param_words :: "launch_params \<Rightarrow> string" where
  "param_words launch_params = concat (map (\<lambda>(k, v). '' '' @ k @ '' '' @ v) launch_params)"

definition executable_and_args :: "string \<Rightarrow> string \<Rightarrow> launch_params \<Rightarrow> string" where
  "executable_and_args executable exe_suffix launch_params =
     executable @ (if exe_suffix \<noteq> [] then '' '' @ exe_suffix else [])
       @ '' dcmpi_control_args_begin'' @ param_words launch_params @ '' dcmpi_control_args_end''"

record launch_env =
  temp_filename :: "nat \<Rightarrow> string"
  dcmpi_debug :: "string option"

text \<open>The temporary files are the names and the contents that were written.\<close>

record run_state =
  run_command :: string
  mpi_run_temp_files :: "(string \<times> string) list"
  replaced_executable :: bool

partial_function (option) finalize_loop :: "launch_env \<Rightarrow> string \<Rightarrow> string list \<Rightarrow> run_state \<Rightarrow> run_state result option" where
  "finalize_loop env args hosts s =
     (case dcmpi_string_replace (run_command s) ''%n'' (dcmpi_to_string (int (length hosts))) True of
        None \<Rightarrow> None
      | Some (c1, did1) \<Rightarrow>
        if did1 then finalize_loop env args hosts (s\<lparr>run_command := c1\<rparr>)
        else case dcmpi_string_replace (run_command s) ''%e'' args True of
          None \<Rightarrow> None
        | Some (c2, did2) \<Rightarrow>
          if did2 then finalize_loop env args hosts (s\<lparr>run_command := c2, replaced_executable := True\<rparr>)
          else if str_find (run_command s) ''%h'' \<noteq> None
          then (let machinefile = temp_filename env (length (mpi_run_temp_files s)) in
            case dcmpi_string_replace (run_command s) ''%h'' machinefile True of
              None \<Rightarrow> None
            | Some (c3, _) \<Rightarrow> finalize_loop env args hosts (s\<lparr>run_command := c3,
                mpi_run_temp_files := mpi_run_temp_files s @ [(machinefile, concat (map (\<lambda>h. h @ [newline]) hosts))]\<rparr>))
          else if hosts = [] then Some (Inl Undefined_behaviour)
          else case dcmpi_string_replace (run_command s) ''%F'' (hd hosts) True of
            None \<Rightarrow> None
          | Some (c4, did4) \<Rightarrow>
            if did4 then finalize_loop env args hosts (s\<lparr>run_command := c4\<rparr>)
            else if str_find (run_command s) ''%D'' \<noteq> None
            then (case dcmpi_string_replace (run_command s) ''%D'' (case dcmpi_debug env of None \<Rightarrow> [] | Some d \<Rightarrow> d) True of
                None \<Rightarrow> None
              | Some (c5, _) \<Rightarrow> finalize_loop env args hosts (s\<lparr>run_command := c5\<rparr>))
            else Some (Inr s))"

definition run_command_finalize :: "launch_env \<Rightarrow> string \<Rightarrow> string \<Rightarrow> string list \<Rightarrow> launch_params \<Rightarrow>
    string \<Rightarrow> (string \<times> string) list \<Rightarrow> (string \<times> (string \<times> string) list) result option" where
  "run_command_finalize env executable exe_suffix hosts launch_params command temp_files =
     (let args = executable_and_args executable exe_suffix launch_params
      in case finalize_loop env args hosts \<lparr>run_command = command, mpi_run_temp_files = temp_files, replaced_executable = False\<rparr> of
           None \<Rightarrow> None
         | Some (Inl e) \<Rightarrow> Some (Inl e)
         | Some (Inr s) \<Rightarrow> Some (Inr
             (if replaced_executable s then run_command s else run_command s @ '' '' @ args, mpi_run_temp_files s)))"

definition starter :: "string list \<Rightarrow> launch_params \<Rightarrow> string" where
  "starter hosts launch_params = ''dcmpiremotestartup'' @ param_words launch_params @ concat (map (\<lambda>h. '' -h '' @ h) hosts)"

partial_function (option) remote_finalize_loop :: "launch_env \<Rightarrow> string \<Rightarrow> string list \<Rightarrow> string \<Rightarrow> (string \<times> string) list
    \<Rightarrow> (string \<times> (string \<times> string) list) result option" where
  "remote_finalize_loop env start hosts command temp_files =
     (case dcmpi_string_replace command ''%e'' start True of
        None \<Rightarrow> None
      | Some (c1, did1) \<Rightarrow>
        if did1 then remote_finalize_loop env start hosts c1 temp_files
        else if hosts = [] then Some (Inl Undefined_behaviour)
        else case dcmpi_string_replace command ''%F'' (hd hosts) True of
          None \<Rightarrow> None
        | Some (c2, did2) \<Rightarrow>
          if did2 then remote_finalize_loop env start hosts c2 temp_files
          else if str_find command ''%R'' \<noteq> None
          then (let run_file = temp_filename env (length temp_files) in
            case dcmpi_string_replace command ''%R'' run_file True of
              None \<Rightarrow> None
            | Some (c3, _) \<Rightarrow> remote_finalize_loop env start hosts c3 (temp_files @ [(run_file, start @ [newline])]))
          else Some (Inr (command, temp_files)))"

definition remote_run_command_finalize :: "launch_env \<Rightarrow> string list \<Rightarrow> launch_params \<Rightarrow> string \<Rightarrow> (string \<times> string) list
    \<Rightarrow> (string \<times> (string \<times> string) list) result option" where
  "remote_run_command_finalize env hosts launch_params command temp_files =
     remote_finalize_loop env (starter hosts launch_params) hosts command temp_files"

section \<open>The arguments\<close>

text \<open>\<open>dcmpiremotestartup\<close>: pairs of arguments, of which \<open>-h\<close> adds a host.\<close>

fun startup_args :: "string list \<Rightarrow> launch_params \<Rightarrow> string list \<Rightarrow> launch_params \<times> string list" where
  "startup_args (a # b # argv) launch_params hosts =
     (if a = ''-h'' then startup_args argv launch_params (hosts @ [b])
      else startup_args argv (map_put a b launch_params) hosts)"
| "startup_args _ launch_params hosts = (launch_params, hosts)"

definition remote_startup :: "string list \<Rightarrow> (launch_params \<times> string list) result" where
  "remote_startup argv =
     (if length (tl argv) < 2 then Inl Exit_failure
      else if odd (length (tl argv)) then Inl Assert_failure
      else Inr (startup_args (tl argv) [] []))"

text \<open>The global variables that \<open>parse_args\<close> sets.\<close>

record launch_args =
  cluster_rank :: int
  cluster_size :: int
  cluster_offset :: int
  cookie :: string
  console_method :: string
  console_from_path :: string
  console_to_path :: string
  proxy_host :: string
  proxy_port :: int
  use_proxy :: bool
  dcmpi_rank :: int
  totaldcmpiranks :: int
  console_filter_present :: bool

text \<open>
  Quotes at the two ends are cut. The last character of an empty argument lies in front of it; of an
  argument that is a single quote, the second test cuts the quote that was skipped.
\<close>

definition strip_quotes :: "string \<Rightarrow> string result" where
  "strip_quotes arg =
     (if arg = [] then Inl Undefined_behaviour
      else let a = (if hd arg = CHR 0x22 then tl arg else arg)
           in if a \<noteq> [] \<and> last a = CHR 0x22 then Inr (butlast a) else Inr a)"

definition set_arg :: "string \<Rightarrow> string \<Rightarrow> launch_args \<Rightarrow> launch_args result" where
  "set_arg a1 a2 g =
     (if a1 = ''-cluster_rank'' then bind_result (Atoi a2) (\<lambda>i. Inr (g\<lparr>cluster_rank := i\<rparr>))
      else if a1 = ''-cluster_size'' then bind_result (Atoi a2) (\<lambda>i. Inr (g\<lparr>cluster_size := i\<rparr>))
      else if a1 = ''-cluster_offset'' then bind_result (Atoi a2) (\<lambda>i. Inr (g\<lparr>cluster_offset := i\<rparr>))
      else if a1 = ''-cookie'' then Inr (g\<lparr>cookie := a2\<rparr>)
      else if a1 = ''-console'' then bind_result (dcmpi_string_tokenize a2 '':'') (\<lambda>toks.
        if length toks < 3 then Inl Undefined_behaviour
        else Inr (g\<lparr>console_method := toks ! 0, console_from_path := toks ! 1, console_to_path := toks ! 2\<rparr>))
      else if a1 = ''-proxy'' then bind_result (dcmpi_string_tokenize a2 '':'') (\<lambda>toks.
        if length toks < 2 then Inl Undefined_behaviour
        else bind_result (Atoi (toks ! 1)) (\<lambda>i. Inr (g\<lparr>proxy_host := toks ! 0, proxy_port := i, use_proxy := True\<rparr>)))
      else if a1 = ''-dcmpi_rank'' then bind_result (Atoi a2) (\<lambda>i. Inr (g\<lparr>dcmpi_rank := i\<rparr>))
      else if a1 = ''-totaldcmpiranks'' then bind_result (Atoi a2) (\<lambda>i. Inr (g\<lparr>totaldcmpiranks := i\<rparr>))
      else if a1 = ''-hasconsolefilter'' then Inr (g\<lparr>console_filter_present := (a2 = ''yes'')\<rparr>)
      else Inr g)"

text \<open>\<open>argv[argc]\<close> is NULL, which \<open>strdup\<close> does not take.\<close>

fun parse_loop :: "bool \<Rightarrow> launch_args \<Rightarrow> string list \<Rightarrow> launch_args result" where
  "parse_loop in_control_args g [] = Inl Undefined_behaviour"
| "parse_loop in_control_args g (argv_i # argv) =
     (case strip_quotes argv_i of
        Inl e \<Rightarrow> Inl e
      | Inr arg \<Rightarrow>
        if arg = ''dcmpi_control_args_begin'' then parse_loop True g argv
        else if arg = ''dcmpi_control_args_end'' then Inr g
        else if in_control_args
        then (case argv of
            [] \<Rightarrow> Inl Undefined_behaviour
          | argv_j # argv' \<Rightarrow>
            (case bind_result (strip_quotes argv_j) (\<lambda>arg2. set_arg arg arg2 g) of
               Inl e \<Rightarrow> Inl e
             | Inr g' \<Rightarrow> parse_loop in_control_args g' argv'))
        else parse_loop in_control_args g argv)"

definition parse_args :: "string list \<Rightarrow> launch_args \<Rightarrow> launch_args result" where
  "parse_args argv g = parse_loop False g (tl argv)"

text \<open>The parameters of a run with one cluster, as \<open>execute2\<close> puts them into the map.\<close>

definition execute2_params :: "string \<Rightarrow> string \<Rightarrow> string \<Rightarrow> string \<Rightarrow> nat \<Rightarrow> bool \<Rightarrow> launch_params" where
  "execute2_params type_info to_info from_info cookie_text num_hosts has_console_filter =
     fold (\<lambda>(k, v). map_put k v)
       [(''-dcmpi_rank'', ''0''), (''-cluster_rank'', ''0''), (''-cluster_size'', ''1''), (''-cluster_offset'', ''0''),
        (''-console'', type_info @ '':'' @ to_info @ '':'' @ from_info),
        (''-cookie'', cookie_text),
        (''-totaldcmpiranks'', dcmpi_to_string (int (num_hosts + (if has_console_filter then 1 else 0)))),
        (''-hasconsolefilter'', (if has_console_filter then ''yes'' else ''no''))] []"

section \<open>Templates\<close>

text \<open>
  A command is made of text and of places to fill in, a percent sign with a letter each. No percent sign
  is in the text.
\<close>

datatype item = Txt string | Hole char

primrec render_item :: "item \<Rightarrow> string" where
  "render_item (Txt s) = s"
| "render_item (Hole c) = [CHR ''%'', c]"

definition render :: "item list \<Rightarrow> string" where
  "render items = concat (map render_item items)"

primrec good_item :: "item \<Rightarrow> bool" where
  "good_item (Txt s) = (CHR ''%'' \<notin> set s)"
| "good_item (Hole c) = (c \<noteq> CHR ''%'')"

definition fill :: "char \<Rightarrow> string \<Rightarrow> item list \<Rightarrow> item list" where
  "fill c v items = map (\<lambda>i. if i = Hole c then Txt v else i) items"

lemma render_simps [simp]: "render [] = []" "render (i # is) = render_item i @ render is" "render (xs @ ys) = render xs @ render ys"
  by (simp_all add: render_def)

lemma fill_good: "list_all good_item items \<Longrightarrow> CHR ''%'' \<notin> set v \<Longrightarrow> list_all good_item (fill c v items)"
  by (auto simp: fill_def list_all_iff)

lemma fill_absent: "Hole c \<notin> set items \<Longrightarrow> fill c v items = items"
  by (induction items) (auto simp: fill_def)

lemma fill_holes [simp]: "Hole d \<in> set (fill c v items) \<longleftrightarrow> d \<noteq> c \<and> Hole d \<in> set items"
  by (auto simp: fill_def)

lemma split_hole:
  "list_all good_item items \<Longrightarrow> render items = xs @ CHR ''%'' # c # ys \<Longrightarrow>
     \<exists>is1 is2. items = is1 @ Hole c # is2 \<and> xs = render is1 \<and> ys = render is2"
proof (induction items arbitrary: xs)
  case (Cons i items)
  show ?case
  proof (cases i)
    case (Txt s)
    then have s: "CHR ''%'' \<notin> set s" and r: "s @ render items = xs @ CHR ''%'' # c # ys" using Cons.prems by auto
    have "length s \<le> length xs"
    proof (rule ccontr)
      assume "\<not> length s \<le> length xs"
      then have "s ! length xs = (s @ render items) ! length xs" "length xs < length s" by (simp_all add: nth_append)
      then have "s ! length xs = CHR ''%''" unfolding r by simp
      with s \<open>length xs < length s\<close> show False by (metis nth_mem)
    qed
    with r obtain us where "xs = s @ us" "render items = us @ CHR ''%'' # c # ys"
      by (auto simp: append_eq_append_conv2)
    moreover from this(2) obtain is1 is2 where "items = is1 @ Hole c # is2 \<and> us = render is1 \<and> ys = render is2"
      using Cons.IH Cons.prems by auto
    ultimately show ?thesis by (intro exI [of _ "i # is1"] exI [of _ is2]) (simp add: Txt)
  next
    case (Hole d)
    then have d: "d \<noteq> CHR ''%''" and r: "CHR ''%'' # d # render items = xs @ CHR ''%'' # c # ys" using Cons.prems by auto
    show ?thesis
    proof (cases xs)
      case Nil
      then show ?thesis using r Hole by (intro exI [of _ "[]"] exI [of _ items]) auto
    next
      case (Cons x xs1)
      then obtain xs2 where xs: "xs = CHR ''%'' # d # xs2" using r d by (cases xs1) auto
      then have "render items = xs2 @ CHR ''%'' # c # ys" using r by simp
      then obtain is1 is2 where "items = is1 @ Hole c # is2 \<and> xs2 = render is1 \<and> ys = render is2"
        using Cons.IH Cons.prems by auto
      then show ?thesis using xs Hole by (intro exI [of _ "i # is1"] exI [of _ is2]) simp
    qed
  qed
qed simp

lemma find_hole:
  assumes "list_all good_item items"
  shows "str_find (render items) [CHR ''%'', c] \<noteq> None \<longleftrightarrow> Hole c \<in> set items"
proof
  assume "str_find (render items) [CHR ''%'', c] \<noteq> None"
  then obtain pos where pos: "str_find (render items) [CHR ''%'', c] = Some pos" by auto
  have "render items = take pos (render items) @ CHR ''%'' # c # drop (pos + 2) (render items)"
    using str_find_SomeD(1) [OF pos] by simp
  from split_hole [OF assms this] show "Hole c \<in> set items" by auto
next
  assume "Hole c \<in> set items"
  then obtain is1 is2 where "items = is1 @ Hole c # is2" by (auto dest: split_list)
  then have "occurs_at (render items) [CHR ''%'', c] (length (render is1))" by (auto simp: occurs_at_iff)
  then show "str_find (render items) [CHR ''%'', c] \<noteq> None" by (auto simp: str_find_None)
qed

lemma replace_template:
  assumes "list_all good_item items" and "CHR ''%'' \<notin> set v"
  shows "replace_loop [CHR ''%'', c] v True (render items) out = Some (render (fill c v items), out \<or> Hole c \<in> set items)"
  using assms(1)
proof (induction "count_list items (Hole c)" arbitrary: items out)
  case 0
  then have "Hole c \<notin> set items" by (simp add: count_list_0_iff)
  moreover from this have "str_find (render items) [CHR ''%'', c] = None" using find_hole [OF 0(2)] by blast
  ultimately show ?case by (simp add: replace_loop_None fill_absent)
next
  case (Suc n)
  then have "Hole c \<in> set items" by (metis count_notin nat.distinct(1))
  then obtain pos where pos: "str_find (render items) [CHR ''%'', c] = Some pos" using find_hole [OF Suc(3)] by blast
  have "render items = take pos (render items) @ CHR ''%'' # c # drop (pos + 2) (render items)"
    using str_find_SomeD(1) [OF pos] by simp
  from split_hole [OF Suc(3) this] obtain is1 is2 where
    i: "items = is1 @ Hole c # is2" "take pos (render items) = render is1" "drop (pos + 2) (render items) = render is2" by blast
  let ?new = "is1 @ Txt v # is2"
  have "replace_loop [CHR ''%'', c] v True (render items) out = replace_loop [CHR ''%'', c] v True (render ?new) True"
    using replace_loop_Some [OF pos] i(2,3) by simp
  also have "\<dots> = Some (render (fill c v ?new), True)"
    using Suc(2,3) assms(2) by (subst Suc(1)) (auto simp: i(1))
  finally show ?case by (simp add: i(1) fill_def)
qed

section \<open>The command that is run\<close>

lemma replace_in_template:
  "list_all good_item items \<Longrightarrow> CHR ''%'' \<notin> set v \<Longrightarrow>
     dcmpi_string_replace (render items) [CHR ''%'', c] v True = Some (render (fill c v items), Hole c \<in> set items)"
  by (simp add: dcmpi_string_replace_def replace_template)

text \<open>What each place is filled with.\<close>

definition fill_command :: "launch_env \<Rightarrow> string \<Rightarrow> string list \<Rightarrow> string \<Rightarrow> item list \<Rightarrow> item list" where
  "fill_command env args hosts machinefile items =
     fill CHR ''D'' (case dcmpi_debug env of None \<Rightarrow> [] | Some d \<Rightarrow> d)
       (fill CHR ''F'' (hd hosts) (fill CHR ''h'' machinefile (fill CHR ''e'' args
         (fill CHR ''n'' (dcmpi_to_string (int (length hosts))) items))))"

definition machinefile_of :: "string list \<Rightarrow> string \<Rightarrow> item list \<Rightarrow> (string \<times> string) list" where
  "machinefile_of hosts machinefile items =
     (if Hole CHR ''h'' \<in> set items then [(machinefile, concat (map (\<lambda>h. h @ [newline]) hosts))] else [])"

lemma number_no_percent: "CHR ''%'' \<notin> set (dcmpi_to_string (int n))"
  using digits_isdigit [of n] by (auto simp: dcmpi_to_string_def isdigit_def less_eq_char_def)

text \<open>The loop fills one kind of place after the other.\<close>

abbreviation finalize :: "launch_env \<Rightarrow> string \<Rightarrow> string list \<Rightarrow> item list \<Rightarrow> (string \<times> string) list \<Rightarrow> bool \<Rightarrow> run_state result option" where
  "finalize env args hosts items files replaced \<equiv> finalize_loop env args hosts
     \<lparr>run_command = render items, mpi_run_temp_files = files, replaced_executable = replaced\<rparr>"

lemma finalize_n:
  assumes "list_all good_item items"
  shows "finalize env args hosts items files r = finalize env args hosts (fill CHR ''n'' (dcmpi_to_string (int (length hosts))) items) files r"
proof (cases "Hole CHR ''n'' \<in> set items")
  case True
  then show ?thesis
    by (subst finalize_loop.simps) (simp add: replace_in_template [OF assms number_no_percent])
qed (simp add: fill_absent)

lemma finalize_e:
  assumes "list_all good_item items" and "Hole CHR ''n'' \<notin> set items" and "CHR ''%'' \<notin> set args"
  shows "finalize env args hosts items files r = finalize env args hosts (fill CHR ''e'' args items) files (r \<or> Hole CHR ''e'' \<in> set items)"
proof (cases "Hole CHR ''e'' \<in> set items")
  case True
  then show ?thesis using assms(2)
    by (subst finalize_loop.simps) (simp add: replace_in_template [OF assms(1) number_no_percent] replace_in_template [OF assms(1,3)])
qed (simp add: fill_absent)

lemmas no_n_e = replace_in_template [OF _ number_no_percent] replace_in_template

lemma finalize_h:
  assumes "list_all good_item items" and "\<forall>c \<in> set ''ne''. Hole c \<notin> set items" and "CHR ''%'' \<notin> set args"
    and "CHR ''%'' \<notin> set (temp_filename env (length files))"
  shows "finalize env args hosts items files r = finalize env args hosts (fill CHR ''h'' (temp_filename env (length files)) items)
    (files @ machinefile_of hosts (temp_filename env (length files)) items) r"
proof (cases "Hole CHR ''h'' \<in> set items")
  case True
  then show ?thesis using assms find_hole [OF assms(1), of "CHR ''h''"]
    by (subst finalize_loop.simps) (simp add: no_n_e machinefile_of_def Let_def)
qed (simp add: fill_absent machinefile_of_def)

lemma finalize_F:
  assumes "list_all good_item items" and "\<forall>c \<in> set ''neh''. Hole c \<notin> set items" and "CHR ''%'' \<notin> set args"
    and "hosts \<noteq> []" and "CHR ''%'' \<notin> set (hd hosts)"
  shows "finalize env args hosts items files r = finalize env args hosts (fill CHR ''F'' (hd hosts) items) files r"
proof (cases "Hole CHR ''F'' \<in> set items")
  case True
  then show ?thesis using assms find_hole [OF assms(1), of "CHR ''h''"]
    by (subst finalize_loop.simps) (simp add: no_n_e)
qed (simp add: fill_absent)

lemma finalize_D:
  assumes "list_all good_item items" and "\<forall>c \<in> set ''nehF''. Hole c \<notin> set items" and "CHR ''%'' \<notin> set args"
    and "hosts \<noteq> []" and "CHR ''%'' \<notin> set (hd hosts)"
    and "CHR ''%'' \<notin> set (case dcmpi_debug env of None \<Rightarrow> [] | Some d \<Rightarrow> d)"
  shows "finalize env args hosts items files r
    = finalize env args hosts (fill CHR ''D'' (case dcmpi_debug env of None \<Rightarrow> [] | Some d \<Rightarrow> d) items) files r"
proof (cases "Hole CHR ''D'' \<in> set items")
  case True
  then show ?thesis using assms(1-5) find_hole [OF assms(1), of "CHR ''h''"] find_hole [OF assms(1), of "CHR ''D''"]
    by (subst finalize_loop.simps) (simp add: no_n_e replace_in_template [OF assms(1,6)])
qed (simp add: fill_absent)

lemma finalize_stop:
  assumes "list_all good_item items" and "\<forall>c \<in> set ''nehFD''. Hole c \<notin> set items" and "CHR ''%'' \<notin> set args"
    and "hosts \<noteq> []" and "CHR ''%'' \<notin> set (hd hosts)"
  shows "finalize env args hosts items files r
    = Some (Inr \<lparr>run_command = render items, mpi_run_temp_files = files, replaced_executable = r\<rparr>)"
  using assms find_hole [OF assms(1), of "CHR ''h''"] find_hole [OF assms(1), of "CHR ''D''"]
  by (subst finalize_loop.simps) (simp add: no_n_e)

lemma finalize_template:
  assumes "list_all good_item items" and "hosts \<noteq> []" and "CHR ''%'' \<notin> set args"
    and "CHR ''%'' \<notin> set (temp_filename env (length files))" and "CHR ''%'' \<notin> set (hd hosts)"
    and "\<forall>d. dcmpi_debug env = Some d \<longrightarrow> CHR ''%'' \<notin> set d"
  shows "finalize env args hosts items files False
    = Some (Inr \<lparr>run_command = render (fill_command env args hosts (temp_filename env (length files)) items),
        mpi_run_temp_files = files @ machinefile_of hosts (temp_filename env (length files)) items,
        replaced_executable = (Hole CHR ''e'' \<in> set items)\<rparr>)"
proof -
  let ?f = "temp_filename env (length files)" and ?d = "case dcmpi_debug env of None \<Rightarrow> [] | Some d \<Rightarrow> d"
  define i1 where "i1 = fill CHR ''n'' (dcmpi_to_string (int (length hosts))) items"
  define i2 where "i2 = fill CHR ''e'' args i1"
  define i3 where "i3 = fill CHR ''h'' ?f i2"
  define i4 where "i4 = fill CHR ''F'' (hd hosts) i3"
  define i5 where "i5 = fill CHR ''D'' ?d i4"
  note defs = i1_def i2_def i3_def i4_def i5_def
  have d: "CHR ''%'' \<notin> set ?d" using assms(6) by (auto split: option.splits)
  have g: "list_all good_item i1" "list_all good_item i2" "list_all good_item i3" "list_all good_item i4" "list_all good_item i5"
    using assms(1,3-5) d number_no_percent by (simp_all add: defs fill_good)
  have "finalize env args hosts items files False = finalize env args hosts i1 files False"
    unfolding i1_def by (rule finalize_n [OF assms(1)])
  also have "\<dots> = finalize env args hosts i2 files (Hole CHR ''e'' \<in> set items)"
    unfolding i2_def using finalize_e [OF g(1) _ assms(3)] by (simp add: i1_def)
  also have "\<dots> = finalize env args hosts i3 (files @ machinefile_of hosts ?f i2) (Hole CHR ''e'' \<in> set items)"
    unfolding i3_def using assms g by (intro finalize_h) (simp_all add: i1_def i2_def)
  also have "\<dots> = finalize env args hosts i4 (files @ machinefile_of hosts ?f i2) (Hole CHR ''e'' \<in> set items)"
    unfolding i4_def using assms g by (intro finalize_F) (simp_all add: i1_def i2_def i3_def)
  also have "\<dots> = finalize env args hosts i5 (files @ machinefile_of hosts ?f i2) (Hole CHR ''e'' \<in> set items)"
    unfolding i5_def using assms g d by (intro finalize_D) (simp_all add: i1_def i2_def i3_def i4_def)
  also have "\<dots> = Some (Inr \<lparr>run_command = render i5, mpi_run_temp_files = files @ machinefile_of hosts ?f i2,
      replaced_executable = (Hole CHR ''e'' \<in> set items)\<rparr>)"
    using assms g by (intro finalize_stop) (simp_all add: defs)
  finally show ?thesis by (simp add: fill_command_def defs machinefile_of_def)
qed

section \<open>Words of a command line\<close>

lemma words_append_space:
  assumes "c \<in> set d"
  shows "words d (a @ c # b) = words d a @ words d b"
  using assms
proof (induction d a rule: words.induct)
  case (1 d a)
  show ?case
  proof (cases "dropWhile (\<lambda>x. x \<in> set d) a")
    case Nil
    then have "dropWhile (\<lambda>x. x \<in> set d) (a @ c # b) = dropWhile (\<lambda>x. x \<in> set d) b"
      using 1(2) by (simp add: dropWhile_append)
    then show ?thesis using words_skip [of d "a @ c # b"] words_skip [of d b] Nil by (simp add: words_none)
  next
    case (Cons x xs)
    then have x: "x \<notin> set d" by (metis dropWhile_eq_Cons_conv)
    let ?t = "takeWhile (\<lambda>x. x \<notin> set d) (x # xs)" and ?r = "dropWhile (\<lambda>x. x \<notin> set d) (x # xs)"
    have t: "?t \<noteq> []" "set ?t \<inter> set d = {}" using x by (auto dest: set_takeWhileD)
    have split: "x # xs = ?t @ ?r" by simp
    have "dropWhile (\<lambda>x. x \<in> set d) (a @ c # b) = (x # xs) @ c # b"
    proof -
      have "\<not> (\<forall>y \<in> set a. y \<in> set d)" using Cons by (metis dropWhile_eq_Nil_conv list.distinct(1))
      then show ?thesis using Cons by (simp add: dropWhile_append) blast
    qed
    then have w: "words d (a @ c # b) = words d (?t @ ?r @ c # b)"
      using words_skip [of d "a @ c # b"] split by (metis append.assoc)
    have wa: "words d a = ?t # words d ?r" using Cons by (simp add: words.simps [of d a])
    have ih: "words d (?r @ c # b) = words d ?r @ words d b" by (rule 1(1) [OF Cons 1(2)])
    show ?thesis
    proof (cases ?r)
      case Nil
      then show ?thesis using words_append_delim [OF t 1(2), of b] ih by (simp add: w wa)
    next
      case (Cons y ys)
      then have y: "y \<in> set d" using hd_dropWhile [of "\<lambda>x. x \<notin> set d" "x # xs"] by auto
      have "words d (y # z) = words d z" for z
        using words_skip [of d "y # z"] words_skip [of d z] y by simp
      then show ?thesis using words_append_delim [OF t y, of "ys @ c # b"] ih by (simp only: w wa Cons append_Cons)
    qed
  qed
qed

text \<open>A word that the shell and \<open>strip_quotes\<close> leave alone.\<close>

definition plain_word :: "string \<Rightarrow> bool" where
  "plain_word w \<longleftrightarrow> w \<noteq> [] \<and> CHR '' '' \<notin> set w \<and> hd w \<noteq> CHR 0x22 \<and> last w \<noteq> CHR 0x22"

definition control_word :: "string \<Rightarrow> bool" where
  "control_word w \<longleftrightarrow> w = ''dcmpi_control_args_begin'' \<or> w = ''dcmpi_control_args_end''"

lemma strip_plain: "plain_word w \<Longrightarrow> strip_quotes w = Inr w"
  by (simp add: plain_word_def strip_quotes_def)

lemma words_plain: "plain_word w \<Longrightarrow> words '' '' w = [w]"
  by (rule words_token) (auto simp: plain_word_def)

lemma words_params:
  "\<forall>(k, v) \<in> set params. plain_word k \<and> plain_word v \<Longrightarrow>
     words '' '' (a @ param_words params) = words '' '' a @ concat (map (\<lambda>(k, v). [k, v]) params)"
proof (induction params arbitrary: a)
  case Nil
  then show ?case by (simp add: param_words_def)
next
  case (Cons p params)
  obtain k v where p: "p = (k, v)" by (cases p)
  have "words '' '' (a @ param_words (p # params)) = words '' '' ((a @ '' '' @ k @ '' '' @ v) @ param_words params)"
    by (simp add: p param_words_def)
  also have "\<dots> = words '' '' (a @ CHR '' '' # k @ CHR '' '' # v) @ concat (map (\<lambda>(k, v). [k, v]) params)"
    using Cons.IH [of "a @ '' '' @ k @ '' '' @ v"] Cons.prems by auto
  also have "words '' '' (a @ CHR '' '' # k @ CHR '' '' # v) = words '' '' a @ [k, v]"
    using Cons.prems by (simp add: p words_append_space words_plain)
  finally show ?case by (simp add: p)
qed

lemma parse_skip:
  "\<forall>w \<in> set ws. plain_word w \<and> \<not> control_word w \<Longrightarrow> parse_loop False g (ws @ argv) = parse_loop False g argv"
  by (induction ws) (auto simp: strip_plain control_word_def)

lemma parse_params:
  "\<forall>(k, v) \<in> set params. plain_word k \<and> plain_word v \<and> \<not> control_word k \<Longrightarrow>
     parse_loop True g (concat (map (\<lambda>(k, v). [k, v]) params) @ ''dcmpi_control_args_end'' # argv)
     = fold_result (\<lambda>(k, v). set_arg k v) params g"
proof (induction params arbitrary: g)
  case Nil
  then show ?case by (simp add: strip_quotes_def)
next
  case (Cons p params)
  obtain k v where p: "p = (k, v)" by (cases p)
  show ?case
    using Cons by (cases "set_arg k v g") (auto simp: p strip_plain control_word_def)
qed

lemma words_executable:
  assumes "plain_word executable" and "\<forall>(k, v) \<in> set params. plain_word k \<and> plain_word v"
  shows "words '' '' (executable_and_args executable suffix params)
    = executable # words '' '' suffix @ ''dcmpi_control_args_begin'' # concat (map (\<lambda>(k, v). [k, v]) params) @ [''dcmpi_control_args_end'']"
proof -
  let ?a = "executable @ (if suffix \<noteq> [] then '' '' @ suffix else [])"
  have a: "words '' '' ?a = executable # words '' '' suffix"
    using assms(1) by (simp add: words_append_space words_plain)
  define b where "b = ''dcmpi_control_args_begin''"
  define e where "e = ''dcmpi_control_args_end''"
  have be: "words '' '' b = [b]" "words '' '' e = [e]"
    by (simp_all add: words_plain plain_word_def b_def e_def)
  have "words '' '' (executable_and_args executable suffix params)
      = words '' '' (((?a @ CHR '' '' # b) @ param_words params) @ CHR '' '' # e)"
    by (simp add: executable_and_args_def b_def e_def)
  also have "\<dots> = words '' '' ((?a @ CHR '' '' # b) @ param_words params) @ [e]"
    using be(2) words_append_space [of "CHR '' ''" "'' ''" "(?a @ CHR '' '' # b) @ param_words params" e] by simp
  also have "words '' '' ((?a @ CHR '' '' # b) @ param_words params)
      = words '' '' (?a @ CHR '' '' # b) @ concat (map (\<lambda>(k, v). [k, v]) params)"
    by (rule words_params [OF assms(2)])
  also have "words '' '' (?a @ CHR '' '' # b) = executable # words '' '' suffix @ [b]"
  proof -
    have "words '' '' (?a @ CHR '' '' # b) = words '' '' ?a @ words '' '' b" by (rule words_append_space) simp
    then show ?thesis unfolding a be by simp
  qed
  finally show ?thesis by (simp add: b_def e_def)
qed

section \<open>What the runtime is told\<close>

lemma is_alnum_facts: "is_alnum c \<Longrightarrow> c \<noteq> CHR 0x22 \<and> c \<noteq> CHR ''_''"
  by (auto simp: is_alnum_def less_eq_char_def)

lemma shell_quote_chars: "c \<in> set (shell_quote s) \<Longrightarrow> is_alnum c \<or> c = CHR ''=''"
proof -
  have "is_alnum (hex_char n)" if "n < 16" for n
  proof -
    have "\<forall>n \<in> set [0..<16]. is_alnum (hex_char n)" by code_simp
    then show ?thesis using that by auto
  qed
  then have "is_alnum c \<or> c = CHR ''=''" if "c \<in> set (quote_char x)" for c x
    using that code_halves [of x] by (auto simp: quote_char_def split: if_splits)
  then show "c \<in> set (shell_quote s) \<Longrightarrow> is_alnum c \<or> c = CHR ''=''" by (auto simp: shell_quote_def)
qed

lemma quote_facts: "c \<in> set (shell_quote s) \<Longrightarrow> c \<noteq> CHR 0x22 \<and> c \<noteq> CHR ''_''"
  using shell_quote_chars is_alnum_facts by fastforce

lemma suffix_chars:
  assumes "get_dcmpiruntime_suffix files cfg command = Inr suffix" and "c \<in> set suffix"
  shows "c \<noteq> CHR 0x22 \<and> c \<noteq> CHR ''_''"
proof (cases "dcmpi_string_starts_with command ''dcmpirun-socket''")
  case True
  with assms(1) obtain cmds where "suffix = suffix_of cmds"
    by (auto simp: get_dcmpiruntime_suffix_def result_simps simp del: fold_result.simps)
  with assms(2) have "c \<in> set ''-rsh '' \<or> c \<in> set '' -wrapper '' \<or> c \<in> set '' -wrapperhosts '' \<or> (\<exists>s. c \<in> set (shell_quote s))"
    by (auto simp: suffix_of_def split: if_splits)
  then show ?thesis using quote_facts by auto
next
  case False
  with assms show ?thesis by (simp add: get_dcmpiruntime_suffix_def)
qed

lemma plain_number: "plain_word (dcmpi_to_string (int n))"
proof -
  have d: "c \<noteq> CHR '' '' \<and> c \<noteq> CHR 0x22" if "c \<in> set (digits n)" for c
    using that digits_isdigit [of n] by (auto simp: isdigit_def less_eq_char_def)
  have "hd (digits n) \<in> set (digits n)" "last (digits n) \<in> set (digits n)" using digits_ne by auto
  with d digits_ne show ?thesis by (auto simp: plain_word_def dcmpi_to_string_def)
qed

lemma suffix_words:
  assumes "get_dcmpiruntime_suffix files cfg command = Inr suffix" and "w \<in> set (words '' '' suffix)"
  shows "plain_word w \<and> \<not> control_word w"
proof -
  have w: "w \<noteq> []" "CHR '' '' \<notin> set w" using words_tokens [OF assms(2)] by auto
  have "set w \<subseteq> set (concat (words '' '' suffix))" using assms(2) by auto
  then have "set w \<subseteq> set suffix" by (auto simp: concat_words)
  then have c: "c \<noteq> CHR 0x22 \<and> c \<noteq> CHR ''_''" if "c \<in> set w" for c using suffix_chars [OF assms(1)] that by auto
  have "CHR ''_'' \<notin> set w" using c by blast
  then have "\<not> control_word w" by (auto simp: control_word_def)
  moreover have "hd w \<noteq> CHR 0x22" "last w \<noteq> CHR 0x22" using c w(1) by auto
  ultimately show ?thesis using w by (simp add: plain_word_def)
qed

lemma parse_executable:
  assumes "plain_word executable" and "\<forall>(k, v) \<in> set params. plain_word k \<and> plain_word v \<and> \<not> control_word k"
    and "get_dcmpiruntime_suffix files cfg command = Inr suffix"
  shows "parse_args (words '' '' (executable_and_args executable suffix params)) g = fold_result (\<lambda>(k, v). set_arg k v) params g"
proof -
  have w: "words '' '' (executable_and_args executable suffix params)
      = executable # words '' '' suffix @ ''dcmpi_control_args_begin'' # concat (map (\<lambda>(k, v). [k, v]) params) @ [''dcmpi_control_args_end'']"
    using assms(2) by (intro words_executable [OF assms(1)]) auto
  have "parse_loop False g (words '' '' suffix @ argv) = parse_loop False g argv" for argv
    using suffix_words [OF assms(3)] by (intro parse_skip) blast
  moreover have "parse_loop False g (''dcmpi_control_args_begin'' # argv) = parse_loop True g argv" for argv
    by (simp add: strip_quotes_def)
  ultimately show ?thesis
    using parse_params [OF assms(2), of g "[]"] by (simp only: parse_args_def w list.sel)
qed

text \<open>
  C28. What the console puts on the command line reaches the runtime: the words of the executable, of any
  configured suffix and of the parameters of \<open>execute2\<close> give, after \<open>parse_args\<close>, the rank, the cluster,
  the cookie, the two ends of the console's sockets and the number of processes of the run.
\<close>

theorem launch_args_arrive:
  assumes "plain_word executable" and "get_dcmpiruntime_suffix files cfg command = Inr suffix"
    and "plain_word cookie_text" and "\<forall>t \<in> {type_info, to_info, from_info}. plain_word t \<and> CHR '':'' \<notin> set t"
    and "num_hosts < 2 ^ 31 - 1"
  shows "parse_args (words '' '' (executable_and_args executable suffix
      (execute2_params type_info to_info from_info cookie_text num_hosts has_console_filter))) g
    = Inr (g\<lparr>cluster_rank := 0, cluster_size := 1, cluster_offset := 0, cookie := cookie_text,
        console_method := type_info, console_from_path := to_info, console_to_path := from_info, dcmpi_rank := 0,
        totaldcmpiranks := int num_hosts + (if has_console_filter then 1 else 0),
        console_filter_present := has_console_filter\<rparr>)"
proof -
  let ?con = "type_info @ '':'' @ to_info @ '':'' @ from_info"
    and ?n = "dcmpi_to_string (int (num_hosts + (if has_console_filter then 1 else 0)))"
  have params: "execute2_params type_info to_info from_info cookie_text num_hosts has_console_filter =
     [(''-cluster_offset'', ''0''), (''-cluster_rank'', ''0''), (''-cluster_size'', ''1''), (''-console'', ?con),
      (''-cookie'', cookie_text), (''-dcmpi_rank'', ''0''), (''-hasconsolefilter'', if has_console_filter then ''yes'' else ''no''),
      (''-totaldcmpiranks'', ?n)]"
    by (simp add: execute2_params_def less_char_def)
  have con: "plain_word ?con" using assms(4) by (auto simp: plain_word_def)
  have toks: "dcmpi_string_tokenize ?con '':'' = Inr [type_info, to_info, from_info]"
    using assms(4) words_append_delim [of type_info "'':''" "CHR '':''" "to_info @ '':'' @ from_info"]
      words_append_delim [of to_info "'':''" "CHR '':''" from_info] words_token [of from_info "'':''"]
    by (simp add: tokenize_words plain_word_def)
  have num: "plain_word ?n"
    by (rule plain_number)
  have atoi: "Atoi ?n = Inr (int (num_hosts + (if has_console_filter then 1 else 0)))"
    using assms(5) by (intro Atoi_digits) auto
  have small: "Atoi ''0'' = Inr 0" "Atoi ''1'' = Inr 1" by code_simp+
  have plain: "plain_word ''0''" "plain_word ''1''" "plain_word ''yes''" "plain_word ''no''"
    "\<forall>k \<in> set [''-cluster_offset'', ''-cluster_rank'', ''-cluster_size'', ''-console'', ''-cookie'', ''-dcmpi_rank'',
      ''-hasconsolefilter'', ''-totaldcmpiranks'']. plain_word k \<and> \<not> control_word k"
    by (simp_all add: plain_word_def control_word_def)
  have "parse_args (words '' '' (executable_and_args executable suffix
      (execute2_params type_info to_info from_info cookie_text num_hosts has_console_filter))) g
    = fold_result (\<lambda>(k, v). set_arg k v) (execute2_params type_info to_info from_info cookie_text num_hosts has_console_filter) g"
    using plain con num assms(3) by (intro parse_executable [OF assms(1) _ assms(2)]) (simp add: params)
  also have "\<dots> = Inr (g\<lparr>cluster_rank := 0, cluster_size := 1, cluster_offset := 0, cookie := cookie_text,
      console_method := type_info, console_from_path := to_info, console_to_path := from_info, dcmpi_rank := 0,
      totaldcmpiranks := int num_hosts + (if has_console_filter then 1 else 0), console_filter_present := has_console_filter\<rparr>)"
    using toks atoi small by (simp add: params set_arg_def)
  finally show ?thesis .
qed

lemma launch_args_arrive_witness:
  "parse_args (words '' '' (executable_and_args ''/bin/dcmpiruntime'' []
      (execute2_params ''unix'' ''/tmp/d/console_out'' ''/tmp/d/console_in'' ''node1_17.5_99_3'' 4 True)))
     \<lparr>cluster_rank = 9, cluster_size = 9, cluster_offset = 9, cookie = [], console_method = [], console_from_path = [],
       console_to_path = [], proxy_host = [], proxy_port = 0, use_proxy = False, dcmpi_rank = 9, totaldcmpiranks = 0,
       console_filter_present = False\<rparr>
   = Inr \<lparr>cluster_rank = 0, cluster_size = 1, cluster_offset = 0, cookie = ''node1_17.5_99_3'', console_method = ''unix'',
       console_from_path = ''/tmp/d/console_out'', console_to_path = ''/tmp/d/console_in'', proxy_host = [], proxy_port = 0,
       use_proxy = False, dcmpi_rank = 0, totaldcmpiranks = 5, console_filter_present = True\<rparr>"
  using launch_args_arrive [of "''/bin/dcmpiruntime''" Map.empty "([], [])" "''mpirun''" "[]" "''node1_17.5_99_3''" "''unix''"
      "''/tmp/d/console_out''" "''/tmp/d/console_in''" 4 True]
  by (simp add: plain_word_def get_dcmpiruntime_suffix_def starts_with_prefix)

text \<open>
  \<open>run_command_finalize\<close> returns, and fills every place of the configured command: the number of
  hosts, the executable with its arguments, a machine file with a host per line (written for the first
  place that names it), the first host, the debugging command. A command without a place for the
  executable gets it at the end.
\<close>

theorem run_command_filled:
  assumes "list_all good_item items" and "hosts \<noteq> []"
    and "args = executable_and_args executable exe_suffix launch_params" and "CHR ''%'' \<notin> set args"
    and "machinefile = temp_filename env (length files)" and "CHR ''%'' \<notin> set machinefile"
    and "CHR ''%'' \<notin> set (hd hosts)" and "\<forall>d. dcmpi_debug env = Some d \<longrightarrow> CHR ''%'' \<notin> set d"
  shows "run_command_finalize env executable exe_suffix hosts launch_params (render items) files
    = Some (Inr (render (fill_command env args hosts machinefile items) @ (if Hole CHR ''e'' \<in> set items then [] else '' '' @ args),
        files @ machinefile_of hosts machinefile items))"
  using finalize_template [OF assms(1,2,4) assms(6) [unfolded assms(5)] assms(7,8)]
  unfolding assms(3,5) run_command_finalize_def Let_def by simp

lemma run_command_filled_witness:
  "run_command_finalize \<lparr>temp_filename = (\<lambda>k. ''/tmp/m''), dcmpi_debug = None\<rparr> ''/bin/rt'' [] [''n1'', ''n2''] [(''-cookie'', ''x'')]
     DCMPI_DEFAULT_RUN_COMMAND []
   = Some (Inr (''dcmpirun-socket -hostfile /tmp/m -size 2 -exe /bin/rt dcmpi_control_args_begin -cookie x dcmpi_control_args_end'',
       [(''/tmp/m'', ''n1'' @ newline # ''n2'' @ [newline])]))"
proof -
  have number: "dcmpi_to_string 2 = ''2''" by code_simp
  show ?thesis
  using run_command_filled [of "[Txt ''dcmpirun-socket -hostfile '', Hole CHR ''h'', Txt '' -size '', Hole CHR ''n'', Txt '' -exe '', Hole CHR ''e'']"
      "[''n1'', ''n2'']" _ "''/bin/rt''" "[]" "[(''-cookie'', ''x'')]" _ "\<lparr>temp_filename = (\<lambda>k. ''/tmp/m''), dcmpi_debug = None\<rparr>" "[]",
      OF _ _ refl _ refl]
    number
  by (simp add: executable_and_args_def param_words_def DCMPI_DEFAULT_RUN_COMMAND_def fill_command_def fill_def machinefile_of_def)
qed

lemma startup_hosts: "startup_args (concat (map (\<lambda>h. [''-h'', h]) hs)) params hosts = (params, hosts @ hs)"
  by (induction hs arbitrary: hosts) auto

lemma startup_params:
  "\<forall>(k, v) \<in> set ps. k \<noteq> ''-h'' \<Longrightarrow>
     startup_args (concat (map (\<lambda>(k, v). [k, v]) ps) @ argv) params hosts = startup_args argv (fold (\<lambda>(k, v). map_put k v) ps params) hosts"
  by (induction ps arbitrary: params) auto

lemma words_hosts:
  "\<forall>h \<in> set hosts. plain_word h \<Longrightarrow>
     words '' '' (a @ concat (map (\<lambda>h. '' -h '' @ h) hosts)) = words '' '' a @ concat (map (\<lambda>h. [''-h'', h]) hosts)"
proof (induction hosts arbitrary: a)
  case (Cons h hosts)
  have "words '' '' (a @ CHR '' '' # ''-h'' @ CHR '' '' # h) = words '' '' a @ [''-h'', h]"
    using Cons.prems words_append_space [of "CHR '' ''" "'' ''" a "''-h'' @ CHR '' '' # h"]
      words_append_space [of "CHR '' ''" "'' ''" "''-h''" h] words_plain [of "''-h''"]
    by (simp add: words_plain plain_word_def)
  then show ?case using Cons.IH [of "a @ '' -h '' @ h"] Cons.prems by auto
qed simp

text \<open>
  \<open>dcmpiremotestartup\<close> in a remote cluster gets the launch parameters and the hosts, in order, that
  \<open>remote_run_command_finalize\<close> put on its command line.
\<close>

theorem remote_startup_roundtrip:
  assumes "map_wf launch_params" and "\<forall>(k, v) \<in> set launch_params. plain_word k \<and> plain_word v \<and> k \<noteq> ''-h''"
    and "\<forall>h \<in> set hosts. plain_word h" and "hosts \<noteq> []"
  shows "remote_startup (words '' '' (starter hosts launch_params)) = Inr (launch_params, hosts)"
proof -
  let ?ps = "concat (map (\<lambda>(k, v). [k, v]) launch_params)" and ?hs = "concat (map (\<lambda>h. [''-h'', h]) hosts)"
  define prog where "prog = ''dcmpiremotestartup''"
  have "words '' '' (starter hosts launch_params) = words '' '' (prog @ param_words launch_params) @ ?hs"
    using words_hosts [OF assms(3), of "prog @ param_words launch_params"] by (simp add: starter_def prog_def)
  also have "words '' '' (prog @ param_words launch_params) = words '' '' prog @ ?ps"
    using assms(2) by (intro words_params) auto
  also have "words '' '' prog = [prog]" unfolding prog_def by (rule words_plain) (simp add: plain_word_def)
  finally have w: "words '' '' (starter hosts launch_params) = prog # ?ps @ ?hs" by simp
  have "length ?ps = 2 * length launch_params" by (induction launch_params) auto
  moreover have "length ?hs = 2 * length hosts" by (induction hosts) auto
  moreover have "startup_args (?ps @ ?hs) [] [] = (launch_params, hosts)"
    using startup_params [of launch_params ?hs "[]" "[]"] assms(2) smap.rebuild [OF assms(1)] by (auto simp: startup_hosts)
  moreover have "tl (words '' '' (starter hosts launch_params)) = ?ps @ ?hs" by (simp add: w)
  moreover have "\<not> 2 * length launch_params + 2 * length hosts < 2" using assms(4) by (cases hosts) auto
  ultimately show ?thesis unfolding remote_startup_def by simp
qed

lemma remote_startup_roundtrip_witness:
  "remote_startup (words '' '' (starter [''n1'', ''n2''] [(''-cluster_rank'', ''1'')])) = Inr ([(''-cluster_rank'', ''1'')], [''n1'', ''n2''])"
  using remote_startup_roundtrip [of "[(''-cluster_rank'', ''1'')]" "[''n1'', ''n2'']"] by (simp add: plain_word_def map_wf_def)

end
