(* ===== verification/Clusters.thy ===== *)
theory Clusters
  imports Launch Placement
begin

text \<open>
  Runs over several clusters (\<open>DCLayout::mpi_build_run_commands\<close> of \<open>src/src/DCLayout.cpp\<close>): the file of remote
  clusters, which hosts belong to which cluster, the ranks of the hosts, and the commands that start the
  runtime in every cluster. \<open>matches\<close> is what the regular expression library answers for an expression
  and a host name.
\<close>

section \<open>The file of remote clusters\<close>

record RemoteCluster =
  cluster_name :: string
  regexp :: string
  startup :: string
  rc_id :: int
  member_hosts :: "string list"

definition RemoteCluster_new :: "string \<Rightarrow> string \<Rightarrow> string \<Rightarrow> RemoteCluster" where
  "RemoteCluster_new name re start = \<lparr>cluster_name = name, regexp = re, startup = start, rc_id = - 1, member_hosts = []\<rparr>"

text \<open>The line with the next cluster's name, and the rest of the file; an empty name is the end of the file.\<close>

function next_cluster :: "string \<Rightarrow> (string \<times> string) result" where
  "next_cluster f =
     (if f = [] then Inr ([], [])
      else let line = fgets_line 512 f; rest = drop (length line) f; buf = c_string line
           in if buf = [] then Inl Undefined_behaviour
              else let l = dcmpi_string_trim (butlast buf)
                   in if l = [] \<or> hd l = CHR ''#'' then next_cluster rest else Inr (l, rest))"
  by pat_completeness auto
termination by (relation "measure length") (auto intro!: drop_fgets_line)

declare next_cluster.simps [simp del]

text \<open>The entries of a cluster, up to an empty line: its expression, its command, the rest of the file.\<close>

function cluster_entries :: "string \<Rightarrow> string \<Rightarrow> string \<Rightarrow> (string \<times> string \<times> string) result" where
  "cluster_entries f re start =
     (if f = [] then Inr (re, start, [])
      else let line = fgets_line 512 f; rest = drop (length line) f; l = dcmpi_string_trim_rear (c_string line)
           in if l \<noteq> [] \<and> hd l = CHR ''#'' then cluster_entries rest re start
              else if l = [] then Inr (re, start, rest)
              else if take 2 l = ''  ''
              then let entry = dcmpi_string_trim (drop 2 l); val = drop 8 entry
                   in if dcmpi_string_starts_with entry ''matches ''
                      then (if val = [] then Inl Exit_failure else cluster_entries rest val start)
                      else if dcmpi_string_starts_with entry ''startup ''
                      then (if val = [] then Inl Exit_failure else cluster_entries rest re val)
                      else cluster_entries rest re start
              else Inl Exit_failure)"
  by pat_completeness auto
termination by (relation "measure (\<lambda>(f, _). length f)") (auto intro!: drop_fgets_line)

declare cluster_entries.simps [simp del]

lemma next_cluster_shorter: "next_cluster f = Inr (name, rest) \<Longrightarrow> name \<noteq> [] \<Longrightarrow> length rest < length f"
proof (induction f rule: next_cluster.induct)
  case (1 f)
  let ?line = "fgets_line 512 f"
  let ?rest = "drop (length ?line) f" and ?l = "dcmpi_string_trim (butlast (c_string ?line))"
  have f: "f \<noteq> []" using 1(2,3) by (auto simp: next_cluster.simps)
  have buf: "c_string ?line \<noteq> []" using 1(2) f by (auto simp: next_cluster.simps [of f] Let_def)
  have d: "length ?rest < length f" using f by (simp add: drop_fgets_line)
  show ?case
  proof (cases "?l = [] \<or> hd ?l = CHR ''#''")
    case True
    then have "next_cluster ?rest = Inr (name, rest)"
      using 1(2) f buf by (simp add: next_cluster.simps [of f] Let_def del: length_drop)
    then show ?thesis using 1(1) [OF f refl refl refl buf refl True _ 1(3)] d by simp
  next
    case False
    then show ?thesis using 1(2) f buf d by (simp add: next_cluster.simps [of f] Let_def)
  qed
qed

lemma cluster_entries_shorter: "cluster_entries f re start = Inr (re', start', rest) \<Longrightarrow> length rest \<le> length f"
proof (induction "length f" arbitrary: f re start rule: less_induct)
  case less
  show ?case
  proof (cases "f = []")
    case True
    then show ?thesis using less.prems by (simp add: cluster_entries.simps)
  next
    case False
    let ?rest = "drop (length (fgets_line 512 f)) f"
    have d: "length ?rest < length f" using False by (simp add: drop_fgets_line)
    have go: "length rest \<le> length f" if "cluster_entries ?rest r s = Inr (re', start', rest)" for r s
      using less.hyps [OF d that] d by simp
    show ?thesis
      using less.prems False d go
      by (subst (asm) cluster_entries.simps) (simp add: Let_def del: length_drop split: if_splits)
  qed
qed

function read_clusters :: "string \<Rightarrow> RemoteCluster list \<Rightarrow> RemoteCluster list result" where
  "read_clusters f rcs =
     (case next_cluster f of
        Inl e \<Rightarrow> Inl e
      | Inr (name, f1) \<Rightarrow>
        if name = [] then Inr rcs
        else case cluster_entries f1 [] [] of
               Inl e \<Rightarrow> Inl e
             | Inr (re, start, f2) \<Rightarrow> read_clusters f2 (rcs @ [RemoteCluster_new name re start]))"
  by pat_completeness auto
termination
  by (relation "measure (\<lambda>(f, _). length f)")
    (auto dest!: next_cluster_shorter cluster_entries_shorter)

declare read_clusters.simps [simp del]

section \<open>Hosts and clusters\<close>

record clustering =
  remote_clusters :: "RemoteCluster list"
  remote_cluster_nextid :: int
  host_remotecluster :: "(string, nat) std_map"
  non_remote_hosts :: "string list"

text \<open>The first cluster that matches takes the host; clusters are numbered when they get their first host.\<close>

definition assign_host :: "(string \<Rightarrow> string \<Rightarrow> bool) \<Rightarrow> string \<Rightarrow> clustering \<Rightarrow> clustering" where
  "assign_host matches host c =
     (case find (\<lambda>u2. matches (regexp (remote_clusters c ! u2)) host) [0..<length (remote_clusters c)] of
        None \<Rightarrow> c\<lparr>non_remote_hosts := non_remote_hosts c @ [host]\<rparr>
      | Some u2 \<Rightarrow>
        let rc = remote_clusters c ! u2; is_new = (rc_id rc = - 1)
        in c\<lparr>remote_clusters := (remote_clusters c)[u2 := rc\<lparr>member_hosts := member_hosts rc @ [host],
               rc_id := (if is_new then remote_cluster_nextid c else rc_id rc)\<rparr>],
             remote_cluster_nextid := (if is_new then remote_cluster_nextid c + 1 else remote_cluster_nextid c),
             host_remotecluster := map_put host u2 (host_remotecluster c)\<rparr>)"

definition assign_hosts :: "(string \<Rightarrow> string \<Rightarrow> bool) \<Rightarrow> RemoteCluster list \<Rightarrow> string list \<Rightarrow> clustering" where
  "assign_hosts matches rcs hosts = fold (assign_host matches) hosts
     \<lparr>remote_clusters = rcs, remote_cluster_nextid = 1, host_remotecluster = [], non_remote_hosts = []\<rparr>"

text \<open>\<open>host_dcmpirank[h] = rank_next++\<close> for the hosts of a list.\<close>

definition put_ranks :: "string list \<Rightarrow> (string, int) std_map \<times> int \<Rightarrow> (string, int) std_map \<times> int" where
  "put_ranks hosts s = fold (\<lambda>h (m, rank_next). (map_put h rank_next m, rank_next + 1)) hosts s"

definition cluster_with_id :: "clustering \<Rightarrow> int \<Rightarrow> RemoteCluster result" where
  "cluster_with_id c i =
     (case find (\<lambda>rc. rc_id rc = i) (remote_clusters c) of None \<Rightarrow> Inl Assert_failure | Some rc \<Rightarrow> Inr rc)"

definition assign_ranks :: "clustering \<Rightarrow> (string, int) std_map \<Rightarrow> (string, int) std_map result" where
  "assign_ranks c m =
     bind_result (fold_result (\<lambda>i s. bind_result (cluster_with_id c i) (\<lambda>rc. Inr (put_ranks (member_hosts rc) s)))
       [1..remote_cluster_nextid c - 1] (put_ranks (non_remote_hosts c) (m, 0))) (\<lambda>s. Inr (fst s))"

definition tag_instance :: "clustering \<Rightarrow> (string, int) std_map \<Rightarrow> inst_ref \<Rightarrow> (inst_ref \<Rightarrow> DCFilterInstance) \<Rightarrow> inst_ref \<Rightarrow> DCFilterInstance" where
  "tag_instance c ranks r h =
     h(r := (h r)\<lparr>dcmpi_cluster_rank := (case map_of (host_remotecluster c) (dcmpi_host (h r)) of
              None \<Rightarrow> dcmpi_cluster_rank (h r) | Some u \<Rightarrow> rc_id (remote_clusters c ! u)),
            DCFilterInstance.dcmpi_rank := map_get_def (dcmpi_host (h r)) 0 ranks\<rparr>)"

section \<open>The commands\<close>

text \<open>The contents of the proxy's file; the parameters of the cluster with the console, and of a remote cluster, and the hosts it runs on.\<close>

definition file_to_string :: "files \<Rightarrow> string \<Rightarrow> string result" where
  "file_to_string files filename =
     (case files filename of None \<Rightarrow> Inl Exit_failure | Some f \<Rightarrow> if f = [] then Inl Exit_failure else Inr (c_string f))"

definition local_params :: "nat \<Rightarrow> string \<Rightarrow> launch_params \<Rightarrow> launch_params" where
  "local_params total_clusters proxy launch_params =
     map_put ''-proxy'' proxy (map_put ''-cluster_offset'' ''0'' (map_put ''-cluster_size'' (dcmpi_to_string (int total_clusters))
       (map_put ''-cluster_rank'' ''0'' launch_params)))"

definition remote_params :: "nat \<Rightarrow> int \<Rightarrow> int \<Rightarrow> launch_params \<Rightarrow> launch_params" where
  "remote_params total_clusters i offset launch_params =
     map_put ''-cluster_offset'' (dcmpi_to_string offset) (map_put ''-cluster_size'' (dcmpi_to_string (int total_clusters))
       (map_put ''-cluster_rank'' (dcmpi_to_string i) (map_put ''-dcmpi_rank'' (dcmpi_to_string offset) launch_params)))"

record remote_launch =
  launched :: RemoteCluster
  launch_id :: int
  launch_offset :: int

text \<open>Which cluster is started with which offset.\<close>

definition remote_launches :: "clustering \<Rightarrow> (remote_launch list \<times> int) result" where
  "remote_launches c =
     fold_result (\<lambda>i (ls, cluster_offset). bind_result (cluster_with_id c i) (\<lambda>rc.
         Inr (ls @ [\<lparr>launched = rc, launch_id = i, launch_offset = cluster_offset\<rparr>],
           cluster_offset + int (length (member_hosts rc)))))
       [1..remote_cluster_nextid c - 1] ([], int (length (non_remote_hosts c)))"

fun run_remote_launches :: "launch_env \<Rightarrow> nat \<Rightarrow> launch_params \<Rightarrow> remote_launch list \<Rightarrow> string list \<times> (string \<times> string) list
    \<Rightarrow> (string list \<times> (string \<times> string) list) result option" where
  "run_remote_launches env clusters params [] s = Some (Inr s)"
| "run_remote_launches env clusters params (l # ls) (commands, files) =
     (if startup (launched l) = [] then Some (Inl Exit_failure)
      else case remote_run_command_finalize env (member_hosts (launched l))
         (remote_params clusters (launch_id l) (launch_offset l) params) (startup (launched l)) files of
        None \<Rightarrow> None
      | Some (Inl e) \<Rightarrow> Some (Inl e)
      | Some (Inr (command, files')) \<Rightarrow> run_remote_launches env clusters params ls (commands @ [command], files'))"

text \<open>What the operating system and the configuration say.\<close>

record build_env =
  launch :: launch_env
  config :: files
  exists_file :: "string \<Rightarrow> bool"
  system_dir :: string
  home_dir :: string
  pcre_matches :: "string \<Rightarrow> string \<Rightarrow> bool"
  host_names :: "string list"
  find_executable :: "string \<Rightarrow> string"

definition config_file :: "build_env \<Rightarrow> string \<Rightarrow> string" where
  "config_file be name =
     (case get_config_filenames (exists_file be) (system_dir be) (home_dir be) name False of
        (sys, user) \<Rightarrow> if user \<noteq> [] then user else sys)"

definition config_files :: "build_env \<Rightarrow> string \<Rightarrow> string \<times> string" where
  "config_files be name = get_config_filenames (exists_file be) (system_dir be) (home_dir be) name False"

definition proxy_pattern :: string where
  "proxy_pattern = ''^([a-zA-Z0-9-]+)('' @ [CHR 0x5C] @ ''.[-a-zA-Z0-9-]+)*:[0-9]+$''"

text \<open>The clusters and which hosts they have: \<open>None\<close> when there is only the cluster of the console.\<close>

definition find_clusters :: "build_env \<Rightarrow> string list \<Rightarrow> clustering option result" where
  "find_clusters be hosts =
     (let fn = config_file be ''remote_clusters''
      in if \<not> exists_file be fn then Inr None
         else case config be fn of
                None \<Rightarrow> Inl Exit_failure
              | Some f \<Rightarrow> bind_result (read_clusters f []) (\<lambda>rcs.
                  if list_ex (\<lambda>rc. list_ex (pcre_matches be (regexp rc)) (host_names be)) rcs then Inl Exit_failure
                  else let c = assign_hosts (pcre_matches be) rcs hosts
                       in Inr (if length (non_remote_hosts c) = length hosts then None else Some c)))"

definition read_proxy :: "build_env \<Rightarrow> string result" where
  "read_proxy be =
     (let fn = config_file be ''remote_proxy''
      in if \<not> exists_file be fn then Inl Exit_failure
         else bind_result (file_to_string (config be) fn) (\<lambda>contents.
           let proxy = dcmpi_string_trim contents
           in if pcre_matches be proxy_pattern proxy then Inr proxy else Inl Exit_failure))"

text \<open>A run in several clusters: the ranks of the instances, and a command per cluster.\<close>

definition multi_cluster_commands :: "build_env \<Rightarrow> clustering \<Rightarrow> launch_params \<Rightarrow> string \<Rightarrow> string \<Rightarrow> (string \<times> string) list
    \<Rightarrow> DCLayout \<Rightarrow> (string list \<times> (string \<times> string) list \<times> DCLayout) result option" where
  "multi_cluster_commands be c params command suffix files l =
     (case bind_result (assign_ranks c (host_dcmpirank l)) (\<lambda>ranks. bind_result (read_proxy be) (\<lambda>proxy.
             if non_remote_hosts c = [] then Inl Exit_failure else Inr (ranks, proxy))) of
        Inl e \<Rightarrow> Some (Inl e)
      | Inr (ranks, proxy) \<Rightarrow>
        let clusters = nat (remote_cluster_nextid c); params1 = local_params clusters proxy params;
            l1 = l\<lparr>heap := fold (tag_instance c ranks) (filter_instances l) (heap l), host_dcmpirank := ranks\<rparr>
        in case run_command_finalize (launch be) (find_executable be (get_dcmpiruntime_runtime command)) suffix
               (non_remote_hosts c) params1 command files of
             None \<Rightarrow> None
           | Some (Inl e) \<Rightarrow> Some (Inl e)
           | Some (Inr (command1, files1)) \<Rightarrow>
             (case remote_launches c of
                Inl e \<Rightarrow> Some (Inl e)
              | Inr (launches, _) \<Rightarrow>
                (case run_remote_launches (launch be) clusters (filter (\<lambda>p. fst p \<noteq> ''-console'') params1) launches ([command1], files1) of
                   None \<Rightarrow> None
                 | Some (Inl e) \<Rightarrow> Some (Inl e)
                 | Some (Inr (commands, files2)) \<Rightarrow> Some (Inr (commands, files2, l1)))))"

definition mpi_build_run_commands :: "build_env \<Rightarrow> string list \<Rightarrow> launch_params \<Rightarrow> (string \<times> string) list \<Rightarrow> DCLayout
    \<Rightarrow> (string list \<times> (string \<times> string) list \<times> DCLayout) result option" where
  "mpi_build_run_commands be hosts params files l =
     (case bind_result (find_clusters be hosts) (\<lambda>c. bind_result (get_raw_run_command (config be) (config_files be ''runcommand'')) (\<lambda>command.
             bind_result (get_dcmpiruntime_suffix (config be) (config_files be ''socket'') command) (\<lambda>suffix. Inr (c, command, suffix)))) of
        Inl e \<Rightarrow> Some (Inl e)
      | Inr (Some c, command, suffix) \<Rightarrow> multi_cluster_commands be c params command suffix files l
      | Inr (None, command, suffix) \<Rightarrow>
        (case run_command_finalize (launch be) (find_executable be (get_dcmpiruntime_runtime command)) suffix hosts params command files of
           None \<Rightarrow> None
         | Some (Inl e) \<Rightarrow> Some (Inl e)
         | Some (Inr (command1, files1)) \<Rightarrow> Some (Inr ([command1], files1, l))))"

section \<open>How the hosts are assigned\<close>

definition hosts_of :: "clustering \<Rightarrow> string list" where
  "hosts_of c = non_remote_hosts c @ concat (map member_hosts (remote_clusters c))"

definition ids_ok :: "RemoteCluster list \<Rightarrow> int \<Rightarrow> bool" where
  "ids_ok rcs n \<longleftrightarrow> 1 \<le> n
     \<and> (\<forall>rc \<in> set rcs. (rc_id rc = - 1 \<and> member_hosts rc = []) \<or> (1 \<le> rc_id rc \<and> rc_id rc < n))
     \<and> (\<forall>u < length rcs. \<forall>v < length rcs. rc_id (rcs ! u) = rc_id (rcs ! v) \<longrightarrow> u = v \<or> rc_id (rcs ! u) = - 1)
     \<and> {1..<n} \<subseteq> rc_id ` set rcs"

definition lookup_ok :: "RemoteCluster list \<Rightarrow> (string, nat) std_map \<Rightarrow> bool" where
  "lookup_ok rcs m \<longleftrightarrow> map_wf m \<and> (\<forall>h. case map_of m h of None \<Rightarrow> \<forall>rc \<in> set rcs. h \<notin> set (member_hosts rc)
     | Some u \<Rightarrow> u < length rcs \<and> h \<in> set (member_hosts (rcs ! u)))"

definition well_clustered :: "string list \<Rightarrow> clustering \<Rightarrow> bool" where
  "well_clustered hs c \<longleftrightarrow> mset (hosts_of c) = mset hs \<and> ids_ok (remote_clusters c) (remote_cluster_nextid c)
     \<and> lookup_ok (remote_clusters c) (host_remotecluster c)"

lemma mset_concat_update:
  "u < length xs \<Longrightarrow> mset (f y) = mset (f (xs ! u)) + d \<Longrightarrow> mset (concat (map f (xs[u := y]))) = mset (concat (map f xs)) + d"
proof (induction xs arbitrary: u)
  case (Cons x xs)
  then show ?case by (cases u) (auto simp: ac_simps)
qed simp

lemma ids_ok_update:
  assumes "ids_ok rcs n" and "u < length rcs" and "rc = rcs ! u"
    and "rc' = rc\<lparr>member_hosts := hs, rc_id := (if rc_id rc = - 1 then n else rc_id rc)\<rparr>"
    and "n' = (if rc_id rc = - 1 then n + 1 else n)"
  shows "ids_ok (rcs[u := rc']) n'"
proof -
  have n: "1 \<le> n" and all: "\<And>v. v < length rcs \<Longrightarrow> (rc_id (rcs ! v) = - 1 \<and> member_hosts (rcs ! v) = []) \<or> (1 \<le> rc_id (rcs ! v) \<and> rc_id (rcs ! v) < n)"
    and inj: "\<And>u v. u < length rcs \<Longrightarrow> v < length rcs \<Longrightarrow> rc_id (rcs ! u) = rc_id (rcs ! v) \<Longrightarrow> u = v \<or> rc_id (rcs ! u) = - 1"
    and onto: "{1..<n} \<subseteq> rc_id ` set rcs"
    using assms(1) nth_mem by (auto simp: ids_ok_def)
  have id': "rc_id rc' = (if rc_id rc = - 1 then n else rc_id rc)" using assms(4) by simp
  have rc: "rc_id rc = - 1 \<or> (1 \<le> rc_id rc \<and> rc_id rc < n)" using all [OF assms(2)] assms(3) by auto
  show ?thesis
    unfolding ids_ok_def
  proof (intro conjI)
    show "1 \<le> n'" using n assms(5) by simp
    show "\<forall>x \<in> set (rcs[u := rc']). (rc_id x = - 1 \<and> member_hosts x = []) \<or> (1 \<le> rc_id x \<and> rc_id x < n')"
    proof
      fix x
      assume "x \<in> set (rcs[u := rc'])"
      then have "x = rc' \<or> x \<in> set rcs" using set_update_subset_insert by fastforce
      then show "(rc_id x = - 1 \<and> member_hosts x = []) \<or> (1 \<le> rc_id x \<and> rc_id x < n')"
        using id' rc n assms(1,5) by (auto simp: ids_ok_def)
    qed
    show "\<forall>a < length (rcs[u := rc']). \<forall>b < length (rcs[u := rc']).
        rc_id (rcs[u := rc'] ! a) = rc_id (rcs[u := rc'] ! b) \<longrightarrow> a = b \<or> rc_id (rcs[u := rc'] ! a) = - 1"
    proof (intro allI impI)
      fix a b
      assume l: "a < length (rcs[u := rc'])" "b < length (rcs[u := rc'])" and e: "rc_id (rcs[u := rc'] ! a) = rc_id (rcs[u := rc'] ! b)"
      show "a = b \<or> rc_id (rcs[u := rc'] ! a) = - 1"
        using l e id' rc all [of a] all [of b] inj [of a b] inj [of u b] inj [of a u] assms(2,3)
        by (auto simp: nth_list_update split: if_splits)
    qed
    show "{1..<n'} \<subseteq> rc_id ` set (rcs[u := rc'])"
    proof
      fix i
      assume i: "i \<in> {1..<n'}"
      show "i \<in> rc_id ` set (rcs[u := rc'])"
      proof (cases "i = rc_id rc'")
        case True
        then show ?thesis using assms(2) by (metis imageI set_update_memI)
      next
        case False
        then have "i \<in> {1..<n}" using i id' assms(5) by (auto split: if_splits)
        then obtain v where v: "v < length rcs" "i = rc_id (rcs ! v)" using onto by (metis (no_types, lifting) image_iff in_set_conv_nth subsetD)
        then have "v \<noteq> u" using False id' i assms(3) by auto
        then have "rcs ! v = rcs[u := rc'] ! v" "v < length (rcs[u := rc'])" using v(1) by simp_all
        then show ?thesis using v(2) by (metis imageI nth_mem)
      qed
    qed
  qed
qed

lemma lookup_ok_update:
  assumes "lookup_ok rcs m" and "u < length rcs" and "member_hosts rc' = member_hosts (rcs ! u) @ [h]"
  shows "lookup_ok (rcs[u := rc']) (map_put h u m)"
proof -
  have m: "map_wf m" using assms(1) by (simp add: lookup_ok_def)
  have old: "case map_of m g of None \<Rightarrow> \<forall>rc \<in> set rcs. g \<notin> set (member_hosts rc) | Some u \<Rightarrow> u < length rcs \<and> g \<in> set (member_hosts (rcs ! u))" for g
    using assms(1) by (simp add: lookup_ok_def)
  have "case ((map_of m)(h \<mapsto> u)) g of None \<Rightarrow> \<forall>rc \<in> set (rcs[u := rc']). g \<notin> set (member_hosts rc)
      | Some v \<Rightarrow> v < length (rcs[u := rc']) \<and> g \<in> set (member_hosts (rcs[u := rc'] ! v))" for g
  proof (cases "g = h")
    case True
    then show ?thesis using assms(2,3) by simp
  next
    case False
    have "g \<notin> set (member_hosts x)" if "map_of m g = None" "x \<in> set (rcs[u := rc'])" for x
      using old [of g] that assms(2,3) False set_update_subset_insert [of rcs u rc'] nth_mem [OF assms(2)] by auto
    then show ?thesis
      using old [of g] False assms(2,3) by (cases "map_of m g") (auto simp: nth_list_update)
  qed
  then show ?thesis using map_wf_put [OF m] by (simp add: lookup_ok_def map_of_put [OF m])
qed

lemma assign_host_step:
  assumes "well_clustered hs c"
  shows "well_clustered (hs @ [h]) (assign_host matches h c)"
proof (cases "find (\<lambda>u2. matches (regexp (remote_clusters c ! u2)) h) [0..<length (remote_clusters c)]")
  case None
  then show ?thesis using assms by (auto simp: assign_host_def well_clustered_def hosts_of_def)
next
  case (Some u)
  then have u: "u < length (remote_clusters c)" by (auto simp: find_Some_iff)
  define rc where "rc = remote_clusters c ! u"
  define rc' where "rc' = rc\<lparr>member_hosts := member_hosts rc @ [h], rc_id := (if rc_id rc = - 1 then remote_cluster_nextid c else rc_id rc)\<rparr>"
  define n' where "n' = (if rc_id rc = - 1 then remote_cluster_nextid c + 1 else remote_cluster_nextid c)"
  have a: "assign_host matches h c = c\<lparr>remote_clusters := (remote_clusters c)[u := rc'], remote_cluster_nextid := n',
      host_remotecluster := map_put h u (host_remotecluster c)\<rparr>"
    using Some by (simp add: assign_host_def Let_def rc_def rc'_def n'_def)
  have "ids_ok ((remote_clusters c)[u := rc']) n'"
    using assms u by (intro ids_ok_update [OF _ u rc_def rc'_def n'_def]) (simp add: well_clustered_def)
  moreover have "mset (concat (map member_hosts ((remote_clusters c)[u := rc']))) = mset (concat (map member_hosts (remote_clusters c))) + {#h#}"
    by (rule mset_concat_update [OF u]) (simp add: rc'_def rc_def)
  moreover have "lookup_ok ((remote_clusters c)[u := rc']) (map_put h u (host_remotecluster c))"
    using assms by (intro lookup_ok_update u) (simp_all add: well_clustered_def rc'_def rc_def)
  ultimately show ?thesis
    using assms by (simp add: a well_clustered_def hosts_of_def)
qed

lemma assign_hosts_ok:
  assumes "\<forall>rc \<in> set rcs. rc_id rc = - 1 \<and> member_hosts rc = []"
  shows "well_clustered hosts (assign_hosts matches rcs hosts)"
proof -
  have "well_clustered (hs @ hosts) (fold (assign_host matches) hosts c)" if "well_clustered hs c" for hs c
    using that
  proof (induction hosts arbitrary: hs c)
    case (Cons h hosts)
    from Cons.IH [OF assign_host_step [OF Cons.prems]] show ?case by simp
  qed simp
  moreover have "well_clustered [] \<lparr>remote_clusters = rcs, remote_cluster_nextid = 1, host_remotecluster = [], non_remote_hosts = []\<rparr>"
    using assms by (auto simp: well_clustered_def hosts_of_def ids_ok_def lookup_ok_def)
  ultimately show ?thesis unfolding assign_hosts_def by fastforce
qed

section \<open>How the hosts are ranked\<close>

lemma put_ranks_append: "put_ranks (xs @ ys) s = put_ranks ys (put_ranks xs s)"
  by (simp add: put_ranks_def)

lemma put_ranks_facts:
  "map_wf m \<Longrightarrow> map_wf (fst (put_ranks hs (m, r))) \<and> snd (put_ranks hs (m, r)) = r + int (length hs)
     \<and> (\<forall>h. h \<notin> set hs \<longrightarrow> map_of (fst (put_ranks hs (m, r))) h = map_of m h)
     \<and> (distinct hs \<longrightarrow> (\<forall>k < length hs. map_of (fst (put_ranks hs (m, r))) (hs ! k) = Some (r + int k)))"
proof (induction hs arbitrary: m r)
  case Nil
  then show ?case by (simp add: put_ranks_def)
next
  case (Cons h hs)
  have s: "put_ranks (h # hs) (m, r) = put_ranks hs (map_put h r m, r + 1)" by (simp add: put_ranks_def)
  have wf: "map_wf (map_put h r m)" using Cons.prems by auto
  note ih = Cons.IH [OF wf, of "r + 1"]
  have "map_of (fst (put_ranks (h # hs) (m, r))) ((h # hs) ! k) = Some (r + int k)" if "distinct (h # hs)" "k < length (h # hs)" for k
    using ih that Cons.prems by (cases k) (auto simp: s map_of_put)
  then show ?case using ih Cons.prems by (auto simp: s map_of_put)
qed

text \<open>The cluster with a number, and the hosts in the order of their ranks.\<close>

definition nth_cluster :: "clustering \<Rightarrow> int \<Rightarrow> RemoteCluster" where
  "nth_cluster c i = (case cluster_with_id c i of Inr rc \<Rightarrow> rc | Inl _ \<Rightarrow> undefined)"

definition in_order :: "clustering \<Rightarrow> int \<Rightarrow> string list" where
  "in_order c n = non_remote_hosts c @ concat (map (\<lambda>i. member_hosts (nth_cluster c i)) [1..n])"

lemma cluster_found:
  assumes "ids_ok (remote_clusters c) (remote_cluster_nextid c)" and "1 \<le> i" and "i < remote_cluster_nextid c"
  shows "cluster_with_id c i = Inr (nth_cluster c i)" and "nth_cluster c i \<in> set (remote_clusters c)" and "rc_id (nth_cluster c i) = i"
proof -
  have "i \<in> rc_id ` set (remote_clusters c)" using assms by (auto simp: ids_ok_def)
  then have "find (\<lambda>rc. rc_id rc = i) (remote_clusters c) \<noteq> None" by (auto simp: find_None_iff)
  then obtain rc where rc: "find (\<lambda>rc. rc_id rc = i) (remote_clusters c) = Some rc" by auto
  then show "cluster_with_id c i = Inr (nth_cluster c i)" by (simp add: nth_cluster_def cluster_with_id_def)
  have "rc \<in> set (remote_clusters c)" "rc_id rc = i" using rc by (auto simp: find_Some_iff)
  then show "nth_cluster c i \<in> set (remote_clusters c)" "rc_id (nth_cluster c i) = i"
    using rc by (simp_all add: nth_cluster_def cluster_with_id_def)
qed

lemma mset_concat_cong: "mset xs = mset ys \<Longrightarrow> mset (concat (map f xs)) = mset (concat (map f ys))"
proof -
  have "mset (concat (map f zs)) = \<Sum>\<^sub># (image_mset (mset \<circ> f) (mset zs))" for zs by (induction zs) simp_all
  then show "mset xs = mset ys \<Longrightarrow> mset (concat (map f xs)) = mset (concat (map f ys))" by simp
qed

lemma distinct_ids:
  "\<forall>u < length rcs. \<forall>v < length rcs. rc_id (rcs ! u) = rc_id (rcs ! v) \<longrightarrow> u = v \<or> rc_id (rcs ! u) = - 1 \<Longrightarrow>
     distinct (map rc_id (filter (\<lambda>rc. rc_id rc \<noteq> - 1) rcs))"
proof (induction rcs)
  case (Cons rc rcs)
  have "\<forall>u < length rcs. \<forall>v < length rcs. rc_id (rcs ! u) = rc_id (rcs ! v) \<longrightarrow> u = v \<or> rc_id (rcs ! u) = - 1"
    using Cons.prems by fastforce
  moreover have "rc_id rc = - 1 \<or> rc_id rc \<notin> rc_id ` set rcs"
  proof (rule ccontr)
    assume n: "\<not> (rc_id rc = - 1 \<or> rc_id rc \<notin> rc_id ` set rcs)"
    then obtain v where "v < length rcs" "rc_id rc = rc_id (rcs ! v)" by (auto simp: in_set_conv_nth)
    then show False using Cons.prems [rule_format, of 0 "Suc v"] n by simp
  qed
  ultimately show ?case using Cons.IH by auto
qed simp

text \<open>Every host has one place in that order.\<close>

lemma in_order_hosts:
  assumes "well_clustered hs c"
  shows "mset (in_order c (remote_cluster_nextid c - 1)) = mset hs"
proof -
  let ?rcs = "remote_clusters c" and ?is = "[1..remote_cluster_nextid c - 1]"
  have ids: "ids_ok ?rcs (remote_cluster_nextid c)" using assms by (simp add: well_clustered_def)
  let ?used = "filter (\<lambda>rc. rc_id rc \<noteq> - 1) ?rcs"
  have found: "nth_cluster c i \<in> set ?used \<and> rc_id (nth_cluster c i) = i" if "i \<in> set ?is" for i
    using cluster_found [OF ids, of i] that by auto
  have inj: "x = y" if xy: "x \<in> set ?used" "y \<in> set ?used" "rc_id x = rc_id y" for x y
  proof -
    obtain u v where "u < length ?rcs" "x = ?rcs ! u" "v < length ?rcs" "y = ?rcs ! v"
      using xy(1,2) by (metis filter_is_subset in_set_conv_nth subset_code(1))
    then show ?thesis using ids xy by (auto simp: ids_ok_def)
  qed
  have "distinct (map rc_id ?used)"
    using ids by (intro distinct_ids) (simp add: ids_ok_def)
  then have d: "distinct ?used" by (simp add: distinct_map)
  have d2: "distinct (map (nth_cluster c) ?is)" using found by (auto simp: distinct_map inj_on_def) metis
  have "set (map (nth_cluster c) ?is) = set ?used"
  proof
    show "set (map (nth_cluster c) ?is) \<subseteq> set ?used" using found by auto
    show "set ?used \<subseteq> set (map (nth_cluster c) ?is)"
    proof
      fix x
      assume x: "x \<in> set ?used"
      then have "rc_id x \<in> set ?is" using ids by (auto simp: ids_ok_def)
      then have "nth_cluster c (rc_id x) = x" using inj [OF _ x] found by blast
      then show "x \<in> set (map (nth_cluster c) ?is)" using \<open>rc_id x \<in> set ?is\<close> by (metis image_eqI list.set_map)
    qed
  qed
  then have "mset (map (nth_cluster c) ?is) = mset ?used" using set_eq_iff_mset_eq_distinct [OF d2 d] by blast
  then have "mset (concat (map member_hosts (map (nth_cluster c) ?is))) = mset (concat (map member_hosts ?used))"
    by (rule mset_concat_cong)
  moreover have "mset (concat (map member_hosts ?used)) = mset (concat (map member_hosts ?rcs))"
  proof -
    have drop_unused: "mset (concat (map member_hosts (filter (\<lambda>rc. rc_id rc \<noteq> - 1) rcs))) = mset (concat (map member_hosts rcs))"
      if "\<forall>rc \<in> set rcs. rc_id rc = - 1 \<longrightarrow> member_hosts rc = []" for rcs
      using that by (induction rcs) auto
    have "\<forall>rc \<in> set ?rcs. rc_id rc = - 1 \<longrightarrow> member_hosts rc = []" using ids by (auto simp: ids_ok_def)
    then show ?thesis by (rule drop_unused)
  qed
  ultimately show ?thesis using assms by (simp add: in_order_def well_clustered_def hosts_of_def comp_def)
qed

lemma ranks_in_order:
  assumes "ids_ok (remote_clusters c) (remote_cluster_nextid c)" and "n < remote_cluster_nextid c"
  shows "fold_result (\<lambda>i s. bind_result (cluster_with_id c i) (\<lambda>rc. Inr (put_ranks (member_hosts rc) s)))
     [1..n] (put_ranks (non_remote_hosts c) s) = Inr (put_ranks (in_order c n) s)"
proof -
  have "fold_result (\<lambda>i s. bind_result (cluster_with_id c i) (\<lambda>rc. Inr (put_ranks (member_hosts rc) s))) is s
      = Inr (put_ranks (concat (map (\<lambda>i. member_hosts (nth_cluster c i)) is)) s)"
    if "\<forall>i \<in> set is. 1 \<le> i \<and> i < remote_cluster_nextid c" for "is" s
    using that
  proof (induction "is" arbitrary: s)
    case Nil
    then show ?case by (simp add: put_ranks_def)
  next
    case (Cons i "is")
    then show ?case using cluster_found(1) [OF assms(1), of i] by (simp add: put_ranks_append)
  qed
  then show ?thesis using assms(2) by (simp add: in_order_def put_ranks_append)
qed

lemma launches_in_order:
  assumes "ids_ok (remote_clusters c) (remote_cluster_nextid c)"
  shows "remote_launches c = Inr
    (map (\<lambda>i. \<lparr>launched = nth_cluster c i, launch_id = i, launch_offset = int (length (in_order c (i - 1)))\<rparr>) [1..remote_cluster_nextid c - 1],
     int (length (in_order c (remote_cluster_nextid c - 1))))"
proof -
  let ?step = "\<lambda>i (ls, off). bind_result (cluster_with_id c i) (\<lambda>rc.
      Inr (ls @ [\<lparr>launched = rc, launch_id = i, launch_offset = off\<rparr>], off + int (length (member_hosts rc))))"
  have "fold_result ?step [1..int n] ([], int (length (non_remote_hosts c)))
      = Inr (map (\<lambda>i. \<lparr>launched = nth_cluster c i, launch_id = i, launch_offset = int (length (in_order c (i - 1)))\<rparr>) [1..int n],
          int (length (in_order c (int n))))" if "int n < remote_cluster_nextid c" for n
    using that
  proof (induction n)
    case 0
    then show ?case by (simp add: in_order_def)
  next
    case (Suc n)
    have u: "[1..int (Suc n)] = [1..int n] @ [int (Suc n)]" using upto_rec2 [of 1 "int (Suc n)"] by simp
    have f: "cluster_with_id c (int (Suc n)) = Inr (nth_cluster c (int (Suc n)))" using cluster_found(1) [OF assms, of "int (Suc n)"] Suc.prems by simp
    have o: "in_order c (int (Suc n)) = in_order c (int n) @ member_hosts (nth_cluster c (int (Suc n)))"
      unfolding in_order_def u map_append concat_append by simp
    have "fold_result ?step [1..int n] ([], int (length (non_remote_hosts c)))
      = Inr (map (\<lambda>i. \<lparr>launched = nth_cluster c i, launch_id = i, launch_offset = int (length (in_order c (i - 1)))\<rparr>) [1..int n],
          int (length (in_order c (int n))))" using Suc by simp
    then show ?case unfolding u fold_result_append by (simp add: f o del: of_nat_Suc) simp
  qed
  from this [of "nat (remote_cluster_nextid c - 1)"] show ?thesis
    using assms by (simp add: remote_launches_def ids_ok_def)
qed

lemma in_order_split:
  assumes "1 \<le> i" and "i \<le> n"
  shows "\<exists>rest. in_order c n = in_order c (i - 1) @ member_hosts (nth_cluster c i) @ rest"
proof -
  have "[1..n] = [1..i - 1] @ i # [i + 1..n]" using assms upto_split1 [of 1 i n] upto_split2 by (metis upto_split3)
  then show ?thesis by (simp add: in_order_def)
qed

lemma distinct_concat_nth:
  "distinct (concat xss) \<Longrightarrow> u < length xss \<Longrightarrow> v < length xss \<Longrightarrow> x \<in> set (xss ! u) \<Longrightarrow> x \<in> set (xss ! v) \<Longrightarrow> u = v"
proof (induction xss arbitrary: u v)
  case (Cons xs xss)
  have out: "x \<notin> set xs" if "w < length xss" "x \<in> set (xss ! w)" for w
    using Cons.prems(1) that by (auto dest: nth_mem)
  show ?case
    using Cons out by (cases u; cases v) auto
qed simp

text \<open>What \<open>host_remotecluster\<close> says of the hosts.\<close>

lemma local_host:
  assumes "lookup_ok (remote_clusters c) (host_remotecluster c)" and "distinct (hosts_of c)" and "h \<in> set (non_remote_hosts c)"
  shows "map_of (host_remotecluster c) h = None"
proof (cases "map_of (host_remotecluster c) h")
  case (Some u)
  have "case map_of (host_remotecluster c) h of None \<Rightarrow> \<forall>rc \<in> set (remote_clusters c). h \<notin> set (member_hosts rc)
     | Some u \<Rightarrow> u < length (remote_clusters c) \<and> h \<in> set (member_hosts (remote_clusters c ! u))"
    using assms(1) by (simp add: lookup_ok_def)
  then have "u < length (remote_clusters c)" "h \<in> set (member_hosts (remote_clusters c ! u))" using Some by simp_all
  then have "h \<in> set (concat (map member_hosts (remote_clusters c)))" by (auto dest: nth_mem)
  then show ?thesis using assms(2,3) by (auto simp: hosts_of_def)
qed

lemma remote_host:
  assumes "lookup_ok (remote_clusters c) (host_remotecluster c)" and "distinct (hosts_of c)"
    and "rc \<in> set (remote_clusters c)" and "h \<in> set (member_hosts rc)"
  shows "\<exists>u. map_of (host_remotecluster c) h = Some u \<and> remote_clusters c ! u = rc"
proof -
  obtain v where v: "v < length (remote_clusters c)" "remote_clusters c ! v = rc" using assms(3) by (auto simp: in_set_conv_nth)
  have "case map_of (host_remotecluster c) h of None \<Rightarrow> \<forall>rc \<in> set (remote_clusters c). h \<notin> set (member_hosts rc)
     | Some u \<Rightarrow> u < length (remote_clusters c) \<and> h \<in> set (member_hosts (remote_clusters c ! u))"
    using assms(1) by (simp add: lookup_ok_def)
  then obtain u where u: "map_of (host_remotecluster c) h = Some u" "u < length (remote_clusters c)" "h \<in> set (member_hosts (remote_clusters c ! u))"
    using assms(3,4) by (cases "map_of (host_remotecluster c) h") auto
  have "u = v"
    using distinct_concat_nth [of "map member_hosts (remote_clusters c)" u v h] assms(2,4) u v by (simp add: hosts_of_def)
  then show ?thesis using u(1) v(2) by blast
qed

text \<open>
  C23. In a run over several clusters the ranks that the layout gives to its instances fit the clusters that
  are started: an instance on the \<open>k\<close>-th host of the machine file of a cluster gets the rank
  \<open>cluster_offset + k\<close> for the offset on that cluster's command line, and the number of that cluster;
  every host is in exactly one machine file, and the offsets leave no gap.
\<close>

theorem cluster_ranks:
  assumes "distinct hosts" and "\<forall>rc \<in> set rcs. rc_id rc = - 1 \<and> member_hosts rc = []" and "map_wf m"
    and "c = assign_hosts matches rcs hosts"
  shows "\<exists>ranks launches. assign_ranks c m = Inr ranks \<and> remote_launches c = Inr (launches, int (length hosts))
    \<and> mset (non_remote_hosts c @ concat (map (\<lambda>l. member_hosts (launched l)) launches)) = mset hosts
    \<and> (\<forall>k < length (non_remote_hosts c). \<forall>r h. dcmpi_host (h r) = non_remote_hosts c ! k \<longrightarrow>
         DCFilterInstance.dcmpi_rank (tag_instance c ranks r h r) = int k
         \<and> dcmpi_cluster_rank (tag_instance c ranks r h r) = dcmpi_cluster_rank (h r))
    \<and> (\<forall>l \<in> set launches. \<forall>k < length (member_hosts (launched l)). \<forall>r h. dcmpi_host (h r) = member_hosts (launched l) ! k \<longrightarrow>
         DCFilterInstance.dcmpi_rank (tag_instance c ranks r h r) = launch_offset l + int k
         \<and> dcmpi_cluster_rank (tag_instance c ranks r h r) = launch_id l)"
proof -
  let ?n = "remote_cluster_nextid c - 1"
  have ok: "well_clustered hosts c" unfolding assms(4) by (rule assign_hosts_ok [OF assms(2)])
  then have ids: "ids_ok (remote_clusters c) (remote_cluster_nextid c)" and look: "lookup_ok (remote_clusters c) (host_remotecluster c)"
    by (simp_all add: well_clustered_def)
  have ord: "mset (in_order c ?n) = mset hosts" by (rule in_order_hosts [OF ok])
  then have len: "length (in_order c ?n) = length hosts" by (metis size_mset)
  have dist: "distinct (in_order c ?n)" using ord assms(1) by (metis mset_eq_imp_distinct_iff)
  have dist2: "distinct (hosts_of c)" using ok assms(1) by (metis mset_eq_imp_distinct_iff well_clustered_def)
  define ranks where "ranks = fst (put_ranks (in_order c ?n) (m, 0))"
  define launches where "launches = map (\<lambda>i. \<lparr>launched = nth_cluster c i, launch_id = i, launch_offset = int (length (in_order c (i - 1)))\<rparr>) [1..?n]"
  have r: "assign_ranks c m = Inr ranks" using ranks_in_order [OF ids, of ?n] by (simp add: assign_ranks_def ranks_def)
  have ln: "remote_launches c = Inr (launches, int (length hosts))" using launches_in_order [OF ids] by (simp add: launches_def len)
  have at: "map_of ranks (in_order c ?n ! j) = Some (int j)" if "j < length hosts" for j
    using put_ranks_facts [OF assms(3), of "in_order c ?n" 0] dist that len by (simp add: ranks_def)
  have m1: "mset (non_remote_hosts c @ concat (map (\<lambda>l. member_hosts (launched l)) launches)) = mset hosts"
    using ord by (simp add: in_order_def launches_def comp_def)
  have loc: "map_of ranks (non_remote_hosts c ! k) = Some (int k) \<and> map_of (host_remotecluster c) (non_remote_hosts c ! k) = None"
    if k: "k < length (non_remote_hosts c)" for k
    using at [of k] k len local_host [OF look dist2 nth_mem [OF k]] by (auto simp: in_order_def nth_append)
  have rem: "map_of ranks (member_hosts (nth_cluster c i) ! k) = Some (int (length (in_order c (i - 1))) + int k)
      \<and> (\<exists>u. map_of (host_remotecluster c) (member_hosts (nth_cluster c i) ! k) = Some u \<and> rc_id (remote_clusters c ! u) = i)"
    if i: "1 \<le> i" "i \<le> ?n" and k: "k < length (member_hosts (nth_cluster c i))" for i k
  proof -
    obtain rest where s: "in_order c ?n = in_order c (i - 1) @ member_hosts (nth_cluster c i) @ rest" using in_order_split [OF i] by blast
    let ?j = "length (in_order c (i - 1)) + k" and ?h = "member_hosts (nth_cluster c i) ! k"
    have "in_order c ?n ! ?j = ?h" "?j < length (in_order c ?n)" unfolding s using k by (simp_all add: nth_append)
    then have "map_of ranks ?h = Some (int ?j)" using at [of ?j] len by simp
    moreover have rc: "nth_cluster c i \<in> set (remote_clusters c)" "rc_id (nth_cluster c i) = i"
      using cluster_found(2,3) [OF ids, of i] i by auto
    then have "\<exists>u. map_of (host_remotecluster c) ?h = Some u \<and> remote_clusters c ! u = nth_cluster c i"
      using remote_host [OF look dist2 rc(1) nth_mem [OF k]] by blast
    ultimately show ?thesis using rc(2) by auto
  qed
  have tag_local: "DCFilterInstance.dcmpi_rank (tag_instance c ranks r h r) = int k
      \<and> dcmpi_cluster_rank (tag_instance c ranks r h r) = dcmpi_cluster_rank (h r)"
    if "k < length (non_remote_hosts c)" "dcmpi_host (h r) = non_remote_hosts c ! k" for k r h
    using loc [OF that(1)] that(2) by (simp add: tag_instance_def map_get_def_def)
  have tag_remote: "DCFilterInstance.dcmpi_rank (tag_instance c ranks r h r) = launch_offset l + int k
      \<and> dcmpi_cluster_rank (tag_instance c ranks r h r) = launch_id l"
    if l: "l \<in> set launches" and k: "k < length (member_hosts (launched l))" "dcmpi_host (h r) = member_hosts (launched l) ! k" for l k r h
  proof -
    obtain i where i: "1 \<le> i" "i \<le> ?n" "l = \<lparr>launched = nth_cluster c i, launch_id = i, launch_offset = int (length (in_order c (i - 1)))\<rparr>"
      using l by (auto simp: launches_def)
    have "k < length (member_hosts (nth_cluster c i))" using k(1) i(3) by simp
    from rem [OF i(1,2) this] show ?thesis using k(2) i(3) by (auto simp: tag_instance_def map_get_def_def)
  qed
  show ?thesis
    using r ln m1 tag_local tag_remote by blast
qed

lemma cluster_ranks_witness:
  "\<exists>ranks launches. assign_ranks (assign_hosts (\<lambda>re h. take 1 h = re) [RemoteCluster_new ''far'' ''b'' ''ssh far %e''] [''a1'', ''b1'', ''a2'', ''b2'']) [] = Inr ranks
    \<and> remote_launches (assign_hosts (\<lambda>re h. take 1 h = re) [RemoteCluster_new ''far'' ''b'' ''ssh far %e''] [''a1'', ''b1'', ''a2'', ''b2'']) = Inr (launches, 4)"
  using cluster_ranks [of "[''a1'', ''b1'', ''a2'', ''b2'']" "[RemoteCluster_new ''far'' ''b'' ''ssh far %e'']" "[]" _ "\<lambda>re h. take 1 h = re", OF _ _ _ refl]
  by (auto simp: RemoteCluster_new_def)

end
