(* ===== verification/Composites.thy ===== *)
theory Composites
  imports Layout "HOL-Library.Sublist"
begin

text \<open>
  Composite filters (\<open>DCLayout::expand_composites\<close>, \<open>src/src/DCLayout.cpp\<close>): an instance of a filter
  that provides a layout is replaced by the instances of that layout, until only plain filters are
  left. What the filter libraries provide is an argument.
\<close>

section \<open>Expansion\<close>

text \<open>
  For a filter name, \<open>None\<close> when the registry cannot get the filter, else what its
  \<open>get_composite_layout\<close> returns for the hosts of a cluster: \<open>None\<close> for the NULL pointer of a plain
  filter, else the instances of a new layout, allocated from the given address on.
\<close>

type_synonym filter_table = "string \<Rightarrow> (string list \<Rightarrow> (inst_ref \<Rightarrow> DCFilterInstance list) option) option"

fun find_composite :: "filter_table \<Rightarrow> DCLayout \<Rightarrow> inst_ref list \<Rightarrow> (inst_ref \<times> (inst_ref \<Rightarrow> DCFilterInstance list)) option result" where
  "find_composite get_filter l [] = Inr None"
| "find_composite get_filter l (r # rs) =
     (case get_filter (filtername (heap l r)) of
        None \<Rightarrow> Inl Exit_failure
      | Some f \<Rightarrow> (case f (composite_cluster_binding (heap l r)) of
            None \<Rightarrow> find_composite get_filter l rs
          | Some new_layout \<Rightarrow> Inr (Some (r, new_layout))))"

definition inherit :: "DCFilterInstance \<Rightarrow> DCFilterInstance \<Rightarrow> DCFilterInstance" where
  "inherit expanded ni = ni\<lparr>heritage := get_distinguished_name expanded,
     bind_hosts := (if bind_hosts expanded \<noteq> [] \<and> bind_hosts ni = [] then bind_hosts expanded else bind_hosts ni)\<rparr>"

text \<open>Who points at the expanded instance points at the inbound designate afterwards.\<close>

definition redirect_port :: "inst_ref \<Rightarrow> inst_ref \<Rightarrow> Instance_Port \<Rightarrow> Instance_Port" where
  "redirect_port expanded inbound rpi = (if ip_instance rpi = expanded then Instance_Port inbound (ip_port rpi) else rpi)"

definition redirect :: "inst_ref \<Rightarrow> inst_ref \<Rightarrow> DCFilterInstance \<Rightarrow> DCFilterInstance" where
  "redirect expanded inbound j = j\<lparr>outports := map (\<lambda>(p, v). (p, map (redirect_port expanded inbound) v)) (outports j)\<rparr>"

text \<open>The outbound designate takes over the ports of the expanded instance.\<close>

definition add_remotes :: "string \<times> MultiPort \<Rightarrow> DCFilterInstance \<Rightarrow> DCFilterInstance" where
  "add_remotes port nli = (case port of (pn, mp) \<Rightarrow> fold (\<lambda>ip. fi_add_port pn (ip_instance ip) (ip_port ip)) mp nli)"

definition link_outbound :: "DCFilterInstance \<Rightarrow> DCFilterInstance \<Rightarrow> DCFilterInstance result" where
  "link_outbound expanded nli =
     (if outports expanded = [] then Inr nli
      else if outports nli \<noteq> [] then Inl Assert_failure
      else Inr (fold add_remotes (outports expanded) nli))"

definition first_pos :: "('a \<Rightarrow> bool) \<Rightarrow> 'a list \<Rightarrow> nat" where
  "first_pos P xs = length (takeWhile (\<lambda>x. \<not> P x) xs)"

definition expand_composite :: "inst_ref \<Rightarrow> (inst_ref \<Rightarrow> DCFilterInstance list) \<Rightarrow> DCLayout \<Rightarrow> DCLayout result" where
  "expand_composite expanded new_layout l =
     (let n = next_inst l; new = new_layout n; refs = [n..<n + length new] in
      if length (filter is_inbound_composite_designate new) \<noteq> 1 then Inl Exit_failure
      else if length (filter is_outbound_composite_designate new) \<noteq> 1 then Inl Exit_failure
      else let inbound = n + first_pos is_inbound_composite_designate new;
               outbound = n + first_pos is_outbound_composite_designate new;
               h = (\<lambda>i. if n \<le> i \<and> i < n + length new then inherit (heap l expanded) (new ! (i - n))
                     else if i \<in> set (filter_instances l) then redirect expanded inbound (heap l i) else heap l i)
           in bind_result (link_outbound (h expanded) (h outbound)) (\<lambda>nli.
                Inr (l\<lparr>heap := h(outbound := nli), next_inst := n + length new,
                  filter_instances := remove1 expanded (filter_instances l @ refs),
                  expansion_filter_instances := expansion_filter_instances l @ refs\<rparr>)))"

text \<open>The loop: it does not end when composites contain one another.\<close>

partial_function (option) expand_composites :: "filter_table \<Rightarrow> DCLayout \<Rightarrow> DCLayout result option" where
  "expand_composites get_filter l =
     (case find_composite get_filter l (filter_instances l) of
        Inl e \<Rightarrow> Some (Inl e)
      | Inr None \<Rightarrow> Some (Inr l)
      | Inr (Some (expanded, new_layout)) \<Rightarrow>
          (case expand_composite expanded new_layout l of
             Inl e \<Rightarrow> Some (Inl e)
           | Inr l' \<Rightarrow> expand_composites get_filter l'))"

section \<open>What one expansion does\<close>

definition nice_ports :: "DCFilterInstance \<Rightarrow> bool" where
  "nice_ports fi \<longleftrightarrow> map_wf (outports fi) \<and> (\<forall>p mp. (p, mp) \<in> set (outports fi) \<longrightarrow> (\<forall>ip \<in> set mp. ip_port ip \<noteq> []))"

text \<open>A layout that a composite may provide: one designate each way, and remotes within the layout.\<close>

definition proper_composite :: "(inst_ref \<Rightarrow> DCFilterInstance list) \<Rightarrow> bool" where
  "proper_composite new_layout \<longleftrightarrow> (\<forall>n. length (filter is_inbound_composite_designate (new_layout n)) = 1
     \<and> length (filter is_outbound_composite_designate (new_layout n)) = 1
     \<and> (\<forall>fi \<in> set (new_layout n). nice_ports fi \<and> (is_outbound_composite_designate fi \<longrightarrow> outports fi = [])
          \<and> (\<forall>p. \<forall>ip \<in> set (ports_of fi p). n \<le> ip_instance ip \<and> ip_instance ip < n + length (new_layout n))))"

lemma first_pos_nth: "\<exists>x\<in>set xs. P x \<Longrightarrow> first_pos P xs < length xs \<and> P (xs ! first_pos P xs)"
  unfolding first_pos_def by (induction xs) auto

lemma first_pos_one: "length (filter P xs) = 1 \<Longrightarrow> first_pos P xs < length xs \<and> P (xs ! first_pos P xs)"
  by (rule first_pos_nth) (metis filter_False length_0_conv zero_neq_one)

lemma redirect_sel [simp]:
  "filtername (redirect r d fi) = filtername fi" "composite_cluster_binding (redirect r d fi) = composite_cluster_binding fi"
  "noports (redirect r d fi) = noports fi" "heritage (redirect r d fi) = heritage fi" "instancename (redirect r d fi) = instancename fi"
  by (simp_all add: redirect_def noports_def)

lemma map_of_outports_redirect: "map_of (outports (redirect r d fi)) p = map_option (map (redirect_port r d)) (map_of (outports fi) p)"
proof -
  have "map_of (map (\<lambda>(p, v). (p, map (redirect_port r d) v)) xs) p = map_option (map (redirect_port r d)) (map_of xs p)" for xs
    by (induction xs) auto
  then show ?thesis by (simp add: redirect_def)
qed

lemma ports_redirect: "ports_of (redirect r d fi) p = map (redirect_port r d) (ports_of fi p)"
  by (auto simp: ports_of_def map_get_def_def map_of_outports_redirect split: option.splits)

lemma nice_ports_redirect:
  assumes "nice_ports fi"
  shows "nice_ports (redirect r d fi)"
proof -
  have k: "map_wf (outports (redirect r d fi)) = map_wf (outports fi)"
    by (simp add: redirect_def map_wf_def case_prod_beta comp_def)
  have "ip_port (redirect_port r d ip) = ip_port ip" for ip by (simp add: redirect_port_def)
  then have "\<forall>ip \<in> set mp. ip_port ip \<noteq> []" if mp: "(p, mp) \<in> set (outports (redirect r d fi))" for p mp
    using mp assms by (auto simp: redirect_def nice_ports_def)
  then show ?thesis using assms by (auto simp: nice_ports_def k)
qed

lemma inherit_sel [simp]:
  "filtername (inherit e fi) = filtername fi" "composite_cluster_binding (inherit e fi) = composite_cluster_binding fi"
  "outports (inherit e fi) = outports fi" "heritage (inherit e fi) = get_distinguished_name e"
  "nice_ports (inherit e fi) = nice_ports fi" "ports_of (inherit e fi) = ports_of fi"
  by (simp_all add: inherit_def nice_ports_def ports_of_def [abs_def])

text \<open>Adding the ports one by one rebuilds them.\<close>

lemma fi_add_port_other: "p \<noteq> pn \<Longrightarrow> map_wf (outports fi) \<Longrightarrow> map_of (outports (fi_add_port pn i w fi)) p = map_of (outports fi) p"
  by (simp add: fi_add_port_def map_of_put split: option.splits)

lemma fi_add_port_wf: "map_wf (outports fi) \<Longrightarrow> map_wf (outports (fi_add_port pn i w fi))"
  by (auto simp: fi_add_port_def split: option.splits)

lemma fi_add_port_ports:
  "map_wf (outports fi) \<Longrightarrow> w \<noteq> [] \<Longrightarrow>
     ports_of (fi_add_port pn i w fi) p = (if p = pn then ports_of fi p @ [Instance_Port i w] else ports_of fi p)"
  by (simp add: fi_add_port_def ports_of_def map_get_def_def map_of_put MultiPort_add_remote_def MultiPort_new_def split: option.splits)

lemma fi_add_port_noports [simp]: "noports (fi_add_port pn i w fi) = noports fi"
  by (simp add: fi_add_port_def noports_def split: option.splits)

lemma add_remotes_ports:
  assumes "map_wf (outports fi)" and "\<forall>ip \<in> set mp. ip_port ip \<noteq> []"
  shows "map_wf (outports (add_remotes (pn, mp) fi))" "noports (add_remotes (pn, mp) fi) = noports fi"
    "ports_of (add_remotes (pn, mp) fi) p = (if p = pn then ports_of fi p @ mp else ports_of fi p)"
proof -
  have "map_wf (outports (add_remotes (pn, mp) fi)) \<and> noports (add_remotes (pn, mp) fi) = noports fi
    \<and> ports_of (add_remotes (pn, mp) fi) p = (if p = pn then ports_of fi p @ mp else ports_of fi p)"
    using assms by (induction mp arbitrary: fi) (simp_all add: add_remotes_def fi_add_port_ports fi_add_port_wf)
  then show "map_wf (outports (add_remotes (pn, mp) fi))" "noports (add_remotes (pn, mp) fi) = noports fi"
    "ports_of (add_remotes (pn, mp) fi) p = (if p = pn then ports_of fi p @ mp else ports_of fi p)" by blast+
qed

lemma add_ports:
  "map_wf (outports fi) \<Longrightarrow> distinct (map fst ps) \<Longrightarrow> \<forall>(p, mp) \<in> set ps. \<forall>ip \<in> set mp. ip_port ip \<noteq> [] \<Longrightarrow>
     \<forall>p \<in> fst ` set ps. ports_of fi p = [] \<Longrightarrow>
     map_wf (outports (fold add_remotes ps fi)) \<and> noports (fold add_remotes ps fi) = noports fi
     \<and> (\<forall>p. ports_of (fold add_remotes ps fi) p = (case map_of ps p of None \<Rightarrow> ports_of fi p | Some mp \<Rightarrow> mp))"
proof (induction ps arbitrary: fi)
  case (Cons x ps)
  obtain pn mp where x: "x = (pn, mp)" by (cases x)
  define fi1 where "fi1 = add_remotes (pn, mp) fi"
  have mp: "\<forall>ip \<in> set mp. ip_port ip \<noteq> []" using Cons.prems(3) by (auto simp: x)
  have fi1: "map_wf (outports fi1)" "noports fi1 = noports fi" "ports_of fi1 p = (if p = pn then ports_of fi p @ mp else ports_of fi p)" for p
    unfolding fi1_def using add_remotes_ports [OF Cons.prems(1) mp] by simp_all
  have pn: "pn \<notin> fst ` set ps" "ports_of fi pn = []" using Cons.prems by (simp_all add: x)
  have none: "map_of ps pn = None" using pn(1) by (simp add: map_of_eq_None_iff)
  have "\<forall>p \<in> fst ` set ps. ports_of fi1 p = []" using Cons.prems(4) pn by (auto simp: fi1(3) x)
  then have "map_wf (outports (fold add_remotes ps fi1)) \<and> noports (fold add_remotes ps fi1) = noports fi1
     \<and> (\<forall>p. ports_of (fold add_remotes ps fi1) p = (case map_of ps p of None \<Rightarrow> ports_of fi1 p | Some mp \<Rightarrow> mp))"
    using Cons.prems by (intro Cons.IH fi1(1)) (auto simp: x)
  then show ?case
    using pn none by (simp add: x fi1(2,3) cong: option.case_cong flip: fi1_def)
qed simp

lemma link_outbound_ok:
  assumes "nice_ports expanded" and "outports nli = []"
  obtains nli' where "link_outbound expanded nli = Inr nli'" "noports nli' = noports nli" "ports_of nli' = ports_of expanded" "map_wf (outports nli')"
proof (cases "outports expanded = []")
  case True
  show ?thesis
    by (rule that [of nli]) (use True assms(2) in \<open>simp_all add: link_outbound_def ports_of_def [abs_def]\<close>)
next
  case False
  have e: "ports_of nli p = []" for p by (simp add: ports_of_def map_get_def_def assms(2))
  define nli' where "nli' = fold add_remotes (outports expanded) nli"
  have f: "map_wf (outports nli') \<and> noports nli' = noports nli
      \<and> (\<forall>p. ports_of nli' p = (case map_of (outports expanded) p of None \<Rightarrow> ports_of nli p | Some mp \<Rightarrow> mp))"
    unfolding nli'_def using assms e by (intro add_ports) (auto simp: nice_ports_def map_wf_distinct)
  have "ports_of nli' p = ports_of expanded p" for p using f e by (simp add: ports_of_def [of expanded] map_get_def_def cong: option.case_cong)
  then show ?thesis
    using that [of nli'] f assms(2) False by (simp add: link_outbound_def fun_eq_iff flip: nli'_def)
qed

lemma nice_ports_iff: "nice_ports fi \<longleftrightarrow> map_wf (outports fi) \<and> (\<forall>p. \<forall>ip \<in> set (ports_of fi p). ip_port ip \<noteq> [])"
proof -
  have "map_wf (outports fi) \<Longrightarrow> (p, mp) \<in> set (outports fi) \<Longrightarrow> ports_of fi p = mp" for p mp
    by (simp add: ports_of_def map_get_def_def map_wf_distinct)
  moreover have "ip \<in> set (ports_of fi p) \<Longrightarrow> \<exists>mp. (p, mp) \<in> set (outports fi) \<and> ip \<in> set mp" for p ip
    by (cases "map_of (outports fi) p") (auto simp: ports_of_def map_get_def_def dest: map_of_SomeD)
  ultimately show ?thesis unfolding nice_ports_def by metis
qed

text \<open>
  The filters that the instances of a layout name are known, and filters that composites contain come
  before the composites in some order, so that no composite contains itself.
\<close>

definition proper_filters :: "filter_table \<Rightarrow> (string \<Rightarrow> nat) \<Rightarrow> bool" where
  "proper_filters get_filter rank \<longleftrightarrow> (\<forall>name f hosts new_layout. get_filter name = Some f \<longrightarrow> f hosts = Some new_layout \<longrightarrow>
     proper_composite new_layout
     \<and> (\<forall>n. \<forall>fi \<in> set (new_layout n). get_filter (filtername fi) \<noteq> None \<and> rank (filtername fi) < rank name))"

definition composite :: "filter_table \<Rightarrow> DCFilterInstance \<Rightarrow> bool" where
  "composite get_filter fi \<longleftrightarrow> (\<exists>f new_layout. get_filter (filtername fi) = Some f \<and> f (composite_cluster_binding fi) = Some new_layout)"

definition sound :: "filter_table \<Rightarrow> DCLayout \<Rightarrow> bool" where
  "sound get_filter l \<longleftrightarrow> layout_wf l
     \<and> (\<forall>r \<in> set (filter_instances l). nice_ports (heap l r) \<and> get_filter (filtername (heap l r)) \<noteq> None)"

lemma find_composite_cases:
  assumes "\<forall>r \<in> set rs. get_filter (filtername (heap l r)) \<noteq> None"
  obtains (plain) "find_composite get_filter l rs = Inr None" "\<forall>r \<in> set rs. \<not> composite get_filter (heap l r)"
  | (found) r f new_layout where "find_composite get_filter l rs = Inr (Some (r, new_layout))" "r \<in> set rs"
      "get_filter (filtername (heap l r)) = Some f" "f (composite_cluster_binding (heap l r)) = Some new_layout"
  using assms
proof (induction rs arbitrary: thesis)
  case Nil
  then show ?case by simp
next
  case (Cons r rs)
  from Cons.prems(3) obtain f where f: "get_filter (filtername (heap l r)) = Some f" by auto
  show ?case
  proof (cases "f (composite_cluster_binding (heap l r))")
    case None
    then have here: "\<not> composite get_filter (heap l r)" using f by (simp add: composite_def)
    have "\<forall>r \<in> set rs. get_filter (filtername (heap l r)) \<noteq> None" using Cons.prems(3) by simp
    then show ?thesis
    proof (rule Cons.IH [rotated 2])
      assume "find_composite get_filter l rs = Inr None" "\<forall>r\<in>set rs. \<not> composite get_filter (heap l r)"
      then show thesis using Cons.prems(1) f None here by simp
    next
      fix r' f' nl assume "find_composite get_filter l rs = Inr (Some (r', nl))" "r' \<in> set rs"
        "get_filter (filtername (heap l r')) = Some f'" "f' (composite_cluster_binding (heap l r')) = Some nl"
      then show thesis using Cons.prems(2) [of r' nl f'] f None by simp
    qed
  next
    case (Some nl)
    then show ?thesis using Cons.prems(2) [of r nl f] f by simp
  qed
qed

text \<open>One expansion, as a relation between the layouts before and after.\<close>

definition expanded_into :: "inst_ref \<Rightarrow> DCFilterInstance list \<Rightarrow> inst_ref \<Rightarrow> inst_ref \<Rightarrow> DCLayout \<Rightarrow> DCLayout \<Rightarrow> bool" where
  "expanded_into r new inb outb l l' \<longleftrightarrow>
     (let n = next_inst l; refs = [n..<n + length new] in
      inb \<in> set refs \<and> outb \<in> set refs
      \<and> is_inbound_composite_designate (new ! (inb - n)) \<and> is_outbound_composite_designate (new ! (outb - n))
      \<and> next_inst l' = n + length new \<and> exec_host_pool l' = exec_host_pool l
      \<and> run_hosts l' = run_hosts l \<and> host_dcmpirank l' = host_dcmpirank l
      \<and> filter_instances l' = remove1 r (filter_instances l) @ refs
      \<and> (\<forall>x \<in> set (filter_instances l). nice_ports (heap l' x) \<and> noports (heap l' x) = noports (heap l x)
           \<and> (\<forall>p. links l' x p = redirect_port r inb ` links l x p))
      \<and> (\<forall>i < length new. nice_ports (heap l' (n + i)) \<and> noports (heap l' (n + i)) = noports (inherit (heap l r) (new ! i))
           \<and> (\<forall>p. links l' (n + i) p = (if n + i = outb then redirect_port r inb ` links l r p else set (ports_of (new ! i) p)))))"

lemma expand_composite_ok:
  assumes wf: "sound get_filter l" and r: "r \<in> set (filter_instances l)" and proper: "proper_composite new_layout"
  shows "\<exists>inb outb l'. expand_composite r new_layout l = Inr l' \<and> expanded_into r (new_layout (next_inst l)) inb outb l l'"
proof -
  define n where "n = next_inst l"
  define new where "new = new_layout n"
  define inb where "inb = n + first_pos is_inbound_composite_designate new"
  define outb where "outb = n + first_pos is_outbound_composite_designate new"
  define h where "h = (\<lambda>i. if n \<le> i \<and> i < n + length new then inherit (heap l r) (new ! (i - n))
    else if i \<in> set (filter_instances l) then redirect r inb (heap l i) else heap l i)"
  have new: "length (filter is_inbound_composite_designate new) = 1" "length (filter is_outbound_composite_designate new) = 1"
    "\<And>fi. fi \<in> set new \<Longrightarrow> nice_ports fi" "\<And>fi. fi \<in> set new \<Longrightarrow> is_outbound_composite_designate fi \<Longrightarrow> outports fi = []"
    using proper unfolding proper_composite_def new_def by blast+
  have old: "x < n" "nice_ports (heap l x)" if "x \<in> set (filter_instances l)" for x
    using wf that unfolding sound_def layout_wf_def n_def by blast+
  have inr: "inb \<in> {n..<n + length new}" "outb \<in> {n..<n + length new}"
    using first_pos_one [OF new(1)] first_pos_one [OF new(2)] by (simp_all add: inb_def outb_def)
  have out: "outports (new ! (outb - n)) = []"
    using first_pos_one [OF new(2)] new(4) by (simp add: outb_def)
  have hold: "h x = redirect r inb (heap l x)" if "x \<in> set (filter_instances l)" for x
    using old(1) [OF that] that by (simp add: h_def)
  have hnew: "h (n + i) = inherit (heap l r) (new ! i)" if "i < length new" for i using that by (simp add: h_def)
  have "h outb = inherit (heap l r) (new ! (outb - n))" using inr(2) by (simp add: h_def)
  then have "outports (h outb) = []" using out by simp
  then obtain nli where nli: "link_outbound (h r) (h outb) = Inr nli" "noports nli = noports (h outb)"
    "ports_of nli = ports_of (h r)" "map_wf (outports nli)"
    using link_outbound_ok [OF nice_ports_redirect [OF old(2) [OF r]]] hold [OF r] by metis
  have nice: "nice_ports nli"
    using nice_ports_redirect [OF old(2) [OF r], of r inb] nli(3,4) unfolding nice_ports_iff hold [OF r] by simp
  define l' where "l' = l\<lparr>heap := h(outb := nli), next_inst := n + length new,
    filter_instances := remove1 r (filter_instances l @ [n..<n + length new]),
    expansion_filter_instances := expansion_filter_instances l @ [n..<n + length new]\<rparr>"
  have "expand_composite r new_layout l = bind_result (link_outbound (h r) (h outb)) (\<lambda>nli.
      Inr (l\<lparr>heap := h(outb := nli), next_inst := n + length new,
        filter_instances := remove1 r (filter_instances l @ [n..<n + length new]),
        expansion_filter_instances := expansion_filter_instances l @ [n..<n + length new]\<rparr>))"
    using new(1,2) unfolding expand_composite_def h_def inb_def outb_def new_def n_def Let_def
    by (simp only: refl not_True_eq_False if_False)
  then have "expand_composite r new_layout l = Inr l'" by (simp add: nli(1) l'_def)
  moreover have "expanded_into r new inb outb l l'"
    unfolding expanded_into_def Let_def n_def [symmetric]
  proof (intro conjI ballI allI impI)
    show "inb \<in> set [n..<n + length new]" "outb \<in> set [n..<n + length new]" using inr by simp_all
    show "is_inbound_composite_designate (new ! (inb - n))" "is_outbound_composite_designate (new ! (outb - n))"
      using first_pos_one [OF new(1)] first_pos_one [OF new(2)] by (simp_all add: inb_def outb_def)
    show "next_inst l' = n + length new" "exec_host_pool l' = exec_host_pool l" "run_hosts l' = run_hosts l"
      "host_dcmpirank l' = host_dcmpirank l" by (simp_all add: l'_def)
    show "filter_instances l' = remove1 r (filter_instances l) @ [n..<n + length new]"
      using r by (simp add: l'_def remove1_append)
    fix x assume x: "x \<in> set (filter_instances l)"
    have hx: "heap l' x = redirect r inb (heap l x)"
      using old(1) [OF x] inr(2) hold [OF x] by (simp add: l'_def)
    show "nice_ports (heap l' x)" unfolding hx by (rule nice_ports_redirect [OF old(2) [OF x]])
    show "noports (heap l' x) = noports (heap l x)" by (simp add: hx)
    show "links l' x p = redirect_port r inb ` links l x p" for p by (simp add: hx links_def ports_redirect)
  next
    fix i assume i: "i < length new"
    have hi: "heap l' (n + i) = (if n + i = outb then nli else inherit (heap l r) (new ! i))"
      by (simp add: l'_def hnew [OF i])
    have io: "n + i = outb \<Longrightarrow> inherit (heap l r) (new ! i) = h outb" using hnew [OF i] by simp
    show "nice_ports (heap l' (n + i))" using nice new(3) i by (simp add: hi)
    show "noports (heap l' (n + i)) = noports (inherit (heap l r) (new ! i))" using nli(2) io by (simp add: hi)
    show "links l' (n + i) p = (if n + i = outb then redirect_port r inb ` links l r p else set (ports_of (new ! i) p))" for p
      by (simp add: links_def hi nli(3) hold [OF r] ports_redirect)
  qed
  ultimately show ?thesis unfolding new_def n_def by blast
qed

lemma noports_eqD:
  assumes "noports x = noports y"
  shows "filtername x = filtername y" "composite_cluster_binding x = composite_cluster_binding y" "heritage x = heritage y"
    "get_distinguished_name x = get_distinguished_name y" "composite get_filter x = composite get_filter y"
proof -
  have s: "filtername (noports z) = filtername z" "composite_cluster_binding (noports z) = composite_cluster_binding z"
    "heritage (noports z) = heritage z" "instancename (noports z) = instancename z" for z by (simp_all add: noports_def)
  show e: "filtername x = filtername y" "composite_cluster_binding x = composite_cluster_binding y" "heritage x = heritage y"
    using assms s by metis+
  have "instancename x = instancename y" using assms s by metis
  then show "get_distinguished_name x = get_distinguished_name y" "composite get_filter x = composite get_filter y"
    using e by (simp_all add: get_distinguished_name_def composite_def)
qed

lemma noports_flags:
  assumes "noports x = noports y"
  shows "is_inbound_composite_designate x = is_inbound_composite_designate y" "is_outbound_composite_designate x = is_outbound_composite_designate y"
proof -
  have s: "is_inbound_composite_designate (noports z) = is_inbound_composite_designate z"
    "is_outbound_composite_designate (noports z) = is_outbound_composite_designate z" for z by (simp_all add: noports_def)
  show "is_inbound_composite_designate x = is_inbound_composite_designate y" "is_outbound_composite_designate x = is_outbound_composite_designate y"
    using assms s by metis+
qed

lemma expanded_intoD:
  assumes "expanded_into r new inb outb l l'"
  shows "next_inst l \<le> inb" "inb < next_inst l + length new" "next_inst l \<le> outb" "outb < next_inst l + length new"
    "next_inst l' = next_inst l + length new"
    "filter_instances l' = remove1 r (filter_instances l) @ [next_inst l..<next_inst l + length new]"
    and "\<And>x. x \<in> set (filter_instances l) \<Longrightarrow> nice_ports (heap l' x) \<and> noports (heap l' x) = noports (heap l x)
       \<and> (\<forall>p. links l' x p = redirect_port r inb ` links l x p)"
    and "\<And>x. next_inst l \<le> x \<Longrightarrow> x < next_inst l + length new \<Longrightarrow>
       nice_ports (heap l' x) \<and> noports (heap l' x) = noports (inherit (heap l r) (new ! (x - next_inst l)))
       \<and> (\<forall>p. links l' x p = (if x = outb then redirect_port r inb ` links l r p else set (ports_of (new ! (x - next_inst l)) p)))"
proof -
  note e = assms [unfolded expanded_into_def Let_def]
  show "next_inst l \<le> inb" "inb < next_inst l + length new" "next_inst l \<le> outb" "outb < next_inst l + length new"
    "next_inst l' = next_inst l + length new"
    "filter_instances l' = remove1 r (filter_instances l) @ [next_inst l..<next_inst l + length new]"
    using e by simp_all
  show "x \<in> set (filter_instances l) \<Longrightarrow> nice_ports (heap l' x) \<and> noports (heap l' x) = noports (heap l x)
       \<and> (\<forall>p. links l' x p = redirect_port r inb ` links l x p)" for x using e by blast
  fix x assume x: "next_inst l \<le> x" "x < next_inst l + length new"
  have "x - next_inst l < length new" using x by linarith
  then have "nice_ports (heap l' (next_inst l + (x - next_inst l))) \<and> noports (heap l' (next_inst l + (x - next_inst l))) = noports (inherit (heap l r) (new ! (x - next_inst l)))
       \<and> (\<forall>p. links l' (next_inst l + (x - next_inst l)) p = (if next_inst l + (x - next_inst l) = outb then redirect_port r inb ` links l r p else set (ports_of (new ! (x - next_inst l)) p)))"
    using e by blast
  then show "nice_ports (heap l' x) \<and> noports (heap l' x) = noports (inherit (heap l r) (new ! (x - next_inst l)))
       \<and> (\<forall>p. links l' x p = (if x = outb then redirect_port r inb ` links l r p else set (ports_of (new ! (x - next_inst l)) p)))"
    using x(1) by simp
qed

lemma expanded_sound:
  assumes l: "sound get_filter l" and r: "r \<in> set (filter_instances l)" and e: "expanded_into r (new_layout (next_inst l)) inb outb l l'"
    and proper: "proper_composite new_layout" and known: "\<forall>fi \<in> set (new_layout (next_inst l)). get_filter (filtername fi) \<noteq> None"
  shows "sound get_filter l'"
proof -
  define new where "new = new_layout (next_inst l)"
  note d = expanded_intoD [OF e, folded new_def]
  have old: "distinct (filter_instances l)" "\<And>x. x \<in> set (filter_instances l) \<Longrightarrow> x < next_inst l"
    "\<And>x p ip. x \<in> set (filter_instances l) \<Longrightarrow> ip \<in> links l x p \<Longrightarrow> ip_instance ip \<in> set (filter_instances l)"
    using l unfolding sound_def layout_wf_def by blast+
  have fis: "x \<in> set (filter_instances l') \<longleftrightarrow> x \<in> set (filter_instances l) \<and> x \<noteq> r \<or> next_inst l \<le> x \<and> x < next_inst l + length new" for x
    unfolding d(6) using old(1) by auto
  have red: "ip_instance ip \<in> set (filter_instances l')" if ip: "ip \<in> redirect_port r inb ` links l x p" and x: "x \<in> set (filter_instances l)" for ip x p
    using ip old(3) [OF x] d(1,2) unfolding fis by (auto simp: redirect_port_def)
  have inner: "n \<le> ip_instance ip \<and> ip_instance ip < n + length (new_layout n)" if "i < length (new_layout n)" "ip \<in> set (ports_of (new_layout n ! i) p)" for i ip p n
    using proper that nth_mem unfolding proper_composite_def by blast
  have links: "ip_instance ip \<in> set (filter_instances l')" if x: "x \<in> set (filter_instances l')" and ip: "ip \<in> links l' x p" for x p ip
  proof (cases "x \<in> set (filter_instances l)")
    case True
    have "ip \<in> redirect_port r inb ` links l x p" using d(7) [OF True] ip by blast
    from red [OF this True] show ?thesis .
  next
    case False
    then have b: "next_inst l \<le> x" "x < next_inst l + length new" using x unfolding fis by blast+
    have le: "x - next_inst l < length new" using b by linarith
    show ?thesis
    proof (cases "x = outb")
      case True
      with d(8) [OF b] ip have "ip \<in> redirect_port r inb ` links l r p" by simp
      from red [OF this r] show ?thesis .
    next
      case False
      with d(8) [OF b] ip have "ip \<in> set (ports_of (new ! (x - next_inst l)) p)" by simp
      from inner [OF le [unfolded new_def] this [unfolded new_def]] show ?thesis unfolding fis new_def by blast
    qed
  qed
  have wf: "layout_wf l'"
    unfolding layout_wf_def
  proof (intro conjI ballI allI)
    show "distinct (filter_instances l')" unfolding d(6) using old(1,2) by (fastforce dest: notin_set_remove1)
    show "x < next_inst l'" if "x \<in> set (filter_instances l')" for x using that old(2) unfolding fis d(5) by fastforce
  qed (rule links)
  have "nice_ports (heap l' x) \<and> get_filter (filtername (heap l' x)) \<noteq> None" if x: "x \<in> set (filter_instances l')" for x
  proof (cases "x \<in> set (filter_instances l)")
    case True
    then show ?thesis using d(7) [OF True] noports_eqD(1) l unfolding sound_def by metis
  next
    case False
    then have b: "next_inst l \<le> x" "x < next_inst l + length new" using x unfolding fis by blast+
    then have "new ! (x - next_inst l) \<in> set new" by (intro nth_mem) linarith
    moreover have "filtername (heap l' x) = filtername (new ! (x - next_inst l))"
      using d(8) [OF b] noports_eqD(1) [of "heap l' x" "inherit (heap l r) (new ! (x - next_inst l))"] by simp
    ultimately show ?thesis using d(8) [OF b] known unfolding new_def by metis
  qed
  with wf show ?thesis unfolding sound_def by blast
qed

section \<open>Termination\<close>

definition ranks :: "(string \<Rightarrow> nat) \<Rightarrow> DCLayout \<Rightarrow> nat multiset" where
  "ranks rank l = image_mset (\<lambda>r. rank (filtername (heap l r))) (mset (filter_instances l))"

lemma ranks_decrease:
  assumes r: "r \<in> set (filter_instances l)" and e: "expanded_into r new inb outb l l'"
    and less: "\<forall>fi \<in> set new. rank (filtername fi) < rank (filtername (heap l r))"
  shows "(ranks rank l', ranks rank l) \<in> mult less_than"
proof -
  note d = expanded_intoD [OF e]
  define K where "K = image_mset (\<lambda>x. rank (filtername (heap l x))) (mset (remove1 r (filter_instances l)))"
  define J where "J = image_mset (\<lambda>x. rank (filtername (heap l' x))) (mset [next_inst l..<next_inst l + length new])"
  have m: "mset (filter_instances l) = add_mset r (mset (remove1 r (filter_instances l)))" using r by simp
  have l: "ranks rank l = K + {#rank (filtername (heap l r))#}" unfolding ranks_def K_def m by simp
  have "filtername (heap l' x) = filtername (heap l x)" if "x \<in># mset (remove1 r (filter_instances l))" for x
    using that d(7) noports_eqD(1) by (metis notin_set_remove1 set_mset_mset)
  then have "image_mset (\<lambda>x. rank (filtername (heap l' x))) (mset (remove1 r (filter_instances l))) = K"
    unfolding K_def by (intro image_mset_cong) simp
  then have l': "ranks rank l' = K + J" by (simp add: ranks_def d(6) J_def)
  have "j < rank (filtername (heap l r))" if j: "j \<in># J" for j
  proof -
    obtain x where x: "next_inst l \<le> x" "x < next_inst l + length new" "j = rank (filtername (heap l' x))"
      using j unfolding J_def by auto
    have "new ! (x - next_inst l) \<in> set new" using x by (intro nth_mem) linarith
    moreover have "filtername (heap l' x) = filtername (new ! (x - next_inst l))"
      using d(8) [OF x(1,2)] noports_eqD(1) [of "heap l' x" "inherit (heap l r) (new ! (x - next_inst l))"] by simp
    ultimately show ?thesis using less x(3) by simp
  qed
  then show ?thesis unfolding l l' by (intro one_step_implies_mult) auto
qed

section \<open>What the expansion does\<close>

text \<open>
  For each instance \<open>a\<close> of the first layout, \<open>I a\<close> is the instance that what was sent to \<open>a\<close> reaches,
  and \<open>U a\<close> the one that sends in its place. Both are \<open>a\<close> itself as long as it is not expanded.
\<close>

definition stands_for :: "filter_table \<Rightarrow> (DCFilterInstance \<Rightarrow> bool) \<Rightarrow> DCLayout \<Rightarrow> DCLayout \<Rightarrow> inst_ref \<Rightarrow> inst_ref \<Rightarrow> bool" where
  "stands_for get_filter designate l0 l a x \<longleftrightarrow> composite get_filter (heap l0 a) \<and> next_inst l0 \<le> x
     \<and> designate (heap l x) \<and> prefix (name_of l0 a) (heritage (heap l x))"

definition traced :: "filter_table \<Rightarrow> DCLayout \<Rightarrow> (inst_ref \<Rightarrow> inst_ref) \<Rightarrow> (inst_ref \<Rightarrow> inst_ref) \<Rightarrow> DCLayout \<Rightarrow> bool" where
  "traced get_filter l0 I U l \<longleftrightarrow> next_inst l0 \<le> next_inst l
     \<and> inj_on I (set (filter_instances l0)) \<and> inj_on U (set (filter_instances l0))
     \<and> (\<forall>a \<in> set (filter_instances l0). I a \<in> set (filter_instances l) \<and> U a \<in> set (filter_instances l)
          \<and> (I a = a \<and> U a = a \<and> noports (heap l a) = noports (heap l0 a)
             \<or> stands_for get_filter is_inbound_composite_designate l0 l a (I a)
             \<and> stands_for get_filter is_outbound_composite_designate l0 l a (U a)))
     \<and> (\<forall>a \<in> set (filter_instances l0). \<forall>b \<in> set (filter_instances l0). \<forall>p w.
          Instance_Port (I b) w \<in> links l (U a) p \<longleftrightarrow> Instance_Port b w \<in> links l0 a p)"

lemma traced_start: "traced get_filter l (\<lambda>a. a) (\<lambda>a. a) l"
  by (simp add: traced_def)

lemma redirected_iff:
  assumes "\<And>ip. ip \<in> S \<Longrightarrow> ip_instance ip \<noteq> inb"
  shows "y \<noteq> inb \<Longrightarrow> Instance_Port (if y = r then inb else y) w \<in> redirect_port r inb ` S \<longleftrightarrow> Instance_Port y w \<in> S"
proof -
  assume y: "y \<noteq> inb"
  have k: "redirect_port r inb (Instance_Port y w) = Instance_Port (if y = r then inb else y) w" by (simp add: redirect_port_def)
  have "Instance_Port y w \<in> S" if "Instance_Port (if y = r then inb else y) w = redirect_port r inb ip" "ip \<in> S" for ip
    using that y assms [OF that(2)] by (cases ip) (auto simp: redirect_port_def split: if_splits)
  then show ?thesis unfolding image_iff using k by metis
qed

lemma heritage_prefix: "prefix xs (heritage fi) \<Longrightarrow> prefix xs (get_distinguished_name fi)"
  by (auto simp: get_distinguished_name_def Let_def intro: prefix_prefix)

lemma traced_step:
  assumes t: "traced get_filter l0 I U l" and l: "sound get_filter l" and r: "r \<in> set (filter_instances l)"
    and c: "composite get_filter (heap l r)"
    and e: "expanded_into r new inb outb l l'"
  shows "traced get_filter l0 (\<lambda>a. if I a = r then inb else I a) (\<lambda>a. if U a = r then outb else U a) l'"
proof -
  let ?I = "\<lambda>a. if I a = r then inb else I a" and ?U = "\<lambda>a. if U a = r then outb else U a"
  note d = expanded_intoD [OF e]
  have designates: "is_inbound_composite_designate (new ! (inb - next_inst l))" "is_outbound_composite_designate (new ! (outb - next_inst l))"
    using e by (simp_all add: expanded_into_def Let_def)
  note t1 = t [unfolded traced_def]
  have n: "next_inst l0 \<le> next_inst l" using t1 by blast
  have old: "distinct (filter_instances l)" "\<And>x. x \<in> set (filter_instances l) \<Longrightarrow> x < next_inst l"
    "\<And>x p ip. x \<in> set (filter_instances l) \<Longrightarrow> ip \<in> links l x p \<Longrightarrow> ip_instance ip \<in> set (filter_instances l)"
    using l unfolding sound_def layout_wf_def by blast+
  have IU: "I a \<in> set (filter_instances l)" "U a \<in> set (filter_instances l)"
    "I a = a \<and> U a = a \<and> noports (heap l a) = noports (heap l0 a) \<or> stands_for get_filter is_inbound_composite_designate l0 l a (I a)
             \<and> stands_for get_filter is_outbound_composite_designate l0 l a (U a)"
    if "a \<in> set (filter_instances l0)" for a using t1 that by blast+
  have inj: "inj_on (\<lambda>a. if f a = r then y else f a) (set (filter_instances l0))"
    if "inj_on f (set (filter_instances l0))" "\<And>a. a \<in> set (filter_instances l0) \<Longrightarrow> f a \<in> set (filter_instances l)" "next_inst l \<le> y" for f y
    using that old(2) unfolding inj_on_def by (metis not_less)
  have in': "x \<in> set (filter_instances l')" if "x \<in> set (filter_instances l)" "x \<noteq> r" for x
    using that old(1) by (simp add: d(6))
  have new': "inb \<in> set (filter_instances l')" "outb \<in> set (filter_instances l')" using d(1-4) by (simp_all add: d(6))
  have heir: "heritage (heap l' x) = name_of l r" if "next_inst l \<le> x" "x < next_inst l + length new" for x
    using d(8) [OF that] noports_eqD(3) [of "heap l' x" "inherit (heap l r) (new ! (x - next_inst l))"] by (simp add: name_of_def)
  have flag: "is_inbound_composite_designate (heap l' inb)" "is_outbound_composite_designate (heap l' outb)"
    using d(8) [OF d(1,2)] d(8) [OF d(3,4)] designates noports_flags [of "heap l' inb" "inherit (heap l r) (new ! (inb - next_inst l))"]
      noports_flags [of "heap l' outb" "inherit (heap l r) (new ! (outb - next_inst l))"] by (simp_all add: inherit_def)
  have new_stands: "stands_for get_filter g l0 l' a x"
    if a: "a \<in> set (filter_instances l0)" and x: "next_inst l \<le> x" "x < next_inst l + length new" and ar: "I a = r \<or> U a = r"
      and g: "g (heap l' x)" for a x g
  proof (cases "I a = a \<and> U a = a \<and> noports (heap l a) = noports (heap l0 a)")
    case True
    then have "a = r" using ar by auto
    then have "composite get_filter (heap l0 a)" "name_of l r = name_of l0 a"
      using True c noports_eqD(4,5) [of "heap l a" "heap l0 a"] unfolding name_of_def by blast+
    then show ?thesis using x n g heir [OF x] by (simp add: stands_for_def)
  next
    case False
    then have "prefix (name_of l0 a) (heritage (heap l r))" "composite get_filter (heap l0 a)"
      using IU(3) [OF a] ar by (auto simp: stands_for_def)
    then show ?thesis using x n g heir [OF x] heritage_prefix by (auto simp: stands_for_def name_of_def)
  qed
  have old_stands: "stands_for get_filter g l0 l' a x"
    if "stands_for get_filter g l0 l a x" "x \<in> set (filter_instances l)" "g = is_inbound_composite_designate \<or> g = is_outbound_composite_designate" for a x g
  proof -
    have "heritage (heap l' x) = heritage (heap l x)" "g (heap l' x) = g (heap l x)"
      using d(7) [OF that(2)] noports_eqD(3) noports_flags that(3) by metis+
    then show ?thesis using that(1) by (simp add: stands_for_def)
  qed
  have "?I a \<in> set (filter_instances l') \<and> ?U a \<in> set (filter_instances l')
     \<and> (?I a = a \<and> ?U a = a \<and> noports (heap l' a) = noports (heap l0 a)
        \<or> stands_for get_filter is_inbound_composite_designate l0 l' a (?I a)
        \<and> stands_for get_filter is_outbound_composite_designate l0 l' a (?U a))" if a: "a \<in> set (filter_instances l0)" for a
  proof (intro conjI)
    show "?I a \<in> set (filter_instances l')" "?U a \<in> set (filter_instances l')" using in' new' IU(1,2) [OF a] by simp_all
    show "?I a = a \<and> ?U a = a \<and> noports (heap l' a) = noports (heap l0 a)
        \<or> stands_for get_filter is_inbound_composite_designate l0 l' a (?I a)
        \<and> stands_for get_filter is_outbound_composite_designate l0 l' a (?U a)"
    proof (cases "I a = a \<and> U a = a \<and> noports (heap l a) = noports (heap l0 a)")
      case True
      then have "noports (heap l' a) = noports (heap l0 a)" using d(7) IU(1) [OF a] by metis
      then show ?thesis using True new_stands [OF a] flag d(1-4) by auto
    next
      case False
      then have s: "stands_for get_filter is_inbound_composite_designate l0 l a (I a)"
        "stands_for get_filter is_outbound_composite_designate l0 l a (U a)" using IU(3) [OF a] by blast+
      then show ?thesis using old_stands IU(1,2) [OF a] new_stands [OF a] flag d(1-4) by auto
    qed
  qed
  moreover have "Instance_Port (?I b) w \<in> links l' (?U a) p \<longleftrightarrow> Instance_Port b w \<in> links l0 a p"
    if a: "a \<in> set (filter_instances l0)" and b: "b \<in> set (filter_instances l0)" for a b p w
  proof -
    have "links l' (?U a) p = redirect_port r inb ` links l (U a) p"
      using d(7) [OF IU(2) [OF a]] d(8) [OF d(3,4)] by simp
    moreover have "ip_instance ip \<noteq> inb" if "ip \<in> links l (U a) p" for ip
      using old(2) [OF old(3) [OF IU(2) [OF a] that]] d(1) by linarith
    moreover have "I b \<noteq> inb" using old(2) [OF IU(1) [OF b]] d(1) by linarith
    ultimately have "Instance_Port (?I b) w \<in> links l' (?U a) p \<longleftrightarrow> Instance_Port (I b) w \<in> links l (U a) p"
      using redirected_iff by metis
    then show ?thesis using t1 a b by blast
  qed
  moreover have "inj_on ?I (set (filter_instances l0))" "inj_on ?U (set (filter_instances l0))"
    using inj [of I inb] inj [of U outb] t1 IU d(1,3) by blast+
  moreover have "next_inst l0 \<le> next_inst l'" using n d(5) by simp
  ultimately show ?thesis unfolding traced_def by blast
qed

text \<open>What every single expansion keeps, the loop keeps.\<close>

lemma expand_composites_loop:
  assumes p: "proper_filters get_filter rank"
    and step: "\<And>l r f new_layout inb outb l'. P l \<Longrightarrow> sound get_filter l \<Longrightarrow> r \<in> set (filter_instances l) \<Longrightarrow>
      get_filter (filtername (heap l r)) = Some f \<Longrightarrow> f (composite_cluster_binding (heap l r)) = Some new_layout \<Longrightarrow>
      expanded_into r (new_layout (next_inst l)) inb outb l l' \<Longrightarrow> P l'"
  shows "sound get_filter l \<Longrightarrow> P l \<Longrightarrow>
    \<exists>l'. expand_composites get_filter l = Some (Inr l') \<and> sound get_filter l' \<and> P l'
      \<and> (\<forall>r \<in> set (filter_instances l'). \<not> composite get_filter (heap l' r))"
proof (induction "ranks rank l" arbitrary: l rule: wf_induct [OF wf_mult [OF wf_less_than]])
  case (1 l)
  have known: "\<forall>r \<in> set (filter_instances l). get_filter (filtername (heap l r)) \<noteq> None" using 1(2) by (simp add: sound_def)
  from known show ?case
  proof (cases rule: find_composite_cases)
    case plain
    then show ?thesis using 1(2,3) by (auto simp: expand_composites.simps [of _ l])
  next
    case (found r f new_layout)
    have pr: "proper_composite new_layout" "\<forall>fi \<in> set (new_layout (next_inst l)). get_filter (filtername fi) \<noteq> None"
      "\<forall>fi \<in> set (new_layout (next_inst l)). rank (filtername fi) < rank (filtername (heap l r))"
      using p found(3,4) unfolding proper_filters_def by blast+
    obtain inb outb l1 where e: "expand_composite r new_layout l = Inr l1" "expanded_into r (new_layout (next_inst l)) inb outb l l1"
      using expand_composite_ok [OF 1(2) found(2) pr(1)] by blast
    have "expand_composites get_filter l = expand_composites get_filter l1"
      using found(1) e(1) by (simp add: expand_composites.simps [of _ l])
    moreover have "(ranks rank l1, ranks rank l) \<in> mult less_than" by (rule ranks_decrease [OF found(2) e(2) pr(3)])
    moreover note expanded_sound [OF 1(2) found(2) e(2) pr(1,2)] step [OF 1(3,2) found(2-4) e(2)]
    ultimately show ?thesis using 1(1) by metis
  qed
qed

section \<open>Properties\<close>

text \<open>
  C8. When no composite contains itself, expanding the composites ends and leaves plain filters only. An
  instance of a plain filter stays as it is but for its ports; an instance \<open>a\<close> of a composite is replaced by new ones
  that carry its name in their heritage, and has an inbound designate \<open>I a\<close> and an outbound
  designate \<open>U a\<close> among them. What was connected is connected
  by the same ports from outbound to inbound designates, however deep composites are nested.
\<close>

theorem composites_dissolve:
  assumes "proper_filters get_filter rank" and "sound get_filter l"
  shows "\<exists>I U l'. expand_composites get_filter l = Some (Inr l')
    \<and> (\<forall>r \<in> set (filter_instances l'). \<not> composite get_filter (heap l' r)) \<and> layout_wf l'
    \<and> (\<forall>a \<in> set (filter_instances l). I a \<in> set (filter_instances l') \<and> U a \<in> set (filter_instances l')
        \<and> (if composite get_filter (heap l a)
           then is_inbound_composite_designate (heap l' (I a)) \<and> is_outbound_composite_designate (heap l' (U a))
             \<and> next_inst l \<le> I a \<and> next_inst l \<le> U a
             \<and> prefix (name_of l a) (heritage (heap l' (I a))) \<and> prefix (name_of l a) (heritage (heap l' (U a)))
           else I a = a \<and> U a = a \<and> noports (heap l' a) = noports (heap l a)))
    \<and> inj_on I (set (filter_instances l)) \<and> inj_on U (set (filter_instances l))
    \<and> (\<forall>a \<in> set (filter_instances l). \<forall>b \<in> set (filter_instances l). \<forall>p w.
         Instance_Port (I b) w \<in> links l' (U a) p \<longleftrightarrow> Instance_Port b w \<in> links l a p)"
proof -
  have step: "\<exists>I U. traced get_filter l I U l2"
    if "\<exists>I U. traced get_filter l I U l1" "sound get_filter l1" "r \<in> set (filter_instances l1)"
      "get_filter (filtername (heap l1 r)) = Some f" "f (composite_cluster_binding (heap l1 r)) = Some new_layout"
      "expanded_into r (new_layout (next_inst l1)) inb outb l1 l2" for l1 r f new_layout inb outb l2
    using that(1) traced_step [OF _ that(2,3) _ that(6)] that(4,5) unfolding composite_def by blast
  have start: "\<exists>I U. traced get_filter l I U l" using traced_start by blast
  have "\<exists>l'. expand_composites get_filter l = Some (Inr l') \<and> sound get_filter l' \<and> (\<exists>I U. traced get_filter l I U l')
      \<and> (\<forall>r \<in> set (filter_instances l'). \<not> composite get_filter (heap l' r))"
    by (rule expand_composites_loop [where P = "\<lambda>l1. \<exists>I U. traced get_filter l I U l1", OF assms(1) _ assms(2) start]) (rule step)
  then obtain I U l' where e: "expand_composites get_filter l = Some (Inr l')" "sound get_filter l'"
    "\<forall>r \<in> set (filter_instances l'). \<not> composite get_filter (heap l' r)" and t: "traced get_filter l I U l'" by blast
  have "if composite get_filter (heap l a)
        then is_inbound_composite_designate (heap l' (I a)) \<and> is_outbound_composite_designate (heap l' (U a))
             \<and> next_inst l \<le> I a \<and> next_inst l \<le> U a
             \<and> prefix (name_of l a) (heritage (heap l' (I a))) \<and> prefix (name_of l a) (heritage (heap l' (U a)))
        else I a = a \<and> U a = a \<and> noports (heap l' a) = noports (heap l a)" if a: "a \<in> set (filter_instances l)" for a
  proof (cases "I a = a \<and> U a = a \<and> noports (heap l' a) = noports (heap l a)")
    case True
    have "I a \<in> set (filter_instances l')" using t a unfolding traced_def by blast
    then have "\<not> composite get_filter (heap l a)" using e(3) True noports_eqD(5) by metis
    with True show ?thesis by simp
  next
    case False
    then have "stands_for get_filter is_inbound_composite_designate l l' a (I a)" "stands_for get_filter is_outbound_composite_designate l l' a (U a)"
      using t a unfolding traced_def by blast+
    then show ?thesis by (simp add: stands_for_def)
  qed
  with e t show ?thesis unfolding traced_def sound_def by blast
qed

text \<open>A source and a sink around a filter \<open>C\<close> that consists of \<open>A\<close> and \<open>B\<close>.\<close>

definition pipe_filters :: filter_table where
  "pipe_filters name =
     (if name = ''C'' then Some (\<lambda>hosts. Some (\<lambda>n.
        [(DCFilterInstance_new ''A'' ''a'')\<lparr>outports := [(''x'', [Instance_Port (n + 1) ''y''])], is_inbound_composite_designate := True\<rparr>,
         (DCFilterInstance_new ''B'' ''b'')\<lparr>is_outbound_composite_designate := True\<rparr>]))
      else if name \<in> {''A'', ''B'', ''Src'', ''Snk''} then Some (\<lambda>hosts. None) else None)"

definition pipe :: DCLayout where
  "pipe = source_and_sinks\<lparr>
     heap := (\<lambda>r. if r = 0 then (DCFilterInstance_new ''Src'' ''s'')\<lparr>outports := [(''o'', [Instance_Port 1 ''i''])]\<rparr>
       else if r = 1 then (DCFilterInstance_new ''C'' ''c'')\<lparr>outports := [(''o'', [Instance_Port 2 ''i''])]\<rparr>
       else DCFilterInstance_new ''Snk'' ''t''),
     next_inst := 3, filter_instances := [0, 1, 2]\<rparr>"

lemma pipe_proper: "proper_filters pipe_filters (\<lambda>name. if name = ''C'' then 1 else 0)"
  unfolding proper_filters_def
proof (intro allI impI)
  fix name f hosts new_layout assume f: "pipe_filters name = Some f" "f hosts = Some new_layout"
  then have name: "name = ''C''" by (auto simp: pipe_filters_def split: if_splits)
  have nl: "new_layout = (\<lambda>n.
      [(DCFilterInstance_new ''A'' ''a'')\<lparr>outports := [(''x'', [Instance_Port (n + 1) ''y''])], is_inbound_composite_designate := True\<rparr>,
       (DCFilterInstance_new ''B'' ''b'')\<lparr>is_outbound_composite_designate := True\<rparr>])"
    using f by (auto simp: pipe_filters_def name)
  have "proper_composite new_layout"
    by (simp add: proper_composite_def nl nice_ports_def ports_of_def map_get_def_def DCFilterInstance_new_def map_wf_def)
  then show "proper_composite new_layout \<and> (\<forall>n. \<forall>fi \<in> set (new_layout n). pipe_filters (filtername fi) \<noteq> None
      \<and> (if filtername fi = ''C'' then 1 else 0) < (if name = ''C'' then 1 else 0 :: nat))"
    by (simp add: nl name pipe_filters_def DCFilterInstance_new_def)
qed

theorem composites_dissolve_witness:
  "\<exists>l' i u. expand_composites pipe_filters pipe = Some (Inr l') \<and> 3 \<le> i \<and> 3 \<le> u
     \<and> Instance_Port i ''i'' \<in> links l' 0 ''o'' \<and> Instance_Port 2 ''i'' \<in> links l' u ''o''"
proof -
  have p: "links pipe r p = (if p = ''o'' \<and> r = 0 then {Instance_Port 1 ''i''} else if p = ''o'' \<and> r = 1 then {Instance_Port 2 ''i''} else {})" for r p
    by (simp add: links_def ports_of_def map_get_def_def pipe_def DCFilterInstance_new_def)
  have "layout_wf pipe" unfolding layout_wf_def p by (auto simp: pipe_def)
  moreover have "nice_ports (heap pipe r)" for r by (simp add: nice_ports_def pipe_def DCFilterInstance_new_def map_wf_def)
  moreover have "pipe_filters (filtername (heap pipe r)) \<noteq> None" for r by (simp add: pipe_filters_def pipe_def DCFilterInstance_new_def)
  ultimately have s: "sound pipe_filters pipe" by (simp add: sound_def)
  have c: "composite pipe_filters (heap pipe 1)" "\<not> composite pipe_filters (heap pipe 0)" "\<not> composite pipe_filters (heap pipe 2)"
    by (simp_all add: composite_def pipe_filters_def pipe_def DCFilterInstance_new_def)
  have fi: "set (filter_instances pipe) = {0, 1, 2}" "next_inst pipe = 3" by (auto simp: pipe_def)
  from composites_dissolve [OF pipe_proper s] obtain I U l' where e: "expand_composites pipe_filters pipe = Some (Inr l')"
    and a: "\<forall>a \<in> {0, 1, 2}. I a \<in> set (filter_instances l') \<and> U a \<in> set (filter_instances l') \<and> (if composite pipe_filters (heap pipe a)
           then is_inbound_composite_designate (heap l' (I a)) \<and> is_outbound_composite_designate (heap l' (U a))
             \<and> 3 \<le> I a \<and> 3 \<le> U a
             \<and> prefix (name_of pipe a) (heritage (heap l' (I a))) \<and> prefix (name_of pipe a) (heritage (heap l' (U a)))
           else I a = a \<and> U a = a \<and> noports (heap l' a) = noports (heap pipe a))"
    and k: "\<forall>a \<in> {0, 1, 2}. \<forall>b \<in> {0, 1, 2}. \<forall>p w. Instance_Port (I b) w \<in> links l' (U a) p \<longleftrightarrow> Instance_Port b w \<in> links pipe a p"
    unfolding fi by (elim exE conjE) blast
  have "3 \<le> I 1" "3 \<le> U 1" "U 0 = 0" "I 2 = 2" using a c by simp_all
  moreover have "Instance_Port (I 1) ''i'' \<in> links l' (U 0) ''o''" "Instance_Port (I 2) ''i'' \<in> links l' (U 1) ''o''"
    using k by (simp_all add: p)
  ultimately show ?thesis using e by (intro exI [of _ l'] exI [of _ "I 1"] exI [of _ "U 1"]) simp
qed

end
