(* ===== verification/LayoutWire.thy ===== *)
theory LayoutWire
  imports Layout
begin

text \<open>
  How a layout travels from the console to the runtime: \<open>DCLayout::serialize\<close> and \<open>deSerialize\<close>
  (\<open>src/src/DCLayout.cpp\<close>) with the part of the filter registry that goes along
  (\<open>src/src/DCFilterRegistry.h\<close>). The environments of the two processes and the question whether a file
  exists are arguments. Loading of libraries is not modelled.
\<close>

section \<open>The filter registry\<close>

record DCFilterRegistry =
  filter_to_libfile_unresolved :: "(string, string) std_map"
  filter_to_libfile :: "(string, string) std_map"
  dcmpi_filter_path :: "string list"

definition registry_serialize :: "bool \<Rightarrow> DCFilterRegistry \<Rightarrow> DCBuffer \<Rightarrow> DCBuffer result" where
  "registry_serialize host reg = put_list (put_pair Append_string Append_string) host (filter_to_libfile_unresolved reg)"

text \<open>A library without an absolute path is looked up in the directories of the path.\<close>

definition resolve_library :: "(string \<Rightarrow> bool) \<Rightarrow> DCFilterRegistry \<Rightarrow> string \<Rightarrow> string" where
  "resolve_library file_exists reg libfile =
     (if libfile \<noteq> [] \<and> hd libfile = CHR ''/'' then libfile
      else case find (\<lambda>dir. file_exists (dir @ ''/'' @ libfile)) (dcmpi_filter_path reg) of
             None \<Rightarrow> libfile | Some dir \<Rightarrow> dir @ ''/'' @ libfile)"

definition note_library :: "(string \<Rightarrow> bool) \<Rightarrow> string \<times> string \<Rightarrow> DCFilterRegistry \<Rightarrow> DCFilterRegistry" where
  "note_library file_exists ss reg = (case ss of (s1, s2) \<Rightarrow>
     reg\<lparr>filter_to_libfile_unresolved := map_put s1 s2 (filter_to_libfile_unresolved reg),
         filter_to_libfile := map_put s1 (resolve_library file_exists reg s2) (filter_to_libfile reg)\<rparr>)"

definition registry_deSerialize :: "(string \<Rightarrow> bool) \<Rightarrow> bool \<Rightarrow> DCFilterRegistry \<Rightarrow> bool \<Rightarrow> DCBuffer \<Rightarrow> (DCFilterRegistry \<times> DCBuffer) result" where
  "registry_deSerialize file_exists dcmpi_is_local_console reg host b =
     bind_result (get_into (note_library file_exists) (get_pair Extract_string Extract_string) reg host b) (\<lambda>r.
       if dcmpi_is_local_console then Inl Assert_failure else Inr r)"

section \<open>Environment variables\<close>

type_synonym environment = "string \<rightharpoonup> string"

text \<open>\<open>setenv(k, v, overwrite)\<close>; an empty name, or one with an equals sign, is refused.\<close>

definition setenv :: "string \<times> string \<times> int \<Rightarrow> environment \<Rightarrow> environment" where
  "setenv kvo env = (case kvo of (k, v, overwrite) \<Rightarrow>
     if k = [] \<or> CHR ''='' \<in> set k then env
     else if env k \<noteq> None \<and> overwrite = 0 then env else env(k \<mapsto> v))"

definition add_propagated_environment_variable :: "environment \<Rightarrow> string \<Rightarrow> bool \<Rightarrow> DCLayout \<Rightarrow> DCLayout" where
  "add_propagated_environment_variable env varname override_if_present l =
     (if env varname \<noteq> None
      then l\<lparr>propagated_environment_variables := map_put varname override_if_present (propagated_environment_variables l)\<rparr>
      else l)"

text \<open>A variable is sent with its value and with a flag, 0 for one that is to override.\<close>

definition put_variable :: "environment \<Rightarrow> bool \<Rightarrow> string \<times> bool \<Rightarrow> DCBuffer \<Rightarrow> DCBuffer result" where
  "put_variable env host kv b =
     (case env (fst kv) of
        None \<Rightarrow> Inl Undefined_behaviour
      | Some v \<Rightarrow> run_all [Append_string host (fst kv), Append_string host v, put_int host (if snd kv then 0 else 1)] b)"

definition get_variable :: "bool \<Rightarrow> DCBuffer \<Rightarrow> ((string \<times> string \<times> int) \<times> DCBuffer) result" where
  "get_variable host b =
     bind_result (Extract_string host b) (\<lambda>(k, b). bind_result (Extract_string host b) (\<lambda>(v, b).
       bind_result (get_int host b) (\<lambda>(override, b). Inr ((k, v, override), b))))"

section \<open>The layout\<close>

definition layout_serialize :: "environment \<Rightarrow> DCFilterRegistry \<Rightarrow> bool \<Rightarrow> DCLayout \<Rightarrow> DCBuffer \<Rightarrow> DCBuffer result" where
  "layout_serialize env reg host l = run_all
     ([put_list (put_variable env) host (propagated_environment_variables l),
       put_list serialize host (map (heap l) (filter_instances l)),
       Append_word host (if init_filter_broadcast l \<noteq> None then 1 else 0 :: uint1)]
      @ (case init_filter_broadcast l of None \<Rightarrow> [] | Some ifb \<Rightarrow> [saveToDCBuffer host ifb])
      @ [Append_word host (if has_console_filter l then 1 else 0 :: uint1), registry_serialize host reg])"

definition push_instance :: "DCFilterInstance \<Rightarrow> DCLayout \<Rightarrow> DCLayout" where
  "push_instance fi l = l\<lparr>heap := (heap l)(next_inst l := fi), next_inst := next_inst l + 1,
     filter_instances := filter_instances l @ [next_inst l]\<rparr>"

definition get_broadcast :: "uint1 \<Rightarrow> bool \<Rightarrow> DCBuffer \<Rightarrow> (DCBuffer option \<times> DCBuffer) result" where
  "get_broadcast has host b =
     (if has \<noteq> 0 then bind_result (restoreFromDCBuffer host (DCBuffer_empty host) b) (\<lambda>(x, b). Inr (Some x, b))
      else Inr (None, b))"

definition layout_deSerialize :: "(string \<Rightarrow> bool) \<Rightarrow> bool \<Rightarrow> int \<Rightarrow> environment \<Rightarrow> DCLayout \<Rightarrow> DCFilterRegistry \<Rightarrow> bool \<Rightarrow> DCBuffer
    \<Rightarrow> ((environment \<times> DCLayout \<times> DCFilterRegistry) \<times> DCBuffer) result" where
  "layout_deSerialize file_exists dcmpi_is_local_console junk env l reg host b =
     bind_result (get_into setenv get_variable env host b) (\<lambda>(env1, b).
     bind_result (get_into push_instance (\<lambda>h. deSerialize h (DCFilterInstance_default junk)) l host b) (\<lambda>(l1, b).
     bind_result (Extract_word_init host b) (\<lambda>(has_init_filter_broadcast :: uint1, b).
     bind_result (get_broadcast has_init_filter_broadcast host b) (\<lambda>(ifb, b).
     bind_result (Extract_word_init host b) (\<lambda>(hcf :: uint1, b).
     bind_result (registry_deSerialize file_exists dcmpi_is_local_console reg host b) (\<lambda>(reg1, b).
       Inr ((env1, l1\<lparr>init_filter_broadcast := ifb, has_console_filter := (hcf = 1)\<rparr>, reg1), b)))))))"

section \<open>The wire format\<close>

definition enc_variable :: "environment \<Rightarrow> bool \<Rightarrow> string \<times> bool \<Rightarrow> char list" where
  "enc_variable env h kv = enc_string h (fst kv) @ enc_string h (the (env (fst kv))) @ enc_int h (if snd kv then 0 else 1)"

definition variable_ok :: "environment \<Rightarrow> string \<times> bool \<Rightarrow> bool" where
  "variable_ok env kv \<longleftrightarrow> short (fst kv) \<and> (\<exists>v. env (fst kv) = Some v \<and> short v)"

lemma writes_variable:
  assumes "variable_ok env kv"
  shows "writes h (put_variable env h kv) (enc_variable env h kv)"
proof -
  obtain v where v: "env (fst kv) = Some v" "short v" using assms by (auto simp: variable_ok_def)
  have "writes h (run_all [Append_string h (fst kv), Append_string h v, put_int h (if snd kv then 0 else 1)])
     (concat [enc_string h (fst kv), enc_string h v, enc_int h (if snd kv then 0 else 1)])"
    using assms v by (intro writes_all list_all2_Nil [THEN iffD2, OF refl] list_all2_Cons [THEN iffD2] conjI
        str.put_writes cint.put_writes) (auto simp: variable_ok_def int4_ok_def)
  then show ?thesis using v by (simp add: put_variable_def [abs_def] enc_variable_def)
qed

lemma reads_variable:
  assumes "variable_ok env kv"
  shows "reads e (get_variable h) (enc_variable env e kv) (fst kv, the (env (fst kv)), if snd kv then 0 else 1)"
proof -
  have s: "short (fst kv)" "short (the (env (fst kv)))" using assms by (auto simp: variable_ok_def)
  have i: "int4_ok (if snd kv then 0 else 1)" by (simp add: int4_ok_def)
  have "reads e (get_variable h) (enc_string e (fst kv) @ enc_string e (the (env (fst kv))) @ enc_int e (if snd kv then 0 else 1) @ [])
     (fst kv, the (env (fst kv)), if snd kv then 0 else 1)"
    unfolding get_variable_def [abs_def]
    by (rule reads_bind [OF str.get_reads [OF s(1)]], rule reads_bind [OF str.get_reads [OF s(2)]],
        rule reads_bind [OF cint.get_reads [OF i]]) (rule reads_return)
  then show ?thesis by (simp add: enc_variable_def)
qed

text \<open>A list whose elements change on the way.\<close>

lemma reads_changed:
  assumes "short xs" and "\<And>x. x \<in> set xs \<Longrightarrow> reads e (get h) (enc x) (f x)"
  shows "reads e (get_into ins get m h) (enc_int e (int (length xs)) @ concat (map enc xs)) (fold ins (map f xs) m)"
proof -
  have "reads e (insert_loop ins (get h) (length xs) m) (concat (map enc xs)) (fold ins (map f xs) m)"
    using assms(2)
  proof (induction xs arbitrary: m)
    case Nil
    show ?case by (simp add: reads_def)
  next
    case (Cons x xs)
    have "reads e (\<lambda>b. bind_result (get h b) (\<lambda>(y, b'). insert_loop ins (get h) (length xs) (ins y m) b'))
        (enc x @ concat (map enc xs)) (fold ins (map f xs) (ins (f x) m))"
      using Cons by (intro reads_bind) auto
    then show ?case by (simp add: reads_def)
  qed
  then show ?thesis
    unfolding get_into_def [abs_def]
    using reads_bind [OF cint.get_reads [OF short_int4 [OF assms(1)]], where ?r2.0 = "\<lambda>sz b'. insert_loop ins (get h) (nat sz) m b'"]
    by simp
qed

definition layout_ok :: "environment \<Rightarrow> DCFilterRegistry \<Rightarrow> DCLayout \<Rightarrow> bool" where
  "layout_ok env reg l \<longleftrightarrow> all_ok (variable_ok env) (propagated_environment_variables l)
     \<and> map_wf (propagated_environment_variables l)
     \<and> all_ok (\<lambda>r. sendable (heap l r)) (filter_instances l)
     \<and> (\<forall>b. init_filter_broadcast l = Some b \<longrightarrow> canonical b)
     \<and> map_ok short short (filter_to_libfile_unresolved reg)"

definition enc_layout :: "environment \<Rightarrow> DCFilterRegistry \<Rightarrow> bool \<Rightarrow> DCLayout \<Rightarrow> char list" where
  "enc_layout env reg h l =
     (enc_int h (int (length (propagated_environment_variables l))) @ concat (map (enc_variable env h) (propagated_environment_variables l)))
     @ (enc_int h (int (length (filter_instances l))) @ concat (map (\<lambda>r. enc_instance h (heap l r)) (filter_instances l)))
     @ native_bytes h (if init_filter_broadcast l \<noteq> None then 1 else 0 :: uint1)
     @ (case init_filter_broadcast l of None \<Rightarrow> [] | Some b \<Rightarrow> enc_DCBuffer h b)
     @ native_bytes h (if has_console_filter l then 1 else 0 :: uint1)
     @ enc_list (enc_pair enc_string enc_string) h (filter_to_libfile_unresolved reg)"

lemma writes_changed:
  assumes "short xs" and "\<And>x. x \<in> set xs \<Longrightarrow> writes h (put h x) (enc x)"
  shows "writes h (put_list put h xs) (enc_int h (int (length xs)) @ concat (map enc xs))"
  unfolding put_list_def [abs_def]
  by (intro writes_bind cint.put_writes short_int4 assms(1) writes_seq assms(2))

lemma writes_layout:
  assumes "layout_ok env reg l"
  shows "writes h (layout_serialize env reg h l) (enc_layout env reg h l)"
proof -
  have p: "writes h (put_list (put_variable env) h (propagated_environment_variables l))
      (enc_int h (int (length (propagated_environment_variables l))) @ concat (map (enc_variable env h) (propagated_environment_variables l)))"
    using assms by (intro writes_changed writes_variable) (auto simp: layout_ok_def all_ok_def)
  have i: "writes h (put_list serialize h (map (heap l) (filter_instances l)))
      (enc_int h (int (length (filter_instances l))) @ concat (map (\<lambda>r. enc_instance h (heap l r)) (filter_instances l)))"
  proof -
    have "writes h (serialize h x) (enc_instance h x)" if "x \<in> set (map (heap l) (filter_instances l))" for x
      using that assms by (auto simp: layout_ok_def all_ok_def intro: writes_serialize)
    moreover have "short (map (heap l) (filter_instances l))" using assms by (simp add: layout_ok_def all_ok_def short_def)
    ultimately show ?thesis
      using writes_changed [of "map (heap l) (filter_instances l)" h serialize "enc_instance h"] by (simp add: comp_def)
  qed
  have r: "writes h (registry_serialize h reg) (enc_list (enc_pair enc_string enc_string) h (filter_to_libfile_unresolved reg))"
    using assms unfolding registry_serialize_def [abs_def] by (intro str_str.pair.put_list_writes) (simp add: layout_ok_def map_ok_def)
  show ?thesis
  proof (cases "init_filter_broadcast l")
    case None
    have "writes h (layout_serialize env reg h l) (concat
      [enc_int h (int (length (propagated_environment_variables l))) @ concat (map (enc_variable env h) (propagated_environment_variables l)),
       enc_int h (int (length (filter_instances l))) @ concat (map (\<lambda>r. enc_instance h (heap l r)) (filter_instances l)),
       native_bytes h (if init_filter_broadcast l \<noteq> None then 1 else 0 :: uint1),
       native_bytes h (if has_console_filter l then 1 else 0 :: uint1),
       enc_list (enc_pair enc_string enc_string) h (filter_to_libfile_unresolved reg)])"
      unfolding layout_serialize_def None option.case append_Nil append_Cons
      by (intro writes_all list_all2_Nil [THEN iffD2, OF refl] list_all2_Cons [THEN iffD2] conjI p i r uint1.put_writes TrueI)
    then show ?thesis by (simp add: enc_layout_def None)
  next
    case (Some b)
    have b: "writes h (saveToDCBuffer h b) (enc_DCBuffer h b)"
      using assms Some by (intro dcbuffer.put_writes) (simp add: layout_ok_def)
    have "writes h (layout_serialize env reg h l) (concat
      [enc_int h (int (length (propagated_environment_variables l))) @ concat (map (enc_variable env h) (propagated_environment_variables l)),
       enc_int h (int (length (filter_instances l))) @ concat (map (\<lambda>r. enc_instance h (heap l r)) (filter_instances l)),
       native_bytes h (if init_filter_broadcast l \<noteq> None then 1 else 0 :: uint1), enc_DCBuffer h b,
       native_bytes h (if has_console_filter l then 1 else 0 :: uint1),
       enc_list (enc_pair enc_string enc_string) h (filter_to_libfile_unresolved reg)])"
      unfolding layout_serialize_def Some option.case append_Nil append_Cons
      by (intro writes_all list_all2_Nil [THEN iffD2, OF refl] list_all2_Cons [THEN iffD2] conjI p i r b uint1.put_writes TrueI)
    then show ?thesis by (simp add: enc_layout_def Some)
  qed
qed

text \<open>What the other side has afterwards.\<close>

definition received_env :: "environment \<Rightarrow> DCLayout \<Rightarrow> environment \<Rightarrow> environment" where
  "received_env env l env0 = fold setenv (map (\<lambda>kv. (fst kv, the (env (fst kv)), if snd kv then 0 else 1)) (propagated_environment_variables l)) env0"

definition received_layout :: "DCLayout \<Rightarrow> DCLayout \<Rightarrow> DCLayout" where
  "received_layout l l0 = (fold push_instance (map (\<lambda>r. travelled (heap l r)) (filter_instances l)) l0)
     \<lparr>init_filter_broadcast := init_filter_broadcast l, has_console_filter := has_console_filter l\<rparr>"

lemma reads_broadcast:
  assumes "\<forall>b. ifb = Some b \<longrightarrow> canonical b"
  shows "reads e (get_broadcast (if ifb \<noteq> None then 1 else 0) h) (case ifb of None \<Rightarrow> [] | Some b \<Rightarrow> enc_DCBuffer e b) ifb"
proof (cases ifb)
  case None
  then show ?thesis by (simp add: get_broadcast_def [abs_def] reads_return)
next
  case (Some b)
  then show ?thesis
    using reads_map [OF dcbuffer.get_reads, of b e h Some] assms by (simp add: get_broadcast_def [abs_def])
qed

lemma reads_layout:
  assumes "layout_ok env reg l"
  shows "reads e (layout_deSerialize file_exists False junk env0 l0 reg0 h) (enc_layout env reg e l)
    (received_env env l env0, received_layout l l0, fold (note_library file_exists) (filter_to_libfile_unresolved reg) reg0)"
proof -
  have p: "reads e (get_into setenv get_variable env0 h)
      (enc_int e (int (length (propagated_environment_variables l))) @ concat (map (enc_variable env e) (propagated_environment_variables l)))
      (received_env env l env0)"
    using assms unfolding received_env_def by (intro reads_changed reads_variable) (auto simp: layout_ok_def all_ok_def)
  have i: "reads e (get_into push_instance (\<lambda>h. deSerialize h (DCFilterInstance_default junk)) l0 h)
      (enc_int e (int (length (filter_instances l))) @ concat (map (\<lambda>r. enc_instance e (heap l r)) (filter_instances l)))
      (fold push_instance (map (\<lambda>r. travelled (heap l r)) (filter_instances l)) l0)"
    using assms by (intro reads_changed reads_deSerialize) (auto simp: layout_ok_def all_ok_def)
  have r: "reads e (registry_deSerialize file_exists False reg0 h)
      (enc_list (enc_pair enc_string enc_string) e (filter_to_libfile_unresolved reg))
      (fold (note_library file_exists) (filter_to_libfile_unresolved reg) reg0)"
    unfolding registry_deSerialize_def [abs_def] if_False bind_result_return
    using assms by (intro str_str.pair.get_into_reads) (simp add: layout_ok_def map_ok_def)
  have bc: "\<forall>b. init_filter_broadcast l = Some b \<longrightarrow> canonical b" using assms by (simp add: layout_ok_def)
  have c: "((if has_console_filter l then 1 else 0 :: uint1) = 1) = has_console_filter l" by simp
  have "reads e (layout_deSerialize file_exists False junk env0 l0 reg0 h) (
     (enc_int e (int (length (propagated_environment_variables l))) @ concat (map (enc_variable env e) (propagated_environment_variables l)))
     @ (enc_int e (int (length (filter_instances l))) @ concat (map (\<lambda>r. enc_instance e (heap l r)) (filter_instances l)))
     @ native_bytes e (if init_filter_broadcast l \<noteq> None then 1 else 0 :: uint1)
     @ (case init_filter_broadcast l of None \<Rightarrow> [] | Some b \<Rightarrow> enc_DCBuffer e b)
     @ native_bytes e (if has_console_filter l then 1 else 0 :: uint1)
     @ enc_list (enc_pair enc_string enc_string) e (filter_to_libfile_unresolved reg) @ [])
    (received_env env l env0, received_layout l l0, fold (note_library file_exists) (filter_to_libfile_unresolved reg) reg0)"
    unfolding layout_deSerialize_def [abs_def] received_layout_def
    by (rule reads_bind [OF p], rule reads_bind [OF i], rule reads_bind [OF uint1.get_reads [OF TrueI]], rule reads_bind [OF reads_broadcast [OF bc]],
        rule reads_bind [OF uint1.get_reads [OF TrueI]], rule reads_bind [OF r], unfold c) (rule reads_return)
  then show ?thesis by (simp add: enc_layout_def)
qed

section \<open>What arrives\<close>

lemma pushed:
  "\<forall>r \<in> set (filter_instances l). r < next_inst l \<Longrightarrow>
     map (heap (fold push_instance fis l)) (filter_instances (fold push_instance fis l)) = map (heap l) (filter_instances l) @ fis"
proof (induction fis arbitrary: l)
  case (Cons fi fis)
  have "\<forall>r \<in> set (filter_instances (push_instance fi l)). r < next_inst (push_instance fi l)"
    using Cons.prems by (auto simp: push_instance_def)
  from Cons.IH [OF this] show ?case
    using Cons.prems by (auto simp: push_instance_def)
qed simp

lemma setenv_other: "k \<noteq> fst kvo \<Longrightarrow> setenv kvo env k = env k"
  by (auto simp: setenv_def split: prod.splits)

lemma set_variables:
  assumes "map_wf m" and "\<forall>kv \<in> set m. fst kv \<noteq> [] \<and> CHR ''='' \<notin> set (fst kv)"
  shows "fold setenv (map (\<lambda>kv. (fst kv, f (fst kv), if snd kv then 0 else 1)) m) env k
    = (case map_of m k of None \<Rightarrow> env k | Some override \<Rightarrow> if override \<and> env k \<noteq> None then env k else Some (f k))"
  using assms
proof (induction m arbitrary: env)
  case (Cons kv m)
  obtain x o' where kv: "kv = (x, o')" by (cases kv)
  have wf: "map_wf m" "map_of m x = None" using Cons.prems(1) by (auto simp: kv map_wf_Cons map_of_eq_None_iff)
  define e where "e = setenv (x, f x, if o' then 0 else 1) env"
  have ex: "e x = (if o' \<and> env x \<noteq> None then env x else Some (f x))"
    using Cons.prems(2) by (simp add: e_def setenv_def kv)
  have ih: "fold setenv (map (\<lambda>kv. (fst kv, f (fst kv), if snd kv then 0 else 1)) m) e k
    = (case map_of m k of None \<Rightarrow> e k | Some override \<Rightarrow> if override \<and> e k \<noteq> None then e k else Some (f k))"
    using Cons.prems(2) by (intro Cons.IH wf(1)) simp
  show ?case
  proof (cases "k = x")
    case True
    then show ?thesis using ih wf(2) ex by (simp add: kv flip: e_def)
  next
    case False
    then have "e k = env k" unfolding e_def by (intro setenv_other) simp
    then show ?thesis using ih False by (cases "map_of m k") (simp_all add: kv flip: e_def)
  qed
qed simp

lemma note_libraries:
  "fold (note_library file_exists) m reg =
     reg\<lparr>filter_to_libfile_unresolved := fold (\<lambda>(k, v). map_put k v) m (filter_to_libfile_unresolved reg),
         filter_to_libfile := fold (\<lambda>(k, v). map_put k v) (map (\<lambda>(k, v). (k, resolve_library file_exists reg v)) m) (filter_to_libfile reg)\<rparr>"
proof (induction m arbitrary: reg)
  case (Cons kv m)
  obtain a b where kv: "kv = (a, b)" by (cases kv)
  define reg1 where "reg1 = note_library file_exists (a, b) reg"
  have "dcmpi_filter_path reg1 = dcmpi_filter_path reg" by (simp add: reg1_def note_library_def)
  then have "resolve_library file_exists reg1 = resolve_library file_exists reg" by (simp add: resolve_library_def fun_eq_iff)
  then show ?case
    using Cons.IH [of reg1] by (simp add: kv flip: reg1_def) (simp add: reg1_def note_library_def)
qed simp

text \<open>
  C19. A layout that the console serialises arrives at a runtime on any other host, whatever the byte
  orders: the instances in order, the broadcast buffer, whether there is a console filter, and the filters
  with their libraries, which are looked up on the path of the receiver. A propagated environment
  variable is set, except that one sent to override keeps the value that the receiver has: the
  flag is sent the wrong way round.
\<close>

theorem layout_arrives:
  assumes "layout_ok env reg l" and "2 * length (enc_layout env reg h l) < 2 ^ 31"
    and "\<forall>kv \<in> set (propagated_environment_variables l). fst kv \<noteq> [] \<and> CHR ''='' \<notin> set (fst kv)"
    and "filter_instances l0 = []" and "filter_to_libfile_unresolved reg0 = []" and "filter_to_libfile reg0 = []"
  shows "\<exists>b b' env' l' reg'. layout_serialize env reg h l (DCBuffer_empty h) = Inr b
    \<and> layout_deSerialize file_exists False junk env0 l0 reg0 h' b = Inr ((env', l', reg'), b') \<and> unread b' = []
    \<and> map (heap l') (filter_instances l') = map (\<lambda>r. travelled (heap l r)) (filter_instances l)
    \<and> init_filter_broadcast l' = init_filter_broadcast l \<and> has_console_filter l' = has_console_filter l
    \<and> filter_to_libfile_unresolved reg' = filter_to_libfile_unresolved reg
    \<and> (\<forall>name. map_of (filter_to_libfile reg') name
          = map_option (resolve_library file_exists reg0) (map_of (filter_to_libfile_unresolved reg) name))
    \<and> (\<forall>k. env' k = (case map_of (propagated_environment_variables l) k of None \<Rightarrow> env0 k
          | Some override \<Rightarrow> if override \<and> env0 k \<noteq> None then env0 k else env k))"
proof -
  let ?m = "filter_to_libfile_unresolved reg" and ?reg' = "fold (note_library file_exists) (filter_to_libfile_unresolved reg) reg0"
  from written_then_read [OF writes_layout [OF assms(1)] reads_layout [OF assms(1)] assms(2)]
  obtain b b' where b: "layout_serialize env reg h l (DCBuffer_empty h) = Inr b"
    "layout_deSerialize file_exists False junk env0 l0 reg0 h' b = Inr ((received_env env l env0, received_layout l l0, ?reg'), b')" "unread b' = []"
    by blast
  have m: "map_wf ?m" "map_wf (propagated_environment_variables l)" using assms(1) by (simp_all add: layout_ok_def map_ok_def)
  have keys: "map fst (map (\<lambda>(k, v). (k, resolve_library file_exists reg0 v)) ?m) = map fst ?m" by (induction ?m) auto
  have "map_wf (map (\<lambda>(k, v). (k, resolve_library file_exists reg0 v)) ?m)" using m(1) unfolding map_wf_def keys .
  from smap.rebuild [OF this] have lib: "filter_to_libfile ?reg' = map (\<lambda>(k, v). (k, resolve_library file_exists reg0 v)) ?m"
    using assms(6) by (simp add: note_libraries)
  have "map_of (filter_to_libfile ?reg') name = map_option (resolve_library file_exists reg0) (map_of ?m name)" for name
    unfolding lib by (simp add: map_of_map)
  moreover have "filter_to_libfile_unresolved ?reg' = ?m"
    using smap.rebuild [OF m(1)] assms(5) by (simp add: note_libraries)
  moreover have "map (heap (received_layout l l0)) (filter_instances (received_layout l l0)) = map (\<lambda>r. travelled (heap l r)) (filter_instances l)"
    using pushed [of l0 "map (\<lambda>r. travelled (heap l r)) (filter_instances l)"] assms(4) by (simp add: received_layout_def)
  moreover have "received_env env l env0 k = (case map_of (propagated_environment_variables l) k of None \<Rightarrow> env0 k
      | Some override \<Rightarrow> if override \<and> env0 k \<noteq> None then env0 k else env k)" for k
  proof -
    have "env k \<noteq> None" if "map_of (propagated_environment_variables l) k = Some override" for override
      using map_of_SomeD [OF that] assms(1) by (auto simp: layout_ok_def all_ok_def variable_ok_def)
    then show ?thesis
      using set_variables [OF m(2) assms(3), of "\<lambda>k. the (env k)" env0 k]
      by (auto simp: received_env_def split: option.splits)
  qed
  moreover have "init_filter_broadcast (received_layout l l0) = init_filter_broadcast l" "has_console_filter (received_layout l l0) = has_console_filter l"
    by (simp_all add: received_layout_def)
  ultimately show ?thesis using b by blast
qed

definition one_filter :: DCLayout where
  "one_filter = \<lparr>heap = (\<lambda>_. DCFilterInstance_new ''F'' ''i''), next_inst = 1, filter_instances = [0], expansion_filter_instances = [],
     run_hosts = [], run_hosts_no_console = [], has_console_filter = True, init_filter_broadcast = None, gftids_to_instances = [],
     host_dcmpirank = [], exec_host_pool = [], set_param_all_params = [],
     propagated_environment_variables = [(''PATH'', True), (''TERM'', False)]\<rparr>"

text \<open>\<open>PATH\<close>, sent to override, keeps its value at the receiver; \<open>TERM\<close>, sent not to override, is overwritten.\<close>

lemma layout_arrives_witness:
  "\<exists>b b' env' l' reg'.
      layout_serialize [''PATH'' \<mapsto> ''/opt/bin'', ''TERM'' \<mapsto> ''vt100''] \<lparr>filter_to_libfile_unresolved = [(''F'', ''libf.so'')],
        filter_to_libfile = [], dcmpi_filter_path = []\<rparr> True one_filter (DCBuffer_empty True) = Inr b
    \<and> layout_deSerialize (\<lambda>fn. fn = ''/lib/libf.so'') False 7 [''PATH'' \<mapsto> ''/bin'', ''TERM'' \<mapsto> ''xterm'']
        (one_filter\<lparr>filter_instances := []\<rparr>) \<lparr>filter_to_libfile_unresolved = [], filter_to_libfile = [], dcmpi_filter_path = [''/usr'', ''/lib'']\<rparr>
        False b = Inr ((env', l', reg'), b')
    \<and> map (heap l') (filter_instances l') = [DCFilterInstance_new ''F'' ''i'']
    \<and> map_of (filter_to_libfile reg') ''F'' = Some ''/lib/libf.so''
    \<and> env' ''PATH'' = Some ''/bin'' \<and> env' ''TERM'' = Some ''vt100''"
proof -
  let ?env = "[''PATH'' \<mapsto> ''/opt/bin'', ''TERM'' \<mapsto> ''vt100'']" and ?reg = "\<lparr>filter_to_libfile_unresolved = [(''F'', ''libf.so'')],
    filter_to_libfile = [], dcmpi_filter_path = []\<rparr>"
  have ok: "layout_ok ?env ?reg one_filter"
    by (simp add: layout_ok_def one_filter_def all_ok_def variable_ok_def short_def map_wf_def sendable_def map_ok_def pair_ok_def
        int4_ok_def DCFilterInstance_new_def less_char_def)
  have len: "2 * length (enc_layout ?env ?reg True one_filter) < 2 ^ 31"
    by (simp add: enc_layout_def one_filter_def enc_variable_def enc_string_def enc_int_def enc_instance_def enc_list_def enc_pair_def
        DCFilterInstance_new_def)
  have "travelled (DCFilterInstance_new ''F'' ''i'') = DCFilterInstance_new ''F'' ''i''"
    by (simp add: travelled_def DCFilterInstance_new_def)
  then show ?thesis
    using layout_arrives [OF ok len, of "one_filter\<lparr>filter_instances := []\<rparr>"
        "\<lparr>filter_to_libfile_unresolved = [], filter_to_libfile = [], dcmpi_filter_path = [''/usr'', ''/lib'']\<rparr>"
        "\<lambda>fn. fn = ''/lib/libf.so''" 7 "[''PATH'' \<mapsto> ''/bin'', ''TERM'' \<mapsto> ''xterm'']" False]
    by (fastforce simp: one_filter_def resolve_library_def)
qed

end
