(* ===== verification/Execute1.thy ===== *)
theory Execute1
  imports Composites Placement LayoutWire Packet
begin

text \<open>
  How a user's program builds a layout, call by call, and what the first phase of its execution
  (\<open>DCLayout::execute1\<close>, \<open>src/src/DCLayout.cpp\<close>) makes of it: the check of the ports, the parameters for
  all, the three expansions and the placement, one after the other.
\<close>

section \<open>Building a layout\<close>

text \<open>\<open>common_init\<close> notes the variables that are to be propagated if they are set.\<close>

definition common_init :: "environment \<Rightarrow> DCLayout \<Rightarrow> DCLayout" where
  "common_init env l = fold (\<lambda>varname. add_propagated_environment_variable env varname True)
     [''DCMPI_VERBOSE'', ''DCMPI_MAINLOOP_SLEEPTIMES'', ''DCMPI_REMOTE_OUTPUT'', ''DCMPI_STATS'',
      ''DCMPI_GDBLAUNCHER'', ''DCMPI_JIT_GDB'', ''DCMPI_FORCE_DISPLAY''] l"

definition DCLayout_new :: "environment \<Rightarrow> DCLayout" where
  "DCLayout_new env = common_init env
     \<lparr>heap = (\<lambda>_. DCFilterInstance_new [] []), next_inst = 0, filter_instances = [], expansion_filter_instances = [],
      run_hosts = [], run_hosts_no_console = [], has_console_filter = False, init_filter_broadcast = None,
      gftids_to_instances = [], host_dcmpirank = [], exec_host_pool = [], set_param_all_params = [],
      propagated_environment_variables = []\<rparr>"

definition new_instance :: "string \<Rightarrow> string \<Rightarrow> DCLayout \<Rightarrow> DCLayout" where
  "new_instance fname iname l =
     l\<lparr>heap := (heap l)(next_inst l := DCFilterInstance_new fname iname), next_inst := next_inst l + 1\<rparr>"

text \<open>The calls that a program may make on an instance.\<close>

datatype directive = Bind_to_host string | Bind_to_hosts "string list" | Make_transparent int | Add_label string
  | Add_labels_to_transparents "string list" | Bind_to_cluster "string list" | Designate_inbound | Designate_outbound
  | Set_param string string

fun obey :: "directive \<Rightarrow> DCFilterInstance \<Rightarrow> DCFilterInstance result" where
  "obey (Bind_to_host h) fi = bind_to_host h fi"
| "obey (Bind_to_hosts hs) fi = bind_to_hosts hs fi"
| "obey (Make_transparent n) fi = make_transparent n fi"
| "obey (Add_label lab) fi = add_label lab fi"
| "obey (Add_labels_to_transparents labs) fi = add_labels_to_transparents labs fi"
| "obey (Bind_to_cluster hs) fi = Inr (bind_to_cluster hs fi)"
| "obey Designate_inbound fi = Inr (designate_as_inbound_for_composite fi)"
| "obey Designate_outbound fi = Inr (designate_as_outbound_for_composite fi)"
| "obey (Set_param k v) fi = Inr (set_param k v fi)"

text \<open>The layouts that a program can have after calls that have all returned.\<close>

inductive built :: "DCLayout \<Rightarrow> bool" where
  started: "built (DCLayout_new env)"
| made: "built l \<Longrightarrow> built (new_instance fname iname l)"
| told: "built l \<Longrightarrow> r < next_inst l \<Longrightarrow> obey d (heap l r) = Inr fi \<Longrightarrow> built (upd r (\<lambda>_. fi) l)"
| added: "built l \<Longrightarrow> r < next_inst l \<Longrightarrow> layout_add r l = Inr l' \<Longrightarrow> built l'"
| connected: "built l \<Longrightarrow> r < next_inst l \<Longrightarrow> s < next_inst l \<Longrightarrow> layout_add_port (Some r) p (Some s) w l = Inr l' \<Longrightarrow> built l'"
| param_all: "built l \<Longrightarrow> built (set_param_all k v l)"
| broadcast: "built l \<Longrightarrow> set_init_filter_broadcast host buf l = Inr l' \<Longrightarrow> built l'"
| variable: "built l \<Longrightarrow> built (add_propagated_environment_variable env varname over l)"
| pool_of_one: "built l \<Longrightarrow> built (set_exec_host_pool h l)"
| pool: "built l \<Longrightarrow> built (set_exec_host_pools hs l)"

section \<open>Types of instances and layouts\<close>

text \<open>
  What the expansions and the placement rely on. An instance asks for as many copies as it has
  hosts; its ports are a map, have names that fit into the header of a packet, and are not resolved yet.
\<close>

definition port_named :: "string \<Rightarrow> bool" where
  "port_named p \<longleftrightarrow> p \<noteq> [] \<and> length p \<le> DCMPI_PORT_MAXLEN_SIZE"

definition typed_instance :: "DCFilterInstance \<Rightarrow> bool" where
  "typed_instance fi \<longleftrightarrow> map_wf (outports fi) \<and> (\<forall>p. \<forall>ip \<in> set (ports_of fi p). port_named p \<and> port_named (ip_port ip))
     \<and> num_copies fi = int (max 1 (length (bind_hosts fi))) \<and> copy_rank fi = 0 \<and> \<not> transparent_copies_expanded fi
     \<and> map_wf (user_params fi) \<and> heritage fi = [] \<and> resolved_inports fi = [] \<and> resolved_outports fi = []
     \<and> gftid fi = - 1 \<and> dcmpi_rank fi = - 1"

definition typed_layout :: "DCLayout \<Rightarrow> bool" where
  "typed_layout l \<longleftrightarrow> (\<forall>r < next_inst l. typed_instance (heap l r) \<and> (\<forall>p. \<forall>ip \<in> links l r p. ip_instance ip < next_inst l))
     \<and> (\<forall>r \<in> set (filter_instances l). r < next_inst l) \<and> distinct (map (name_of l) (filter_instances l))
     \<and> map_wf (set_param_all_params l) \<and> map_wf (propagated_environment_variables l)
     \<and> run_hosts l = [] \<and> host_dcmpirank l = [] \<and> expansion_filter_instances l = []"

lemma typed_new: "typed_instance (DCFilterInstance_new fname iname)"
  by (simp add: typed_instance_def DCFilterInstance_new_def ports_of_def map_get_def_def)

lemma add_labelD:
  assumes "add_label lab fi = Inr fi'"
  obtains ll where "fi' = fi\<lparr>layout_labels := ll\<rparr>"
  using assms by (auto simp: add_label_def Let_def split: if_splits)

lemma add_labelsD:
  assumes "add_labels_to_transparents labs fi = Inr fi'"
  obtains ll where "fi' = fi\<lparr>layout_labels := ll\<rparr>" "2 \<le> num_copies fi"
  using assms by (auto simp: add_labels_to_transparents_def Let_def split: if_splits)

lemma typed_obey:
  assumes "typed_instance fi" and "obey d fi = Inr fi'"
  shows "typed_instance fi' \<and> get_distinguished_name fi' = get_distinguished_name fi \<and> outports fi' = outports fi"
proof (cases d)
  case (Bind_to_host h)
  then obtain ll where "fi' = fi\<lparr>bind_hosts := [h], num_copies := 1, layout_labels := ll\<rparr>"
    using assms(2) by (auto simp: bind_to_host_def elim: add_labelD)
  then show ?thesis using assms(1) by (simp add: typed_instance_def get_distinguished_name_def ports_of_def)
next
  case (Bind_to_hosts hs)
  then have "add_labels_to_transparents hs (fi\<lparr>bind_hosts := hs, num_copies := int (length hs)\<rparr>) = Inr fi'"
    using assms(2) by (simp add: bind_to_hosts_def)
  then obtain ll where "fi' = fi\<lparr>bind_hosts := hs, num_copies := int (length hs), layout_labels := ll\<rparr>" "2 \<le> length hs"
    by (auto elim!: add_labelsD)
  then show ?thesis using assms(1) by (simp add: typed_instance_def get_distinguished_name_def ports_of_def max_def)
next
  case (Make_transparent n)
  then have "0 < n" "fi' = fi\<lparr>bind_hosts := bind_hosts fi @ replicate (nat n) [], num_copies := int (length (bind_hosts fi @ replicate (nat n) []))\<rparr>"
    using assms(2) by (auto simp: make_transparent_def Let_def split: if_splits)
  moreover from this have "max 1 (length (bind_hosts fi) + nat n) = length (bind_hosts fi) + nat n" by linarith
  ultimately show ?thesis using assms(1) by (simp add: typed_instance_def get_distinguished_name_def ports_of_def)
next
  case (Add_label lab)
  then show ?thesis using assms by (auto elim!: add_labelD simp: typed_instance_def get_distinguished_name_def ports_of_def)
next
  case (Add_labels_to_transparents labs)
  then show ?thesis using assms by (auto elim!: add_labelsD simp: typed_instance_def get_distinguished_name_def ports_of_def)
qed (use assms in \<open>auto simp: bind_to_cluster_def designate_as_inbound_for_composite_def designate_as_outbound_for_composite_def
      set_param_def typed_instance_def get_distinguished_name_def ports_of_def\<close>)

lemma typed_add_port:
  assumes "typed_instance fi" and "port_named p" and "port_named w"
  shows "typed_instance (fi_add_port p s w fi)" and "get_distinguished_name (fi_add_port p s w fi) = get_distinguished_name fi"
    and "ports_of (fi_add_port p s w fi) p' = (if p' = p then ports_of fi p' @ [Instance_Port s w] else ports_of fi p')"
proof -
  have wf: "map_wf (outports fi)" "w \<noteq> []" using assms by (simp_all add: typed_instance_def port_named_def)
  note np = fi_add_port_noports [of p s w fi]
  show ports: "ports_of (fi_add_port p s w fi) p' = (if p' = p then ports_of fi p' @ [Instance_Port s w] else ports_of fi p')" for p'
    by (rule fi_add_port_ports [OF wf])
  show "get_distinguished_name (fi_add_port p s w fi) = get_distinguished_name fi" by (rule noports_eqD(4) [OF np])
  have same: "f (fi_add_port p s w fi) = f fi" if "\<And>x y. f (x\<lparr>outports := y\<rparr>) = f x" for f :: "DCFilterInstance \<Rightarrow> 'z"
    by (simp add: fi_add_port_def that split: option.splits)
  show "typed_instance (fi_add_port p s w fi)"
    using assms fi_add_port_wf [OF wf(1)] unfolding typed_instance_def ports
    by (auto simp: same)
qed

lemma typed_set_params: "set_param_all_params (upd r f l) = set_param_all_params l"
  by (simp add: upd_def)

lemma name_of_upd: "name_of (upd r (\<lambda>_. fi) l) x = (if x = r then get_distinguished_name fi else name_of l x)"
  by (simp add: name_of_def upd_def)

lemma links_upd: "links (upd r (\<lambda>_. fi) l) x p = (if x = r then set (ports_of fi p) else links l x p)"
  by (simp add: links_def upd_def)

text \<open>Changing one instance in place.\<close>

lemma typed_upd:
  assumes l: "typed_layout l" and r: "r < next_inst l" and fi: "typed_instance fi" "get_distinguished_name fi = name_of l r"
    and ports: "\<And>p ip. ip \<in> set (ports_of fi p) \<Longrightarrow> ip_instance ip < next_inst l"
  shows "typed_layout (upd r (\<lambda>_. fi) l)"
proof -
  have sel: "next_inst (upd r (\<lambda>_. fi) l) = next_inst l" "filter_instances (upd r (\<lambda>_. fi) l) = filter_instances l"
    "heap (upd r (\<lambda>_. fi) l) x = (if x = r then fi else heap l x)"
    "set_param_all_params (upd r (\<lambda>_. fi) l) = set_param_all_params l"
    "propagated_environment_variables (upd r (\<lambda>_. fi) l) = propagated_environment_variables l"
    "run_hosts (upd r (\<lambda>_. fi) l) = run_hosts l" "host_dcmpirank (upd r (\<lambda>_. fi) l) = host_dcmpirank l"
    "expansion_filter_instances (upd r (\<lambda>_. fi) l) = expansion_filter_instances l" for x
    by (simp_all add: upd_def)
  have "name_of (upd r (\<lambda>_. fi) l) = name_of l" by (simp add: fun_eq_iff name_of_upd fi(2))
  with l fi(1) ports show ?thesis unfolding typed_layout_def sel links_upd by simp
qed

text \<open>Calls that leave the instances alone.\<close>

lemma typed_same:
  assumes "typed_layout l" and "heap l' = heap l" and "next_inst l' = next_inst l" and "filter_instances l' = filter_instances l"
    and "map_wf (set_param_all_params l')" and "map_wf (propagated_environment_variables l')"
    and "run_hosts l' = run_hosts l" and "host_dcmpirank l' = host_dcmpirank l" and "expansion_filter_instances l' = expansion_filter_instances l"
  shows "typed_layout l'"
proof -
  have "links l' = links l" "name_of l' = name_of l" using assms(2) by (simp_all add: links_def name_of_def fun_eq_iff)
  then show ?thesis using assms unfolding typed_layout_def by simp
qed

lemma typed_maps: "typed_layout l \<Longrightarrow> map_wf (set_param_all_params l) \<and> map_wf (propagated_environment_variables l)"
  by (simp add: typed_layout_def)

lemma typed_variable: "typed_layout l \<Longrightarrow> typed_layout (add_propagated_environment_variable env varname over l)"
  using typed_maps [of l] by (auto simp: add_propagated_environment_variable_def intro!: typed_same [of l] map_wf_put)

lemma typed_fold_variables:
  "typed_layout l \<Longrightarrow> typed_layout (fold (\<lambda>v. add_propagated_environment_variable env v over) vs l)"
  by (induction vs arbitrary: l) (simp_all add: typed_variable)

lemma built_is_typed:
  assumes "built l"
  shows "typed_layout l"
  using assms
proof (induction rule: built.induct)
  case (started env)
  show ?case unfolding DCLayout_new_def common_init_def by (rule typed_fold_variables) (simp add: typed_layout_def)
next
  case (made l fname iname)
  have "name_of (new_instance fname iname l) x = name_of l x" "links (new_instance fname iname l) x p = links l x p"
    "heap (new_instance fname iname l) x = heap l x" if "x < next_inst l" for x p
    using that by (simp_all add: new_instance_def name_of_def links_def)
  moreover have "links (new_instance fname iname l) (next_inst l) p = {}" "heap (new_instance fname iname l) (next_inst l) = DCFilterInstance_new fname iname" for p
    by (simp_all add: new_instance_def links_def ports_of_def map_get_def_def DCFilterInstance_new_def)
  moreover have "distinct (map (name_of (new_instance fname iname l)) (filter_instances l))"
    using made.IH calculation(1) unfolding typed_layout_def by (simp cong: map_cong)
  ultimately show ?case
    using made.IH typed_new [of fname iname] unfolding typed_layout_def
    by (simp add: new_instance_def less_Suc_eq)
next
  case (told l r d fi)
  have t: "typed_instance (heap l r)" "\<And>p ip. ip \<in> links l r p \<Longrightarrow> ip_instance ip < next_inst l"
    using told by (auto simp: typed_layout_def)
  show ?case
    using typed_obey [OF t(1) told.hyps(3)] t(2)
    by (intro typed_upd told) (auto simp: name_of_def links_def ports_of_def)
next
  case (added l r l')
  have l': "l' = l\<lparr>filter_instances := filter_instances l @ [r]\<rparr>" "\<forall>x \<in> set (filter_instances l). x \<noteq> r \<and> name_of l x \<noteq> name_of l r"
    using added.hyps(3) by (auto simp: layout_add_def list_ex_iff split: if_splits)
  have "name_of l' = name_of l" "links l' = links l" by (simp_all add: l'(1) name_of_def links_def fun_eq_iff)
  then show ?case using added l'(2) unfolding typed_layout_def by (auto simp: l'(1))
next
  case (connected l r s p w l')
  have l': "port_named p" "port_named w" "l' = upd r (fi_add_port p s w) l"
    using connected.hyps(4) by (auto simp: layout_add_port_def port_named_def DCMPI_PORT_MAXLEN_SIZE_def split: if_splits)
  have t: "typed_instance (heap l r)" "\<And>p ip. ip \<in> links l r p \<Longrightarrow> ip_instance ip < next_inst l"
    using connected by (auto simp: typed_layout_def)
  have u: "upd r (fi_add_port p s w) l = upd r (\<lambda>_. fi_add_port p s w (heap l r)) l" by (simp add: upd_def)
  show ?case
    unfolding l'(3) u
  proof (rule typed_upd)
    show "typed_instance (fi_add_port p s w (heap l r))" by (rule typed_add_port(1) [OF t(1) l'(1,2)])
    show "get_distinguished_name (fi_add_port p s w (heap l r)) = name_of l r"
      unfolding name_of_def by (rule typed_add_port(2) [OF t(1) l'(1,2)])
    show "ip_instance ip < next_inst l" if "ip \<in> set (ports_of (fi_add_port p s w (heap l r)) p')" for p' ip
      using that t(2) connected.hyps(3) unfolding typed_add_port(3) [OF t(1) l'(1,2)] links_def by (auto split: if_splits)
  qed (use connected in auto)
next
  case (param_all l k v)
  then show ?case using typed_maps [of l] by (auto simp: set_param_all_def intro!: typed_same [of l])
next
  case (broadcast l host buf l')
  then show ?case using typed_maps [of l]
    by (cases "DCBuffer_copy host buf") (auto simp: set_init_filter_broadcast_def intro!: typed_same [of l])
next
  case (variable l env varname over)
  then show ?case by (simp add: typed_variable)
next
  case (pool_of_one l h)
  then show ?case using typed_maps [of l] by (auto simp: set_exec_host_pool_def intro!: typed_same [of l])
next
  case (pool l hs)
  then show ?case using typed_maps [of l] by (auto simp: set_exec_host_pools_def intro!: typed_same [of l])
qed

section \<open>The first phase of execution\<close>

definition index_gftids :: "DCLayout \<Rightarrow> DCLayout" where
  "index_gftids l = l\<lparr>gftids_to_instances := fold (\<lambda>r. map_put (gftid (heap l r)) r) (filter_instances l) []\<rparr>"

definition execute1 :: "filter_table \<Rightarrow> (string \<Rightarrow> bool) \<Rightarrow> string \<Rightarrow> DCLayout \<Rightarrow> DCLayout result option" where
  "execute1 get_filter resembles localhost l =
     (if \<not> remotes_in_layout l then Some (Inl Exit_failure)
      else case expand_transparents (apply_all_params l) of
          Inl e \<Rightarrow> Some (Inl e)
        | Inr l1 \<Rightarrow> (case expand_composites get_filter l1 of
              None \<Rightarrow> None
            | Some r \<Rightarrow> Some (bind_result r (\<lambda>l2. bind_result (expand_transparents l2) (\<lambda>l3.
                bind_result (do_placement resembles localhost l3) (\<lambda>l4. Inr (index_gftids l4)))))))"

text \<open>
  What the phases keep of an instance: before its copies are made it has as many hosts as copies; afterwards, as
  one that is there once, it has a host and a list of labels at most.
\<close>

definition fits :: "DCFilterInstance \<Rightarrow> bool" where
  "fits fi \<longleftrightarrow> nice_ports fi \<and> resolved_inports fi = [] \<and> resolved_outports fi = [] \<and> console_name \<notin> set (bind_hosts fi)
     \<and> (if transparent_copies_expanded fi then length (bind_hosts fi) \<le> 1 \<and> length (layout_labels fi) \<le> 1
        else num_copies fi = int (max 1 (length (bind_hosts fi))) \<and> (num_copies fi = 1 \<longrightarrow> length (layout_labels fi) \<le> 1))"

text \<open>The rest of the state, which the expansions do not touch.\<close>

definition same_hosts :: "DCLayout \<Rightarrow> DCLayout \<Rightarrow> bool" where
  "same_hosts l l' \<longleftrightarrow> exec_host_pool l' = exec_host_pool l \<and> run_hosts l' = run_hosts l \<and> host_dcmpirank l' = host_dcmpirank l"

definition ready :: "filter_table \<Rightarrow> DCLayout \<Rightarrow> bool" where
  "ready get_filter l \<longleftrightarrow> sound get_filter l \<and> (\<forall>r \<in> set (filter_instances l). fits (heap l r))"

text \<open>Copies are of the filters that were there.\<close>

definition kinds_from :: "DCLayout \<Rightarrow> DCLayout \<Rightarrow> bool" where
  "kinds_from l l' \<longleftrightarrow> (\<forall>x \<in> set (filter_instances l'). \<exists>y \<in> set (filter_instances l).
     filtername (heap l' x) = filtername (heap l y) \<and> composite_cluster_binding (heap l' x) = composite_cluster_binding (heap l y))"

lemma fits_expanded:
  "fits fi \<Longrightarrow> \<not> expandable fi \<Longrightarrow> length (bind_hosts fi) \<le> 1 \<and> length (layout_labels fi) \<le> 1"
  by (auto simp: fits_def expandable_def split: if_splits)

lemma nice_ports_expand: "nice_ports fi \<Longrightarrow> nice_ports (expand_outports r cs fi)"
  unfolding nice_ports_iff ports_expand
  by (auto simp: expand_outports_def map_wf_def case_prod_beta comp_def) (metis Instance_Port.sel(2))

lemma fits_noports:
  assumes "noports x = noports y" and "nice_ports x" and "fits y"
  shows "fits x"
proof -
  have s: "resolved_inports (noports z) = resolved_inports z" "resolved_outports (noports z) = resolved_outports z"
    "bind_hosts (noports z) = bind_hosts z" "transparent_copies_expanded (noports z) = transparent_copies_expanded z"
    "layout_labels (noports z) = layout_labels z" "num_copies (noports z) = num_copies z" for z
    by (simp_all add: noports_def)
  have eqs: "resolved_inports x = resolved_inports y" "resolved_outports x = resolved_outports y" "bind_hosts x = bind_hosts y"
    "transparent_copies_expanded x = transparent_copies_expanded y" "layout_labels x = layout_labels y" "num_copies x = num_copies y"
    using assms(1) s by metis+
  show ?thesis using assms(2,3) unfolding fits_def eqs by blast
qed

lemma fits_nice: "fits fi \<Longrightarrow> nice_ports fi"
  by (simp add: fits_def)

lemma fits_expand_outports: "fits fi \<Longrightarrow> fits (expand_outports r cs fi)"
  by (rule fits_noports [OF noports_expand nice_ports_expand [OF fits_nice]])

lemma fits_self: "fits fi \<Longrightarrow> fits (expand_self fi)"
  by (cases "bind_hosts fi"; cases "layout_labels fi") (auto simp: fits_def expand_self_def nice_ports_def)

lemma expand_self_sel [simp]: "filtername (expand_self fi) = filtername fi" "filtername (expand_outports r cs fi) = filtername fi"
  "composite_cluster_binding (expand_self fi) = composite_cluster_binding fi"
  "composite_cluster_binding (expand_outports r cs fi) = composite_cluster_binding fi"
  by (simp_all add: expand_self_def expand_outports_def)

lemma make_copies_fit:
  "c \<in> set (make_copies fi n k hosts labels) \<Longrightarrow> fits fi \<Longrightarrow> transparent_copies_expanded fi \<Longrightarrow> console_name \<notin> set hosts \<Longrightarrow>
     fits c \<and> filtername c = filtername fi \<and> composite_cluster_binding c = composite_cluster_binding fi"
proof (induction fi n k hosts labels rule: make_copies.induct)
  case (2 fi n k hosts labels)
  define c0 where "c0 = fi\<lparr>copy_rank := int n, bind_hosts := (if hosts \<noteq> [] then [hd hosts] else bind_hosts fi),
    layout_labels := (if labels \<noteq> [] then [hd labels] else layout_labels fi)\<rparr>"
  have "console_name \<notin> set (tl hosts)" using 2(5) by (cases hosts) auto
  moreover have "fits c0" "filtername c0 = filtername fi" "composite_cluster_binding c0 = composite_cluster_binding fi"
    using 2(3-5) by (cases hosts; cases labels; simp add: c0_def fits_def nice_ports_def)+
  moreover have "c = c0 \<or> c \<in> set (make_copies fi (n + 1) k (tl hosts) (tl labels))" using 2(2) by (simp add: c0_def)
  ultimately show ?case using 2(1,3,4) by blast
qed simp

lemma new_copies_fit:
  assumes "fits fi" and "c \<in> set (new_copies fi)"
  shows "fits c \<and> filtername c = filtername fi \<and> composite_cluster_binding c = composite_cluster_binding fi"
proof -
  have "console_name \<notin> set (tl (bind_hosts fi))" using assms(1) by (cases "bind_hosts fi") (auto simp: fits_def)
  then show ?thesis
    using make_copies_fit [OF assms(2) [unfolded new_copies_def] fits_self [OF assms(1)]] by (auto simp: expand_self_def split: if_splits)
qed

lemma expand_at_ready:
  assumes l: "ready get_filter l" and u: "find_expandable l = Some u"
  obtains l' where "expand_at u l = Inr l'" "ready get_filter l'" "same_hosts l l'" "kinds_from l l'"
proof -
  define r where "r = filter_instances l ! u"
  have r: "r \<in> set (filter_instances l)" "expandable (heap l r)" using find_expandable_Some [OF u] by (simp_all add: r_def)
  have wf: "layout_wf l" and fit: "\<And>x. x \<in> set (filter_instances l) \<Longrightarrow> fits (heap l x)"
    and known: "\<And>x. x \<in> set (filter_instances l) \<Longrightarrow> get_filter (filtername (heap l x)) \<noteq> None"
    using l by (auto simp: ready_def sound_def)
  have "num_copies (heap l r) = int (max 1 (length (bind_hosts (heap l r))))"
    using fit [OF r(1)] r(2) by (simp add: fits_def expandable_def)
  then have "\<not> (1 < length (bind_hosts (heap l r)) \<and> int (length (bind_hosts (heap l r))) \<noteq> num_copies (heap l r))" by linarith
  then have "\<exists>l'. expand_at u l = Inr l' \<and> same_hosts l l'"
    unfolding r_def by (simp add: expand_at_def Let_def same_hosts_def)
  then obtain l' where l': "expand_at u l = Inr l'" "same_hosts l l'" by blast
  define cs where "cs = new_copies (heap l r)"
  define refs where "refs = [next_inst l..<next_inst l + length cs]"
  note e = expand_atD [OF l'(1), folded r_def, folded cs_def, folded refs_def]
  note st = step_links [OF r_def [symmetric] groups_start [OF wf] l'(1) refl, folded cs_def, folded refs_def]
  have old: "x \<notin> set refs" "heap l' x = expand_outports r refs (if x = r then expand_self (heap l r) else heap l x)"
    if "x \<in> set (filter_instances l)" for x
    using that st(4) unfolding e(1) by auto
  have new: "heap l' x = cs ! (x - next_inst l)" "cs ! (x - next_inst l) \<in> set cs" if "x \<in> set refs" for x
  proof -
    show "heap l' x = cs ! (x - next_inst l)" using that st(4) unfolding e(1) by auto
    show "cs ! (x - next_inst l) \<in> set cs" using that unfolding refs_def by (intro nth_mem) auto
  qed
  have "fits (heap l' x) \<and> get_filter (filtername (heap l' x)) \<noteq> None" if x: "x \<in> set (filter_instances l')" for x
  proof (cases "x \<in> set (filter_instances l)")
    case True
    then show ?thesis using fit [OF True] fit [OF r(1)] known [OF True] known [OF r(1)]
      by (simp add: old(2) fits_expand_outports fits_self)
  next
    case False
    then have "x \<in> set refs" using x unfolding st(3) by blast
    with new [OF this] new_copies_fit [OF fit [OF r(1)], of "heap l' x"] known [OF r(1)] show ?thesis by (simp add: cs_def)
  qed
  moreover have "layout_wf l'"
    unfolding layout_wf_def
  proof (intro conjI ballI allI)
    have "mset (filter_instances l') = mset refs + mset (filter_instances l)" unfolding e(2) by (rule mset_insert_copies)
    then have "mset (filter_instances l') = mset (refs @ filter_instances l)" by simp
    moreover have "distinct (refs @ filter_instances l)" using st(4) wf by (simp add: refs_def layout_wf_def)
    ultimately show "distinct (filter_instances l')" by (metis mset_eq_imp_distinct_iff)
    show "x < next_inst l'" if "x \<in> set (filter_instances l')" for x
      using that wf unfolding st(3) e(3) by (auto simp: refs_def layout_wf_def)
    fix x p ip assume x: "x \<in> set (filter_instances l')" and ip: "ip \<in> links l' x p"
    have in': "ip_instance ip \<in> set (filter_instances l)" if "ip \<in> links l y p" "y \<in> set (filter_instances l)" for y ip
      using wf that unfolding layout_wf_def by blast
    show "ip_instance ip \<in> set (filter_instances l')"
    proof (cases "x \<in> set (filter_instances l)")
      case True
      then show ?thesis using ip in' unfolding st(1) [OF True] st(3) by auto
    next
      case False
      then have "x \<in> set refs" using x unfolding st(3) by blast
      then show ?thesis using ip in' r(1) unfolding st(2) [OF \<open>x \<in> set refs\<close>] st(3) by blast
    qed
  qed
  ultimately have "ready get_filter l'" unfolding ready_def sound_def using fits_nice by blast
  moreover have "kinds_from l l'"
    unfolding kinds_from_def
  proof
    fix x assume x: "x \<in> set (filter_instances l')"
    show "\<exists>y \<in> set (filter_instances l). filtername (heap l' x) = filtername (heap l y)
        \<and> composite_cluster_binding (heap l' x) = composite_cluster_binding (heap l y)"
    proof (cases "x \<in> set (filter_instances l)")
      case True
      then show ?thesis by (intro bexI [of _ x]) (simp_all add: old(2))
    next
      case False
      then have "x \<in> set refs" using x unfolding st(3) by blast
      with new [OF this] new_copies_fit [OF fit [OF r(1)], of "heap l' x"] r(1) show ?thesis
        by (intro bexI [of _ r]) (simp_all add: cs_def)
    qed
  qed
  ultimately show thesis using l' that by blast
qed

lemma expand_transparents_ready:
  "ready get_filter l \<Longrightarrow> \<exists>l'. expand_transparents l = Inr l' \<and> ready get_filter l' \<and> same_hosts l l' \<and> kinds_from l l'
     \<and> (\<forall>r \<in> set (filter_instances l'). \<not> expandable (heap l' r))"
proof (induction l rule: expand_transparents.induct)
  case (1 l)
  show ?case
  proof (cases "find_expandable l")
    case None
    then have "expand_transparents l = Inr l" by (simp add: expand_transparents.simps [of l])
    moreover have "kinds_from l l" "same_hosts l l" by (auto simp: kinds_from_def same_hosts_def)
    ultimately show ?thesis using 1(2) None unfolding find_expandable_None by blast
  next
    case (Some u)
    obtain l1 where l1: "expand_at u l = Inr l1" "ready get_filter l1" "same_hosts l l1" "kinds_from l l1" using expand_at_ready [OF 1(2) Some] .
    have "expand_transparents l = expand_transparents l1" using Some l1(1) by (simp add: expand_transparents.simps [of l])
    moreover obtain l2 where l2: "expand_transparents l1 = Inr l2" "ready get_filter l2" "same_hosts l1 l2" "kinds_from l1 l2"
      "\<forall>r \<in> set (filter_instances l2). \<not> expandable (heap l2 r)" using 1(1) [OF Some l1(1,2)] by blast
    moreover have "same_hosts l l2" using l1(3) l2(3) by (simp add: same_hosts_def)
    moreover have "kinds_from l l2" using l1(4) l2(4) unfolding kinds_from_def by metis
    ultimately show ?thesis by metis
  qed
qed

lemma expand_transparents_plain:
  assumes "ready get_filter l" and "\<forall>r \<in> set (filter_instances l). \<not> composite get_filter (heap l r)"
  shows "\<exists>l'. expand_transparents l = Inr l' \<and> ready get_filter l' \<and> same_hosts l l'
     \<and> (\<forall>r \<in> set (filter_instances l'). \<not> expandable (heap l' r) \<and> \<not> composite get_filter (heap l' r))"
proof -
  obtain l' where l': "expand_transparents l = Inr l'" "ready get_filter l'" "same_hosts l l'" "kinds_from l l'"
    "\<forall>r \<in> set (filter_instances l'). \<not> expandable (heap l' r)" using expand_transparents_ready [OF assms(1)] by blast
  have "\<not> composite get_filter (heap l' r)" if "r \<in> set (filter_instances l')" for r
    using that l'(4) assms(2) unfolding kinds_from_def composite_def by metis
  with l' show ?thesis by blast
qed

text \<open>What composites are made of has to fit as well; a composite inside another one is there once.\<close>

definition members_fit :: "filter_table \<Rightarrow> bool" where
  "members_fit get_filter \<longleftrightarrow> (\<forall>name f hosts new_layout n fi. get_filter name = Some f \<longrightarrow> f hosts = Some new_layout \<longrightarrow> fi \<in> set (new_layout n) \<longrightarrow>
     fits fi \<and> \<not> transparent_copies_expanded fi \<and> (composite get_filter fi \<longrightarrow> length (bind_hosts fi) \<le> 1))"

definition single :: "filter_table \<Rightarrow> DCFilterInstance \<Rightarrow> bool" where
  "single get_filter fi \<longleftrightarrow> fits fi \<and> (composite get_filter fi \<longrightarrow> length (bind_hosts fi) \<le> 1)"

lemma single_noports:
  assumes "noports x = noports y" and "nice_ports x" and "single get_filter y"
  shows "single get_filter x"
proof -
  have "bind_hosts (noports z) = bind_hosts z" for z by (simp add: noports_def)
  then have "bind_hosts x = bind_hosts y" using assms(1) by metis
  then show ?thesis using fits_noports [OF assms(1,2)] noports_eqD(5) [OF assms(1)] assms(3) by (simp add: single_def)
qed

lemma single_inherit:
  assumes "fits e" and "length (bind_hosts e) \<le> 1" and "single get_filter fi" and "\<not> transparent_copies_expanded fi"
  shows "single get_filter (inherit e fi)"
proof -
  have "composite get_filter (inherit e fi) = composite get_filter fi" by (simp add: composite_def)
  moreover have "fits (inherit e fi)"
    using assms by (auto simp: single_def fits_def inherit_def nice_ports_def max_def)
  ultimately show ?thesis using assms(2,3) by (auto simp: single_def inherit_def)
qed

lemma expand_composites_ready:
  assumes "proper_filters get_filter rank" and "members_fit get_filter"
    and "ready get_filter l" and "\<forall>r \<in> set (filter_instances l). \<not> expandable (heap l r)"
  shows "\<exists>l'. expand_composites get_filter l = Some (Inr l') \<and> ready get_filter l' \<and> same_hosts l l'
    \<and> (\<forall>r \<in> set (filter_instances l'). \<not> composite get_filter (heap l' r))"
proof -
  let ?P = "\<lambda>l'. same_hosts l l' \<and> (\<forall>r \<in> set (filter_instances l'). single get_filter (heap l' r))"
  have "sound get_filter l" using assms(3) by (simp add: ready_def)
  moreover have "?P l"
    using assms(3,4) fits_expanded unfolding ready_def single_def same_hosts_def by blast
  ultimately have "\<exists>l'. expand_composites get_filter l = Some (Inr l') \<and> sound get_filter l' \<and> ?P l'
      \<and> (\<forall>r \<in> set (filter_instances l'). \<not> composite get_filter (heap l' r))"
  proof (rule expand_composites_loop [where P = ?P, OF assms(1), rotated])
    fix l1 r f new_layout inb outb l2
    assume P: "?P l1" and r: "r \<in> set (filter_instances l1)" and f: "get_filter (filtername (heap l1 r)) = Some f"
      "f (composite_cluster_binding (heap l1 r)) = Some new_layout" and e: "expanded_into r (new_layout (next_inst l1)) inb outb l1 l2"
    define new where "new = new_layout (next_inst l1)"
    note d = expanded_intoD [OF e, folded new_def]
    have hosts: "same_hosts l1 l2" using e by (simp add: expanded_into_def Let_def same_hosts_def)
    have er: "fits (heap l1 r)" "length (bind_hosts (heap l1 r)) \<le> 1"
      using P r f by (auto simp: single_def composite_def)
    have "single get_filter (heap l2 x)" if x: "x \<in> set (filter_instances l2)" for x
    proof (cases "x \<in> set (filter_instances l1)")
      case True
      then show ?thesis using d(7) [OF True] P single_noports by blast
    next
      case False
      then have b: "next_inst l1 \<le> x" "x < next_inst l1 + length new" using x unfolding d(6) by (auto dest: notin_set_remove1)
      then have "new ! (x - next_inst l1) \<in> set new" by (intro nth_mem) linarith
      then have "single get_filter (new ! (x - next_inst l1))" "\<not> transparent_copies_expanded (new ! (x - next_inst l1))"
        using assms(2) f unfolding members_fit_def single_def new_def by blast+
      then show ?thesis using d(8) [OF b] single_inherit [OF er] single_noports by blast
    qed
    with P hosts show "?P l2" by (simp add: same_hosts_def)
  qed
  then show ?thesis unfolding ready_def single_def by blast
qed

text \<open>Setting the parameters for all changes nothing but parameters.\<close>

definition params_only :: "DCLayout \<Rightarrow> DCLayout \<Rightarrow> bool" where
  "params_only l l' \<longleftrightarrow> filter_instances l' = filter_instances l \<and> next_inst l' = next_inst l \<and> same_hosts l l'
     \<and> (\<forall>r. heap l' r = (heap l r)\<lparr>user_params := user_params (heap l' r)\<rparr>)"

lemma params_only_refl: "params_only l l"
  by (simp add: params_only_def same_hosts_def)

lemma params_only_trans:
  assumes "params_only l1 l2" and "params_only l2 l3"
  shows "params_only l1 l3"
proof -
  have "heap l3 r = (heap l1 r)\<lparr>user_params := user_params (heap l3 r)\<rparr>" for r
  proof -
    have "heap l3 r = (heap l1 r)\<lparr>user_params := user_params (heap l2 r)\<rparr>\<lparr>user_params := user_params (heap l3 r)\<rparr>"
      using assms unfolding params_only_def by metis
    then show ?thesis by simp
  qed
  then show ?thesis using assms by (simp add: params_only_def same_hosts_def)
qed

lemma params_only_set_param: "params_only l (upd x (set_param k v) l)"
  by (simp add: params_only_def same_hosts_def upd_def set_param_def)

lemma params_only_fold: "(\<And>x l. params_only l (f x l)) \<Longrightarrow> params_only l (fold f xs l)"
  by (induction xs arbitrary: l) (auto intro: params_only_refl params_only_trans)

lemma params_only_all: "params_only l (apply_all_params l)"
  unfolding apply_all_params_def case_prod_beta by (intro params_only_fold params_only_set_param)

text \<open>
  A composite inside another one that is bound to several hosts is not copied, since the copies are made before and
  after, not between the expansions: its members get all its hosts, and placing them fails an assertion.
\<close>

lemma nested_copies_assert:
  assumes "1 < length (bind_hosts e)" and "hd (bind_hosts e) \<noteq> []" and "bind_hosts fi = []" and "num_copies fi = 1"
  shows "\<not> expandable (inherit e fi)" and "pick_host (inherit e fi) s = Inl Assert_failure"
  using assms by (auto simp: inherit_def expandable_def pick_host_def is_bound_def)

text \<open>What the check of the ports gives for a layout that is well typed.\<close>

definition userland_ok :: "filter_table \<Rightarrow> DCLayout \<Rightarrow> bool" where
  "userland_ok get_filter l \<longleftrightarrow> (\<forall>r \<in> set (filter_instances l). get_filter (filtername (heap l r)) \<noteq> None
     \<and> console_name \<notin> set (bind_hosts (heap l r)) \<and> (num_copies (heap l r) = 1 \<longrightarrow> length (layout_labels (heap l r)) \<le> 1))"

lemma remotes_in_layoutD:
  assumes "remotes_in_layout l" and "r \<in> set (filter_instances l)" and "ip \<in> links l r p"
  shows "ip_instance ip \<in> set (filter_instances l)"
proof -
  obtain mp where "(p, mp) \<in> set (outports (heap l r))" "ip \<in> set mp"
    using assms(3) by (cases "map_of (outports (heap l r)) p") (auto simp: links_def ports_of_def map_get_def_def dest: map_of_SomeD)
  then show ?thesis using assms(1,2) by (fastforce simp: remotes_in_layout_def list_all_iff)
qed

lemma typed_ready:
  assumes t: "typed_layout l" and m: "remotes_in_layout l" and u: "userland_ok get_filter l" and k: "params_only l l'"
  shows "ready get_filter l'"
proof -
  have fis: "filter_instances l' = filter_instances l" "next_inst l' = next_inst l" using k by (simp_all add: params_only_def)
  have h: "heap l' r = (heap l r)\<lparr>user_params := user_params (heap l' r)\<rparr>" for r using k by (simp add: params_only_def)
  have same: "f (heap l' r) = f (heap l r)" if "\<And>x y. f (x\<lparr>user_params := y\<rparr>) = f x" for f :: "DCFilterInstance \<Rightarrow> 'z" and r
    using that h by metis
  have links: "links l' = links l" by (simp add: links_def fun_eq_iff ports_of_def same)
  have ti: "typed_instance (heap l r)" "r < next_inst l" if "r \<in> set (filter_instances l)" for r
    using t that by (simp_all add: typed_layout_def)
  have "layout_wf l'"
    unfolding layout_wf_def fis links using t remotes_in_layoutD [OF m] ti(2) by (auto simp: typed_layout_def distinct_map)
  moreover have "fits (heap l' r)" if r: "r \<in> set (filter_instances l)" for r
  proof -
    have "nice_ports (heap l r)"
      using ti(1) [OF r] unfolding nice_ports_iff typed_instance_def port_named_def by blast
    moreover have "nice_ports (heap l' r) = nice_ports (heap l r)" by (rule same) (simp add: nice_ports_def)
    ultimately show ?thesis using ti(1) [OF r] u r
      by (simp add: fits_def same typed_instance_def userland_ok_def)
  qed
  moreover have "get_filter (filtername (heap l' r)) \<noteq> None" if "r \<in> set (filter_instances l)" for r
    using u that by (simp add: userland_ok_def same)
  ultimately show ?thesis using fits_nice unfolding ready_def sound_def fis by blast
qed

lemma ready_placement:
  assumes "ready get_filter l" and "\<forall>r \<in> set (filter_instances l). \<not> expandable (heap l r)"
    and "exec_host_pool l \<noteq> []" and "console_name \<notin> set (exec_host_pool l)" and "run_hosts l = []" and "host_dcmpirank l = []"
    and "res lh" and "lh \<noteq> console_name"
  shows "placement_ready res lh l"
proof -
  have "placeable (exec_host_pool l) (heap l r) \<and> (is_bound (heap l r) \<longrightarrow> hd (bind_hosts (heap l r)) \<noteq> console_name)"
    if r: "r \<in> set (filter_instances l)" for r
  proof -
    have f: "fits (heap l r)" using assms(1) r by (simp add: ready_def)
    have "length (bind_hosts (heap l r)) \<le> 1" "length (layout_labels (heap l r)) \<le> 1" "console_name \<notin> set (bind_hosts (heap l r))"
      using fits_expanded [OF f] assms(2) r f by (auto simp: fits_def)
    then show ?thesis using assms(3) by (cases "bind_hosts (heap l r)") (auto simp: placeable_def is_bound_def)
  qed
  then show ?thesis using assms unfolding placement_ready_def ready_def sound_def layout_wf_def by auto
qed

lemma index_gftids_ok:
  assumes "distinct rs" and "\<forall>i < length rs. gftid (h (rs ! i)) = int i" and "i < length rs"
  shows "map_of (fold (\<lambda>r. map_put (gftid (h r)) r) rs []) (int i) = Some (rs ! i)"
proof -
  have "map_wf (fold (\<lambda>r. map_put (gftid (h r)) r) (take n rs) [])
     \<and> (\<forall>i < n. map_of (fold (\<lambda>r. map_put (gftid (h r)) r) (take n rs) []) (int i) = Some (rs ! i))" if "n \<le> length rs" for n
    using that
  proof (induction n)
    case (Suc n)
    have "take (Suc n) rs = take n rs @ [rs ! n]" using Suc.prems by (simp add: take_Suc_conv_app_nth)
    then show ?case using Suc assms(2) by (auto simp: map_of_put less_Suc_eq)
  qed simp
  from this [of "length rs"] assms(3) show ?thesis by simp
qed

text \<open>What placement leaves as it was.\<close>

lemma do_placement_next: "do_placement res lh l = Inr l' \<Longrightarrow> next_inst l' = next_inst l"
  by (auto simp: do_placement_def Let_def result_simps split: if_splits)

lemma placed_same:
  assumes "placement_ready res lh l"
  obtains l' where "do_placement res lh l = Inr l'" "filter_instances l' = filter_instances l"
    "\<forall>i < length (filter_instances l). gftid (heap l' (filter_instances l ! i)) = int i"
    "\<forall>r \<in> set (filter_instances l). dcmpi_host (heap l' r) \<in> set (run_hosts l')
      \<and> outports (heap l' r) = outports (heap l r) \<and> filtername (heap l' r) = filtername (heap l r)
      \<and> composite_cluster_binding (heap l' r) = composite_cluster_binding (heap l r) \<and> expandable (heap l' r) = expandable (heap l r)"
proof -
  define fis where "fis = filter_instances l"
  define ps where "ps = placements res lh (exec_host_pool l) 0 0 (\<lambda>_ _. 0) (map (heap l) fis)"
  have "\<exists>l' h2. do_placement res lh l = Inr l' \<and> filter_instances l' = fis \<and> heap l' = fold resolve_instance fis h2
    \<and> (\<forall>i<length fis. h2 (fis ! i) = (ps ! i)\<lparr>local_num_copies := int (length (filter (same_place (ps ! i)) ps)),
        dcmpi_rank := map_get_def (dcmpi_host (ps ! i)) 0 (host_dcmpirank l')\<rparr>)
    \<and> set (run_hosts l') = {console_name, lh} \<union> dcmpi_host ` set ps"
    by (rule do_placement_ok [OF assms, folded fis_def, folded ps_def]) (intro exI conjI)
  then obtain l' h2 where l': "do_placement res lh l = Inr l'" "filter_instances l' = fis" "heap l' = fold resolve_instance fis h2"
    "\<forall>i<length fis. h2 (fis ! i) = (ps ! i)\<lparr>local_num_copies := int (length (filter (same_place (ps ! i)) ps)),
        dcmpi_rank := map_get_def (dcmpi_host (ps ! i)) 0 (host_dcmpirank l')\<rparr>"
    "set (run_hosts l') = {console_name, lh} \<union> dcmpi_host ` set ps" by blast
  have s: "filtername (unresolved z) = filtername z" "composite_cluster_binding (unresolved z) = composite_cluster_binding z"
    "expandable (unresolved z) = expandable z" for z by (simp_all add: unresolved_def expandable_def)
  have f: "gftid (heap l' (fis ! i)) = int i \<and> dcmpi_host (heap l' (fis ! i)) \<in> set (run_hosts l')
      \<and> outports (heap l' (fis ! i)) = outports (heap l (fis ! i)) \<and> filtername (heap l' (fis ! i)) = filtername (heap l (fis ! i))
      \<and> composite_cluster_binding (heap l' (fis ! i)) = composite_cluster_binding (heap l (fis ! i))
      \<and> expandable (heap l' (fis ! i)) = expandable (heap l (fis ! i))" if i: "i < length fis" for i
  proof -
    let ?y = "heap l' (fis ! i)"
    have i': "i < length (map (heap l) fis)" "i < length ps" using i by (simp_all add: ps_def)
    have u: "unresolved ?y = unresolved ((ps ! i)\<lparr>local_num_copies := int (length (filter (same_place (ps ! i)) ps)),
        dcmpi_rank := map_get_def (dcmpi_host (ps ! i)) 0 (host_dcmpirank l')\<rparr>)"
      using l'(3,4) i by simp
    have p: "gftid (ps ! i) = int i" "outports (ps ! i) = outports (heap l (fis ! i))" "filtername (ps ! i) = filtername (heap l (fis ! i))"
      "composite_cluster_binding (ps ! i) = composite_cluster_binding (heap l (fis ! i))" "expandable (ps ! i) = expandable (heap l (fis ! i))"
      unfolding placements_nth [OF i'(1) ps_def refl refl] using i by (simp_all add: expandable_def)
    have "gftid ?y = gftid (ps ! i)" "dcmpi_host ?y = dcmpi_host (ps ! i)" "outports ?y = outports (ps ! i)" "filtername ?y = filtername (ps ! i)"
      "composite_cluster_binding ?y = composite_cluster_binding (ps ! i)" "expandable ?y = expandable (ps ! i)"
      using arg_cong [OF u, of gftid] arg_cong [OF u, of dcmpi_host] arg_cong [OF u, of outports] arg_cong [OF u, of filtername]
        arg_cong [OF u, of composite_cluster_binding] arg_cong [OF u, of expandable]
      by (simp_all add: unresolved_sel s) (simp add: expandable_def)
    then show ?thesis using p l'(5) nth_mem [OF i'(2)] by simp
  qed
  show thesis
  proof (rule that [OF l'(1)])
    show "filter_instances l' = filter_instances l" using l'(2) by (simp add: fis_def)
    show "\<forall>i < length (filter_instances l). gftid (heap l' (filter_instances l ! i)) = int i" using f unfolding fis_def by blast
    show "\<forall>r \<in> set (filter_instances l). dcmpi_host (heap l' r) \<in> set (run_hosts l')
      \<and> outports (heap l' r) = outports (heap l r) \<and> filtername (heap l' r) = filtername (heap l r)
      \<and> composite_cluster_binding (heap l' r) = composite_cluster_binding (heap l r) \<and> expandable (heap l' r) = expandable (heap l r)"
      using f unfolding fis_def [symmetric] by (metis in_set_conv_nth)
  qed
qed

text \<open>An example: a source, a composite \<open>C\<close> and a sink, on one host.\<close>

definition program_base :: DCLayout where
  "program_base = set_exec_host_pool ''h'' (new_instance ''Snk'' ''t'' (new_instance ''C'' ''c'' (new_instance ''Src'' ''s'' (DCLayout_new Map.empty))))"

definition program :: DCLayout where
  "program = upd 1 (fi_add_port ''o'' 2 ''i'') (upd 0 (fi_add_port ''o'' 1 ''i'') (program_base\<lparr>filter_instances := [0, 1, 2]\<rparr>))"

lemma common_init_empty: "common_init Map.empty l = l"
  unfolding common_init_def add_propagated_environment_variable_def fold_simps by simp

lemma program_base_sel:
  "heap program_base 0 = DCFilterInstance_new ''Src'' ''s''" "heap program_base (Suc 0) = DCFilterInstance_new ''C'' ''c''"
  "heap program_base 2 = DCFilterInstance_new ''Snk'' ''t''" "next_inst program_base = 3" "filter_instances program_base = []"
  "exec_host_pool program_base = [''h'']"
proof -
  have new: "heap (new_instance f i l) x = (if x = next_inst l then DCFilterInstance_new f i else heap l x)"
    "next_inst (new_instance f i l) = next_inst l + 1" "filter_instances (new_instance f i l) = filter_instances l" for f i l x
    by (simp_all add: new_instance_def)
  have pool: "heap (set_exec_host_pool h l) = heap l" "next_inst (set_exec_host_pool h l) = next_inst l"
    "filter_instances (set_exec_host_pool h l) = filter_instances l" "exec_host_pool (set_exec_host_pool h l) = [h]" for h l
    by (simp_all add: set_exec_host_pool_def)
  have start: "next_inst (DCLayout_new Map.empty) = 0" "filter_instances (DCLayout_new Map.empty) = []"
    unfolding DCLayout_new_def common_init_empty by simp_all
  show "heap program_base 0 = DCFilterInstance_new ''Src'' ''s''" "heap program_base (Suc 0) = DCFilterInstance_new ''C'' ''c''"
    "heap program_base 2 = DCFilterInstance_new ''Snk'' ''t''" "next_inst program_base = 3" "filter_instances program_base = []"
    "exec_host_pool program_base = [''h'']"
    unfolding program_base_def by (simp_all add: new pool start)
qed

lemma built_program: "built program"
proof -
  let ?b0 = program_base
  let ?b1 = "?b0\<lparr>filter_instances := [0]\<rparr>" and ?b2 = "?b0\<lparr>filter_instances := [0, 1]\<rparr>" and ?b3 = "?b0\<lparr>filter_instances := [0, 1, 2]\<rparr>"
  have b0: "built ?b0" unfolding program_base_def by (rule built.pool_of_one built.made built.started)+
  have "layout_add 0 ?b0 = Inr ?b1" by (simp add: layout_add_def program_base_sel)
  then have b1: "built ?b1" by (rule built.added [OF b0, rotated]) (simp_all add: program_base_sel)
  have "layout_add 1 ?b1 = Inr ?b2"
    by (simp add: layout_add_def name_of_def program_base_sel get_distinguished_name_def DCFilterInstance_new_def)
  then have b2: "built ?b2" by (rule built.added [OF b1, rotated]) (simp_all add: program_base_sel)
  have "layout_add 2 ?b2 = Inr ?b3"
    by (simp add: layout_add_def name_of_def program_base_sel get_distinguished_name_def DCFilterInstance_new_def)
  then have b3: "built ?b3" by (rule built.added [OF b2, rotated]) (simp_all add: program_base_sel)
  have b4: "built (upd 0 (fi_add_port ''o'' 1 ''i'') ?b3)"
    by (rule built.connected [OF b3, of 0 1 "''o''" "''i''"]) (simp_all add: program_base_sel layout_add_port_def)
  show ?thesis
    unfolding program_def
    by (rule built.connected [OF b4, of 1 2 "''o''" "''i''"]) (simp_all add: program_base_sel layout_add_port_def upd_def)
qed

lemma program_sel:
  "heap program 0 = (DCFilterInstance_new ''Src'' ''s'')\<lparr>outports := [(''o'', [Instance_Port 1 ''i''])]\<rparr>"
  "heap program (Suc 0) = (DCFilterInstance_new ''C'' ''c'')\<lparr>outports := [(''o'', [Instance_Port 2 ''i''])]\<rparr>"
  "heap program 2 = DCFilterInstance_new ''Snk'' ''t''" "filter_instances program = [0, 1, 2]" "exec_host_pool program = [''h'']"
  by (simp_all add: program_def upd_def program_base_sel fi_add_port_def DCFilterInstance_new_def MultiPort_new_def MultiPort_add_remote_def)

lemma program_checked: "remotes_in_layout program"
  by (simp add: remotes_in_layout_def program_sel DCFilterInstance_new_def)

section \<open>Properties\<close>

text \<open>
  C26. Every layout that a program has built is well typed: its instances have different names, are asked for as
  many copies as they have hosts, have parameters in order, and have ports whose names are not empty and fit into
  the header of a packet, to instances that exist; and if the check of the ports passes, the layout is well
  formed as the expansions and the placement require.
\<close>

theorem built_typed:
  assumes "built l"
  shows "typed_layout l \<and> (remotes_in_layout l \<longrightarrow> layout_wf l)"
proof -
  have t: "typed_layout l" by (rule built_is_typed [OF assms])
  have "layout_wf l" if "remotes_in_layout l"
    using t remotes_in_layoutD [OF that] by (auto simp: layout_wf_def typed_layout_def distinct_map)
  with t show ?thesis by blast
qed

theorem built_typed_witness:
  "typed_layout program \<and> layout_wf program"
  using built_typed [OF built_program] program_checked by blast

text \<open>
  C6. The first phase of the execution of a layout that a program has built succeeds: if the ports stay within the
  layout, the filters are known, no composite contains itself or is copied inside another, and there are
  hosts, the expansions end, none of their assertions fails, and every instance that is left is a plain filter that is there
  once, with a host of the run, connected within the layout, and is found under its gftid.
\<close>

theorem execute1_runs:
  assumes "built l" and "remotes_in_layout l" and "userland_ok get_filter l"
    and "proper_filters get_filter rank" and "members_fit get_filter"
    and "exec_host_pool l \<noteq> []" and "console_name \<notin> set (exec_host_pool l)" and "res lh" and "lh \<noteq> console_name"
  shows "\<exists>l'. execute1 get_filter res lh l = Some (Inr l') \<and> layout_wf l'
    \<and> (\<forall>r \<in> set (filter_instances l'). \<not> composite get_filter (heap l' r) \<and> \<not> expandable (heap l' r)
         \<and> dcmpi_host (heap l' r) \<in> set (run_hosts l'))
    \<and> (\<forall>i < length (filter_instances l'). gftid (heap l' (filter_instances l' ! i)) = int i
         \<and> map_of (gftids_to_instances l') (int i) = Some (filter_instances l' ! i))"
proof -
  have t: "typed_layout l" by (rule built_is_typed [OF assms(1)])
  have "ready get_filter (apply_all_params l)" by (rule typed_ready [OF t assms(2,3) params_only_all])
  from expand_transparents_ready [OF this] obtain l1 where l1: "expand_transparents (apply_all_params l) = Inr l1" "ready get_filter l1"
    "same_hosts (apply_all_params l) l1" "\<forall>r \<in> set (filter_instances l1). \<not> expandable (heap l1 r)" by blast
  from expand_composites_ready [OF assms(4,5) l1(2,4)] obtain l2 where l2: "expand_composites get_filter l1 = Some (Inr l2)"
    "ready get_filter l2" "same_hosts l1 l2" "\<forall>r \<in> set (filter_instances l2). \<not> composite get_filter (heap l2 r)" by blast
  from expand_transparents_plain [OF l2(2,4)] obtain l3 where l3: "expand_transparents l2 = Inr l3" "ready get_filter l3"
    "same_hosts l2 l3" "\<forall>r \<in> set (filter_instances l3). \<not> expandable (heap l3 r) \<and> \<not> composite get_filter (heap l3 r)" by blast
  have "same_hosts l (apply_all_params l)" using params_only_all by (simp add: params_only_def)
  then have hosts: "exec_host_pool l3 = exec_host_pool l" "run_hosts l3 = []" "host_dcmpirank l3 = []"
    using l1(3) l2(3) l3(3) t by (simp_all add: same_hosts_def typed_layout_def)
  have "placement_ready res lh l3"
    using l3(2,4) assms(6-9) hosts by (intro ready_placement) auto
  from placed_same [OF this] obtain l4 where l4: "do_placement res lh l3 = Inr l4" "filter_instances l4 = filter_instances l3"
    "\<forall>i < length (filter_instances l3). gftid (heap l4 (filter_instances l3 ! i)) = int i"
    "\<forall>r \<in> set (filter_instances l3). dcmpi_host (heap l4 r) \<in> set (run_hosts l4)
      \<and> outports (heap l4 r) = outports (heap l3 r) \<and> filtername (heap l4 r) = filtername (heap l3 r)
      \<and> composite_cluster_binding (heap l4 r) = composite_cluster_binding (heap l3 r) \<and> expandable (heap l4 r) = expandable (heap l3 r)" .
  have n4: "next_inst l4 = next_inst l3" by (rule do_placement_next [OF l4(1)])
  have "execute1 get_filter res lh l = Some (Inr (index_gftids l4))"
    using assms(2) l1(1) l2(1) l3(1) l4(1) by (simp add: execute1_def)
  moreover have wf: "layout_wf l3" using l3(2) by (simp add: ready_def sound_def)
  moreover have "layout_wf (index_gftids l4)"
    using wf l4(2,4) n4 by (simp add: layout_wf_def index_gftids_def links_def ports_of_def)
  moreover have "\<not> composite get_filter (heap l4 r) \<and> \<not> expandable (heap l4 r) \<and> dcmpi_host (heap l4 r) \<in> set (run_hosts l4)"
    if r: "r \<in> set (filter_instances l3)" for r
    using l3(4) l4(4) r by (simp add: composite_def)
  moreover have "map_of (gftids_to_instances (index_gftids l4)) (int i) = Some (filter_instances l3 ! i)" if i: "i < length (filter_instances l3)" for i
    using index_gftids_ok [OF _ l4(3) i] wf l4(2) by (simp add: index_gftids_def layout_wf_def)
  ultimately show ?thesis using l4(2,3) by (auto simp: index_gftids_def)
qed

theorem execute1_runs_witness:
  "\<exists>l'. execute1 pipe_filters (\<lambda>h. h = ''me'') ''me'' program = Some (Inr l')
     \<and> (\<forall>r \<in> set (filter_instances l'). \<not> composite pipe_filters (heap l' r))"
proof -
  have u: "userland_ok pipe_filters program"
    by (simp add: userland_ok_def program_sel DCFilterInstance_new_def pipe_filters_def)
  have m: "members_fit pipe_filters"
    unfolding members_fit_def
  proof (intro allI impI)
    fix name f hosts new_layout n fi
    assume f: "pipe_filters name = Some f" "f hosts = Some new_layout" and fi: "fi \<in> set (new_layout n)"
    then have name: "name = ''C''" by (auto simp: pipe_filters_def split: if_splits)
    have nl: "new_layout = (\<lambda>n.
        [(DCFilterInstance_new ''A'' ''a'')\<lparr>outports := [(''x'', [Instance_Port (n + 1) ''y''])], is_inbound_composite_designate := True\<rparr>,
         (DCFilterInstance_new ''B'' ''b'')\<lparr>is_outbound_composite_designate := True\<rparr>])"
      using f by (auto simp: pipe_filters_def name)
    show "fits fi \<and> \<not> transparent_copies_expanded fi \<and> (composite pipe_filters fi \<longrightarrow> length (bind_hosts fi) \<le> 1)"
      using fi by (auto simp: nl fits_def nice_ports_def DCFilterInstance_new_def map_wf_def)
  qed
  have e: "exec_host_pool program \<noteq> []" "console_name \<notin> set (exec_host_pool program)" "''me'' \<noteq> console_name"
    by (simp_all add: program_sel console_name_def)
  from execute1_runs [OF built_program program_checked u pipe_proper m e(1,2), of "\<lambda>h. h = ''me''" "''me''", OF refl e(3)]
  show ?thesis by (elim exE conjE) (intro exI conjI ballI, assumption, blast)
qed

end
