(* ===== verification/SocketLink.thy ===== *)
theory SocketLink
  imports Proxy Console RuntimeSends
begin

text \<open>
  The runtime without MPI (\<open>src/src/dcmpiruntime-socket.cpp\<close>): ranks are connected by sockets. A thread
  (\<open>outq_handler\<close>) writes the packets that go to other ranks, and the main loop reads those that come in. All
  ranks share one buffer for headers, \<open>hdr\<close> of \<open>dcmpi_socket_mainloop\<close>, whose first byte, the byte order of
  the sender, is used again when a body is read. A turn of the main loop
  as a whole, with the console, the proxy and the messages at the end, is in \<open>SocketEnd\<close>; linking the out-ports is
  the code of the MPI runtime once more and is modelled there (\<open>Runtime\<close>).
\<close>

section \<open>Sending\<close>

text \<open>The sockets to the other ranks; \<open>None\<close> is -1, a rank without a connection.\<close>

type_synonym rank_fds = "int \<rightharpoonup> out_fd"

definition on_fd :: "int \<Rightarrow> (out_fd \<Rightarrow> ('a, out_fd) io) \<Rightarrow> rank_fds \<Rightarrow> ('a, rank_fds) io" where
  "on_fd outrank m fds =
     (case fds outrank of
        None \<Rightarrow> fail Assert_failure
      | Some fd \<Rightarrow> (case m fd of
            None \<Rightarrow> None
          | Some (Inl e) \<Rightarrow> Some (Inl e)
          | Some (Inr (x, fd')) \<Rightarrow> ret x (fds(outrank \<mapsto> fd'))))"

text \<open>The last branch of \<open>dcmpisock_deliver_elsewhere\<close>. The memory of a body is given back at once.\<close>

definition write_packet :: "bool \<Rightarrow> DCMPIPacket \<Rightarrow> out_fd \<Rightarrow> (unit, out_fd) io" where
  "write_packet host p fd =
     bind_io (write_header host Assert_failure p fd) (\<lambda>_ fd1.
       case body p of
         None \<Rightarrow> ret () fd1
       | Some b \<Rightarrow>
           if sint (body_len p) < 0 then fail Undefined_behaviour
           else case block_read (mem b) 0 (nat (sint (body_len p))) of
               Inl e \<Rightarrow> fail e
             | Inr bytes \<Rightarrow> write_checked bytes fd1)"

definition socket_send :: "bool \<Rightarrow> int \<Rightarrow> DCMPIPacket \<Rightarrow> runtime \<Rightarrow> rank_fds \<Rightarrow> (runtime, rank_fds) io" where
  "socket_send host outrank p rt fds =
     (if outrank < 0 \<or> mpi_size rt \<le> outrank then fail Undefined_behaviour
      else bind_io (on_fd outrank (write_packet host p) fds) (\<lambda>_ fds1.
        case body p of
          None \<Rightarrow> ret rt fds1
        | Some b \<Rightarrow> (case rt_reduce (charged_to rt (address p)) (wSize b) rt of
              Inl e \<Rightarrow> fail e
            | Inr rt1 \<Rightarrow> ret rt1 fds1)))"

definition dcmpisock_deliver_elsewhere :: "bool \<Rightarrow> DCMPIPacket \<Rightarrow> runtime \<Rightarrow> rank_fds \<Rightarrow> (runtime, rank_fds) io" where
  "dcmpisock_deliver_elsewhere host p rt fds =
     (let rt1 = count_routed p rt
      in case route_of rt (address p) of
           To_console \<Rightarrow> ret (put_out Mpi_to_console_queue p rt1) fds
         | To_proxy \<Rightarrow> ret (put_out Mpi_to_proxy_queue p rt1) fds
         | To_mpi outrank \<Rightarrow> socket_send host outrank p rt1 fds)"

text \<open>
  The thread, given what it gets from \<open>single_mpi_outqueue\<close>; the null pointer, \<open>None\<close>, ends it.
\<close>

fun outq_handler :: "bool \<Rightarrow> DCMPIPacket option list \<Rightarrow> runtime \<Rightarrow> rank_fds \<Rightarrow> (runtime, rank_fds) io" where
  "outq_handler host [] rt fds = None"
| "outq_handler host (None # rest) rt fds = (if rest = [] then ret rt fds else fail Assert_failure)"
| "outq_handler host (Some p # rest) rt fds =
     bind_io (dcmpisock_deliver_elsewhere host p rt fds) (\<lambda>rt1 fds1. outq_handler host rest rt1 fds1)"

section \<open>Receiving\<close>

text \<open>
  One pass for one rank: the header, unless one waits for its body; the body once there is memory. \<open>ready\<close>
  is whether \<open>poll\<close> sees data on the socket.
\<close>

definition socket_head :: "bool \<Rightarrow> int \<Rightarrow> DCMPIPacket option \<Rightarrow> char list \<Rightarrow> in_fd \<Rightarrow> (DCMPIPacket \<times> char list, in_fd) io" where
  "socket_head host errno head hdr fd =
     (case head of
        Some p \<Rightarrow> ret (p, hdr) fd
      | None \<Rightarrow> bind_io (DC_read_all errno DCMPI_PACKET_HEADER_SIZE fd) (\<lambda>(rc, _, hdr1) fd1.
          if rc \<noteq> 0 then fail Exit_failure
          else case init_from_bytearray host hdr1 blank_packet of Inl e \<Rightarrow> fail e | Inr p \<Rightarrow> ret (p, hdr1) fd1))"

definition socket_body :: "bool \<Rightarrow> int \<Rightarrow> char list \<Rightarrow> DCMPIPacket \<Rightarrow> in_fd \<Rightarrow> (DCMPIPacket, in_fd) io" where
  "socket_body host errno hdr p fd =
     bind_io (dcmpi_socket_read_dcbuffer host errno p fd) (\<lambda>p1 fd1.
       ret (p1\<lparr>body := map_option (forceEndian (hd hdr \<noteq> CHR 0x00)) (body p1)\<rparr>) fd1)"

definition socket_receive :: "bool \<Rightarrow> int \<Rightarrow> bool \<Rightarrow> MemUsage \<Rightarrow> DCMPIPacket option \<times> char list \<Rightarrow> in_fd \<Rightarrow>
    (DCMPIPacket option \<times> (DCMPIPacket option \<times> char list) \<times> MemUsage, in_fd) io" where
  "socket_receive host errno ready mu st fd =
     (if \<not> ready then ret (None, st, mu) fd
      else bind_io (socket_head host errno (fst st) (snd st) fd) (\<lambda>(p, hdr) fd1.
        if packet_type p = DCMPI_PACKET_TYPE_DCBUF then
          (case accumulate_if_not_exceeding_limit (sint (body_len p)) mu of
             Inl e \<Rightarrow> fail e
           | Inr (room, mu') \<Rightarrow>
               if \<not> room then ret (None, (Some p, hdr), mu) fd1
               else bind_io (socket_body host errno hdr p fd1) (\<lambda>p1 fd2. ret (Some p1, (None, hdr), mu') fd2))
        else ret (Some p, (None, hdr), mu) fd1))"

text \<open>
  The loop over the ranks, one round of it: a packet that is complete is delivered to a filter of this process
  or passed on. The state is \<open>heads_without_bodies\<close> and \<open>hdr\<close>, shared by all ranks, and the process; a socket
  is read and written apart.
\<close>

type_synonym rank_ins = "int \<rightharpoonup> in_fd"

definition dcmpisock_deliver_in :: "DCMPIPacket \<Rightarrow> runtime \<Rightarrow> runtime result" where
  "dcmpisock_deliver_in p rt =
     (if packet_type p = DCMPI_PACKET_TYPE_DCBUF then
        on_in_port p (Queue_put \<lparr>buffer = body p, muid = MUID_of_dcmpiruntime rt\<rparr>) rt
      else if packet_type p = DCMPI_PACKET_TYPE_REMOVE_PUTTER then
        on_in_port p (remove_putter (sint (from_gftid (address p)))) rt
      else if packet_type p = DCMPI_PACKET_TYPE_ALL_MY_FILTERS_DONE then
        Inr (rt\<lparr>num_all_filters_done_received := num_all_filters_done_received rt + 1\<rparr>)
      else Inl Assert_failure)"

lemma dcmpisock_deliver_in_mpi: "dcmpisock_deliver_in = deliver_in"
  by (simp add: fun_eq_iff dcmpisock_deliver_in_def deliver_in_def)

definition socket_deliver :: "bool \<Rightarrow> DCMPIPacket \<Rightarrow> runtime \<Rightarrow> rank_fds \<Rightarrow> (runtime, rank_fds) io" where
  "socket_deliver host p rt fds =
     (if sint (to_rank (address p)) = this_dcmpi_rank rt
      then (case dcmpisock_deliver_in p rt of Inl e \<Rightarrow> fail e | Inr rt1 \<Rightarrow> ret rt1 fds)
      else dcmpisock_deliver_elsewhere host p rt fds)"

definition socket_rank :: "bool \<Rightarrow> int \<Rightarrow> (int \<Rightarrow> bool) \<Rightarrow> int \<Rightarrow> (int \<Rightarrow> DCMPIPacket option) \<times> char list \<times> runtime \<Rightarrow>
    rank_ins \<times> rank_fds \<Rightarrow> ((int \<Rightarrow> DCMPIPacket option) \<times> char list \<times> runtime, rank_ins \<times> rank_fds) io" where
  "socket_rank host errno ready i st w =
     (case st of (heads, hdr, rt) \<Rightarrow> case w of (ins, outs) \<Rightarrow>
        case (if i = mpi_rank rt then None else ins i) of
          None \<Rightarrow> ret st w
        | Some fd \<Rightarrow>
            (case MUID_MemUsage (rt_process rt) (MUID_of_dcmpiruntime rt) of
               None \<Rightarrow> fail Undefined_behaviour
             | Some mu \<Rightarrow>
                 (case socket_receive host errno (ready i) mu (heads i, hdr) fd of
                    None \<Rightarrow> None
                  | Some (Inl e) \<Rightarrow> fail e
                  | Some (Inr ((pk, (head, hdr1), mu1), fd1)) \<Rightarrow>
                      let rt1 = set_budget (MUID_of_dcmpiruntime rt) mu1 rt; heads1 = heads(i := head)
                      in case pk of
                           None \<Rightarrow> ret (heads1, hdr1, rt1) (ins(i \<mapsto> fd1), outs)
                         | Some p \<Rightarrow>
                             (case socket_deliver host p rt1 outs of
                                None \<Rightarrow> None
                              | Some (Inl e) \<Rightarrow> fail e
                              | Some (Inr (rt2, outs1)) \<Rightarrow> ret (heads1, hdr1, rt2) (ins(i \<mapsto> fd1), outs1)))))"

fun socket_ranks :: "bool \<Rightarrow> int \<Rightarrow> (int \<Rightarrow> bool) \<Rightarrow> int list \<Rightarrow> (int \<Rightarrow> DCMPIPacket option) \<times> char list \<times> runtime \<Rightarrow>
    rank_ins \<times> rank_fds \<Rightarrow> ((int \<Rightarrow> DCMPIPacket option) \<times> char list \<times> runtime, rank_ins \<times> rank_fds) io" where
  "socket_ranks host errno ready [] st w = ret st w"
| "socket_ranks host errno ready (i # is) st w =
     bind_io (socket_rank host errno ready i st w) (\<lambda>st1 w1. socket_ranks host errno ready is st1 w1)"

definition socket_round :: "bool \<Rightarrow> int \<Rightarrow> (int \<Rightarrow> bool) \<Rightarrow> (int \<Rightarrow> DCMPIPacket option) \<times> char list \<times> runtime \<Rightarrow>
    rank_ins \<times> rank_fds \<Rightarrow> ((int \<Rightarrow> DCMPIPacket option) \<times> char list \<times> runtime, rank_ins \<times> rank_fds) io" where
  "socket_round host errno ready st w = socket_ranks host errno ready [0..mpi_size (snd (snd st)) - 1] st w"

section \<open>Packets on a socket\<close>

text \<open>What a receiver makes of a packet: the body has the byte order of the process that sent it last.\<close>

definition passed_on_by :: "bool \<Rightarrow> DCMPIPacket \<Rightarrow> DCMPIPacket \<Rightarrow> bool" where
  "passed_on_by h p p' \<longleftrightarrow> address p' = address p \<and> packet_type p' = packet_type p \<and> body_len p' = body_len p
     \<and> (case body p of None \<Rightarrow> body p' = None
        | Some b \<Rightarrow> \<exists>b'. body p' = Some b' \<and> used b' = used b \<and> isbigendian b' = h)"

text \<open>
  The packets that are still on the socket. A packet that waits for its body is one with bytes to come:
  within the limit of the budget there is always room for none.
\<close>

definition on_socket :: "bool \<Rightarrow> DCMPIPacket option \<times> char list \<Rightarrow> in_fd \<Rightarrow> DCMPIPacket list \<Rightarrow> bool" where
  "on_socket h st fd ps \<longleftrightarrow>
     (case fst st of
        None \<Rightarrow> incoming fd = stream h ps \<and> read_ready (length (stream h ps)) fd
      | Some p' \<Rightarrow> \<exists>p ps' b. ps = p # ps' \<and> body p = Some b \<and> used b \<noteq> [] \<and> p' = p\<lparr>body := None\<rparr> \<and> snd st = header_of h p
          \<and> incoming fd = used b @ stream h ps' \<and> read_ready (length (used b @ stream h ps')) fd)"

definition within_limit :: "MemUsage \<Rightarrow> bool" where
  "within_limit mu \<longleftrightarrow> budget_ok mu \<and> current_usage mu \<le> memory_threshold mu"

text \<open>A pass; \<open>poll\<close> cannot report data that is not there.\<close>

definition socket_pass :: "bool \<Rightarrow> int \<Rightarrow> bool \<Rightarrow> MemUsage \<Rightarrow> DCMPIPacket option \<times> char list \<Rightarrow> in_fd \<Rightarrow>
    (DCMPIPacket option \<times> (DCMPIPacket option \<times> char list) \<times> MemUsage, in_fd) io" where
  "socket_pass host errno ready mu st fd = socket_receive host errno (ready \<and> incoming fd \<noteq> []) mu st fd"

lemma header_flag:
  assumes "packet_ok p"
  shows "hd (header_of h p) \<noteq> CHR 0x00 \<longleftrightarrow> h"
proof -
  have flag: "native_bytes True (1 :: uint1) = [CHR 0x01]" "native_bytes False (0 :: uint1) = [CHR 0x00]"
    by code_simp+
  obtain bs where "header_of h p = native_bytes h (if h then 1 else 0 :: uint1) @ bs"
    using packet_ok_header(1) [OF assms, of h] by (auto simp: to_bytearray_def Let_def result_simps) metis
  then show ?thesis using flag by (cases h) simp_all
qed

lemma socket_body_ok:
  assumes "packet_ok p" and "body p = Some b" and "incoming fd = used b @ rest" and "read_ready (length (used b) + n) fd"
  obtains p' fd' where "socket_body host errno hdr (p\<lparr>body := None\<rparr>) fd = Some (Inr (p', fd'))"
    "passed_on_by (hd hdr \<noteq> CHR 0x00) p p'" "incoming fd' = rest" "read_ready n fd'"
proof -
  have len: "body_len (p\<lparr>body := None\<rparr>) = body_len p" by simp
  obtain fd' b' where r: "dcmpi_socket_read_dcbuffer host errno (p\<lparr>body := None\<rparr>) fd = Some (Inr (p\<lparr>body := None\<rparr>\<lparr>body := Some b'\<rparr>, fd'))"
    "used b' = used b" "isbigendian b' = host" "incoming fd' = rest" "read_ready n fd'"
    using read_body_ready [OF packet_ok_sendable [OF assms(1)] assms(2,3,4) len, of host errno] .
  define b2 where "b2 = forceEndian (hd hdr \<noteq> CHR 0x00) b'"
  have "used b2 = used b" "isbigendian b2 = (hd hdr \<noteq> CHR 0x00)"
    using r(2) by (simp_all add: b2_def forceEndian_def used_def mem_def)
  then have "passed_on_by (hd hdr \<noteq> CHR 0x00) p (p\<lparr>body := Some b2\<rparr>)"
    using assms(2) by (simp add: passed_on_by_def)
  moreover have "socket_body host errno hdr (p\<lparr>body := None\<rparr>) fd = Some (Inr (p\<lparr>body := Some b2\<rparr>, fd'))"
    unfolding socket_body_def r(1) by (simp add: ret_def b2_def)
  ultimately show thesis using that r(4,5) by blast
qed

lemma socket_head_ok:
  assumes "packet_ok p" and "incoming fd = concat (messages h p) @ rest" and "read_ready (length (concat (messages h p)) + n) fd"
  obtains fd' where "socket_head host errno None hdr fd = Some (Inr ((p\<lparr>body := None\<rparr>, header_of h p), fd'))"
    "incoming fd' = (case body p of None \<Rightarrow> [] | Some b \<Rightarrow> used b) @ rest"
    "read_ready (length (case body p of None \<Rightarrow> [] | Some b \<Rightarrow> used b) + n) fd'"
proof -
  let ?b = "case body p of None \<Rightarrow> [] | Some b \<Rightarrow> used b"
  have m: "concat (messages h p) = header_of h p @ ?b" by (simp add: messages_def split: option.splits)
  note hd = packet_ok_header [OF assms(1)]
  have "read_ready (length (header_of h p) + (length ?b + n)) fd" "incoming fd = header_of h p @ (?b @ rest)"
    using assms(2,3) unfolding m by (simp_all add: add.assoc)
  from DC_read_all_ready [OF this] obtain fd' eof where r:
    "DC_read_all errno (length (header_of h p)) fd = Some (Inr ((0, eof, header_of h p), fd'))" "incoming fd' = ?b @ rest"
    "read_ready (length ?b + n) fd'" .
  have "socket_head host errno None hdr fd = Some (Inr ((p\<lparr>body := None\<rparr>, header_of h p), fd'))"
    using r(1) hd by (simp add: socket_head_def ret_def)
  with that r(2,3) show thesis by blast
qed

text \<open>A pass hands out the next packet or none; with room and data it hands one out.\<close>

lemma socket_pass_ok:
  assumes "on_socket h st fd ps" and "\<forall>p\<in>set ps. packet_ok p" and "within_limit mu"
  shows "\<exists>pk st' mu' fd'. socket_pass host errno ready mu st fd = Some (Inr ((pk, st', mu'), fd'))
    \<and> (case pk of None \<Rightarrow> mu' = mu \<and> on_socket h st' fd' ps \<and> (ready \<and> has_room ps mu \<longrightarrow> ps = [])
       | Some p' \<Rightarrow> \<exists>p ps'. ps = p # ps' \<and> passed_on_by h p p' \<and> on_socket h st' fd' ps' \<and> current_usage mu' = current_usage mu + held p')"
proof (cases "ready \<and> incoming fd \<noteq> []")
  case no: False
  have "ready \<longrightarrow> ps = []"
  proof
    assume ready
    then have e: "incoming fd = []" using no by blast
    show "ps = []"
    proof (cases ps)
      case (Cons p ps')
      have "header_of h p \<noteq> []" using packet_ok_header(2) [of p h] assms(2) Cons by (auto simp: DCMPI_PACKET_HEADER_SIZE_def)
      then show ?thesis using assms(1) e Cons by (auto simp: on_socket_def messages_def split: option.splits)
    qed
  qed
  moreover have "socket_pass host errno ready mu st fd = ret (None, st, mu) fd"
    unfolding socket_pass_def socket_receive_def using no by (simp only: if_True simp_thms)
  ultimately show ?thesis using assms(1) by (auto simp: ret_def)
next
  case yes: True
  have rest: "\<exists>pk st' mu' fd'. (if packet_type p = DCMPI_PACKET_TYPE_DCBUF then
          (case accumulate_if_not_exceeding_limit (sint (body_len (p\<lparr>body := None\<rparr>))) mu of
             Inl e \<Rightarrow> fail e
           | Inr (room, mu') \<Rightarrow>
               if \<not> room then ret (None, (Some (p\<lparr>body := None\<rparr>), header_of h p), mu) fd1
               else bind_io (socket_body host errno (header_of h p) (p\<lparr>body := None\<rparr>) fd1) (\<lambda>p1 fd2. ret (Some p1, (None, header_of h p), mu') fd2))
        else ret (Some (p\<lparr>body := None\<rparr>), (None, header_of h p), mu) fd1) = Some (Inr ((pk, st', mu'), fd'))
    \<and> (case pk of None \<Rightarrow> mu' = mu \<and> on_socket h st' fd' (p # ps') \<and> (ready \<and> has_room (p # ps') mu \<longrightarrow> p # ps' = [])
       | Some p' \<Rightarrow> \<exists>q qs. p # ps' = q # qs \<and> passed_on_by h q p' \<and> on_socket h st' fd' qs \<and> current_usage mu' = current_usage mu + held p')"
    if p: "packet_ok p" and inc: "incoming fd1 = (case body p of None \<Rightarrow> [] | Some b \<Rightarrow> used b) @ stream h ps'"
      and rd: "read_ready (length (case body p of None \<Rightarrow> [] | Some b \<Rightarrow> used b) + length (stream h ps')) fd1" for p ps' fd1
  proof (cases "body p")
    case None
    then have "packet_type p \<noteq> DCMPI_PACKET_TYPE_DCBUF" using p by (simp add: packet_ok_def)
    moreover have "passed_on_by h p (p\<lparr>body := None\<rparr>)" using None by (simp add: passed_on_by_def)
    ultimately show ?thesis using None inc rd by (simp add: ret_def on_socket_def held_def)
  next
    case (Some b)
    then have t: "packet_type p = DCMPI_PACKET_TYPE_DCBUF" using p by (simp add: packet_ok_def)
    note sz = packet_ok_body [OF p Some]
    have "sint (body_len p) < 2 ^ 31" "- (2 ^ 31) \<le> sint (body_len p)" using sz by (simp_all add: short_def)
    then have mu': "accumulate_if_not_exceeding_limit (sint (body_len p)) mu = Inr (if current_usage mu + sint (body_len p) \<le> memory_threshold mu
        then (True, mu\<lparr>current_usage := current_usage mu + sint (body_len p)\<rparr>) else (False, mu))"
      using accumulate_room assms(3) unfolding within_limit_def by blast
    have r: "incoming fd1 = used b @ stream h ps'" "read_ready (length (used b) + length (stream h ps')) fd1" using inc rd Some by simp_all
    show ?thesis
    proof (cases "current_usage mu + sint (body_len p) \<le> memory_threshold mu")
      case True
      obtain p' fd2 where b: "socket_body host errno (header_of h p) (p\<lparr>body := None\<rparr>) fd1 = Some (Inr (p', fd2))"
        "passed_on_by h p p'" "incoming fd2 = stream h ps'" "read_ready (length (stream h ps')) fd2"
        using socket_body_ok [OF p Some r, of host errno "header_of h p"] unfolding header_flag [OF p] .
      then show ?thesis using t mu' True by (simp add: ret_def on_socket_def) (simp add: passed_on_by_def held_def)
    next
      case False
      then have "used b \<noteq> []" using sz(1) assms(3) by (auto simp: within_limit_def)
      then show ?thesis using False t mu' r Some by (auto simp: ret_def on_socket_def has_room_def)
    qed
  qed
  obtain p ps' fd1 where p: "ps = p # ps'" and head: "socket_head host errno (fst st) (snd st) fd = Some (Inr ((p\<lparr>body := None\<rparr>, header_of h p), fd1))"
    and r: "incoming fd1 = (case body p of None \<Rightarrow> [] | Some b \<Rightarrow> used b) @ stream h ps'"
      "read_ready (length (case body p of None \<Rightarrow> [] | Some b \<Rightarrow> used b) + length (stream h ps')) fd1"
  proof (cases "fst st")
    case None
    then have i: "incoming fd = stream h ps" "read_ready (length (stream h ps)) fd" using assms(1) by (simp_all add: on_socket_def)
    then obtain p ps' where p: "ps = p # ps'" using yes by (cases ps) auto
    have "packet_ok p" using assms(2) p by simp
    from socket_head_ok [OF this, of fd h "stream h ps'" "length (stream h ps')" host errno "snd st"] i show thesis
      using that [OF p] None by (auto simp: p)
  next
    case (Some p0)
    then show thesis using assms(1) that by (auto simp: on_socket_def socket_head_def ret_def)
  qed
  have ok: "packet_ok p" using assms(2) p by simp
  have "socket_pass host errno ready mu st fd = (if packet_type p = DCMPI_PACKET_TYPE_DCBUF then
          (case accumulate_if_not_exceeding_limit (sint (body_len (p\<lparr>body := None\<rparr>))) mu of
             Inl e \<Rightarrow> fail e
           | Inr (room, mu') \<Rightarrow>
               if \<not> room then ret (None, (Some (p\<lparr>body := None\<rparr>), header_of h p), mu) fd1
               else bind_io (socket_body host errno (header_of h p) (p\<lparr>body := None\<rparr>) fd1) (\<lambda>p1 fd2. ret (Some p1, (None, header_of h p), mu') fd2))
        else ret (Some (p\<lparr>body := None\<rparr>), (None, header_of h p), mu) fd1)"
    using yes by (simp add: socket_pass_def socket_receive_def head)
  with rest [OF ok r] show ?thesis unfolding p by (simp only:)
qed

interpretation socket_link: packet_channel "socket_pass host errno" "on_socket h" packet_ok "passed_on_by h" "\<lambda>_. True" within_limit
  for host errno h
  by unfold_locales (simp only: simp_thms, rule socket_pass_ok)

section \<open>The thread that sends\<close>

lemma write_packet_ok:
  assumes "packet_ok p" and "write_ready (length (concat (messages h p)) + n) fd"
  obtains fd' where "write_packet h p fd = Some (Inr ((), fd'))" "outgoing fd' = outgoing fd @ concat (messages h p)" "write_ready n fd'"
proof (cases "body p")
  case None
  have w: "write_ready (length (header_of h p) + n) fd" using assms(2) None by (simp add: messages_def)
  obtain fd1 where "write_header h Assert_failure p fd = Some (Inr ((), fd1))" "outgoing fd1 = outgoing fd @ header_of h p" "write_ready n fd1"
    using write_header_ready [OF packet_ok_sendable [OF assms(1)] w] .
  with that None show thesis by (simp add: write_packet_def messages_def ret_def)
next
  case (Some b)
  have w: "write_ready (length (header_of h p) + (length (used b) + n)) fd" using assms(2) Some by (simp add: messages_def add.assoc)
  obtain fd1 where 1: "write_header h Assert_failure p fd = Some (Inr ((), fd1))" "outgoing fd1 = outgoing fd @ header_of h p"
    "write_ready (length (used b) + n) fd1"
    using write_header_ready [OF packet_ok_sendable [OF assms(1)] w] .
  obtain fd2 where 2: "write_checked (used b) fd1 = Some (Inr ((), fd2))" "outgoing fd2 = outgoing fd1 @ used b" "write_ready n fd2"
    using write_checked_ready [OF 1(3)] .
  note b = sendable_body [OF packet_ok_sendable [OF assms(1)] Some]
  have "write_packet h p fd = Some (Inr ((), fd2))"
    using 1(1) 2(1) b by (simp add: write_packet_def Some)
  with that 1(2) 2(2,3) Some show thesis by (simp add: messages_def)
qed

text \<open>What the thread changes of the state of the process: the count, the two queues, and the budgets.\<close>

definition same_routes :: "runtime \<Rightarrow> runtime \<Rightarrow> bool" where
  "same_routes rt rt' \<longleftrightarrow> route_of rt' = route_of rt \<and> charged_to rt' = charged_to rt \<and> mpi_size rt' = mpi_size rt"

definition routed :: "runtime \<Rightarrow> route \<Rightarrow> DCMPIPacket list \<Rightarrow> DCMPIPacket list" where
  "routed rt way ps = filter (\<lambda>p. route_of rt (address p) = way) ps"

definition sent_out :: "runtime \<Rightarrow> DCMPIPacket \<Rightarrow> bool" where
  "sent_out rt p \<longleftrightarrow> route_of rt (address p) \<noteq> To_console \<and> route_of rt (address p) \<noteq> To_proxy"

definition waiting_in :: "out_queue \<Rightarrow> runtime \<Rightarrow> DCMPIPacket list" where
  "waiting_in oq rt = Queue.q (out_queues (queues (rt_process rt)) oq)"

definition charged :: "runtime \<Rightarrow> DCMPIPacket \<Rightarrow> int" where
  "charged rt p = charged_to rt (address p)"

definition budgets :: "runtime \<Rightarrow> (int \<rightharpoonup> MemUsage)" where
  "budgets rt = MUID_MemUsage (rt_process rt)"

lemma same_routes_count [simp]: "same_routes rt (count_routed p rt)" "budgets (count_routed p rt) = budgets rt"
  "waiting_in oq (count_routed p rt) = waiting_in oq rt"
  by (simp_all add: same_routes_def count_routed_def route_of_def charged_to_def budgets_def waiting_in_def fun_eq_iff)

lemma same_routes_put_out [simp]: "same_routes rt (put_out oq p rt)" "budgets (put_out oq p rt) = budgets rt"
  "waiting_in oq' (put_out oq p rt) = (if oq' = oq then waiting_in oq rt @ [p] else waiting_in oq' rt)"
  by (simp_all add: same_routes_def put_out_def Let_def route_of_def charged_to_def budgets_def waiting_in_def fun_eq_iff Queue_put_def)

lemma same_routes_set_budget [simp]: "same_routes rt (set_budget m mu rt)" "budgets (set_budget m mu rt) = (budgets rt)(m \<mapsto> mu)"
  "waiting_in oq (set_budget m mu rt) = waiting_in oq rt"
  by (simp_all add: same_routes_def set_budget_def Let_def route_of_def charged_to_def budgets_def waiting_in_def fun_eq_iff)

lemma same_routes_trans: "same_routes a b \<Longrightarrow> same_routes b c \<Longrightarrow> same_routes a c"
  by (simp add: same_routes_def)

text \<open>One packet that goes to another rank.\<close>

lemma socket_send_ok:
  assumes p: "packet_ok p" and i: "0 \<le> i" "i < mpi_size rt" and fd: "fds i = Some fd" "write_ready (length (concat (messages h p)) + n) fd"
    and rel: "can_release (charged rt) ((if body p = None then [] else [p]) @ ps) (budgets rt)" and ok: "\<forall>q\<in>set ps. packet_ok q"
  obtains rt' fd' where "socket_send h i p rt fds = Some (Inr (rt', fds(i \<mapsto> fd')))"
    "outgoing fd' = outgoing fd @ concat (messages h p)" "write_ready n fd'"
    "same_routes rt rt'" "waiting_in Mpi_to_console_queue rt' = waiting_in Mpi_to_console_queue rt"
    "waiting_in Mpi_to_proxy_queue rt' = waiting_in Mpi_to_proxy_queue rt" "can_release (charged rt) ps (budgets rt')"
    "\<forall>m. usage_of (budgets rt') m = usage_of (budgets rt) m - held_by (charged rt) m [p]"
proof -
  obtain fd' where w: "write_packet h p fd = Some (Inr ((), fd'))" "outgoing fd' = outgoing fd @ concat (messages h p)" "write_ready n fd'"
    using write_packet_ok [OF p fd(2)] .
  have on: "on_fd i (write_packet h p) fds = Some (Inr ((), fds(i \<mapsto> fd')))" using fd(1) w(1) by (simp add: on_fd_def ret_def)
  show thesis
  proof (cases "body p")
    case None
    then have "held p = 0" using p by (simp add: packet_ok_def held_def)
    then have "can_release (charged rt) ps (budgets rt)" "held_by (charged rt) m [p] = 0" for m
      using rel None by simp_all
    moreover have "socket_send h i p rt fds = Some (Inr (rt, fds(i \<mapsto> fd')))" using i on None by (simp add: socket_send_def ret_def)
    ultimately show thesis using that [of rt fd'] w(2,3) by (simp add: same_routes_def)
  next
    case (Some b)
    have t: "packet_type p = DCMPI_PACKET_TYPE_DCBUF" using p Some by (simp add: packet_ok_def)
    have rel': "can_release (charged rt) (p # ps) (budgets rt)" using rel Some by simp
    have nn: "\<forall>q\<in>set (p # ps). 0 \<le> held q" using p ok held_body packet_ok_sendable by (auto simp: packet_ok_def)
    obtain mus' where m: "release_body (charged rt) p (budgets rt) = Inr mus'" "can_release (charged rt) ps mus'"
      "\<forall>m. usage_of mus' m = usage_of (budgets rt) m - held_by (charged rt) m [p]"
      using release_body_ok [OF t rel' nn] .
    have sz: "wSize b = sint (body_len p)"
      using sendable_body(1) [OF packet_ok_sendable [OF p] Some] p Some wSize_used [of b] by (simp add: packet_ok_def sendable_packet_def)
    obtain mu mu' where mu: "budgets rt (charged rt p) = Some mu" "reduce (sint (body_len p)) mu = Inr mu'" "mus' = (budgets rt)(charged rt p \<mapsto> mu')"
      using m(1) by (auto simp: release_body_def result_simps split: option.splits)
    let ?rt = "set_budget (charged rt p) mu' rt"
    have "rt_reduce (charged_to rt (address p)) (wSize b) rt = Inr ?rt"
      using mu unfolding sz by (simp add: rt_reduce_def charged_def budgets_def)
    then have "socket_send h i p rt fds = Some (Inr (?rt, fds(i \<mapsto> fd')))" using i on Some by (simp add: socket_send_def ret_def)
    then show thesis using that [of ?rt fd'] w(2,3) m(2,3) mu(3) by simp
  qed
qed

text \<open>The bodies whose memory the thread gives back.\<close>

definition sent_bodies :: "runtime \<Rightarrow> DCMPIPacket list \<Rightarrow> DCMPIPacket list" where
  "sent_bodies rt ps = filter (\<lambda>p. sent_out rt p \<and> body p \<noteq> None) ps"

definition links_ready :: "bool \<Rightarrow> runtime \<Rightarrow> rank_fds \<Rightarrow> DCMPIPacket list \<Rightarrow> bool" where
  "links_ready h rt fds ps \<longleftrightarrow>
     (\<forall>p\<in>set ps. case route_of rt (address p) of To_mpi i \<Rightarrow> 0 \<le> i \<and> i < mpi_size rt \<and> fds i \<noteq> None | _ \<Rightarrow> True)
     \<and> (\<forall>i. case fds i of None \<Rightarrow> True | Some fd \<Rightarrow> write_ready (length (stream h (routed rt (To_mpi i) ps))) fd)"

text \<open>What the connections have after packets were written on them.\<close>

definition links_carry :: "bool \<Rightarrow> runtime \<Rightarrow> rank_fds \<Rightarrow> DCMPIPacket list \<Rightarrow> rank_fds \<Rightarrow> bool" where
  "links_carry h rt fds ps fds' \<longleftrightarrow>
     (\<forall>i. case fds i of None \<Rightarrow> fds' i = None
       | Some fd \<Rightarrow> \<exists>fd'. fds' i = Some fd' \<and> outgoing fd' = outgoing fd @ stream h (routed rt (To_mpi i) ps))"

lemma routed_simps [simp]: "routed rt way [] = []"
  "routed rt way (p # ps) = (if route_of rt (address p) = way then p # routed rt way ps else routed rt way ps)"
  by (simp_all add: routed_def)

lemma sent_bodies_simps [simp]: "sent_bodies rt [] = []"
  "sent_bodies rt (p # ps) = (if sent_out rt p \<and> body p \<noteq> None then [p] else []) @ sent_bodies rt ps"
  by (simp_all add: sent_bodies_def)

lemma same_routesD:
  assumes "same_routes rt rt'"
  shows "route_of rt' = route_of rt" and "charged rt' = charged rt" and "mpi_size rt' = mpi_size rt"
    and "routed rt' = routed rt" and "sent_out rt' = sent_out rt" and "sent_bodies rt' = sent_bodies rt"
  using assms by (simp_all add: same_routes_def charged_def routed_def sent_out_def sent_bodies_def fun_eq_iff)

text \<open>One packet, wherever it goes.\<close>

lemma deliver_one:
  assumes p: "packet_ok p" "\<forall>q\<in>set ps. packet_ok q" and fds: "links_ready h rt fds (p # ps)"
    and rel: "can_release (charged rt) (sent_bodies rt (p # ps)) (budgets rt)"
  shows "\<exists>rt' fds'. dcmpisock_deliver_elsewhere h p rt fds = Some (Inr (rt', fds')) \<and> same_routes rt rt'
    \<and> links_carry h rt fds [p] fds' \<and> links_ready h rt fds' ps \<and> can_release (charged rt) (sent_bodies rt ps) (budgets rt')
    \<and> waiting_in Mpi_to_console_queue rt' = waiting_in Mpi_to_console_queue rt @ routed rt To_console [p]
    \<and> waiting_in Mpi_to_proxy_queue rt' = waiting_in Mpi_to_proxy_queue rt @ routed rt To_proxy [p]
    \<and> (\<forall>m. usage_of (budgets rt') m = usage_of (budgets rt) m - held_by (charged rt) m (sent_bodies rt [p]))"
proof (cases "route_of rt (address p)")
  case To_console
  let ?rt = "put_out Mpi_to_console_queue p (count_routed p rt)"
  have s: "same_routes rt ?rt" by (rule same_routes_trans [OF same_routes_count(1) same_routes_put_out(1)])
  have l: "links_ready h rt fds ps" using fds To_console by (simp add: links_ready_def cong: option.case_cong)
  have c: "links_carry h rt fds [p] fds" using To_console by (simp add: links_carry_def split: option.splits)
  have "\<not> sent_out rt p" using To_console by (simp add: sent_out_def)
  with rel l c s To_console show ?thesis
    by (intro exI [of _ ?rt] exI [of _ fds]) (simp add: dcmpisock_deliver_elsewhere_def ret_def)
next
  case To_proxy
  let ?rt = "put_out Mpi_to_proxy_queue p (count_routed p rt)"
  have s: "same_routes rt ?rt" by (rule same_routes_trans [OF same_routes_count(1) same_routes_put_out(1)])
  have l: "links_ready h rt fds ps" using fds To_proxy by (simp add: links_ready_def cong: option.case_cong)
  have c: "links_carry h rt fds [p] fds" using To_proxy by (simp add: links_carry_def split: option.splits)
  have "\<not> sent_out rt p" using To_proxy by (simp add: sent_out_def)
  with rel l c s To_proxy show ?thesis
    by (intro exI [of _ ?rt] exI [of _ fds]) (simp add: dcmpisock_deliver_elsewhere_def ret_def)
next
  case (To_mpi i)
  obtain fd where i: "0 \<le> i" "i < mpi_size rt" "fds i = Some fd"
    using fds To_mpi by (auto simp: links_ready_def)
  have w: "write_ready (length (stream h (routed rt (To_mpi j) (p # ps)))) f" if "fds j = Some f" for j f
    using fds [unfolded links_ready_def, THEN conjunct2, rule_format, of j] that by simp
  have wi: "write_ready (length (concat (messages h p)) + length (stream h (routed rt (To_mpi i) ps))) fd"
    using w [OF i(3)] To_mpi by simp
  let ?rt = "count_routed p rt"
  have r: "charged ?rt = charged rt" "mpi_size ?rt = mpi_size rt" using same_routesD [OF same_routes_count(1)] by blast+
  have out: "sent_out rt p" using To_mpi by (simp add: sent_out_def)
  have rel': "can_release (charged ?rt) ((if body p = None then [] else [p]) @ sent_bodies rt ps) (budgets ?rt)"
    using rel out by (simp add: r(1) split: if_splits)
  have ok: "\<forall>q\<in>set (sent_bodies rt ps). packet_ok q" using p(2) by (simp add: sent_bodies_def)
  obtain rt' fd' where s: "socket_send h i p ?rt fds = Some (Inr (rt', fds(i \<mapsto> fd')))"
    "outgoing fd' = outgoing fd @ concat (messages h p)" "write_ready (length (stream h (routed rt (To_mpi i) ps))) fd'"
    "same_routes ?rt rt'" "waiting_in Mpi_to_console_queue rt' = waiting_in Mpi_to_console_queue ?rt"
    "waiting_in Mpi_to_proxy_queue rt' = waiting_in Mpi_to_proxy_queue ?rt" "can_release (charged ?rt) (sent_bodies rt ps) (budgets rt')"
    "\<forall>m. usage_of (budgets rt') m = usage_of (budgets ?rt) m - held_by (charged ?rt) m [p]"
    using socket_send_ok [where fds = fds and i = i and rt = ?rt, OF p(1) i(1) i(2) [folded r(2)] i(3) wi rel' ok] .
  have "held_by (charged rt) m [p] = held_by (charged rt) m (sent_bodies rt [p])" for m
    using out p(1) by (auto simp: packet_ok_def held_def)
  moreover have "links_carry h rt fds [p] (fds(i \<mapsto> fd'))"
    using i(3) s(2) To_mpi by (auto simp: links_carry_def split: option.splits)
  moreover have "links_ready h rt (fds(i \<mapsto> fd')) ps"
    unfolding links_ready_def
  proof (intro conjI allI ballI)
    fix q assume "q \<in> set ps"
    then show "case route_of rt (address q) of To_mpi j \<Rightarrow> 0 \<le> j \<and> j < mpi_size rt \<and> (fds(i \<mapsto> fd')) j \<noteq> None | _ \<Rightarrow> True"
      using fds by (auto simp: links_ready_def split: route.splits)
  next
    fix j
    show "case (fds(i \<mapsto> fd')) j of None \<Rightarrow> True | Some f \<Rightarrow> write_ready (length (stream h (routed rt (To_mpi j) ps))) f"
      using s(3) w [of j] To_mpi by (cases "j = i") (auto split: option.splits)
  qed
  ultimately show ?thesis
    using s(1,4-8) same_routes_trans [OF same_routes_count(1) s(4)] To_mpi unfolding r
    by (intro exI [of _ rt'] exI [of _ "fds(i \<mapsto> fd')"]) (simp add: dcmpisock_deliver_elsewhere_def Let_def)
qed

lemma links_carry_trans:
  assumes "links_carry h rt fds [p] fds1" and "links_carry h rt fds1 ps fds2"
  shows "links_carry h rt fds (p # ps) fds2"
  unfolding links_carry_def
proof
  fix i
  note 1 = assms(1) [unfolded links_carry_def, rule_format, of i] and 2 = assms(2) [unfolded links_carry_def, rule_format, of i]
  show "case fds i of None \<Rightarrow> fds2 i = None
       | Some fd \<Rightarrow> \<exists>fd'. fds2 i = Some fd' \<and> outgoing fd' = outgoing fd @ stream h (routed rt (To_mpi i) (p # ps))"
    using 1 2 by (auto split: option.splits if_splits)
qed

lemma outq_handler_ok:
  assumes "\<forall>p\<in>set ps. packet_ok p" and "links_ready h rt fds ps" and "can_release (charged rt) (sent_bodies rt ps) (budgets rt)"
  shows "\<exists>rt' fds'. outq_handler h (map Some ps @ [None]) rt fds = Some (Inr (rt', fds')) \<and> links_carry h rt fds ps fds'
    \<and> waiting_in Mpi_to_console_queue rt' = waiting_in Mpi_to_console_queue rt @ routed rt To_console ps
    \<and> waiting_in Mpi_to_proxy_queue rt' = waiting_in Mpi_to_proxy_queue rt @ routed rt To_proxy ps
    \<and> (\<forall>m. usage_of (budgets rt') m = usage_of (budgets rt) m - held_by (charged rt) m (sent_bodies rt ps))"
  using assms
proof (induction ps arbitrary: rt fds)
  case Nil
  have "links_carry h rt fds [] fds" by (auto simp: links_carry_def split: option.splits)
  then show ?case by (simp add: ret_def)
next
  case (Cons p ps)
  have p: "packet_ok p" "\<forall>q\<in>set ps. packet_ok q" using Cons.prems(1) by simp_all
  obtain rt1 fds1 where 1: "dcmpisock_deliver_elsewhere h p rt fds = Some (Inr (rt1, fds1))" "same_routes rt rt1"
    "links_carry h rt fds [p] fds1" "links_ready h rt fds1 ps" "can_release (charged rt) (sent_bodies rt ps) (budgets rt1)"
    "waiting_in Mpi_to_console_queue rt1 = waiting_in Mpi_to_console_queue rt @ routed rt To_console [p]"
    "waiting_in Mpi_to_proxy_queue rt1 = waiting_in Mpi_to_proxy_queue rt @ routed rt To_proxy [p]"
    "\<forall>m. usage_of (budgets rt1) m = usage_of (budgets rt) m - held_by (charged rt) m (sent_bodies rt [p])"
    using deliver_one [OF p Cons.prems(2,3)] by blast
  note same = same_routesD [OF 1(2)]
  have carry: "links_carry h rt1 = links_carry h rt" "links_ready h rt1 = links_ready h rt"
    by (simp_all add: links_carry_def links_ready_def same fun_eq_iff cong: option.case_cong route.case_cong)
  obtain rt2 fds2 where 2: "outq_handler h (map Some ps @ [None]) rt1 fds1 = Some (Inr (rt2, fds2))" "links_carry h rt fds1 ps fds2"
    "waiting_in Mpi_to_console_queue rt2 = waiting_in Mpi_to_console_queue rt1 @ routed rt To_console ps"
    "waiting_in Mpi_to_proxy_queue rt2 = waiting_in Mpi_to_proxy_queue rt1 @ routed rt To_proxy ps"
    "\<forall>m. usage_of (budgets rt2) m = usage_of (budgets rt1) m - held_by (charged rt) m (sent_bodies rt ps)"
    using Cons.IH [OF p(2), of rt1 fds1] 1(4,5) unfolding same carry by blast
  have "held_by (charged rt) m (sent_bodies rt (p # ps)) = held_by (charged rt) m (sent_bodies rt [p]) + held_by (charged rt) m (sent_bodies rt ps)" for m
    by simp
  with 1(1,6-8) 2(1,3-5) links_carry_trans [OF 1(3) 2(2)] show ?case
    by (intro exI [of _ rt2] exI [of _ fds2]) simp
qed

section \<open>Two senders and two threads\<close>

text \<open>
  The flag of a body is that of the last header, whichever rank it came from: while the body of \<open>p\<close>
  waits for memory another rank sends \<open>d\<close>, and \<open>p\<close> gets the byte order of the sender of \<open>d\<close>.
\<close>

lemma other_rank_sets_flag:
  assumes p: "packet_ok p" "body p = Some b" "incoming f1 = stream h1 [p]" "read_ready (length (stream h1 [p])) f1"
    and q: "packet_ok d" "body d = None" "incoming f2 = stream h2 [d]" "read_ready (length (stream h2 [d])) f2"
    and mu: "within_limit mu" "\<not> has_room [p] mu" "within_limit mu'" "has_room [p] mu'"
  shows "\<exists>p0 hdr1 f1' d' hdr2 f2' p' hdr3 mu'' f1''.
      socket_receive host errno True mu (None, hdr) f1 = Some (Inr ((None, (Some p0, hdr1), mu), f1'))
    \<and> socket_receive host errno True mu (None, hdr1) f2 = Some (Inr ((Some d', (None, hdr2), mu), f2'))
    \<and> socket_receive host errno True mu' (Some p0, hdr2) f1' = Some (Inr ((Some p', (None, hdr3), mu''), f1''))
    \<and> passed_on_by h2 p p'"
proof -
  have t: "packet_type p = DCMPI_PACKET_TYPE_DCBUF" "packet_type d \<noteq> DCMPI_PACKET_TYPE_DCBUF"
    using p(1,2) q(1,2) by (simp_all add: packet_ok_def)
  note sz = packet_ok_body [OF p(1,2)]
  have n: "sint (body_len p) < 2 ^ 31" "- (2 ^ 31) \<le> sint (body_len p)" using sz by (simp_all add: short_def)
  have acc: "within_limit m \<Longrightarrow> accumulate_if_not_exceeding_limit (sint (body_len p)) m = Inr (if has_room [p] m
        then (True, m\<lparr>current_usage := current_usage m + sint (body_len p)\<rparr>) else (False, m))" for m
    using accumulate_room [of m "sint (body_len p)"] n by (simp add: within_limit_def has_room_def)
  obtain f1' where 1: "socket_head host errno None hdr f1 = Some (Inr ((p\<lparr>body := None\<rparr>, header_of h1 p), f1'))"
    "incoming f1' = used b" "read_ready (length (used b) + 0) f1'"
    using socket_head_ok [OF p(1), of f1 h1 "[]" 0 host errno hdr] p(2-4) by auto
  obtain f2' where 2: "socket_head host errno None (header_of h1 p) f2 = Some (Inr ((d\<lparr>body := None\<rparr>, header_of h2 d), f2'))"
    using socket_head_ok [OF q(1), of f2 h2 "[]" 0 host errno "header_of h1 p"] q(2-4) by auto
  have wait: "incoming f1' = used b @ []" using 1(2) by simp
  obtain p' f1'' where 3: "socket_body host errno (header_of h2 d) (p\<lparr>body := None\<rparr>) f1' = Some (Inr (p', f1''))" "passed_on_by h2 p p'"
    using socket_body_ok [OF p(1,2) wait 1(3), of host errno "header_of h2 d"] unfolding header_flag [OF q(1)] .
  have "socket_receive host errno True mu (None, hdr) f1 = Some (Inr ((None, (Some (p\<lparr>body := None\<rparr>), header_of h1 p), mu), f1'))"
    using 1(1) t(1) acc [OF mu(1)] mu(2) by (simp add: socket_receive_def ret_def)
  moreover have "socket_receive host errno True mu (None, header_of h1 p) f2
      = Some (Inr ((Some (d\<lparr>body := None\<rparr>), (None, header_of h2 d), mu), f2'))"
    using 2 t(2) by (simp add: socket_receive_def ret_def)
  moreover have "socket_receive host errno True mu' (Some (p\<lparr>body := None\<rparr>), header_of h2 d) f1'
      = Some (Inr ((Some p', (None, header_of h2 d), mu'\<lparr>current_usage := current_usage mu' + sint (body_len p)\<rparr>), f1''))"
    using 3(1) t(1) acc [OF mu(3)] mu(4) by (simp add: socket_receive_def socket_head_def ret_def)
  ultimately show ?thesis using 3(2) by blast
qed

text \<open>
  The main loop writes the packets it passes on, and its own messages at the end, without a lock while the
  thread writes to the same sockets. When the header of \<open>d\<close> gets between the header and the body of
  \<open>p\<close> the receiver takes it for the body.
\<close>

lemma writers_mix:
  assumes p: "packet_ok p" "body p = Some b" and q: "packet_ok d" "body d = None"
    and ws: "ws = [header_of h p, header_of h d, used b]"
    and inc: "incoming fd = concat ws" "read_ready (length (concat ws)) fd" and mu: "within_limit mu" "has_room [p] mu"
  shows "ws \<in> shuffles (messages h p) (messages h d)
    \<and> (\<exists>p' b' st mu' fd'. socket_receive host errno True mu (None, hdr) fd = Some (Inr ((Some p', st, mu'), fd'))
         \<and> body p' = Some b' \<and> used b' = take (length (used b)) (header_of h d @ used b))"
proof
  show "ws \<in> shuffles (messages h p) (messages h d)" by (simp add: ws messages_def p(2) q(2))
  let ?bytes = "header_of h d @ used b"
  obtain b1 where b1: "used b1 = take (length (used b)) ?bytes" "packet_ok (p\<lparr>body := Some b1\<rparr>)" "length (used b1) = length (used b)"
  proof -
    note sz = packet_ok_body [OF p]
    have s: "short (take (length (used b)) ?bytes)" using sz(2) by (simp add: short_def)
    note wf = restored_wf(1) [OF s, of h]
    have "wSize b = int (length (used b))" using p by (simp add: packet_ok_def sendable_packet_def wSize_used)
    moreover have "wSize (restored h (take (length (used b)) ?bytes)) = int (length (used b))" by (simp add: restored_def)
    ultimately have "packet_ok (p\<lparr>body := Some (restored h (take (length (used b)) ?bytes))\<rparr>)"
      using p wf by (simp add: packet_ok_def sendable_packet_def)
    moreover have "used (restored h (take (length (used b)) ?bytes)) = take (length (used b)) ?bytes" by (rule restored_wf(2))
    ultimately show thesis using that by fastforce
  qed
  let ?p = "p\<lparr>body := Some b1\<rparr>"
  have hd: "header_of h ?p = header_of h p" by (simp add: header_of_def to_bytearray_def)
  have cut: "used b1 @ drop (length (used b)) ?bytes = ?bytes" unfolding b1(1) by (rule append_take_drop_id)
  have i: "incoming fd = concat (messages h ?p) @ drop (length (used b)) ?bytes"
    unfolding inc(1) ws messages_def hd using cut by simp
  have len: "length (concat ws) = length (concat (messages h ?p)) + length (drop (length (used b)) ?bytes)"
    using inc(1) i by (metis length_append)
  obtain fd1 where 1: "socket_head host errno None hdr fd = Some (Inr ((?p\<lparr>body := None\<rparr>, header_of h ?p), fd1))"
    "incoming fd1 = used b1 @ drop (length (used b)) ?bytes" "read_ready (length (used b1) + length (drop (length (used b)) ?bytes)) fd1"
    using socket_head_ok [OF b1(2) i, of "length (drop (length (used b)) ?bytes)" host errno hdr] inc(2) len by auto
  have own: "body ?p = Some b1" by simp
  obtain p' fd2 where 2: "socket_body host errno (header_of h ?p) (?p\<lparr>body := None\<rparr>) fd1 = Some (Inr (p', fd2))"
    "passed_on_by (hd (header_of h ?p) \<noteq> CHR 0x00) ?p p'"
    using socket_body_ok [OF b1(2) own 1(2,3), of host errno "header_of h ?p"] .
  obtain b' where b': "body p' = Some b'" "used b' = take (length (used b)) ?bytes"
    using 2(2) b1(1) by (auto simp: passed_on_by_def)
  note sz = packet_ok_body [OF p]
  have n: "sint (body_len p) < 2 ^ 31" "- (2 ^ 31) \<le> sint (body_len p)" using sz by (simp_all add: short_def)
  have acc: "accumulate_if_not_exceeding_limit (sint (body_len p)) mu = Inr (True, mu\<lparr>current_usage := current_usage mu + sint (body_len p)\<rparr>)"
    using accumulate_room [of mu "sint (body_len p)"] n mu by (simp add: within_limit_def has_room_def)
  have "packet_type p = DCMPI_PACKET_TYPE_DCBUF" using p by (simp add: packet_ok_def)
  then show "\<exists>p' b' st mu' fd'. socket_receive host errno True mu (None, hdr) fd = Some (Inr ((Some p', st, mu'), fd'))
         \<and> body p' = Some b' \<and> used b' = take (length (used b)) ?bytes"
    using 1(1) 2(1) b' acc by (simp add: socket_receive_def ret_def)
qed

section \<open>A hop\<close>

text \<open>
  C3. Over sockets: the thread of one rank, started on packets for any ranks, consoles and clusters, ends
  without error when its connections take what is written. The console's and the proxy's queues have
  got theirs in order, the budgets have back what the bodies held, each connection carries the packets that
  are routed over it in order, and a receiver that has only this connection to read and nobody else
  writing on it hands them out in order however its passes go, with the byte order of the rank that wrote
  them; it has handed out all of them after as many passes with data and memory as there are packets.
\<close>

theorem socket_hop:
  assumes "\<forall>p\<in>set ps. packet_ok p" and "links_ready h rt fds ps" and "can_release (charged rt) (sent_bodies rt ps) (budgets rt)"
    and "fds i = Some fd" and "mine = routed rt (To_mpi i) ps" and "\<forall>(ready, mu)\<in>set sched. within_limit mu"
  shows "\<exists>rt' fds' fd'. outq_handler h (map Some ps @ [None]) rt fds = Some (Inr (rt', fds')) \<and> fds' i = Some fd'
    \<and> waiting_in Mpi_to_console_queue rt' = waiting_in Mpi_to_console_queue rt @ routed rt To_console ps
    \<and> waiting_in Mpi_to_proxy_queue rt' = waiting_in Mpi_to_proxy_queue rt @ routed rt To_proxy ps
    \<and> (\<forall>m. usage_of (budgets rt') m = usage_of (budgets rt) m - held_by (charged rt) m (sent_bodies rt ps))
    \<and> (\<forall>inp. incoming inp = drop (length (outgoing fd)) (outgoing fd') \<and> read_ready (length (incoming inp)) inp \<longrightarrow>
         (\<exists>ds st' inp' k. channel_run (socket_pass host errno) sched (None, hdr) inp = Some (Inr ((ds, st', sum_list (map held ds)), inp'))
           \<and> list_all2 (passed_on_by h) (take k mine) ds \<and> (length mine \<le> good_passes mine sched \<longrightarrow> length ds = length mine)))"
proof -
  obtain rt' fds' where s: "outq_handler h (map Some ps @ [None]) rt fds = Some (Inr (rt', fds'))" "links_carry h rt fds ps fds'"
    "waiting_in Mpi_to_console_queue rt' = waiting_in Mpi_to_console_queue rt @ routed rt To_console ps"
    "waiting_in Mpi_to_proxy_queue rt' = waiting_in Mpi_to_proxy_queue rt @ routed rt To_proxy ps"
    "\<forall>m. usage_of (budgets rt') m = usage_of (budgets rt) m - held_by (charged rt) m (sent_bodies rt ps)"
    using outq_handler_ok [OF assms(1,2,3)] by blast
  obtain fd' where fd': "fds' i = Some fd'" "outgoing fd' = outgoing fd @ stream h mine"
    using s(2) [unfolded links_carry_def, rule_format, of i] assms(4) by (auto simp: assms(5))
  have ok: "\<forall>p\<in>set mine. packet_ok p" using assms(1) by (auto simp: assms(5) routed_def)
  have "\<exists>ds st' inp' k. channel_run (socket_pass host errno) sched (None, hdr) inp = Some (Inr ((ds, st', sum_list (map held ds)), inp'))
      \<and> list_all2 (passed_on_by h) (take k mine) ds \<and> (length mine \<le> good_passes mine sched \<longrightarrow> length ds = length mine)"
    if "incoming inp = drop (length (outgoing fd)) (outgoing fd')" "read_ready (length (incoming inp)) inp" for inp
  proof -
    have "on_socket h (None, hdr) inp mine" using that by (simp add: on_socket_def fd'(2))
    from socket_link.run_is_queue [OF assms(6) this ok subset_refl, of host errno] show ?thesis by simp blast
  qed
  with s(1,3-5) fd'(1) show ?thesis by blast
qed

text \<open>The packet of two bytes goes to rank 1, whose runtime has no memory for it at first.\<close>

theorem socket_hop_witness:
  "\<exists>rt' fds' fd' ds st' inp' n.
       outq_handler False [Some packet_hi, None] one_filter [1 \<mapsto> \<lparr>out_events = replicate 163 (Write_upto 1), outgoing = []\<rparr>] = Some (Inr (rt', fds'))
     \<and> fds' 1 = Some fd' \<and> usage_of (budgets rt') 1 = 0
     \<and> channel_run (socket_pass True 0) [(True, \<lparr>memory_threshold = 1, current_usage = 0\<rparr>), (True, \<lparr>memory_threshold = 9, current_usage = 0\<rparr>)]
         (None, []) \<lparr>in_events = replicate (length (outgoing fd')) (Read_upto 0), incoming = outgoing fd'\<rparr> = Some (Inr ((ds, st', n), inp'))
     \<and> length ds = 1"
proof -
  let ?fd = "\<lparr>out_events = replicate 163 (Write_upto 1), outgoing = []\<rparr>"
  let ?sched = "[(True, \<lparr>memory_threshold = 1, current_usage = 0\<rparr>), (True, \<lparr>memory_threshold = 9, current_usage = 0\<rparr>)]"
  have s: "short ''hi''" by (simp add: short_def)
  have ok: "packet_ok packet_hi"
    using restored_wf(1) [OF s, of False]
    by (simp add: packet_ok_def sendable_packet_def packet_hi_def DCMPIPacket_new_def port_ok_def DCMPI_PORT_MAXLEN_SIZE_def)
  have b: "body packet_hi = Some (restored False ''hi'')" "held packet_hi = 2" by (simp_all add: packet_hi_def DCMPIPacket_new_def held_def)
  have len: "length (stream False [packet_hi]) = 163"
    using packet_ok_header(2) [OF ok, of False] by (simp add: messages_def b DCMPI_PACKET_HEADER_SIZE_def DCMPI_PORT_MAXLEN_SIZE_def)
  have way: "route_of one_filter (address packet_hi) = To_mpi 1" and src: "charged one_filter packet_hi = 1"
    by (simp_all add: route_of_def charged_def charged_to_def one_filter_def packet_hi_def DCMPIPacket_new_def)
  have mine: "[packet_hi] = routed one_filter (To_mpi 1) [packet_hi]" by (simp add: way)
  have sz: "mpi_size one_filter = 2" by (simp add: one_filter_def)
  have 1: "\<forall>p\<in>set [packet_hi]. packet_ok p" using ok by simp
  have 2: "links_ready False one_filter [1 \<mapsto> ?fd] [packet_hi]"
    using len sz by (auto simp: links_ready_def way write_ready_def split: option.splits)
  have 3: "can_release (charged one_filter) (sent_bodies one_filter [packet_hi]) (budgets one_filter)"
    by (simp add: can_release_def sent_out_def way src b usage_of_def budgets_def) (simp add: one_filter_def)
  have 4: "[1 \<mapsto> ?fd] 1 = Some ?fd" by simp
  have 5: "\<forall>(ready, mu)\<in>set ?sched. within_limit mu" by (simp add: within_limit_def budget_ok_def)
  have good: "length [packet_hi] \<le> good_passes [packet_hi] ?sched" by (simp add: good_passes_def has_room_def packet_hi_def DCMPIPacket_new_def)
  obtain rt' fds' fd' where run: "outq_handler False (map Some [packet_hi] @ [None]) one_filter [1 \<mapsto> ?fd] = Some (Inr (rt', fds'))" "fds' 1 = Some fd'"
    and u: "\<forall>m. usage_of (budgets rt') m = usage_of (budgets one_filter) m - held_by (charged one_filter) m (sent_bodies one_filter [packet_hi])"
    and r: "\<forall>inp. incoming inp = drop (length (outgoing ?fd)) (outgoing fd') \<and> read_ready (length (incoming inp)) inp \<longrightarrow>
         (\<exists>ds st' inp' k. channel_run (socket_pass True 0) ?sched (None, []) inp = Some (Inr ((ds, st', sum_list (map held ds)), inp'))
           \<and> list_all2 (passed_on_by False) (take k [packet_hi]) ds \<and> (length [packet_hi] \<le> good_passes [packet_hi] ?sched \<longrightarrow> length ds = length [packet_hi]))"
    using socket_hop [OF 1 2 3 4 mine 5, of True 0 "[]"] by (elim exE conjE) blast
  have "usage_of (budgets rt') 1 = 0"
    unfolding spec [OF u] by (simp add: sent_out_def way src b usage_of_def budgets_def) (simp add: one_filter_def)
  moreover obtain ds st' inp' where
    "channel_run (socket_pass True 0) ?sched (None, []) \<lparr>in_events = replicate (length (outgoing fd')) (Read_upto 0), incoming = outgoing fd'\<rparr>
       = Some (Inr ((ds, st', sum_list (map held ds)), inp'))" "length ds = 1"
    using spec [OF r, of "\<lparr>in_events = replicate (length (outgoing fd')) (Read_upto 0), incoming = outgoing fd'\<rparr>"] good
    by (auto simp: read_ready_def no_errors_def)
  ultimately show ?thesis using run by (simp only: list.map append.simps) blast
qed

end
