(* ===== verification/BufferGrowth.thy ===== *)
theory BufferGrowth
  imports Buffer
begin

text \<open>
  How the block of a \<open>DCBuffer\<close> grows when bytes are appended piece by piece (\<open>append_room\<close>): how large
  it becomes and how often it is replaced.
\<close>

section \<open>One append\<close>

text \<open>The size of the block and the count of replacements after an append.\<close>

definition room_after :: "int \<Rightarrow> DCBuffer \<Rightarrow> int \<times> int" where
  "room_after n b =
     (if wSize b + n \<le> wMax b then (wMax b, appendReallocs b)
      else if pBuf b = None then (max 8192 n, 0)
      else (grown_max n (b\<lparr>appendReallocs := appendReallocs b + 1\<rparr>), appendReallocs b + 1))"

lemma append_room_after:
  "append_room host n b = Inr b' \<Longrightarrow> wMax b < wSize b + n \<Longrightarrow> (wMax b', appendReallocs b') = room_after n b \<and> pBuf b' \<noteq> None"
  by (auto simp: append_room_def room_after_def New_def commonInit_def Let_def result_simps split: if_splits)

lemma Append_after:
  assumes "Append host add conv b = Inr b'"
  shows "(wMax b', appendReallocs b') = room_after (int (length add)) b \<and> (pBuf b \<noteq> None \<or> add \<noteq> [] \<longrightarrow> pBuf b' \<noteq> None)
    \<and> (add = [] \<and> wSize b \<le> wMax b \<longrightarrow> b' = b)"
proof -
  let ?n = "int (length add)"
  have "int4_ok (wSize b + ?n)" using assms by (auto simp: Append_def Let_def split: if_splits)
  then obtain b1 where b1: "(if wMax b < wSize b + ?n then append_room host ?n b else Inr b) = Inr b1"
    and out: "(if ?n = 0 then Inr b1
       else bind_result (if conv then SwapByteArray 1 (length add) add True else Inr add) (\<lambda>bytes.
         bind_result (block_write (mem b1) (nat (wSize b1)) bytes) (\<lambda>blk. Inr (b1\<lparr>pBuf := Some blk, wSize := wSize b1 + ?n\<rparr>)))) = Inr b'"
    using assms by (simp only: Append_def Let_def simp_thms if_False bind_result_Inr_iff) blast
  have b': "b' = b1 \<and> ?n = 0 \<or> (\<exists>blk. b' = b1\<lparr>pBuf := Some blk, wSize := wSize b1 + ?n\<rparr> \<and> ?n \<noteq> 0)"
    using out by (cases "?n = 0") (auto simp: bind_result_Inr_iff)
  have "(wMax b1, appendReallocs b1) = room_after ?n b \<and> (pBuf b \<noteq> None \<longrightarrow> pBuf b1 \<noteq> None)"
    using b1 append_room_after [of host ?n b b1] by (cases "wMax b < wSize b + ?n") (auto simp: room_after_def)
  then show ?thesis using b' b1 by (auto split: if_splits)
qed

section \<open>Many appends\<close>

definition grown_from_empty :: "DCBuffer \<Rightarrow> bool" where
  "grown_from_empty b \<longleftrightarrow> 0 \<le> appendReallocs b
     \<and> (if pBuf b = None then wSize b = 0 \<and> wMax b = 0 \<and> appendReallocs b = 0
        else 8192 * 2 ^ (nat (appendReallocs b) - 3) \<le> wMax b)
     \<and> wMax b \<le> max (wSize b + 8192) (2 * wSize b)"

lemma grown_step:
  assumes g: "grown_from_empty b" and wf: "buf_wf b" and n: "0 < n"
  shows "snd (room_after n b) \<ge> 0 \<and> 8192 * 2 ^ (nat (snd (room_after n b)) - 3) \<le> fst (room_after n b)
    \<and> fst (room_after n b) \<le> max (wSize b + n + 8192) (2 * (wSize b + n))"
proof -
  have s: "0 \<le> wSize b" "wSize b \<le> wMax b" using wf by (auto simp: buf_wf_def)
  note g' = g [unfolded grown_from_empty_def]
  consider (fits) "wSize b + n \<le> wMax b" | (first) "wMax b < wSize b + n" "pBuf b = None"
    | (bytes) "wMax b < wSize b + n" "pBuf b \<noteq> None" "appendReallocs b < 3"
    | (double) "wMax b < wSize b + n" "pBuf b \<noteq> None" "3 \<le> appendReallocs b" by linarith
  then show ?thesis
  proof cases
    case fits
    then have "pBuf b \<noteq> None" using g' n s by (auto split: if_splits)
    with fits g' n show ?thesis by (auto simp: room_after_def)
  next
    case first
    then have "wSize b = 0" using g' by simp
    with first n show ?thesis by (auto simp: room_after_def max_def)
  next
    case bytes
    then have "nat (appendReallocs b + 1) - 3 = 0" "nat (appendReallocs b) - 3 = 0" by simp_all
    moreover from this(2) have "8192 \<le> wMax b" using g' bytes by simp
    ultimately show ?thesis using bytes s n g' by (auto simp: room_after_def grown_max_def)
  next
    case double
    then have "nat (appendReallocs b + 1) - 3 = Suc (nat (appendReallocs b) - 3)" by simp
    moreover have "8192 * 2 ^ (nat (appendReallocs b) - 3) \<le> wMax b" using g' double by simp
    ultimately show ?thesis using double s n by (auto simp: room_after_def grown_max_def max_def)
  qed
qed

lemma grown_append:
  assumes "grown_from_empty b" and "buf_wf b" and "growable b" and "2 * (wSize b + int (length add)) < 2 ^ 31"
  obtains b' where "Append host add conv b = Inr b'" "grown_from_empty b'" "buf_wf b'" "growable b'"
    "used b' = used b @ (if conv then rev add else add)"
proof -
  obtain b' where b': "Append host add conv b = Inr b'" "buf_wf b'" "growable b'" "used b' = used b @ (if conv then rev add else add)"
    "wSize b' = wSize b + int (length add)"
    using Append_ok [OF assms(2) _ assms(4), of host conv] assms(3) by blast
  note r = Append_after [OF b'(1)]
  have "grown_from_empty b'"
  proof (cases "add = []")
    case True
    then have "b' = b" using r assms(2) by (simp add: buf_wf_def)
    then show ?thesis using assms(1) by simp
  next
    case False
    then have "0 < int (length add)" by simp
    have e: "room_after (int (length add)) b = (wMax b', appendReallocs b')" using r by simp
    from grown_step [OF assms(1,2) \<open>0 < int (length add)\<close>] have
      "0 \<le> appendReallocs b'" "8192 * 2 ^ (nat (appendReallocs b') - 3) \<le> wMax b'"
      "wMax b' \<le> max (wSize b + int (length add) + 8192) (2 * (wSize b + int (length add)))"
      unfolding e by simp_all
    moreover have "pBuf b' \<noteq> None" using r False by simp
    ultimately show ?thesis unfolding grown_from_empty_def b'(5) by auto
  qed
  with b' that show thesis by blast
qed

text \<open>
  C35. A buffer that is filled from empty by any number of appends with less than 2 to the 30 bytes in all
  always has room: no append fails, the bytes are there in order, and the block is at most 8 KB
  larger than what is used or twice as large. From the fourth replacement on the block at least doubles, so
  that it is replaced a logarithmic number of times only.
\<close>

theorem appends_bounded:
  assumes "int (length (concat adds)) < 2 ^ 30"
  shows "\<exists>b. fold_result (\<lambda>add. Append host add False) adds (DCBuffer_empty host) = Inr b \<and> buf_wf b \<and> used b = concat adds
    \<and> wMax b \<le> max (int (length (used b)) + 8192) (2 * int (length (used b)))
    \<and> 0 \<le> appendReallocs b \<and> (used b \<noteq> [] \<longrightarrow> 8192 * 2 ^ (nat (appendReallocs b) - 3) \<le> wMax b)"
proof -
  have "\<exists>b'. fold_result (\<lambda>add. Append host add False) adds b = Inr b' \<and> grown_from_empty b' \<and> buf_wf b' \<and> used b' = used b @ concat adds"
    if "grown_from_empty b" "buf_wf b" "growable b" "wSize b + int (length (concat adds)) < 2 ^ 30" for b
    using that
  proof (induction adds arbitrary: b)
    case Nil
    then show ?case by simp
  next
    case (Cons add adds)
    have "2 * (wSize b + int (length add)) < 2 ^ 31" using Cons.prems(4) by simp
    then obtain b1 where b1: "Append host add False b = Inr b1" "grown_from_empty b1" "buf_wf b1" "growable b1" "used b1 = used b @ add"
      using grown_append [OF Cons.prems(1-3), of add host False] by auto
    have "wSize b1 = wSize b + int (length add)"
      using wSize_used [OF b1(3)] wSize_used [OF Cons.prems(2)] b1(5) by simp
    then have "wSize b1 + int (length (concat adds)) < 2 ^ 30" using Cons.prems(4) by simp
    from Cons.IH [OF b1(2-4) this] b1(1,5) show ?case by auto
  qed
  moreover have "grown_from_empty (DCBuffer_empty host)"
    by (simp add: grown_from_empty_def DCBuffer_empty_def commonInit_def)
  ultimately obtain b where b: "fold_result (\<lambda>add. Append host add False) adds (DCBuffer_empty host) = Inr b"
    "grown_from_empty b" "buf_wf b" "used b = concat adds" using assms by fastforce
  have "used b \<noteq> [] \<Longrightarrow> pBuf b \<noteq> None" by (cases "pBuf b") (simp_all add: used_def mem_def)
  then show ?thesis using b(2) unfolding grown_from_empty_def wSize_used [OF b(3)]
    by (intro exI [of _ b]) (auto simp: b(1,3,4))
qed

theorem appends_bounded_witness:
  "\<exists>b. fold_result (\<lambda>add. Append True add False) [''ab'', replicate 9000 (CHR ''x''), ''c''] (DCBuffer_empty True) = Inr b
    \<and> length (used b) = 9003 \<and> wMax b \<le> 18006"
  using appends_bounded [of "[''ab'', replicate 9000 (CHR ''x''), ''c'']" True] by force

end
