(* ===== verification/SocketStart.thy ===== *)
theory SocketStart
  imports Launch PacketStream
begin

text \<open>
  How the ranks of the runtime without MPI find each other (\<open>dcmpisock_startup\<close> of
  \<open>src/src/dcmpiruntime-socket.cpp\<close>): the arguments, the commands that start the other ranks, the connections
  to rank 0, the ports that it passes on, and the connections among the others. The addresses of
  this host and whether a name is this host's are arguments; accepting a connection gives one that a
  peer has opened.
\<close>

section \<open>Hosts in a file\<close>

text \<open>
  \<open>dcmpi_file_lines_to_vector\<close> (\<open>src/src/dcmpi.cpp\<close>): the last character of a line is cut, whatever it is; an
  empty C string in the buffer makes the cut write in front of it.
\<close>

function file_lines_loop :: "string \<Rightarrow> string list \<Rightarrow> string list result" where
  "file_lines_loop f out =
     (if f = [] then Inr out
      else let line = fgets_line 256 f;
               buf = c_string line
           in if buf = [] then Inl Undefined_behaviour
              else let s = butlast buf
                   in file_lines_loop (drop (length line) f) (if s \<noteq> [] \<and> hd s \<noteq> CHR ''#'' then out @ [s] else out))"
  by pat_completeness auto
termination by (relation "measure (\<lambda>(f, _). length f)") (auto intro!: drop_fgets_line)

declare file_lines_loop.simps [simp del]

definition dcmpi_file_lines_to_vector :: "files \<Rightarrow> string \<Rightarrow> string list result" where
  "dcmpi_file_lines_to_vector files filename =
     (case files filename of None \<Rightarrow> Inl Exit_failure | Some f \<Rightarrow> file_lines_loop f [])"

section \<open>Arguments\<close>

record sock_args =
  rank :: int
  sock_size :: int
  rank_hosts :: "string list"
  rsh :: string
  wrapper :: string
  wrapperhosts :: "string list"
  master_host :: string
  master_port :: int
  run_rank0_on_localhost :: bool

definition sock_args_init :: "int \<Rightarrow> int \<Rightarrow> sock_args" where
  "sock_args_init rank0 size0 = \<lparr>rank = rank0, sock_size = size0, rank_hosts = [], rsh = ''ssh -n -x'', wrapper = [], wrapperhosts = [],
     master_host = [], master_port = - 1, run_rank0_on_localhost = False\<rparr>"

definition read_hostfile :: "files \<Rightarrow> (string \<Rightarrow> bool) \<Rightarrow> string \<Rightarrow> sock_args \<Rightarrow> sock_args result" where
  "read_hostfile files resembles_localhost hostfile g =
     bind_result (dcmpi_file_lines_to_vector files hostfile) (\<lambda>hosts.
       if hosts = [] then Inl Assert_failure
       else Inr (g\<lparr>rank_hosts := hosts, run_rank0_on_localhost := run_rank0_on_localhost g \<or> resembles_localhost (hd hosts)\<rparr>))"

text \<open>
  The loop over the arguments behind \<open>argv[0]\<close>, while there are two of them; it leaves those that it does not
  know. \<open>dcmpi_args_shift\<close> drops the first.
\<close>

fun sock_args_loop :: "files \<Rightarrow> (string \<Rightarrow> bool) \<Rightarrow> string list \<Rightarrow> sock_args \<Rightarrow> (string list \<times> sock_args) result" where
  "sock_args_loop files local (a # b # argv) g =
     (if a = ''-rank'' then (case Atoi b of Inl e \<Rightarrow> Inl e | Inr i \<Rightarrow> sock_args_loop files local argv (g\<lparr>rank := i\<rparr>))
      else if a = ''-forcerank0local'' then sock_args_loop files local (b # argv) (g\<lparr>run_rank0_on_localhost := True\<rparr>)
      else if a = ''-hostfile'' then (case read_hostfile files local b g of Inl e \<Rightarrow> Inl e | Inr g' \<Rightarrow> sock_args_loop files local argv g')
      else if a = ''-h'' then sock_args_loop files local argv (g\<lparr>rank_hosts := rank_hosts g @ [b]\<rparr>)
      else if a = ''-size'' then (case Atoi b of Inl e \<Rightarrow> Inl e | Inr i \<Rightarrow> sock_args_loop files local argv (g\<lparr>sock_size := i\<rparr>))
      else if a = ''-rsh'' then (case shell_unquote b of Inl e \<Rightarrow> Inl e | Inr s \<Rightarrow> sock_args_loop files local argv (g\<lparr>rsh := s\<rparr>))
      else if a = ''-master_host'' then sock_args_loop files local argv (g\<lparr>master_host := b\<rparr>)
      else if a = ''-master_port'' then (case Atoi b of Inl e \<Rightarrow> Inl e | Inr i \<Rightarrow> sock_args_loop files local argv (g\<lparr>master_port := i\<rparr>))
      else if a = ''-wrapper'' then (case shell_unquote b of Inl e \<Rightarrow> Inl e | Inr s \<Rightarrow> sock_args_loop files local argv (g\<lparr>wrapper := s\<rparr>))
      else if a = ''-wrapperhosts'' then
        (case bind_result (shell_unquote b) (\<lambda>s. dcmpi_string_tokenize s '','') of
           Inl e \<Rightarrow> Inl e | Inr hs \<Rightarrow> sock_args_loop files local argv (g\<lparr>wrapperhosts := hs\<rparr>))
      else if a = ''-exe'' then sock_args_loop files local argv g
      else Inr (a # b # argv, g))"
| "sock_args_loop files local argv g = Inr (argv, g)"

text \<open>\<open>argc - 1 < 5\<close> is the usage message.\<close>

definition sock_args_parse :: "files \<Rightarrow> (string \<Rightarrow> bool) \<Rightarrow> string list \<Rightarrow> sock_args \<Rightarrow> (string list \<times> sock_args) result" where
  "sock_args_parse files local argv g =
     (if length (tl argv) < 5 then Inl Exit_failure
      else bind_result (sock_args_loop files local (tl argv) g) (\<lambda>(rest, g').
        if rsh g' = [] then Inl Assert_failure else Inr (hd argv # rest, g')))"

text \<open>
  The command that starts rank \<open>u\<close>; \<open>argv\<close> is what the loop has left, and the port of the master is the one
  that rank 0 listens on.
\<close>

definition master_hosts :: "string list \<Rightarrow> string" where
  "master_hosts ips = concat (map (\<lambda>(i, ip). (if i \<noteq> 0 then '','' else []) @ ip) (enumerate 0 ips))"

definition wrapped :: "sock_args \<Rightarrow> nat \<Rightarrow> string" where
  "wrapped g u = (if wrapper g \<noteq> [] \<and> (wrapperhosts g = [] \<or> rank_hosts g ! u \<in> set (wrapperhosts g)) then '' '' @ wrapper g else [])"

definition common_args :: "string list \<Rightarrow> sock_args \<Rightarrow> string" where
  "common_args argv g = concat (map (\<lambda>h. '' -h '' @ h) (rank_hosts g)) @ concat (map (\<lambda>a. '' '' @ a) (tl argv))"

definition rank_command :: "string list \<Rightarrow> int \<Rightarrow> string list \<Rightarrow> sock_args \<Rightarrow> nat \<Rightarrow> string" where
  "rank_command ips listen_port argv g u =
     rsh g @ '' '' @ rank_hosts g ! u @ wrapped g u @ '' '' @ hd argv @ '' -rank '' @ dcmpi_to_string (int u)
       @ '' -size '' @ dcmpi_to_string (sock_size g) @ '' -master_host '' @ master_hosts ips
       @ '' -master_port '' @ dcmpi_to_string listen_port @ common_args argv g"

definition rank_commands :: "string list \<Rightarrow> int \<Rightarrow> string list \<Rightarrow> sock_args \<Rightarrow> string list" where
  "rank_commands ips listen_port argv g = map (rank_command ips listen_port argv g) [1..<length (rank_hosts g)]"

section \<open>What the arguments become\<close>

text \<open>A host as a line of the machine file and as a word of a command.\<close>

definition plain_host :: "string \<Rightarrow> bool" where
  "plain_host h \<longleftrightarrow> plain_word h \<and> newline \<notin> set h \<and> CHR 0x00 \<notin> set h \<and> hd h \<noteq> CHR ''#'' \<and> length h < 255"

lemma file_lines_hosts:
  assumes "\<forall>h\<in>set hosts. plain_host h"
  shows "file_lines_loop (concat (map (\<lambda>h. h @ [newline]) hosts)) out = Inr (out @ hosts)"
  using assms
proof (induction hosts arbitrary: out)
  case Nil
  then show ?case by (simp add: file_lines_loop.simps)
next
  case (Cons h hosts)
  let ?f = "concat (map (\<lambda>h. h @ [newline]) hosts)"
  have h: "h \<noteq> []" "newline \<notin> set h" "CHR 0x00 \<notin> set h" "hd h \<noteq> CHR ''#''" "length h < 255"
    using Cons.prems by (auto simp: plain_host_def plain_word_def)
  have l: "fgets_line 256 (h @ newline # ?f) = h @ [newline]" using h by (intro fgets_newline) auto
  have c: "c_string (h @ [newline]) = h @ [newline]" using h by (intro c_string_id) auto
  show ?case using Cons h l c
    by (subst file_lines_loop.simps) (simp add: Let_def)
qed

lemma loop_hosts:
  "sock_args_loop files local (concat (map (\<lambda>h. [''-h'', h]) hosts) @ argv) g
     = sock_args_loop files local argv (g\<lparr>rank_hosts := rank_hosts g @ hosts\<rparr>)"
  by (induction hosts arbitrary: g) auto

lemma loop_stops: "sock_args_loop files local (''dcmpi_control_args_begin'' # argv) g = Inr (''dcmpi_control_args_begin'' # argv, g)"
  by (cases argv) simp_all

lemma words_args:
  "\<forall>w \<in> set ws. plain_word w \<Longrightarrow> words '' '' (a @ concat (map (\<lambda>w. '' '' @ w) ws)) = words '' '' a @ ws"
proof (induction ws arbitrary: a)
  case (Cons w ws)
  have "words '' '' (a @ CHR '' '' # w) = words '' '' a @ [w]"
    using Cons.prems by (simp add: words_append_space words_plain)
  then show ?case using Cons.IH [of "a @ '' '' @ w"] Cons.prems by auto
qed simp

lemma words_option: "plain_word v \<Longrightarrow> words '' '' (a @ '' '' @ v) = words '' '' a @ [v]"
  by (simp add: words_append_space words_plain)

text \<open>The arguments that the other ranks get, after the program.\<close>

lemma words_rank_command:
  assumes "plain_word exe" and "\<forall>h \<in> set (rank_hosts g). plain_word h" and "\<forall>a \<in> set rest. plain_word a"
    and "plain_word (master_hosts ips)" and size: "sock_size g = int n"
  shows "\<exists>cmd. rank_command ips (int port) (exe # rest) g u = rsh g @ '' '' @ rank_hosts g ! u @ wrapped g u @ '' '' @ cmd
    \<and> words '' '' cmd = exe # [''-rank'', dcmpi_to_string (int u), ''-size'', dcmpi_to_string (sock_size g), ''-master_host'', master_hosts ips,
        ''-master_port'', dcmpi_to_string (int port)] @ concat (map (\<lambda>h. [''-h'', h]) (rank_hosts g)) @ rest"
proof -
  define o1 where "o1 = ''-rank''"
  define o2 where "o2 = ''-size''"
  define o3 where "o3 = ''-master_host''"
  define o4 where "o4 = ''-master_port''"
  have o: "plain_word o1" "plain_word o2" "plain_word o3" "plain_word o4"
    by (simp_all add: o1_def o2_def o3_def o4_def plain_word_def)
  define front where "front = exe @ concat (map (\<lambda>w. '' '' @ w) [o1, dcmpi_to_string (int u), o2, dcmpi_to_string (int n), o3, master_hosts ips,
      o4, dcmpi_to_string (int port)])"
  have "words '' '' front = words '' '' exe @ [o1, dcmpi_to_string (int u), o2, dcmpi_to_string (int n), o3, master_hosts ips,
      o4, dcmpi_to_string (int port)]"
    unfolding front_def using o plain_number assms(4) by (intro words_args) auto
  then have f: "words '' '' front = exe # [o1, dcmpi_to_string (int u), o2, dcmpi_to_string (int n), o3, master_hosts ips,
      o4, dcmpi_to_string (int port)]" using words_plain [OF assms(1)] by simp
  define cmd where "cmd = front @ concat (map (\<lambda>h. '' -h '' @ h) (rank_hosts g)) @ concat (map (\<lambda>a. '' '' @ a) rest)"
  have "words '' '' cmd = words '' '' (front @ concat (map (\<lambda>h. '' -h '' @ h) (rank_hosts g))) @ rest"
    unfolding cmd_def append_assoc [symmetric] by (rule words_args [OF assms(3)])
  also have "words '' '' (front @ concat (map (\<lambda>h. '' -h '' @ h) (rank_hosts g))) = words '' '' front @ concat (map (\<lambda>h. [''-h'', h]) (rank_hosts g))"
    by (rule words_hosts [OF assms(2)])
  finally have w: "words '' '' cmd = exe # [o1, dcmpi_to_string (int u), o2, dcmpi_to_string (int n), o3, master_hosts ips,
      o4, dcmpi_to_string (int port)] @ concat (map (\<lambda>h. [''-h'', h]) (rank_hosts g)) @ rest" by (simp add: f)
  have "rank_command ips (int port) (exe # rest) g u = rsh g @ '' '' @ rank_hosts g ! u @ wrapped g u @ '' '' @ cmd"
    by (simp add: rank_command_def common_args_def size cmd_def front_def o1_def o2_def o3_def o4_def)
  with w show ?thesis unfolding size o1_def o2_def o3_def o4_def by blast
qed

text \<open>
  C29. The socket runtime starts: rank 0 takes from the command of the console, as \<open>dcmpirun-socket\<close> runs it,
  its rank, the number of ranks and the hosts of the machine file, and leaves the control arguments. The command
  that it runs for any other host has as its words the program and arguments from which that rank gets its
  number, the same size, hosts and control arguments, and where to find rank 0.
\<close>

theorem socket_ranks_start:
  assumes "hosts \<noteq> []" and "\<forall>h\<in>set hosts. plain_host h" and "length hosts < 2 ^ 31"
    and "files machinefile = Some (concat (map (\<lambda>h. h @ [newline]) hosts))"
    and "plain_word exe" and "rest = ''dcmpi_control_args_begin'' # params" and "\<forall>a\<in>set params. plain_word a"
    and "plain_word (master_hosts ips)" and "port < 2 ^ 16" and "0 < u" and "u < length hosts"
  shows "\<exists>g cmd. sock_args_parse files local ([exe, ''-rank'', ''0'', ''-hostfile'', machinefile, ''-size'', dcmpi_to_string (int (length hosts)),
        ''-exe'', exe0] @ rest) (sock_args_init r0 s0) = Inr (exe # rest, g)
    \<and> rank g = 0 \<and> sock_size g = int (length hosts) \<and> rank_hosts g = hosts \<and> run_rank0_on_localhost g = local (hd hosts)
    \<and> rank_commands ips (int port) (exe # rest) g ! (u - 1) = ''ssh -n -x '' @ hosts ! u @ '' '' @ cmd
    \<and> sock_args_parse files' local' (words '' '' cmd) (sock_args_init r1 s1) = Inr (exe # rest,
        (sock_args_init r1 s1)\<lparr>rank := int u, sock_size := int (length hosts), rank_hosts := hosts,
           master_host := master_hosts ips, master_port := int port\<rparr>)"
proof -
  define g where "g = (sock_args_init r0 s0)\<lparr>rank := 0, rank_hosts := hosts, run_rank0_on_localhost := local (hd hosts),
    sock_size := int (length hosts)\<rparr>"
  have zero: "Atoi ''0'' = Inr 0" by code_simp
  have named: "read_hostfile files local machinefile h = Inr (h\<lparr>rank_hosts := hosts, run_rank0_on_localhost := run_rank0_on_localhost h \<or> local (hd hosts)\<rparr>)" for h
    using file_lines_hosts [OF assms(2), of "[]"] assms(1,4) by (simp add: read_hostfile_def dcmpi_file_lines_to_vector_def)
  have n: "Atoi (dcmpi_to_string (int (length hosts))) = Inr (int (length hosts))" using assms(3) by (intro Atoi_digits) simp
  have first: "sock_args_loop files local ([''-rank'', ''0'', ''-hostfile'', machinefile, ''-size'', dcmpi_to_string (int (length hosts)),
        ''-exe'', exe0] @ rest) (sock_args_init r0 s0) = Inr (rest, g)"
    by (simp add: zero named n assms(6) loop_stops) (simp add: g_def sock_args_init_def)
  have g: "rank g = 0" "sock_size g = int (length hosts)" "rank_hosts g = hosts" "run_rank0_on_localhost g = local (hd hosts)"
    "rsh g = ''ssh -n -x''" "wrapper g = []"
    by (simp_all add: g_def sock_args_init_def)
  have 0: "sock_args_parse files local ([exe, ''-rank'', ''0'', ''-hostfile'', machinefile, ''-size'', dcmpi_to_string (int (length hosts)),
        ''-exe'', exe0] @ rest) (sock_args_init r0 s0) = Inr (exe # rest, g)"
    using first g(5) by (simp add: sock_args_parse_def)
  have plain: "\<forall>h \<in> set (rank_hosts g). plain_word h" "\<forall>a \<in> set rest. plain_word a"
    using assms(2,6,7) by (auto simp: g(3) plain_host_def plain_word_def)
  obtain cmd where cmd: "rank_command ips (int port) (exe # rest) g u = rsh g @ '' '' @ rank_hosts g ! u @ wrapped g u @ '' '' @ cmd"
    "words '' '' cmd = exe # [''-rank'', dcmpi_to_string (int u), ''-size'', dcmpi_to_string (sock_size g), ''-master_host'', master_hosts ips,
        ''-master_port'', dcmpi_to_string (int port)] @ concat (map (\<lambda>h. [''-h'', h]) (rank_hosts g)) @ rest"
    using words_rank_command [OF assms(5) plain assms(8) g(2), of port u] by blast
  have u: "Atoi (dcmpi_to_string (int u)) = Inr (int u)" using assms(3,11) by (intro Atoi_digits) simp
  have p: "Atoi (dcmpi_to_string (int port)) = Inr (int port)" using assms(9) by (intro Atoi_digits) simp
  let ?g = "(sock_args_init r1 s1)\<lparr>rank := int u, sock_size := int (length hosts), rank_hosts := hosts,
           master_host := master_hosts ips, master_port := int port\<rparr>"
  have second: "sock_args_loop files' local' (tl (words '' '' cmd)) (sock_args_init r1 s1) = Inr (rest, ?g)"
    unfolding cmd(2) g(2,3) by (simp add: u n p loop_hosts assms(6) loop_stops) (simp add: sock_args_init_def)
  have ne: "concat (map (\<lambda>h. [''-h'', h]) hosts) \<noteq> []" using assms(1) by (cases hosts) simp_all
  have 1: "sock_args_parse files' local' (words '' '' cmd) (sock_args_init r1 s1) = Inr (exe # rest, ?g)"
    using second unfolding sock_args_parse_def cmd(2) g(3) by (simp add: sock_args_init_def)
  have "rank_commands ips (int port) (exe # rest) g ! (u - 1) = ''ssh -n -x '' @ hosts ! u @ '' '' @ cmd"
    using cmd(1) assms(10,11) by (simp add: rank_commands_def g wrapped_def)
  with 0 1 g show ?thesis by blast
qed

text \<open>Two hosts; the other rank is told the address 10.0.0.1 and port 4000.\<close>

lemma socket_ranks_start_witness:
  "\<exists>g cmd g'. sock_args_parse [''/m'' \<mapsto> ''n0'' @ newline # ''n1'' @ [newline]] (\<lambda>h. h = ''n0'') [''/rt'', ''-rank'', ''0'', ''-hostfile'', ''/m'',
        ''-size'', dcmpi_to_string 2, ''-exe'', ''/rt'', ''dcmpi_control_args_begin'', ''dcmpi_control_args_end''] (sock_args_init 7 7)
      = Inr ([''/rt'', ''dcmpi_control_args_begin'', ''dcmpi_control_args_end''], g)
    \<and> rank_commands [''10.0.0.1''] 4000 [''/rt'', ''dcmpi_control_args_begin'', ''dcmpi_control_args_end''] g ! 0 = ''ssh -n -x n1 '' @ cmd
    \<and> sock_args_parse (\<lambda>_. None) (\<lambda>h. h = ''n1'') (words '' '' cmd) (sock_args_init 7 7)
      = Inr ([''/rt'', ''dcmpi_control_args_begin'', ''dcmpi_control_args_end''], g')
    \<and> rank g' = 1 \<and> rank_hosts g' = [''n0'', ''n1''] \<and> master_host g' = ''10.0.0.1'' \<and> master_port g' = 4000"
proof -
  let ?hosts = "[''n0'', ''n1'']"
  have m: "master_hosts [''10.0.0.1''] = ''10.0.0.1''" by (simp add: master_hosts_def)
  have h: "?hosts \<noteq> []" "\<forall>h\<in>set ?hosts. plain_host h" "length ?hosts < 2 ^ 31"
    "[''/m'' \<mapsto> ''n0'' @ newline # ''n1'' @ [newline]] ''/m'' = Some (concat (map (\<lambda>h. h @ [newline]) ?hosts))"
    by (simp_all add: plain_host_def plain_word_def)
  have w: "plain_word ''/rt''" "\<forall>a\<in>set [''dcmpi_control_args_end'']. plain_word a" "plain_word (master_hosts [''10.0.0.1''])"
    by (simp_all add: plain_word_def m)
  have u: "(4000 :: nat) < 2 ^ 16" "0 < (1 :: nat)" "1 < length ?hosts" by simp_all
  from socket_ranks_start [where files = "[''/m'' \<mapsto> ''n0'' @ newline # ''n1'' @ [newline]]" and machinefile = "''/m''", OF h w(1) refl w(2,3) u, of "\<lambda>h. h = ''n0''" "''/rt''" 7 7 "\<lambda>_. None" "\<lambda>h. h = ''n1''" 7 7]
  obtain g cmd where r: "sock_args_parse [''/m'' \<mapsto> ''n0'' @ newline # ''n1'' @ [newline]] (\<lambda>h. h = ''n0'') ([''/rt'', ''-rank'', ''0'', ''-hostfile'', ''/m'',
        ''-size'', dcmpi_to_string (int (length ?hosts)), ''-exe'', ''/rt''] @ ''dcmpi_control_args_begin'' # [''dcmpi_control_args_end'']) (sock_args_init 7 7)
      = Inr (''/rt'' # ''dcmpi_control_args_begin'' # [''dcmpi_control_args_end''], g)"
    "rank_commands [''10.0.0.1''] (int 4000) (''/rt'' # ''dcmpi_control_args_begin'' # [''dcmpi_control_args_end'']) g ! (1 - 1)
      = ''ssh -n -x '' @ ?hosts ! 1 @ '' '' @ cmd"
    "sock_args_parse (\<lambda>_. None) (\<lambda>h. h = ''n1'') (words '' '' cmd) (sock_args_init 7 7) = Inr (''/rt'' # ''dcmpi_control_args_begin'' # [''dcmpi_control_args_end''],
        (sock_args_init 7 7)\<lparr>rank := int 1, sock_size := int (length ?hosts), rank_hosts := ?hosts,
           master_host := master_hosts [''10.0.0.1''], master_port := int 4000\<rparr>)"
    by (elim exE conjE) blast
  show ?thesis
    by (intro exI [of _ g] exI [of _ cmd] exI [of _ "(sock_args_init 7 7)\<lparr>rank := int 1, sock_size := int (length ?hosts), rank_hosts := ?hosts,
           master_host := master_hosts [''10.0.0.1''], master_port := int 4000\<rparr>"] conjI)
      (use r in \<open>simp_all add: m\<close>)
qed

end
