(* ===== verification/SocketMesh.thy ===== *)
theory SocketMesh
  imports SocketStart Proxy
begin

text \<open>
  The connections of the socket runtime (\<open>dcmpisock_startup\<close> of \<open>src/src/dcmpiruntime-socket.cpp\<close>): how rank 0 registers
  the two connections of every rank and tells all ranks the ports, and how the other ranks connect to each other. The
  last part is concurrent and modelled as steps of the ranks: a connection that a rank opens, with the lines it
  writes on it, waits in the queue of the listening socket until the other rank accepts it. Opening a
  connection to a socket that listens succeeds.
\<close>

section \<open>Registration with rank 0\<close>

text \<open>\<open>rank_fds\<close>, \<open>rank_ports\<close> and \<open>rank0_barrier_fds\<close>; a descriptor is the number of the accepted connection.\<close>

record registered =
  rank_fd :: "int \<Rightarrow> nat option"
  rank_ports :: "int \<Rightarrow> int"
  rank0_barrier_fd :: "int \<Rightarrow> nat option"

definition nobody :: registered where
  "nobody = \<lparr>rank_fd = (\<lambda>_. None), rank_ports = (\<lambda>_. - 1), rank0_barrier_fd = (\<lambda>_. None)\<rparr>"

definition accept_rank :: "int \<Rightarrow> int \<Rightarrow> nat \<Rightarrow> registered \<Rightarrow> in_fd \<Rightarrow> (registered, in_fd) io" where
  "accept_rank errno sz sd st fd =
     bind_io (dcmpi_socket_read_line errno fd) (\<lambda>hn fd1.
     bind_io (dcmpi_socket_read_line errno fd1) (\<lambda>rnk fd2.
       case Atoi rnk of
         Inl e \<Rightarrow> fail e
       | Inr r \<Rightarrow>
           if r < 0 \<or> sz \<le> r then fail Undefined_behaviour
           else if rank_fd st r = None then
             bind_io (dcmpi_socket_read_line errno fd2) (\<lambda>prt fd3.
               case Atoi prt of
                 Inl e \<Rightarrow> fail e
               | Inr p \<Rightarrow> ret (st\<lparr>rank_fd := (rank_fd st)(r := Some sd), rank_ports := (rank_ports st)(r := p)\<rparr>) fd3)
           else ret (st\<lparr>rank0_barrier_fd := (rank0_barrier_fd st)(r := Some sd)\<rparr>) fd2))"

text \<open>The connections in the order in which they are accepted; \<open>None\<close> is a read that waits for ever.\<close>

fun accept_ranks :: "int \<Rightarrow> int \<Rightarrow> nat \<Rightarrow> in_fd list \<Rightarrow> registered \<Rightarrow> registered result option" where
  "accept_ranks errno sz sd [] st = Some (Inr st)"
| "accept_ranks errno sz sd (fd # fds) st =
     (case accept_rank errno sz sd st fd of
        None \<Rightarrow> None
      | Some (Inl e) \<Rightarrow> Some (Inl e)
      | Some (Inr (st', _)) \<Rightarrow> accept_ranks errno sz (Suc sd) fds st')"

section \<open>The ports\<close>

definition write_port_info :: "string \<Rightarrow> int \<Rightarrow> int \<Rightarrow> out_fd \<Rightarrow> (unit, out_fd) io" where
  "write_port_info host i port fd =
     bind_io (dcmpi_socket_write_line host fd) (\<lambda>_ fd1.
     bind_io (dcmpi_socket_write_line (dcmpi_to_string i) fd1) (\<lambda>_ fd2.
       dcmpi_socket_write_line (dcmpi_to_string port) fd2))"

fun disseminate :: "string list \<Rightarrow> (int \<Rightarrow> int) \<Rightarrow> (nat \<times> nat) list \<Rightarrow> (nat \<rightharpoonup> out_fd) \<Rightarrow> (nat \<rightharpoonup> out_fd) result option" where
  "disseminate hosts ports [] fds = Some (Inr fds)"
| "disseminate hosts ports ((i, i2) # pairs) fds =
     (case fds i2 of
        None \<Rightarrow> Some (Inl Exit_failure)
      | Some fd \<Rightarrow> (case write_port_info (hosts ! i) (int i) (ports (int i)) fd of
            None \<Rightarrow> None
          | Some (Inl e) \<Rightarrow> Some (Inl e)
          | Some (Inr (_, fd')) \<Rightarrow> disseminate hosts ports pairs (fds(i2 \<mapsto> fd'))))"

definition port_pairs :: "nat \<Rightarrow> (nat \<times> nat) list" where
  "port_pairs sz = concat (map (\<lambda>i. map (\<lambda>i2. (i, i2)) (filter (\<lambda>i2. i \<noteq> i2) [1..<sz])) [1..<sz])"

text \<open>The other side; \<open>k\<close> is the number of ranks that are still to come.\<close>

fun read_port_infos :: "int \<Rightarrow> string list \<Rightarrow> nat \<Rightarrow> (int \<Rightarrow> int) \<Rightarrow> in_fd \<Rightarrow> (int \<Rightarrow> int, in_fd) io" where
  "read_port_infos errno hosts 0 ports fd = ret ports fd"
| "read_port_infos errno hosts (Suc k) ports fd =
     bind_io (dcmpi_socket_read_line errno fd) (\<lambda>hn fd1.
     bind_io (dcmpi_socket_read_line errno fd1) (\<lambda>rnk fd2.
     bind_io (dcmpi_socket_read_line errno fd2) (\<lambda>prt fd3.
       case bind_result (Atoi rnk) (\<lambda>r. bind_result (Atoi prt) (\<lambda>p. Inr (r, p))) of
         Inl e \<Rightarrow> fail e
       | Inr (r, p) \<Rightarrow>
           if r < 0 \<or> int (length hosts) \<le> r then fail Undefined_behaviour
           else if hosts ! nat r \<noteq> hn then fail Assert_failure
           else read_port_infos errno hosts k (ports(r := p)) fd3)))"

section \<open>Connections among the others\<close>

text \<open>
  A rank from 1 on: the variable of its accept loop, the variable of its connect loop, the queue of its listening
  socket with the lines that wait there, and its connections, each as the rank that opened it and the
  one that accepted it.
\<close>

record mesh_rank =
  to_accept :: nat
  to_connect :: nat
  listening :: "(string \<times> string \<times> nat) list"
  mesh_fds :: "nat \<rightharpoonup> nat \<times> nat"

definition greeting :: "string list \<Rightarrow> nat \<Rightarrow> string \<times> string \<times> nat" where
  "greeting hosts r = (hosts ! r, dcmpi_to_string (int r), r)"

inductive mesh_step :: "string list \<Rightarrow> nat \<Rightarrow> (nat \<Rightarrow> mesh_rank) \<Rightarrow> (nat \<Rightarrow> mesh_rank) \<Rightarrow> bool" where
  accepting: "0 < r \<Longrightarrow> r < sz \<Longrightarrow> 2 \<le> to_accept (s r) \<Longrightarrow> listening (s r) = (hn, rnk, c) # waiting \<Longrightarrow> Atoi rnk = Inr (int i) \<Longrightarrow>
    mesh_step hosts sz s (s(r := (s r)\<lparr>to_accept := to_accept (s r) - 1, listening := waiting, mesh_fds := (mesh_fds (s r))(i \<mapsto> (c, r))\<rparr>))"
| connecting: "0 < r \<Longrightarrow> r < sz \<Longrightarrow> to_accept (s r) < 2 \<Longrightarrow> to_connect (s r) < sz - 1 \<Longrightarrow> t = to_connect (s r) + 1 \<Longrightarrow>
    mesh_step hosts sz s (s(r := (s r)\<lparr>to_connect := t, mesh_fds := (mesh_fds (s r))(t \<mapsto> (r, t))\<rparr>,
      t := (s t)\<lparr>listening := listening (s t) @ [greeting hosts r]\<rparr>))"

definition mesh_start :: "nat \<Rightarrow> mesh_rank" where
  "mesh_start r = \<lparr>to_accept = r, to_connect = r, listening = [], mesh_fds = Map.empty\<rparr>"

inductive mesh_run :: "string list \<Rightarrow> nat \<Rightarrow> nat \<Rightarrow> (nat \<Rightarrow> mesh_rank) \<Rightarrow> bool" where
  begin_run: "mesh_run hosts sz 0 mesh_start"
| step_run: "mesh_run hosts sz k s \<Longrightarrow> mesh_step hosts sz s s' \<Longrightarrow> mesh_run hosts sz (Suc k) s'"

definition connected :: "nat \<Rightarrow> (nat \<Rightarrow> mesh_rank) \<Rightarrow> bool" where
  "connected sz s \<longleftrightarrow> (\<forall>r. 0 < r \<and> r < sz \<longrightarrow> to_accept (s r) < 2 \<and> sz - 1 \<le> to_connect (s r))"

section \<open>Lines on a socket\<close>

definition good_line :: "string \<Rightarrow> bool" where
  "good_line m \<longleftrightarrow> m \<noteq> [] \<and> newline \<notin> set m \<and> length m < 2 ^ 63"

lemma write_line_ready:
  assumes "good_line m" and "write_ready (length m + 1 + n) fd"
  obtains fd' where "dcmpi_socket_write_line m fd = Some (Inr ((), fd'))" "outgoing fd' = outgoing fd @ m @ [newline]" "write_ready n fd'"
proof -
  have m: "m \<noteq> []" "newline \<notin> set m" "length m < 2 ^ 63" using assms(1) by (simp_all add: good_line_def)
  have "drop (length m - 1) m = [last m]" using m(1) by (metis append_butlast_last_id append_eq_conv_conj length_butlast)
  moreover have "last m \<noteq> newline" using m(1,2) by (metis last_in_set)
  ultimately have no: "\<not> dcmpi_string_ends_with m [newline]" using ends_with_wraps [of m "[newline]"] m by simp
  have w: "write_ready (length (m @ [newline]) + n) fd" using assms(2) by simp
  obtain fd' where "DC_write_all (m @ [newline]) fd = Some (Inr (0, fd'))" "outgoing fd' = outgoing fd @ m @ [newline]" "write_ready n fd'"
    using DC_write_all_ready [OF w] by auto
  with that no show thesis by (simp add: dcmpi_socket_write_line_def)
qed

lemma digits_length: "length (digits n) \<le> Suc n"
proof (induction n rule: less_induct)
  case (less n)
  show ?case
  proof (cases "n < 10")
    case True
    then show ?thesis by (simp add: digits.simps [of n])
  next
    case False
    then have "n div 10 < n" by simp
    from less.IH [OF this] False show ?thesis by (subst digits.simps) simp
  qed
qed

lemma good_number: "n < 2 ^ 31 \<Longrightarrow> good_line (dcmpi_to_string (int n))"
proof -
  assume n: "n < 2 ^ 31"
  have "newline \<notin> set (digits n)"
  proof
    assume "newline \<in> set (digits n)"
    then have "isdigit newline" using digits_isdigit by blast
    then show False by code_simp
  qed
  then show ?thesis using n digits_ne [of n] digits_length [of n] by (simp add: good_line_def dcmpi_to_string_def)
qed

lemma good_host: "plain_host h \<Longrightarrow> good_line h"
  by (auto simp: plain_host_def plain_word_def good_line_def)

section \<open>Everybody registers\<close>

text \<open>What rank \<open>r\<close> writes on its first connection and on the one for the barrier.\<close>

definition hello :: "string list \<Rightarrow> (nat \<Rightarrow> nat) \<Rightarrow> bool \<Rightarrow> nat \<Rightarrow> string" where
  "hello hosts port first r = hosts ! r @ newline # dcmpi_to_string (int r) @ newline #
     (if first then dcmpi_to_string (int (port r)) @ [newline] else [])"

fun greeted :: "string list \<Rightarrow> (nat \<Rightarrow> nat) \<Rightarrow> nat set \<Rightarrow> nat list \<Rightarrow> in_fd list \<Rightarrow> bool" where
  "greeted hosts port seen (r # rs) (fd # fds) \<longleftrightarrow>
     (\<exists>tail. incoming fd = hello hosts port (r \<notin> seen) r @ tail) \<and> read_ready (length (hello hosts port (r \<notin> seen) r)) fd
       \<and> greeted hosts port (insert r seen) rs fds"
| "greeted hosts port seen [] [] \<longleftrightarrow> True"
| "greeted hosts port seen _ _ \<longleftrightarrow> False"

lemma accept_rank_ok:
  assumes "incoming fd = hello hosts port (rank_fd st (int r) = None) r @ tail"
    and "read_ready (length (hello hosts port (rank_fd st (int r) = None) r)) fd"
    and "good_line (hosts ! r)" and "r < n" and "n < 2 ^ 31" and "port r < 2 ^ 16"
  shows "\<exists>fd'. accept_rank errno (int n) sd st fd = Some (Inr (if rank_fd st (int r) = None
      then st\<lparr>rank_fd := (rank_fd st)(int r := Some sd), rank_ports := (rank_ports st)(int r := int (port r))\<rparr>
      else st\<lparr>rank0_barrier_fd := (rank0_barrier_fd st)(int r := Some sd)\<rparr>, fd'))"
proof -
  let ?rnk = "dcmpi_to_string (int r)" and ?prt = "dcmpi_to_string (int (port r))"
  let ?last = "if rank_fd st (int r) = None then ?prt @ [newline] else []"
  have r: "good_line ?rnk" "Atoi ?rnk = Inr (int r)" using assms(4,5) by (intro good_number Atoi_digits; simp)+
  have p: "good_line ?prt" "Atoi ?prt = Inr (int (port r))" using assms(6) by (intro good_number Atoi_digits; simp)+
  have nl: "newline \<notin> set (hosts ! r)" "newline \<notin> set ?rnk" "newline \<notin> set ?prt"
    using assms(3) r(1) p(1) by (simp_all add: good_line_def)
  have i1: "incoming fd = hosts ! r @ newline # (?rnk @ newline # ?last @ tail)" using assms(1) by (simp add: hello_def)
  have d1: "read_ready (length (hosts ! r) + 1 + (length ?rnk + 1 + length ?last)) fd" using assms(2) by (simp add: hello_def)
  obtain fd1 where 1: "dcmpi_socket_read_line errno fd = Some (Inr (hosts ! r, fd1))" "incoming fd1 = ?rnk @ newline # ?last @ tail"
    "read_ready (length ?rnk + 1 + length ?last) fd1" using read_line_ready [OF nl(1) i1 d1] .
  obtain fd2 where 2: "dcmpi_socket_read_line errno fd1 = Some (Inr (?rnk, fd2))" "incoming fd2 = ?last @ tail"
    "read_ready (length ?last) fd2" using read_line_ready [OF nl(2) 1(2,3)] .
  show ?thesis
  proof (cases "rank_fd st (int r)")
    case None
    then have i3: "incoming fd2 = ?prt @ newline # tail" "read_ready (length ?prt + 1 + 0) fd2" using 2(2,3) by simp_all
    obtain fd3 where 3: "dcmpi_socket_read_line errno fd2 = Some (Inr (?prt, fd3))" using read_line_ready [OF nl(3) i3] .
    then show ?thesis using 1(1) 2(1) r(2) p(2) None assms(4) by (simp add: accept_rank_def ret_def)
  next
    case (Some k)
    then show ?thesis using 1(1) 2(1) r(2) assms(4) by (simp add: accept_rank_def ret_def)
  qed
qed

text \<open>Who is registered after the connections of the ranks \<open>rs\<close>, numbered from \<open>sd\<close> on.\<close>

fun register :: "(nat \<Rightarrow> nat) \<Rightarrow> nat \<Rightarrow> nat list \<Rightarrow> registered \<Rightarrow> registered" where
  "register port sd [] st = st"
| "register port sd (r # rs) st = register port (Suc sd) rs (if rank_fd st (int r) = None
      then st\<lparr>rank_fd := (rank_fd st)(int r := Some sd), rank_ports := (rank_ports st)(int r := int (port r))\<rparr>
      else st\<lparr>rank0_barrier_fd := (rank0_barrier_fd st)(int r := Some sd)\<rparr>)"

lemma accept_ranks_register:
  assumes "greeted hosts port seen rs fds" and "\<forall>r\<in>set rs. r < n \<and> good_line (hosts ! r) \<and> port r < 2 ^ 16" and "n < 2 ^ 31"
    and "\<forall>r. r \<in> seen \<longleftrightarrow> rank_fd st (int r) \<noteq> None"
  shows "accept_ranks errno (int n) sd fds st = Some (Inr (register port sd rs st))"
  using assms
proof (induction hosts port seen rs fds arbitrary: sd st rule: greeted.induct)
  case (1 hosts port seen r rs fd fds)
  let ?st = "if rank_fd st (int r) = None
      then st\<lparr>rank_fd := (rank_fd st)(int r := Some sd), rank_ports := (rank_ports st)(int r := int (port r))\<rparr>
      else st\<lparr>rank0_barrier_fd := (rank0_barrier_fd st)(int r := Some sd)\<rparr>"
  have first: "r \<notin> seen \<longleftrightarrow> rank_fd st (int r) = None" using "1.prems"(4) by blast
  obtain tail where "incoming fd = hello hosts port (rank_fd st (int r) = None) r @ tail"
    "read_ready (length (hello hosts port (rank_fd st (int r) = None) r)) fd"
    using "1.prems"(1) unfolding greeted.simps first by blast
  from accept_rank_ok [OF this, of n errno sd] "1.prems"(2,3)
  obtain fd' where a: "accept_rank errno (int n) sd st fd = Some (Inr (?st, fd'))" by auto
  have seen: "\<forall>k. k \<in> insert r seen \<longleftrightarrow> rank_fd ?st (int k) \<noteq> None" using "1.prems"(4) by auto
  have g: "greeted hosts port (insert r seen) rs fds" "\<forall>r\<in>set rs. r < n \<and> good_line (hosts ! r) \<and> port r < 2 ^ 16"
    using "1.prems"(1,2) by simp_all
  have "accept_ranks errno (int n) (Suc sd) fds ?st = Some (Inr (register port (Suc sd) rs ?st))"
    by (rule "1.IH" [OF g "1.prems"(3) seen])
  with a show ?case by (simp only: accept_ranks.simps register.simps option.case sum.case prod.case)
qed simp_all

lemma register_known: "rank_fd st (int r) \<noteq> None \<Longrightarrow>
    rank_fd (register port sd rs st) (int r) = rank_fd st (int r) \<and> rank_ports (register port sd rs st) (int r) = rank_ports st (int r)
    \<and> (r \<notin> set rs \<longrightarrow> rank0_barrier_fd (register port sd rs st) (int r) = rank0_barrier_fd st (int r))
    \<and> (count_list rs r = 1 \<longrightarrow> (\<exists>j<length rs. rs ! j = r \<and> rank0_barrier_fd (register port sd rs st) (int r) = Some (sd + j)))"
proof (induction rs arbitrary: sd st)
  case (Cons x rs)
  let ?st = "if rank_fd st (int x) = None
      then st\<lparr>rank_fd := (rank_fd st)(int x := Some sd), rank_ports := (rank_ports st)(int x := int (port x))\<rparr>
      else st\<lparr>rank0_barrier_fd := (rank0_barrier_fd st)(int x := Some sd)\<rparr>"
  have same: "rank_fd ?st (int r) = rank_fd st (int r)" "rank_ports ?st (int r) = rank_ports st (int r)" using Cons.prems by auto
  have bar: "rank0_barrier_fd ?st (int r) = (if x = r then Some sd else rank0_barrier_fd st (int r))" using Cons.prems by auto
  note ih = Cons.IH [of ?st "Suc sd", unfolded same bar, OF Cons.prems]
  show ?case
  proof (cases "x = r")
    case True
    have "count_list (x # rs) r = 1 \<Longrightarrow> r \<notin> set rs" using True by (simp add: count_list_0_iff)
    then show ?thesis using ih True unfolding register.simps
      by (intro conjI impI) (auto intro!: exI [of _ 0])
  next
    case False
    have "\<exists>j<length (x # rs). (x # rs) ! j = r \<and> rank0_barrier_fd (register port (Suc sd) rs ?st) (int r) = Some (sd + j)"
      if once: "count_list rs r = 1"
    proof -
      obtain j where "j < length rs" "rs ! j = r" "rank0_barrier_fd (register port (Suc sd) rs ?st) (int r) = Some (Suc sd + j)"
        using ih once by blast
      then show ?thesis by (intro exI [of _ "Suc j"]) simp
    qed
    then show ?thesis using ih False unfolding register.simps by simp
  qed
qed simp


text \<open>A rank that connects twice has both connections and its port registered.\<close>

lemma register_new:
  "rank_fd st (int r) = None \<Longrightarrow> count_list rs r = 2 \<Longrightarrow>
    \<exists>i j. i < j \<and> j < length rs \<and> rs ! i = r \<and> rs ! j = r \<and> rank_fd (register port sd rs st) (int r) = Some (sd + i)
      \<and> rank0_barrier_fd (register port sd rs st) (int r) = Some (sd + j) \<and> rank_ports (register port sd rs st) (int r) = int (port r)"
proof (induction rs arbitrary: sd st)
  case (Cons x rs)
  let ?st = "if rank_fd st (int x) = None
      then st\<lparr>rank_fd := (rank_fd st)(int x := Some sd), rank_ports := (rank_ports st)(int x := int (port x))\<rparr>
      else st\<lparr>rank0_barrier_fd := (rank0_barrier_fd st)(int x := Some sd)\<rparr>"
  show ?case
  proof (cases "x = r")
    case True
    have st: "rank_fd ?st (int r) = Some sd" "rank_ports ?st (int r) = int (port r)" using True Cons.prems(1) by simp_all
    have "count_list rs r = 1" using True Cons.prems(2) by simp
    then obtain j where "j < length rs" "rs ! j = r" "rank0_barrier_fd (register port (Suc sd) rs ?st) (int r) = Some (Suc sd + j)"
      "rank_fd (register port (Suc sd) rs ?st) (int r) = Some sd" "rank_ports (register port (Suc sd) rs ?st) (int r) = int (port r)"
      using register_known [of ?st r port "Suc sd" rs] st by auto
    with True show ?thesis unfolding register.simps by (intro exI [of _ 0] exI [of _ "Suc j"]) simp
  next
    case False
    then have "rank_fd ?st (int r) = None" "count_list rs r = 2" using Cons.prems by simp_all
    from Cons.IH [OF this, of "Suc sd"] obtain i j where "i < j" "j < length rs" "rs ! i = r" "rs ! j = r"
      "rank_fd (register port (Suc sd) rs ?st) (int r) = Some (Suc sd + i)"
      "rank0_barrier_fd (register port (Suc sd) rs ?st) (int r) = Some (Suc sd + j)"
      "rank_ports (register port (Suc sd) rs ?st) (int r) = int (port r)" by blast
    then show ?thesis unfolding register.simps by (intro exI [of _ "Suc i"] exI [of _ "Suc j"]) simp
  qed
qed simp

section \<open>Everybody is told\<close>

definition info :: "string list \<Rightarrow> (nat \<Rightarrow> nat) \<Rightarrow> nat \<Rightarrow> string" where
  "info hosts port i = hosts ! i @ newline # dcmpi_to_string (int i) @ newline # dcmpi_to_string (int (port i)) @ [newline]"

definition told :: "string list \<Rightarrow> (nat \<Rightarrow> nat) \<Rightarrow> (nat \<times> nat) list \<Rightarrow> nat \<Rightarrow> string" where
  "told hosts port pairs i2 = concat (map (\<lambda>(i, _). info hosts port i) (filter (\<lambda>(_, j). j = i2) pairs))"

lemma told_simps [simp]: "told hosts port [] i2 = []"
  "told hosts port ((i, j) # pairs) i2 = (if j = i2 then info hosts port i else []) @ told hosts port pairs i2"
  by (simp_all add: told_def)

definition known_rank :: "string list \<Rightarrow> (nat \<Rightarrow> nat) \<Rightarrow> nat \<Rightarrow> nat \<Rightarrow> bool" where
  "known_rank hosts port n i \<longleftrightarrow> i < n \<and> n < 2 ^ 31 \<and> length hosts = n \<and> good_line (hosts ! i) \<and> port i < 2 ^ 16"

lemma known_rank_lines:
  assumes "known_rank hosts port n i"
  shows "good_line (hosts ! i)" "good_line (dcmpi_to_string (int i))" "good_line (dcmpi_to_string (int (port i)))"
    "Atoi (dcmpi_to_string (int i)) = Inr (int i)" "Atoi (dcmpi_to_string (int (port i))) = Inr (int (port i))"
  using assms by (auto simp: known_rank_def intro!: good_number Atoi_digits)

lemma write_port_info_ok:
  assumes "known_rank hosts port n i" and "write_ready (length (info hosts port i) + k) fd"
  obtains fd' where "write_port_info (hosts ! i) (int i) (int (port i)) fd = Some (Inr ((), fd'))"
    "outgoing fd' = outgoing fd @ info hosts port i" "write_ready k fd'"
proof -
  note l = known_rank_lines [OF assms(1)]
  let ?i = "dcmpi_to_string (int i)" and ?p = "dcmpi_to_string (int (port i))"
  have w: "write_ready (length (hosts ! i) + 1 + (length ?i + 1 + (length ?p + 1 + k))) fd" using assms(2) by (simp add: info_def add.commute add.left_commute)
  obtain fd1 where 1: "dcmpi_socket_write_line (hosts ! i) fd = Some (Inr ((), fd1))" "outgoing fd1 = outgoing fd @ hosts ! i @ [newline]"
    "write_ready (length ?i + 1 + (length ?p + 1 + k)) fd1" using write_line_ready [OF l(1) w] .
  obtain fd2 where 2: "dcmpi_socket_write_line ?i fd1 = Some (Inr ((), fd2))" "outgoing fd2 = outgoing fd1 @ ?i @ [newline]"
    "write_ready (length ?p + 1 + k) fd2" using write_line_ready [OF l(2) 1(3)] .
  obtain fd3 where 3: "dcmpi_socket_write_line ?p fd2 = Some (Inr ((), fd3))" "outgoing fd3 = outgoing fd2 @ ?p @ [newline]"
    "write_ready k fd3" using write_line_ready [OF l(3) 2(3)] .
  have "outgoing fd3 = outgoing fd @ info hosts port i" using 1(2) 2(2) 3(2) by (simp add: info_def)
  with that 1(1) 2(1) 3(1,3) show thesis by (simp add: write_port_info_def)
qed

lemma disseminate_ok:
  assumes "\<forall>(i, i2)\<in>set pairs. known_rank hosts port n i \<and> ports (int i) = int (port i) \<and> outs i2 \<noteq> None"
    and "\<forall>i2 fd. outs i2 = Some fd \<longrightarrow> write_ready (length (told hosts port pairs i2)) fd"
  shows "\<exists>outs'. disseminate hosts ports pairs outs = Some (Inr outs')
    \<and> (\<forall>i2. case outs i2 of None \<Rightarrow> outs' i2 = None
         | Some fd \<Rightarrow> \<exists>fd'. outs' i2 = Some fd' \<and> outgoing fd' = outgoing fd @ told hosts port pairs i2)"
  using assms
proof (induction pairs arbitrary: outs)
  case Nil
  then show ?case by (auto split: option.splits)
next
  case (Cons p pairs)
  obtain i i2 where p: "p = (i, i2)" by (cases p)
  obtain fd where i: "known_rank hosts port n i" "ports (int i) = int (port i)" "outs i2 = Some fd" using Cons.prems(1) by (auto simp: p)
  have ready: "write_ready (length (told hosts port (p # pairs) j)) f" if "outs j = Some f" for j f
    using Cons.prems(2) that by blast
  have w: "write_ready (length (info hosts port i) + length (told hosts port pairs i2)) fd"
    using ready [OF i(3)] by (simp add: p)
  obtain fd' where fd': "write_port_info (hosts ! i) (int i) (int (port i)) fd = Some (Inr ((), fd'))"
    "outgoing fd' = outgoing fd @ info hosts port i" "write_ready (length (told hosts port pairs i2)) fd'"
    using write_port_info_ok [OF i(1) w] .
  let ?outs = "outs(i2 \<mapsto> fd')"
  have 1: "\<forall>(i, i2)\<in>set pairs. known_rank hosts port n i \<and> ports (int i) = int (port i) \<and> ?outs i2 \<noteq> None"
    using Cons.prems(1) by auto
  have 2: "\<forall>j f. ?outs j = Some f \<longrightarrow> write_ready (length (told hosts port pairs j)) f"
  proof (intro allI impI)
    fix j f assume f: "?outs j = Some f"
    show "write_ready (length (told hosts port pairs j)) f"
    proof (cases "j = i2")
      case True
      then show ?thesis using f fd'(3) by simp
    next
      case False
      then show ?thesis using f ready [of j f] by (simp add: p)
    qed
  qed
  obtain outs' where o: "disseminate hosts ports pairs ?outs = Some (Inr outs')"
    "\<forall>j. case ?outs j of None \<Rightarrow> outs' j = None
         | Some f \<Rightarrow> \<exists>f'. outs' j = Some f' \<and> outgoing f' = outgoing f @ told hosts port pairs j"
    using Cons.IH [OF 1 2] by blast
  have "case outs j of None \<Rightarrow> outs' j = None
         | Some f \<Rightarrow> \<exists>f'. outs' j = Some f' \<and> outgoing f' = outgoing f @ told hosts port (p # pairs) j" for j
    using spec [OF o(2), of j] i(3) fd'(2) by (cases "j = i2") (auto simp: p split: option.splits)
  with o(1) i(2,3) fd'(1) show ?case by (simp add: p)
qed

lemma read_port_infos_ok:
  assumes "\<forall>i\<in>set is. known_rank hosts port n i" and "incoming fd = concat (map (info hosts port) is) @ rest"
    and "read_ready (length (concat (map (info hosts port) is))) fd"
  shows "\<exists>fd'. read_port_infos errno hosts (length is) ports fd
      = Some (Inr (fold (\<lambda>i ports. ports(int i := int (port i))) is ports, fd')) \<and> incoming fd' = rest"
  using assms
proof (induction "is" arbitrary: ports fd)
  case Nil
  then show ?case by (simp add: ret_def)
next
  case (Cons i "is")
  let ?i = "dcmpi_to_string (int i)" and ?p = "dcmpi_to_string (int (port i))" and ?rest = "concat (map (info hosts port) is)"
  have i: "known_rank hosts port n i" using Cons.prems(1) by simp
  note l = known_rank_lines [OF i]
  have nl: "newline \<notin> set (hosts ! i)" "newline \<notin> set ?i" "newline \<notin> set ?p" using l(1-3) by (simp_all add: good_line_def)
  have i1: "incoming fd = hosts ! i @ newline # (?i @ newline # ?p @ newline # ?rest @ rest)" using Cons.prems(2) by (simp add: info_def [of hosts port i])
  have d1: "read_ready (length (hosts ! i) + 1 + (length ?i + 1 + (length ?p + 1 + length ?rest))) fd"
    using Cons.prems(3) by (simp add: info_def [of hosts port i] add.commute add.left_commute)
  obtain fd1 where 1: "dcmpi_socket_read_line errno fd = Some (Inr (hosts ! i, fd1))" "incoming fd1 = ?i @ newline # ?p @ newline # ?rest @ rest"
    "read_ready (length ?i + 1 + (length ?p + 1 + length ?rest)) fd1" using read_line_ready [OF nl(1) i1 d1] .
  obtain fd2 where 2: "dcmpi_socket_read_line errno fd1 = Some (Inr (?i, fd2))" "incoming fd2 = ?p @ newline # ?rest @ rest"
    "read_ready (length ?p + 1 + length ?rest) fd2" using read_line_ready [OF nl(2) 1(2,3)] .
  obtain fd3 where 3: "dcmpi_socket_read_line errno fd2 = Some (Inr (?p, fd3))" "incoming fd3 = ?rest @ rest"
    "read_ready (length ?rest) fd3" using read_line_ready [OF nl(3) 2(2,3)] .
  have "\<forall>i\<in>set is. known_rank hosts port n i" using Cons.prems(1) by simp
  from Cons.IH [OF this 3(2,3)] 1(1) 2(1) 3(1) l(4,5) i show ?case by (simp add: known_rank_def del: fun_upd_apply)
qed

lemma told_port_pairs:
  assumes "0 < i2" and "i2 < n"
  shows "told hosts port (port_pairs n) i2 = concat (map (info hosts port) (filter (\<lambda>i. i \<noteq> i2) [1..<n]))"
proof -
  have one: "told hosts port (map (\<lambda>j. (i, j)) (filter (\<lambda>j. i \<noteq> j) js)) i2 = (if i \<noteq> i2 \<and> i2 \<in> set js then info hosts port i else [])"
    if "distinct js" for i js using that by (induction js) auto
  have app: "told hosts port (xs @ ys) i2 = told hosts port xs i2 @ told hosts port ys i2" for xs ys by (simp add: told_def)
  have "told hosts port (concat (map (\<lambda>i. map (\<lambda>j. (i, j)) (filter (\<lambda>j. i \<noteq> j) [1..<n])) is)) i2
      = concat (map (info hosts port) (filter (\<lambda>i. i \<noteq> i2) is))" for "is"
    using assms by (induction "is") (simp_all add: app one)
  then show ?thesis by (simp add: port_pairs_def)
qed

lemma others_count: "0 < i \<Longrightarrow> i < n \<Longrightarrow> length (filter (\<lambda>j. j \<noteq> i) [1..<n]) = n - 2"
proof -
  assume i: "0 < i" "i < n"
  have "length (filter (\<lambda>j. j \<noteq> i) xs) = length xs - 1" if "distinct xs" "i \<in> set xs" for xs
    using that
  proof (induction xs)
    case (Cons x xs)
    show ?case
    proof (cases "x = i")
      case True
      then have "filter (\<lambda>j. j \<noteq> i) xs = xs" using Cons.prems(1) by (auto simp: filter_id_conv)
      then show ?thesis using True by simp
    next
      case False
      then have "i \<in> set xs" using Cons.prems(2) by auto
      then show ?thesis using False Cons by (cases xs) auto
    qed
  qed simp
  from this [of "[1..<n]"] i show ?thesis by simp
qed

lemma folded_ports: "fold (\<lambda>i ports. ports(int i := int (port i))) is ports (int j) = (if j \<in> set is then int (port j) else ports (int j))"
  by (induction "is" arbitrary: ports) auto

text \<open>
  C22. In whatever order the connections of the ranks reach rank 0, as long as the first of a rank comes before its
  second: rank 0 registers the first for packets, the second for the barrier, and the port that the rank
  listens on; and what it then writes to the ranks tells every rank the ports of all others.
\<close>

theorem everybody_registers:
  assumes "greeted hosts port {} rs fds" and "\<forall>r\<in>{1..<n}. count_list rs r = 2" and "set rs \<subseteq> {1..<n}"
    and "\<forall>i\<in>{1..<n}. known_rank hosts port n i \<and> outs i \<noteq> None"
    and "\<forall>i fd. outs i = Some fd \<longrightarrow> write_ready (length (told hosts port (port_pairs n) i)) fd"
  shows "\<exists>st outs'. accept_ranks errno (int n) 0 fds nobody = Some (Inr st)
    \<and> (\<forall>r\<in>{1..<n}. \<exists>a b. a < b \<and> b < length rs \<and> rs ! a = r \<and> rs ! b = r \<and> rank_fd st (int r) = Some a
         \<and> rank0_barrier_fd st (int r) = Some b \<and> rank_ports st (int r) = int (port r))
    \<and> disseminate hosts (rank_ports st) (port_pairs n) outs = Some (Inr outs')
    \<and> (\<forall>i\<in>{1..<n}. \<forall>inp ports0. incoming inp = drop (length (outgoing (the (outs i)))) (outgoing (the (outs' i))) \<and> read_ready (length (incoming inp)) inp \<longrightarrow>
         (\<exists>ports inp'. read_port_infos errno' hosts (n - 2) ports0 inp = Some (Inr (ports, inp'))
            \<and> (\<forall>j\<in>{1..<n} - {i}. ports (int j) = int (port j))))"
proof -
  let ?st = "register port 0 rs nobody"
  have known: "known_rank hosts port n i" if "i \<in> {1..<n}" for i using assms(4) that by blast
  have a: "accept_ranks errno (int n) 0 fds nobody = Some (Inr ?st)"
  proof (cases "rs = []")
    case True
    then show ?thesis using assms(1) by (cases fds) simp_all
  next
    case False
    then obtain r where "r \<in> {1..<n}" using assms(3) by (cases rs) auto
    then have n: "n < 2 ^ 31" using known by (auto simp: known_rank_def)
    have "\<forall>r\<in>set rs. r < n \<and> good_line (hosts ! r) \<and> port r < 2 ^ 16" using known assms(3) by (fastforce simp: known_rank_def)
    then show ?thesis using accept_ranks_register [OF assms(1) _ n] by (simp add: nobody_def)
  qed
  have reg: "\<exists>a b. a < b \<and> b < length rs \<and> rs ! a = r \<and> rs ! b = r \<and> rank_fd ?st (int r) = Some a
         \<and> rank0_barrier_fd ?st (int r) = Some b \<and> rank_ports ?st (int r) = int (port r)" if "r \<in> {1..<n}" for r
    using register_new [of nobody r rs port 0] assms(2) that by (simp add: nobody_def)
  have pairs: "i \<in> {1..<n} \<and> i2 \<in> {1..<n}" if "(i, i2) \<in> set (port_pairs n)" for i i2
    using that by (auto simp: port_pairs_def)
  have "\<forall>(i, i2)\<in>set (port_pairs n). known_rank hosts port n i \<and> rank_ports ?st (int i) = int (port i) \<and> outs i2 \<noteq> None"
  proof clarify
    fix i i2 assume i: "(i, i2) \<in> set (port_pairs n)"
    show "known_rank hosts port n i \<and> rank_ports ?st (int i) = int (port i) \<and> outs i2 \<noteq> None"
      using pairs [OF i] known [of i] reg [of i] assms(4) by blast
  qed
  from disseminate_ok [OF this assms(5)] obtain outs' where o: "disseminate hosts (rank_ports ?st) (port_pairs n) outs = Some (Inr outs')"
    "\<forall>i. case outs i of None \<Rightarrow> outs' i = None
         | Some fd \<Rightarrow> \<exists>fd'. outs' i = Some fd' \<and> outgoing fd' = outgoing fd @ told hosts port (port_pairs n) i" by blast
  have read: "\<exists>ports inp'. read_port_infos errno' hosts (n - 2) ports0 inp = Some (Inr (ports, inp'))
            \<and> (\<forall>j\<in>{1..<n} - {i}. ports (int j) = int (port j))"
    if i: "i \<in> {1..<n}" and inp: "incoming inp = drop (length (outgoing (the (outs i)))) (outgoing (the (outs' i)))"
      "read_ready (length (incoming inp)) inp" for i inp ports0
  proof -
    let ?is = "filter (\<lambda>j. j \<noteq> i) [1..<n]"
    obtain fd where fd: "outs i = Some fd" using assms(4) i by fast
    have "incoming inp = concat (map (info hosts port) ?is)"
      using inp(1) spec [OF o(2), of i] told_port_pairs [of i n hosts port] i by (auto simp: fd)
    then have inc: "incoming inp = concat (map (info hosts port) ?is) @ []" "read_ready (length (concat (map (info hosts port) ?is))) inp"
      using inp(2) by simp_all
    have kn: "\<forall>j\<in>set ?is. known_rank hosts port n j" using known by auto
    have len: "length ?is = n - 2" using others_count [of i n] i by simp
    from read_port_infos_ok [OF kn inc, of errno' ports0] show ?thesis
      unfolding len by (auto simp: folded_ports)
  qed
  show ?thesis by (intro exI [of _ ?st] exI [of _ outs'] conjI ballI allI impI) (use a reg o(1) read in \<open>blast+\<close>)
qed

text \<open>Two ranks; the second connection of rank 1 comes last.\<close>

definition three_hosts :: "string list" where
  "three_hosts = [''n0'', ''n1'', ''n2'']"

definition hello_fd :: "bool \<Rightarrow> nat \<Rightarrow> in_fd" where
  "hello_fd first r = (let g = hello three_hosts (\<lambda>r. 4000 + r) first r in \<lparr>in_events = replicate (length g) (Read_upto 0), incoming = g\<rparr>)"

lemma everybody_registers_witness:
  "\<exists>st outs' ports inp'.
     accept_ranks 0 3 0 [hello_fd True 1, hello_fd True 2, hello_fd False 2, hello_fd False 1] nobody = Some (Inr st)
   \<and> rank_fd st 2 = Some 1 \<and> rank0_barrier_fd st 2 = Some 2
   \<and> disseminate three_hosts (rank_ports st) (port_pairs 3) (\<lambda>i. Some \<lparr>out_events = replicate (length (told three_hosts (\<lambda>r. 4000 + r) (port_pairs 3) i)) (Write_upto 1), outgoing = []\<rparr>) = Some (Inr outs')
   \<and> read_port_infos 0 three_hosts 1 (\<lambda>_. - 1) \<lparr>in_events = replicate (length (outgoing (the (outs' 1)))) (Read_upto 0), incoming = outgoing (the (outs' 1))\<rparr> = Some (Inr (ports, inp'))
   \<and> ports 2 = 4002"
proof -
  let ?port = "\<lambda>r. 4000 + r" and ?fds = "[hello_fd True 1, hello_fd True 2, hello_fd False 2, hello_fd False 1]"
  define outs :: "nat \<rightharpoonup> out_fd" where
    "outs = (\<lambda>i. Some \<lparr>out_events = replicate (length (told three_hosts ?port (port_pairs 3) i)) (Write_upto 1), outgoing = []\<rparr>)"
  have range: "{1..<3} = {1, 2 :: nat}" by auto
  have g: "greeted three_hosts ?port {} [1, 2, 2, 1] ?fds"
    by (simp add: hello_fd_def Let_def read_ready_def no_errors_def)
  have rs: "\<forall>r\<in>{1..<3}. count_list [1, 2, 2, 1 :: nat] r = 2" "set [1, 2, 2, 1] \<subseteq> {1..<3 :: nat}" unfolding range by simp_all
  have k: "\<forall>i\<in>{1..<3}. known_rank three_hosts ?port 3 i \<and> outs i \<noteq> None"
    unfolding range by (simp add: known_rank_def three_hosts_def good_line_def outs_def)
  have o: "\<forall>i fd. outs i = Some fd \<longrightarrow> write_ready (length (told three_hosts ?port (port_pairs 3) i)) fd"
    by (auto simp: outs_def write_ready_def)
  from everybody_registers [OF g rs k o, of 0 0] show ?thesis
  proof (elim exE conjE, goal_cases)
    case r: (1 st outs')
    obtain a b where ab: "a < b" "b < 4" "[1, 2, 2, 1 :: nat] ! a = 2" "[1, 2, 2, 1 :: nat] ! b = 2" "rank_fd st 2 = Some a" "rank0_barrier_fd st 2 = Some b"
      using bspec [OF r(2), of 2] by auto
    have "b = 1 \<or> b = 2 \<or> b = 3" using ab(1,2) by arith
    then have "a = 1 \<and> b = 2" using ab(1,3,4) by (auto simp: less_Suc_eq numeral_eq_Suc)
    moreover define inp where "inp = \<lparr>in_events = replicate (length (outgoing (the (outs' 1)))) (Read_upto 0), incoming = outgoing (the (outs' 1))\<rparr>"
    have i: "incoming inp = drop (length (outgoing (the (outs 1)))) (outgoing (the (outs' 1))) \<and> read_ready (length (incoming inp)) inp" and one: "1 \<in> {1..<3 :: nat}"
      by (simp_all add: inp_def outs_def read_ready_def no_errors_def)
    obtain ports inp' where p: "read_port_infos 0 three_hosts (3 - 2) (\<lambda>_. - 1) inp = Some (Inr (ports, inp'))"
      "\<forall>j\<in>{1..<3} - {1}. ports (int j) = int (?port j)"
      using bspec [OF r(4) one, THEN spec [of _ inp], THEN spec [of _ "\<lambda>_. - 1"], THEN mp, OF i] by (elim exE conjE)
    have "ports 2 = 4002" using bspec [OF p(2), of 2] by simp
    moreover have "(3 :: nat) - 2 = 1" by simp
    ultimately show ?thesis using r(1,3) ab(5,6) p(1) unfolding outs_def inp_def
      by (intro exI [of _ st] exI [of _ outs'] exI [of _ ports] exI [of _ inp'] conjI) (simp_all only: of_nat_numeral)
  qed
qed

section \<open>Everybody connects\<close>

text \<open>The ranks below \<open>r\<close> that \<open>r\<close> has accepted, and those that have opened a connection to it.\<close>

definition accepted :: "(nat \<Rightarrow> mesh_rank) \<Rightarrow> nat \<Rightarrow> nat set" where
  "accepted s r = {c. c < r \<and> mesh_fds (s r) c \<noteq> None}"

definition opened :: "(nat \<Rightarrow> mesh_rank) \<Rightarrow> nat \<Rightarrow> nat set" where
  "opened s r = {c. 0 < c \<and> c < r \<and> r \<le> to_connect (s c)}"

definition waiting_ok :: "string list \<Rightarrow> (nat \<Rightarrow> mesh_rank) \<Rightarrow> nat \<Rightarrow> bool" where
  "waiting_ok hosts s r \<longleftrightarrow> (\<exists>cs. listening (s r) = map (greeting hosts) cs \<and> distinct cs \<and> set cs \<inter> accepted s r = {}
     \<and> set cs \<union> accepted s r = opened s r)"

definition rank_inv :: "string list \<Rightarrow> nat \<Rightarrow> (nat \<Rightarrow> mesh_rank) \<Rightarrow> nat \<Rightarrow> bool" where
  "rank_inv hosts n s r \<longleftrightarrow> 1 \<le> to_accept (s r) \<and> to_accept (s r) \<le> r \<and> r \<le> to_connect (s r) \<and> to_connect (s r) \<le> n - 1
     \<and> (r < to_connect (s r) \<longrightarrow> to_accept (s r) = 1) \<and> waiting_ok hosts s r \<and> card (accepted s r) + to_accept (s r) = r
     \<and> (\<forall>c<r. mesh_fds (s r) c \<noteq> None \<longrightarrow> mesh_fds (s r) c = Some (c, r))
     \<and> (\<forall>t>r. mesh_fds (s r) t = (if t \<le> to_connect (s r) then Some (r, t) else None))"

definition mesh_inv :: "string list \<Rightarrow> nat \<Rightarrow> (nat \<Rightarrow> mesh_rank) \<Rightarrow> bool" where
  "mesh_inv hosts n s \<longleftrightarrow> (\<forall>r\<in>{1..<n}. rank_inv hosts n s r)"

lemma finite_accepted [simp]: "finite (accepted s r)"
  by (simp add: accepted_def)

lemma rank_inv_cong:
  assumes "s' r = s r" and "\<And>c. c < r \<Longrightarrow> (r \<le> to_connect (s' c)) = (r \<le> to_connect (s c))"
  shows "rank_inv hosts n s' r = rank_inv hosts n s r"
proof -
  have "accepted s' r = accepted s r" "opened s' r = opened s r" using assms by (auto simp: accepted_def opened_def)
  then show ?thesis using assms(1) by (simp add: rank_inv_def waiting_ok_def)
qed

lemma mesh_inv_start: "mesh_inv hosts n mesh_start"
  unfolding mesh_inv_def
proof
  fix r assume "r \<in> {1..<n}"
  moreover have "accepted mesh_start r = {}" "opened mesh_start r = {}" by (auto simp: accepted_def opened_def mesh_start_def)
  ultimately show "rank_inv hosts n mesh_start r" by (auto simp: rank_inv_def waiting_ok_def) (simp_all add: mesh_start_def)
qed

lemma accepting_inv:
  assumes inv: "mesh_inv hosts n s" and n: "n < 2 ^ 31" and r: "0 < r" "r < n" "2 \<le> to_accept (s r)"
    and l: "listening (s r) = (hn, rnk, c) # waiting" "Atoi rnk = Inr (int i)"
  shows "mesh_inv hosts n (s(r := (s r)\<lparr>to_accept := to_accept (s r) - 1, listening := waiting, mesh_fds := (mesh_fds (s r))(i \<mapsto> (c, r))\<rparr>))"
    (is "mesh_inv hosts n ?s")
  unfolding mesh_inv_def
proof
  fix x assume x: "x \<in> {1..<n}"
  have invr: "rank_inv hosts n s r" using inv r by (simp add: mesh_inv_def)
  show "rank_inv hosts n ?s x"
  proof (cases "x = r")
    case False
    have "to_connect (?s c) = to_connect (s c)" for c by simp
    then show ?thesis using rank_inv_cong [of ?s x s] inv x False by (simp add: mesh_inv_def)
  next
    case True
    obtain cs where cs: "listening (s r) = map (greeting hosts) cs" "distinct cs" "set cs \<inter> accepted s r = {}"
      "set cs \<union> accepted s r = opened s r" using invr by (auto simp: rank_inv_def waiting_ok_def)
    obtain c' cs' where c': "cs = c' # cs'" using cs(1) l(1) by (cases cs) auto
    then have e: "c' = c" "rnk = dcmpi_to_string (int c)" "waiting = map (greeting hosts) cs'" using cs(1) l(1) by (auto simp: greeting_def)
    have cr: "0 < c" "c < r" "c \<notin> accepted s r" using cs(3,4) c' e(1) by (auto simp: opened_def)
    have "Atoi rnk = Inr (int c)" unfolding e(2) using n r(2) cr(2) by (intro Atoi_digits) simp
    then have i: "i = c" using l(2) by simp
    have acc: "accepted ?s r = insert c (accepted s r)" using cr by (auto simp: accepted_def i)
    have op: "opened ?s r = opened s r" by (auto simp: opened_def)
    have "set cs' \<inter> accepted ?s r = {}" "set cs' \<union> accepted ?s r = opened ?s r" using cs(2-4) c' e(1) unfolding acc op by auto
    then have "waiting_ok hosts ?s r" using cs(2) c' by (auto simp: waiting_ok_def e(3))
    moreover have "card (accepted ?s r) + to_accept (?s r) = r" using invr cr(3) r(3) unfolding acc by (simp add: rank_inv_def)
    ultimately show ?thesis using invr cr r(3) unfolding True rank_inv_def by (auto simp: i)
  qed
qed

lemma connecting_inv:
  assumes inv: "mesh_inv hosts n s" and r: "0 < r" "r < n" "to_accept (s r) < 2" "to_connect (s r) < n - 1" and t: "t = to_connect (s r) + 1"
  shows "mesh_inv hosts n (s(r := (s r)\<lparr>to_connect := t, mesh_fds := (mesh_fds (s r))(t \<mapsto> (r, t))\<rparr>,
      t := (s t)\<lparr>listening := listening (s t) @ [greeting hosts r]\<rparr>))" (is "mesh_inv hosts n ?s")
  unfolding mesh_inv_def
proof
  fix x assume x: "x \<in> {1..<n}"
  have invr: "rank_inv hosts n s r" and invx: "rank_inv hosts n s x" using inv r x by (simp_all add: mesh_inv_def)
  have rt: "r < t" "t < n" using invr r(4) by (auto simp: rank_inv_def t)
  consider (me) "x = r" | (other) "x = t" | (rest) "x \<noteq> r" "x \<noteq> t" by blast
  then show "rank_inv hosts n ?s x"
  proof cases
    case me
    have "accepted ?s r = accepted s r" "opened ?s r = opened s r" using rt by (auto simp: accepted_def opened_def)
    then show ?thesis using invr r rt unfolding me rank_inv_def by (auto simp: waiting_ok_def t)
  next
    case other
    obtain cs where cs: "listening (s t) = map (greeting hosts) cs" "distinct cs" "set cs \<inter> accepted s t = {}"
      "set cs \<union> accepted s t = opened s t" using invx by (auto simp: other rank_inv_def waiting_ok_def)
    have acc: "accepted ?s t = accepted s t" by (auto simp: accepted_def)
    have op: "opened ?s t = insert r (opened s t)" using rt r(1) by (auto simp: opened_def)
    have new: "r \<notin> opened s t" by (simp add: opened_def t)
    have "waiting_ok hosts ?s t"
      unfolding waiting_ok_def acc op using cs new by (intro exI [of _ "cs @ [r]"]) auto
    then show ?thesis using invx rt unfolding other rank_inv_def acc by auto
  next
    case rest
    have "(x \<le> to_connect (?s c)) = (x \<le> to_connect (s c))" if "c < x" for c using rest t by auto
    then show ?thesis using rank_inv_cong [of ?s x s] invx rest by simp
  qed
qed

lemma mesh_step_inv: "mesh_step hosts n s s' \<Longrightarrow> mesh_inv hosts n s \<Longrightarrow> n < 2 ^ 31 \<Longrightarrow> mesh_inv hosts n s'"
  by (induction rule: mesh_step.induct) (simp_all only: accepting_inv connecting_inv)

text \<open>What is still to do, which every step makes less.\<close>

definition todo :: "nat \<Rightarrow> mesh_rank \<Rightarrow> nat" where
  "todo n m = (to_accept m - 1) + (n - 1 - to_connect m)"

lemma sum_less_one:
  assumes "finite A" and "r \<in> A" and "\<And>x. x \<in> A \<Longrightarrow> x \<noteq> r \<Longrightarrow> g x = f x" and "Suc (g r) = f r"
  shows "Suc (sum g A) = (sum f A :: nat)"
proof -
  have "sum g (A - {r}) = sum f (A - {r})" using assms(3) by (intro sum.cong) auto
  then show ?thesis using sum.remove [OF assms(1,2), of g] sum.remove [OF assms(1,2), of f] assms(4) by simp
qed

lemma mesh_step_todo:
  assumes "mesh_step hosts n s s'" and "mesh_inv hosts n s"
  shows "Suc (\<Sum>r = 1..<n. todo n (s' r)) = (\<Sum>r = 1..<n. todo n (s r))"
  using assms
proof (induction rule: mesh_step.induct)
  case (accepting r n s hn rnk c waiting i hosts)
  then show ?case by (intro sum_less_one [of _ r]) (auto simp: todo_def)
next
  case (connecting r n s t hosts)
  have "r \<le> to_connect (s r)" using connecting.prems connecting.hyps(1,2) by (simp add: mesh_inv_def rank_inv_def)
  with connecting show ?case by (intro sum_less_one [of _ r]) (auto simp: todo_def)
qed

lemma mesh_run_inv:
  assumes "mesh_run hosts n k s" and "n < 2 ^ 31"
  shows "mesh_inv hosts n s \<and> k + (\<Sum>r = 1..<n. todo n (s r)) = (n - 1) * (n - 2)"
  using assms
proof (induction rule: mesh_run.induct)
  case (begin_run hosts n)
  have "(\<Sum>r = 1..<n. todo n (mesh_start r)) = (\<Sum>r = 1..<n. n - 2)" by (intro sum.cong) (auto simp: todo_def mesh_start_def)
  then show ?case by (simp add: mesh_inv_start)
next
  case (step_run hosts n k s s')
  then have "mesh_inv hosts n s" "k + (\<Sum>r = 1..<n. todo n (s r)) = (n - 1) * (n - 2)" by simp_all
  with mesh_step_inv [OF step_run.hyps(2)] mesh_step_todo [OF step_run.hyps(2)] step_run.prems show ?case by simp
qed

lemma all_accepted:
  assumes "rank_inv hosts n s r" and "to_accept (s r) = 1"
  shows "accepted s r = {1..<r}"
proof -
  have "waiting_ok hosts s r" using assms(1) by (simp only: rank_inv_def)
  then obtain cs where "set cs \<union> accepted s r = opened s r" unfolding waiting_ok_def by blast
  then have "accepted s r \<subseteq> opened s r" by blast
  moreover have "opened s r \<subseteq> {1..<r}" by (auto simp: opened_def)
  ultimately have sub: "accepted s r \<subseteq> {1..<r}" by (rule subset_trans)
  have "card (accepted s r) + to_accept (s r) = r" using assms(1) by (simp only: rank_inv_def)
  then have "card (accepted s r) = r - 1" using assms(2) by linarith
  then have "card (accepted s r) = card {1..<r}" by simp
  with sub show ?thesis by (intro card_subset_eq) simp_all
qed

lemma stuck_done:
  assumes inv: "mesh_inv hosts n s" and n: "n < 2 ^ 31" and stuck: "\<nexists>s'. mesh_step hosts n s s'" and r: "0 < r" "r < n"
  shows "to_accept (s r) < 2 \<and> n - 1 \<le> to_connect (s r)"
  using r
proof (induction r rule: less_induct)
  case (less r)
  have invr: "rank_inv hosts n s r" using inv less.prems by (simp add: mesh_inv_def)
  have op: "opened s r = {1..<r}" using less.IH less.prems by (fastforce simp: opened_def)
  have acc: "to_accept (s r) < 2"
  proof (rule ccontr)
    assume a: "\<not> to_accept (s r) < 2"
    obtain cs where cs: "listening (s r) = map (greeting hosts) cs" "set cs \<union> accepted s r = opened s r" "distinct cs"
      using invr by (auto simp: rank_inv_def waiting_ok_def)
    have "cs \<noteq> []"
    proof
      assume "cs = []"
      then have "card (accepted s r) = r - 1" using cs(2) op by simp
      moreover have "card (accepted s r) + to_accept (s r) = r" using invr by (simp only: rank_inv_def)
      ultimately show False using a less.prems by linarith
    qed
    then obtain c cs' where c: "cs = c # cs'" by (cases cs) auto
    then have "c < r" using cs(2) op by auto
    then have "Atoi (dcmpi_to_string (int c)) = Inr (int c)" using n less.prems by (intro Atoi_digits) simp
    then show False using stuck accepting [OF less.prems, of s "hosts ! c" "dcmpi_to_string (int c)" c "map (greeting hosts) cs'" c hosts]
      cs(1) c a by (auto simp: greeting_def)
  qed
  moreover have "n - 1 \<le> to_connect (s r)" 
  proof (rule ccontr)
    assume "\<not> n - 1 \<le> to_connect (s r)"
    then have "to_connect (s r) < n - 1" by simp
    from connecting [where r = r and s = s and sz = n, OF less.prems acc this refl] stuck show False by blast
  qed
  ultimately show ?case by simp
qed

text \<open>
  C21. The ranks connect to each other: whatever the order of their steps, they stop after exactly
  (n - 1)(n - 2) of them, never before every rank is done, and then any two ranks have one connection between
  them, which both know, opened by the lower one.
\<close>

theorem mesh_connects:
  assumes "mesh_run hosts n k s" and "n < 2 ^ 31"
  shows "k \<le> (n - 1) * (n - 2) \<and> (connected n s \<or> (\<exists>s'. mesh_step hosts n s s'))
    \<and> (connected n s \<longrightarrow> k = (n - 1) * (n - 2) \<and> (\<forall>a\<in>{1..<n}. \<forall>b\<in>{1..<n}. a \<noteq> b \<longrightarrow> mesh_fds (s a) b = Some (min a b, max a b)))"
proof -
  have inv: "mesh_inv hosts n s" and k: "k + (\<Sum>r = 1..<n. todo n (s r)) = (n - 1) * (n - 2)" using mesh_run_inv [OF assms] by auto
  have "connected n s" if "\<nexists>s'. mesh_step hosts n s s'" using stuck_done [OF inv assms(2) that] by (auto simp: connected_def)
  moreover have "k = (n - 1) * (n - 2) \<and> (\<forall>a\<in>{1..<n}. \<forall>b\<in>{1..<n}. a \<noteq> b \<longrightarrow> mesh_fds (s a) b = Some (min a b, max a b))"
    if c: "connected n s"
  proof
    have "todo n (s r) = 0" if "r \<in> {1..<n}" for r
      using c [unfolded connected_def, rule_format, of r] that by (auto simp: todo_def)
    then have "(\<Sum>r = 1..<n. todo n (s r)) = 0" by simp
    then show "k = (n - 1) * (n - 2)" using k by simp
    show "\<forall>a\<in>{1..<n}. \<forall>b\<in>{1..<n}. a \<noteq> b \<longrightarrow> mesh_fds (s a) b = Some (min a b, max a b)"
    proof (intro ballI impI)
      fix a b assume ab: "a \<in> {1..<n}" "b \<in> {1..<n}" "a \<noteq> b"
      have inva: "rank_inv hosts n s a" using inv ab(1) by (simp add: mesh_inv_def)
      have one: "to_accept (s a) = 1" "n - 1 \<le> to_connect (s a)" 
      proof -
        have "1 \<le> to_accept (s a)" using inva by (simp only: rank_inv_def)
        then show "to_accept (s a) = 1" "n - 1 \<le> to_connect (s a)" using c [unfolded connected_def, rule_format, of a] ab(1) by auto
      qed
      show "mesh_fds (s a) b = Some (min a b, max a b)"
      proof (cases "b < a")
        case True
        then have "b \<in> accepted s a" using all_accepted [OF inva one(1)] ab(2) by simp
        then show ?thesis using inva True by (auto simp: accepted_def rank_inv_def)
      next
        case False
        then have "a < b" "b \<le> to_connect (s a)" using ab one(2) by auto
        then show ?thesis using inva by (simp add: rank_inv_def)
      qed
    qed
  qed
  ultimately show ?thesis using k by auto
qed

text \<open>Two ranks and rank 0: rank 1 connects to rank 2, which accepts.\<close>

lemma mesh_connects_witness:
  "\<exists>s. mesh_run three_hosts 3 2 s \<and> connected 3 s \<and> mesh_fds (s 2) 1 = Some (1, 2) \<and> mesh_fds (s 1) 2 = Some (1, 2)"
proof -
  let ?s1 = "mesh_start(1 := (mesh_start 1)\<lparr>to_connect := 2, mesh_fds := (mesh_fds (mesh_start 1))(2 \<mapsto> (1, 2))\<rparr>,
      2 := (mesh_start 2)\<lparr>listening := listening (mesh_start 2) @ [greeting three_hosts 1]\<rparr>)"
  let ?s2 = "?s1(2 := (?s1 2)\<lparr>to_accept := to_accept (?s1 2) - 1, listening := [], mesh_fds := (mesh_fds (?s1 2))(1 \<mapsto> (1, 2))\<rparr>)"
  have "mesh_step three_hosts 3 mesh_start ?s1"
    by (rule connecting) (simp_all add: mesh_start_def)
  moreover have "Atoi (dcmpi_to_string (int 1)) = Inr (int 1)" by (rule Atoi_digits) simp
  then have "mesh_step three_hosts 3 ?s1 ?s2"
    by (intro accepting [of 2 3 ?s1 "three_hosts ! 1" "dcmpi_to_string (int 1)" 1 "[]" 1]) (simp_all add: mesh_start_def greeting_def)
  ultimately have "mesh_run three_hosts 3 (Suc (Suc 0)) ?s2" by (meson mesh_run.intros)
  then have run: "mesh_run three_hosts 3 2 ?s2" by (simp add: numeral_2_eq_2)
  moreover have c: "connected 3 ?s2" by (auto simp: connected_def mesh_start_def)
  moreover have "\<forall>a\<in>{1..<3}. \<forall>b\<in>{1..<3}. a \<noteq> b \<longrightarrow> mesh_fds (?s2 a) b = Some (min a b, max a b)"
    using mesh_connects [OF run] c by (simp only: simp_thms) simp
  from this [rule_format, of 2 1] this [rule_format, of 1 2] have "mesh_fds (?s2 2) 1 = Some (1, 2)" "mesh_fds (?s2 1) 2 = Some (1, 2)" by simp_all
  ultimately show ?thesis by blast
qed

end
