(* ===== verification/LayoutStart.thy ===== *)
theory LayoutStart
  imports LayoutWire Launch SocketMesh
begin

text \<open>
  How a run over sockets gets its layout (\<open>dcmpiruntime_common_execute\<close> of \<open>src/src/dcmpiruntime-util.cpp\<close> and
  \<open>dcmpi_socket_get_and_broadcast_layout\<close> of \<open>src/src/dcmpiruntime-socket.cpp\<close>): rank 0 of the first cluster reads it from the
  console and passes it on through the proxy, rank 0 of another cluster reads it from the proxy, and
  every rank 0 sends it, with the numbers of the run, to the ranks of its cluster. \<open>layout->deSerialize\<close> is an
  argument, a function of the buffer.
\<close>

section \<open>Rank 0\<close>

record start_links =
  console_in :: in_fd
  from_proxy :: in_fd
  to_proxy :: out_fd
  to_ranks :: "out_fd list"

definition lift_io :: "('w \<Rightarrow> 'f) \<Rightarrow> ('f \<Rightarrow> 'w \<Rightarrow> 'w) \<Rightarrow> ('a, 'f) io \<Rightarrow> 'w \<Rightarrow> ('a, 'w) io" where
  "lift_io part put m w =
     (case m of None \<Rightarrow> None | Some (Inl e) \<Rightarrow> Some (Inl e) | Some (Inr (x, f)) \<Rightarrow> Some (Inr (x, put f w)))"

definition read_checked :: "int \<Rightarrow> nat \<Rightarrow> in_fd \<Rightarrow> (char list, in_fd) io" where
  "read_checked errno n fd =
     bind_io (DC_read_all errno n fd) (\<lambda>(rc, _, bs) fd1. if rc \<noteq> 0 then fail Exit_failure else ret bs fd1)"

text \<open>\<open>socket_bcast\<close> at rank 0; elsewhere it is \<open>read_checked\<close>.\<close>

fun socket_bcast :: "char list \<Rightarrow> out_fd list \<Rightarrow> (unit, out_fd list) io" where
  "socket_bcast message [] = ret () []"
| "socket_bcast message (fd # fds) =
     (case write_checked message fd of
        None \<Rightarrow> None
      | Some (Inl e) \<Rightarrow> Some (Inl e)
      | Some (Inr (_, fd')) \<Rightarrow>
          (case socket_bcast message fds of
             None \<Rightarrow> None
           | Some (Inl e) \<Rightarrow> Some (Inl e)
           | Some (Inr (_, fds')) \<Rightarrow> ret () (fd' # fds')))"

text \<open>A message for every other cluster, and one that came for this cluster.\<close>

definition proxy_item :: "nat \<Rightarrow> char list \<Rightarrow> char list" where
  "proxy_item i message = dcmpi_to_string (int i) @ '' '' @ dcmpi_to_string (int (length message)) @ [newline]"

fun send_to_clusters :: "nat list \<Rightarrow> char list \<Rightarrow> out_fd \<Rightarrow> (unit, out_fd) io" where
  "send_to_clusters [] message fd = ret () fd"
| "send_to_clusters (i # is) message fd =
     bind_io (write_checked (proxy_item i message) fd) (\<lambda>_ fd1.
     bind_io (write_checked message fd1) (\<lambda>_ fd2. send_to_clusters is message fd2))"

definition get_from_proxy :: "int \<Rightarrow> nat \<Rightarrow> in_fd \<Rightarrow> (char list, in_fd) io" where
  "get_from_proxy errno n fd =
     bind_io (dcmpi_socket_read_line errno fd) (\<lambda>line fd1.
       if line \<noteq> dcmpi_to_string (int n) then fail Assert_failure else read_checked errno n fd1)"

definition fetch :: "int \<Rightarrow> launch_args \<Rightarrow> nat \<Rightarrow> start_links \<Rightarrow> (char list, start_links) io" where
  "fetch errno g n w =
     (if launch_args.cluster_rank g = 0 then
        bind_io (lift_io console_in (\<lambda>f w. w\<lparr>console_in := f\<rparr>) (read_checked errno n (console_in w)) w) (\<lambda>message w1.
        bind_io (lift_io to_proxy (\<lambda>f w. w\<lparr>to_proxy := f\<rparr>)
            (send_to_clusters [1..<nat (launch_args.cluster_size g)] message (to_proxy w1)) w1) (\<lambda>_ w2. ret message w2))
      else lift_io from_proxy (\<lambda>f w. w\<lparr>from_proxy := f\<rparr>) (get_from_proxy errno n (from_proxy w)) w)"

definition bcast :: "char list \<Rightarrow> start_links \<Rightarrow> (unit, start_links) io" where
  "bcast message w = lift_io to_ranks (\<lambda>f w. w\<lparr>to_ranks := f\<rparr>) (socket_bcast message (to_ranks w)) w"

text \<open>\<open>DCBuffer layout_buf(body_len)\<close>, filled, with the flag of rank 0.\<close>

definition layout_buffer :: "bool \<Rightarrow> int \<Rightarrow> bool \<Rightarrow> char list \<Rightarrow> DCBuffer result" where
  "layout_buffer host n big bytes =
     bind_result (DCBuffer_sized host n) (\<lambda>buf.
     bind_result (setUsedSize n (forceEndian big buf)) (\<lambda>buf1.
     bind_result (block_write (mem buf1) 0 bytes) (\<lambda>blk.
       Inr (if pBuf buf1 = None then buf1 else buf1\<lparr>pBuf := Some blk\<rparr>))))"

definition flag_byte :: "bool \<Rightarrow> char list" where
  "flag_byte host = native_bytes host (if host then 1 else 0 :: uint1)"

text \<open>The numbers of the run as \<open>int\<close>s, and the line with the rank of each.\<close>

definition run_numbers :: "launch_args \<Rightarrow> int list" where
  "run_numbers g = [launch_args.cluster_rank g, launch_args.cluster_size g, launch_args.cluster_offset g, launch_args.totaldcmpiranks g, if launch_args.console_filter_present g then 1 else 0]"

definition int_bytes :: "bool \<Rightarrow> int \<Rightarrow> char list" where
  "int_bytes host i = native_bytes host (word_of_int i :: int4)"

fun send_ranks :: "int \<Rightarrow> out_fd list \<Rightarrow> (unit, out_fd list) io" where
  "send_ranks r [] = ret () []"
| "send_ranks r (fd # fds) =
     (case dcmpi_socket_write_line (dcmpi_to_string (r + 1)) fd of
        None \<Rightarrow> None
      | Some (Inl e) \<Rightarrow> Some (Inl e)
      | Some (Inr (_, fd')) \<Rightarrow>
          (case send_ranks (r + 1) fds of
             None \<Rightarrow> None
           | Some (Inl e) \<Rightarrow> Some (Inl e)
           | Some (Inr (_, fds')) \<Rightarrow> ret () (fd' # fds')))"

definition rank0_layout :: "(DCBuffer \<Rightarrow> 'l result) \<Rightarrow> bool \<Rightarrow> int \<Rightarrow> launch_args \<Rightarrow> start_links \<Rightarrow> ('l, start_links) io" where
  "rank0_layout receive host errno g w =
     bind_io (fetch errno g DCMPI_PACKET_HEADER_SIZE w) (\<lambda>hdr w1.
     bind_io (bcast hdr w1) (\<lambda>_ w2.
       case init_from_bytearray host hdr blank_packet of
         Inl e \<Rightarrow> fail e
       | Inr head \<Rightarrow>
           if sint (body_len head) < 0 then fail Undefined_behaviour
           else bind_io (fetch errno g (nat (sint (body_len head))) w2) (\<lambda>bytes w3.
             bind_io (bcast (flag_byte host) w3) (\<lambda>_ w4.
             bind_io (bcast bytes w4) (\<lambda>_ w5.
               case bind_result (layout_buffer host (sint (body_len head)) host bytes) receive of
                 Inl e \<Rightarrow> fail e
               | Inr l \<Rightarrow>
                   bind_io (bcast (concat (map (int_bytes host) (run_numbers g))) w5) (\<lambda>_ w6.
                   bind_io (lift_io to_ranks (\<lambda>f w. w\<lparr>to_ranks := f\<rparr>) (send_ranks (launch_args.dcmpi_rank g) (to_ranks w6)) w6) (\<lambda>_ w7. ret l w7)))))))"

section \<open>The other ranks\<close>

definition read_int :: "bool \<Rightarrow> int \<Rightarrow> bool \<Rightarrow> in_fd \<Rightarrow> (int, in_fd) io" where
  "read_int host errno big fd =
     bind_io (read_checked errno 4 fd) (\<lambda>bs fd1.
       ret (sint (word_of_native host (if host \<noteq> big then dcmpi_endian_swap bs else bs) :: int4)) fd1)"

definition read_numbers :: "bool \<Rightarrow> int \<Rightarrow> bool \<Rightarrow> launch_args \<Rightarrow> in_fd \<Rightarrow> (launch_args, in_fd) io" where
  "read_numbers host errno big g fd =
     bind_io (read_int host errno big fd) (\<lambda>a fd1.
     bind_io (read_int host errno big fd1) (\<lambda>b fd2.
     bind_io (read_int host errno big fd2) (\<lambda>c fd3.
     bind_io (read_int host errno big fd3) (\<lambda>d fd4.
     bind_io (read_int host errno big fd4) (\<lambda>e fd5.
     bind_io (dcmpi_socket_read_line errno fd5) (\<lambda>line fd6.
       case Atoi line of
         Inl err \<Rightarrow> fail err
       | Inr r \<Rightarrow> ret (g\<lparr>launch_args.cluster_rank := a, launch_args.cluster_size := b, launch_args.cluster_offset := c, launch_args.totaldcmpiranks := d,
           launch_args.console_filter_present := (e = 1), launch_args.dcmpi_rank := r\<rparr>) fd6))))))"

definition other_layout :: "(DCBuffer \<Rightarrow> 'l result) \<Rightarrow> bool \<Rightarrow> int \<Rightarrow> launch_args \<Rightarrow> in_fd \<Rightarrow> ('l \<times> launch_args, in_fd) io" where
  "other_layout receive host errno g fd =
     bind_io (read_checked errno DCMPI_PACKET_HEADER_SIZE fd) (\<lambda>hdr fd1.
       case init_from_bytearray host hdr blank_packet of
         Inl e \<Rightarrow> fail e
       | Inr head \<Rightarrow>
           if sint (body_len head) < 0 then fail Undefined_behaviour
           else bind_io (read_checked errno 1 fd1) (\<lambda>flag fd2.
             bind_io (read_checked errno (nat (sint (body_len head))) fd2) (\<lambda>bytes fd3.
               let big = ((word_of_native host flag :: uint1) = 1)
               in case bind_result (layout_buffer host (sint (body_len head)) big bytes) receive of
                    Inl e \<Rightarrow> fail e
                  | Inr l \<Rightarrow> bind_io (read_numbers host errno big g fd3) (\<lambda>g' fd4. ret (l, g') fd4))))"

section \<open>Lemmas\<close>

lemma read_checked_ready:
  assumes "incoming fd = bs @ rest" and "read_ready (length bs + n) fd"
  obtains fd' where "read_checked errno (length bs) fd = Some (Inr (bs, fd'))" "incoming fd' = rest" "read_ready n fd'"
proof -
  from DC_read_all_ready [OF assms(2,1)] obtain fd' eof where
    "DC_read_all errno (length bs) fd = Some (Inr ((0, eof, bs), fd'))" "incoming fd' = rest" "read_ready n fd'" .
  with that show thesis by (simp add: read_checked_def ret_def)
qed

lemma socket_bcast_ok:
  assumes "\<forall>i<length fds. write_ready (length m + need i) (fds ! i)"
  shows "\<exists>fds'. socket_bcast m fds = Some (Inr ((), fds')) \<and> length fds' = length fds
    \<and> (\<forall>i<length fds. outgoing (fds' ! i) = outgoing (fds ! i) @ m \<and> write_ready (need i) (fds' ! i))"
  using assms
proof (induction fds arbitrary: need)
  case Nil
  then show ?case by (simp add: ret_def)
next
  case (Cons fd fds)
  have "write_ready (length m + need 0) fd" using Cons.prems by fastforce
  then obtain fd' where fd': "write_checked m fd = Some (Inr ((), fd'))" "outgoing fd' = outgoing fd @ m" "write_ready (need 0) fd'"
    using write_checked_ready by blast
  have "\<forall>i<length fds. write_ready (length m + need (Suc i)) (fds ! i)" using Cons.prems by fastforce
  from Cons.IH [of "\<lambda>i. need (Suc i)", OF this] obtain fds' where r: "socket_bcast m fds = Some (Inr ((), fds'))" "length fds' = length fds"
    "\<forall>i<length fds. outgoing (fds' ! i) = outgoing (fds ! i) @ m \<and> write_ready (need (Suc i)) (fds' ! i)" by blast
  have "outgoing ((fd' # fds') ! i) = outgoing ((fd # fds) ! i) @ m \<and> write_ready (need i) ((fd' # fds') ! i)" if "i < length (fd # fds)" for i
    using that fd'(2,3) r(3) by (cases i) simp_all
  with fd'(1) r(1,2) show ?case by (intro exI [of _ "fd' # fds'"]) (simp add: ret_def)
qed

lemma send_ranks_ok:
  assumes "\<forall>i<length fds. write_ready (length (dcmpi_to_string (int (r + 1 + i))) + 1) (fds ! i)" and "r + length fds < 2 ^ 31"
  shows "\<exists>fds'. send_ranks (int r) fds = Some (Inr ((), fds')) \<and> length fds' = length fds
    \<and> (\<forall>i<length fds. outgoing (fds' ! i) = outgoing (fds ! i) @ dcmpi_to_string (int (r + 1 + i)) @ [newline])"
  using assms
proof (induction fds arbitrary: r)
  case Nil
  then show ?case by (simp add: ret_def)
next
  case (Cons fd fds)
  have w: "write_ready (length (dcmpi_to_string (int (r + 1))) + 1 + 0) fd" using Cons.prems(1) by fastforce
  have "good_line (dcmpi_to_string (int (r + 1)))" using Cons.prems(2) by (intro good_number) simp
  then obtain fd' where fd': "dcmpi_socket_write_line (dcmpi_to_string (int (r + 1))) fd = Some (Inr ((), fd'))"
    "outgoing fd' = outgoing fd @ dcmpi_to_string (int (r + 1)) @ [newline]" using write_line_ready [OF _ w] by blast
  have "\<forall>i<length fds. write_ready (length (dcmpi_to_string (int (Suc r + 1 + i))) + 1) (fds ! i)" using Cons.prems(1) by fastforce
  from Cons.IH [OF this] Cons.prems(2) obtain fds' where r: "send_ranks (int (Suc r)) fds = Some (Inr ((), fds'))" "length fds' = length fds"
    "\<forall>i<length fds. outgoing (fds' ! i) = outgoing (fds ! i) @ dcmpi_to_string (int (Suc r + 1 + i)) @ [newline]" by auto
  have "outgoing ((fd' # fds') ! i) = outgoing ((fd # fds) ! i) @ dcmpi_to_string (int (r + 1 + i)) @ [newline]" if "i < length (fd # fds)" for i
    using that fd'(2) r(3) by (cases i) (simp_all add: add.commute)
  moreover have "int (Suc r) = int r + 1" "int (r + 1) = int r + 1" by simp_all
  then have "send_ranks (int r) (fd # fds) = Some (Inr ((), fd' # fds'))"
    using fd'(1) r(1) by (simp only: send_ranks.simps option.case sum.case prod.case ret_def)
  ultimately show ?case using r(2) by (intro exI [of _ "fd' # fds'"]) simp
qed

text \<open>What a rank 0 is still to get, and what it passes on.\<close>

definition passed :: "launch_args \<Rightarrow> char list \<Rightarrow> char list" where
  "passed g m = concat (map (\<lambda>i. proxy_item i m @ m) [1..<nat (cluster_size g)])"

definition arriving :: "launch_args \<Rightarrow> char list list \<Rightarrow> start_links \<Rightarrow> bool" where
  "arriving g ms w \<longleftrightarrow>
     (if launch_args.cluster_rank g = 0
      then (\<exists>rest. incoming (console_in w) = concat ms @ rest) \<and> read_ready (length (concat ms)) (console_in w)
        \<and> write_ready (length (concat (map (passed g) ms))) (to_proxy w)
      else (\<exists>rest. incoming (from_proxy w) = concat (map proxy_out_item ms) @ rest)
        \<and> read_ready (length (concat (map proxy_out_item ms))) (from_proxy w))"

lemma send_to_clusters_ok:
  "write_ready (length (concat (map (\<lambda>i. proxy_item i m @ m) is)) + n) fd \<Longrightarrow>
     \<exists>fd'. send_to_clusters is m fd = Some (Inr ((), fd')) \<and> outgoing fd' = outgoing fd @ concat (map (\<lambda>i. proxy_item i m @ m) is) \<and> write_ready n fd'"
proof (induction "is" arbitrary: fd)
  case Nil
  then show ?case by (simp add: ret_def)
next
  case (Cons i "is")
  let ?rest = "concat (map (\<lambda>i. proxy_item i m @ m) is)"
  have w: "write_ready (length (proxy_item i m) + (length m + (length ?rest + n))) fd" using Cons.prems by (simp add: add.assoc)
  obtain fd1 where 1: "write_checked (proxy_item i m) fd = Some (Inr ((), fd1))" "outgoing fd1 = outgoing fd @ proxy_item i m"
    "write_ready (length m + (length ?rest + n)) fd1" using write_checked_ready [OF w] .
  obtain fd2 where 2: "write_checked m fd1 = Some (Inr ((), fd2))" "outgoing fd2 = outgoing fd1 @ m" "write_ready (length ?rest + n) fd2"
    using write_checked_ready [OF 1(3)] .
  from Cons.IH [OF 2(3)] 1(1,2) 2(1,2) show ?case by auto
qed

lemma fetch_ok:
  assumes "arriving g (m # ms) w" and "length m < 2 ^ 31"
  shows "\<exists>w'. fetch errno g (length m) w = Some (Inr (m, w')) \<and> arriving g ms w' \<and> to_ranks w' = to_ranks w
    \<and> outgoing (to_proxy w') = outgoing (to_proxy w) @ (if launch_args.cluster_rank g = 0 then passed g m else [])"
proof (cases "launch_args.cluster_rank g = 0")
  case True
  then obtain rest where a: "incoming (console_in w) = m @ (concat ms @ rest)" "read_ready (length m + length (concat ms)) (console_in w)"
    "write_ready (length (passed g m) + length (concat (map (passed g) ms))) (to_proxy w)"
    using assms(1) by (auto simp: arriving_def)
  obtain f1 where f1: "read_checked errno (length m) (console_in w) = Some (Inr (m, f1))" "incoming f1 = concat ms @ rest"
    "read_ready (length (concat ms)) f1" using read_checked_ready [OF a(1,2)] .
  obtain f2 where f2: "send_to_clusters [1..<nat (cluster_size g)] m (to_proxy w) = Some (Inr ((), f2))"
    "outgoing f2 = outgoing (to_proxy w) @ passed g m" "write_ready (length (concat (map (passed g) ms))) f2"
    using send_to_clusters_ok [OF a(3) [unfolded passed_def [of g m]]] unfolding passed_def [of g m] by blast
  show ?thesis using True f1 f2 by (intro exI [of _ "w\<lparr>console_in := f1, to_proxy := f2\<rparr>"]) (simp add: fetch_def lift_io_def ret_def arriving_def)
next
  case False
  let ?line = "dcmpi_to_string (int (length m))"
  obtain rest where a: "incoming (from_proxy w) = ?line @ newline # (m @ concat (map proxy_out_item ms) @ rest)"
    "read_ready (length ?line + 1 + (length m + length (concat (map proxy_out_item ms)))) (from_proxy w)"
    using assms(1) False by (auto simp: arriving_def proxy_out_item_def add.assoc)
  have nl: "newline \<notin> set ?line" using good_number [OF assms(2)] by (simp add: good_line_def)
  obtain f1 where f1: "dcmpi_socket_read_line errno (from_proxy w) = Some (Inr (?line, f1))"
    "incoming f1 = m @ concat (map proxy_out_item ms) @ rest" "read_ready (length m + length (concat (map proxy_out_item ms))) f1"
    using read_line_ready [OF nl a] .
  obtain f2 where f2: "read_checked errno (length m) f1 = Some (Inr (m, f2))" "incoming f2 = concat (map proxy_out_item ms) @ rest"
    "read_ready (length (concat (map proxy_out_item ms))) f2" using read_checked_ready [OF f1(2,3)] .
  show ?thesis using False f1(1) f2 by (intro exI [of _ "w\<lparr>from_proxy := f2\<rparr>"]) (simp add: fetch_def lift_io_def get_from_proxy_def arriving_def)
qed

lemma layout_buffer_ok:
  assumes "bytes \<noteq> []" and "short bytes"
  shows "layout_buffer host (int (length bytes)) big bytes = Inr (restored big bytes)"
proof -
  have "0 < int (length bytes)" using assms(1) by simp
  then show ?thesis
    using assms by (simp add: layout_buffer_def DCBuffer_sized_def New_def DCBuffer_empty_def commonInit_def forceEndian_def setUsedSize_def
        mem_def block_write_fits restored_def)
qed

lemma read_int_ok:
  assumes "int4_ok x" and "incoming fd = int_bytes h x @ rest" and "read_ready (4 + n) fd"
  obtains fd' where "read_int host errno h fd = Some (Inr (x, fd'))" "incoming fd' = rest" "read_ready n fd'"
proof -
  have len: "length (int_bytes h x) = 4" by (simp add: int_bytes_def)
  obtain fd' where r: "read_checked errno (length (int_bytes h x)) fd = Some (Inr (int_bytes h x, fd'))" "incoming fd' = rest" "read_ready n fd'"
    using read_checked_ready [OF assms(2), of n errno] assms(3) unfolding len by blast
  have "word_of_native host (if host \<noteq> h then dcmpi_endian_swap (int_bytes h x) else int_bytes h x) = (word_of_int x :: int4)"
  proof (cases "host = h")
    case True
    then show ?thesis by (simp add: int_bytes_def word_of_native_bytes)
  next
    case False
    then have "h = (\<not> host)" by auto
    then show ?thesis by (simp add: int_bytes_def endian_swap_is_rev native_bytes_swap word_of_native_bytes)
  qed
  moreover have "sint (word_of_int x :: int4) = x"
    using assms(1) by (simp add: int4_ok_def signed_of_int signed_take_bit_int_eq_self)
  ultimately show thesis using that r unfolding len by (simp add: read_int_def ret_def)
qed

definition number_bytes :: "bool \<Rightarrow> launch_args \<Rightarrow> char list" where
  "number_bytes h g = concat (map (int_bytes h) (run_numbers g))"

definition numbers_ok :: "launch_args \<Rightarrow> bool" where
  "numbers_ok g \<longleftrightarrow> (\<forall>x\<in>set (run_numbers g). int4_ok x)"

text \<open>The numbers of another process, with a rank of its own.\<close>

definition numbered :: "launch_args \<Rightarrow> int \<Rightarrow> launch_args \<Rightarrow> launch_args" where
  "numbered g r g0 = g0\<lparr>launch_args.cluster_rank := launch_args.cluster_rank g, launch_args.cluster_size := launch_args.cluster_size g,
     launch_args.cluster_offset := launch_args.cluster_offset g, launch_args.totaldcmpiranks := launch_args.totaldcmpiranks g,
     launch_args.console_filter_present := launch_args.console_filter_present g, launch_args.dcmpi_rank := r\<rparr>"

lemma read_numbers_ok:
  assumes "numbers_ok g" and "r < 2 ^ 31" and "incoming fd = number_bytes h g @ dcmpi_to_string (int r) @ newline # rest"
    and "read_ready (20 + (length (dcmpi_to_string (int r)) + 1)) fd"
  shows "\<exists>fd'. read_numbers host errno h g0 fd = Some (Inr (numbered g (int r) g0, fd'))"
proof -
  let ?line = "dcmpi_to_string (int r)" and ?cfp = "if launch_args.console_filter_present g then 1 else 0 :: int"
  have ok: "int4_ok (launch_args.cluster_rank g)" "int4_ok (launch_args.cluster_size g)" "int4_ok (launch_args.cluster_offset g)"
    "int4_ok (launch_args.totaldcmpiranks g)" "int4_ok ?cfp"
    using assms(1) by (simp_all add: numbers_ok_def run_numbers_def)
  have i: "incoming fd = int_bytes h (launch_args.cluster_rank g) @ (int_bytes h (launch_args.cluster_size g) @ int_bytes h (launch_args.cluster_offset g)
      @ int_bytes h (launch_args.totaldcmpiranks g) @ int_bytes h ?cfp @ ?line @ newline # rest)"
    using assms(3) by (simp add: number_bytes_def run_numbers_def)
  have d: "read_ready (4 + (4 + (4 + (4 + (4 + (length ?line + 1 + 0)))))) fd" using assms(4) by (simp add: add.commute)
  obtain f1 where 1: "read_int host errno h fd = Some (Inr (launch_args.cluster_rank g, f1))"
    "incoming f1 = int_bytes h (launch_args.cluster_size g) @ (int_bytes h (launch_args.cluster_offset g) @ int_bytes h (launch_args.totaldcmpiranks g)
      @ int_bytes h ?cfp @ ?line @ newline # rest)" "read_ready (4 + (4 + (4 + (4 + (length ?line + 1 + 0))))) f1"
    using read_int_ok [OF ok(1) i d] .
  obtain f2 where 2: "read_int host errno h f1 = Some (Inr (launch_args.cluster_size g, f2))"
    "incoming f2 = int_bytes h (launch_args.cluster_offset g) @ (int_bytes h (launch_args.totaldcmpiranks g) @ int_bytes h ?cfp @ ?line @ newline # rest)"
    "read_ready (4 + (4 + (4 + (length ?line + 1 + 0)))) f2" using read_int_ok [OF ok(2) 1(2,3)] .
  obtain f3 where 3: "read_int host errno h f2 = Some (Inr (launch_args.cluster_offset g, f3))"
    "incoming f3 = int_bytes h (launch_args.totaldcmpiranks g) @ (int_bytes h ?cfp @ ?line @ newline # rest)"
    "read_ready (4 + (4 + (length ?line + 1 + 0))) f3" using read_int_ok [OF ok(3) 2(2,3)] .
  obtain f4 where 4: "read_int host errno h f3 = Some (Inr (launch_args.totaldcmpiranks g, f4))"
    "incoming f4 = int_bytes h ?cfp @ (?line @ newline # rest)" "read_ready (4 + (length ?line + 1 + 0)) f4" using read_int_ok [OF ok(4) 3(2,3)] .
  obtain f5 where 5: "read_int host errno h f4 = Some (Inr (?cfp, f5))" "incoming f5 = ?line @ newline # rest"
    "read_ready (length ?line + 1 + 0) f5" using read_int_ok [OF ok(5) 4(2,3)] .
  have nl: "newline \<notin> set ?line" using good_number [OF assms(2)] by (simp add: good_line_def)
  obtain f6 where 6: "dcmpi_socket_read_line errno f5 = Some (Inr (?line, f6))" using read_line_ready [OF nl 5(2,3)] .
  have "Atoi ?line = Inr (int r)" using assms(2) by (intro Atoi_digits) simp
  moreover have "(?cfp = 1) = launch_args.console_filter_present g" by simp
  ultimately show ?thesis using 1(1) 2(1) 3(1) 4(1) 5(1) 6 by (simp add: read_numbers_def ret_def numbered_def)
qed

lemma flag_ok: "((word_of_native host (flag_byte h) :: uint1) = 1) = h" "length (flag_byte h) = 1"
proof -
  have "((word_of_native True (flag_byte True) :: uint1) = 1)" "((word_of_native False (flag_byte True) :: uint1) = 1)"
    "((word_of_native True (flag_byte False) :: uint1) \<noteq> 1)" "((word_of_native False (flag_byte False) :: uint1) \<noteq> 1)"
    by code_simp+
  then show "((word_of_native host (flag_byte h) :: uint1) = 1) = h" by (cases host; cases h) simp_all
qed (simp add: flag_byte_def)

text \<open>
  All that rank 0 sends to another rank. The layout comes with the flag of rank 0, whatever the byte order of the
  console that wrote it.
\<close>

definition rank_text :: "bool \<Rightarrow> char list \<Rightarrow> char list \<Rightarrow> launch_args \<Rightarrow> nat \<Rightarrow> char list" where
  "rank_text h hdr bytes g r = hdr @ flag_byte h @ bytes @ number_bytes h g @ dcmpi_to_string (int r) @ [newline]"

lemma other_layout_ok:
  assumes p: "sendable_packet p" "body p = Some b" "used b \<noteq> []" and g: "numbers_ok g" "r < 2 ^ 31"
    and inc: "incoming fd = rank_text h (header_of hc p) (used b) g r" "read_ready (length (incoming fd)) fd"
  shows "\<exists>fd'. other_layout receive host errno g0 fd
    = (case receive (restored h (used b)) of Inl e \<Rightarrow> Some (Inl e) | Inr l \<Rightarrow> Some (Inr ((l, numbered g (int r) g0), fd')))"
proof -
  let ?line = "dcmpi_to_string (int r)"
  note sz = sendable_body [OF p(1,2)]
  have hdr: "init_from_bytearray host (header_of hc p) blank_packet = Inr (p\<lparr>body := None\<rparr>)" "length (header_of hc p) = DCMPI_PACKET_HEADER_SIZE"
    using sendable_header [OF p(1)] by (simp_all add: blank_packet_def DCMPIPacket_new_def)
  have nb: "length (number_bytes h g) = 20" by (simp add: number_bytes_def run_numbers_def int_bytes_def)
  have i: "incoming fd = header_of hc p @ (flag_byte h @ used b @ number_bytes h g @ ?line @ [newline])" using inc(1) by (simp add: rank_text_def)
  have d: "read_ready (length (header_of hc p) + (length (flag_byte h) + (length (used b) + (20 + (length ?line + 1))))) fd"
    using inc(2) unfolding i by (simp add: nb add.assoc)
  obtain f1 where 1: "read_checked errno (length (header_of hc p)) fd = Some (Inr (header_of hc p, f1))"
    "incoming f1 = flag_byte h @ used b @ number_bytes h g @ ?line @ [newline]"
    "read_ready (length (flag_byte h) + (length (used b) + (20 + (length ?line + 1)))) f1" using read_checked_ready [OF i d] .
  obtain f2 where 2: "read_checked errno (length (flag_byte h)) f1 = Some (Inr (flag_byte h, f2))"
    "incoming f2 = used b @ number_bytes h g @ ?line @ [newline]" "read_ready (length (used b) + (20 + (length ?line + 1))) f2"
    using read_checked_ready [OF 1(2,3)] .
  obtain f3 where 3: "read_checked errno (length (used b)) f2 = Some (Inr (used b, f3))"
    "incoming f3 = number_bytes h g @ ?line @ [newline]" "read_ready (20 + (length ?line + 1)) f3"
    using read_checked_ready [OF 2(2,3)] .
  obtain f4 where 4: "read_numbers host errno h g0 f3 = Some (Inr (numbered g (int r) g0, f4))"
    using read_numbers_ok [OF g 3(2,3)] by blast
  have buf: "layout_buffer host (int (length (used b))) h (used b) = Inr (restored h (used b))"
    using layout_buffer_ok [OF p(3) sz(2)] .
  show ?thesis
    using 1(1) 2(1) 3(1) 4 hdr buf unfolding flag_ok(2)
    by (intro exI [of _ f4]) (simp add: other_layout_def flag_ok sz(1) Let_def ret_def fail_def split: sum.splits)
qed

text \<open>Rank 0, and what its ranks get.\<close>

lemma bcast_ok:
  assumes "\<forall>i<length (to_ranks w). write_ready (length m + need i) (to_ranks w ! i)"
  shows "\<exists>w'. bcast m w = Some (Inr ((), w')) \<and> w' = w\<lparr>to_ranks := to_ranks w'\<rparr> \<and> length (to_ranks w') = length (to_ranks w)
    \<and> (\<forall>i<length (to_ranks w). outgoing (to_ranks w' ! i) = outgoing (to_ranks w ! i) @ m \<and> write_ready (need i) (to_ranks w' ! i))"
proof -
  obtain fds' where "socket_bcast m (to_ranks w) = Some (Inr ((), fds'))" "length fds' = length (to_ranks w)"
    "\<forall>i<length (to_ranks w). outgoing (fds' ! i) = outgoing (to_ranks w ! i) @ m \<and> write_ready (need i) (fds' ! i)"
    using socket_bcast_ok [OF assms] by blast
  then show ?thesis by (intro exI [of _ "w\<lparr>to_ranks := fds'\<rparr>"]) (simp add: bcast_def lift_io_def)
qed

lemma arriving_ranks [simp]: "arriving g ms (w\<lparr>to_ranks := fds\<rparr>) = arriving g ms w"
  by (simp add: arriving_def)

lemma rank0_layout_ok:
  assumes p: "sendable_packet p" "body p = Some b" "used b \<noteq> []" and r0: "launch_args.dcmpi_rank g = int r0" "r0 + length (to_ranks w) < 2 ^ 31"
    and arr: "arriving g [header_of hc p, used b] w"
    and ready: "\<forall>i<length (to_ranks w). write_ready (length (rank_text h (header_of hc p) (used b) g (r0 + 1 + i))) (to_ranks w ! i)"
    and rcv: "receive (restored h (used b)) = Inr l"
  shows "\<exists>w'. rank0_layout receive h errno g w = Some (Inr (l, w')) \<and> length (to_ranks w') = length (to_ranks w)
    \<and> (\<forall>i<length (to_ranks w). outgoing (to_ranks w' ! i)
         = outgoing (to_ranks w ! i) @ rank_text h (header_of hc p) (used b) g (r0 + 1 + i))
    \<and> outgoing (to_proxy w') = outgoing (to_proxy w) @ (if launch_args.cluster_rank g = 0 then passed g (header_of hc p) @ passed g (used b) else [])"
proof -
  let ?hdr = "header_of hc p" and ?len = "\<lambda>i. length (dcmpi_to_string (int (r0 + 1 + i))) + 1"
  define n where "n = length (to_ranks w)"
  note sz = sendable_body [OF p(1,2)]
  have hdr: "init_from_bytearray h ?hdr blank_packet = Inr (p\<lparr>body := None\<rparr>)" "length ?hdr = DCMPI_PACKET_HEADER_SIZE"
    using sendable_header [OF p(1)] by (simp_all add: blank_packet_def DCMPIPacket_new_def)
  have short: "length ?hdr < 2 ^ 31" "length (used b) < 2 ^ 31"
    using hdr(2) sz(2) by (simp_all add: short_def DCMPI_PACKET_HEADER_SIZE_def DCMPI_PORT_MAXLEN_SIZE_def)
  have nb: "length (number_bytes h g) = 20" by (simp add: number_bytes_def run_numbers_def int_bytes_def)
  obtain w1 where 1: "fetch errno g (length ?hdr) w = Some (Inr (?hdr, w1))" "arriving g [used b] w1" "to_ranks w1 = to_ranks w"
    "outgoing (to_proxy w1) = outgoing (to_proxy w) @ (if launch_args.cluster_rank g = 0 then passed g ?hdr else [])"
    using fetch_ok [OF arr short(1)] by blast
  have "\<forall>i<length (to_ranks w1). write_ready (length ?hdr + (length (flag_byte h) + (length (used b) + (length (number_bytes h g) + ?len i)))) (to_ranks w1 ! i)"
    using ready by (simp add: 1(3) rank_text_def add.assoc)
  from bcast_ok [OF this] obtain w2 where 2: "bcast ?hdr w1 = Some (Inr ((), w2))" "w2 = w1\<lparr>to_ranks := to_ranks w2\<rparr>" "length (to_ranks w2) = n"
    "\<forall>i<n. outgoing (to_ranks w2 ! i) = outgoing (to_ranks w ! i) @ ?hdr
       \<and> write_ready (length (flag_byte h) + (length (used b) + (length (number_bytes h g) + ?len i))) (to_ranks w2 ! i)"
    unfolding 1(3) n_def by blast
  have "arriving g [used b] w2" using 1(2) by (subst 2(2)) simp
  from fetch_ok [OF this short(2)] obtain w3 where 3: "fetch errno g (length (used b)) w2 = Some (Inr (used b, w3))" "to_ranks w3 = to_ranks w2"
    "outgoing (to_proxy w3) = outgoing (to_proxy w2) @ (if launch_args.cluster_rank g = 0 then passed g (used b) else [])" by blast
  have "\<forall>i<length (to_ranks w3). write_ready (length (flag_byte h) + (length (used b) + (length (number_bytes h g) + ?len i))) (to_ranks w3 ! i)"
    using 2(3,4) by (simp add: 3(2))
  from bcast_ok [OF this] obtain w4 where 4: "bcast (flag_byte h) w3 = Some (Inr ((), w4))" "w4 = w3\<lparr>to_ranks := to_ranks w4\<rparr>" "length (to_ranks w4) = n"
    "\<forall>i<n. outgoing (to_ranks w4 ! i) = outgoing (to_ranks w2 ! i) @ flag_byte h
       \<and> write_ready (length (used b) + (length (number_bytes h g) + ?len i)) (to_ranks w4 ! i)"
    unfolding 3(2) 2(3) by blast
  have "\<forall>i<length (to_ranks w4). write_ready (length (used b) + (length (number_bytes h g) + ?len i)) (to_ranks w4 ! i)"
    using 4(3,4) by simp
  from bcast_ok [OF this] obtain w5 where 5: "bcast (used b) w4 = Some (Inr ((), w5))" "w5 = w4\<lparr>to_ranks := to_ranks w5\<rparr>" "length (to_ranks w5) = n"
    "\<forall>i<n. outgoing (to_ranks w5 ! i) = outgoing (to_ranks w4 ! i) @ used b
       \<and> write_ready (length (number_bytes h g) + ?len i) (to_ranks w5 ! i)"
    unfolding 4(3) by blast
  have "\<forall>i<length (to_ranks w5). write_ready (length (number_bytes h g) + ?len i) (to_ranks w5 ! i)"
    using 5(3,4) by simp
  from bcast_ok [OF this] obtain w6 where 6: "bcast (number_bytes h g) w5 = Some (Inr ((), w6))" "w6 = w5\<lparr>to_ranks := to_ranks w6\<rparr>" "length (to_ranks w6) = n"
    "\<forall>i<n. outgoing (to_ranks w6 ! i) = outgoing (to_ranks w5 ! i) @ number_bytes h g \<and> write_ready (?len i) (to_ranks w6 ! i)"
    unfolding 5(3) by blast
  have "\<forall>i<length (to_ranks w6). write_ready (?len i) (to_ranks w6 ! i)" "r0 + length (to_ranks w6) < 2 ^ 31"
    using 6(3,4) r0(2) by (simp_all add: n_def)
  from send_ranks_ok [OF this] obtain fds where 7: "send_ranks (int r0) (to_ranks w6) = Some (Inr ((), fds))" "length fds = n"
    "\<forall>i<n. outgoing (fds ! i) = outgoing (to_ranks w6 ! i) @ dcmpi_to_string (int (r0 + 1 + i)) @ [newline]"
    unfolding 6(3) by blast
  have buf: "layout_buffer h (int (length (used b))) h (used b) = Inr (restored h (used b))" using layout_buffer_ok [OF p(3) sz(2)] .
  have run: "rank0_layout receive h errno g w = Some (Inr (l, w6\<lparr>to_ranks := fds\<rparr>))"
    using 1(1) 2(1) 3(1) 4(1) 5(1) 6(1) 7(1) hdr buf rcv
    by (simp add: rank0_layout_def sz(1) r0(1) lift_io_def ret_def flip: number_bytes_def)
  have out: "outgoing (fds ! i) = outgoing (to_ranks w ! i) @ rank_text h ?hdr (used b) g (r0 + 1 + i)" if "i < n" for i
    using 2(4) 4(4) 5(4) 6(4) 7(3) that by (simp add: rank_text_def)
  have "to_proxy w6 = to_proxy w3" "to_proxy w2 = to_proxy w1"
    using arg_cong [OF 6(2), of to_proxy] arg_cong [OF 5(2), of to_proxy] arg_cong [OF 4(2), of to_proxy] arg_cong [OF 2(2), of to_proxy] by simp_all
  then have "outgoing (to_proxy w6) = outgoing (to_proxy w) @ (if launch_args.cluster_rank g = 0 then passed g ?hdr @ passed g (used b) else [])"
    using 1(4) 3(3) by simp
  with run out 7(2) show ?thesis by (intro exI [of _ "w6\<lparr>to_ranks := fds\<rparr>"]) (simp add: n_def)
qed

section \<open>The layout arrives everywhere\<close>

text \<open>The packet that \<open>execute2\<close> puts into the queue to the runtime, and \<open>layout->deSerialize\<close> of a receiver.\<close>

definition layout_packet :: "DCBuffer \<Rightarrow> DCMPIPacket" where
  "layout_packet b = DCMPIPacket_new \<lparr>to_rank = - 1, to_cluster_rank = - 1, to_gftid = - 1, to_port = [],
     from_rank = - 1, from_cluster_rank = - 1, from_gftid = - 1, from_port = []\<rparr> DCMPI_PACKET_TYPE_LAYOUT (word_of_int (wSize b)) (Some b)"

definition receive_layout :: "(string \<Rightarrow> bool) \<Rightarrow> int \<Rightarrow> environment \<Rightarrow> DCLayout \<Rightarrow> DCFilterRegistry \<Rightarrow> bool \<Rightarrow> DCBuffer \<Rightarrow>
    (environment \<times> DCLayout \<times> DCFilterRegistry) result" where
  "receive_layout file_exists junk env0 l0 reg0 host b =
     bind_result (layout_deSerialize file_exists False junk env0 l0 reg0 host b) (\<lambda>(x, _). Inr x)"

text \<open>What a receiver should have.\<close>

definition layout_from :: "environment \<Rightarrow> DCFilterRegistry \<Rightarrow> DCLayout \<Rightarrow> (string \<Rightarrow> bool) \<Rightarrow> environment \<Rightarrow> DCLayout \<Rightarrow> DCFilterRegistry \<Rightarrow>
    environment \<times> DCLayout \<times> DCFilterRegistry" where
  "layout_from env reg l file_exists env0 l0 reg0 =
     (received_env env l env0, received_layout l l0, fold (note_library file_exists) (filter_to_libfile_unresolved reg) reg0)"

lemma receive_layout_ok:
  assumes "layout_ok env reg l" and "short (enc_layout env reg h l)"
  shows "receive_layout file_exists junk env0 l0 reg0 host (restored h (enc_layout env reg h l)) = Inr (layout_from env reg l file_exists env0 l0 reg0)"
proof -
  have "unread (restored h (enc_layout env reg h l)) = enc_layout env reg h l @ []" by simp
  from readsD [OF reads_layout [OF assms(1)] restored_wf(1) [OF assms(2)] restored_wf(4) this]
  obtain b' where "layout_deSerialize file_exists False junk env0 l0 reg0 host (restored h (enc_layout env reg h l))
    = Inr ((received_env env l env0, received_layout l l0, fold (note_library file_exists) (filter_to_libfile_unresolved reg) reg0), b')" by blast
  then show ?thesis by (simp add: receive_layout_def layout_from_def)
qed

text \<open>
  C20. A layout that the console serialises reaches every rank of a run over sockets, if the console and the ranks 0 of
  the clusters have the same byte order: rank 0 has it from the console or, in another cluster, from the proxy,
  and every other rank, on a host of any byte order, then has the same layout, the numbers of the cluster and the
  run, and a rank of its own; for each other cluster the proxy gets the same two messages.
\<close>

theorem socket_layout_arrives:
  assumes "layout_ok env reg l" and "2 * length (enc_layout env reg h l) < 2 ^ 31" and "layout_serialize env reg h l (DCBuffer_empty h) = Inr b"
    and "hdr = header_of h (layout_packet b)" and "arriving g [hdr, used b] w"
    and "numbers_ok g" and "launch_args.dcmpi_rank g = int r0" and "r0 + length (to_ranks w) < 2 ^ 31"
    and "\<forall>i<length (to_ranks w). write_ready (length (rank_text h hdr (used b) g (r0 + 1 + i))) (to_ranks w ! i)"
  shows "\<exists>w'. rank0_layout (receive_layout file_exists junk env0 l0 reg0 h) h errno g w = Some (Inr (layout_from env reg l file_exists env0 l0 reg0, w'))
    \<and> outgoing (to_proxy w') = outgoing (to_proxy w) @ (if launch_args.cluster_rank g = 0 then passed g hdr @ passed g (used b) else [])
    \<and> (\<forall>i<length (to_ranks w). \<forall>inp host g0 fe env1 l1 reg1.
         incoming inp = drop (length (outgoing (to_ranks w ! i))) (outgoing (to_ranks w' ! i)) \<and> read_ready (length (incoming inp)) inp \<longrightarrow>
         (\<exists>inp'. other_layout (receive_layout fe junk env1 l1 reg1 host) host errno g0 inp
            = Some (Inr ((layout_from env reg l fe env1 l1 reg1, numbered g (int (r0 + 1 + i)) g0), inp'))))"
proof -
  let ?bytes = "enc_layout env reg h l" and ?p = "layout_packet b"
  have "2 * (wSize (DCBuffer_empty h) + int (length ?bytes)) < 2 ^ 31" using assms(2) by simp
  from writesD [OF writes_layout [OF assms(1)] empty_wf(1,2,5) this]
  have b: "buf_wf b" "used b = ?bytes" using assms(3) by (metis append_Nil empty_wf(3) sum.inject(2))+
  have p: "sendable_packet ?p" "body ?p = Some b"
    using b(1) by (simp_all add: sendable_packet_def layout_packet_def DCMPIPacket_new_def port_ok_def)
  have s: "short ?bytes" using assms(2) by (simp add: short_def)
  have "length (enc_int h (int (length (propagated_environment_variables l)))) = 4" by (simp add: enc_int_def)
  then have ne: "used b \<noteq> []" unfolding b(2) enc_layout_def by (intro notI) simp
  have rcv: "receive_layout fe junk env1 l1 reg1 host (restored h (used b)) = Inr (layout_from env reg l fe env1 l1 reg1)" for fe env1 l1 reg1 host
    unfolding b(2) by (rule receive_layout_ok [OF assms(1) s])
  obtain w' where w': "rank0_layout (receive_layout file_exists junk env0 l0 reg0 h) h errno g w = Some (Inr (layout_from env reg l file_exists env0 l0 reg0, w'))"
    "\<forall>i<length (to_ranks w). outgoing (to_ranks w' ! i) = outgoing (to_ranks w ! i) @ rank_text h hdr (used b) g (r0 + 1 + i)"
    "outgoing (to_proxy w') = outgoing (to_proxy w) @ (if launch_args.cluster_rank g = 0 then passed g hdr @ passed g (used b) else [])"
    using rank0_layout_ok [where receive = "receive_layout file_exists junk env0 l0 reg0 h" and errno = errno, OF p ne assms(7,8) assms(5) [unfolded assms(4)] assms(9) [unfolded assms(4)] rcv]
    unfolding assms(4) by blast
  have "\<exists>inp'. other_layout (receive_layout fe junk env1 l1 reg1 host) host errno g0 inp
            = Some (Inr ((layout_from env reg l fe env1 l1 reg1, numbered g (int (r0 + 1 + i)) g0), inp'))"
    if i: "i < length (to_ranks w)" and inp: "incoming inp = drop (length (outgoing (to_ranks w ! i))) (outgoing (to_ranks w' ! i))"
      "read_ready (length (incoming inp)) inp" for i inp host g0 fe env1 l1 reg1
  proof -
    have a: "incoming inp = rank_text h (header_of h ?p) (used b) g (r0 + 1 + i)" using inp(1) w'(2) i by (simp add: assms(4))
    have r: "r0 + 1 + i < 2 ^ 31" using assms(8) i by simp
    from other_layout_ok [OF p ne assms(6) r a inp(2), of "receive_layout fe junk env1 l1 reg1 host" host errno g0]
    show ?thesis unfolding rcv sum.case .
  qed
  with w'(1,3) show ?thesis by (intro exI [of _ w']) blast
qed

text \<open>The console and rank 0 on big-endian hosts, rank 1 on a little-endian one.\<close>

definition two_ranks :: launch_args where
  "two_ranks = \<lparr>launch_args.cluster_rank = 0, cluster_size = 1, launch_args.cluster_offset = 0, cookie = [], console_method = [], console_from_path = [], console_to_path = [],
     proxy_host = [], proxy_port = 0, launch_args.use_proxy = False, launch_args.dcmpi_rank = 0, launch_args.totaldcmpiranks = 2, launch_args.console_filter_present = False\<rparr>"

definition start_of :: "DCBuffer \<Rightarrow> start_links" where
  "start_of b = (let hdr = header_of True (layout_packet b) in
     \<lparr>console_in = \<lparr>in_events = replicate (length hdr + length (used b)) (Read_upto 0), incoming = hdr @ used b\<rparr>,
      from_proxy = \<lparr>in_events = [], incoming = []\<rparr>, to_proxy = \<lparr>out_events = [], outgoing = []\<rparr>,
      to_ranks = [\<lparr>out_events = replicate (length (rank_text True hdr (used b) two_ranks 1)) (Write_upto 1), outgoing = []\<rparr>]\<rparr>)"

lemma socket_layout_arrives_witness:
  "\<exists>b w' g' inp' env reg l.
      filter_instances l = [0] \<and> layout_serialize env reg True l (DCBuffer_empty True) = Inr b
    \<and> rank0_layout (receive_layout (\<lambda>_. True) 7 Map.empty l reg True) True 0 two_ranks (start_of b)
        = Some (Inr (layout_from env reg l (\<lambda>_. True) Map.empty l reg, w'))
    \<and> other_layout (receive_layout (\<lambda>_. True) 7 Map.empty l reg False) False 0 two_ranks
        \<lparr>in_events = replicate (length (outgoing (to_ranks w' ! 0))) (Read_upto 0), incoming = outgoing (to_ranks w' ! 0)\<rparr>
      = Some (Inr ((layout_from env reg l (\<lambda>_. True) Map.empty l reg, g'), inp'))
    \<and> launch_args.dcmpi_rank g' = 1 \<and> launch_args.totaldcmpiranks g' = 2"
proof -
  let ?env = "[''PATH'' \<mapsto> ''/opt/bin'', ''TERM'' \<mapsto> ''vt100'']" and ?reg = "\<lparr>filter_to_libfile_unresolved = [(''F'', ''libf.so'')],
    filter_to_libfile = [], dcmpi_filter_path = []\<rparr>"
  let ?l = LayoutWire.one_filter
  have ok: "layout_ok ?env ?reg ?l"
    by (simp add: layout_ok_def one_filter_def all_ok_def variable_ok_def short_def map_wf_def sendable_def map_ok_def pair_ok_def
        int4_ok_def DCFilterInstance_new_def less_char_def)
  have len: "2 * length (enc_layout ?env ?reg True ?l) < 2 ^ 31"
    by (simp add: enc_layout_def one_filter_def enc_variable_def enc_string_def enc_int_def enc_instance_def enc_list_def enc_pair_def
        DCFilterInstance_new_def)
  obtain b where b: "layout_serialize ?env ?reg True ?l (DCBuffer_empty True) = Inr b"
    using written_then_read [OF writes_layout [OF ok] reads_layout [OF ok, of True "\<lambda>_. True" 0 Map.empty ?l ?reg True] len] by blast
  define hdr where "hdr = header_of True (layout_packet b)"
  have arr: "arriving two_ranks [hdr, used b] (start_of b)"
    by (simp add: arriving_def two_ranks_def start_of_def Let_def hdr_def read_ready_def no_errors_def write_ready_def passed_def)
  have num: "numbers_ok two_ranks" "launch_args.dcmpi_rank two_ranks = int 0" "0 + length (to_ranks (start_of b)) < 2 ^ 31"
    by (simp_all add: numbers_ok_def run_numbers_def two_ranks_def int4_ok_def start_of_def Let_def)
  have ready: "\<forall>i<length (to_ranks (start_of b)). write_ready (length (rank_text True hdr (used b) two_ranks (0 + 1 + i))) (to_ranks (start_of b) ! i)"
    by (auto simp: start_of_def Let_def hdr_def write_ready_def)
  from socket_layout_arrives [OF ok len b hdr_def arr num ready, of "\<lambda>_. True" 7 Map.empty ?l ?reg 0]
  show ?thesis
  proof (elim exE conjE, goal_cases)
    case r: (1 w')
    have i: "0 < length (to_ranks (start_of b))" by (simp add: start_of_def Let_def)
    let ?inp = "\<lparr>in_events = replicate (length (outgoing (to_ranks w' ! 0))) (Read_upto 0), incoming = outgoing (to_ranks w' ! 0)\<rparr>"
    have inp: "incoming ?inp = drop (length (outgoing (to_ranks (start_of b) ! 0))) (outgoing (to_ranks w' ! 0)) \<and> read_ready (length (incoming ?inp)) ?inp"
      by (simp add: start_of_def Let_def read_ready_def no_errors_def)
    obtain inp' where o: "other_layout (receive_layout (\<lambda>_. True) 7 Map.empty ?l ?reg False) False 0 two_ranks ?inp
        = Some (Inr ((layout_from ?env ?reg ?l (\<lambda>_. True) Map.empty ?l ?reg, numbered two_ranks (int (0 + 1 + 0)) two_ranks), inp'))"
      using r(3) i inp by blast
    have "launch_args.dcmpi_rank (numbered two_ranks (int (0 + 1 + 0)) two_ranks) = 1" "launch_args.totaldcmpiranks (numbered two_ranks (int (0 + 1 + 0)) two_ranks) = 2"
      by (simp_all add: numbered_def two_ranks_def)
    moreover have "filter_instances ?l = [0]" by (simp add: one_filter_def)
    ultimately show ?thesis using b r(1) o by blast
  qed
qed

end
