(* ===== verification/SocketEnd.thy ===== *)
theory SocketEnd
  imports SocketLink ShutdownCode
begin

text \<open>
  One turn of the main loop of the runtime over sockets (\<open>dcmpi_socket_mainloop\<close> of
  \<open>src/src/dcmpiruntime-socket.cpp\<close>): the messages that the filters of a process are done, the test for the end, and
  what comes from the other ranks, the console and the proxy; and that the protocol of \<open>Shutdown\<close> is what the code does.
\<close>

section \<open>Telling the others\<close>

fun socket_tell :: "bool \<Rightarrow> (int, int) std_map \<Rightarrow> int list \<Rightarrow> runtime \<Rightarrow> rank_fds \<Rightarrow> (runtime, rank_fds) io" where
  "socket_tell host clusterrank [] rt fds = ret rt fds"
| "socket_tell host clusterrank (rnk # rnks) rt fds =
     bind_io (dcmpisock_deliver_elsewhere host (done_packet rt clusterrank rnk) rt fds) (\<lambda>rt1 fds1.
       socket_tell host clusterrank rnks rt1 fds1)"

definition socket_send_done :: "bool \<Rightarrow> (int, int) std_map \<Rightarrow> runtime \<Rightarrow> rank_fds \<Rightarrow> (runtime, rank_fds) io" where
  "socket_send_done host clusterrank rt fds =
     (if \<not> sent_all_filters_done_message rt \<and> unfinished_local_gftids rt = [] \<and> nothing_to_send rt
      then socket_tell host clusterrank (other_ranks rt) (rt\<lparr>sent_all_filters_done_message := True\<rparr>) fds
      else ret rt fds)"

definition socket_may_end :: "runtime \<Rightarrow> DCMPIPacket Queue \<Rightarrow> bool" where
  "socket_may_end rt from_console \<longleftrightarrow> sent_all_filters_done_message rt
     \<and> num_all_filters_done_received rt = num_all_filters_done_expected rt
     \<and> unfinished_local_gftids rt = []
     \<and> Queue_empty (out_queues (queues (rt_process rt)) Single_mpi_outqueue)
     \<and> all_filter_done_messages_routed rt = all_filter_done_messages_to_route rt
     \<and> (handles_console rt \<longrightarrow> \<not> has_more_putters from_console \<and> Queue_empty from_console)"

section \<open>The console and the proxy\<close>

fun socket_deliver_all :: "bool \<Rightarrow> DCMPIPacket list \<Rightarrow> runtime \<Rightarrow> rank_fds \<Rightarrow> (runtime, rank_fds) io" where
  "socket_deliver_all host [] rt fds = ret rt fds"
| "socket_deliver_all host (p # ps) rt fds = bind_io (socket_deliver host p rt fds) (\<lambda>rt1 fds1. socket_deliver_all host ps rt1 fds1)"

definition socket_console_pass :: "bool \<Rightarrow> DCMPIPacket Queue \<Rightarrow> runtime \<Rightarrow> rank_fds \<Rightarrow> (runtime \<times> DCMPIPacket Queue, rank_fds) io" where
  "socket_console_pass host from_console rt fds =
     (if \<not> handles_console rt then ret (rt, from_console) fds
      else case getall_if_item_present from_console of
          (None, w) \<Rightarrow> ret (rt, w) fds
        | (Some packets, w) \<Rightarrow> bind_io (socket_deliver_all host packets rt fds) (\<lambda>rt1 fds1. ret (rt1, w) fds1))"

text \<open>The descriptors are the sockets to and from the ranks, and the one from the proxy.\<close>

record sockets =
  socket_ins :: rank_ins
  socket_outs :: rank_fds
  socket_proxy :: in_fd

definition socket_proxy_pass :: "bool \<Rightarrow> int \<Rightarrow> bool \<Rightarrow> proxy_in \<Rightarrow> runtime \<Rightarrow> sockets \<Rightarrow> (runtime \<times> proxy_in, sockets) io" where
  "socket_proxy_pass host errno ready pin rt w =
     (if mpi_rank rt \<noteq> 0 \<or> \<not> proxy_open pin then ret (rt, pin) w
      else case MUID_MemUsage (rt_process rt) (MUID_of_dcmpiruntime rt) of
          None \<Rightarrow> fail Undefined_behaviour
        | Some mu \<Rightarrow>
            (case proxy_in_pass host errno ready mu pin (socket_proxy w) of
               None \<Rightarrow> None
             | Some (Inl e) \<Rightarrow> fail e
             | Some (Inr ((pk, pin1, mu1), fd1)) \<Rightarrow>
                 let rt1 = set_budget (MUID_of_dcmpiruntime rt) mu1 rt; w1 = w\<lparr>socket_proxy := fd1\<rparr>
                 in case pk of
                      None \<Rightarrow> ret (rt1, pin1) w1
                    | Some p \<Rightarrow>
                        (case socket_deliver host p rt1 (socket_outs w1) of
                           None \<Rightarrow> None
                         | Some (Inl e) \<Rightarrow> fail e
                         | Some (Inr (rt2, outs2)) \<Rightarrow> ret (rt2, pin1) (w1\<lparr>socket_outs := outs2\<rparr>))))"

section \<open>A turn of the loop\<close>

text \<open>
  The state of the loop; \<open>True\<close> is the end, where the null pointer is put into the queue of the sending thread and the
  thread is joined. \<open>ready\<close> and \<open>proxy_ready\<close> are what \<open>poll\<close> answers.
\<close>

record socket_loop =
  loop_runtime :: runtime
  loop_heads :: "int \<Rightarrow> DCMPIPacket option"
  loop_hdr :: "char list"
  loop_console :: "DCMPIPacket Queue"
  loop_proxy :: proxy_in

definition socket_turn :: "bool \<Rightarrow> int \<Rightarrow> (int, int) std_map \<Rightarrow> (int \<Rightarrow> bool) \<Rightarrow> bool \<Rightarrow> socket_loop \<Rightarrow> sockets \<Rightarrow> (bool \<times> socket_loop, sockets) io" where
  "socket_turn host errno clusterrank ready proxy_ready st w =
     (case socket_send_done host clusterrank (loop_runtime st) (socket_outs w) of
        None \<Rightarrow> None
      | Some (Inl e) \<Rightarrow> fail e
      | Some (Inr (rt1, outs1)) \<Rightarrow>
          let st1 = st\<lparr>loop_runtime := rt1\<rparr>; w1 = w\<lparr>socket_outs := outs1\<rparr>
          in if socket_may_end rt1 (loop_console st) then ret (True, st1) w1
             else case socket_round host errno ready (loop_heads st, loop_hdr st, rt1) (socket_ins w, outs1) of
                 None \<Rightarrow> None
               | Some (Inl e) \<Rightarrow> fail e
               | Some (Inr ((heads, hdr, rt2), (ins2, outs2))) \<Rightarrow>
                   (case socket_console_pass host (loop_console st) rt2 outs2 of
                      None \<Rightarrow> None
                    | Some (Inl e) \<Rightarrow> fail e
                    | Some (Inr ((rt3, from_console), outs3)) \<Rightarrow>
                        bind_io (socket_proxy_pass host errno proxy_ready (loop_proxy st) rt3 (w1\<lparr>socket_ins := ins2, socket_outs := outs3\<rparr>))
                          (\<lambda>(rt4, pin). ret (False, \<lparr>loop_runtime = rt4, loop_heads = heads, loop_hdr = hdr,
                             loop_console = from_console, loop_proxy = pin\<rparr>))))"

section \<open>What a process hands to a neighbour\<close>

text \<open>
  The bytes that process \<open>c r\<close> has given to the queue of the console, to the queue of the proxy for
  the gateway of another cluster, and to the socket of a process of its own cluster.
\<close>

fun handed :: "bool \<Rightarrow> nat \<Rightarrow> node \<Rightarrow> runtime \<times> rank_fds \<Rightarrow> char list" where
  "handed host c Console (rt, fds) = stream host (waiting_in Mpi_to_console_queue rt)"
| "handed host c (Node d s) (rt, fds) =
     (if d = c then (case fds (int s) of None \<Rightarrow> [] | Some fd \<Rightarrow> outgoing fd)
      else if s = 0 then stream host (filter (\<lambda>p. sint (to_cluster_rank (address p)) = int d) (waiting_in Mpi_to_proxy_queue rt))
      else [])"

text \<open>Every other process of the cluster is connected and takes \<open>n\<close> more bytes.\<close>

definition mesh_ready :: "network \<Rightarrow> nat \<Rightarrow> nat \<Rightarrow> nat \<Rightarrow> rank_fds \<Rightarrow> bool" where
  "mesh_ready net c r n fds \<longleftrightarrow> (\<forall>s. is_node net (Node c s) \<and> s \<noteq> r \<longrightarrow> (\<exists>fd. fds (int s) = Some fd \<and> write_ready n fd))"

lemma write_ready_mono: "write_ready n fd \<Longrightarrow> m \<le> n \<Longrightarrow> write_ready m fd"
  by (simp add: write_ready_def)

lemma mesh_ready_mono: "mesh_ready net c r n fds \<Longrightarrow> m \<le> n \<Longrightarrow> mesh_ready net c r m fds"
  unfolding mesh_ready_def using write_ready_mono by blast

lemma done_packet_ok: "done_from net a b p \<Longrightarrow> packet_ok p"
  by (simp add: done_from_def packet_ok_def sendable_packet_def port_ok_def packet_types DCMPI_PORT_MAXLEN_SIZE_def)

section \<open>One message\<close>

text \<open>What passing on a message without a body leaves as it is.\<close>

definition keeps :: "runtime \<Rightarrow> runtime \<Rightarrow> bool" where
  "keeps rt rt' \<longleftrightarrow> same_routes rt rt' \<and> budgets rt' = budgets rt \<and> MUID_of_dcmpiruntime rt' = MUID_of_dcmpiruntime rt
     \<and> all_filter_done_messages_to_route rt' = all_filter_done_messages_to_route rt"

lemma keeps_refl [simp]: "keeps rt rt"
  by (simp add: keeps_def same_routes_def)

lemma keeps_trans: "keeps a b \<Longrightarrow> keeps b c \<Longrightarrow> keeps a c"
  by (auto simp: keeps_def dest: same_routes_trans)

lemma keeps_steps: "keeps rt (count_routed p rt)" "keeps rt (put_out oq p rt)"
  by (simp_all add: keeps_def) (simp_all add: count_routed_def put_out_def Let_def)

lemma socket_hop_done:
  assumes "net_ok net" and "is_node net (Node c r)" and "runs_as net c r rt"
    and "is_node net b" and "b \<noteq> Node c r" and "addressed_to net b (address p)" and p: "packet_ok p" "body p = None"
    and ready: "mesh_ready net c r (DCMPI_PACKET_HEADER_SIZE + n) fds"
  obtains rt' fds' where "dcmpisock_deliver_elsewhere host p rt fds = Some (Inr (rt', fds'))" "runs_as net c r rt'"
    "counts rt' = counts (count_routed p rt)" "keeps rt rt'"
    "mesh_ready net c r n fds'"
    "\<And>m. is_node net m \<Longrightarrow> m \<noteq> Node c r \<Longrightarrow>
      handed host c m (rt', fds') = handed host c m (rt, fds) @ (if m = hop b (Node c r) then header_of host p else [])"
proof -
  let ?rt = "count_routed p rt"
  note w = addressed_words [OF assms(1,4,6)]
  have run: "mpi_rank rt = int r" "cluster_rank rt = int c" "cluster_offset rt = int (offset_of net c)" "mpi_size rt = int (cluster_sizes net ! c)"
    "handles_console rt = (c = 0 \<and> r = 0)" "use_proxy rt = (r = 0 \<and> 1 < length (cluster_sizes net))"
    using assms(3) unfolding runs_as_def by auto
  have proxy: "use_proxy rt" if "r = 0" "int c \<noteq> cluster_of b"
    using that run(6) assms(2,4) by (cases b; cases c) auto
  have m: "messages host p = [header_of host p]" using p(2) by (simp add: messages_def)
  note less = mesh_ready_mono [OF ready, of n]
  have keeps: "keeps rt ?rt" "keeps rt (put_out oq p ?rt)" for oq using keeps_steps keeps_trans by blast+
  show thesis
  proof (cases "route_of rt (address p)")
    case To_console
    then have h: "hop b (Node c r) = Console" "c = 0"
      using w run assms(5) by (cases b; auto simp: route_of_def split: if_splits)+
    let ?rt' = "put_out Mpi_to_console_queue p ?rt"
    have "handed host c m (?rt', fds) = handed host c m (rt, fds) @ (if m = hop b (Node c r) then header_of host p else [])" for m
      unfolding h(1) by (cases m) (simp_all add: stream_def m)
    moreover have "runs_as net c r ?rt'" "counts ?rt' = counts ?rt"
      using assms(3) by (simp_all add: put_out_def Let_def runs_as_def counts_def count_routed_def)
    ultimately show thesis
      using that [of ?rt' fds] To_console less by (simp add: dcmpisock_deliver_elsewhere_def ret_def keeps)
  next
    case To_proxy
    then have r: "r = 0" "cluster_of b \<noteq> int c"
      using w run by (auto simp: route_of_def split: if_splits)
    have ncon: "\<not> (b = Console \<and> c = 0)" using To_proxy w run r by (auto simp: route_of_def)
    obtain d where d: "cluster_of b = int d" "d \<noteq> c" using r by (cases b) auto
    have h: "hop b (Node c r) = Node d 0" using r d ncon by (cases b) auto
    let ?rt' = "put_out Mpi_to_proxy_queue p ?rt"
    have "handed host c m (?rt', fds) = handed host c m (rt, fds) @ (if m = hop b (Node c r) then header_of host p else [])" for m
      unfolding h using d w(2) by (cases m) (auto simp: stream_def m)
    moreover have "runs_as net c r ?rt'" "counts ?rt' = counts ?rt"
      using assms(3) by (simp_all add: put_out_def Let_def runs_as_def counts_def count_routed_def)
    ultimately show thesis
      using that [of ?rt' fds] To_proxy less by (simp add: dcmpisock_deliver_elsewhere_def ret_def keeps)
  next
    case (To_mpi k)
    have h: "hop b (Node c r) = Node c (nat k) \<and> 0 \<le> k"
      using To_mpi w run assms(5) proxy by (cases b) (auto simp: route_of_def split: if_splits)
    have node: "is_node net (Node c (nat k))" "nat k \<noteq> r"
      using hop_is_node [OF assms(1,4,2)] h To_mpi w run assms(2,4,5) proxy
      by (cases b; auto simp: route_of_def split: if_splits)+
    obtain fd where fd: "fds k = Some fd" "write_ready (DCMPI_PACKET_HEADER_SIZE + n) fd"
      using ready [unfolded mesh_ready_def, rule_format, of "nat k"] node h by auto
    have len: "length (concat (messages host p)) = DCMPI_PACKET_HEADER_SIZE" using packet_ok_header(2) [OF p(1)] by (simp add: m)
    obtain fd' where 1: "write_packet host p fd = Some (Inr ((), fd'))" "outgoing fd' = outgoing fd @ concat (messages host p)" "write_ready n fd'"
      using write_packet_ok [OF p(1), of host n fd] fd(2) unfolding len by blast
    have "dcmpisock_deliver_elsewhere host p rt fds = Some (Inr (?rt, fds(k \<mapsto> fd')))"
      using To_mpi h node(1) run(4) fd(1) 1(1) p(2)
      by (simp add: dcmpisock_deliver_elsewhere_def Let_def socket_send_def on_fd_def ret_def count_routed_def nat_less_iff)
    moreover have "handed host c m (?rt, fds(k \<mapsto> fd')) = handed host c m (rt, fds) @ (if m = hop b (Node c r) then header_of host p else [])" for m
      using h fd(1) 1(2) by (cases m) (auto simp: m)
    moreover have "mesh_ready net c r n (fds(k \<mapsto> fd'))"
      using less 1(3) unfolding mesh_ready_def by simp
    ultimately show thesis using that [of ?rt "fds(k \<mapsto> fd')"] assms(3) keeps by simp
  qed
qed

text \<open>The loop over the other ranks.\<close>

lemma socket_tell_ok:
  assumes "net_ok net" and "is_node net (Node c r)" and "clusters_known net clusterrank"
    and "set bs \<subseteq> nodes net - {Node c r}" and "runs_as net c r rt"
    and "\<And>k. done_packet rt clusterrank k = done_packet rt0 clusterrank k"
    and "mesh_ready net c r (length bs * DCMPI_PACKET_HEADER_SIZE + n) fds"
  shows "\<exists>rt' fds'. socket_tell host clusterrank (map (dcmpi_rank_of net) bs) rt fds = Some (Inr (rt', fds'))
    \<and> runs_as net c r rt' \<and> counts rt' = counts rt \<and> keeps rt rt' \<and> mesh_ready net c r n fds'
    \<and> (\<forall>m\<in>nodes net - {Node c r}. handed host c m (rt', fds') = handed host c m (rt, fds)
        @ concat (map (\<lambda>b. header_of host (done_packet rt0 clusterrank (dcmpi_rank_of net b))) (filter (\<lambda>b. m = hop b (Node c r)) bs)))"
  using assms(4-7)
proof (induction bs arbitrary: rt fds)
  case Nil
  then show ?case by (simp add: ret_def)
next
  case (Cons b bs)
  let ?p = "done_packet rt0 clusterrank (dcmpi_rank_of net b)"
  have b: "is_node net b" "b \<noteq> Node c r" using Cons.prems(1) by (auto simp: nodes_def)
  have src: "done_from net (Node c r) b ?p"
    using done_packet_from [OF Cons.prems(2) assms(3) b(1)] unfolding Cons.prems(3) .
  note d = src [unfolded done_from_def]
  have bp: "addressed_to net b (address ?p)" "body ?p = None" using d by blast+
  have ready: "mesh_ready net c r (DCMPI_PACKET_HEADER_SIZE + (length bs * DCMPI_PACKET_HEADER_SIZE + n)) fds"
    using Cons.prems(4) by (simp add: add.assoc)
  obtain rt1 fds1 where 1: "dcmpisock_deliver_elsewhere host ?p rt fds = Some (Inr (rt1, fds1))" "runs_as net c r rt1"
    "counts rt1 = counts (count_routed ?p rt)" "keeps rt rt1" "mesh_ready net c r (length bs * DCMPI_PACKET_HEADER_SIZE + n) fds1"
    "\<And>m. is_node net m \<Longrightarrow> m \<noteq> Node c r \<Longrightarrow>
      handed host c m (rt1, fds1) = handed host c m (rt, fds) @ (if m = hop b (Node c r) then header_of host ?p else [])"
    using socket_hop_done [OF assms(1,2) Cons.prems(2) b bp(1) done_packet_ok [OF src] bp(2) ready, of host] by blast
  have cnt: "counts rt1 = counts rt"
    unfolding 1(3) done_counts [OF assms(1,2) Cons.prems(2) assms(2) src] by (simp add: counts_def)
  have same: "done_packet rt1 clusterrank k = done_packet rt0 clusterrank k" for k
    using 1(2) Cons.prems(2) Cons.prems(3) [of k] by (simp add: runs_as_def done_packet_def)
  obtain rt' fds' where "socket_tell host clusterrank (map (dcmpi_rank_of net) bs) rt1 fds1 = Some (Inr (rt', fds'))"
    "runs_as net c r rt'" "counts rt' = counts rt1" "keeps rt1 rt'" "mesh_ready net c r n fds'"
    "\<forall>m\<in>nodes net - {Node c r}. handed host c m (rt', fds') = handed host c m (rt1, fds1)
        @ concat (map (\<lambda>b. header_of host (done_packet rt0 clusterrank (dcmpi_rank_of net b))) (filter (\<lambda>b. m = hop b (Node c r)) bs))"
    using Cons.IH [OF _ 1(2) same 1(5)] Cons.prems(1) by auto
  then show ?case
    using 1(1,6) cnt keeps_trans [OF 1(4)] by (intro exI [of _ rt'] exI [of _ fds']) (auto simp: nodes_def Cons.prems(3))
qed

text \<open>All the messages, and what they leave of the state.\<close>

lemma socket_send_done_ok:
  assumes "net_ok net" and "is_node net (Node c r)" and "runs_as net c r rt" and "clusters_known net clusterrank"
    and "\<not> sent_all_filters_done_message rt \<and> unfinished_local_gftids rt = [] \<and> nothing_to_send rt"
    and "mesh_ready net c r (card (nodes net) * DCMPI_PACKET_HEADER_SIZE + n) fds"
  shows "\<exists>rt' fds' bs. socket_send_done host clusterrank rt fds = Some (Inr (rt', fds')) \<and> set bs = nodes net - {Node c r} \<and> distinct bs
    \<and> runs_as net c r rt' \<and> counts rt' = counts (rt\<lparr>sent_all_filters_done_message := True\<rparr>) \<and> keeps rt rt' \<and> mesh_ready net c r n fds'
    \<and> (\<forall>m\<in>nodes net - {Node c r}. handed host c m (rt', fds') = handed host c m (rt, fds)
        @ concat (map (\<lambda>b. header_of host (done_packet rt clusterrank (dcmpi_rank_of net b))) (filter (\<lambda>b. m = hop b (Node c r)) bs)))"
proof -
  let ?rt1 = "rt\<lparr>sent_all_filters_done_message := True\<rparr>"
  obtain bs where bs: "other_ranks rt = map (dcmpi_rank_of net) bs" "set bs = nodes net - {Node c r}" "distinct bs"
    using other_ranks_nodes [OF assms(2,3)] .
  have "length bs \<le> card (nodes net)"
    using distinct_card [OF bs(3)] bs(2) card_mono [of "nodes net" "nodes net - {Node c r}"] by simp
  then have ready: "mesh_ready net c r (length bs * DCMPI_PACKET_HEADER_SIZE + n) fds"
    using mesh_ready_mono [OF assms(6)] by simp
  have "runs_as net c r ?rt1" using assms(3) by (simp add: runs_as_def)
  moreover have "done_packet ?rt1 clusterrank k = done_packet rt clusterrank k" for k by (simp add: done_packet_def)
  ultimately obtain rt' fds' where t: "socket_tell host clusterrank (other_ranks rt) ?rt1 fds = Some (Inr (rt', fds'))"
    "runs_as net c r rt'" "counts rt' = counts ?rt1" "keeps ?rt1 rt'" "mesh_ready net c r n fds'"
    "\<forall>m\<in>nodes net - {Node c r}. handed host c m (rt', fds') = handed host c m (?rt1, fds)
      @ concat (map (\<lambda>b. header_of host (done_packet rt clusterrank (dcmpi_rank_of net b))) (filter (\<lambda>b. m = hop b (Node c r)) bs))"
    using socket_tell_ok [OF assms(1,2,4) equalityD1 [OF bs(2)], of ?rt1 rt n fds host] ready unfolding bs(1) by blast
  have "handed host c m (?rt1, fds) = handed host c m (rt, fds)" for m fds by (cases m) (simp_all add: waiting_in_def)
  note handed = t(6) [unfolded this]
  have "keeps rt ?rt1" by (simp add: keeps_def same_routes_def budgets_def route_of_def charged_to_def fun_eq_iff)
  then have keeps: "keeps rt rt'" using t(4) by (rule keeps_trans)
  have "socket_send_done host clusterrank rt fds = Some (Inr (rt', fds'))"
    unfolding socket_send_done_def if_P [OF assms(5)] by (rule t(1))
  with bs(2,3) t(2,3,5) handed keeps show ?thesis by blast
qed

section \<open>A turn with nothing to read\<close>

lemma set_budget_same: "MUID_MemUsage (rt_process rt) m = Some mu \<Longrightarrow> set_budget m mu rt = rt"
  by (simp add: set_budget_def Let_def fun_upd_idem)

lemma socket_ranks_quiet:
  "MUID_MemUsage (rt_process rt) (MUID_of_dcmpiruntime rt) = Some mu \<Longrightarrow>
   socket_ranks host errno (\<lambda>_. False) is (heads, hdr, rt) (ins, outs) = Some (Inr ((heads, hdr, rt), (ins, outs)))"
proof (induction "is")
  case (Cons i "is")
  have "socket_rank host errno (\<lambda>_. False) i (heads, hdr, rt) (ins, outs) = Some (Inr ((heads, hdr, rt), (ins, outs)))"
    using Cons.prems
    by (simp add: socket_rank_def socket_receive_def ret_def set_budget_same fun_upd_idem split: option.splits)
  then show ?case using Cons by simp
qed (simp add: ret_def)

lemma socket_proxy_quiet:
  "MUID_MemUsage (rt_process rt) (MUID_of_dcmpiruntime rt) = Some mu \<Longrightarrow> proxy_in_state pin = PROXY_IN_NEED_HEAD \<Longrightarrow>
   socket_proxy_pass host errno False pin rt w = Some (Inr ((rt, pin), w))"
  by (simp add: socket_proxy_pass_def proxy_in_pass_def ret_def set_budget_same)

lemma socket_turn_quiet:
  assumes "socket_send_done host clusterrank (loop_runtime st) (socket_outs w) = Some (Inr (rt, outs))"
    and "MUID_MemUsage (rt_process rt) (MUID_of_dcmpiruntime rt) = Some mu"
    and "Queue.q (loop_console st) = []" and "proxy_in_state (loop_proxy st) = PROXY_IN_NEED_HEAD"
  shows "socket_turn host errno clusterrank (\<lambda>_. False) False st w
    = Some (Inr ((socket_may_end rt (loop_console st), st\<lparr>loop_runtime := rt\<rparr>), w\<lparr>socket_outs := outs\<rparr>))"
proof -
  have "socket_console_pass host (loop_console st) rt outs = Some (Inr ((rt, loop_console st), outs))"
    using assms(3) by (simp add: socket_console_pass_def getall_if_item_present_def ret_def)
  moreover have "socket_round host errno (\<lambda>_. False) (loop_heads st, loop_hdr st, rt) (socket_ins w, outs)
      = Some (Inr ((loop_heads st, loop_hdr st, rt), (socket_ins w, outs)))"
    unfolding socket_round_def by (rule socket_ranks_quiet [OF assms(2)])
  ultimately show ?thesis
    using assms(1) socket_proxy_quiet [OF assms(2,4)] by (simp add: socket_turn_def Let_def ret_def)
qed

lemma same_place:
  assumes "runs_as net c r rt" and "runs_as net c r rt'"
  shows "messages_to_route rt = messages_to_route rt'" and "num_all_filters_done_expected rt = num_all_filters_done_expected rt'"
proof -
  have f: "mpi_rank rt = mpi_rank rt'" "mpi_size rt = mpi_size rt'" "cluster_rank rt = cluster_rank rt'"
    "console_filter_present rt = console_filter_present rt'" "totaldcmpiranks rt = totaldcmpiranks rt'"
    using assms unfolding runs_as_def by metis+
  show "messages_to_route rt = messages_to_route rt'" "num_all_filters_done_expected rt = num_all_filters_done_expected rt'"
    by (simp_all only: messages_to_route_def num_all_filters_done_expected_def f)
qed

section \<open>A message that overtakes a packet\<close>

text \<open>
  The sending thread has taken the last packet from its queue, which is empty then, but has not written it
  yet. The main loop finds nothing to send and writes its messages first: the neighbour reads that this process is done
  before it reads the packet. (Rank 0, which counts such messages to know when it may leave, can be gone before it
  reads a packet that it should pass on.)
\<close>

lemma done_overtakes:
  assumes "net_ok net" and "is_node net (Node c r)" and "runs_as net c r rt" and "clusters_known net clusterrank"
    and "\<not> sent_all_filters_done_message rt" and "unfinished_local_gftids rt = []" and "nothing_to_send rt"
    and "packet_ok p" and "route_of rt (address p) = To_mpi (int k)" and "is_node net (Node c k)" and "k \<noteq> r"
    and "can_release (charged rt) (if body p = None then [] else [p]) (budgets rt)"
    and "mesh_ready net c r (card (nodes net) * DCMPI_PACKET_HEADER_SIZE + length (concat (messages host p))) fds"
  shows "\<exists>rt1 fds1 rt2 fds2 bs. socket_send_done host clusterrank rt fds = Some (Inr (rt1, fds1))
    \<and> dcmpisock_deliver_elsewhere host p rt1 fds1 = Some (Inr (rt2, fds2)) \<and> Node c k \<in> set bs
    \<and> handed host c (Node c k) (rt2, fds2) = handed host c (Node c k) (rt, fds)
        @ concat (map (\<lambda>b. header_of host (done_packet rt clusterrank (dcmpi_rank_of net b))) bs) @ concat (messages host p)"
proof -
  let ?len = "length (concat (messages host p))"
  have tell: "\<not> sent_all_filters_done_message rt \<and> unfinished_local_gftids rt = [] \<and> nothing_to_send rt" using assms(5-7) by blast
  obtain rt1 fds1 bs where bs: "set bs = nodes net - {Node c r}" and t: "socket_send_done host clusterrank rt fds = Some (Inr (rt1, fds1))"
    "keeps rt rt1" "mesh_ready net c r ?len fds1"
    "\<forall>m\<in>nodes net - {Node c r}. handed host c m (rt1, fds1) = handed host c m (rt, fds)
      @ concat (map (\<lambda>b. header_of host (done_packet rt clusterrank (dcmpi_rank_of net b))) (filter (\<lambda>b. m = hop b (Node c r)) bs))"
    using socket_send_done_ok [OF assms(1-4) tell assms(13), of host] by blast
  have "keeps rt (count_routed p rt1)" using t(2) keeps_steps(1) by (rule keeps_trans)
  then have sr: "same_routes rt (count_routed p rt1)" "budgets (count_routed p rt1) = budgets rt" by (simp_all add: keeps_def)
  note same = same_routesD(1-3) [OF sr(1)] sr(2)
  have me: "Node c k \<in> nodes net - {Node c r}" using assms(10,11) by (simp add: nodes_def)
  obtain fd where fd: "fds1 (int k) = Some fd" "write_ready (?len + 0) fd"
    using t(3) assms(10,11) unfolding mesh_ready_def by auto
  have k: "0 \<le> int k" "int k < mpi_size (count_routed p rt1)" using assms(3,10) by (simp_all add: same runs_as_def)
  have rel: "can_release (charged (count_routed p rt1)) ((if body p = None then [] else [p]) @ []) (budgets (count_routed p rt1))"
    unfolding same append_Nil2 by (rule assms(12))
  have way: "route_of rt1 (address p) = To_mpi (int k)" using same(1) assms(9) by (metis count_routed_rest(4))
  have none: "\<forall>p\<in>set []. packet_ok p" by simp
  obtain rt2 fd2 where d: "socket_send host (int k) p (count_routed p rt1) fds1 = Some (Inr (rt2, fds1(int k \<mapsto> fd2)))"
    "outgoing fd2 = outgoing fd @ concat (messages host p)"
    using socket_send_ok [where ps = "[]" and fds = fds1 and i = "int k" and rt = "count_routed p rt1", OF assms(8) k fd rel none] by blast
  have "dcmpisock_deliver_elsewhere host p rt1 fds1 = Some (Inr (rt2, fds1(int k \<mapsto> fd2)))"
    using d(1) way by (simp add: dcmpisock_deliver_elsewhere_def)
  moreover note t(1)
  moreover have "Node c k \<in> set (filter (\<lambda>b. Node c k = hop b (Node c r)) bs)" using me bs by simp
  moreover have "handed host c (Node c k) (rt2, fds1(int k \<mapsto> fd2)) = handed host c (Node c k) (rt, fds)
      @ concat (map (\<lambda>b. header_of host (done_packet rt clusterrank (dcmpi_rank_of net b))) (filter (\<lambda>b. Node c k = hop b (Node c r)) bs))
      @ concat (messages host p)"
    using bspec [OF t(4) me] fd(1) d(2) by simp
  ultimately show ?thesis by blast
qed

text \<open>The test for the end allows the step \<open>leave\<close>.\<close>

lemma socket_end_leaves:
  assumes "is_node net (Node c r)" and "runs_as net c r (rts c r)" and "runs_as net c r rt" and "runs_as net c r rt'" and "keeps rt rt'"
    and "all_filter_done_messages_to_route rt = messages_to_route rt" and "agrees s (Node c r) rt'" and "socket_may_end rt' from_console"
  shows "gone s (Node c r) \<or> shutdown_step net rts s (s\<lparr>gone := (gone s)(Node c r := True)\<rparr>)"
proof -
  note same = same_place [OF assms(4,2)] same_place [OF assms(3,2)]
  show ?thesis
    using assms(1,5-8) same by (auto simp: socket_may_end_def agrees_def keeps_def intro: shutdown_step.leave)
qed

section \<open>Properties\<close>

text \<open>
  C17. Over sockets a message of another process that its filters are done does at a process what the step
  \<open>take_hop\<close> of the protocol says: at its destination it is counted as received and written to nobody;
  elsewhere it is counted as routed, and its header, and nothing else, is written on the socket to the next process
  of its way or put into the queue to the console or the proxy.
\<close>

theorem socket_done_hop:
  assumes "net_ok net" and "is_node net (Node c r)" and "runs_as net c r rt" and "(a, b) \<in> pairs net" and "a \<noteq> Node c r"
    and "done_from net a b p" and "agrees s (Node c r) rt" and "mesh_ready net c r DCMPI_PACKET_HEADER_SIZE fds"
  shows "\<exists>rt' fds'. socket_deliver host p rt fds = Some (Inr (rt', fds')) \<and> runs_as net c r rt' \<and> agrees (take_hop a b (Node c r) s) (Node c r) rt'
    \<and> (\<forall>m\<in>nodes net - {Node c r}. handed host c m (rt', fds')
        = handed host c m (rt, fds) @ (if Node c r \<noteq> b \<and> m = hop b (Node c r) then header_of host p else []))"
proof -
  have ab: "is_node net a" "is_node net b" using assms(4) by (auto simp: pairs_def)
  note d = assms(6) [unfolded done_from_def]
  have adr: "addressed_to net b (address p)" "body p = None" using d by blast+
  have me: "this_dcmpi_rank rt = dcmpi_rank_of net (Node c r)" using assms(3) by (simp add: runs_as_def)
  have dest: "sint (to_rank (address p)) = this_dcmpi_rank rt \<longleftrightarrow> Node c r = b"
    unfolding addressed_words(1) [OF assms(1) ab(2) adr(1)] me using dcmpi_rank_inj [OF ab(2) assms(2)] by auto
  show ?thesis
  proof (cases "Node c r = b")
    case True
    let ?rt' = "rt\<lparr>num_all_filters_done_received := num_all_filters_done_received rt + 1\<rparr>"
    have del: "socket_deliver host p rt fds = Some (Inr (?rt', fds))"
      using True dest d by (simp add: socket_deliver_def dcmpisock_deliver_in_def packet_types ret_def)
    have "handed host c m (?rt', fds) = handed host c m (rt, fds)" for m by (cases m) (simp_all add: waiting_in_def)
    then show ?thesis
      using del True assms(3,7) by (intro exI [of _ ?rt'] exI [of _ fds]) (simp add: runs_as_def agrees_def take_hop_def Let_def)
  next
    case False
    have ready: "mesh_ready net c r (DCMPI_PACKET_HEADER_SIZE + 0) fds" using assms(8) by simp
    show ?thesis
    proof (rule socket_hop_done [OF assms(1-3) ab(2) False [symmetric] adr(1) done_packet_ok [OF assms(6)] adr(2) ready, of host])
      fix rt' fds'
      assume 1: "dcmpisock_deliver_elsewhere host p rt fds = Some (Inr (rt', fds'))" "runs_as net c r rt'"
        "counts rt' = counts (count_routed p rt)" "keeps rt rt'" "mesh_ready net c r 0 fds'"
        "\<And>m. is_node net m \<Longrightarrow> m \<noteq> Node c r \<Longrightarrow>
          handed host c m (rt', fds') = handed host c m (rt, fds) @ (if m = hop b (Node c r) then header_of host p else [])"
      have "agrees (take_hop a b (Node c r) s) (Node c r) rt'"
        using 1(3) assms(5,7) False unfolding done_counts [OF assms(1-3) ab(1) assms(6)]
        by (simp add: agrees_def counts_def take_hop_def Let_def)
      moreover have "socket_deliver host p rt fds = Some (Inr (rt', fds'))"
        using 1(1) dest False by (simp only: socket_deliver_def if_False)
      moreover have "handed host c m (rt', fds')
          = handed host c m (rt, fds) @ (if Node c r \<noteq> b \<and> m = hop b (Node c r) then header_of host p else [])"
        if "m \<in> nodes net - {Node c r}" for m
        using 1(6) [of m] that False by (simp only: nodes_def mem_Collect_eq Diff_iff singleton_iff simp_thms if_True)
      ultimately show ?thesis using 1(2) by blast
    qed
  qed
qed

text \<open>A message from cluster 0 of \<open>two_clusters\<close> to the last process, at rank 0 of cluster 1.\<close>

definition taking :: "nat \<Rightarrow> out_fd" where
  "taking n = \<lparr>out_events = replicate n (Write_upto 99), outgoing = []\<rparr>"

lemma taking_ready: "write_ready n (taking n)"
  by (auto simp: write_ready_def taking_def intro: exI [of _ 98])

lemma two_mesh: "c < 2 \<Longrightarrow> r < 2 \<Longrightarrow> n \<le> k \<Longrightarrow> mesh_ready two_clusters c r n [1 - int r \<mapsto> taking k]"
  using write_ready_mono [OF taking_ready] by (auto simp: mesh_ready_def two_clusters_def numeral_2_eq_2 less_Suc_eq)

theorem socket_done_hop_witness:
  "\<exists>rt' fds'. socket_deliver True (done_packet (process_of 0 1) five_ranks 3) (process_of 1 0) [1 \<mapsto> taking 200] = Some (Inr (rt', fds'))
     \<and> handed True 1 (Node 1 1) (rt', fds') = header_of True (done_packet (process_of 0 1) five_ranks 3)"
proof -
  have n: "is_node two_clusters (Node 1 0)" "is_node two_clusters (Node 0 1)" "is_node two_clusters (Node 1 1)"
    "(Node 0 1, Node 1 1) \<in> pairs two_clusters" "Node 0 1 \<noteq> Node 1 0"
    by (simp_all add: two_clusters_def pairs_def)
  have r: "dcmpi_rank_of two_clusters (Node 1 1) = 3" by (simp add: two_clusters_def offset_of_def)
  have p: "done_from two_clusters (Node 0 1) (Node 1 1) (done_packet (process_of 0 1) five_ranks 3)"
    using done_packet_from [OF process_of_runs [OF n(2)] five_ranks_known n(3)] unfolding r .
  have m: "mesh_ready two_clusters 1 0 DCMPI_PACKET_HEADER_SIZE [1 \<mapsto> taking 200]"
    using two_mesh [of 1 0 DCMPI_PACKET_HEADER_SIZE 200] by (simp add: DCMPI_PACKET_HEADER_SIZE_def DCMPI_PORT_MAXLEN_SIZE_def)
  have me: "Node 1 1 \<in> nodes two_clusters - {Node 1 0}" using n(3) by (simp add: nodes_def)
  have "handed True 1 (Node 1 1) (process_of 1 0, [1 \<mapsto> taking 200]) = []" by (simp add: taking_def)
  with socket_done_hop [OF two_clusters_ok n(1) process_of_runs [OF n(1)] n(4,5) p process_agrees m, of True]
  show ?thesis
  proof (elim exE conjE, goal_cases)
    case r: (1 rt' fds')
    have "handed True 1 (Node 1 1) (rt', fds') = header_of True (done_packet (process_of 0 1) five_ranks 3)"
      unfolding bspec [OF r(5) me] r(1) by simp
    with r(2) show ?case by blast
  qed
qed

text \<open>
  C16. A turn of the loop over sockets with nothing to read: the process tells the others once, when its filters
  are finished and nothing waits to go out, and writes one message for every other process to the next
  process on its way, which is the step \<open>tell\<close> of the protocol; otherwise it does nothing. It ends exactly when the
  test for the end holds, and then the step \<open>leave\<close> is possible, unless it has been taken.
\<close>

theorem socket_done_sent:
  assumes "net_ok net" and "is_node net (Node c r)" and "runs_as net c r (loop_runtime st)" and "clusters_known net clusterrank"
    and "agrees s (Node c r) (loop_runtime st)" and "runs_as net c r (rts c r)"
    and "all_filter_done_messages_to_route (loop_runtime st) = messages_to_route (loop_runtime st)"
    and "MUID_MemUsage (rt_process (loop_runtime st)) (MUID_of_dcmpiruntime (loop_runtime st)) = Some mu"
    and "Queue.q (loop_console st) = []" and "proxy_in_state (loop_proxy st) = PROXY_IN_NEED_HEAD"
    and "mesh_ready net c r (card (nodes net) * DCMPI_PACKET_HEADER_SIZE) (socket_outs w)"
  shows "\<exists>rt' outs bs s'. socket_turn host errno clusterrank (\<lambda>_. False) False st w
      = Some (Inr ((socket_may_end rt' (loop_console st), st\<lparr>loop_runtime := rt'\<rparr>), w\<lparr>socket_outs := outs\<rparr>))
    \<and> runs_as net c r rt' \<and> agrees s' (Node c r) rt'
    \<and> (if sent_all_filters_done_message (loop_runtime st) \<or> unfinished_local_gftids (loop_runtime st) \<noteq> [] \<or> \<not> nothing_to_send (loop_runtime st)
       then s' = s \<and> rt' = loop_runtime st \<and> bs = []
       else shutdown_step net rts s s' \<and> s' = s\<lparr>told := (told s)(Node c r := True)\<rparr> \<and> set bs = nodes net - {Node c r} \<and> distinct bs)
    \<and> (\<forall>m\<in>nodes net - {Node c r}. handed host c m (rt', outs) = handed host c m (loop_runtime st, socket_outs w)
        @ concat (map (\<lambda>b. header_of host (done_packet (loop_runtime st) clusterrank (dcmpi_rank_of net b))) (filter (\<lambda>b. m = hop b (Node c r)) bs)))
    \<and> (socket_may_end rt' (loop_console st) \<longrightarrow> gone s' (Node c r) \<or> shutdown_step net rts s' (s'\<lparr>gone := (gone s')(Node c r := True)\<rparr>))"
proof -
  let ?rt = "loop_runtime st"
  note leave = socket_end_leaves [where rts = rts, OF assms(2,6,3) _ _ assms(7)]
  have quiet: "socket_turn host errno clusterrank (\<lambda>_. False) False st w
      = Some (Inr ((socket_may_end rt' (loop_console st), st\<lparr>loop_runtime := rt'\<rparr>), w\<lparr>socket_outs := outs\<rparr>))"
    if "socket_send_done host clusterrank ?rt (socket_outs w) = Some (Inr (rt', outs))" "keeps ?rt rt'" for rt' outs
  proof (rule socket_turn_quiet [where mu = mu, OF that(1) _ assms(9,10)])
    show "MUID_MemUsage (rt_process rt') (MUID_of_dcmpiruntime rt') = Some mu"
      using that(2) assms(8) by (simp add: keeps_def budgets_def)
  qed
  show ?thesis
  proof (cases "\<not> sent_all_filters_done_message ?rt \<and> unfinished_local_gftids ?rt = [] \<and> nothing_to_send ?rt")
    case False
    then have "socket_send_done host clusterrank ?rt (socket_outs w) = Some (Inr (?rt, socket_outs w))"
      by (auto simp: socket_send_done_def ret_def)
    from quiet [OF this keeps_refl] False assms(3,5) leave [OF assms(3) keeps_refl assms(5)] show ?thesis
      by (intro exI [of _ ?rt] exI [of _ "socket_outs w"] exI [of _ "[]"] exI [of _ s]) auto
  next
    case True
    let ?s = "s\<lparr>told := (told s)(Node c r := True)\<rparr>"
    have ready: "mesh_ready net c r (card (nodes net) * DCMPI_PACKET_HEADER_SIZE + 0) (socket_outs w)" using assms(11) by simp
    obtain rt' outs bs where bs: "set bs = nodes net - {Node c r}" "distinct bs"
      and t: "socket_send_done host clusterrank ?rt (socket_outs w) = Some (Inr (rt', outs))" "runs_as net c r rt'"
      "counts rt' = counts (?rt\<lparr>sent_all_filters_done_message := True\<rparr>)" "keeps ?rt rt'"
      "\<forall>m\<in>nodes net - {Node c r}. handed host c m (rt', outs) = handed host c m (?rt, socket_outs w)
        @ concat (map (\<lambda>b. header_of host (done_packet ?rt clusterrank (dcmpi_rank_of net b))) (filter (\<lambda>b. m = hop b (Node c r)) bs))"
      using socket_send_done_ok [OF assms(1-4) True ready, of host] by blast
    have agr: "agrees ?s (Node c r) rt'" using t(3) assms(5) by (simp add: agrees_def counts_def)
    have step: "shutdown_step net rts s ?s"
      using True assms(2,5) by (intro shutdown_step.tell) (simp_all add: agrees_def)
    from quiet [OF t(1,4)] True t(2,5) agr step bs leave [OF t(2,4) agr] show ?thesis
      by (intro exI [of _ rt'] exI [of _ outs] exI [of _ bs] exI [of _ ?s]) simp
  qed
qed

text \<open>The last process of \<open>two_clusters\<close> tells the others.\<close>

definition last_process :: socket_loop where
  "last_process = \<lparr>loop_runtime = (process_of 1 1)\<lparr>MUID_of_dcmpiruntime := 1\<rparr>, loop_heads = \<lambda>_. None, loop_hdr = [], loop_console = Queue_new, loop_proxy = proxy_in_start\<rparr>"

definition last_sockets :: sockets where
  "last_sockets = \<lparr>socket_ins = Map.empty, socket_outs = [0 \<mapsto> taking 900], socket_proxy = \<lparr>in_events = [], incoming = []\<rparr>\<rparr>"

theorem socket_done_sent_witness:
  "\<exists>rt' outs. socket_turn True 0 five_ranks (\<lambda>_. False) False last_process last_sockets
      = Some (Inr ((socket_may_end rt' (Queue_new), last_process\<lparr>loop_runtime := rt'\<rparr>), last_sockets\<lparr>socket_outs := outs\<rparr>))
    \<and> sent_all_filters_done_message rt'"
proof -
  have n: "is_node two_clusters (Node 1 1)" by (simp add: two_clusters_def)
  have r: "runs_as two_clusters 1 1 (loop_runtime last_process)"
    using process_of_runs [OF n] by (simp add: last_process_def runs_as_def)
  have a: "agrees filters_finished (Node 1 1) (loop_runtime last_process)"
    using process_agrees [of "Node 1 1" 1 1] by (simp add: last_process_def agrees_def)
  have q: "Queue.q (loop_console last_process) = []" "proxy_in_state (loop_proxy last_process) = PROXY_IN_NEED_HEAD"
    "loop_console last_process = Queue_new"
    by (simp_all add: last_process_def Queue_new_def proxy_in_start_def)
  have rt: "all_filter_done_messages_to_route (loop_runtime last_process) = messages_to_route (loop_runtime last_process)"
    by (simp add: last_process_def process_of_def messages_to_route_def)
  obtain mu where mu: "MUID_MemUsage (rt_process (loop_runtime last_process)) (MUID_of_dcmpiruntime (loop_runtime last_process)) = Some mu"
    by (simp add: last_process_def process_of_def two_filters_def)
  have "card (nodes two_clusters) = 5" using card_nodes [of two_clusters] by (simp add: two_clusters_def total_ranks_def)
  then have m: "mesh_ready two_clusters 1 1 (card (nodes two_clusters) * DCMPI_PACKET_HEADER_SIZE) (socket_outs last_sockets)"
    using two_mesh [of 1 1 805 900] by (simp add: DCMPI_PACKET_HEADER_SIZE_def DCMPI_PORT_MAXLEN_SIZE_def last_sockets_def)
  show ?thesis
    using socket_done_sent [where rts = process_of, OF two_clusters_ok n r five_ranks_known a process_of_runs [OF n] rt mu q(1,2) m, of True 0]
  proof (elim exE conjE, goal_cases)
    case w: (1 rt' outs bs s')
    have "told s' (Node 1 1)"
      using w(4) by (simp add: last_process_def process_of_def nothing_to_send_def two_filters_def Queue_empty_def Queue_new_def)
    with w(1,3) show ?case unfolding q(3) agrees_def by blast
  qed
qed

end
