(* ===== verification/ConsoleRun.thy ===== *)
theory ConsoleRun
  imports ShutdownCode Console
begin

text \<open>
  The console's part of a run (\<open>execute2\<close> and \<open>execute3\<close> of \<open>src/src/DCLayout.cpp\<close>): the out-ports of the console
  filter, the ranks it talks to, and what it puts into the queue to rank 0 when its part is over. The processes
  and threads that these functions start, and the sockets they open, are left out.
\<close>

section \<open>The out-ports of the console filter\<close>

definition console_address :: "DCFilterInstance \<Rightarrow> string \<Rightarrow> DCFilterInstance \<Rightarrow> Gftid_Port \<Rightarrow> DCMPIPacketAddress" where
  "console_address console key remote gp =
     \<lparr>to_rank = word_of_int (dcmpi_rank remote), to_cluster_rank = word_of_int (dcmpi_cluster_rank remote),
      to_gftid = word_of_int (gp_gftid gp), to_port = gp_port gp, from_rank = word_of_int (dcmpi_rank console),
      from_cluster_rank = 0, from_gftid = word_of_int (gftid console), from_port = key\<rparr>"

fun console_writers :: "(int \<rightharpoonup> DCFilterInstance) \<Rightarrow> DCFilterInstance \<Rightarrow> string \<Rightarrow> ResolvedMultiPort \<Rightarrow> QueueWriter list result" where
  "console_writers instances console key [] = Inr []"
| "console_writers instances console key (gp # gps) =
     (case instances (gp_gftid gp) of
        None \<Rightarrow> Inl Undefined_behaviour
      | Some remote \<Rightarrow> bind_result (console_writers instances console key gps) (\<lambda>ws.
          Inr (RemoteQueueWriter (console_address console key remote gp) Console_to_mpi_queue remote # ws)))"

definition console_port :: "(QueueWriter list \<Rightarrow> QueueWriter list) \<Rightarrow> (int \<rightharpoonup> DCFilterInstance) \<Rightarrow> DCFilterInstance \<Rightarrow>
    string \<times> ResolvedMultiPort \<Rightarrow> (string, MultiOutportManager) std_map \<Rightarrow> (string, MultiOutportManager) std_map result" where
  "console_port shuffle instances console port ops =
     bind_result (console_writers instances console (fst port) (snd port)) (\<lambda>ws.
       let ops' = (if ws \<noteq> [] \<and> \<not> map_has (fst port) ops then map_put (fst port) (MultiOutportManager_new ROUND_ROBIN) ops else ops)
       in case map_of ops' (fst port) of
            None \<Rightarrow> Inl Undefined_behaviour
          | Some mom \<Rightarrow> Inr (map_put (fst port) (note_final_target shuffle (fold add_target ws mom)) ops'))"

definition console_outports :: "(QueueWriter list \<Rightarrow> QueueWriter list) \<Rightarrow> (int \<rightharpoonup> DCFilterInstance) \<Rightarrow> DCFilterInstance \<Rightarrow>
    (string, MultiOutportManager) std_map result" where
  "console_outports shuffle instances console =
     fold_result (console_port shuffle instances console) (resolved_outports console) []"

text \<open>The executor of the console filter, in the process of the console.\<close>

definition console_setup :: "(QueueWriter list \<Rightarrow> QueueWriter list) \<Rightarrow> (int \<rightharpoonup> DCFilterInstance) \<Rightarrow> DCFilterInstance \<Rightarrow> process \<Rightarrow>
    (DCFilterExecutor \<times> process) result" where
  "console_setup shuffle instances console pr =
     (let pr1 = executor_setup console pr
      in case executors pr1 (gftid console) of
           None \<Rightarrow> Inl Undefined_behaviour
         | Some ex \<Rightarrow> bind_result (console_outports shuffle instances console) (\<lambda>ops.
             let ex1 = ex\<lparr>out_ports := ops\<rparr>
             in Inr (ex1, pr1\<lparr>executors := (executors pr1)(gftid console \<mapsto> ex1)\<rparr>)))"

section \<open>The ranks it talks to\<close>

definition console_sends_to :: "(int \<rightharpoonup> DCFilterInstance) \<Rightarrow> DCFilterInstance \<Rightarrow> int std_set result" where
  "console_sends_to instances console =
     bind_result (fold_result (\<lambda>gp ranks. case instances (gp_gftid gp) of
           None \<Rightarrow> Inl Undefined_behaviour | Some remote \<Rightarrow> Inr (set_put (dcmpi_rank remote) ranks))
         (concat (map snd (resolved_outports console))) [])
       (\<lambda>ranks. if - 1 \<in> set ranks then Inl Assert_failure else Inr ranks)"

definition console_hears_from :: "(int \<rightharpoonup> DCFilterInstance) \<Rightarrow> DCFilterInstance list \<Rightarrow> int std_set result" where
  "console_hears_from instances fis =
     bind_result (fold_result (\<lambda>(fi, gp) ranks. case instances (gp_gftid gp) of
           None \<Rightarrow> Inl Undefined_behaviour
         | Some remote \<Rightarrow> Inr (if dcmpi_rank remote = - 1 then set_put (dcmpi_rank fi) ranks else ranks))
         (concat (map (\<lambda>fi. map (Pair fi) (concat (map snd (resolved_outports fi)))) (filter (\<lambda>fi. filtername fi \<noteq> ''<console>'') fis))) [])
       (\<lambda>ranks. if - 1 \<in> set ranks then Inl Assert_failure else Inr ranks)"

definition rank_clusterrank :: "DCFilterInstance list \<Rightarrow> (int, int) std_map" where
  "rank_clusterrank fis = fold (\<lambda>fi. map_put (dcmpi_rank fi) (dcmpi_cluster_rank fi)) fis []"

section \<open>The end of the console's part\<close>

definition console_done_packet :: "(int, int) std_map \<Rightarrow> int \<Rightarrow> DCMPIPacket" where
  "console_done_packet clusterrank i =
     DCMPIPacket_new \<lparr>to_rank = word_of_int i, to_cluster_rank = word_of_int (map_get_def i 0 clusterrank),
       to_gftid = - 1, to_port = [], from_rank = - 1, from_cluster_rank = 0, from_gftid = - 1, from_port = []\<rparr>
       DCMPI_PACKET_TYPE_ALL_MY_FILTERS_DONE 0 None"

text \<open>
  The queue to rank 0 as \<open>execute3\<close> leaves it to the thread that empties it; the null pointer at its end is
  \<open>None\<close>. \<open>n\<close> is the number of the hosts of the run without the console's.
\<close>

definition to_mpi :: "DCMPIPacket \<Rightarrow> queues \<Rightarrow> queues" where
  "to_mpi p qs = qs\<lparr>out_queues := (out_queues qs)(Console_to_mpi_queue := Queue_put p (out_queues qs Console_to_mpi_queue))\<rparr>"

definition execute3_puts :: "bool \<Rightarrow> DCFilterExecutor \<Rightarrow> DCFilterInstance list \<Rightarrow> nat \<Rightarrow> queues \<Rightarrow> (DCMPIPacket option list) result" where
  "execute3_puts has_console_filter ex fis n qs =
     bind_result (if has_console_filter
         then bind_result (fold_result (\<lambda>(port, mom). leave_targets (gftid (filter_instance ex)) mom) (out_ports ex) qs) (\<lambda>qs1.
           Inr (fold (\<lambda>i. to_mpi (console_done_packet (rank_clusterrank fis) (int i))) [0..<n] qs1))
         else Inr qs)
       (\<lambda>qs2. Inr (map Some (Queue.q (out_queues qs2 Console_to_mpi_queue)) @ [None]))"

section \<open>Lemmas\<close>

lemma map_put_last: "\<forall>k'\<in>fst ` set m. k' < k \<Longrightarrow> map_put k v m = m @ [(k, v)]"
  by (induction k v m rule: map_put.induct) auto

lemma map_put_replace: "\<forall>k'\<in>fst ` set m. k' < k \<Longrightarrow> map_put k v (m @ [(k, v0)]) = m @ [(k, v)]"
  by (induction m) auto

lemma map_of_above: "\<forall>k'\<in>fst ` set m. k' < (k :: 'k::linorder) \<Longrightarrow> map_of m k = None"
  by (auto simp: map_of_eq_None_iff)

lemma map_of_last: "\<forall>k'\<in>fst ` set m. k' < (k :: 'k::linorder) \<Longrightarrow> map_of (m @ [(k, v)]) k = Some v"
  by (simp add: map_add_def map_of_above)

text \<open>The writers and the managers.\<close>

definition console_writer :: "(int \<rightharpoonup> DCFilterInstance) \<Rightarrow> DCFilterInstance \<Rightarrow> string \<Rightarrow> Gftid_Port \<Rightarrow> QueueWriter" where
  "console_writer instances console key gp =
     (let remote = the (instances (gp_gftid gp)) in RemoteQueueWriter (console_address console key remote gp) Console_to_mpi_queue remote)"

definition console_manager :: "(QueueWriter list \<Rightarrow> QueueWriter list) \<Rightarrow> (int \<rightharpoonup> DCFilterInstance) \<Rightarrow> DCFilterInstance \<Rightarrow>
    string \<times> ResolvedMultiPort \<Rightarrow> string \<times> MultiOutportManager" where
  "console_manager shuffle instances console port =
     (fst port, note_final_target shuffle (fold add_target (map (console_writer instances console (fst port)) (snd port)) (MultiOutportManager_new ROUND_ROBIN)))"

definition known_ports :: "(int \<rightharpoonup> DCFilterInstance) \<Rightarrow> (string \<times> ResolvedMultiPort) list \<Rightarrow> bool" where
  "known_ports instances ports \<longleftrightarrow> (\<forall>(key, gps)\<in>set ports. gps \<noteq> [] \<and> (\<forall>gp\<in>set gps. instances (gp_gftid gp) \<noteq> None))"

lemma console_writers_ok:
  "\<forall>gp\<in>set gps. instances (gp_gftid gp) \<noteq> None \<Longrightarrow>
   console_writers instances console key gps = Inr (map (console_writer instances console key) gps)"
  by (induction gps) (auto simp: console_writer_def Let_def)

lemma console_port_ok:
  assumes "known_ports instances [port]" and "\<forall>k\<in>fst ` set ops. k < fst port"
  shows "console_port shuffle instances console port ops = Inr (ops @ [console_manager shuffle instances console port])"
proof -
  obtain key gps where p: "port = (key, gps)" by (cases port)
  have "\<not> map_has key ops"
    using map_of_above [OF assms(2)] by (simp add: p map_has_def)
  moreover have "console_writers instances console key gps = Inr (map (console_writer instances console key) gps)" "gps \<noteq> []"
    using assms(1) console_writers_ok by (simp_all add: p known_ports_def)
  ultimately show ?thesis
    using assms(2) map_of_above [OF assms(2)] unfolding p
    by (simp add: console_port_def console_manager_def map_put_last map_put_replace Let_def map_add_def)
qed

lemma console_outports_ok:
  assumes "map_wf (resolved_outports console)" and "known_ports instances (resolved_outports console)"
  shows "console_outports shuffle instances console = Inr (map (console_manager shuffle instances console) (resolved_outports console))"
proof -
  let ?man = "console_manager shuffle instances console"
  have "fold_result (console_port shuffle instances console) ports (map ?man ps) = Inr (map ?man (ps @ ports))"
    if "sorted_wrt (<) (map fst (ps @ ports))" "known_ports instances ports" for ps ports
    using that
  proof (induction ports arbitrary: ps)
    case (Cons port ports)
    have k: "known_ports instances [port]" "known_ports instances ports" using Cons.prems(2) by (auto simp: known_ports_def)
    have "\<forall>k\<in>fst ` set (map ?man ps). k < fst port"
      using Cons.prems(1) by (auto simp: sorted_wrt_append console_manager_def)
    note 1 = console_port_ok [OF k(1) this, of shuffle console]
    from Cons.IH [of "ps @ [port]"] Cons.prems(1) k(2) show ?case by (simp add: 1)
  qed simp
  from this [of "[]" "resolved_outports console"] assms show ?thesis
    by (simp add: console_outports_def map_wf_def)
qed

text \<open>What the writers put into the queue when the console leaves.\<close>

definition leaving :: "QueueWriter \<Rightarrow> DCMPIPacket" where
  "leaving w = DCMPIPacket_new (rq_addr w) DCMPI_PACKET_TYPE_REMOVE_PUTTER 0 None"

definition from_console :: "int \<Rightarrow> QueueWriter \<Rightarrow> bool" where
  "from_console g w \<longleftrightarrow> (\<exists>a r. w = RemoteQueueWriter a Console_to_mpi_queue r \<and> sint (from_gftid a) = g)"

lemma to_mpi_fold: "Queue.q (out_queues (fold (\<lambda>x. to_mpi (f x)) xs qs) Console_to_mpi_queue)
    = Queue.q (out_queues qs Console_to_mpi_queue) @ map f xs"
  by (induction xs arbitrary: qs) (simp_all add: to_mpi_def Queue_put_def)

lemma leave_all:
  "\<forall>w\<in>set ws. from_console g w \<Longrightarrow> fold_result (\<lambda>w. writer_remove_putter w g) ws qs = Inr (fold (\<lambda>w. to_mpi (leaving w)) ws qs)"
proof (induction ws arbitrary: qs)
  case (Cons w ws)
  then obtain a r where w: "w = RemoteQueueWriter a Console_to_mpi_queue r" "sint (from_gftid a) = g" by (auto simp: from_console_def)
  then have "writer_remove_putter w g qs = Inr (to_mpi (leaving w) qs)"
    by (simp add: writer_remove_putter_def to_mpi_def leaving_def)
  with Cons show ?case by simp
qed simp

lemma manager_targets:
  "targets (snd (console_manager shuffle instances console port)) = shuffle (map (console_writer instances console (fst port)) (snd port))"
  "num_targets (snd (console_manager shuffle instances console port)) = length (snd port)"
  by (simp_all add: console_manager_def note_final_target_def fold_add_target MultiOutportManager_new_def Let_def)

lemma leave_ports:
  assumes "\<And>ws. mset (shuffle ws) = mset ws" and "int4_ok (gftid console)"
  shows "fold_result (\<lambda>(port, mom). leave_targets (gftid console) mom) (map (console_manager shuffle instances console) ports) qs
    = Inr (fold (\<lambda>w. to_mpi (leaving w)) (concat (map (\<lambda>port. shuffle (map (console_writer instances console (fst port)) (snd port))) ports)) qs)"
proof (induction ports arbitrary: qs)
  case (Cons port ports)
  let ?ws = "shuffle (map (console_writer instances console (fst port)) (snd port))"
  have len: "length ?ws = length (snd port)" using arg_cong [OF assms(1), of size "map (console_writer instances console (fst port)) (snd port)"] by simp
  have "set ?ws = set (map (console_writer instances console (fst port)) (snd port))" using mset_eq_setD [OF assms(1)] .
  moreover have "sint (word_of_int (gftid console) :: int4) = gftid console" using sint_int4 assms(2) by simp
  ultimately have "\<forall>w\<in>set ?ws. from_console (gftid console) w"
    by (auto simp: from_console_def console_writer_def console_address_def Let_def)
  then have "leave_targets (gftid console) (snd (console_manager shuffle instances console port)) qs = Inr (fold (\<lambda>w. to_mpi (leaving w)) ?ws qs)"
    using leave_all len by (simp add: leave_targets_def manager_targets)
  with Cons show ?case by (simp add: case_prod_beta)
qed simp

lemma mset_shuffled:
  assumes "\<And>ws. mset (shuffle ws) = mset ws"
  shows "mset (map f (concat (map (\<lambda>p. shuffle (g p)) ps))) = mset (map f (concat (map g ps)))"
  by (induction ps) (simp_all add: assms)

section \<open>What the console announces\<close>

text \<open>
  C18. When its part is over the console has put into the queue to rank 0, behind what was there, for every
  filter that it writes to a message that it leaves the port, then for every process of the run exactly one
  message that its filters are done, with the address of that process: it does what the step \<open>tell\<close> of the
  protocol of \<open>Shutdown\<close> says of the console. The null pointer that ends the thread is the last.
\<close>

theorem console_announces:
  assumes "net_ok net" and "clusters_known net (rank_clusterrank fis)" and "n = sum_list (cluster_sizes net)"
    and "map_wf (resolved_outports console)" and "known_ports instances (resolved_outports console)"
    and "int4_ok (gftid console)" and "\<And>ws. mset (shuffle ws) = mset ws"
  shows "\<exists>ex pr' leaves dones. console_setup shuffle instances console pr = Inr (ex, pr')
    \<and> execute3_puts True ex fis n (queues pr')
        = Inr (map Some (Queue.q (out_queues (queues pr) Console_to_mpi_queue) @ leaves @ dones) @ [None])
    \<and> mset leaves = mset (map (\<lambda>(key, gp). DCMPIPacket_new (console_address console key (the (instances (gp_gftid gp))) gp) DCMPI_PACKET_TYPE_REMOVE_PUTTER 0 None)
        (concat (map (\<lambda>(key, gps). map (Pair key) gps) (resolved_outports console))))
    \<and> length dones = n
    \<and> (\<forall>c r. is_node net (Node c r) \<longrightarrow> done_from net Console (Node c r) (dones ! nat (dcmpi_rank_of net (Node c r))))"
proof -
  let ?ports = "resolved_outports console" and ?man = "console_manager shuffle instances console"
  let ?ex = "\<lparr>filter_instance = console, in_ports = map fst (resolved_inports console), out_ports = map ?man ?ports\<rparr>"
  let ?pr = "executor_setup console pr"
  let ?ws = "concat (map (\<lambda>port. shuffle (map (console_writer instances console (fst port)) (snd port))) ?ports)"
  let ?dones = "map (\<lambda>i. console_done_packet (rank_clusterrank fis) (int i)) [0..<n]"
  have made: "console_setup shuffle instances console pr = Inr (?ex, ?pr\<lparr>executors := (executors ?pr)(gftid console \<mapsto> ?ex)\<rparr>)"
    by (simp add: console_setup_def Let_def executor_setup_def console_outports_ok [OF assms(4,5)])
  have queue: "out_queues (queues ?pr) = out_queues (queues pr)" by (simp add: executor_setup_def)
  have puts: "execute3_puts True ?ex fis n (queues ?pr)
      = Inr (map Some (Queue.q (out_queues (queues pr) Console_to_mpi_queue) @ map leaving ?ws @ ?dones) @ [None])"
    by (simp add: execute3_puts_def leave_ports [OF assms(7,6)] to_mpi_fold queue)
  have "mset (map leaving ?ws) = mset (map leaving (concat (map (\<lambda>port. map (console_writer instances console (fst port)) (snd port)) ?ports)))"
    by (rule mset_shuffled [OF assms(7)])
  also have "map leaving (concat (map (\<lambda>port. map (console_writer instances console (fst port)) (snd port)) ?ports))
      = map (\<lambda>(key, gp). DCMPIPacket_new (console_address console key (the (instances (gp_gftid gp))) gp) DCMPI_PACKET_TYPE_REMOVE_PUTTER 0 None)
          (concat (map (\<lambda>(key, gps). map (Pair key) gps) ?ports))"
    by (simp add: map_concat comp_def leaving_def console_writer_def Let_def case_prod_beta)
  finally have leaves: "mset (map leaving ?ws) = mset \<dots>" .
  have "done_from net Console (Node c r) (?dones ! nat (dcmpi_rank_of net (Node c r)))" if "is_node net (Node c r)" for c r
  proof -
    have "offset_of net c + r < n" using that offset_bound assms(3) by simp
    moreover have "map_get_def (dcmpi_rank_of net (Node c r)) 0 (rank_clusterrank fis) = int c"
      using assms(2) [unfolded clusters_known_def, rule_format, of "Node c r"] that by (simp add: nodes_def)
    ultimately show ?thesis
      by (simp add: done_from_def console_done_packet_def DCMPIPacket_new_def addressed_to_def nat_int_add)
  qed
  with made puts leaves show ?thesis
    by (intro exI [of _ ?ex] exI [of _ "?pr\<lparr>executors := (executors ?pr)(gftid console \<mapsto> ?ex)\<rparr>"]
      exI [of _ "map leaving ?ws"] exI [of _ ?dones]) simp
qed

text \<open>A console that writes to one filter, on the last process of \<open>two_clusters\<close>.\<close>

definition at_rank :: "int \<Rightarrow> int \<Rightarrow> DCFilterInstance" where
  "at_rank r c = (DCFilterInstance_new ''F'' ''f'')\<lparr>dcmpi_rank := r, dcmpi_cluster_rank := c\<rparr>"

definition four_filters :: "DCFilterInstance list" where
  "four_filters = [at_rank 0 0, at_rank 1 0, at_rank 2 1, at_rank 3 1]"

definition one_console :: DCFilterInstance where
  "one_console = (DCFilterInstance_new ''<console>'' ''c'')\<lparr>gftid := 5, dcmpi_rank := - 1, resolved_outports := [(''o'', [Gftid_Port 7 ''i''])]\<rparr>"

lemma console_announces_witness:
  "\<exists>ex pr' leave dones. console_setup rev [7 \<mapsto> at_rank 3 1] one_console two_filters = Inr (ex, pr')
     \<and> execute3_puts True ex four_filters 4 (queues pr') = Inr (map Some (leave # dones) @ [None])
     \<and> to_port (address leave) = ''i'' \<and> length dones = 4 \<and> done_from two_clusters Console (Node 1 1) (dones ! 3)"
proof -
  have rc: "rank_clusterrank four_filters = [(0, 0), (1, 0), (2, 1), (3, 1)]"
    by (simp add: rank_clusterrank_def four_filters_def at_rank_def)
  have known: "clusters_known two_clusters (rank_clusterrank four_filters)"
    unfolding clusters_known_def rc
  proof
    fix b assume "b \<in> nodes two_clusters"
    then show "map_get_def (dcmpi_rank_of two_clusters b) 0 [(0, 0), (1, 0), (2, 1), (3, 1)] = cluster_of b"
      by (cases b) (auto simp: nodes_def two_clusters_def offset_of_def map_get_def_def less_Suc_eq numeral_2_eq_2)
  qed
  have ports: "4 = sum_list (cluster_sizes two_clusters)" "map_wf (resolved_outports one_console)"
    "known_ports [7 \<mapsto> at_rank 3 1] (resolved_outports one_console)" "int4_ok (gftid one_console)"
    by (simp_all add: two_clusters_def one_console_def known_ports_def map_wf_def int4_ok_def)
  have last: "is_node two_clusters (Node 1 1)" "nat (dcmpi_rank_of two_clusters (Node 1 1)) = 3"
    by (simp_all add: two_clusters_def offset_of_def)
  have empty: "Queue.q (out_queues (queues two_filters) Console_to_mpi_queue) = []" by (simp add: two_filters_def Queue_new_def)
  show ?thesis
    using console_announces [OF two_clusters_ok known ports mset_rev, of two_filters]
  proof (elim exE conjE, goal_cases)
    case r: (1 ex pr' leaves dones)
    have "mset leaves = {#DCMPIPacket_new (console_address one_console ''o'' (at_rank 3 1) (Gftid_Port 7 ''i'')) DCMPI_PACKET_TYPE_REMOVE_PUTTER 0 None#}"
      using r(3) by (simp add: one_console_def)
    then obtain p where p: "leaves = [p]" "to_port (address p) = ''i''"
      by (auto simp: mset_single_iff_right DCMPIPacket_new_def console_address_def)
    have "done_from two_clusters Console (Node 1 1) (dones ! 3)" using r(5) last by metis
    with r(1,2,4) p show ?case unfolding empty p(1) by auto
  qed
qed

end
