(* ===== verification/MpiStart.thy ===== *)
theory MpiStart
  imports LayoutStart ConfigFiles
begin

text \<open>
  The start of a run over MPI (\<open>dcmpi_mpi_get_and_broadcast_layout\<close> and the policy of writes in \<open>dcmpi_mpi_mainloop\<close>
  of \<open>src/src/dcmpiruntime.cpp\<close>) and two parts of \<open>dcmpiruntime_common_execute\<close> (\<open>src/src/dcmpiruntime-util.cpp\<close>): logging in to
  the proxy and the environment hooks. \<open>MPI_Bcast\<close> of bytes hands every rank the same bytes; of an \<open>int\<close>, the
  same number.
\<close>

section \<open>The layout\<close>

text \<open>Rank 0, with the messages that it broadcasts. The flag of the buffer stays that of the host.\<close>

definition mpi_rank0_layout :: "(DCBuffer \<Rightarrow> 'l result) \<Rightarrow> bool \<Rightarrow> int \<Rightarrow> launch_args \<Rightarrow> start_links \<Rightarrow> ('l \<times> char list list, start_links) io" where
  "mpi_rank0_layout receive host errno g w =
     bind_io (fetch errno g DCMPI_PACKET_HEADER_SIZE w) (\<lambda>hdr w1.
       case init_from_bytearray host hdr blank_packet of
         Inl e \<Rightarrow> fail e
       | Inr head \<Rightarrow>
           if sint (body_len head) < 0 then fail Undefined_behaviour
           else bind_io (fetch errno g (nat (sint (body_len head))) w1) (\<lambda>bytes w2.
             case bind_result (layout_buffer host (sint (body_len head)) host bytes) receive of
               Inl e \<Rightarrow> fail e
             | Inr l \<Rightarrow> ret (l, [hdr, bytes]) w2))"

definition mpi_other_layout :: "(DCBuffer \<Rightarrow> 'l result) \<Rightarrow> bool \<Rightarrow> char list \<Rightarrow> char list \<Rightarrow> 'l result" where
  "mpi_other_layout receive host hdr bytes =
     bind_result (init_from_bytearray host hdr blank_packet) (\<lambda>head.
       bind_result (layout_buffer host (sint (body_len head)) host bytes) receive)"

text \<open>The numbers of the run at rank \<open>i\<close>.\<close>

definition mpi_numbers :: "launch_args \<Rightarrow> int \<Rightarrow> launch_args \<Rightarrow> launch_args" where
  "mpi_numbers g i g0 =
     (let cfp = (if launch_args.console_filter_present g then 1 else 0 :: int)
      in g0\<lparr>launch_args.cluster_rank := launch_args.cluster_rank g, launch_args.cluster_size := launch_args.cluster_size g,
        launch_args.cluster_offset := launch_args.cluster_offset g, launch_args.totaldcmpiranks := launch_args.totaldcmpiranks g,
        launch_args.console_filter_present := (cfp = 1), launch_args.dcmpi_rank := launch_args.dcmpi_rank g + i\<rparr>)"

text \<open>
  On hosts of one byte order every rank has the layout of the console and numbers of its own.
\<close>

lemma mpi_layout_arrives:
  assumes "layout_ok env reg l" and "2 * length (enc_layout env reg h l) < 2 ^ 31" and "layout_serialize env reg h l (DCBuffer_empty h) = Inr b"
    and "hdr = header_of h (layout_packet b)" and "arriving g [hdr, used b] w"
  shows "\<exists>w'. mpi_rank0_layout (receive_layout fe junk env0 l0 reg0 h) h errno g w = Some (Inr ((layout_from env reg l fe env0 l0 reg0, [hdr, used b]), w'))
    \<and> outgoing (to_proxy w') = outgoing (to_proxy w) @ (if launch_args.cluster_rank g = 0 then passed g hdr @ passed g (used b) else [])
    \<and> mpi_other_layout (receive_layout fe1 junk env1 l1 reg1 h) h hdr (used b) = Inr (layout_from env reg l fe1 env1 l1 reg1)
    \<and> mpi_numbers g i g0 = numbered g (launch_args.dcmpi_rank g + i) g0"
proof -
  let ?bytes = "enc_layout env reg h l" and ?p = "layout_packet b"
  have "2 * (wSize (DCBuffer_empty h) + int (length ?bytes)) < 2 ^ 31" using assms(2) by simp
  from writesD [OF writes_layout [OF assms(1)] empty_wf(1,2,5) this]
  have b: "buf_wf b" "used b = ?bytes" using assms(3) by (metis append_Nil empty_wf(3) sum.inject(2))+
  have p: "sendable_packet ?p" "body ?p = Some b"
    using b(1) by (simp_all add: sendable_packet_def layout_packet_def DCMPIPacket_new_def port_ok_def)
  have s: "short ?bytes" using assms(2) by (simp add: short_def)
  have "length (enc_int h (int (length (propagated_environment_variables l)))) = 4" by (simp add: enc_int_def)
  then have ne: "used b \<noteq> []" unfolding b(2) enc_layout_def by (intro notI) simp
  note rcv = receive_layout_ok [OF assms(1) s, folded b(2)]
  note sz = sendable_body [OF p]
  have hdr: "init_from_bytearray h hdr blank_packet = Inr (?p\<lparr>body := None\<rparr>)" "length hdr = DCMPI_PACKET_HEADER_SIZE"
    using sendable_header [OF p(1)] by (simp_all add: assms(4) blank_packet_def DCMPIPacket_new_def)
  have short: "length hdr < 2 ^ 31" "length (used b) < 2 ^ 31"
    using hdr(2) sz(2) by (simp_all add: short_def DCMPI_PACKET_HEADER_SIZE_def DCMPI_PORT_MAXLEN_SIZE_def)
  have buf: "layout_buffer h (int (length (used b))) h (used b) = Inr (restored h (used b))" by (rule layout_buffer_ok [OF ne sz(2)])
  obtain w1 where 1: "fetch errno g (length hdr) w = Some (Inr (hdr, w1))" "arriving g [used b] w1"
    "outgoing (to_proxy w1) = outgoing (to_proxy w) @ (if launch_args.cluster_rank g = 0 then passed g hdr else [])"
    using fetch_ok [OF assms(5) short(1)] by blast
  obtain w2 where 2: "fetch errno g (length (used b)) w1 = Some (Inr (used b, w2))"
    "outgoing (to_proxy w2) = outgoing (to_proxy w1) @ (if launch_args.cluster_rank g = 0 then passed g (used b) else [])"
    using fetch_ok [OF 1(2) short(2)] by blast
  have "mpi_rank0_layout (receive_layout fe junk env0 l0 reg0 h) h errno g w = Some (Inr ((layout_from env reg l fe env0 l0 reg0, [hdr, used b]), w2))"
    using 1(1) 2(1) hdr buf rcv by (simp add: mpi_rank0_layout_def sz(1) ret_def)
  moreover have "mpi_other_layout (receive_layout fe1 junk env1 l1 reg1 h) h hdr (used b) = Inr (layout_from env reg l fe1 env1 l1 reg1)"
    using hdr(1) buf rcv by (simp add: mpi_other_layout_def sz(1) result_simps)
  moreover have "mpi_numbers g i g0 = numbered g (launch_args.dcmpi_rank g + i) g0"
    by (simp add: mpi_numbers_def numbered_def)
  ultimately show ?thesis using 1(3) 2(2) by (intro exI [of _ w2]) simp
qed

section \<open>The policy of writes\<close>

definition write_policy :: "files \<Rightarrow> string \<Rightarrow> int result" where
  "write_policy files home =
     (if files (home @ ''/portconfig'') = None then Inr ROUND_ROBIN
      else bind_result (file_to_pairs_named files (home @ ''/portconfig'')) (\<lambda>pairs.
        case map_of pairs ''write_policy'' of
          None \<Rightarrow> Inr ROUND_ROBIN
        | Some v \<Rightarrow> if v = ''RR'' then Inr ROUND_ROBIN else if v = ''random'' then Inr RANDOM else Inl Exit_failure))"

text \<open>The out-ports never meet a policy that they do not know.\<close>

lemma write_policy_known: "write_policy files home = Inr pol \<Longrightarrow> pol = ROUND_ROBIN \<or> pol = RANDOM"
  by (auto simp: write_policy_def bind_result_def split: if_splits option.splits sum.splits)

section \<open>The proxy and the environment\<close>

definition write_line_checked :: "string \<Rightarrow> out_fd \<Rightarrow> (unit, out_fd) io" where
  "write_line_checked line fd = bind_io (write_checked line fd) (\<lambda>_ fd1. write_checked [newline] fd1)"

text \<open>What goes out on one of the two connections; \<open>way\<close> is the direction as the proxy sees it.\<close>

definition proxy_login :: "launch_args \<Rightarrow> string \<Rightarrow> out_fd \<Rightarrow> (unit, out_fd) io" where
  "proxy_login g way fd =
     bind_io (write_checked (''dcmpiwuzzy'' @ [newline]) fd) (\<lambda>_ fd1.
     bind_io (write_line_checked (cookie g) fd1) (\<lambda>_ fd2.
     bind_io (write_line_checked (dcmpi_to_string (launch_args.cluster_rank g)) fd2) (\<lambda>_ fd3.
     bind_io (write_line_checked (dcmpi_to_string (launch_args.cluster_size g)) fd3) (\<lambda>_ fd4.
       write_checked (way @ [newline]) fd4))))"

text \<open>A line of the hooks: the name up to the first blank, the value behind it.\<close>

definition env_hook :: "string \<Rightarrow> environment \<Rightarrow> environment result" where
  "env_hook line env =
     (if CHR '' '' \<notin> set line then Inl Exit_failure
      else Inr (setenv (takeWhile (\<lambda>c. c \<noteq> CHR '' '') line, tl (dropWhile (\<lambda>c. c \<noteq> CHR '' '') line), 1) env))"

definition env_hooks :: "(string \<Rightarrow> bool) \<Rightarrow> files \<Rightarrow> string \<Rightarrow> string \<Rightarrow> environment \<Rightarrow> environment result" where
  "env_hooks file_exists files system_root home env =
     (let (system_fn, user_fn) = get_config_filenames file_exists system_root home ''env_hooks'' False
      in fold_result (\<lambda>fn env.
           if fn = [] then Inr env
           else bind_result (get_config_noncomment_nonempty_lines files fn) (\<lambda>lines. fold_result env_hook lines env))
         [system_fn, user_fn] env)"

lemma env_hook_sets:
  assumes "CHR '' '' \<notin> set k" and "CHR ''='' \<notin> set k" and "k \<noteq> []"
  shows "env_hook (k @ CHR '' '' # v) env = Inr (env(k \<mapsto> v))"
proof -
  have k: "\<forall>c\<in>set k. c \<noteq> CHR '' ''" using assms(1) by blast
  then have "takeWhile (\<lambda>c. c \<noteq> CHR '' '') (k @ CHR '' '' # v) = k" "dropWhile (\<lambda>c. c \<noteq> CHR '' '') (k @ CHR '' '' # v) = CHR '' '' # v"
    by (simp_all add: takeWhile_append2 dropWhile_append2)
  then show ?thesis using assms(2,3) by (simp add: env_hook_def setenv_def del: fun_upd_apply)
qed

end
