(* ===== verification/Spec2Isabelle.thy ===== *)
theory Spec2Isabelle
  imports StdContainers FdIO BufferFormats StrUtil Queues Packet FilterInstance MemUsage Outport Executor Placement RuntimeSends ShutdownCode Console Proxy Sha1 Clusters Execute1 SocketLink BufferGrowth LayoutStart SocketEnd ConsoleRun MpiStart
begin

text \<open>
  A verification library for dcmpi, a C++ middleware for filter-stream programs: a program describes a graph of
  filters (a layout), and the middleware runs the filters in processes on the hosts of one or more clusters and carries
  buffers along the edges. The library models the code under \<open>src/src\<close>; each theory opens with the files it
  models.

  How the program works, and which theory models which part.

  \<^item> The user's program, the console, builds a \<open>DCLayout\<close> of \<open>DCFilterInstance\<close>s and executes it. The first phase
    (\<open>execute1\<close>, \<open>src/src/DCLayout.cpp\<close>) checks the ports, makes the transparent copies, replaces composite
    filters by the layouts they stand for, and places the instances on hosts: \<open>FilterInstance\<close>, \<open>Layout\<close>,
    \<open>Composites\<close>, \<open>Placement\<close>, \<open>Execute1\<close>. The heap of the model maps references to instances, since the
    ports of the code point at instances that are shared.
  \<^item> The second phase starts the runtime on the hosts of every cluster, with command lines that
    configuration files fill in, and sends it the layout: \<open>ConfigFiles\<close>, \<open>Launch\<close>, \<open>Clusters\<close>, \<open>LayoutWire\<close>, and, for the
    console filter itself, \<open>ConsoleRun\<close> (\<open>execute2\<close>, \<open>execute3\<close>).
  \<^item> There are two runtimes, over MPI (\<open>src/src/dcmpiruntime.cpp\<close>) and over sockets
    (\<open>src/src/dcmpiruntime-socket.cpp\<close>). \<open>MpiStart\<close>, \<open>SocketStart\<close>, \<open>SocketMesh\<close> and \<open>LayoutStart\<close> model how a run
    starts: arguments, commands for the other ranks, registration, connections, and the broadcast of the layout
    (\<open>src/src/dcmpiruntime-util.cpp\<close>).
  \<^item> In a process of the runtime filters run as threads that read from in-ports and write to
    out-ports (\<open>Executor\<close>, \<open>Outport\<close>: \<open>DCFilterExecutor.cpp\<close>, \<open>DCFilter.cpp\<close>, \<open>MultiOutportManager.cpp\<close>) over
    queues (\<open>Queues\<close>: \<open>Queue.h\<close>), and pay for buffers out of budgets (\<open>MemUsage\<close>). A main loop delivers and routes
    packets (\<open>Runtime\<close>, \<open>RuntimeSends\<close>, \<open>RuntimeReceive\<close>; \<open>SocketLink\<close>, \<open>SocketEnd\<close>), through rank 0 to the console
    (\<open>Console\<close>: the four threads between the two processes) and through the proxy to other clusters
    (\<open>Proxy\<close>: \<open>dcmpiruntime-util.h\<close> and the stream handling of \<open>src/src/dcmpiproxy\<close>).
  \<^item> The run ends when every process has told every other that its filters are done: \<open>Shutdown\<close> is the
    protocol, over the network of \<open>Routing\<close>; \<open>ShutdownCode\<close>, \<open>SocketEnd\<close> and \<open>ConsoleRun\<close> show that the processes of
    both runtimes and the console do what it says.
  \<^item> Below all this are buffers with a byte order (\<open>Endian\<close>, \<open>Buffer\<close>, \<open>BufferGrowth\<close>, \<open>BufferFormats\<close>: \<open>DCBuffer.cpp\<close>),
    packets and their headers (\<open>Packet\<close>, \<open>PacketStream\<close>), serialised forms (\<open>BufferCodec\<close>, \<open>Ports\<close>), descriptors
    (\<open>FdIO\<close>: \<open>dcmpi_util.cpp\<close>), strings and numbers (\<open>StrUtil\<close>, \<open>Numbers\<close>), the checksum (\<open>Sha1\<close>), and the
    containers of the standard library (\<open>StdContainers\<close>). \<open>Prelude\<close> has what all theories share: failures and
    results, loops with an early exit, ranges of machine integers, blocks of memory.

  How the model corresponds to the code. A class is a record with its members, an enumeration a datatype, a
  C integer that can overflow a word or an \<open>int\<close> with the range checked, a \<open>std::map\<close> the list of its entries in the order of
  iteration. A failed assertion, a call of \<open>exit\<close> and undefined behaviour are values of \<open>failure\<close>, on the left
  of a result. An operation on a descriptor takes the descriptor with what \<open>read\<close> or \<open>write\<close> will
  return, in any pattern of short counts and errors, and gives an option: \<open>None\<close> is a call that waits for ever. A
  thread is a function of what it takes from its queue or its socket; where threads or processes interleave, there is a step
  relation (\<open>mon_step\<close>, \<open>reader_step\<close>, \<open>mem_step\<close>, \<open>mesh_step\<close>, \<open>shutdown_step\<close>). The byte order of a host is an argument.

  Interfaces. \<open>packet_channel\<close> (\<open>Channel\<close>) is what a main loop relies on in each source of packets: a pass takes
  the next packet if the budget has room and nothing else happens; from it follows that any schedule of passes is a
  queue. It is interpreted on receiving over MPI, on the proxy and on sockets. \<open>fifo\<close> is the contract of the queue,
  \<open>ordered_map\<close> and \<open>ordered_set\<close> those of the containers, \<open>codec\<close> that of a pair of a writer and a reader
  of a serialised form, on hosts of any byte orders; \<open>codec_pair\<close> composes two. They are interpreted on the
  integers, strings, ports, sets, buffers and parameters that the program serialises.

  What the lemmas show. In every component: its invariant and that the operations keep it; what each operation
  does on every branch, errors included; and that what goes in comes out (buffers, headers, instances, layouts, command
  lines, configuration files). Across components: every packet reaches its destination in at most three
  hops; packets keep their order on every link, whatever memory allows; the budgets are charged with what is held
  and nothing else; the layout arrives on every host; the connections among ranks are complete after a
  known number of steps; and the run ends: nobody waits for ever, and nobody leaves while a message needs it.
  Where the code does not do what it means to, a lemma states what it does instead (\<open>quoting\<close>, \<open>last_line_cut\<close>,
  \<open>empty_answer_spoils_file\<close>, \<open>other_rank_sets_flag\<close>, \<open>writers_mix\<close>, \<open>done_overtakes\<close>, \<open>nested_copies_assert\<close>).

  Bounds and fuel. Loops that may not end are \<open>partial_function (option)\<close> or functions over the sequence
  of events, and a theorem about them says that they return. Assumptions on sizes are those of the code's integers: less than
  2 to the 31 bytes in a buffer, less than 2 to the 30 while it grows, ranks below 2 to the 31. \<open>walk\<close> in \<open>Routing\<close> has three
  steps as its fuel, which is enough since no way is longer. Expanding composites may not end for filters
  that contain themselves; it does when their nesting is well founded (\<open>Composites\<close>).

  Not modelled.

  \<^item> System calls and libraries: opening and accepting sockets, \<open>select\<close>, processes, pthreads (the mutex and the condition
    variable are steps of their documented behaviour), MPI (messages in order, requests done in any order), \<open>getenv\<close>, \<open>stat\<close>,
    home directories, host names and addresses, random numbers, regular expressions, lzo compression, and loading
    filter libraries. What the code relies on of them is an argument of the definitions that use it.
  \<^item> Statistics, debugging output, printing, \<open>to_graphviz\<close>, redirection of output, signal handlers, and the sleeping of idle loops.
  \<^item> The parts of \<open>execute2\<close> and \<open>execute3\<close> that start and join threads and processes and clear the state of a run.
  \<^item> The log-in of \<open>src/src/dcmpiproxy\<close>, a Python program, and its merging of the streams of several clusters.
  \<^item> The menus and editors of \<open>dcmpiconfig\<close>; \<open>dcmpi-app-config\<close> and \<open>dcmpi-app-run\<close>, interactive programs over an SQL database; the
    bindings to Java and Python and the demonstration filters, which are glue; SQLite 3.3.5, a vendored library
    that only these programs call.
\<close>

end
